(* ===== verification/Prelude.thy ===== *)
theory Prelude imports Main "HOL-Library.Word" "HOL-Library.Monad_Syntax" "HOL-Library.Sublist" begin

text \<open>
  Shared vocabulary of the development: machine types, slices and indexing as the Rust
  code uses them, little-endian and big-endian reads, and the generic list facts the
  component theories rest on.

  A Rust operation that panics (a slice or an index out of range, an overflowing addition
  with overflow checks on) is a value of \<open>'a option\<close>: \<open>None\<close> is the panic. A function
  of the program that itself returns \<open>Option<T>\<close> therefore has a result of type
  \<open>'a option option\<close>, the outer level for the panic. \<open>usize\<close> is \<open>nat\<close>: slices are
  shorter than \<open>2 ^ 63\<close>, so adding a 16-bit or 32-bit length to a position inside a slice
  cannot overflow; where the operand is an arbitrary 64-bit value, \<open>uadd\<close> checks it.
\<close>

unbundle bit_operations_syntax

section \<open>Types\<close>

type_synonym u8 = "8 word"
type_synonym u16 = "16 word"
type_synonym u32 = "32 word"
type_synonym u64 = "64 word"
type_synonym bytes = "u8 list"

named_theorems rust_simps \<open>evaluation of slices, indexing and fixed-width reads\<close>
named_theorems bounds_intros \<open>results of scanners stay inside their input\<close>

section \<open>Slices and indexing\<close>

definition idx :: "'a list \<Rightarrow> nat \<Rightarrow> 'a option" where
  "idx xs i = (if i < length xs then Some (xs ! i) else None)"

definition subslice :: "'a list \<Rightarrow> nat \<Rightarrow> nat \<Rightarrow> 'a list option" where
  "subslice xs a b = (if a \<le> b \<and> b \<le> length xs then Some (take (b - a) (drop a xs)) else None)"

definition slice_from :: "'a list \<Rightarrow> nat \<Rightarrow> 'a list option" where
  "slice_from xs a = (if a \<le> length xs then Some (drop a xs) else None)"

definition usize_limit :: nat where
  "usize_limit = 2 ^ 64"

definition uadd :: "nat \<Rightarrow> nat \<Rightarrow> nat option" where
  "uadd a b = (if a + b < usize_limit then Some (a + b) else None)"

text \<open>\<open>a\<close> is a \<open>usize\<close>, so at most \<open>usize_limit - 1\<close>.\<close>

definition saturating_add :: "nat \<Rightarrow> nat \<Rightarrow> nat" where
  "saturating_add a b = max a (min (a + b) (usize_limit - 1))"

definition umul :: "nat \<Rightarrow> nat \<Rightarrow> nat option" where
  "umul a b = (if a * b < usize_limit then Some (a * b) else None)"

text \<open>\<open>1usize << n\<close>: shifting by the width or more panics.\<close>

definition ushl1 :: "nat \<Rightarrow> nat option" where
  "ushl1 n = (if n < 64 then Some (2 ^ n) else None)"

definition starts_with :: "'a list \<Rightarrow> 'a list \<Rightarrow> bool" where
  "starts_with xs p = (length p \<le> length xs \<and> take (length p) xs = p)"

definition ends_with :: "'a list \<Rightarrow> 'a list \<Rightarrow> bool" where
  "ends_with xs p = (length p \<le> length xs \<and> drop (length xs - length p) xs = p)"

lemma idx_Some [rust_simps]: "i < length xs \<Longrightarrow> idx xs i = Some (xs ! i)"
  by (simp add: idx_def)

lemma idx_eq_Some: "idx xs i = Some x \<longleftrightarrow> i < length xs \<and> x = xs ! i"
  by (auto simp: idx_def)

lemma subslice_Some [rust_simps]:
  "a \<le> b \<Longrightarrow> b \<le> length xs \<Longrightarrow> subslice xs a b = Some (take (b - a) (drop a xs))"
  by (simp add: subslice_def)

lemma subslice_eq_Some:
  "subslice xs a b = Some ys \<longleftrightarrow> a \<le> b \<and> b \<le> length xs \<and> ys = take (b - a) (drop a xs)"
  by (auto simp: subslice_def)

lemma subslice_length: "subslice xs a b = Some ys \<Longrightarrow> length ys = b - a"
  by (auto simp: subslice_eq_Some)

lemma slice_from_Some [rust_simps]: "a \<le> length xs \<Longrightarrow> slice_from xs a = Some (drop a xs)"
  by (simp add: slice_from_def)

lemma subslice_append_mid [simp]:
  "subslice (xs @ ys @ zs) (length xs) (length xs + length ys) = Some ys"
  by (simp add: subslice_def)

lemma uadd_eq_Some: "uadd a b = Some c \<longleftrightarrow> c = a + b \<and> a + b < usize_limit"
  by (auto simp: uadd_def)

lemma starts_with_prefix: "starts_with xs p \<longleftrightarrow> prefix p xs"
  by (auto simp: starts_with_def prefix_def) (metis append_take_drop_id)

lemma starts_with_append [simp]: "starts_with (p @ xs) p"
  by (simp add: starts_with_def)

lemma starts_with_Nil [simp]: "starts_with xs []"
  by (simp add: starts_with_def)

lemma starts_with_length: "starts_with xs p \<Longrightarrow> length p \<le> length xs"
  by (simp add: starts_with_def)

lemma ends_with_suffix: "ends_with xs p \<longleftrightarrow> suffix p xs"
  by (auto simp: ends_with_def suffix_def) (metis append_take_drop_id)

lemma nth_via_slice: "subslice xs a b = Some ys \<Longrightarrow> i < b - a \<Longrightarrow> ys ! i = xs ! (a + i)"
  by (auto simp: subslice_eq_Some)

text \<open>A \<open>for\<close> loop whose body may panic.\<close>

fun try_fold :: "('a \<Rightarrow> 's \<Rightarrow> 's option) \<Rightarrow> 'a list \<Rightarrow> 's \<Rightarrow> 's option" where
  "try_fold f [] s = Some s"
| "try_fold f (x # xs) s = Option.bind (f x s) (try_fold f xs)"

lemma try_fold_append: "try_fold f (xs @ ys) s = Option.bind (try_fold f xs s) (try_fold f ys)"
  by (induction xs arbitrary: s) (auto split: Option.bind_splits)

lemma try_fold_pure: "(\<And>x s. x \<in> set xs \<Longrightarrow> f x s = Some (g x s)) \<Longrightarrow> try_fold f xs s = Some (fold g xs s)"
  by (induction xs arbitrary: s) auto

lemma try_fold_preserves:
  assumes "try_fold f xs s = Some s'" "P s" "\<And>x s s'. f x s = Some s' \<Longrightarrow> P s \<Longrightarrow> P s'"
  shows "P s'"
  using assms(1,2) by (induction xs arbitrary: s) (auto simp: bind_eq_Some_conv intro: assms(3))

lemma try_fold_invariant:
  assumes "P s" "\<And>x s. x \<in> set xs \<Longrightarrow> P s \<Longrightarrow> \<exists>s'. f x s = Some s' \<and> P s'"
  shows "\<exists>s'. try_fold f xs s = Some s' \<and> P s'"
  using assms by (induction xs arbitrary: s) fastforce+

section \<open>Fixed-width reads\<close>

text \<open>\<open>le_nat\<close> is the value a run of bytes has in little-endian order, \<open>be_nat\<close> in
  big-endian order; \<open>from_le_bytes\<close> and \<open>from_be_bytes\<close> of the standard library are the
  words of that value.\<close>

fun le_nat :: "bytes \<Rightarrow> nat" where
  "le_nat [] = 0"
| "le_nat (b # bs) = unat b + 256 * le_nat bs"

definition be_nat :: "bytes \<Rightarrow> nat" where
  "be_nat bs = le_nat (rev bs)"

fun nat_le :: "nat \<Rightarrow> nat \<Rightarrow> bytes" where
  "nat_le 0 v = []"
| "nat_le (Suc n) v = word_of_nat (v mod 256) # nat_le n (v div 256)"

definition u16_from_le :: "bytes \<Rightarrow> u16" where
  "u16_from_le bs = word_of_nat (le_nat bs)"

text \<open>\<open>le16\<close> and \<open>be16\<close> of the program, written with shifts; both index the first two bytes
  of the slice they are given.\<close>

definition le16_pair :: "u8 \<Rightarrow> u8 \<Rightarrow> u16" where
  "le16_pair a b = ucast a OR push_bit 8 (ucast b)"

definition be16_pair :: "u8 \<Rightarrow> u8 \<Rightarrow> u16" where
  "be16_pair a b = push_bit 8 (ucast a) OR ucast b"

definition le16 :: "bytes \<Rightarrow> u16 option" where
  "le16 data = (case data of a # b # _ \<Rightarrow> Some (le16_pair a b) | _ \<Rightarrow> None)"

definition be16 :: "bytes \<Rightarrow> u16 option" where
  "be16 data = (case data of a # b # _ \<Rightarrow> Some (be16_pair a b) | _ \<Rightarrow> None)"

definition u32_from_le :: "bytes \<Rightarrow> u32" where
  "u32_from_le bs = word_of_nat (le_nat bs)"

definition u64_from_le :: "bytes \<Rightarrow> u64" where
  "u64_from_le bs = word_of_nat (le_nat bs)"

definition u16_from_be :: "bytes \<Rightarrow> u16" where
  "u16_from_be bs = word_of_nat (be_nat bs)"

definition u32_from_be :: "bytes \<Rightarrow> u32" where
  "u32_from_be bs = word_of_nat (be_nat bs)"

definition u64_from_be :: "bytes \<Rightarrow> u64" where
  "u64_from_be bs = word_of_nat (be_nat bs)"

lemma unat_u8_less [simp]: "unat (b :: u8) < 256"
proof -
  have "unat b < 2 ^ LENGTH(8)" by (rule unsigned_less)
  then show ?thesis by simp
qed

lemma unat_u8_le: "unat (b :: u8) \<le> 255"
  using unat_u8_less [of b] by linarith

lemma le_nat_bound: "le_nat bs < 256 ^ length bs"
proof (induction bs)
  case (Cons b bs)
  then have "le_nat bs + 1 \<le> 256 ^ length bs" by simp
  then have "256 * (le_nat bs + 1) \<le> 256 * 256 ^ length bs" by (rule mult_left_mono) simp
  then show ?case using unat_u8_less [of b] unfolding le_nat.simps list.size power_add by (simp del: unat_u8_less)
qed simp

lemma unat_of_nat_small: "n < 2 ^ LENGTH('a::len) \<Longrightarrow> unat (word_of_nat n :: 'a word) = n"
  by (simp add: unsigned_of_nat take_bit_nat_eq_self)

lemma unat_u16_from_le: "length bs \<le> 2 \<Longrightarrow> unat (u16_from_le bs) = le_nat bs"
proof -
  assume "length bs \<le> 2"
  then have "(256::nat) ^ length bs \<le> 256 ^ 2" by (intro power_increasing) auto
  then show ?thesis using le_nat_bound [of bs]
    by (simp add: u16_from_le_def unat_of_nat_small)
qed

lemma unat_u32_from_le: "length bs \<le> 4 \<Longrightarrow> unat (u32_from_le bs) = le_nat bs"
proof -
  assume "length bs \<le> 4"
  then have "(256::nat) ^ length bs \<le> 256 ^ 4" by (intro power_increasing) auto
  then show ?thesis using le_nat_bound [of bs]
    by (simp add: u32_from_le_def unat_of_nat_small)
qed

lemma unat_le16_pair: "unat (le16_pair a b) = unat a + 256 * unat b"
proof -
  have "ucast a AND push_bit 8 (ucast b) = (0 :: u16)"
    by (rule bit_eqI) (auto simp: bit_simps dest: bit_imp_le_length)
  then have "le16_pair a b = ucast a + push_bit 8 (ucast b)"
    by (simp add: le16_pair_def disjunctive_add_eq_or)
  then show ?thesis using unat_u8_less [of a] unat_u8_less [of b]
    by (simp add: unat_word_ariths push_bit_eq_mult unsigned_ucast_eq take_bit_nat_eq_self mod_simps
          del: unat_u8_less)
qed

lemma be16_pair_swap: "be16_pair a b = le16_pair b a"
  by (simp add: be16_pair_def le16_pair_def or.commute)

lemma le16_pair_from_le: "le16_pair a b = u16_from_le [a, b]"
  by (rule word_unat_eq_iff [THEN iffD2]) (simp add: unat_le16_pair unat_u16_from_le)

lemma le16_Cons [simp]: "le16 (a # b # r) = Some (le16_pair a b)"
  by (simp add: le16_def)

lemma be16_Cons [simp]: "be16 (a # b # r) = Some (be16_pair a b)"
  by (simp add: be16_def)

lemma take_drop_2: "i + 2 \<le> length xs \<Longrightarrow> take 2 (drop i xs) = [xs ! i, xs ! Suc i]"
  by (simp add: numeral_2_eq_2 Cons_nth_drop_Suc [symmetric])

lemma take_drop_4: "i + 4 \<le> length xs \<Longrightarrow>
    take 4 (drop i xs) = [xs ! i, xs ! (i + 1), xs ! (i + 2), xs ! (i + 3)]"
  by (simp add: eval_nat_numeral Cons_nth_drop_Suc [symmetric])

text \<open>The numbers at a position of a buffer, for statements about layouts.\<close>

definition u16_at :: "bytes \<Rightarrow> nat \<Rightarrow> nat" where
  "u16_at data i = le_nat (take 2 (drop i data))"

definition u32_at :: "bytes \<Rightarrow> nat \<Rightarrow> nat" where
  "u32_at data i = le_nat (take 4 (drop i data))"

lemma le16_subslice [rust_simps]:
  "i + 2 \<le> length data \<Longrightarrow> j = i + 2 \<Longrightarrow>
   Option.bind (subslice data i j) le16 = Some (le16_pair (data ! i) (data ! Suc i))"
  by (simp add: subslice_Some take_drop_2)

lemma u16_at_pair: "i + 2 \<le> length data \<Longrightarrow> unat (le16_pair (data ! i) (data ! Suc i)) = u16_at data i"
  by (simp add: u16_at_def take_drop_2 unat_le16_pair)

lemma u16_at_less: "u16_at data i < 65536"
  using le_nat_bound [of "take 2 (drop i data)"] power_increasing [of "length (take 2 (drop i data))" 2 "256::nat"]
  by (simp add: u16_at_def)

lemma u32_at_less: "u32_at data i < 2 ^ 32"
  using le_nat_bound [of "take 4 (drop i data)"] power_increasing [of "length (take 4 (drop i data))" 4 "256::nat"]
  by (simp add: u32_at_def)

lemma length_nat_le [simp]: "length (nat_le n v) = n"
  by (induction n v rule: nat_le.induct) auto

lemma nat_le_2: "nat_le 2 v = [word_of_nat (v mod 256), word_of_nat (v div 256 mod 256)]"
  by (simp add: numeral_2_eq_2)

lemma le_nat_nat_le: "le_nat (nat_le n v) = v mod 256 ^ n"
proof (induction n v rule: nat_le.induct)
  case (2 n v)
  have "v mod (256 * 256 ^ n) = 256 * (v div 256 mod 256 ^ n) + v mod 256"
    by (simp add: mod_mult2_eq)
  with 2 show ?case by (simp add: unat_of_nat)
qed simp

lemma nat_le_le_nat: "nat_le (length bs) (le_nat bs) = bs"
proof (induction bs)
  case (Cons b bs)
  then show ?case using unat_u8_less [of b] by simp
qed simp

lemma le_nat_inject: "length xs = length ys \<Longrightarrow> le_nat xs = le_nat ys \<Longrightarrow> xs = ys"
  by (metis nat_le_le_nat)

section \<open>Lists\<close>

text \<open>Pushing a value only when it is new, as the collectors of the program do.\<close>

lemma take_drop_take: "a + n \<le> m \<Longrightarrow> take n (drop a (take m xs)) = take n (drop a xs)"
  by (simp add: drop_take min_def)

lemma drop_take_append: "a \<le> length xs \<Longrightarrow> take a xs @ drop a xs = xs"
  by simp

lemma subslice_subslice:
  "subslice xs a b = Some ys \<Longrightarrow> subslice ys c d = Some zs \<Longrightarrow> subslice xs (a + c) (a + d) = Some zs"
  by (auto simp: subslice_eq_Some take_drop_take add.commute [of _ a])

lemma distinct_bounded_length:
  assumes "distinct xs" and "\<And>x. x \<in> set xs \<Longrightarrow> x < (n::nat)"
  shows "length xs \<le> n"
proof -
  have "set xs \<subseteq> {..<n}" using assms(2) by auto
  then have "card (set xs) \<le> card {..<n}" by (intro card_mono) auto
  then show ?thesis using assms(1) by (simp add: distinct_card)
qed

end
