(* ===== verification/Rust_Text.thy ===== *)
theory Rust_Text imports Prelude begin

text \<open>
  The strings of the standard library. A \<open>&str\<close> or \<open>String\<close> is the list of its Unicode
  scalar values (\<open>str\<close>), so \<open>chars()\<close> is the list itself and \<open>len()\<close>, the number of UTF-8
  bytes, is \<open>str_len\<close>. Byte offsets found by \<open>find\<close> are used by the program only to cut the
  string at the match, which the model does on the list. The UTF-8 and UTF-16 decoders,
  strict and lossy, follow the standard library: a lossy UTF-8 decode replaces every maximal
  ill-formed prefix by U+FFFD.
\<close>

section \<open>Characters and strings\<close>

type_synonym str = "nat list"

definition ascii :: "string \<Rightarrow> str" where
  "ascii s = map of_char s"

definition ascii_bytes :: "string \<Rightarrow> bytes" where
  "ascii_bytes s = map (\<lambda>c. word_of_nat (of_char c)) s"

definition scalar_value :: "nat \<Rightarrow> bool" where
  "scalar_value c = (c < 0x110000 \<and> \<not> (0xD800 \<le> c \<and> c \<le> 0xDFFF))"

definition char_len :: "nat \<Rightarrow> nat" where
  "char_len c = (if c < 0x80 then 1 else if c < 0x800 then 2 else if c < 0x10000 then 3 else 4)"

definition str_len :: "str \<Rightarrow> nat" where
  "str_len s = sum_list (map char_len s)"

definition is_whitespace :: "nat \<Rightarrow> bool" where
  "is_whitespace c = ((9 \<le> c \<and> c \<le> 13) \<or> c = 0x20 \<or> c = 0x85 \<or> c = 0xA0 \<or> c = 0x1680
     \<or> (0x2000 \<le> c \<and> c \<le> 0x200A) \<or> c = 0x2028 \<or> c = 0x2029 \<or> c = 0x202F \<or> c = 0x205F
     \<or> c = 0x3000)"

definition is_control :: "nat \<Rightarrow> bool" where
  "is_control c = (c < 0x20 \<or> (0x7F \<le> c \<and> c \<le> 0x9F))"

definition is_ascii_whitespace :: "nat \<Rightarrow> bool" where
  "is_ascii_whitespace c = (c = 9 \<or> c = 10 \<or> c = 12 \<or> c = 13 \<or> c = 0x20)"

definition is_ascii_digit :: "nat \<Rightarrow> bool" where
  "is_ascii_digit c = (48 \<le> c \<and> c \<le> 57)"

definition is_ascii_lowercase :: "nat \<Rightarrow> bool" where
  "is_ascii_lowercase c = (97 \<le> c \<and> c \<le> 122)"

definition is_ascii_uppercase :: "nat \<Rightarrow> bool" where
  "is_ascii_uppercase c = (65 \<le> c \<and> c \<le> 90)"

definition is_ascii_hexdigit :: "nat \<Rightarrow> bool" where
  "is_ascii_hexdigit c = (is_ascii_digit c \<or> (65 \<le> c \<and> c \<le> 70) \<or> (97 \<le> c \<and> c \<le> 102))"

definition is_ascii_punctuation :: "nat \<Rightarrow> bool" where
  "is_ascii_punctuation c = ((33 \<le> c \<and> c \<le> 47) \<or> (58 \<le> c \<and> c \<le> 64) \<or> (91 \<le> c \<and> c \<le> 96)
     \<or> (123 \<le> c \<and> c \<le> 126))"

definition to_ascii_uppercase :: "nat \<Rightarrow> nat" where
  "to_ascii_uppercase c = (if is_ascii_lowercase c then c - 32 else c)"

definition to_ascii_lowercase :: "str \<Rightarrow> str" where
  "to_ascii_lowercase s = map (\<lambda>c. if is_ascii_uppercase c then c + 32 else c) s"

definition trim_start :: "str \<Rightarrow> str" where
  "trim_start s = dropWhile is_whitespace s"

definition trim_end_matches :: "(nat \<Rightarrow> bool) \<Rightarrow> str \<Rightarrow> str" where
  "trim_end_matches p s = rev (dropWhile p (rev s))"

definition trim_matches :: "(nat \<Rightarrow> bool) \<Rightarrow> str \<Rightarrow> str" where
  "trim_matches p s = trim_end_matches p (dropWhile p s)"

definition trim :: "str \<Rightarrow> str" where
  "trim s = trim_matches is_whitespace s"

fun find_sub :: "'a list \<Rightarrow> 'a list \<Rightarrow> nat option" where
  "find_sub [] p = (if p = [] then Some 0 else None)"
| "find_sub (x # xs) p =
     (if starts_with (x # xs) p then Some 0 else map_option Suc (find_sub xs p))"

definition contains_sub :: "'a list \<Rightarrow> 'a list \<Rightarrow> bool" where
  "contains_sub xs p = (find_sub xs p \<noteq> None)"

fun join :: "'a list \<Rightarrow> 'a list list \<Rightarrow> 'a list" where
  "join sep [] = []"
| "join sep [x] = x"
| "join sep (x # y # ys) = x @ sep @ join sep (y # ys)"

fun split_on :: "'a \<Rightarrow> 'a list \<Rightarrow> 'a list list" where
  "split_on d [] = [[]]"
| "split_on d (x # xs) =
     (if x = d then [] # split_on d xs
      else (case split_on d xs of [] \<Rightarrow> [[x]] | y # ys \<Rightarrow> (x # y) # ys))"

fun nat_digits :: "nat \<Rightarrow> str" where
  "nat_digits n = (if n < 10 then [48 + n] else nat_digits (n div 10) @ [48 + n mod 10])"

declare nat_digits.simps [simp del]

text \<open>The order of texts, and insertion into a map that is kept as a list sorted by key.\<close>

fun str_less :: "str \<Rightarrow> str \<Rightarrow> bool" where
  "str_less [] t = (t \<noteq> [])"
| "str_less (c # s) [] = False"
| "str_less (c # s) (d # t) = (c < d \<or> (c = d \<and> str_less s t))"

fun member_insert :: "str \<Rightarrow> 'v \<Rightarrow> (str \<times> 'v) list \<Rightarrow> (str \<times> 'v) list" where
  "member_insert k v [] = [(k, v)]"
| "member_insert k v ((k', v') # kvs) =
     (if k = k' then (k, v) # kvs
      else if str_less k k' then (k, v) # (k', v') # kvs
      else (k', v') # member_insert k v kvs)"

definition push_new :: "'a list \<Rightarrow> 'a \<Rightarrow> 'a list" where
  "push_new out x = (if x \<in> set out then out else out @ [x])"

section \<open>UTF-8\<close>

definition utf8_cont :: "u8 \<Rightarrow> bool" where
  "utf8_cont b = (0x80 \<le> unat b \<and> unat b \<le> 0xBF)"

definition utf8_second3 :: "nat \<Rightarrow> u8 \<Rightarrow> bool" where
  "utf8_second3 x b = (if x = 0xE0 then 0xA0 \<le> unat b \<and> unat b \<le> 0xBF
     else if x = 0xED then 0x80 \<le> unat b \<and> unat b \<le> 0x9F else utf8_cont b)"

definition utf8_second4 :: "nat \<Rightarrow> u8 \<Rightarrow> bool" where
  "utf8_second4 x b = (if x = 0xF0 then 0x90 \<le> unat b \<and> unat b \<le> 0xBF
     else if x = 0xF4 then 0x80 \<le> unat b \<and> unat b \<le> 0x8F else utf8_cont b)"

text \<open>One character from the front (\<open>Inr\<close> with the rest), or the number of bytes of the
  maximal ill-formed prefix (\<open>Inl\<close>).\<close>

fun utf8_step :: "u8 \<Rightarrow> bytes \<Rightarrow> nat + (nat \<times> bytes)" where
  "utf8_step b0 bs =
    (let x = unat b0 in
     if x < 0x80 then Inr (x, bs)
     else if 0xC2 \<le> x \<and> x \<le> 0xDF then
       (case bs of b1 # r1 \<Rightarrow>
          if utf8_cont b1 then Inr ((x - 0xC0) * 64 + (unat b1 - 0x80), r1) else Inl 1
        | [] \<Rightarrow> Inl 1)
     else if 0xE0 \<le> x \<and> x \<le> 0xEF then
       (case bs of b1 # r1 \<Rightarrow>
          if utf8_second3 x b1 then
            (case r1 of b2 # r2 \<Rightarrow>
               if utf8_cont b2
               then Inr ((x - 0xE0) * 4096 + (unat b1 - 0x80) * 64 + (unat b2 - 0x80), r2)
               else Inl 2
             | [] \<Rightarrow> Inl 2)
          else Inl 1
        | [] \<Rightarrow> Inl 1)
     else if 0xF0 \<le> x \<and> x \<le> 0xF4 then
       (case bs of b1 # r1 \<Rightarrow>
          if utf8_second4 x b1 then
            (case r1 of b2 # r2 \<Rightarrow>
               if utf8_cont b2 then
                 (case r2 of b3 # r3 \<Rightarrow>
                    if utf8_cont b3
                    then Inr ((x - 0xF0) * 262144 + (unat b1 - 0x80) * 4096
                           + (unat b2 - 0x80) * 64 + (unat b3 - 0x80), r3)
                    else Inl 3
                  | [] \<Rightarrow> Inl 3)
               else Inl 2
             | [] \<Rightarrow> Inl 2)
          else Inl 1
        | [] \<Rightarrow> Inl 1)
     else Inl 1)"

declare utf8_step.simps [simp del]

lemma utf8_step_shorter: "utf8_step b bs = Inr (c, r) \<Longrightarrow> length r \<le> length bs"
  by (auto simp: utf8_step.simps Let_def split: if_splits list.splits)

function utf8_decode :: "bytes \<Rightarrow> str option" where
  "utf8_decode [] = Some []"
| "utf8_decode (b # bs) = (case utf8_step b bs of
     Inl n \<Rightarrow> None
   | Inr (c, r) \<Rightarrow> map_option ((#) c) (utf8_decode r))"
  by pat_completeness auto
termination
  by (relation "measure length") (auto dest: utf8_step_shorter)

function utf8_lossy :: "bytes \<Rightarrow> str" where
  "utf8_lossy [] = []"
| "utf8_lossy (b # bs) = (case utf8_step b bs of
     Inl n \<Rightarrow> 0xFFFD # utf8_lossy (drop (n - 1) bs)
   | Inr (c, r) \<Rightarrow> c # utf8_lossy r)"
  by pat_completeness auto
termination
  by (relation "measure length") (auto dest: utf8_step_shorter)

definition utf8_char :: "nat \<Rightarrow> bytes" where
  "utf8_char c =
    (if c < 0x80 then [word_of_nat c]
     else if c < 0x800 then [word_of_nat (0xC0 + c div 64), word_of_nat (0x80 + c mod 64)]
     else if c < 0x10000 then
       [word_of_nat (0xE0 + c div 4096), word_of_nat (0x80 + c div 64 mod 64),
        word_of_nat (0x80 + c mod 64)]
     else
       [word_of_nat (0xF0 + c div 262144), word_of_nat (0x80 + c div 4096 mod 64),
        word_of_nat (0x80 + c div 64 mod 64), word_of_nat (0x80 + c mod 64)])"

definition utf8_encode :: "str \<Rightarrow> bytes" where
  "utf8_encode s = concat (map utf8_char s)"

section \<open>UTF-16\<close>

fun utf16_decode :: "u16 list \<Rightarrow> str option" where
  "utf16_decode [] = Some []"
| "utf16_decode (w # ws) =
     (if 0xD800 \<le> w \<and> w \<le> 0xDBFF then
        (case ws of v # vs \<Rightarrow>
           if 0xDC00 \<le> v \<and> v \<le> 0xDFFF
           then map_option ((#) (0x10000 + (unat w - 0xD800) * 1024 + (unat v - 0xDC00)))
                  (utf16_decode vs)
           else None
         | [] \<Rightarrow> None)
      else if 0xDC00 \<le> w \<and> w \<le> 0xDFFF then None
      else map_option ((#) (unat w)) (utf16_decode ws))"

fun utf16_lossy :: "u16 list \<Rightarrow> str" where
  "utf16_lossy [] = []"
| "utf16_lossy (w # ws) =
     (if 0xD800 \<le> w \<and> w \<le> 0xDBFF then
        (case ws of v # vs \<Rightarrow>
           if 0xDC00 \<le> v \<and> v \<le> 0xDFFF
           then (0x10000 + (unat w - 0xD800) * 1024 + (unat v - 0xDC00)) # utf16_lossy vs
           else 0xFFFD # utf16_lossy ws
         | [] \<Rightarrow> [0xFFFD])
      else if 0xDC00 \<le> w \<and> w \<le> 0xDFFF then 0xFFFD # utf16_lossy ws
      else unat w # utf16_lossy ws)"

fun utf16_units :: "bytes \<Rightarrow> u16 list" where
  "utf16_units (a # b # r) = u16_from_le [a, b] # utf16_units r"
| "utf16_units _ = []"

fun utf16_char_bytes :: "nat \<Rightarrow> bytes" where
  "utf16_char_bytes c =
     (if c < 0x10000 then nat_le 2 c
      else nat_le 2 (0xD800 + (c - 0x10000) div 1024) @ nat_le 2 (0xDC00 + (c - 0x10000) mod 1024))"

definition utf16_encode_bytes :: "str \<Rightarrow> bytes" where
  "utf16_encode_bytes s = concat (map utf16_char_bytes s)"

section \<open>Facts\<close>

lemma ascii_simps [simp]: "ascii [] = []" "ascii (c # s) = of_char c # ascii s"
  by (simp_all add: ascii_def)

lemma str_len_simps [simp]: "str_len [] = 0" "str_len (c # s) = char_len c + str_len s"
  by (simp_all add: str_len_def)

lemma str_len_append [simp]: "str_len (s @ t) = str_len s + str_len t"
  by (simp add: str_len_def)

lemma char_len_pos [simp]: "0 < char_len c" and char_len_le: "char_len c \<le> 4"
  by (simp_all add: char_len_def)

lemma length_le_str_len: "length s \<le> str_len s"
proof (induction s)
  case (Cons c s)
  have "1 \<le> char_len c" by (simp add: char_len_def)
  with Cons show ?case by simp
qed simp

lemma str_len_zero [simp]: "str_len s = 0 \<longleftrightarrow> s = []"
  using length_le_str_len [of s] by auto

lemma str_len_ascii: "\<forall>c \<in> set s. c < 128 \<Longrightarrow> str_len s = length s"
  by (induction s) (auto simp: char_len_def)

lemma set_push_new [simp]: "set (push_new out x) = insert x (set out)"
  by (auto simp: push_new_def)

lemma distinct_push_new [simp]: "distinct (push_new out x) = distinct out"
  by (auto simp: push_new_def)

lemma length_push_new: "length (push_new out x) \<le> Suc (length out)"
  by (simp add: push_new_def)

lemma length_lowercase [simp]: "length (to_ascii_lowercase s) = length s"
  by (simp add: to_ascii_lowercase_def)

lemma find_sub_Some: "find_sub xs p = Some i \<Longrightarrow> i + length p \<le> length xs \<and> take (length p) (drop i xs) = p"
  by (induction xs p arbitrary: i rule: find_sub.induct)
     (auto simp: starts_with_def split: if_splits)

lemma find_sub_first:
  "find_sub xs p = Some i \<Longrightarrow> j < i \<Longrightarrow> \<not> starts_with (drop j xs) p"
proof (induction xs p arbitrary: i j rule: find_sub.induct)
  case (2 x xs p)
  then show ?case by (cases j) (auto split: if_splits)
qed (auto split: if_splits)

lemma contains_sub_iff: "contains_sub xs p \<longleftrightarrow> (\<exists>i \<le> length xs. starts_with (drop i xs) p)"
proof (induction xs)
  case Nil
  then show ?case by (auto simp: contains_sub_def starts_with_def)
next
  case (Cons x xs)
  have "contains_sub (x # xs) p \<longleftrightarrow> starts_with (x # xs) p \<or> contains_sub xs p"
    by (auto simp: contains_sub_def)
  also have "\<dots> \<longleftrightarrow> (\<exists>i \<le> length (x # xs). starts_with (drop i (x # xs)) p)"
    unfolding Cons.IH
    by (metis (no_types, opaque_lifting) Suc_le_mono drop0 drop_Suc_Cons le0 length_Cons not0_implies_Suc)
  finally show ?case .
qed

lemma suffix_trim_end: "prefix (trim_end_matches p s) s"
  unfolding trim_end_matches_def prefix_def
  by (metis rev_append rev_rev_ident takeWhile_dropWhile_id)

lemma set_trim_matches: "set (trim_matches p s) \<subseteq> set s"
  unfolding trim_matches_def trim_end_matches_def
  by (metis set_dropWhileD set_rev subsetI)

lemma trim_end_last: "trim_end_matches p s \<noteq> [] \<Longrightarrow> \<not> p (last (trim_end_matches p s))"
  unfolding trim_end_matches_def
  by (simp add: last_rev hd_dropWhile)

lemma length_trim: "length (trim s) \<le> length s"
  unfolding trim_def trim_matches_def trim_end_matches_def
  by (metis length_dropWhile_le length_rev le_trans)

lemma split_on_ne [simp]: "split_on d xs \<noteq> []"
  by (cases xs) (auto split: list.splits)

lemma split_on_no_sep: "p \<in> set (split_on d xs) \<Longrightarrow> d \<notin> set p"
  by (induction d xs arbitrary: p rule: split_on.induct) (auto split: if_splits list.splits)

lemma join_split_on: "join [d] (split_on d xs) = xs"
proof (induction d xs rule: split_on.induct)
  case (2 d x xs)
  obtain y ys where y: "split_on d xs = y # ys" by (cases "split_on d xs") auto
  show ?case using 2 y by (cases ys) (auto split: if_splits)
qed simp

lemma length_utf16_units: "length (utf16_units bs) = length bs div 2"
  by (induction bs rule: utf16_units.induct) auto

lemma nat_digits_inject: "nat_digits a = nat_digits b \<Longrightarrow> a = b"
proof (induction a arbitrary: b rule: less_induct)
  case (less a)
  have ne: "nat_digits n \<noteq> []" for n by (subst nat_digits.simps) simp
  show ?case
  proof (cases "a < 10 \<or> b < 10")
    case True
    then show ?thesis using less.prems ne ne [symmetric]
      by (subst (asm) (1 2) nat_digits.simps) (auto split: if_splits)
  next
    case False
    then have "nat_digits (a div 10) = nat_digits (b div 10) \<and> a mod 10 = b mod 10"
      using less.prems by (subst (asm) (1 2) nat_digits.simps) auto
    moreover have "a div 10 < a" using False by simp
    ultimately show ?thesis using less.IH by (metis div_mult_mod_eq)
  qed
qed

lemma nat_digits_digit: "c \<in> set (nat_digits n) \<Longrightarrow> is_ascii_digit c"
proof (induction n rule: nat_digits.induct)
  case (1 n)
  then show ?case by (subst (asm) (2) nat_digits.simps) (auto simp: is_ascii_digit_def split: if_splits)
qed

section \<open>Round trips of the decoders\<close>

lemma utf8_decode_ascii:
  "\<forall>b \<in> set bs. unat b < 128 \<Longrightarrow> utf8_decode bs = Some (map unat bs)"
  by (induction bs) (auto simp: utf8_step.simps)

lemma utf8_decode_Cons_ascii:
  "unat b < 128 \<Longrightarrow> utf8_decode (b # bs) = map_option ((#) (unat b)) (utf8_decode bs)"
  by (simp add: utf8_step.simps)

lemma u16_from_le_nat_le: "c < 65536 \<Longrightarrow> unat (u16_from_le (nat_le 2 c)) = c"
  by (simp add: unat_u16_from_le le_nat_nat_le)

lemma utf16_units_nat_le: "utf16_units (nat_le 2 c @ r) = u16_from_le (nat_le 2 c) # utf16_units r"
  by (simp add: numeral_2_eq_2)

lemma utf16_decode_char:
  assumes "scalar_value c"
  shows "utf16_decode (utf16_units (utf16_char_bytes c @ r)) = map_option ((#) c) (utf16_decode (utf16_units r))"
proof (cases "c < 0x10000")
  case True
  then show ?thesis using assms u16_from_le_nat_le [of c]
    by (auto simp: utf16_units_nat_le word_le_nat_alt scalar_value_def)
next
  case False
  define hi lo where "hi = 0xD800 + (c - 0x10000) div 1024" and "lo = 0xDC00 + (c - 0x10000) mod 1024"
  have c: "c < 0x110000" using assms by (simp add: scalar_value_def)
  then have b: "0xD800 \<le> hi" "hi \<le> 0xDBFF" "0xDC00 \<le> lo" "lo \<le> 0xDFFF"
    using False by (auto simp: hi_def lo_def less_mult_imp_div_less)
  have u: "unat (u16_from_le (nat_le 2 hi)) = hi" "unat (u16_from_le (nat_le 2 lo)) = lo"
    using b by (auto intro: u16_from_le_nat_le)
  have "0x10000 + (hi - 0xD800) * 1024 + (lo - 0xDC00) = c"
    using False by (simp add: hi_def lo_def)
  then show ?thesis using False b u
    by (simp add: utf16_units_nat_le word_le_nat_alt hi_def [symmetric] lo_def [symmetric])
qed

lemma utf16_decode_encode:
  "\<forall>c \<in> set s. scalar_value c \<Longrightarrow> utf16_decode (utf16_units (utf16_encode_bytes s)) = Some s"
  by (induction s) (simp_all add: utf16_encode_bytes_def utf16_decode_char del: utf16_char_bytes.simps)

lemma utf16_decode_nonzero:
  "utf16_decode ws = Some t \<Longrightarrow> 0 \<notin> set t \<Longrightarrow> 0 \<notin> set ws"
proof (induction "length ws" arbitrary: ws t rule: less_induct)
  case less
  show ?case
  proof (cases ws)
    case (Cons w vs)
    note ws = Cons
    show ?thesis
    proof (cases vs)
      case Nil
      then show ?thesis using less.prems ws by (auto split: if_splits)
    next
      case (Cons v us)
      have "0 \<notin> set us" if "utf16_decode us = Some t'" "0 \<notin> set t'" for t'
        using that less.hyps [of us t'] ws Cons by auto
      moreover have "0 \<notin> set vs" if "utf16_decode vs = Some t'" "0 \<notin> set t'" for t'
        using that less.hyps [of vs t'] ws by auto
      ultimately show ?thesis using less.prems ws Cons
        by (auto split: if_splits simp del: utf16_decode.simps(2) simp: utf16_decode.simps(2) [of w])
    qed
  qed simp
qed

lemma even_utf16_encode: "even (length (utf16_encode_bytes s))"
  by (induction s) (auto simp: utf16_encode_bytes_def)

lemma utf16_encode_ne: "s \<noteq> [] \<Longrightarrow> 2 \<le> length (utf16_encode_bytes s)"
  by (cases s) (auto simp: utf16_encode_bytes_def)

end
