(* ===== verification/Qq_Hash.thy ===== *)
theory Qq_Hash imports Rust_Text begin

text \<open>
  The base-48 names QQ gives to media files (\<open>qq_hash.rs\<close>): \<open>encode_hash\<close> writes the 16
  bytes of an MD5 digest as 23 symbols of a 48-letter alphabet, \<open>decode_hash\<close> reads them
  back and \<open>decode_hex_16\<close> reads the usual hexadecimal spelling. Both directions divide a
  little-endian list of 16-bit limbs by a small constant again and again; the locale
  \<open>long_division\<close> is the contract of one such division and is interpreted on both.
\<close>

section \<open>The alphabet\<close>

definition alphabet :: str where
  "alphabet = ascii ''0123456789ABCDEFGHIJKLMNOPQRSTUVWXYZ~@$%`(){}[]_''"

section \<open>Encoding\<close>

text \<open>One pass of the inner loop: from the highest limb down, \<open>cur\<close> is the remainder so far
  shifted over the limb. Limbs are \<open>u16\<close>, \<open>rem\<close> and \<open>cur\<close> are \<open>u32\<close>.\<close>

fun div_limbs_48 :: "u16 list \<Rightarrow> u16 list \<times> u32" where
  "div_limbs_48 [] = ([], 0)"
| "div_limbs_48 (l # ls) =
     (let (qs, rem) = div_limbs_48 ls; cur = push_bit 16 rem OR ucast l
      in (ucast (cur div 48) # qs, cur mod 48))"

fun take_digits :: "('l list \<Rightarrow> 'l list \<times> u32) \<Rightarrow> nat \<Rightarrow> 'l list \<Rightarrow> u8 list \<times> 'l list" where
  "take_digits divl 0 ls = ([], ls)"
| "take_digits divl (Suc n) ls =
     (let (qs, rem) = divl ls; (ds, rest) = take_digits divl n qs in (ucast rem # ds, rest))"

definition encode_hash :: "bytes \<Rightarrow> str option option" where
  "encode_hash bs =
     (if length bs \<noteq> 16 then Some None
      else let (digits, limbs) = take_digits div_limbs_48 23 (utf16_units bs) in
        if \<exists>v \<in> set limbs. v \<noteq> 0 then Some None
        else map_option Some (those (map (\<lambda>d. idx alphabet (unat d)) digits)))"

section \<open>Decoding\<close>

fun div_digits_256 :: "u16 list \<Rightarrow> u16 list \<times> u32" where
  "div_digits_256 [] = ([], 0)"
| "div_digits_256 (l # ls) =
     (let (qs, rem) = div_digits_256 ls; cur = rem * 48 + ucast l
      in (ucast (cur div 256) # qs, cur mod 256))"

fun position :: "nat \<Rightarrow> str \<Rightarrow> nat option" where
  "position c [] = None"
| "position c (x # xs) = (if x = c then Some 0 else map_option Suc (position c xs))"

definition symbol_value :: "nat \<Rightarrow> u16 option" where
  "symbol_value c = map_option word_of_nat (position (to_ascii_uppercase c) alphabet)"

definition decode_hash :: "str \<Rightarrow> bytes option" where
  "decode_hash t =
     (if length t \<noteq> 23 then None
      else case those (map symbol_value t) of
        None \<Rightarrow> None
      | Some digits \<Rightarrow>
          let (out, rest) = take_digits div_digits_256 16 digits in
          if \<exists>v \<in> set rest. v \<noteq> 0 then None else Some out)"

section \<open>Hexadecimal digests\<close>

text \<open>\<open>&s[a..b]\<close> on a string takes byte offsets and panics when one of them is not at a
  character boundary; \<open>u8::from_str_radix\<close> accepts one leading plus sign.\<close>

fun skip_bytes :: "nat \<Rightarrow> str \<Rightarrow> str option" where
  "skip_bytes n [] = (if n = 0 then Some [] else None)"
| "skip_bytes n (c # s) =
     (if n = 0 then Some (c # s) else if char_len c \<le> n then skip_bytes (n - char_len c) s else None)"

fun take_bytes :: "nat \<Rightarrow> str \<Rightarrow> str option" where
  "take_bytes n [] = (if n = 0 then Some [] else None)"
| "take_bytes n (c # s) =
     (if n = 0 then Some []
      else if char_len c \<le> n then map_option ((#) c) (take_bytes (n - char_len c) s) else None)"

definition str_slice :: "str \<Rightarrow> nat \<Rightarrow> nat \<Rightarrow> str option" where
  "str_slice s a b = (if a \<le> b then do { t \<leftarrow> skip_bytes a s; take_bytes (b - a) t } else None)"

definition hex_digit_value :: "nat \<Rightarrow> nat option" where
  "hex_digit_value c =
     (if is_ascii_digit c then Some (c - 48)
      else if 65 \<le> c \<and> c \<le> 70 then Some (c - 55)
      else if 97 \<le> c \<and> c \<le> 102 then Some (c - 87) else None)"

fun radix16_digits :: "nat \<Rightarrow> str \<Rightarrow> nat option" where
  "radix16_digits acc [] = Some acc"
| "radix16_digits acc (c # s) = (case hex_digit_value c of
     None \<Rightarrow> None
   | Some d \<Rightarrow> if acc * 16 + d \<le> 255 then radix16_digits (acc * 16 + d) s else None)"

definition u8_from_str_radix16 :: "str \<Rightarrow> u8 option" where
  "u8_from_str_radix16 s =
     (case s of [] \<Rightarrow> None
      | [c] \<Rightarrow> if c = 43 \<or> c = 45 then None else map_option word_of_nat (radix16_digits 0 s)
      | c # r \<Rightarrow> map_option word_of_nat (radix16_digits 0 (if c = 43 then r else s)))"

fun hex_pairs :: "nat \<Rightarrow> nat \<Rightarrow> str \<Rightarrow> bytes option option" where
  "hex_pairs 0 i s = Some (Some [])"
| "hex_pairs (Suc n) i s = do {
     p \<leftarrow> str_slice s (i * 2) (i * 2 + 2);
     case u8_from_str_radix16 p of
       None \<Rightarrow> Some None
     | Some b \<Rightarrow> do { r \<leftarrow> hex_pairs n (Suc i) s; Some (map_option ((#) b) r) } }"

definition decode_hex_16 :: "str \<Rightarrow> bytes option option" where
  "decode_hex_16 hex =
     (let clean = filter (\<lambda>ch. \<not> is_ascii_whitespace ch \<and> ch \<noteq> 58 \<and> ch \<noteq> 45) hex in
      if str_len clean \<noteq> 32 then Some None else hex_pairs 16 0 clean)"

section \<open>Long division\<close>

text \<open>The value of a little-endian digit list.\<close>

fun digits_value :: "nat \<Rightarrow> nat list \<Rightarrow> nat" where
  "digits_value B [] = 0"
| "digits_value B (d # ds) = d + B * digits_value B ds"

lemma digits_value_bound: "\<forall>d \<in> set ds. d < B \<Longrightarrow> digits_value B ds < B ^ length ds"
proof (induction ds)
  case (Cons d ds)
  then have "digits_value B ds + 1 \<le> B ^ length ds" by simp
  then have "B * (digits_value B ds + 1) \<le> B * B ^ length ds" by (rule mult_left_mono) simp
  then show ?case using Cons.prems by (simp add: algebra_simps)
qed simp

lemma digits_value_zero: "0 < B \<Longrightarrow> digits_value B ds = 0 \<longleftrightarrow> (\<forall>d \<in> set ds. d = 0)"
  by (induction ds) auto

lemma digits_value_inject:
  assumes "length xs = length ys" "\<forall>d \<in> set xs. d < B" "\<forall>d \<in> set ys. d < B"
    and "digits_value B xs = digits_value B ys"
  shows "xs = ys"
  using assms
proof (induction xs ys rule: list_induct2)
  case (Cons x xs y ys)
  have x: "(x + B * digits_value B xs) mod B = x" "(x + B * digits_value B xs) div B = digits_value B xs"
    using Cons.prems(1) by auto
  have y: "(y + B * digits_value B ys) mod B = y" "(y + B * digits_value B ys) div B = digits_value B ys"
    using Cons.prems(2) by auto
  have "x + B * digits_value B xs = y + B * digits_value B ys" using Cons.prems by simp
  then have "x = y \<and> digits_value B xs = digits_value B ys" using x y by metis
  then show ?case using Cons by simp
qed simp

locale long_division =
  fixes B D :: nat and divl :: "u16 list \<Rightarrow> u16 list \<times> u32"
  assumes D_pos: "0 < D" and B_pos: "0 < B" and D_byte: "D \<le> 256" and B_limb: "B \<le> 65536"
    and divl_Nil: "divl [] = ([], 0)"
    and divl_Cons: "divl ls = (qs, r) \<Longrightarrow> unat r < D \<Longrightarrow> unat l < B \<Longrightarrow>
      \<exists>q r'. divl (l # ls) = (q # qs, r') \<and> unat q = (unat r * B + unat l) div D
        \<and> unat r' = (unat r * B + unat l) mod D"
begin

lemma divl_spec:
  "\<forall>l \<in> set ls. unat l < B \<Longrightarrow>
   \<exists>qs r. divl ls = (qs, r) \<and> length qs = length ls \<and> (\<forall>q \<in> set qs. unat q < B) \<and> unat r < D
     \<and> digits_value B (map unat ls) = D * digits_value B (map unat qs) + unat r"
proof (induction ls)
  case Nil
  then show ?case using D_pos by (simp add: divl_Nil)
next
  case (Cons l ls)
  then obtain qs r where IH: "divl ls = (qs, r)" "length qs = length ls" "\<forall>q \<in> set qs. unat q < B"
    "unat r < D" "digits_value B (map unat ls) = D * digits_value B (map unat qs) + unat r"
    by auto
  have "unat l < B" using Cons.prems by simp
  from divl_Cons [OF IH(1,4) this] obtain q r' where
    s: "divl (l # ls) = (q # qs, r')" "unat q = (unat r * B + unat l) div D"
      "unat r' = (unat r * B + unat l) mod D" by auto
  have "unat r * B + unat l < D * B"
  proof -
    have "unat r * B + B \<le> D * B"
      using mult_le_mono1 [of "Suc (unat r)" D B] IH(4) by simp
    then show ?thesis using Cons.prems by simp
  qed
  then have "unat q < B" unfolding s(2) using D_pos by (simp add: less_mult_imp_div_less mult.commute)
  moreover have "unat r * B + unat l = D * unat q + unat r'" by (simp add: s)
  then have "digits_value B (map unat (l # ls)) = D * digits_value B (map unat (q # qs)) + unat r'"
    using IH(5) by (simp add: algebra_simps)
  moreover have "unat r' < D" using D_pos by (simp add: s)
  ultimately show ?case using s(1) IH by simp
qed

lemma take_digits_spec:
  "\<forall>l \<in> set ls. unat l < B \<Longrightarrow>
   \<exists>ds rest. take_digits divl n ls = (ds, rest) \<and> length ds = n \<and> length rest = length ls
     \<and> (\<forall>d \<in> set ds. unat d < D) \<and> (\<forall>l \<in> set rest. unat l < B)
     \<and> digits_value B (map unat ls)
         = digits_value D (map unat ds) + D ^ n * digits_value B (map unat rest)"
proof (induction n arbitrary: ls)
  case (Suc n)
  obtain qs r where d: "divl ls = (qs, r)" "length qs = length ls" "\<forall>q \<in> set qs. unat q < B"
    "unat r < D" "digits_value B (map unat ls) = D * digits_value B (map unat qs) + unat r"
    using divl_spec [OF Suc.prems] by auto
  obtain ds rest where t: "take_digits divl n qs = (ds, rest)" "length ds = n"
    "length rest = length qs" "\<forall>d \<in> set ds. unat d < D" "\<forall>l \<in> set rest. unat l < B"
    "digits_value B (map unat qs)
       = digits_value D (map unat ds) + D ^ n * digits_value B (map unat rest)"
    using Suc.IH [OF d(3)] by auto
  have "unat (ucast r :: u8) = unat r"
    using d(4) D_byte by (simp add: unsigned_ucast_eq take_bit_nat_eq_self)
  then show ?case using d t by (auto simp: algebra_simps)
qed simp

lemma take_digits_rest_zero:
  assumes "\<forall>l \<in> set ls. unat l < B" "take_digits divl n ls = (ds, rest)"
  shows "(\<forall>v \<in> set rest. v = 0) \<longleftrightarrow> digits_value B (map unat ls) < D ^ n"
proof -
  have sp: "\<forall>d \<in> set ds. unat d < D" "length ds = n"
    "digits_value B (map unat ls)
       = digits_value D (map unat ds) + D ^ n * digits_value B (map unat rest)"
    using take_digits_spec [OF assms(1), of n] assms(2) by auto
  have lt: "digits_value D (map unat ds) < D ^ n"
    using digits_value_bound [of "map unat ds" D] sp by auto
  have "(\<forall>v \<in> set rest. v = 0) \<longleftrightarrow> digits_value B (map unat rest) = 0"
    using B_pos by (simp add: digits_value_zero unat_eq_0)
  also have "\<dots> \<longleftrightarrow> digits_value B (map unat ls) < D ^ n"
    using sp(3) lt by (cases "digits_value B (map unat rest)") auto
  finally show ?thesis .
qed

lemma take_digits_value:
  assumes "\<forall>l \<in> set ls. unat l < B" "take_digits divl n ls = (ds, rest)"
    "\<forall>v \<in> set rest. v = 0"
  shows "digits_value D (map unat ds) = digits_value B (map unat ls)"
proof -
  have "digits_value B (map unat rest) = 0"
    using assms(3) B_pos by (auto simp: digits_value_zero)
  then show ?thesis using take_digits_spec [OF assms(1), of n] assms(2) by auto
qed

end

text \<open>Both loops of the code are such divisions.\<close>

lemma or_shift_add: "unat (push_bit 16 (r :: u32) OR ucast (l :: u16)) = (unat r * 65536 + unat l) mod 2 ^ 32"
proof -
  have "push_bit 16 r AND ucast l = 0"
    by (rule bit_eqI) (auto simp: bit_simps dest: bit_imp_le_length)
  then have "push_bit 16 r OR ucast l = push_bit 16 r + ucast l"
    by (simp add: disjunctive_add_eq_or)
  moreover have "unat l < 2 ^ LENGTH(16)" by (rule unsigned_less)
  ultimately show ?thesis
    by (simp add: unat_word_ariths push_bit_eq_mult unsigned_ucast_eq take_bit_nat_eq_self mod_simps)
qed

interpretation enc: long_division 65536 48 div_limbs_48
proof
  fix ls qs r and l :: u16
  assume d: "div_limbs_48 ls = (qs, r)" and r: "unat r < 48" and l: "unat l < 65536"
  let ?cur = "push_bit 16 r OR ucast l"
  have cur: "unat ?cur = unat r * 65536 + unat l"
    using r l by (simp add: or_shift_add)
  have "(unat r * 65536 + unat l) div 48 < 65536" using r l by simp
  then show "\<exists>q r'. div_limbs_48 (l # ls) = (q # qs, r') \<and> unat q = (unat r * 65536 + unat l) div 48
        \<and> unat r' = (unat r * 65536 + unat l) mod 48"
    using d cur by (simp add: Let_def unsigned_ucast_eq unat_div_distrib unat_mod_distrib take_bit_nat_eq_self)
qed auto

interpretation dec: long_division 48 256 div_digits_256
proof
  fix ls qs r and l :: u16
  assume d: "div_digits_256 ls = (qs, r)" and r: "unat r < 256" and l: "unat l < 48"
  let ?cur = "r * 48 + ucast l"
  have cur: "unat ?cur = unat r * 48 + unat l"
    using r l by (simp add: unat_word_ariths unsigned_ucast_eq take_bit_nat_eq_self)
  have "(unat r * 48 + unat l) div 256 < 65536" using r l by simp
  then show "\<exists>q r'. div_digits_256 (l # ls) = (q # qs, r') \<and> unat q = (unat r * 48 + unat l) div 256
        \<and> unat r' = (unat r * 48 + unat l) mod 256"
    using d cur by (simp add: Let_def unsigned_ucast_eq unat_div_distrib unat_mod_distrib take_bit_nat_eq_self)
qed auto

section \<open>Correctness of the codec\<close>

lemma units_value: "even (length bs) \<Longrightarrow> digits_value 65536 (map unat (utf16_units bs)) = le_nat bs"
  by (induction bs rule: utf16_units.induct) (auto simp: unat_u16_from_le)

lemma units_small: "\<forall>l \<in> set (ls :: u16 list). unat l < 65536"
proof
  fix l :: u16
  have "unat l < 2 ^ LENGTH(16)" by (rule unsigned_less)
  then show "unat l < 65536" by simp
qed

lemma bytes_value: "digits_value 256 (map unat bs) = le_nat bs"
  by (induction bs) auto

lemma alphabet_length [simp]: "length alphabet = 48"
  by (simp add: alphabet_def ascii_def)

lemma alphabet_distinct: "distinct alphabet"
  by (simp add: alphabet_def)

lemma alphabet_upper: "c \<in> set alphabet \<Longrightarrow> to_ascii_uppercase c = c"
  by (auto simp: alphabet_def to_ascii_uppercase_def is_ascii_lowercase_def)

lemma those_idx: "\<forall>d \<in> set ds. unat d < length xs \<Longrightarrow>
    those (map (\<lambda>d. idx xs (unat d)) ds) = Some (map (\<lambda>d. xs ! unat d) ds)"
  by (induction ds) (auto simp: idx_Some)

lemma position_Some: "position c xs = Some i \<Longrightarrow> i < length xs \<and> xs ! i = c"
  by (induction xs arbitrary: i) (auto split: if_splits)

lemma position_None: "position c xs = None \<longleftrightarrow> c \<notin> set xs"
  by (induction xs) auto

lemma position_nth: "distinct xs \<Longrightarrow> i < length xs \<Longrightarrow> position (xs ! i) xs = Some i"
proof (induction xs arbitrary: i)
  case (Cons x xs)
  then show ?case by (cases i) auto
qed simp

lemma symbol_value_alphabet: "i < 48 \<Longrightarrow> symbol_value (alphabet ! i) = Some (word_of_nat i)"
  by (simp add: symbol_value_def alphabet_upper position_nth [OF alphabet_distinct])

lemma symbol_value_Some:
  "symbol_value c = Some v \<Longrightarrow> unat v < 48 \<and> alphabet ! unat v = to_ascii_uppercase c"
  by (auto simp: symbol_value_def unsigned_of_nat take_bit_nat_eq_self dest!: position_Some)

lemma those_Some_length: "those xs = Some ys \<Longrightarrow> length ys = length xs"
  by (induction xs arbitrary: ys) (auto split: option.splits)

lemma those_symbols:
  "those (map symbol_value t) = Some vs \<Longrightarrow> length vs = length t \<and> (\<forall>v \<in> set vs. unat v < 48)
     \<and> map (\<lambda>v. alphabet ! unat v) vs = map to_ascii_uppercase t"
  by (induction t arbitrary: vs) (auto split: option.splits dest: symbol_value_Some)

text \<open>The 23 symbols have room for every digest: \<open>2 ^ 128 < 48 ^ 23\<close>.\<close>

lemma encode_hash_digits:
  assumes "length bs = 16"
  obtains ds :: "u8 list" where "encode_hash bs = Some (Some (map (\<lambda>d. alphabet ! unat d) ds))"
    "length ds = 23" "\<forall>d \<in> set ds. unat d < 48" "digits_value 48 (map unat ds) = le_nat bs"
proof -
  obtain ds rest where t: "take_digits div_limbs_48 23 (utf16_units bs) = (ds, rest)"
    by (cases "take_digits div_limbs_48 23 (utf16_units bs)")
  have v: "digits_value 65536 (map unat (utf16_units bs)) = le_nat bs"
    using assms by (simp add: units_value)
  have "le_nat bs < 256 ^ 16" using le_nat_bound [of bs] assms by simp
  also have "(256::nat) ^ 16 < 48 ^ 23" by simp
  finally have z: "\<forall>v \<in> set rest. v = 0"
    using enc.take_digits_rest_zero [OF units_small t] v by simp
  have sp: "length ds = 23" "\<forall>d \<in> set ds. unat d < 48"
    using enc.take_digits_spec [OF units_small, of 23 "utf16_units bs"] t by auto
  show thesis
  proof (rule that [of ds])
    show "encode_hash bs = Some (Some (map (\<lambda>d. alphabet ! unat d) ds))"
      using assms t z sp by (simp add: encode_hash_def those_idx)
    show "digits_value 48 (map unat ds) = le_nat bs"
      using enc.take_digits_value [OF units_small t z] v by simp
  qed (use sp in auto)
qed

lemma decode_digits:
  assumes "length ds = 23" "\<forall>d \<in> set ds. unat (d :: u16) < 48"
  shows "(let (out, rest) = take_digits div_digits_256 16 ds in
            if \<exists>v \<in> set rest. v \<noteq> 0 then None else Some out)
       = (if digits_value 48 (map unat ds) < 2 ^ 128
          then Some (nat_le 16 (digits_value 48 (map unat ds))) else None)"
proof -
  obtain out rest where t: "take_digits div_digits_256 16 ds = (out, rest)"
    by (cases "take_digits div_digits_256 16 ds")
  have z: "(\<forall>v \<in> set rest. v = 0) \<longleftrightarrow> digits_value 48 (map unat ds) < 2 ^ 128"
    using dec.take_digits_rest_zero [OF assms(2) t] by simp
  have "length out = 16" using dec.take_digits_spec [OF assms(2), of 16] t by auto
  moreover have "le_nat out = digits_value 48 (map unat ds)" if "\<forall>v \<in> set rest. v = 0"
    using dec.take_digits_value [OF assms(2) t that] by (simp add: bytes_value)
  ultimately have "out = nat_le 16 (digits_value 48 (map unat ds))" if "\<forall>v \<in> set rest. v = 0"
    using that nat_le_le_nat [of out] by metis
  then show ?thesis using t z by auto
qed

lemma decode_hash_value:
  "decode_hash t =
     (if length t \<noteq> 23 then None
      else case those (map symbol_value t) of None \<Rightarrow> None
      | Some vs \<Rightarrow> if digits_value 48 (map unat vs) < 2 ^ 128
                   then Some (nat_le 16 (digits_value 48 (map unat vs))) else None)"
proof (cases "length t = 23 \<and> those (map symbol_value t) \<noteq> None")
  case True
  then obtain vs where vs: "those (map symbol_value t) = Some vs" by auto
  show ?thesis
    using True vs decode_digits [of vs] those_symbols [OF vs] by (simp add: decode_hash_def)
qed (auto simp: decode_hash_def)

lemma those_symbol_values:
  "\<forall>d \<in> set ds. unat (d :: u8) < 48 \<Longrightarrow>
   those (map symbol_value (map (\<lambda>d. alphabet ! unat d) ds)) = Some (map ucast ds)"
  by (induction ds) (auto simp: symbol_value_alphabet)

lemma word_u16_digits: "map unat (map (ucast :: u8 \<Rightarrow> u16) ds) = map unat ds"
proof -
  have "unat (ucast d :: u16) = unat d" for d :: u8
    using unat_u8_less [of d]
    by (simp add: unsigned_ucast_eq take_bit_nat_eq_self del: unat_u8_less)
  then show ?thesis by simp
qed

lemma symbol_value_lower: "symbol_value (to_ascii_uppercase c) = symbol_value c"
  by (auto simp: symbol_value_def to_ascii_uppercase_def is_ascii_lowercase_def)

lemma symbol_value_lowercase:
  "map symbol_value (to_ascii_lowercase t) = map symbol_value t"
  by (auto simp: to_ascii_lowercase_def symbol_value_def to_ascii_uppercase_def
        is_ascii_lowercase_def is_ascii_uppercase_def)

lemma decode_hash_upper: "decode_hash (map to_ascii_uppercase t) = decode_hash t"
proof -
  have "map symbol_value (map to_ascii_uppercase t) = map symbol_value t"
    by (simp add: symbol_value_lower)
  then show ?thesis by (simp only: decode_hash_def length_map)
qed

text \<open>C33. Every 16-byte digest has a name: \<open>encode_hash\<close> neither panics nor returns
  \<open>None\<close>, the name has 23 symbols of the alphabet, and \<open>decode_hash\<close> gives the digest back
  from it, in the spelling it was written in and in lower case.\<close>

theorem encode_decode_hash:
  assumes "length bs = 16"
  shows "\<exists>t. encode_hash bs = Some (Some t) \<and> length t = 23 \<and> set t \<subseteq> set alphabet
           \<and> decode_hash t = Some bs \<and> decode_hash (to_ascii_lowercase t) = Some bs"
proof -
  obtain ds :: "u8 list" where ds: "encode_hash bs = Some (Some (map (\<lambda>d. alphabet ! unat d) ds))"
    "length ds = 23" "\<forall>d \<in> set ds. unat d < 48" "digits_value 48 (map unat ds) = le_nat bs"
    using encode_hash_digits [OF assms] by metis
  let ?t = "map (\<lambda>d. alphabet ! unat d) ds"
  have "le_nat bs < 2 ^ 128" "nat_le 16 (le_nat bs) = bs"
    using le_nat_bound [of bs] nat_le_le_nat [of bs] assms by simp_all
  then have "decode_hash ?t = Some bs"
    using ds those_symbol_values [OF ds(3)] word_u16_digits [of ds]
    by (simp only: decode_hash_value length_map option.case if_True if_False simp_thms)
  moreover have "decode_hash (to_ascii_lowercase ?t) = decode_hash ?t"
    unfolding decode_hash_def symbol_value_lowercase length_lowercase by (rule refl)
  ultimately show ?thesis using ds by auto
qed

theorem encode_decode_hash_witness:
  "\<exists>t. encode_hash (map word_of_nat [0..<16]) = Some (Some t) \<and> length t = 23 \<and> set t \<subseteq> set alphabet
     \<and> decode_hash t = Some (map word_of_nat [0..<16])
     \<and> decode_hash (to_ascii_lowercase t) = Some (map word_of_nat [0..<16])"
  by (rule encode_decode_hash) simp

text \<open>Conversely a name that decodes is the name of its digest, up to the case of its
  letters: \<open>decode_hash\<close> accepts nothing that \<open>encode_hash\<close> does not write.\<close>

theorem decode_encode_hash:
  assumes "decode_hash t = Some bs"
  shows "length bs = 16 \<and> encode_hash bs = Some (Some (map to_ascii_uppercase t))"
proof -
  from assms obtain vs where t: "length t = 23" "those (map symbol_value t) = Some vs"
    "digits_value 48 (map unat vs) < 2 ^ 128" "bs = nat_le 16 (digits_value 48 (map unat vs))"
    by (auto simp: decode_hash_value split: if_splits option.splits)
  have bs: "length bs = 16" "le_nat bs = digits_value 48 (map unat vs)"
    using t by (simp_all add: le_nat_nat_le)
  obtain ds :: "u8 list" where ds: "encode_hash bs = Some (Some (map (\<lambda>d. alphabet ! unat d) ds))"
    "length ds = 23" "\<forall>d \<in> set ds. unat d < 48" "digits_value 48 (map unat ds) = le_nat bs"
    using encode_hash_digits [OF bs(1)] by metis
  have "map unat ds = map unat vs"
    using digits_value_inject [of "map unat ds" "map unat vs" 48] ds bs(2) t those_symbols [OF t(2)]
    by simp
  then have "map (\<lambda>d. alphabet ! unat d) ds = map (\<lambda>v. alphabet ! unat v) vs"
    by (metis (no_types) map_map [unfolded comp_def])
  then show ?thesis using ds(1) bs(1) those_symbols [OF t(2)] by simp
qed

theorem decode_encode_hash_witness:
  "decode_hash (ascii ''qq~@$%(){}[]_0123456789'') \<noteq> None \<and>
   (let bs = the (decode_hash (ascii ''qq~@$%(){}[]_0123456789'')) in
    length bs = 16 \<and>
    encode_hash bs = Some (Some (map to_ascii_uppercase (ascii ''qq~@$%(){}[]_0123456789''))))"
proof -
  have d: "decode_hash (ascii ''qq~@$%(){}[]_0123456789'') \<noteq> None"
    by (simp add: decode_hash_value symbol_value_def alphabet_def to_ascii_uppercase_def
          is_ascii_lowercase_def)
  then show ?thesis using decode_encode_hash by (auto simp: Let_def)
qed

end
