(* ===== verification/Msg_Text.thy ===== *)
theory Msg_Text imports Rust_Text begin

text \<open>
  The text helpers of \<open>msg3_parser.rs\<close>: escaping, lossy UTF-16 reading, the tests that tell
  text from binary data, the decoders for the masked text of TXData values and the
  recognisers of media paths. The GB18030 decoder of the crate \<open>encoding_rs\<close> is the parameter
  \<open>gb\<close>: the decoded text, or \<open>None\<close> where the decoder reports an error.
\<close>

section \<open>Escaping and hexadecimal output\<close>

definition hex_char :: "nat \<Rightarrow> nat" where
  "hex_char d = (if d < 10 then 48 + d else 87 + d)"

definition hex2 :: "nat \<Rightarrow> str" where
  "hex2 n = [hex_char (n div 16 mod 16), hex_char (n mod 16)]"

definition hex_bytes :: "bytes \<Rightarrow> nat \<Rightarrow> str" where
  "hex_bytes data max_len =
     join [0x20] (map (\<lambda>b. hex2 (unat b)) (take max_len data))
     @ (if max_len < length data then ascii '' ...'' else [])"

definition json_escape_char :: "nat \<Rightarrow> str" where
  "json_escape_char c =
     (if c = 0x5C then [0x5C, 0x5C]
      else if c = 0x22 then [0x5C, 0x22]
      else if c = 10 then [0x5C, 110]
      else if c = 13 then [0x5C, 114]
      else if c = 9 then [0x5C, 116]
      else if c = 8 then [0x5C, 98]
      else if c = 12 then [0x5C, 102]
      else if c < 0x20 then [0x5C, 117] @ hex2 (c div 256) @ hex2 (c mod 256)
      else [c])"

definition json_escape :: "str \<Rightarrow> str" where
  "json_escape s = concat (map json_escape_char s)"

definition csv_escape :: "str \<Rightarrow> str" where
  "csv_escape s = [0x22] @ concat (map (\<lambda>c. if c = 0x22 then [0x22, 0x22] else [c]) s) @ [0x22]"

definition html_escape_char :: "nat \<Rightarrow> str" where
  "html_escape_char c =
     (if c = 0x26 then ascii ''&amp;''
      else if c = 0x3C then ascii ''&lt;''
      else if c = 0x3E then ascii ''&gt;''
      else if c = 0x22 then ascii ''&quot;''
      else if c = 0x27 then ascii ''&#39;''
      else [c])"

definition html_escape :: "str \<Rightarrow> str" where
  "html_escape s = concat (map html_escape_char s)"

section \<open>Reading UTF-16\<close>

definition high_surrogate :: "u16 \<Rightarrow> bool" where
  "high_surrogate w = (0xD800 \<le> w \<and> w \<le> 0xDBFF)"

definition low_surrogate :: "u16 \<Rightarrow> bool" where
  "low_surrogate w = (0xDC00 \<le> w \<and> w \<le> 0xDFFF)"

text \<open>The loop keeps complete surrogate pairs and drops zeros and lone surrogates.\<close>

fun utf16le_words :: "bytes \<Rightarrow> u16 list" where
  "utf16le_words (a # b # r) =
     (let w = le16_pair a b in
      if w = 0 then utf16le_words r
      else if high_surrogate w then
        (case r of c # d # r2 \<Rightarrow>
           let w2 = le16_pair c d in
           if low_surrogate w2 then w # w2 # utf16le_words r2 else utf16le_words r
         | _ \<Rightarrow> utf16le_words r)
      else if low_surrogate w then utf16le_words r
      else w # utf16le_words r)"
| "utf16le_words _ = []"

definition utf16le_to_string :: "bytes \<Rightarrow> str" where
  "utf16le_to_string data = utf16_lossy (utf16le_words data)"

section \<open>Telling text from data\<close>

definition text_control :: "nat \<Rightarrow> bool" where
  "text_control c = (c < 0x20 \<and> c \<noteq> 10 \<and> c \<noteq> 13 \<and> c \<noteq> 9)"

definition suspicious_score :: "str \<Rightarrow> nat" where
  "suspicious_score s = sum_list (map (\<lambda>c.
     if (0xE000 \<le> c \<and> c \<le> 0xF8FF) \<or> (0xAC00 \<le> c \<and> c \<le> 0xD7AF) \<or> (0x1200 \<le> c \<and> c \<le> 0x137F)
        \<or> (0xA000 \<le> c \<and> c \<le> 0xA63F) \<or> (0x2C80 \<le> c \<and> c \<le> 0x2CFF) \<or> text_control c
     then 1 else 0) s)"

definition reasonable_text :: "str \<Rightarrow> bool" where
  "reasonable_text s =
     (if s = [] \<or> str_len s > 4096 then False
      else let total = length s; controls = length (filter text_control s) in
        if total = 0 \<or> controls \<noteq> 0 then False else suspicious_score s * 20 \<le> total)"

definition reasonable_field_text :: "str \<Rightarrow> bool" where
  "reasonable_field_text s =
     (if s = [] \<or> str_len s > 4096 then False
      else if 0xFFFD \<in> set s then False
      else if suspicious_score s * 20 > max (length s) 1 then False
      else \<not> (\<exists>c \<in> set s. text_control c))"

definition valid_utf8_text :: "bytes \<Rightarrow> str option" where
  "valid_utf8_text data =
     (if data = [] \<or> 0 \<in> set data then None
      else case utf8_decode data of
        None \<Rightarrow> None
      | Some t \<Rightarrow>
          let text = trim_end_matches (\<lambda>c. c = 0xFFFD) t in
          if 0xFFFD \<in> set text then None
          else if reasonable_text text then Some text else None)"

fun plausible_counts :: "bytes \<Rightarrow> nat \<times> nat \<times> nat \<Rightarrow> nat \<times> nat \<times> nat" where
  "plausible_counts (a # b # r) (chars, printable, suspicious) =
     (let w = le16_pair a b in
      if w = 0 then plausible_counts r (chars, printable, suspicious)
      else
        let single = plausible_counts r
          (chars + 1,
           printable + (if w = 9 \<or> w = 10 \<or> w = 13 \<or> (0x20 \<le> w \<and> w < 0xD800) \<or> 0xE000 \<le> w
                        then 1 else 0),
           suspicious + (if (0xE000 \<le> w \<and> w \<le> 0xF8FF) \<or> (0xAC00 \<le> w \<and> w \<le> 0xD7AF)
                         then 1 else 0)) in
        if high_surrogate w then
          (case r of c # d # r2 \<Rightarrow>
             if low_surrogate (le16_pair c d)
             then plausible_counts r2 (chars + 1, printable + 1, suspicious)
             else single
           | _ \<Rightarrow> single)
        else single)"
| "plausible_counts _ acc = acc"

definition plausible_utf16le :: "bytes \<Rightarrow> bool" where
  "plausible_utf16le data =
     (if length data < 2 \<or> length data mod 2 \<noteq> 0 then False
      else let (chars, printable, suspicious) = plausible_counts data (0, 0, 0) in
        chars > 0 \<and> printable * 100 div chars \<ge> 90 \<and> suspicious * 20 \<le> chars)"

definition plausible_ascii :: "bytes \<Rightarrow> bool" where
  "plausible_ascii data =
     (if length data < 3 then False
      else let good = length (filter (\<lambda>b. b = 9 \<or> b = 10 \<or> b = 13 \<or> (0x20 \<le> b \<and> b \<le> 0x7E)) data)
        in good * 100 div length data \<ge> 90)"

definition ascii_text :: "bytes \<Rightarrow> str" where
  "ascii_text data = utf8_lossy (filter (\<lambda>b. b \<noteq> 0) data)"

definition is_generic_token :: "str \<Rightarrow> bool" where
  "is_generic_token s =
     (s = [] \<or> s = ascii ''platform''
      \<or> starts_with s (ascii ''com.tencent.'')
      \<or> starts_with s (ascii ''UserDataImage:'')
      \<or> starts_with s (ascii ''UserDataCustomFace:'')
      \<or> starts_with s (ascii ''UserDataRoot:'')
      \<or> starts_with s (ascii ''FaceStore:'')
      \<or> starts_with s (ascii ''GlobalSysTemp:'')
      \<or> starts_with s (ascii ''sysres:''))"

definition decoded_byte_texts :: "(bytes \<Rightarrow> str option) \<Rightarrow> bytes \<Rightarrow> str list" where
  "decoded_byte_texts gb data =
     (let out1 = (case valid_utf8_text data of Some t \<Rightarrow> [t] | None \<Rightarrow> []);
          out2 = (case gb data of
                    Some t \<Rightarrow> if reasonable_text t \<and> \<not> is_generic_token t \<and> t \<notin> set out1
                              then out1 @ [t] else out1
                  | None \<Rightarrow> out1)
      in if out2 = [] \<and> plausible_ascii data \<and> reasonable_text (ascii_text data)
         then [ascii_text data] else out2)"

section \<open>Runs of text inside binary data\<close>

fun run_units :: "(u16 \<Rightarrow> bool) \<Rightarrow> bytes \<Rightarrow> u16 list" where
  "run_units ok (a # b # r) =
     (let w = le16_pair a b in if ok w then w # run_units ok r else [])"
| "run_units ok _ = []"

definition run_printable :: "u16 \<Rightarrow> bool" where
  "run_printable w = (w = 9 \<or> w = 10 \<or> w = 13 \<or> w = 0x20 \<or> (0x2D \<le> w \<and> w \<le> 0xD7FF)
     \<or> (0xE000 \<le> w \<and> w \<le> 0xFFFD))"

function text_runs_loop :: "nat \<Rightarrow> bytes \<Rightarrow> str list \<Rightarrow> str list" where
  "text_runs_loop min_units data out =
     (if length data < 2 then out
      else let units = run_units run_printable data in
        if length units \<ge> min_units then
          text_runs_loop min_units (drop (max (2 * length units) 2) data)
            (case utf16_decode units of
               None \<Rightarrow> out
             | Some t \<Rightarrow> let text = trim t in
                 if reasonable_field_text text \<and> text \<notin> set out then out @ [text] else out)
        else text_runs_loop min_units (drop 1 data) out)"
  by pat_completeness auto
termination
  by (relation "measure (\<lambda>(_, data, _). length data)") auto

declare text_runs_loop.simps [simp del]

definition utf16le_text_runs :: "bytes \<Rightarrow> nat \<Rightarrow> str list" where
  "utf16le_text_runs data min_units = text_runs_loop min_units data []"

definition embedded_printable :: "u16 \<Rightarrow> bool" where
  "embedded_printable w = (w = 9 \<or> w = 10 \<or> w = 13 \<or> (0x20 \<le> w \<and> w < 0xD800) \<or> 0xE000 \<le> w)"

function embedded_loop :: "nat \<Rightarrow> bytes \<Rightarrow> nat \<Rightarrow> (nat \<times> str) list \<Rightarrow> (nat \<times> str) list" where
  "embedded_loop min_units data start out =
     (if length data < 2 then out
      else let units = run_units embedded_printable data in
        if length units \<ge> min_units then
          embedded_loop min_units (drop (max (2 * length units) 2) data)
            (start + max (2 * length units) 2)
            (case utf16_decode units of
               None \<Rightarrow> out
             | Some t \<Rightarrow> let text = trim (trim_matches (\<lambda>c. c = 0) t) in
                 if text \<noteq> [] \<and> text \<notin> snd ` set out then out @ [(start, text)] else out)
        else embedded_loop min_units (drop 1 data) (start + 1) out)"
  by pat_completeness auto
termination
  by (relation "measure (\<lambda>(_, data, _, _). length data)") auto

declare embedded_loop.simps [simp del]

definition utf16le_embedded_strings :: "bytes \<Rightarrow> nat \<Rightarrow> (nat \<times> str) list" where
  "utf16le_embedded_strings data min_units = embedded_loop min_units data 0 []"

section \<open>Masked text\<close>

definition td_xor_high_byte :: "u8 \<Rightarrow> bool" where
  "td_xor_high_byte hi = ((0x50 \<le> hi \<and> hi \<le> 0x7F) \<or> 0x80 \<le> hi)"

definition txdata_lenkey_plain :: "bytes \<Rightarrow> bytes" where
  "txdata_lenkey_plain data =
     (if data = [] \<or> length data > 0xFFFF then []
      else let len = (word_of_nat (length data) :: u16);
               key = (ucast len :: u8) XOR ucast (drop_bit 8 len)
           in map (\<lambda>b. NOT b XOR key) data)"

definition txdata_rich_utf16_text :: "bytes \<Rightarrow> str" where
  "txdata_rich_utf16_text data =
     (let plain = txdata_lenkey_plain data in
      if length plain < 2 \<or> length plain mod 2 \<noteq> 0 then []
      else let units = utf16_units plain in
        if 0 \<in> set units then []
        else case utf16_decode units of Some t \<Rightarrow> t | None \<Rightarrow> [])"

fun visible_chars :: "bool \<Rightarrow> str \<Rightarrow> str" where
  "visible_chars skip_next [] = []"
| "visible_chars skip_next (c # s) =
     (if skip_next then visible_chars False s
      else if c = 0x14 then visible_chars True s
      else if c \<le> 0x1F \<or> c = 0x489 then visible_chars False s
      else c # visible_chars False s)"

definition txdata_visible_rich_text :: "bytes \<Rightarrow> str" where
  "txdata_visible_rich_text data =
     (let text = visible_chars False (txdata_rich_utf16_text data) in
      if reasonable_field_text text \<and> \<not> is_generic_token text then text else [])"

text \<open>The run of byte pairs with high byte \<open>hi\<close>, unmasked with it.\<close>

fun xor_run :: "u8 \<Rightarrow> bytes \<Rightarrow> bytes" where
  "xor_run hi (a # b # r) =
     (if b = hi then
        let c = a XOR hi in
        if c = 0 \<or> (c < 0x20 \<and> c \<noteq> 9 \<and> c \<noteq> 10 \<and> c \<noteq> 13) then [] else c # xor_run hi r
      else [])"
| "xor_run hi _ = []"

function wide_loop :: "(bytes \<Rightarrow> str option) \<Rightarrow> bytes \<Rightarrow> str list \<Rightarrow> str list" where
  "wide_loop gb data out =
     (if length data < 2 \<or> length out \<ge> 128 then out
      else if \<not> td_xor_high_byte (data ! 1) then wide_loop gb (drop 1 data) out
      else
        let decoded = xor_run (data ! 1) data;
            next = drop (2 * length decoded) data;
            out' = (if length decoded \<ge> 4 then fold (\<lambda>t o'. push_new o' t) (decoded_byte_texts gb decoded) out
                    else out)
        in if 4 \<le> length decoded \<and> length out < length out' then wide_loop gb next out'
           else if length decoded \<ge> 4 \<and> plausible_ascii decoded
                \<and> reasonable_text (ascii_text decoded) \<and> \<not> is_generic_token (ascii_text decoded)
                \<and> ascii_text decoded \<notin> set out'
             then wide_loop gb next (out' @ [ascii_text decoded])
           else wide_loop gb (drop 1 data) out')"
  by pat_completeness auto
termination
  by (relation "measure (\<lambda>(_, data, _). length data)") auto

declare wide_loop.simps [simp del]

definition td_xor_wide_texts :: "(bytes \<Rightarrow> str option) \<Rightarrow> bytes \<Rightarrow> str list" where
  "td_xor_wide_texts gb data = wide_loop gb data []"

fun td_low_byte_candidate :: "bytes \<Rightarrow> bytes" where
  "td_low_byte_candidate (a # hi # r) =
     (if (0x60 \<le> hi \<and> hi \<le> 0x70) \<or> hi \<in> {0xCF, 0xDD, 0xDF, 0xE3, 0xE5, 0xE9, 0xEB, 0xEF}
      then a # td_low_byte_candidate r else td_low_byte_candidate r)"
| "td_low_byte_candidate _ = []"

section \<open>Media paths\<close>

fun trim_media_exts :: "str \<Rightarrow> str list \<Rightarrow> str" where
  "trim_media_exts text [] = text"
| "trim_media_exts text (ext # exts) =
     (case find_sub (to_ascii_lowercase text) ext of
        Some i \<Rightarrow> take (i + length ext) text
      | None \<Rightarrow> trim_media_exts text exts)"

definition trim_media_path :: "str \<Rightarrow> str" where
  "trim_media_path text = trim_media_exts text
     (map ascii [''.jpg'', ''.jpeg'', ''.png'', ''.gif'', ''.webp'', ''.bmp'', ''.mp4'', ''.webm'',
        ''.mov'', ''.amr'', ''.mp3'', ''.wav'', ''.ogg'', ''.m4a''])"

definition looks_like_image_path :: "str \<Rightarrow> bool" where
  "looks_like_image_path text =
     (starts_with text (ascii ''UserDataImage:'')
      \<or> starts_with text (ascii ''UserDataCustomFace:'')
      \<or> starts_with text (ascii ''FaceStore:'')
      \<or> starts_with text (ascii ''GlobalSysTemp:'')
      \<or> starts_with text (ascii ''sysres:'')
      \<or> contains_sub text (0x5C # ascii ''Image'')
      \<or> contains_sub text (ascii ''/Image'')
      \<or> contains_sub text (ascii ''.jpg'')
      \<or> contains_sub text (ascii ''.gif'')
      \<or> contains_sub text (ascii ''.png'')
      \<or> contains_sub text (ascii ''.bmp''))"

definition is_bluebar_sysres_path :: "str \<Rightarrow> bool" where
  "is_bluebar_sysres_path text =
     starts_with (to_ascii_lowercase (map (\<lambda>c. if c = 0x2F then 0x5C else c) (trim text)))
       (ascii ''sysres:misc'' @ [0x5C] @ ascii ''bluebar'' @ [0x5C])"

definition is_stable_media_candidate :: "str \<Rightarrow> bool" where
  "is_stable_media_candidate text =
     (let trimmed = trim text in
      if trimmed = [] then False
      else if is_bluebar_sysres_path trimmed then False
      else
        let lower = to_ascii_lowercase text;
            has_ext = (\<exists>ext \<in> set (map ascii [''.jpg'', ''.jpeg'', ''.png'', ''.gif'', ''.bmp'',
              ''.webp'', ''.amr'', ''.mp3'', ''.wav'', ''.ogg'', ''.m4a'', ''.mp4'', ''.webm'',
              ''.mov'', ''.pdf'', ''.doc'', ''.docx'', ''.xls'', ''.xlsx'', ''.txt'', ''.apk'',
              ''.zip'', ''.rar'', ''.7z'']). ends_with lower ext)
        in starts_with trimmed (ascii ''UserDataImage:'')
           \<or> starts_with trimmed (ascii ''UserDataCustomFace:'')
           \<or> starts_with trimmed (ascii ''UserDataRoot:'')
           \<or> starts_with trimmed (ascii ''OSRoot:'')
           \<or> starts_with trimmed (ascii ''UserSysWinTemp:'')
           \<or> starts_with trimmed (ascii ''FaceStore:'')
           \<or> starts_with trimmed (ascii ''GlobalSysTemp:'')
           \<or> starts_with trimmed (ascii ''sysres:'')
           \<or> starts_with trimmed (ascii ''http://'')
           \<or> starts_with trimmed (ascii ''https://'')
           \<or> contains_sub trimmed (0x5C # ascii ''Image'')
           \<or> contains_sub trimmed (ascii ''/Image'')
           \<or> contains_sub trimmed (ascii ''FileRecv'')
           \<or> ((contains_sub trimmed [0x5C] \<or> contains_sub trimmed (ascii ''/'')) \<and> has_ext)
           \<or> ((\<forall>c \<in> set trimmed. \<not> is_control c) \<and> has_ext))"

section \<open>UTF-16 texts read back\<close>

lemma utf16le_words_char:
  assumes "scalar_value c" "c \<noteq> 0"
  shows "utf16_lossy (utf16le_words (utf16_char_bytes c @ r)) = c # utf16_lossy (utf16le_words r)"
proof (cases "c < 0x10000")
  case True
  obtain a b where ab: "nat_le 2 c = [a, b]" by (simp add: nat_le_2)
  have "unat (le16_pair a b) = c"
    using le_nat_nat_le [of 2 c] True by (simp add: ab unat_le16_pair)
  then show ?thesis using True assms
    by (auto simp: ab Let_def high_surrogate_def low_surrogate_def word_le_nat_alt scalar_value_def unat_eq_0 [symmetric])
next
  case False
  define hi lo where "hi = 0xD800 + (c - 0x10000) div 1024" and "lo = 0xDC00 + (c - 0x10000) mod 1024"
  have c: "c < 0x110000" using assms by (simp add: scalar_value_def)
  then have b: "0xD800 \<le> hi" "hi \<le> 0xDBFF" "0xDC00 \<le> lo" "lo \<le> 0xDFFF"
    using False by (auto simp: hi_def lo_def less_mult_imp_div_less)
  obtain a1 a2 b1 b2 where ab: "nat_le 2 hi = [a1, a2]" "nat_le 2 lo = [b1, b2]" by (simp add: nat_le_2)
  have u: "unat (le16_pair a1 a2) = hi" "unat (le16_pair b1 b2) = lo"
    using le_nat_nat_le [of 2 hi] le_nat_nat_le [of 2 lo] b by (simp_all add: ab unat_le16_pair)
  then have "le16_pair a1 a2 \<noteq> 0" using b by (auto simp: unat_eq_0 [symmetric])
  moreover have "0x10000 + (hi - 0xD800) * 1024 + (lo - 0xDC00) = c"
    using False by (simp add: hi_def lo_def)
  ultimately show ?thesis using False b u
    by (simp add: ab hi_def [symmetric] lo_def [symmetric] Let_def high_surrogate_def low_surrogate_def word_le_nat_alt)
qed

lemma utf16le_to_string_encode:
  "\<forall>c \<in> set t. scalar_value c \<and> c \<noteq> 0 \<Longrightarrow> utf16le_to_string (utf16_encode_bytes t) = t"
proof (induction t)
  case (Cons c t)
  have "utf16_encode_bytes (c # t) = utf16_char_bytes c @ utf16_encode_bytes t"
    by (simp add: utf16_encode_bytes_def)
  then show ?case using Cons utf16le_words_char [of c "utf16_encode_bytes t"]
    by (simp only: utf16le_to_string_def) simp
qed (simp add: utf16le_to_string_def utf16_encode_bytes_def)

end
