(* ===== verification/Proto.thy ===== *)
theory Proto imports Msg_Text begin

text \<open>
  The untyped protobuf reader of \<open>msg3_parser.rs\<close>: varints, the scan that decides whether a
  buffer is a protobuf message, the two collectors of its strings and fields, and the
  context TLVs. The collectors recurse into length-delimited fields; the source bounds the
  nesting by its \<open>depth\<close> argument, which the model counts down: \<open>collect_strings k\<close> is the
  call at depth \<open>3 - k\<close>, \<open>collect_fields k\<close> the call at depth \<open>4 - k\<close>. An outer \<open>None\<close> is
  a panic.
\<close>

section \<open>Records\<close>

record proto_field =
  pf_path :: str
  pf_field :: u64
  pf_wire :: u64
  pf_varint :: "u64 option"
  pf_bytes :: bytes
  pf_text :: str

record tlv_record =
  tlv_source :: str
  tlv_offset :: nat
  tlv_tag :: u8
  tlv_name :: str
  tlv_data :: bytes
  tlv_proto_fields :: "proto_field list"

section \<open>Varints\<close>

text \<open>The result is the value, if there is one, and the offset after the bytes read.\<close>

fun varint_loop :: "nat \<Rightarrow> bytes \<Rightarrow> nat \<Rightarrow> nat \<Rightarrow> u64 \<Rightarrow> u64 option \<times> nat" where
  "varint_loop 0 data off shift acc = (None, off)"
| "varint_loop (Suc n) data off shift acc =
     (if off \<ge> length data then (None, off)
      else
        let b = data ! off; acc' = acc OR push_bit shift (ucast (b AND 0x7F)) in
        if b AND 0x80 = 0 then (Some acc', off + 1)
        else varint_loop n data (off + 1) (shift + 7) acc')"

definition read_varint :: "bytes \<Rightarrow> nat \<Rightarrow> u64 option \<times> nat" where
  "read_varint data off = varint_loop 10 data off 0 0"

lemma varint_loop_bounds:
  "varint_loop n data off shift acc = (r, off') \<Longrightarrow> off \<le> off' \<and> off' \<le> off + n
     \<and> (off \<le> length data \<longrightarrow> off' \<le> length data) \<and> (r \<noteq> None \<longrightarrow> off < off' \<and> off' \<le> length data)"
  by (induction n data off shift acc arbitrary: r off' rule: varint_loop.induct)
     (fastforce simp: Let_def split: if_splits)+

lemma read_varint_bounds [bounds_intros]:
  "read_varint data off = (Some v, off') \<Longrightarrow> off < off' \<and> off' \<le> off + 10 \<and> off' \<le> length data"
  unfolding read_varint_def by (drule varint_loop_bounds) simp

lemma read_varint_advances:
  "(Some v, off') = read_varint data off \<Longrightarrow> off < off' \<and> off' \<le> length data"
  using read_varint_bounds [of data off v off'] by auto

lemma read_varint_mono: "(r, off') = read_varint data off \<Longrightarrow> off \<le> off'"
  using varint_loop_bounds [of 10 data off 0 0 r off'] by (simp add: read_varint_def)

section \<open>Strings of a message\<close>

function strings_loop ::
  "(bytes \<Rightarrow> str list \<Rightarrow> str list option) \<Rightarrow> bytes \<Rightarrow> nat \<Rightarrow> nat \<Rightarrow> str list \<Rightarrow> str list option" where
  "strings_loop nest data off fields_seen out =
     (if off < length data \<and> fields_seen < 80 then
       (case read_varint data off of
          (None, _) \<Rightarrow> Some out
        | (Some key, off1) \<Rightarrow>
            if key = 0 then Some out
            else let wire = key AND 7 in
              if wire = 0 then
                (case read_varint data off1 of
                   (None, _) \<Rightarrow> Some out
                 | (Some _, off2) \<Rightarrow> strings_loop nest data off2 (fields_seen + 1) out)
              else if wire = 1 then
                (if off1 + 8 > length data then Some out
                 else strings_loop nest data (off1 + 8) (fields_seen + 1) out)
              else if wire = 2 then
                (case read_varint data off1 of
                   (None, _) \<Rightarrow> Some out
                 | (Some v, off2) \<Rightarrow> do {
                     let n = unat v;
                     stop \<leftarrow> uadd off2 n;
                     if stop > length data then Some out
                     else do {
                       bs \<leftarrow> subslice data off2 stop;
                       out' \<leftarrow> nest bs
                         (if 3 \<le> n \<and> n \<le> 300 then
                            case valid_utf8_text bs of
                              Some t \<Rightarrow> if is_generic_token t then out else out @ [t]
                            | None \<Rightarrow> out
                          else out);
                       strings_loop nest data stop (fields_seen + 1) out' } })
              else if wire = 5 then
                (if off1 + 4 > length data then Some out
                 else strings_loop nest data (off1 + 4) (fields_seen + 1) out)
              else Some out)
      else Some out)"
  by pat_completeness auto
termination
  by (relation "measure (\<lambda>(_, data, off, _). length data - off)")
     (auto dest!: read_varint_advances simp: uadd_eq_Some)

declare strings_loop.simps [simp del]

fun collect_strings :: "nat \<Rightarrow> bytes \<Rightarrow> str list \<Rightarrow> str list option" where
  "collect_strings 0 data out = Some out"
| "collect_strings (Suc k) data out =
     (if length data < 2 \<or> length out > 200 then Some out
      else strings_loop (collect_strings k) data 0 0 out)"

definition collect_proto_strings :: "bytes \<Rightarrow> nat \<Rightarrow> str list \<Rightarrow> str list option" where
  "collect_proto_strings data depth out = collect_strings (3 - depth) data out"

section \<open>The protobuf test\<close>

text \<open>The loop returns the last \<open>off\<close> and \<open>fields\<close>, or \<open>None\<close> where the code returns
  \<open>false\<close> from inside it.\<close>

function proto_scan :: "bytes \<Rightarrow> nat \<Rightarrow> nat \<Rightarrow> (nat \<times> nat) option" where
  "proto_scan data off nfields =
     (if off < length data \<and> nfields < 12 then
       (case read_varint data off of
          (None, _) \<Rightarrow> None
        | (Some key, off1) \<Rightarrow>
            if key = 0 then None
            else let field = drop_bit 3 key; wire = key AND 7 in
              if field = 0 \<or> field > 0x10000 then None
              else
               (case (if wire = 0 then
                       (case read_varint data off1 of (None, _) \<Rightarrow> None | (Some _, off2) \<Rightarrow> Some off2)
                      else if wire = 1 then Some (saturating_add off1 8)
                      else if wire = 2 then
                       (case read_varint data off1 of (None, _) \<Rightarrow> None
                        | (Some v, off2) \<Rightarrow> Some (saturating_add off2 (unat v)))
                      else if wire = 5 then Some (saturating_add off1 4)
                      else None) of
                  None \<Rightarrow> None
                | Some off' \<Rightarrow>
                    if off' > length data then None
                    else proto_scan data off' (nfields + 1)))
      else Some (off, nfields))"
  by pat_completeness auto
termination
  by (relation "measure (\<lambda>(data, off, _). length data - off)")
     (auto dest!: read_varint_advances read_varint_bounds simp: saturating_add_def split: if_splits option.splits prod.splits)

declare proto_scan.simps [simp del]

definition looks_like_proto :: "bytes \<Rightarrow> bool" where
  "looks_like_proto data =
     (if length data < 2 then False
      else case proto_scan data 0 0 of None \<Rightarrow> False
      | Some (off, nfields) \<Rightarrow> nfields > 0 \<and> off = length data)"

section \<open>Fields of a message\<close>

function fields_loop ::
  "(bytes \<Rightarrow> str \<Rightarrow> proto_field list \<Rightarrow> proto_field list option)
   \<Rightarrow> bytes \<Rightarrow> str \<Rightarrow> nat \<Rightarrow> proto_field list \<Rightarrow> proto_field list option" where
  "fields_loop nest data path off out =
     (if off < length data \<and> length out < 500 then
       (case read_varint data off of
          (None, _) \<Rightarrow> Some out
        | (Some key, off1) \<Rightarrow>
            if key = 0 then Some out
            else let field_no = drop_bit 3 key; wire = key AND 7;
              cur = (if path = [] then nat_digits (unat field_no)
                     else path @ [46] @ nat_digits (unat field_no));
              item = \<lparr>pf_path = cur, pf_field = field_no, pf_wire = wire, pf_varint = None,
                      pf_bytes = [], pf_text = []\<rparr> in
              if wire = 0 then
                (case read_varint data off1 of (r, off2) \<Rightarrow>
                   fields_loop nest data path off2 (out @ [item\<lparr>pf_varint := r\<rparr>]))
              else if wire = 1 then
                (if off1 + 8 > length data then Some out
                 else do {
                   bs \<leftarrow> subslice data off1 (off1 + 8);
                   fields_loop nest data path (off1 + 8) (out @ [item\<lparr>pf_bytes := bs\<rparr>]) })
              else if wire = 2 then
                (case read_varint data off1 of
                   (None, _) \<Rightarrow> Some out
                 | (Some v, off2) \<Rightarrow> do {
                     let n = unat v;
                     stop \<leftarrow> uadd off2 n;
                     if stop > length data then Some out
                     else do {
                       bs \<leftarrow> subslice data off2 stop;
                       let text = (if n \<le> 500 then
                                     case valid_utf8_text bs of Some t \<Rightarrow> t | None \<Rightarrow> []
                                   else []);
                       out' \<leftarrow> (if n \<le> 4096 then nest bs cur out else Some out);
                       fields_loop nest data path stop
                         (out' @ [item\<lparr>pf_bytes := bs, pf_text := text\<rparr>]) } })
              else if wire = 5 then
                (if off1 + 4 > length data then Some out
                 else do {
                   bs \<leftarrow> subslice data off1 (off1 + 4);
                   fields_loop nest data path (off1 + 4) (out @ [item\<lparr>pf_bytes := bs\<rparr>]) })
              else Some out)
      else Some out)"
  by pat_completeness auto
termination
  by (relation "measure (\<lambda>(_, data, _, off, _). length data - off)")
     (auto dest!: read_varint_advances dest: read_varint_mono simp: uadd_eq_Some)

declare fields_loop.simps [simp del]

fun collect_fields :: "nat \<Rightarrow> bytes \<Rightarrow> str \<Rightarrow> proto_field list \<Rightarrow> proto_field list option" where
  "collect_fields 0 data path out = Some out"
| "collect_fields (Suc k) data path out =
     (if length data < 2 \<or> length out > 500 \<or> \<not> looks_like_proto data then Some out
      else fields_loop (collect_fields k) data path 0 out)"

definition collect_proto_fields ::
  "bytes \<Rightarrow> nat \<Rightarrow> str \<Rightarrow> proto_field list \<Rightarrow> proto_field list option" where
  "collect_proto_fields data depth path out = collect_fields (4 - depth) data path out"

section \<open>Context TLVs\<close>

definition tlv_tag_name :: "u8 \<Rightarrow> str" where
  "tlv_tag_name tag =
     (if tag = 0x1D then ascii ''resv3.ResvAttr''
      else if tag = 0x21 then ascii ''resv6.ResvAttr'' else [])"

definition tlv_proto :: "str \<Rightarrow> u8 \<Rightarrow> bytes \<Rightarrow> proto_field list option" where
  "tlv_proto source tag payload =
     (if (tag = 0x1D \<or> tag = 0x21) \<and> payload \<noteq> []
      then collect_proto_fields payload 0 (source @ ascii ''.tlv'' @ nat_digits (unat tag)) []
      else Some [])"

function tlvs_loop :: "bytes \<Rightarrow> str \<Rightarrow> nat \<Rightarrow> nat \<Rightarrow> tlv_record list \<Rightarrow> tlv_record list option" where
  "tlvs_loop data source off seen out =
     (if off + 3 \<le> length data \<and> seen < 160 \<and> length out < 200 then do {
        tag \<leftarrow> idx data off;
        if tag = 0xFF then Some out
        else do {
          w \<leftarrow> Option.bind (subslice data (off + 1) (off + 3)) be16;
          let n = unat w;
          if n > length data - off - 3 then Some out
          else do {
            payload \<leftarrow> subslice data (off + 3) (off + 3 + n);
            let name = tlv_tag_name tag;
            pfs \<leftarrow> tlv_proto source tag payload;
            let rec = \<lparr>tlv_source = source, tlv_offset = off, tlv_tag = tag, tlv_name = name,
                       tlv_data = payload, tlv_proto_fields = pfs\<rparr>;
            tlvs_loop data source (off + 3 + n) (seen + 1)
              (if n > 0 \<and> (name \<noteq> [] \<or> pfs \<noteq> []) then out @ [rec] else out) } } }
      else Some out)"
  by pat_completeness auto
termination
  by (relation "measure (\<lambda>(data, _, off, _). length data - off)") auto

declare tlvs_loop.simps [simp del]

definition collect_ctx_tlvs :: "bytes \<Rightarrow> str \<Rightarrow> tlv_record list \<Rightarrow> tlv_record list option" where
  "collect_ctx_tlvs data source out = tlvs_loop data source 0 0 out"

section \<open>Evaluation\<close>

lemma varint_loop_eval:
  "varint_loop n data off shift acc =
     (if n = 0 \<or> off \<ge> length data then (None, off)
      else if data ! off AND 0x80 = 0
        then (Some (acc OR push_bit shift (ucast (data ! off AND 0x7F))), off + 1)
      else varint_loop (n - 1) data (off + 1) (shift + 7)
             (acc OR push_bit shift (ucast (data ! off AND 0x7F))))"
  by (cases n) (auto simp: Let_def)

section \<open>Varints are the LEB128 encoding\<close>

fun encode_varint :: "nat \<Rightarrow> bytes" where
  "encode_varint v =
     (if v < 128 then [word_of_nat v] else word_of_nat (v mod 128 + 128) # encode_varint (v div 128))"

declare encode_varint.simps [simp del]

lemma or_push_bit_add:
  assumes "a < 2 ^ s"
  shows "(word_of_nat a :: u64) OR push_bit s (word_of_nat w) = word_of_nat (a + w * 2 ^ s)"
proof -
  have hi: "\<not> bit a i" if "s \<le> i" for i
  proof -
    have "a < 2 ^ i" using assms that by (meson less_le_trans one_le_numeral power_increasing)
    then show ?thesis by (simp add: bit_iff_odd)
  qed
  have "(word_of_nat a :: u64) AND push_bit s (word_of_nat w) = 0"
    by (rule bit_eqI) (use hi in \<open>auto simp: bit_simps\<close>)
  then show ?thesis by (simp add: disjunctive_add_eq_or [symmetric] push_bit_eq_mult)
qed

lemma unat_and_127: "unat ((x :: u8) AND 0x7F) = unat x mod 128"
proof -
  have "x AND 0x7F = take_bit 7 x" by (simp add: take_bit_eq_mask mask_eq_exp_minus_1)
  then show ?thesis by (simp add: unsigned_take_bit_eq take_bit_eq_mod unat_mod_distrib)
qed

lemma and_128_eq_0: "(x :: u8) AND 0x80 = 0 \<longleftrightarrow> unat x < 128"
proof -
  have "x AND 0x80 = 0 \<longleftrightarrow> \<not> bit x 7"
    using and_exp_eq_0_iff_not_bit [of x 7] by simp
  also have "\<dots> \<longleftrightarrow> \<not> bit (unat x) 7" by (simp add: bit_unsigned_iff)
  also have "\<dots> \<longleftrightarrow> unat x < 128"
  proof -
    have "even (n div 128) \<longleftrightarrow> n < 128" if "n < 256" for n :: nat
    proof (cases "n < 128")
      case False
      then show ?thesis using that by (simp add: le_div_geq)
    qed simp
    then show ?thesis by (simp add: bit_iff_odd)
  qed
  finally show ?thesis .
qed

lemma u8_eqI: "unat (x :: u8) = unat y \<Longrightarrow> x = y"
  by (simp add: word_unat_eq_iff)

lemma low_bits_continue:
  assumes "v < 128"
  shows "(word_of_nat (v + 128) :: u8) AND 0x7F = word_of_nat v"
    "(word_of_nat (v + 128) :: u8) AND 0x80 \<noteq> 0"
  unfolding and_128_eq_0 using assms
  by (auto intro!: u8_eqI simp: unat_and_127 unsigned_of_nat take_bit_nat_eq_self simp del: of_nat_add)

lemma low_bits_last:
  assumes "v < 128"
  shows "(word_of_nat v :: u8) AND 0x7F = word_of_nat v" "(word_of_nat v :: u8) AND 0x80 = 0"
  unfolding and_128_eq_0 using assms
  by (auto intro!: u8_eqI simp: unat_and_127 unsigned_of_nat take_bit_nat_eq_self)

lemma ucast_byte: "v < 256 \<Longrightarrow> (ucast (word_of_nat v :: u8) :: u64) = word_of_nat v"
  by (simp add: word_eq_iff_unsigned unsigned_ucast_eq unsigned_of_nat take_bit_nat_eq_self)

lemma varint_loop_encode:
  assumes "data = pre @ encode_varint v @ rest" "off = length pre" "a < 2 ^ s" "v < 128 ^ n" "0 < n"
  shows "varint_loop n data off s (word_of_nat a)
       = (Some (word_of_nat (a + v * 2 ^ s)), off + length (encode_varint v))"
  using assms
proof (induction n arbitrary: v pre off s a)
  case 0
  then show ?case by simp
next
  case (Suc n)
  show ?case
  proof (cases "v < 128")
    case True
    then show ?thesis using Suc.prems
      by (simp add: encode_varint.simps [of v] low_bits_last ucast_byte or_push_bit_add)
  next
    case False
    let ?b = "word_of_nat (v mod 128 + 128) :: u8"
    have e: "encode_varint v = ?b # encode_varint (v div 128)"
      using False by (simp add: encode_varint.simps [of v])
    have "a + v mod 128 * 2 ^ s < 2 ^ (s + 7)"
    proof -
      have "v mod 128 * 2 ^ s \<le> 127 * 2 ^ s" by (intro mult_right_mono) auto
      then have "a + v mod 128 * 2 ^ s < 128 * 2 ^ s" using Suc.prems(3) by linarith
      then show ?thesis by (simp add: power_add mult.commute)
    qed
    moreover have "v div 128 < 128 ^ n" "0 < n" using Suc.prems(4) False by (auto simp: less_mult_imp_div_less mult.commute intro: gr0I)
    ultimately have IH: "varint_loop n data (Suc off) (s + 7) (word_of_nat (a + v mod 128 * 2 ^ s))
      = (Some (word_of_nat (a + v mod 128 * 2 ^ s + v div 128 * 2 ^ (s + 7))),
         Suc off + length (encode_varint (v div 128)))"
      using Suc.prems(1,2) by (intro Suc.IH [where pre = "pre @ [?b]"]) (simp_all add: e)
    have e2: "a + v mod 128 * 2 ^ s + v div 128 * 2 ^ (s + 7) = a + v * 2 ^ s"
    proof -
      have "v * 2 ^ s = (v mod 128 + 128 * (v div 128)) * 2 ^ s" by simp
      then show ?thesis by (simp only: add_mult_distrib power_add) simp
    qed
    show ?thesis using IH [unfolded e2] Suc.prems(1,2)
      by (simp add: e low_bits_continue ucast_byte or_push_bit_add [OF Suc.prems(3)] del: of_nat_add of_nat_mult)
  qed
qed

lemma varint_read:
  assumes "v < 2 ^ 64" "data = pre @ (encode_varint v @ mid) @ rest"
  shows "read_varint data (length pre) = (Some (word_of_nat v), length pre + length (encode_varint v))"
proof -
  have "v < 128 ^ 10" using assms by simp
  then show ?thesis
    using varint_loop_encode [of data pre v "mid @ rest" "length pre" 0 0 10] assms(2)
    by (simp add: read_varint_def)
qed

text \<open>\<open>read_varint\<close> reads back every 64-bit value from its LEB128 encoding, wherever the
  encoding stands in the buffer, and leaves the offset right after it.\<close>

theorem read_varint_encode:
  assumes "v < 2 ^ 64"
  shows "read_varint (pre @ encode_varint v @ rest) (length pre)
       = (Some (word_of_nat v), length pre + length (encode_varint v))"
  by (rule varint_read [where mid = "[]"]) (use assms in simp_all)

section \<open>The collectors do not panic\<close>

text \<open>No slice of the program is longer than \<open>isize::MAX\<close>.\<close>

definition slice_ok :: "'a list \<Rightarrow> bool" where
  "slice_ok xs = (length xs < 2 ^ 63)"

lemma slice_ok_subslice: "slice_ok xs \<Longrightarrow> subslice xs a b = Some ys \<Longrightarrow> slice_ok ys"
  by (auto simp: slice_ok_def subslice_eq_Some min_def)

lemma slice_ok_take_drop: "slice_ok xs \<Longrightarrow> slice_ok (take n (drop a xs))"
  by (auto simp: slice_ok_def min_def)

lemma slice_ok_limit: "slice_ok xs \<Longrightarrow> length xs < usize_limit - 1"
  by (simp add: slice_ok_def usize_limit_def)

lemma saturating_add_le:
  "slice_ok xs \<Longrightarrow> saturating_add a n \<le> length xs \<Longrightarrow> a + n \<le> length xs \<and> saturating_add a n = a + n"
  by (drule slice_ok_limit) (auto simp: saturating_add_def max_def min_def split: if_splits)

lemma uadd_in_slice: "slice_ok xs \<Longrightarrow> a + n \<le> length xs \<Longrightarrow> uadd a n = Some (a + n)"
  by (simp add: uadd_def slice_ok_def usize_limit_def)

lemma fields_loop_total:
  assumes "slice_ok data"
    and "\<And>bs p o'. slice_ok bs \<Longrightarrow> nest bs p o' \<noteq> None"
    and "proto_scan data off nfields = Some (length data, nf)"
  shows "fields_loop nest data path off out \<noteq> None"
  using assms(3)
proof (induction "length data - off" arbitrary: off nfields out rule: less_induct)
  case less
  note scan = less.prems [unfolded proto_scan.simps [of data off nfields]]
  show ?case
  proof (cases "off < length data \<and> length out < 500")
    case False
    then show ?thesis by (subst fields_loop.simps) auto
  next
    case True
    with scan obtain key off1 where key: "nfields < 12" "read_varint data off = (Some key, off1)" "key \<noteq> 0"
      by (auto split: if_splits prod.splits option.splits)
    have adv: "off < off1" "off1 \<le> length data" using read_varint_bounds [OF key(2)] by auto
    have IH: "fields_loop nest data path off' out' \<noteq> None"
      if "proto_scan data off' (nfields + 1) = Some (length data, nf)" "off < off'" "off' \<le> length data" for off' out'
      using that True by (intro less.hyps) auto
    consider (w0) v off2 where "key AND 7 = 0" "read_varint data off1 = (Some v, off2)" "proto_scan data off2 (nfields + 1) = Some (length data, nf)"
      | (w1) "key AND 7 = 1" "off1 + 8 \<le> length data" "proto_scan data (off1 + 8) (nfields + 1) = Some (length data, nf)"
      | (w2) v off2 where "key AND 7 = 2" "read_varint data off1 = (Some v, off2)" "off2 + unat v \<le> length data"
         "proto_scan data (off2 + unat v) (nfields + 1) = Some (length data, nf)"
      | (w5) "key AND 7 = 5" "off1 + 4 \<le> length data" "proto_scan data (off1 + 4) (nfields + 1) = Some (length data, nf)"
      using scan True key
      by (auto simp: Let_def split: if_splits prod.splits option.splits dest!: saturating_add_le [OF assms(1)] leI)
    then show ?thesis
    proof cases
      case w0
      then show ?thesis using True key adv IH read_varint_bounds [OF w0(2)]
        by (subst fields_loop.simps) (simp add: Let_def)
    next
      case w1
      then show ?thesis using True key adv IH
        by (subst fields_loop.simps) (simp add: Let_def rust_simps)
    next
      case w2
      then show ?thesis using True key adv IH read_varint_bounds [OF w2(2)]
        by (subst fields_loop.simps)
           (simp add: Let_def rust_simps uadd_in_slice [OF assms(1)] Option.bind_eq_None_conv
              assms(2) slice_ok_take_drop [OF assms(1)] del: not_None_eq)
    next
      case w5
      then show ?thesis using True key adv IH
        by (subst fields_loop.simps) (simp add: Let_def rust_simps)
    qed
  qed
qed

lemma looks_like_proto_scan: "looks_like_proto data \<Longrightarrow> \<exists>nf. proto_scan data 0 0 = Some (length data, nf)"
  by (auto simp: looks_like_proto_def split: if_splits option.splits)

lemma collect_fields_total: "slice_ok data \<Longrightarrow> collect_fields k data path out \<noteq> None"
proof (induction k arbitrary: data path out)
  case (Suc k)
  then show ?case
    using looks_like_proto_scan [of data] fields_loop_total [of data "collect_fields k" 0 0] by fastforce
qed simp

lemma collect_fields_Some:
  assumes "slice_ok data"
  shows "\<exists>out'. collect_proto_fields data depth path out = Some out'"
  using collect_fields_total [OF assms] by (auto simp: collect_proto_fields_def)

lemma be16_subslice:
  "off + 3 \<le> length data \<Longrightarrow> Option.bind (subslice data (off + 1) (off + 3)) be16
     = Some (be16_pair (data ! (off + 1)) (data ! (off + 2)))"
  using take_drop_2 [of "off + 1" data] by (simp add: rust_simps)

lemma tlvs_loop_step:
  assumes "off + 3 \<le> length data"
  shows "tlvs_loop data source off seen out =
    (let tag = data ! off; n = unat (be16_pair (data ! (off + 1)) (data ! (off + 2)));
         payload = take n (drop (off + 3) data) in
     if seen < 160 \<and> length out < 200 \<and> tag \<noteq> 0xFF \<and> off + 3 + n \<le> length data then
       Option.bind (tlv_proto source tag payload) (\<lambda>pfs.
         tlvs_loop data source (off + 3 + n) (seen + 1)
           (if n > 0 \<and> (tlv_tag_name tag \<noteq> [] \<or> pfs \<noteq> [])
            then out @ [\<lparr>tlv_source = source, tlv_offset = off, tlv_tag = tag,
                   tlv_name = tlv_tag_name tag, tlv_data = payload, tlv_proto_fields = pfs\<rparr>]
            else out))
     else Some out)"
proof -
  let ?n = "unat (be16_pair (data ! (off + 1)) (data ! (off + 2)))"
  have sl: "subslice data (off + 3) (off + 3 + ?n) = Some (take ?n (drop (off + 3) data))"
    if "\<not> ?n > length data - off - 3"
    using that assms by (auto simp: subslice_def)
  show ?thesis
    by (subst tlvs_loop.simps)
       (use assms be16_subslice [OF assms] sl in
         \<open>auto simp: Let_def idx_Some simp del: One_nat_def\<close>)
qed

lemma tlv_proto_Some: "slice_ok payload \<Longrightarrow> \<exists>pfs. tlv_proto source tag payload = Some pfs"
  using collect_fields_Some by (auto simp: tlv_proto_def)

text \<open>What a collected TLV says about the buffer it was read from.\<close>

definition tlv_of :: "bytes \<Rightarrow> str \<Rightarrow> tlv_record \<Rightarrow> bool" where
  "tlv_of data source r =
     (tlv_source r = source \<and> tlv_tag r = data ! tlv_offset r \<and> tlv_tag r \<noteq> 0xFF
      \<and> tlv_data r \<noteq> []
      \<and> length (tlv_data r) = unat (be16_pair (data ! (tlv_offset r + 1)) (data ! (tlv_offset r + 2)))
      \<and> subslice data (tlv_offset r + 3) (tlv_offset r + 3 + length (tlv_data r)) = Some (tlv_data r))"

lemma tlvs_loop_spec:
  assumes "slice_ok data"
  shows "\<exists>rs. tlvs_loop data source off seen out = Some (out @ rs) \<and> length (out @ rs) \<le> max (length out) 200
           \<and> length rs \<le> 160 - seen \<and> (\<forall>r \<in> set rs. tlv_of data source r \<and> off \<le> tlv_offset r)
           \<and> sorted_wrt (\<lambda>r r'. tlv_offset r + 3 + length (tlv_data r) \<le> tlv_offset r') rs"
proof (induction "length data - off" arbitrary: off seen out rule: less_induct)
  case less
  let ?tag = "data ! off" and ?n = "unat (be16_pair (data ! (off + 1)) (data ! (off + 2)))"
  let ?p = "take ?n (drop (off + 3) data)"
  show ?case
  proof (cases "off + 3 \<le> length data \<and> seen < 160 \<and> length out < 200 \<and> ?tag \<noteq> 0xFF
      \<and> off + 3 + ?n \<le> length data")
    case False
    then show ?thesis
      by (cases "off + 3 \<le> length data")
         (auto simp: tlvs_loop_step Let_def simp del: One_nat_def, subst tlvs_loop.simps, simp)
  next
    case True
    then have hd3: "off + 3 \<le> length data" by blast
    obtain pfs where pfs: "tlv_proto source ?tag ?p = Some pfs"
      using tlv_proto_Some [OF slice_ok_take_drop [OF assms]] by blast
    define n p where "n = ?n" and "p = ?p"
    define r where "r = \<lparr>tlv_source = source, tlv_offset = off, tlv_tag = ?tag,
      tlv_name = tlv_tag_name ?tag, tlv_data = p, tlv_proto_fields = pfs\<rparr>"
    define new where "new = (if n > 0 \<and> (tlv_tag_name ?tag \<noteq> [] \<or> pfs \<noteq> []) then [r] else [])"
    have len: "length p = n" using True by (auto simp: min_def n_def p_def)
    have r: "tlv_of data source r" if "n > 0"
      using True that by (auto simp: tlv_of_def subslice_def r_def p_def n_def)
    have "\<exists>rs. tlvs_loop data source (off + 3 + n) (seen + 1) (out @ new) = Some ((out @ new) @ rs)
        \<and> length ((out @ new) @ rs) \<le> max (length (out @ new)) 200 \<and> length rs \<le> 160 - (seen + 1)
        \<and> (\<forall>r \<in> set rs. tlv_of data source r \<and> off + 3 + n \<le> tlv_offset r)
        \<and> sorted_wrt (\<lambda>r r'. tlv_offset r + 3 + length (tlv_data r) \<le> tlv_offset r') rs"
      using True by (intro less.hyps) auto
    then obtain rs where rs: "tlvs_loop data source (off + 3 + n) (seen + 1) (out @ new) = Some ((out @ new) @ rs)"
      "length ((out @ new) @ rs) \<le> max (length (out @ new)) 200" "length rs \<le> 160 - (seen + 1)"
      "\<forall>r \<in> set rs. tlv_of data source r \<and> off + 3 + n \<le> tlv_offset r"
      "sorted_wrt (\<lambda>r r'. tlv_offset r + 3 + length (tlv_data r) \<le> tlv_offset r') rs"
      by blast
    have "tlvs_loop data source off seen out
        = tlvs_loop data source (off + 3 + n) (seen + 1) (out @ new)"
      using True pfs by (simp add: tlvs_loop_step [OF hd3] Let_def new_def r_def n_def p_def)
    then have "tlvs_loop data source off seen out = Some (out @ (new @ rs))"
      using rs(1) by simp
    moreover have new: "length new \<le> 1" "\<forall>r' \<in> set new. r' = r \<and> n > 0" "new = [] \<or> new = [r]"
      by (auto simp: new_def)
    have "length (out @ new @ rs) \<le> max (length out) 200" "length (new @ rs) \<le> 160 - seen"
      using rs(2,3) new(1) True by auto
    moreover have off: "tlv_offset r = off" "tlv_data r = p" by (simp_all add: r_def)
    have "\<forall>r' \<in> set (new @ rs). tlv_of data source r' \<and> off \<le> tlv_offset r'"
      using rs(4) new(2) r off by fastforce
    moreover have "sorted_wrt (\<lambda>r r'. tlv_offset r + 3 + length (tlv_data r) \<le> tlv_offset r') (new @ rs)"
      using new(3) rs(4,5) off len by auto
    ultimately show ?thesis by blast
  qed
qed

text \<open>The result of the field collector has one field more than its limit for every level of
  nesting that can still add to it.\<close>

lemma fields_loop_no_length:
  assumes "fields_loop nest data path off out = Some out'" "off < length data" "length out < 500"
    "read_varint data off = (Some key, off1)" "key \<noteq> 0" "key AND 7 = 2"
    "read_varint data off1 = (None, off2)"
  shows "out' = out"
  using assms(1)
  apply (subst (asm) fields_loop.simps)
  apply (simp only: assms simp_thms if_True prod.case option.case if_False Let_def)
  apply simp
  done

lemma fields_loop_nested:
  assumes "fields_loop nest data path off out = Some out'" "off < length data" "length out < 500"
    "read_varint data off = (Some key, off1)" "key \<noteq> 0" "key AND 7 = 2"
    "read_varint data off1 = (Some v, off2)"
  shows "out' = out \<or> (\<exists>bs cur o' f. (o' = out \<or> nest bs cur out = Some o')
           \<and> fields_loop nest data path (off2 + unat v) (o' @ [f]) = Some out')"
proof -
  have ne: "(2::u64) \<noteq> 0" "(2::u64) \<noteq> 1" by simp_all
  have "\<exists>cur item. Option.bind (uadd off2 (unat v)) (\<lambda>stop.
      if stop > length data then Some out
      else Option.bind (subslice data off2 stop) (\<lambda>bs.
        Option.bind (if unat v \<le> 4096 then nest bs cur out else Some out) (\<lambda>o'.
          fields_loop nest data path stop (o' @ [item bs])))) = Some out'"
    using assms(1)
    apply (subst (asm) fields_loop.simps)
    apply (simp only: assms simp_thms if_True prod.case option.case if_False Let_def ne)
    apply (intro exI)
    apply assumption
    done
  then show ?thesis by (auto simp: bind_eq_Some_conv uadd_eq_Some split: if_splits)
qed

lemma fields_loop_fixed:
  assumes "fields_loop nest data path off out = Some out'" "off < length data" "length out < 500"
    "read_varint data off = (Some key, off1)" "key \<noteq> 0"
    "key AND 7 = 1 \<and> n = 8 \<or> key AND 7 = 5 \<and> n = 4"
  shows "out' = out \<or> (\<exists>f. fields_loop nest data path (off1 + n) (out @ [f]) = Some out')"
  using assms(6)
proof
  assume w: "key AND 7 = 1 \<and> n = 8"
  show ?thesis
  proof (cases "off1 + 8 \<le> length data")
    case True
    then show ?thesis using assms(1-5) w
      by (subst (asm) fields_loop.simps) (simp add: Let_def subslice_Some, blast)
  next
    case False
    then show ?thesis using assms(1-5) w
      by (subst (asm) fields_loop.simps) (simp add: Let_def)
  qed
next
  assume w: "key AND 7 = 5 \<and> n = 4"
  show ?thesis
  proof (cases "off1 + 4 \<le> length data")
    case True
    then show ?thesis using assms(1-5) w
      by (subst (asm) fields_loop.simps) (simp add: Let_def subslice_Some, blast)
  next
    case False
    then show ?thesis using assms(1-5) w
      by (subst (asm) fields_loop.simps) (simp add: Let_def)
  qed
qed

lemma fields_loop_cases:
  assumes "fields_loop nest data path off out = Some out'"
  obtains (stop) "out' = out"
  | (step) off' o' f where "off < off'" "length out < 500"
      "o' = out \<or> (\<exists>bs cur. nest bs cur out = Some o')"
      "fields_loop nest data path off' (o' @ [f]) = Some out'"
proof (cases "off < length data \<and> length out < 500")
  case False
  then have "out' = out" using assms by (subst (asm) fields_loop.simps) (auto split: if_splits)
  then show thesis by (rule stop)
next
  case True
  obtain r off1 where rv: "read_varint data off = (r, off1)" by (cases "read_varint data off")
  show thesis
  proof (cases "r = None \<or> r = Some 0")
    case nokey: True
    then have "out' = out" using assms rv True by (subst (asm) fields_loop.simps) auto
    then show thesis by (rule stop)
  next
    case False
    then obtain key where key: "r = Some key" "key \<noteq> 0" by auto
    have adv: "off < off1" using read_varint_bounds [of data off key off1] rv key by simp
    note st = step [OF _ conjunct2 [OF True]]
    consider "key AND 7 = 0" | "key AND 7 = 1" | "key AND 7 = 2" | "key AND 7 = 5"
      | (other) "key AND 7 \<notin> {0, 1, 2, 5}" by auto
    then show thesis
    proof cases
      case 1
      obtain q off2 where q: "read_varint data off1 = (q, off2)" by (cases "read_varint data off1")
      have "off < off2" using read_varint_mono [OF q [symmetric]] adv by simp
      moreover have "\<exists>f. fields_loop nest data path off2 (out @ [f]) = Some out'"
        using assms rv key True 1 q by (subst (asm) fields_loop.simps) (auto simp: Let_def)
      ultimately show thesis using st [of off2 out] by blast
    next
      case 2
      then have "out' = out \<or> (\<exists>f. fields_loop nest data path (off1 + 8) (out @ [f]) = Some out')"
        using fields_loop_fixed [of nest data path off out out' key off1] assms rv key True by simp
      then show thesis
      proof
        assume "\<exists>f. fields_loop nest data path (off1 + 8) (out @ [f]) = Some out'"
        then obtain f where "fields_loop nest data path (off1 + 8) (out @ [f]) = Some out'" by blast
        then show thesis by (intro st [of "off1 + 8" out f]) (use adv in simp_all)
      qed (rule stop)
    next
      case 3
      obtain q off2 where q: "read_varint data off1 = (q, off2)" by (cases "read_varint data off1")
      have "off < off2" using read_varint_mono [OF q [symmetric]] adv by simp
      show thesis
      proof (cases q)
        case None
        then have "out' = out"
          using rv key q True 3 by (intro fields_loop_no_length [OF assms]) auto
        then show thesis by (rule stop)
      next
        case (Some v)
        then have "out' = out \<or> (\<exists>bs cur o' f. (o' = out \<or> nest bs cur out = Some o')
            \<and> fields_loop nest data path (off2 + unat v) (o' @ [f]) = Some out')"
          using rv key q True 3 by (intro fields_loop_nested [OF assms]) auto
        then show thesis
        proof
          assume "\<exists>bs cur o' f. (o' = out \<or> nest bs cur out = Some o')
            \<and> fields_loop nest data path (off2 + unat v) (o' @ [f]) = Some out'"
          then obtain bs cur o' f where "o' = out \<or> nest bs cur out = Some o'"
            "fields_loop nest data path (off2 + unat v) (o' @ [f]) = Some out'" by blast
          then show thesis using \<open>off < off2\<close>
            by (intro st [of "off2 + unat v" o' f]) auto
        qed (rule stop)
      qed
    next
      case 4
      then have "out' = out \<or> (\<exists>f. fields_loop nest data path (off1 + 4) (out @ [f]) = Some out')"
        using fields_loop_fixed [of nest data path off out out' key off1] assms rv key True by simp
      then show thesis
      proof
        assume "\<exists>f. fields_loop nest data path (off1 + 4) (out @ [f]) = Some out'"
        then obtain f where "fields_loop nest data path (off1 + 4) (out @ [f]) = Some out'" by blast
        then show thesis by (intro st [of "off1 + 4" out f]) (use adv in simp_all)
      qed (rule stop)
    next
      case other
      then have "out' = out" using assms rv key True
        by (subst (asm) fields_loop.simps) (auto simp: Let_def)
      then show thesis by (rule stop)
    qed
  qed
qed

lemma fields_loop_bound:
  assumes nest: "\<And>bs p o' o''. nest bs p o' = Some o'' \<Longrightarrow> length o'' \<le> max (length o') m"
    and m: "500 \<le> Suc m" and "fields_loop nest data path off out = Some out'"
  shows "length out' \<le> max (length out) (Suc m)"
  using assms(3)
proof (induction "length data - off" arbitrary: off out rule: less_induct)
  case less
  from less.prems show ?case
  proof (cases rule: fields_loop_cases)
    case (step off' o' f)
    then have "length (o' @ [f]) \<le> Suc m" using nest m by fastforce
    show ?thesis
    proof (cases "off < length data")
      case True
      then have "length out' \<le> max (length (o' @ [f])) (Suc m)"
        using step by (intro less.hyps [OF _ step(4)]) auto
      then show ?thesis using \<open>length (o' @ [f]) \<le> Suc m\<close> by simp
    next
      case False
      then show ?thesis using less.prems by (subst (asm) fields_loop.simps) simp
    qed
  qed simp
qed

lemma collect_fields_bound:
  "collect_fields k data path out = Some out' \<Longrightarrow> length out' \<le> max (length out) (499 + k)"
proof (induction k arbitrary: data path out out')
  case (Suc k)
  show ?case
  proof (cases "length data < 2 \<or> length out > 500 \<or> \<not> looks_like_proto data")
    case False
    then show ?thesis using Suc fields_loop_bound [of "collect_fields k" "499 + k" data path 0 out out'] by auto
  qed (use Suc in auto)
qed simp

section \<open>Properties\<close>

theorem read_varint_encode_witness:
  "(300::nat) < 2 ^ 64 \<and> read_varint ([7] @ encode_varint 300 @ [9]) 1
     = (Some 300, 1 + length (encode_varint 300))"
  using read_varint_encode [of 300 "[7]" "[9]"] by simp

text \<open>\<open>collect_proto_fields\<close> never panics on a slice, whatever its bytes: it runs only where
  \<open>looks_like_proto\<close> has walked every length of the buffer with saturating additions, so the
  unchecked additions of the loop stay in range. Its limit of 500 fields is exceeded by at most one
  field for every level of nesting.\<close>

theorem collect_proto_fields_safe:
  assumes "slice_ok data"
  shows "\<exists>out'. collect_proto_fields data depth path out = Some out'
           \<and> length out' \<le> max (length out) (499 + (4 - depth))"
proof -
  obtain out' where "collect_proto_fields data depth path out = Some out'"
    using collect_fields_Some [OF assms] by blast
  then show ?thesis
    using collect_fields_bound [of "4 - depth" data path out out'] by (auto simp: collect_proto_fields_def)
qed

theorem collect_proto_fields_safe_witness:
  "\<exists>out'. collect_proto_fields [0x08, 0x96, 0x01] 0 [] [] = Some out' \<and> length out' \<le> max (length ([] :: proto_field list)) (499 + (4 - 0))"
  by (rule collect_proto_fields_safe) (simp add: slice_ok_def)

text \<open>\<open>collect_ctx_tlvs\<close> never panics and reports what the buffer holds: each reported TLV is a
  tag other than 0xFF with its big-endian length and exactly that many bytes, none empty; they are
  reported in the order of the buffer without overlap, at most 160 of them and never past 200
  records in all.\<close>

theorem collect_ctx_tlvs_spec:
  assumes "slice_ok data"
  shows "\<exists>rs. collect_ctx_tlvs data source out = Some (out @ rs) \<and> length (out @ rs) \<le> max (length out) 200
           \<and> length rs \<le> 160 \<and> (\<forall>r \<in> set rs. tlv_of data source r)
           \<and> sorted_wrt (\<lambda>r r'. tlv_offset r + 3 + length (tlv_data r) \<le> tlv_offset r') rs"
  using tlvs_loop_spec [OF assms, of source 0 0 out] by (auto simp: collect_ctx_tlvs_def)

theorem collect_ctx_tlvs_spec_witness:
  "\<exists>rs. collect_ctx_tlvs [0x1D, 0, 2, 8, 1, 0xFF, 0, 0] (ascii ''ctx'') [] = Some ([] @ rs)
     \<and> length ([] @ rs) \<le> max (length ([] :: tlv_record list)) 200 \<and> length rs \<le> 160
     \<and> (\<forall>r \<in> set rs. tlv_of [0x1D, 0, 2, 8, 1, 0xFF, 0, 0] (ascii ''ctx'') r)
     \<and> sorted_wrt (\<lambda>r r'. tlv_offset r + 3 + length (tlv_data r) \<le> tlv_offset r') rs"
  by (rule collect_ctx_tlvs_spec) (simp add: slice_ok_def)

text \<open>The string collector has no such test in front of it and adds the length it read to the
  offset before it compares: a length-delimited field that announces \<open>2 ^ 64 - 1\<close> bytes makes
  \<open>collect_proto_strings\<close> panic, at every depth at which it still looks.\<close>

theorem collect_proto_strings_overflow:
  "depth < 3 \<longrightarrow> collect_proto_strings
     [0x0A, 0xFF, 0xFF, 0xFF, 0xFF, 0xFF, 0xFF, 0xFF, 0xFF, 0xFF, 0x01] depth [] = None"
proof
  assume "depth < 3"
  then obtain k where k: "3 - depth = Suc k" by (metis Suc_diff_Suc)
  show "collect_proto_strings
     [0x0A, 0xFF, 0xFF, 0xFF, 0xFF, 0xFF, 0xFF, 0xFF, 0xFF, 0xFF, 0x01] depth [] = None"
    unfolding collect_proto_strings_def k
    by (simp add: strings_loop.simps read_varint_def varint_loop_eval numeral_3_eq_3 uadd_def usize_limit_def)
qed

theorem collect_proto_strings_overflow_witness:
  "(0::nat) < 3 \<and> collect_proto_strings
     [0x0A, 0xFF, 0xFF, 0xFF, 0xFF, 0xFF, 0xFF, 0xFF, 0xFF, 0xFF, 0x01] 0 [] = None"
  using collect_proto_strings_overflow [of 0] by simp

text \<open>A writer of messages, to state what the reader reads back.\<close>

datatype wire_value = Varint nat | Fixed64 bytes | Len bytes | Fixed32 bytes

fun wire_type :: "wire_value \<Rightarrow> nat" where
  "wire_type (Varint v) = 0"
| "wire_type (Fixed64 bs) = 1"
| "wire_type (Len bs) = 2"
| "wire_type (Fixed32 bs) = 5"

fun wire_ok :: "nat \<times> wire_value \<Rightarrow> bool" where
  "wire_ok (no, Varint v) = (1 \<le> no \<and> no \<le> 0x10000 \<and> v < 2 ^ 64)"
| "wire_ok (no, Fixed64 bs) = (1 \<le> no \<and> no \<le> 0x10000 \<and> length bs = 8)"
| "wire_ok (no, Len bs) = (1 \<le> no \<and> no \<le> 0x10000 \<and> slice_ok bs)"
| "wire_ok (no, Fixed32 bs) = (1 \<le> no \<and> no \<le> 0x10000 \<and> length bs = 4)"

fun wire_payload :: "wire_value \<Rightarrow> bytes" where
  "wire_payload (Varint v) = encode_varint v"
| "wire_payload (Fixed64 bs) = bs"
| "wire_payload (Len bs) = encode_varint (length bs) @ bs"
| "wire_payload (Fixed32 bs) = bs"

definition encode_field :: "nat \<times> wire_value \<Rightarrow> bytes" where
  "encode_field f = encode_varint (fst f * 8 + wire_type (snd f)) @ wire_payload (snd f)"

definition encode_message :: "(nat \<times> wire_value) list \<Rightarrow> bytes" where
  "encode_message fs = concat (map encode_field fs)"

text \<open>The record the reader makes of a field.\<close>

fun field_of :: "str \<Rightarrow> nat \<times> wire_value \<Rightarrow> proto_field" where
  "field_of path (no, v) =
     \<lparr>pf_path = (if path = [] then nat_digits no else path @ [46] @ nat_digits no),
      pf_field = word_of_nat no, pf_wire = word_of_nat (wire_type v),
      pf_varint = (case v of Varint x \<Rightarrow> Some (word_of_nat x) | _ \<Rightarrow> None),
      pf_bytes = (case v of Varint x \<Rightarrow> [] | Fixed64 bs \<Rightarrow> bs | Len bs \<Rightarrow> bs | Fixed32 bs \<Rightarrow> bs),
      pf_text = (case v of Len bs \<Rightarrow>
          if length bs \<le> 500 then case valid_utf8_text bs of Some t \<Rightarrow> t | None \<Rightarrow> [] else []
        | _ \<Rightarrow> [])\<rparr>"

lemma key_parts:
  assumes "no \<le> 0x10000" "w < 8"
  shows "drop_bit 3 (word_of_nat (no * 8 + w) :: u64) = word_of_nat no"
    "(word_of_nat (no * 8 + w) :: u64) AND 7 = word_of_nat w"
    "1 \<le> no \<Longrightarrow> (word_of_nat (no * 8 + w) :: u64) \<noteq> 0"
proof -
  define k where "k = (word_of_nat (no * 8 + w) :: u64)"
  have u: "unat k = no * 8 + w"
    unfolding k_def using assms by (intro unat_of_nat_small) simp
  have "unat (drop_bit 3 k) = no"
    using assms by (simp add: u drop_bit_eq_div unat_div_distrib)
  then have d: "drop_bit 3 k = word_of_nat no" by (metis of_nat_unat ucast_id)
  have "k AND 7 = take_bit 3 k" by (simp add: take_bit_eq_mask mask_eq_exp_minus_1)
  moreover have "unat (take_bit 3 k) = w"
    unfolding unsigned_take_bit_eq u using assms by (simp add: take_bit_eq_mod)
  ultimately have a: "k AND 7 = word_of_nat w" by (metis of_nat_unat ucast_id)
  have n: "1 \<le> no \<Longrightarrow> k \<noteq> 0" using u by auto
  show "drop_bit 3 (word_of_nat (no * 8 + w) :: u64) = word_of_nat no"
    "(word_of_nat (no * 8 + w) :: u64) AND 7 = word_of_nat w"
    "1 \<le> no \<Longrightarrow> (word_of_nat (no * 8 + w) :: u64) \<noteq> 0"
    unfolding k_def [symmetric] by (rule d, rule a, rule n)
qed

lemma encode_varint_length: "1 \<le> length (encode_varint v)"
  by (subst encode_varint.simps) auto

lemma read_key:
  assumes "wire_ok (no, v)" "data = pre @ encode_field (no, v) @ rest"
  shows "\<exists>key. read_varint data (length pre)
           = (Some key, length pre + length (encode_varint (no * 8 + wire_type v))) \<and> key \<noteq> 0
       \<and> drop_bit 3 key = word_of_nat no \<and> key AND 7 = word_of_nat (wire_type v)
       \<and> (word_of_nat no :: u64) \<noteq> 0 \<and> (word_of_nat no :: u64) \<le> 0x10000 \<and> unat (word_of_nat no :: u64) = no"
proof -
  have no: "1 \<le> no" "no \<le> 0x10000" using assms(1) by (cases v, auto)+
  have w: "wire_type v < 8" by (cases v) auto
  have u: "unat (word_of_nat no :: u64) = no"
    using no by (simp add: unsigned_of_nat take_bit_nat_eq_self)
  have "unat (word_of_nat no :: u64) \<le> unat (0x10000 :: u64)" "unat (word_of_nat no :: u64) \<noteq> 0"
    using no u by auto
  then have n: "(word_of_nat no :: u64) \<noteq> 0" "(word_of_nat no :: u64) \<le> 0x10000"
    unfolding word_le_nat_alt by auto
  have "no * 8 + wire_type v < 2 ^ 64" using no w by simp
  then have "read_varint data (length pre)
      = (Some (word_of_nat (no * 8 + wire_type v)), length pre + length (encode_varint (no * 8 + wire_type v)))"
    using assms(2) by (intro varint_read [where mid = "wire_payload v" and rest = rest])
      (simp_all add: encode_field_def)
  with key_parts [OF no(2) w] no(1) n u
  show ?thesis by auto
qed

lemma proto_scan_encode:
  assumes "wire_ok f" "data = pre @ encode_field f @ rest" "slice_ok data" "k < 12"
  shows "proto_scan data (length pre) k = proto_scan data (length pre + length (encode_field f)) (k + 1)"
proof -
  obtain no v where f: "f = (no, v)" by (cases f)
  obtain key where key: "read_varint data (length pre)
      = (Some key, length pre + length (encode_varint (no * 8 + wire_type v)))" "key \<noteq> 0"
    "drop_bit 3 key = word_of_nat no" "key AND 7 = word_of_nat (wire_type v)"
    "(word_of_nat no :: u64) \<noteq> 0" "(word_of_nat no :: u64) \<le> 0x10000"
    using read_key assms(1,2) f by blast
  let ?pre = "pre @ encode_varint (no * 8 + wire_type v)"
  have lt: "length pre < length data" using assms(2) encode_varint_length [of "no * 8 + wire_type v"] f
    by (auto simp: encode_field_def)
  have d: "data = ?pre @ wire_payload v @ rest" using assms(2) f by (simp add: encode_field_def)
  note step = proto_scan.simps [of data "length pre" k]
  have sat: "saturating_add a b = a + b" if "a + b \<le> length data" for a b
    using that slice_ok_limit [OF assms(3)] by (simp add: saturating_add_def)
  show ?thesis
  proof (cases v)
    case (Varint x)
    then have "read_varint data (length ?pre) = (Some (word_of_nat x), length ?pre + length (encode_varint x))"
      using varint_read [of x data ?pre "[]" rest] d assms(1) f by simp
    then show ?thesis using key leD [OF key(6)] lt assms(4) d Varint f unfolding step
      by (simp add: Let_def encode_field_def add.assoc)
  next
    case (Fixed64 bs)
    then show ?thesis using key leD [OF key(6)] lt assms(1,4) d f sat unfolding step
      by (simp add: Let_def encode_field_def add.assoc)
  next
    case (Len bs)
    have len: "length bs < 2 ^ 64" using assms(1) f Len by (simp add: slice_ok_def)
    then have "read_varint data (length ?pre) = (Some (word_of_nat (length bs)), length ?pre + length (encode_varint (length bs)))"
      using varint_read [of "length bs" data ?pre bs rest] d Len by simp
    moreover have "unat (word_of_nat (length bs) :: u64) = length bs"
      using len by (simp add: unsigned_of_nat take_bit_nat_eq_self)
    ultimately show ?thesis using key leD [OF key(6)] lt assms(4) d Len f sat unfolding step
      by (simp add: Let_def encode_field_def add.assoc)
  next
    case (Fixed32 bs)
    then show ?thesis using key leD [OF key(6)] lt assms(1,4) d f sat unfolding step
      by (simp add: Let_def encode_field_def add.assoc)
  qed
qed

lemma proto_scan_message:
  assumes "\<forall>f \<in> set fs. wire_ok f" "slice_ok (pre @ encode_message fs)" "k + length fs \<le> 12"
  shows "proto_scan (pre @ encode_message fs) (length pre) k
       = Some (length (pre @ encode_message fs), k + length fs)"
  using assms
proof (induction fs arbitrary: pre k)
  case Nil
  then show ?case by (subst proto_scan.simps) (simp add: encode_message_def)
next
  case (Cons f fs)
  have e: "pre @ encode_message (f # fs) = (pre @ encode_field f) @ encode_message fs"
    by (simp add: encode_message_def)
  have "proto_scan (pre @ encode_message (f # fs)) (length pre) k
      = proto_scan ((pre @ encode_field f) @ encode_message fs) (length (pre @ encode_field f)) (k + 1)"
    using proto_scan_encode [of f "pre @ encode_message (f # fs)" pre "encode_message fs" k] Cons.prems e
    by simp
  also have "\<dots> = Some (length ((pre @ encode_field f) @ encode_message fs), (k + 1) + length fs)"
    using Cons.prems e by (intro Cons.IH) auto
  finally show ?case using e by simp
qed

lemma fields_loop_encode:
  assumes "wire_ok f" "data = pre @ encode_field f @ rest" "slice_ok data" "length out < 500"
    "\<And>bs cur o'. nest bs cur o' = Some o'"
  shows "fields_loop nest data path (length pre) out
       = fields_loop nest data path (length pre + length (encode_field f)) (out @ [field_of path f])"
proof -
  obtain no v where f: "f = (no, v)" by (cases f)
  obtain key where key: "read_varint data (length pre)
      = (Some key, length pre + length (encode_varint (no * 8 + wire_type v)))" "key \<noteq> 0"
    "drop_bit 3 key = word_of_nat no" "key AND 7 = word_of_nat (wire_type v)"
    "unat (word_of_nat no :: u64) = no"
    using read_key assms(1,2) f by blast
  let ?pre = "pre @ encode_varint (no * 8 + wire_type v)"
  have lt: "length pre < length data" using assms(2) encode_varint_length [of "no * 8 + wire_type v"] f
    by (auto simp: encode_field_def)
  have d: "data = ?pre @ wire_payload v @ rest" using assms(2) f by (simp add: encode_field_def)
  note step = fields_loop.simps [of nest data path "length pre" out]
  have mid: "subslice data (length xs) (length xs + length bs) = Some bs" if "data = xs @ bs @ ys" for xs bs ys
    unfolding that by (rule subslice_append_mid)
  show ?thesis
  proof (cases v)
    case (Varint x)
    then have "read_varint data (length ?pre) = (Some (word_of_nat x), length ?pre + length (encode_varint x))"
      using varint_read [of x data ?pre "[]" rest] d assms(1) f by simp
    then show ?thesis using key lt assms(4) Varint f unfolding step
      by (simp add: Let_def encode_field_def add.assoc)
  next
    case (Fixed64 bs)
    then show ?thesis using key lt assms(1,4) f mid [of ?pre bs rest] d unfolding step
      by (simp add: Let_def encode_field_def add.assoc)
  next
    case (Len bs)
    have len: "length bs < 2 ^ 64" using assms(1) f Len by (simp add: slice_ok_def)
    then have "read_varint data (length ?pre) = (Some (word_of_nat (length bs)), length ?pre + length (encode_varint (length bs)))"
      using varint_read [of "length bs" data ?pre bs rest] d Len by simp
    moreover have "unat (word_of_nat (length bs) :: u64) = length bs"
      using len by (simp add: unsigned_of_nat take_bit_nat_eq_self)
    moreover have "uadd (length ?pre + length (encode_varint (length bs))) (length bs)
        = Some (length ?pre + length (encode_varint (length bs)) + length bs)"
      using d Len by (intro uadd_in_slice [OF assms(3)]) simp
    moreover have "subslice data (length ?pre + length (encode_varint (length bs)))
        (length ?pre + length (encode_varint (length bs)) + length bs) = Some bs"
      using mid [of "?pre @ encode_varint (length bs)" bs rest] d Len by (simp add: add.assoc)
    ultimately show ?thesis using key lt assms(4) d Len f assms(5) unfolding step
      by (simp add: Let_def encode_field_def add.assoc linorder_not_less)
  next
    case (Fixed32 bs)
    then show ?thesis using key lt assms(1,4) f mid [of ?pre bs rest] d unfolding step
      by (simp add: Let_def encode_field_def add.assoc)
  qed
qed

lemma fields_loop_message:
  assumes "\<forall>f \<in> set fs. wire_ok f" "slice_ok (pre @ encode_message fs)" "length out + length fs \<le> 500"
    "\<And>bs cur o'. nest bs cur o' = Some o'"
  shows "fields_loop nest (pre @ encode_message fs) path (length pre) out
       = Some (out @ map (field_of path) fs)"
  using assms(1-3)
proof (induction fs arbitrary: pre out)
  case Nil
  then show ?case by (subst fields_loop.simps) (simp add: encode_message_def)
next
  case (Cons f fs)
  have e: "pre @ encode_message (f # fs) = (pre @ encode_field f) @ encode_message fs"
    by (simp add: encode_message_def)
  have "fields_loop nest (pre @ encode_message (f # fs)) path (length pre) out
      = fields_loop nest ((pre @ encode_field f) @ encode_message fs) path (length (pre @ encode_field f))
          (out @ [field_of path f])"
    using fields_loop_encode [of f "pre @ encode_message (f # fs)" pre "encode_message fs" out nest path]
      Cons.prems assms(4) e by simp
  also have "\<dots> = Some ((out @ [field_of path f]) @ map (field_of path) fs)"
    using Cons.prems e by (intro Cons.IH) auto
  finally show ?case by simp
qed

lemma encode_field_length: "wire_ok f \<Longrightarrow> 2 \<le> length (encode_field f)"
proof -
  assume "wire_ok f"
  moreover obtain no v where "f = (no, v)" by (cases f)
  ultimately have "1 \<le> length (wire_payload v)"
    using encode_varint_length by (cases v) (auto simp: trans_le_add1)
  then show ?thesis using \<open>f = (no, v)\<close> encode_varint_length [of "no * 8 + wire_type v"]
    by (simp add: encode_field_def)
qed

lemma looks_like_proto_message:
  assumes "\<forall>f \<in> set fs. wire_ok f" "slice_ok (encode_message fs)" "fs \<noteq> []" "length fs \<le> 12"
  shows "looks_like_proto (encode_message fs)"
proof -
  obtain f fs' where "fs = f # fs'" using assms(3) by (cases fs) auto
  then have "2 \<le> length (encode_message fs)"
    using assms(1) encode_field_length [of f] by (simp add: encode_message_def)
  then show ?thesis using proto_scan_message [of fs "[]" 0] assms
    by (simp add: looks_like_proto_def)
qed

text \<open>Round trip with a protobuf writer: \<open>looks_like_proto\<close> accepts every message of one to
  twelve well-formed fields, and the field collector, at the depth at which it no longer descends
  into length-delimited fields, returns exactly these fields, in order, with their path, number,
  wire type and contents.\<close>

theorem collect_proto_fields_message:
  assumes "\<forall>f \<in> set fs. wire_ok f" "slice_ok (encode_message fs)" "fs \<noteq> []" "length fs \<le> 12"
  shows "looks_like_proto (encode_message fs)
       \<and> collect_proto_fields (encode_message fs) 3 path [] = Some (map (field_of path) fs)"
proof -
  have l: "looks_like_proto (encode_message fs)" by (rule looks_like_proto_message [OF assms])
  then have "\<not> length (encode_message fs) < 2" by (simp add: looks_like_proto_def split: if_splits)
  moreover have "fields_loop (collect_fields 0) (encode_message fs) path 0 [] = Some (map (field_of path) fs)"
    using fields_loop_message [of fs "[]" "[]" "collect_fields 0" path] assms by simp
  ultimately show ?thesis using l by (simp add: collect_proto_fields_def)
qed

theorem collect_proto_fields_message_witness:
  "looks_like_proto (encode_message [(1, Varint 300), (2, Len [0x68, 0x69])])
     \<and> collect_proto_fields (encode_message [(1, Varint 300), (2, Len [0x68, 0x69])]) 3 [] []
       = Some (map (field_of []) [(1, Varint 300), (2, Len [0x68, 0x69])])"
  by (rule collect_proto_fields_message)
     (simp_all add: slice_ok_def encode_message_def encode_field_def encode_varint.simps)

end
