(* ===== verification/Txdata.thy ===== *)
theory Txdata imports Msg_Text begin

text \<open>
  The TXData codec (\<open>txdata_codec.rs\<close>): a count, then for every field a header byte, a masked
  name with a 16-bit length and a value with a 32-bit length. The model keeps the code's offset
  into the buffer; an outer \<open>None\<close> is a panic. The GB18030 decoder is the parameter \<open>gb\<close>.
\<close>

section \<open>Records\<close>

record txdata_field =
  txf_header :: u8
  txf_name :: str
  txf_value_len :: u32
  txf_value :: bytes
  txf_value_texts :: "str list"
  txf_value_text_len :: nat

record txdata_record =
  txr_count :: u16
  txr_complete :: bool
  txr_fields :: "txdata_field list"

section \<open>Text\<close>

definition txdata_xor_high_byte :: "u8 \<Rightarrow> bool" where
  "txdata_xor_high_byte hi = ((0x50 \<le> hi \<and> hi \<le> 0x7F) \<or> hi \<ge> 0x80)"

definition codec_reasonable_text :: "str \<Rightarrow> bool" where
  "codec_reasonable_text s =
     (if s = [] \<or> str_len s > 65536 then False
      else if 0xFFFD \<in> set s then False
      else \<not> (\<exists>c \<in> set s. text_control c))"

definition codec_decoded_byte_texts :: "(bytes \<Rightarrow> str option) \<Rightarrow> bytes \<Rightarrow> str list" where
  "codec_decoded_byte_texts gb data =
     (if data \<noteq> [] \<and> 0 \<notin> set data then
        let out = (case utf8_decode data of
                     Some t \<Rightarrow> if codec_reasonable_text t then [t] else []
                   | None \<Rightarrow> [])
        in case gb data of
             Some t \<Rightarrow> if codec_reasonable_text t \<and> t \<notin> set out then out @ [t] else out
           | None \<Rightarrow> out
      else [])"

definition decode_txdata_obfuscated_bytes :: "bytes \<Rightarrow> bytes" where
  "decode_txdata_obfuscated_bytes data =
     (if data = [] \<or> length data > 0xFFFF then []
      else let len = (word_of_nat (length data) :: u16);
               key = (ucast len :: u8) XOR ucast (drop_bit 8 len)
           in map (\<lambda>b. NOT b XOR key) data)"

definition decode_utf16le_text :: "bytes \<Rightarrow> str" where
  "decode_utf16le_text data =
     (if length data < 2 \<or> length data mod 2 \<noteq> 0 then []
      else let units = utf16_units data in
        if 0 \<in> set units then []
        else case utf16_decode units of
               None \<Rightarrow> []
             | Some t \<Rightarrow> if codec_reasonable_text t then t else [])"

definition txdata_numeric_name :: "str \<Rightarrow> bool" where
  "txdata_numeric_name name =
     (starts_with name (ascii ''dw'') \<or> starts_with name (ascii ''n'')
      \<or> starts_with name (ascii ''b'') \<or> starts_with name (ascii ''c'')
      \<or> starts_with name (ascii ''w'') \<or> starts_with name (ascii ''u''))"

text \<open>The last test counts bytes of the UTF-8 form; the hexadecimal digits among them are the
  hexadecimal digits of the text.\<close>

definition looks_like_structured_text :: "str \<Rightarrow> bool" where
  "looks_like_structured_text text =
     (let trimmed = trim text in
      if str_len trimmed < 4 then False
      else if starts_with trimmed (ascii ''http://'') \<or> starts_with trimmed (ascii ''https://'')
           \<or> starts_with trimmed (ascii ''UserData'') \<or> starts_with trimmed (ascii ''OSRoot:'')
           \<or> starts_with trimmed (ascii ''sysres:'')
           \<or> 0x2F \<in> set trimmed \<or> 0x5C \<in> set trimmed then True
      else
        let lower = to_ascii_lowercase trimmed;
            has_struct_ext = (\<exists>ext \<in> set (map ascii [''.jpg'', ''.jpeg'', ''.png'', ''.gif'',
              ''.webp'', ''.bmp'', ''.amr'', ''.mp3'', ''.wav'', ''.m4a'', ''.mp4'', ''.mov'',
              ''.pdf'', ''.doc'', ''.docx'', ''.xls'', ''.xlsx'', ''.zip'', ''.rar'', ''.7z'']).
              ends_with lower ext)
        in if has_struct_ext then True
           else let hex = length (filter is_ascii_hexdigit trimmed)
             in str_len trimmed \<ge> 16 \<and> hex * 100 div str_len trimmed \<ge> 80)"

definition printable_ascii_byte :: "u8 \<Rightarrow> bool" where
  "printable_ascii_byte b = (b = 9 \<or> b = 10 \<or> b = 13 \<or> (0x20 \<le> b \<and> b \<le> 0x7E))"

definition printable_ascii_text :: "bytes \<Rightarrow> str" where
  "printable_ascii_text data =
     (if data = [] \<or> length data > 4096 then []
      else if \<not> (\<forall>b \<in> set data. printable_ascii_byte b) then []
      else case utf8_decode data of
             None \<Rightarrow> []
           | Some t \<Rightarrow> if codec_reasonable_text t then t else [])"

definition decode_txdata_string :: "(bytes \<Rightarrow> str option) \<Rightarrow> bytes \<Rightarrow> str" where
  "decode_txdata_string gb data =
     (let plain = decode_txdata_obfuscated_bytes data in
      if plain = [] then []
      else let text = printable_ascii_text plain in
        if text \<noteq> [] then text
        else let wide = decode_utf16le_text plain in
          if wide \<noteq> [] then wide
          else case codec_decoded_byte_texts gb plain of t # _ \<Rightarrow> t | [] \<Rightarrow> [])"

text \<open>The loop of \<open>decode_fixed_high_byte_strings\<close> on the data from offset \<open>i\<close> on.\<close>

function high_byte_loop :: "(bytes \<Rightarrow> str option) \<Rightarrow> bytes \<Rightarrow> str list \<Rightarrow> str list" where
  "high_byte_loop gb data out =
     (if length data < 2 \<or> length out \<ge> 32 then out
      else if \<not> txdata_xor_high_byte (data ! 1) then high_byte_loop gb (drop 1 data) out
      else
        let decoded = xor_run (data ! 1) data in
        if length decoded \<ge> 4 then
          high_byte_loop gb (drop (2 * length decoded) data)
            (fold (\<lambda>t o'. push_new o' t) (codec_decoded_byte_texts gb decoded) out)
        else high_byte_loop gb (drop 1 data) out)"
  by pat_completeness auto
termination
  by (relation "measure (\<lambda>(_, data, _). length data)") auto

declare high_byte_loop.simps [simp del]

definition decode_fixed_high_byte_strings :: "(bytes \<Rightarrow> str option) \<Rightarrow> bytes \<Rightarrow> str list" where
  "decode_fixed_high_byte_strings gb data =
     (let full = decode_txdata_string gb data
      in high_byte_loop gb data (if full \<noteq> [] then [full] else []))"

section \<open>The record reader\<close>

definition txdata_numeric :: "u8 \<Rightarrow> str \<Rightarrow> bool" where
  "txdata_numeric header name = (header \<in> {1, 2, 3, 4, 6} \<and> txdata_numeric_name name)"

text \<open>The texts of a value and \<open>value_text_len\<close>.\<close>

definition txdata_value_texts ::
  "(bytes \<Rightarrow> str option) \<Rightarrow> u8 \<Rightarrow> str \<Rightarrow> bytes \<Rightarrow> str list \<times> nat" where
  "txdata_value_texts gb header name val =
     (if txdata_numeric header name then ([], 0)
      else if header = 8 then
        let full = decode_txdata_string gb val in
        if full \<noteq> [] then ([full], length val) else ([], 0)
      else if header = 9 \<or> starts_with name (ascii ''buf'') \<or> starts_with name (ascii ''guid'') then
        (filter looks_like_structured_text (decode_fixed_high_byte_strings gb val), 0)
      else ([], 0))"

text \<open>The loop over the fields returns \<open>complete\<close>, the last \<open>pos\<close> and the fields read.\<close>

fun txdata_loop :: "(bytes \<Rightarrow> str option) \<Rightarrow> nat \<Rightarrow> bytes \<Rightarrow> nat \<Rightarrow> txdata_field list
    \<Rightarrow> (bool \<times> nat \<times> txdata_field list) option" where
  "txdata_loop gb 0 data pos out = Some (True, pos, out)"
| "txdata_loop gb (Suc k) data pos out =
     (if pos + 3 > length data then Some (False, pos, out)
      else do {
        header \<leftarrow> idx data pos;
        nlen \<leftarrow> Option.bind (subslice data (pos + 1) (pos + 3)) le16;
        let name_len = unat nlen;
        let pos1 = pos + 3;
        if name_len > length data - pos1 then Some (False, pos1, out)
        else do {
          raw \<leftarrow> subslice data pos1 (pos1 + name_len);
          let name = decode_txdata_string gb raw;
          let pos2 = pos1 + name_len;
          if pos2 + 4 > length data then Some (False, pos2, out)
          else do {
            vbytes \<leftarrow> subslice data pos2 (pos2 + 4);
            let value_len = u32_from_le vbytes;
            let pos3 = pos2 + 4;
            let n = unat value_len;
            if n > length data - pos3 then Some (False, pos3, out)
            else do {
              val \<leftarrow> subslice data pos3 (pos3 + n);
              let (texts, text_len) = txdata_value_texts gb header name val;
              txdata_loop gb k data (pos3 + n)
                (out @ [\<lparr>txf_header = header, txf_name = name, txf_value_len = value_len,
                         txf_value = val, txf_value_texts = texts,
                         txf_value_text_len = text_len\<rparr>]) } } } })"

definition decode_txdata_fields :: "(bytes \<Rightarrow> str option) \<Rightarrow> bytes \<Rightarrow> txdata_record option" where
  "decode_txdata_fields gb data =
     (if length data < 2 then Some \<lparr>txr_count = 0, txr_complete = False, txr_fields = []\<rparr>
      else do {
        count \<leftarrow> Option.bind (subslice data 0 2) le16;
        if count = 0 then
          Some \<lparr>txr_count = count, txr_complete = (length data = 2), txr_fields = []\<rparr>
        else if count > 200 then
          Some \<lparr>txr_count = count, txr_complete = False, txr_fields = []\<rparr>
        else do {
          (complete, pos, flds) \<leftarrow> txdata_loop gb (unat count) data 2 [];
          Some \<lparr>txr_count = count, txr_complete = (complete \<and> pos = length data),
                txr_fields = flds\<rparr> } })"

section \<open>The serialized form\<close>

text \<open>A field as it stands in the buffer: header, masked name, value.\<close>

type_synonym raw_field = "u8 \<times> bytes \<times> bytes"

definition raw_ok :: "raw_field \<Rightarrow> bool" where
  "raw_ok f = (case f of (h, name, val) \<Rightarrow> length name < 2 ^ 16 \<and> length val < 2 ^ 32)"

definition encode_raw :: "raw_field \<Rightarrow> bytes" where
  "encode_raw f = (case f of (h, name, val) \<Rightarrow>
     [h] @ nat_le 2 (length name) @ name @ nat_le 4 (length val) @ val)"

definition encode_txdata :: "raw_field list \<Rightarrow> bytes" where
  "encode_txdata fs = nat_le 2 (length fs) @ concat (map encode_raw fs)"

definition raw_field_of :: "(bytes \<Rightarrow> str option) \<Rightarrow> raw_field \<Rightarrow> txdata_field" where
  "raw_field_of gb f = (case f of (h, raw, val) \<Rightarrow>
     let name = decode_txdata_string gb raw in
     \<lparr>txf_header = h, txf_name = name, txf_value_len = word_of_nat (length val), txf_value = val,
      txf_value_texts = fst (txdata_value_texts gb h name val),
      txf_value_text_len = snd (txdata_value_texts gb h name val)\<rparr>)"

lemma length_encode_raw: "length (encode_raw (h, name, val)) = 7 + length name + length val"
  by (simp add: encode_raw_def)

text \<open>One round of the loop, with the reads replaced by what they read.\<close>

lemma txdata_loop_step:
  assumes "pos \<le> length data"
  shows "txdata_loop gb (Suc k) data pos out =
    (let r = drop pos data; nl = le_nat (take 2 (drop 1 r)); vl = le_nat (take 4 (drop (3 + nl) r)) in
     if length r < 3 then Some (False, pos, out)
     else if nl > length r - 3 then Some (False, pos + 3, out)
     else if length r < 7 + nl then Some (False, pos + 3 + nl, out)
     else if vl > length r - 7 - nl then Some (False, pos + 7 + nl, out)
     else txdata_loop gb k data (pos + 7 + nl + vl)
        (out @ [raw_field_of gb (hd r, take nl (drop 3 r), take vl (drop (7 + nl) r))]))"
proof (cases "pos + 3 \<le> length data")
  case True
  define wl where "wl = le16_pair (data ! (pos + 1)) (data ! (pos + 2))"
  define nl where "nl = unat wl"
  define p2 where "p2 = pos + 3 + nl"
  define vb where "vb = take 4 (drop p2 data)"
  define vl where "vl = le_nat vb"
  have nl: "Option.bind (subslice data (pos + 1) (pos + 3)) le16 = Some wl"
    using True le16_subslice [of "pos + 1" data "pos + 3"] by (simp add: wl_def)
  have nl': "le_nat (take 2 (drop 1 (drop pos data))) = nl"
    using True take_drop_2 [of "pos + 1" data] by (simp add: nl_def wl_def unat_le16_pair add.commute)
  have u: "unat (u32_from_le vb) = vl" "word_of_nat vl = u32_from_le vb"
    by (simp add: vl_def vb_def unat_u32_from_le, simp add: vl_def u32_from_le_def)
  have hd: "hd (drop pos data) = data ! pos"
    using True by (simp add: hd_drop_conv_nth)
  have comm: "drop (3 + nl) (drop pos data) = drop p2 data" "drop 3 (drop pos data) = drop (pos + 3) data"
    "drop (7 + nl) (drop pos data) = drop (p2 + 4) data" "pos + 7 + nl = p2 + 4"
    by (simp_all add: p2_def add.commute add.left_commute)
  have len: "length (drop pos data) < 3 \<longleftrightarrow> False"
    "length (drop pos data) - 3 < nl \<longleftrightarrow> length data < p2"
    "length data - (pos + 3) < nl \<longleftrightarrow> length data < p2"
    "length (drop pos data) < 7 + nl \<longleftrightarrow> length data < p2 + 4"
    "length (drop pos data) - 7 - nl = length data - (p2 + 4)"
    "length data < pos + 3 \<longleftrightarrow> False"
    using True by (auto simp: p2_def)
  have sub: "idx data pos = Some (data ! pos)"
    "\<not> length data < p2 \<Longrightarrow> subslice data (pos + 3) p2 = Some (take nl (drop (pos + 3) data))"
    "\<not> length data < p2 + 4 \<Longrightarrow> subslice data p2 (p2 + 4) = Some vb"
    using True by (simp_all add: idx_Some subslice_def p2_def vb_def)
  have arith: "length data - (p2 + 4) < vl \<longleftrightarrow> length data < p2 + 4 + vl" if "\<not> length data < p2 + 4"
    using that by auto
  have val: "subslice data (p2 + 4) (p2 + 4 + vl) = Some (take vl (drop (p2 + 4) data))"
    if "\<not> length data < p2 + 4 + vl"
    using that by (simp add: subslice_def)
  note red = txdata_loop.simps nl Let_def nl' nl_def [symmetric] p2_def [symmetric] comm
    vb_def [symmetric] vl_def [symmetric] hd len
  consider "length data < p2" | "\<not> length data < p2" "length data < p2 + 4"
    | "\<not> length data < p2" "\<not> length data < p2 + 4" "length data < p2 + 4 + vl"
    | "\<not> length data < p2" "\<not> length data < p2 + 4" "\<not> length data < p2 + 4 + vl" by linarith
  then show ?thesis
  proof cases
    case 4
    then have "length (take vl (drop (p2 + 4) data)) = vl" by simp
    then show ?thesis using 4 unfolding red
      by (simp only: arith sub val u Option.bind.simps if_False raw_field_of_def Let_def prod.case
            split_beta fst_conv snd_conv simp_thms nl_def [symmetric] p2_def [symmetric] len)
  qed (unfold red, simp_all only: arith sub u Option.bind.simps if_False if_True simp_thms
         nl_def [symmetric] p2_def [symmetric] len)
qed (auto simp: Let_def)

lemma txdata_loop_encode_step:
  assumes "raw_ok f" "data = pre @ encode_raw f @ rest"
  shows "txdata_loop gb (Suc k) data (length pre) out
       = txdata_loop gb k data (length (pre @ encode_raw f)) (out @ [raw_field_of gb f])"
proof -
  obtain h name val where f: "f = (h, name, val)" by (cases f) auto
  have l: "length name < 256 ^ 2" "length val < 256 ^ 4" using assms(1) f by (simp_all add: raw_ok_def)
  obtain a b where ab: "nat_le 2 (length name) = [a, b]"
    by (simp add: numeral_2_eq_2)
  let ?n = "nat_le 4 (length val)"
  have d: "drop (length pre) data = (h # a # b # name @ ?n) @ val @ rest"
    using assms(2) f ab by (simp add: encode_raw_def)
  have "le_nat [a, b] = length name" using le_nat_nat_le [of 2 "length name"] l ab by simp
  then have n: "le_nat (take 2 (drop 1 (drop (length pre) data))) = length name"
    unfolding d by (simp add: numeral_2_eq_2)
  have "drop (3 + length name) (drop (length pre) data) = ?n @ val @ rest"
    unfolding d by (simp add: numeral_3_eq_3)
  then have n2: "le_nat (take 4 (drop (3 + length name) (drop (length pre) data))) = length val"
    using l by (simp add: le_nat_nat_le)
  have t: "take (length name) (drop 3 (drop (length pre) data)) = name"
    unfolding d by (simp add: numeral_3_eq_3)
  have p: "length (h # a # b # name @ ?n) = 7 + length name" by simp
  have t2: "take (length val) (drop (7 + length name) (drop (length pre) data)) = val"
    unfolding d p [symmetric] append_eq_conv_conj [THEN iffD1, OF refl, THEN conjunct2, symmetric] by simp
  have len: "length (drop (length pre) data) = 7 + length name + length val + length rest"
    unfolding d by simp
  have hd: "hd (drop (length pre) data) = h" unfolding d by simp
  have "length pre \<le> length data" using assms(2) by simp
  from txdata_loop_step [OF this, of gb k out, unfolded n Let_def n2 t t2 len hd] f show ?thesis
    by (simp add: length_encode_raw add.assoc)
qed

lemma txdata_loop_encode:
  assumes "\<forall>f \<in> set fs. raw_ok f" "data = pre @ concat (map encode_raw fs)"
  shows "txdata_loop gb (length fs) data (length pre) out
       = Some (True, length data, out @ map (raw_field_of gb) fs)"
  using assms
proof (induction fs arbitrary: pre out)
  case (Cons f fs)
  then show ?case
    using txdata_loop_encode_step [of f data pre "concat (map encode_raw fs)" gb "length fs" out]
      Cons.IH [of "pre @ encode_raw f" "out @ [raw_field_of gb f]"] by simp
qed simp

lemma split_raw:
  assumes "nl = le_nat (take 2 (drop 1 r))" "vl = le_nat (take 4 (drop (3 + nl) r))" "7 + nl + vl \<le> length r"
  shows "r = encode_raw (hd r, take nl (drop 3 r), take vl (drop (7 + nl) r)) @ drop (7 + nl + vl) r
       \<and> raw_ok (hd r, take nl (drop 3 r), take vl (drop (7 + nl) r))"
proof -
  have b: "nl < 2 ^ 16" "vl < 2 ^ 32"
    using le_nat_bound [of "take 2 (drop 1 r)"] le_nat_bound [of "take 4 (drop (3 + nl) r)"] assms
    by simp_all
  have "nat_le 2 nl = take 2 (drop 1 r)" "nat_le 4 vl = take 4 (drop (3 + nl) r)"
    using nat_le_le_nat [of "take 2 (drop 1 r)"] nat_le_le_nat [of "take 4 (drop (3 + nl) r)"] assms by simp_all
  moreover have "r = take 1 r @ take 2 (drop 1 r) @ take nl (drop 3 r) @ take 4 (drop (3 + nl) r)
      @ take vl (drop (7 + nl) r) @ drop (7 + nl + vl) r"
  proof -
    have s: "drop a r = take n (drop a r) @ drop (a + n) r" for a n
      by (metis append_take_drop_id drop_drop add.commute)
    show ?thesis
      using s [of 0 1] s [of 1 2] s [of 3 nl] s [of "3 + nl" 4] s [of "7 + nl" vl]
      by (simp add: numeral_3_eq_3 add.commute)
  qed
  moreover have "take 1 r = [hd r]" using assms(3) by (cases r) auto
  moreover have "length (take nl (drop 3 r)) = nl" "length (take vl (drop (7 + nl) r)) = vl"
    using assms(3) by auto
  ultimately show ?thesis using b by (simp add: encode_raw_def raw_ok_def)
qed

lemma txdata_loop_decode:
  assumes "txdata_loop gb k data pos out = Some (True, pos', out')" "pos \<le> length data"
  shows "\<exists>fs. length fs = k \<and> (\<forall>f \<in> set fs. raw_ok f) \<and> out' = out @ map (raw_field_of gb) fs
           \<and> pos' \<le> length data \<and> pos \<le> pos'
           \<and> drop pos data = concat (map encode_raw fs) @ drop pos' data"
  using assms
proof (induction k arbitrary: pos out)
  case (Suc k)
  define r where "r = drop pos data"
  define nl where "nl = le_nat (take 2 (drop 1 r))"
  define vl where "vl = le_nat (take 4 (drop (3 + nl) r))"
  define f where "f = (hd r, take nl (drop 3 r), take vl (drop (7 + nl) r))"
  have ok: "7 + nl + vl \<le> length r"
    and rec: "txdata_loop gb k data (pos + 7 + nl + vl) (out @ [raw_field_of gb f]) = Some (True, pos', out')"
    using Suc.prems(1) unfolding txdata_loop_step [OF Suc.prems(2)] r_def [symmetric] Let_def
      nl_def [symmetric] vl_def [symmetric] f_def [symmetric]
    by (auto split: if_splits)
  have sp: "r = encode_raw f @ drop (7 + nl + vl) r" "raw_ok f"
    using split_raw [OF nl_def vl_def ok] by (simp_all add: f_def)
  have d: "drop (7 + nl + vl) r = drop (pos + 7 + nl + vl) data"
    by (simp add: r_def add.commute add.left_commute)
  have "pos + 7 + nl + vl \<le> length data" using ok Suc.prems(2) by (simp add: r_def)
  from Suc.IH [OF rec this] obtain fs where fs: "length fs = k" "\<forall>f \<in> set fs. raw_ok f"
    "out' = (out @ [raw_field_of gb f]) @ map (raw_field_of gb) fs" "pos' \<le> length data"
    "pos + 7 + nl + vl \<le> pos'" "drop (pos + 7 + nl + vl) data = concat (map encode_raw fs) @ drop pos' data"
    by blast
  show ?case
    by (rule exI [of _ "f # fs"]) (use fs sp d in \<open>auto simp: r_def [symmetric]\<close>)
qed simp

lemma txdata_loop_total: "pos \<le> length data \<Longrightarrow> \<exists>c pos' out'. txdata_loop gb k data pos out = Some (c, pos', out')"
proof (induction k arbitrary: pos out)
  case (Suc k)
  define r nl vl where "r = drop pos data" and "nl = le_nat (take 2 (drop 1 r))"
    and "vl = le_nat (take 4 (drop (3 + nl) r))"
  show ?case unfolding txdata_loop_step [OF Suc.prems] Let_def r_def [symmetric] nl_def [symmetric]
      vl_def [symmetric]
    by (simp only: split: if_split) (use Suc.prems in \<open>auto simp: r_def intro: Suc.IH\<close>)
qed (simp, blast)

section \<open>Properties\<close>

definition txdata_mask :: "bytes \<Rightarrow> bytes" where
  "txdata_mask plain = decode_txdata_obfuscated_bytes plain"

lemma obfuscation_involution:
  assumes "length data \<le> 0xFFFF"
  shows "decode_txdata_obfuscated_bytes (decode_txdata_obfuscated_bytes data) = data"
proof (cases "data = []")
  case False
  have "NOT (NOT b XOR k) XOR k = b" for b k :: u8
    by (rule bit_eqI) (auto simp: bit_simps)
  then show ?thesis using assms False
    by (simp add: decode_txdata_obfuscated_bytes_def Let_def comp_def)
qed (simp add: decode_txdata_obfuscated_bytes_def)

lemma length_txdata_mask: "length plain \<le> 0xFFFF \<Longrightarrow> length (txdata_mask plain) = length plain"
  by (auto simp: txdata_mask_def decode_txdata_obfuscated_bytes_def Let_def)

lemma decode_mask: "length plain \<le> 0xFFFF \<Longrightarrow> decode_txdata_obfuscated_bytes (txdata_mask plain) = plain"
  by (simp add: txdata_mask_def obfuscation_involution)

lemma printable_byte_bounds: "printable_ascii_byte b \<Longrightarrow> unat b < 128 \<and> \<not> text_control (unat b) \<and> unat b \<noteq> 0xFFFD"
  unfolding printable_ascii_byte_def text_control_def word_le_nat_alt by auto

lemma txdata_complete_exact_aux:
  "\<exists>r. decode_txdata_fields gb data = Some r
     \<and> (txr_complete r \<longrightarrow> length (txr_fields r) \<le> 200 \<and> unat (txr_count r) = length (txr_fields r)
          \<and> (\<exists>fs. data = encode_txdata fs \<and> (\<forall>f \<in> set fs. raw_ok f)
               \<and> txr_fields r = map (raw_field_of gb) fs))"
proof (cases "length data < 2")
  case True
  then show ?thesis by (simp add: decode_txdata_fields_def)
next
  case False
  define w where "w = le16_pair (data ! 0) (data ! 1)"
  have c: "Option.bind (subslice data 0 2) le16 = Some w"
    using False le16_subslice [of 0 data 2] by (simp add: w_def)
  have two: "data = nat_le 2 (unat w) @ drop 2 data"
    using False nat_le_le_nat [of "take 2 data"] take_drop_2 [of 0 data]
      append_take_drop_id [of 2 data] by (simp add: w_def unat_le16_pair)
  obtain cm p out where l: "txdata_loop gb (unat w) data 2 [] = Some (cm, p, out)"
    using txdata_loop_total [of 2 data gb "unat w" "[]"] False by auto
  consider "w = 0" | "w > 200" | "w \<noteq> 0" "\<not> w > 200" by blast
  then show ?thesis
  proof cases
    case 1
    then show ?thesis using c two False
      by (auto simp: decode_txdata_fields_def encode_txdata_def intro!: exI [of _ "[]"])
  next
    case 2
    then show ?thesis using c False by (auto simp: decode_txdata_fields_def)
  next
    case 3
    then have n: "unat w \<le> 200" unfolding linorder_not_less word_le_nat_alt by simp
    have r: "decode_txdata_fields gb data
        = Some \<lparr>txr_count = w, txr_complete = (cm \<and> p = length data), txr_fields = out\<rparr>"
      using c False l 3 by (simp add: decode_txdata_fields_def)
    show ?thesis
    proof (cases "cm \<and> p = length data")
      case True
      then obtain fs where "length fs = unat w" "\<forall>f \<in> set fs. raw_ok f"
        "out = map (raw_field_of gb) fs" "drop 2 data = concat (map encode_raw fs)"
        using txdata_loop_decode [of gb "unat w" data 2 "[]" p out] l False by auto
      then show ?thesis using r n two
        by (auto simp: encode_txdata_def intro!: exI [of _ fs])
    qed (use r in auto)
  qed
qed

text \<open>C16. \<open>decode_txdata_fields\<close> never panics, and a buffer it calls complete is byte for byte the
  serialization of the fields it returns: as many as the count says, at most 200, each field read
  from its own header, masked name and value. No byte of the buffer is left over.\<close>

theorem txdata_complete_exact:
  "\<exists>r. decode_txdata_fields gb data = Some r
     \<and> (txr_complete r \<longrightarrow> length (txr_fields r) \<le> 200 \<and> unat (txr_count r) = length (txr_fields r)
          \<and> (\<exists>fs. data = encode_txdata fs \<and> (\<forall>f \<in> set fs. raw_ok f)
               \<and> txr_fields r = map (raw_field_of gb) fs))"
  by (rule txdata_complete_exact_aux)

theorem txdata_complete_exact_witness:
  "\<exists>r. decode_txdata_fields (\<lambda>_. None) [1, 0, 6, 1, 0, 0x92, 2, 0, 0, 0, 7, 7] = Some r
     \<and> (txr_complete r \<longrightarrow> length (txr_fields r) \<le> 200 \<and> unat (txr_count r) = length (txr_fields r)
          \<and> (\<exists>fs. [1, 0, 6, 1, 0, 0x92, 2, 0, 0, 0, 7, 7] = encode_txdata fs \<and> (\<forall>f \<in> set fs. raw_ok f)
               \<and> txr_fields r = map (raw_field_of (\<lambda>_. None)) fs))"
  by (rule txdata_complete_exact)

lemma txdata_read_back:
  assumes "length fs \<le> 200" "\<forall>f \<in> set fs. raw_ok f"
  shows "decode_txdata_fields gb (encode_txdata fs)
       = Some \<lparr>txr_count = word_of_nat (length fs), txr_complete = True,
               txr_fields = map (raw_field_of gb) fs\<rparr>"
proof -
  define w where "w = (word_of_nat (length fs) :: u16)"
  define data where "data = encode_txdata fs"
  have u: "unat w = length fs" using assms(1) by (simp add: w_def unat_of_nat_small)
  have pre: "length (nat_le 2 (length fs)) = 2" by simp
  have len: "2 \<le> length data" by (simp add: data_def encode_txdata_def)
  have "subslice data 0 2 = Some (nat_le 2 (length fs))"
    using len pre by (simp add: subslice_def data_def encode_txdata_def)
  moreover have "le16 (nat_le 2 (length fs)) = Some w"
    using assms(1) by (simp add: numeral_2_eq_2 le16_pair_from_le)
      (simp add: w_def u16_from_le_def unsigned_of_nat take_bit_nat_eq_self)
  ultimately have c: "Option.bind (subslice data 0 2) le16 = Some w" by simp
  have l: "txdata_loop gb (unat w) data 2 [] = Some (True, length data, map (raw_field_of gb) fs)"
    using txdata_loop_encode [OF assms(2), of data "nat_le 2 (length fs)" gb "[]"] u pre
    by (simp add: data_def encode_txdata_def)
  have "\<not> 200 < w" using assms(1) u by (simp add: word_less_nat_alt)
  moreover have "w = 0 \<longleftrightarrow> fs = []" using u by (metis length_0_conv unat_eq_0)
  ultimately have "decode_txdata_fields gb data
      = Some \<lparr>txr_count = w, txr_complete = True, txr_fields = map (raw_field_of gb) fs\<rparr>"
    using c l len by (auto simp: decode_txdata_fields_def data_def encode_txdata_def)
  then show ?thesis by (simp add: data_def w_def)
qed

text \<open>C36. Conversely every serialization of at most 200 fields is read back completely: the fields
  in order, each with its header, unmasked name, value and texts.\<close>

theorem txdata_roundtrip:
  assumes "length fs \<le> 200" "\<forall>f \<in> set fs. raw_ok f"
  shows "decode_txdata_fields gb (encode_txdata fs)
       = Some \<lparr>txr_count = word_of_nat (length fs), txr_complete = True,
               txr_fields = map (raw_field_of gb) fs\<rparr>"
  by (rule txdata_read_back [OF assms])

theorem txdata_roundtrip_witness:
  "decode_txdata_fields (\<lambda>_. None) (encode_txdata [(6, [0x68], [1, 2, 3, 4]), (8, [], [])])
     = Some \<lparr>txr_count = word_of_nat (length [(6 :: u8, [0x68 :: u8], [1, 2, 3, 4 :: u8]), (8, [], [])]),
             txr_complete = True,
             txr_fields = map (raw_field_of (\<lambda>_. None)) [(6, [0x68], [1, 2, 3, 4]), (8, [], [])]\<rparr>"
  by (rule txdata_roundtrip) (simp_all add: raw_ok_def)

text \<open>A string of printable ASCII characters of at most 4096 bytes, masked with its length, is
  decoded to itself, whatever the GB18030 decoder would make of it.\<close>

theorem txdata_ascii_roundtrip:
  assumes "plain \<noteq> []" "length plain \<le> 4096" "\<forall>b \<in> set plain. printable_ascii_byte b"
  shows "decode_txdata_string gb (txdata_mask plain) = map unat plain"
proof -
  have small: "\<forall>b \<in> set plain. unat b < 128" using assms(3) printable_byte_bounds by blast
  then have "str_len (map unat plain) = length plain" by (subst str_len_ascii) auto
  moreover have "\<forall>c \<in> set (map unat plain). \<not> text_control c \<and> c \<noteq> 0xFFFD"
    using assms(3) printable_byte_bounds by auto
  ultimately have "codec_reasonable_text (map unat plain)"
    using assms(1,2) unfolding codec_reasonable_text_def by auto
  then have "printable_ascii_text plain = map unat plain"
    using assms small by (simp add: printable_ascii_text_def utf8_decode_ascii)
  then show ?thesis using assms by (simp add: decode_txdata_string_def decode_mask)
qed

theorem txdata_ascii_roundtrip_witness:
  "decode_txdata_string (\<lambda>_. None) (txdata_mask [0x64, 0x77, 0x4D]) = map unat [0x64, 0x77, 0x4D :: u8]"
  by (rule txdata_ascii_roundtrip) (simp_all add: printable_ascii_byte_def)

text \<open>A reasonable text in UTF-16LE, masked with its length, is decoded to itself unless all its
  bytes happen to be printable ASCII.\<close>

theorem txdata_utf16_roundtrip:
  assumes "codec_reasonable_text t" "\<forall>c \<in> set t. scalar_value c"
    "length (utf16_encode_bytes t) \<le> 0xFFFF" "\<exists>b \<in> set (utf16_encode_bytes t). \<not> printable_ascii_byte b"
  shows "decode_txdata_string gb (txdata_mask (utf16_encode_bytes t)) = t"
proof -
  let ?p = "utf16_encode_bytes t"
  have t: "t \<noteq> []" "0 \<notin> set t"
    using assms(1) by (auto simp: codec_reasonable_text_def text_control_def split: if_splits)
  have dec: "utf16_decode (utf16_units ?p) = Some t" by (rule utf16_decode_encode [OF assms(2)])
  have "printable_ascii_text ?p = []"
    using assms(4) by (auto simp: printable_ascii_text_def)
  moreover have "decode_utf16le_text ?p = t"
    using utf16_encode_ne [OF t(1)] even_utf16_encode [of t] dec utf16_decode_nonzero [OF dec t(2)] assms(1)
    by (auto simp: decode_utf16le_text_def even_iff_mod_2_eq_zero)
  moreover have "?p \<noteq> []" using utf16_encode_ne [OF t(1)] by auto
  ultimately show ?thesis using t assms(3) by (simp add: decode_txdata_string_def decode_mask)
qed

theorem txdata_utf16_roundtrip_witness:
  "decode_txdata_string (\<lambda>_. None) (txdata_mask (utf16_encode_bytes [0x40, 0x70, 0x6C, 0x20, 0x65E9, 0x4E0A, 0x597D]))
     = [0x40, 0x70, 0x6C, 0x20, 0x65E9, 0x4E0A, 0x597D]"
  by (rule txdata_utf16_roundtrip)
     (simp_all add: codec_reasonable_text_def char_len_def text_control_def scalar_value_def
        utf16_encode_bytes_def nat_le_2 printable_ascii_byte_def)

text \<open>A text in UTF-8 is not safe from the UTF-16 reading that is tried before it: the six bytes of
  two Chinese characters come back as three other characters.\<close>

theorem txdata_utf8_misread:
  "utf8_decode [0xE6, 0x9C, 0xAA, 0xE6, 0xB2, 0xBE] = Some [0x672A, 0x6CBE]
   \<and> decode_txdata_string gb (txdata_mask [0xE6, 0x9C, 0xAA, 0xE6, 0xB2, 0xBE]) = [0x9CE6, 0xE6AA, 0xBEB2]"
  by (simp add: utf8_step.simps utf8_second3_def utf8_cont_def decode_txdata_string_def decode_mask
        printable_ascii_text_def printable_ascii_byte_def decode_utf16le_text_def u16_from_le_def
        codec_reasonable_text_def char_len_def text_control_def)

text \<open>What a field that is read says: its value is as long as its length says; a numeric field
  has no texts; a string field has at most one, and \<open>value_text_len\<close> is the length of the value
  exactly then; a field of any other kind has \<open>value_text_len\<close> 0 and only structured texts.\<close>

theorem txdata_field_texts:
  assumes "decode_txdata_fields gb data = Some r" "txr_complete r" "f \<in> set (txr_fields r)"
  shows "unat (txf_value_len f) = length (txf_value f)
     \<and> (txdata_numeric (txf_header f) (txf_name f) \<longrightarrow> txf_value_texts f = [])
     \<and> (txf_header f = 8 \<longrightarrow> length (txf_value_texts f) \<le> 1
          \<and> txf_value_text_len f = (if txf_value_texts f = [] then 0 else length (txf_value f)))
     \<and> (txf_header f \<noteq> 8 \<longrightarrow> txf_value_text_len f = 0 \<and> (\<forall>t \<in> set (txf_value_texts f). looks_like_structured_text t))"
proof -
  obtain fs where fs: "\<forall>f \<in> set fs. raw_ok f" "txr_fields r = map (raw_field_of gb) fs"
    using txdata_complete_exact_aux [of gb data] assms(1,2) by auto
  then obtain h raw val where f: "f = raw_field_of gb (h, raw, val)" "raw_ok (h, raw, val)"
    using assms(3) by auto
  have "unat (word_of_nat (length val) :: u32) = length val"
    using f(2) by (simp add: raw_ok_def unat_of_nat_small)
  then show ?thesis
    unfolding f(1) by (auto simp: raw_field_of_def Let_def txdata_value_texts_def txdata_numeric_def)
qed

theorem txdata_field_texts_witness:
  "\<exists>r f. decode_txdata_fields (\<lambda>_. None) (encode_txdata [(6, [0x9A, 0x89], [1, 2])]) = Some r \<and> txr_complete r
     \<and> f \<in> set (txr_fields r) \<and> unat (txf_value_len f) = length (txf_value f)"
proof -
  let ?d = "encode_txdata [(6, [0x9A, 0x89], [1, 2])]"
  let ?fs = "[raw_field_of (\<lambda>_. None) (6, [0x9A, 0x89], [1, 2])]"
  have d: "decode_txdata_fields (\<lambda>_. None) ?d
      = Some \<lparr>txr_count = 1, txr_complete = True, txr_fields = ?fs\<rparr>"
    using txdata_read_back [of "[(6, [0x9A, 0x89], [1, 2])]" "\<lambda>_. None"] by (simp add: raw_ok_def)
  from txdata_field_texts [OF d, of "hd ?fs"] show ?thesis using d by auto
qed

end
