(* ===== verification/Td_Records.thy ===== *)
theory Td_Records imports Txdata begin

text \<open>
  TD and TA records inside binary values (\<open>msg3_parser.rs\<close>): \<open>td_record_len\<close> and
  \<open>ta_record_len\<close> walk a record and return its length, \<open>find_markers\<close> lists where records
  start, and \<open>parse_td_ta_records_at\<close> collects the records of a buffer and of the values inside
  them. The two walks are instances of one contract, the locale \<open>serialized_items\<close>: an item
  walk that accepts exactly the serializations of an item. An outer \<open>None\<close> is a panic, an inner
  one the \<open>None\<close> of the code. The nesting depth is counted down: \<open>records_at k\<close> is the call
  at depth \<open>9 - k\<close>.
\<close>

section \<open>Records\<close>

record td_record =
  td_offset :: nat
  td_tag :: str
  td_subtype :: u16
  td_field :: u8
  td_len :: u16
  td_len_fits :: bool
  td_data :: bytes
  td_trailer :: bytes
  td_low_bytes :: bytes
  td_decoded_texts :: "str list"
  td_txdata_field_count :: u16
  td_txdata_complete :: bool
  td_txdata_fields :: "txdata_field list"
  td_parse_errors :: "str list"

definition default_td_record :: td_record where
  "default_td_record = \<lparr>td_offset = 0, td_tag = [], td_subtype = 0, td_field = 0, td_len = 0,
     td_len_fits = False, td_data = [], td_trailer = [], td_low_bytes = [], td_decoded_texts = [],
     td_txdata_field_count = 0, td_txdata_complete = False, td_txdata_fields = [],
     td_parse_errors = []\<rparr>"

definition td_marker :: bytes where
  "td_marker = [0x54, 0x44, 1, 1]"

definition ta_marker :: bytes where
  "ta_marker = [0x54, 0x41, 1, 1]"

section \<open>Walking a record\<close>

text \<open>\<open>for _ in 0..count\<close> with an early return: every round moves the position or returns.\<close>

fun count_loop :: "(bytes \<Rightarrow> nat \<Rightarrow> nat option option) \<Rightarrow> nat \<Rightarrow> bytes \<Rightarrow> nat \<Rightarrow> nat option option" where
  "count_loop item 0 data pos = Some (Some pos)"
| "count_loop item (Suc k) data pos =
     do { r \<leftarrow> item data pos;
          case r of None \<Rightarrow> Some None | Some pos' \<Rightarrow> count_loop item k data pos' }"

definition td_item :: "bytes \<Rightarrow> nat \<Rightarrow> nat option option" where
  "td_item data pos =
     (if pos + 3 > length data then Some None
      else do {
        w \<leftarrow> Option.bind (subslice data (pos + 1) (pos + 3)) le16;
        let name_len = unat w;
        let pos1 = pos + 3;
        if pos1 + name_len + 4 > length data then Some None
        else do {
          let pos2 = pos1 + name_len;
          b \<leftarrow> subslice data pos2 (pos2 + 4);
          let value_len = unat (u32_from_le b);
          let pos3 = pos2 + 4;
          if pos3 + value_len > length data then Some None
          else Some (Some (pos3 + value_len)) } })"

definition td_record_len :: "bytes \<Rightarrow> nat \<Rightarrow> nat option option" where
  "td_record_len data start =
     (if start + 6 > length data then Some None
      else do {
        rest \<leftarrow> slice_from data start;
        if \<not> starts_with rest td_marker then Some None
        else do {
          w \<leftarrow> Option.bind (subslice data (start + 4) (start + 6)) le16;
          let count = unat w;
          if count = 0 then Some (Some 6)
          else if count > 200 then Some None
          else do {
            r \<leftarrow> count_loop td_item count data (start + 6);
            Some (map_option (\<lambda>pos. pos - start) r) } } })"

definition ta_item :: "bytes \<Rightarrow> nat \<Rightarrow> nat option option" where
  "ta_item data pos =
     (if pos + 5 > length data then Some None
      else do {
        let pos1 = pos + 1;
        b \<leftarrow> subslice data pos1 (pos1 + 4);
        let value_len = unat (u32_from_le b);
        let pos2 = pos1 + 4;
        if pos2 + value_len > length data then Some None
        else Some (Some (pos2 + value_len)) })"

definition ta_record_len :: "bytes \<Rightarrow> nat \<Rightarrow> nat option option" where
  "ta_record_len data start =
     (if start + 8 > length data then Some None
      else do {
        rest \<leftarrow> slice_from data start;
        if \<not> starts_with rest ta_marker then Some None
        else do {
          b \<leftarrow> subslice data (start + 4) (start + 8);
          let count = unat (u32_from_le b);
          if count > 100000 then Some None
          else do {
            r \<leftarrow> count_loop ta_item count data (start + 8);
            Some (map_option (\<lambda>pos. pos - start) r) } } })"

definition marker_record_len :: "bytes \<Rightarrow> nat \<Rightarrow> nat option option" where
  "marker_record_len data start =
     (if start + 4 > length data then Some None
      else do {
        rest \<leftarrow> slice_from data start;
        if starts_with rest td_marker then td_record_len data start
        else if starts_with rest ta_marker then ta_record_len data start
        else Some None })"

definition find_markers :: "bytes \<Rightarrow> (nat \<times> str) list option" where
  "find_markers data = try_fold (\<lambda>i out. do {
     m \<leftarrow> marker_record_len data i;
     case m of None \<Rightarrow> Some out
     | Some _ \<Rightarrow> do { tag \<leftarrow> subslice data i (i + 2); Some (out @ [(i, utf8_lossy tag)]) } })
     [0..<length data - 3] []"

definition starts_with_td_ta :: "bytes \<Rightarrow> bool" where
  "starts_with_td_ta data =
     (length data \<ge> 4 \<and> data ! 0 = 0x54 \<and> (data ! 1 = 0x44 \<or> data ! 1 = 0x41)
      \<and> data ! 2 = 1 \<and> data ! 3 = 1)"

definition near_td_ta_marker_delta :: "bytes \<Rightarrow> nat \<Rightarrow> nat option" where
  "near_td_ta_marker_delta data max_delta =
     (let limit = min (length data - 3) (max_delta + 1)
      in find (\<lambda>delta. starts_with_td_ta (drop delta data)) [1..<limit])"

section \<open>Collecting records\<close>

definition incomplete_error :: "u16 \<Rightarrow> nat \<Rightarrow> nat \<Rightarrow> str" where
  "incomplete_error declared parsed len =
     ascii ''incomplete TXData record: declared_field_count='' @ nat_digits (unat declared)
     @ ascii '', parsed_field_count='' @ nat_digits parsed
     @ ascii '', input_len='' @ nat_digits len
     @ ascii ''; structured rich parsing will not consume this partial record''"

definition parse_txdata_fields ::
  "(bytes \<Rightarrow> str option) \<Rightarrow> bytes \<Rightarrow> td_record \<Rightarrow> (bool \<times> td_record) option" where
  "parse_txdata_fields gb data rec = do {
     decoded \<leftarrow> decode_txdata_fields gb data;
     let rec1 = rec\<lparr>td_txdata_field_count := txr_count decoded,
                    td_txdata_complete := txr_complete decoded,
                    td_txdata_fields := txr_fields decoded\<rparr>;
     let rec2 = (if td_txdata_fields rec1 \<noteq> [] \<and> \<not> td_txdata_complete rec1
                 then rec1\<lparr>td_parse_errors := td_parse_errors rec1
                   @ [incomplete_error (td_txdata_field_count rec1) (length (td_txdata_fields rec1))
                        (length data)]\<rparr>
                 else rec1);
     Some (td_txdata_fields rec2 \<noteq> [], rec2) }"

text \<open>The items of a TA record that occupies \<open>data[pos..pos + len]\<close>.\<close>

fun ta_items_loop ::
  "(bytes \<Rightarrow> nat \<Rightarrow> td_record list \<Rightarrow> td_record list option) \<Rightarrow> (bytes \<Rightarrow> str option) \<Rightarrow> bytes
    \<Rightarrow> nat \<Rightarrow> nat \<Rightarrow> nat \<Rightarrow> nat \<Rightarrow> td_record list \<Rightarrow> td_record list option" where
  "ta_items_loop nest gb data base stop 0 item_pos out = Some out"
| "ta_items_loop nest gb data base stop (Suc k) item_pos out =
     (if item_pos + 5 > stop then Some out
      else do {
        header \<leftarrow> idx data item_pos;
        b \<leftarrow> subslice data (item_pos + 1) (item_pos + 5);
        let value_len = unat (u32_from_le b);
        let value_start = item_pos + 5;
        let value_end = value_start + value_len;
        if value_end > stop then Some out
        else do {
          val \<leftarrow> subslice data value_start value_end;
          let item = default_td_record\<lparr>td_offset := base + item_pos, td_tag := ascii ''TA_ITEM'',
                       td_field := header, td_len := word_of_nat (min value_len 65535),
                       td_len_fits := True, td_txdata_complete := True, td_data := val,
                       td_decoded_texts := td_xor_wide_texts gb val,
                       td_low_bytes := td_low_byte_candidate val\<rparr>;
          out' \<leftarrow> nest val (base + value_start) (out @ [item]);
          ta_items_loop nest gb data base stop k value_end out' } })"

text \<open>One TD record at \<open>pos\<close>: the record pushed after the records of its values.\<close>

definition collect_td ::
  "(bytes \<Rightarrow> nat \<Rightarrow> td_record list \<Rightarrow> td_record list option) \<Rightarrow> (bytes \<Rightarrow> str option) \<Rightarrow> bytes
    \<Rightarrow> nat \<Rightarrow> nat \<Rightarrow> nat \<Rightarrow> td_record list \<Rightarrow> td_record list option" where
  "collect_td nest gb data base pos len out = do {
     body \<leftarrow> subslice data (pos + 4) (pos + len);
     (_, rec) \<leftarrow> parse_txdata_fields gb body
       (default_td_record\<lparr>td_offset := base + pos, td_tag := ascii ''TD'', td_len_fits := True,
          td_data := body\<rparr>);
     out' \<leftarrow> try_fold (\<lambda>f out. nest (txf_value f) (base + pos + 4) out) (td_txdata_fields rec) out;
     let rec1 = rec\<lparr>td_low_bytes := td_low_byte_candidate (td_data rec)\<rparr>;
     let rec2 = (if td_txdata_fields rec1 = []
                 then rec1\<lparr>td_decoded_texts := td_xor_wide_texts gb (td_data rec1)\<rparr> else rec1);
     Some (out' @ [rec2]) }"

definition collect_ta ::
  "(bytes \<Rightarrow> nat \<Rightarrow> td_record list \<Rightarrow> td_record list option) \<Rightarrow> (bytes \<Rightarrow> str option) \<Rightarrow> bytes
    \<Rightarrow> nat \<Rightarrow> nat \<Rightarrow> nat \<Rightarrow> td_record list \<Rightarrow> td_record list option" where
  "collect_ta nest gb data base pos len out = do {
     body \<leftarrow> subslice data (pos + 4) (pos + len);
     b \<leftarrow> subslice data (pos + 4) (pos + 8);
     let count = u32_from_le b;
     let rec = default_td_record\<lparr>td_offset := base + pos, td_tag := ascii ''TA'',
                 td_len_fits := True, td_txdata_complete := True, td_data := body,
                 td_txdata_field_count := word_of_nat (min (unat count) 65535)\<rparr>;
     ta_items_loop nest gb data base (pos + len) (unat count) (pos + 8) (out @ [rec]) }"

function records_loop ::
  "(bytes \<Rightarrow> nat \<Rightarrow> td_record list \<Rightarrow> td_record list option) \<Rightarrow> (bytes \<Rightarrow> str option) \<Rightarrow> bytes
    \<Rightarrow> nat \<Rightarrow> nat \<Rightarrow> td_record list \<Rightarrow> td_record list option" where
  "records_loop nest gb data base pos out =
     (if pos + 4 \<le> length data \<and> length out < 400 then do {
        rest \<leftarrow> slice_from data pos;
        if starts_with rest td_marker then do {
          r \<leftarrow> td_record_len data pos;
          case r of
            None \<Rightarrow> records_loop nest gb data base (pos + 1) out
          | Some len \<Rightarrow> do {
              out' \<leftarrow> collect_td nest gb data base pos len out;
              records_loop nest gb data base (pos + max len 1) out' } }
        else if starts_with rest ta_marker then do {
          r \<leftarrow> ta_record_len data pos;
          case r of
            None \<Rightarrow> records_loop nest gb data base (pos + 1) out
          | Some len \<Rightarrow> do {
              out' \<leftarrow> collect_ta nest gb data base pos len out;
              records_loop nest gb data base (pos + max len 1) out' } }
        else records_loop nest gb data base (pos + 1) out }
      else Some out)"
  by pat_completeness auto
termination
  by (relation "measure (\<lambda>(_, _, data, _, pos, _). length data - pos)") auto

declare records_loop.simps [simp del]

fun records_at :: "(bytes \<Rightarrow> str option) \<Rightarrow> nat \<Rightarrow> bytes \<Rightarrow> nat \<Rightarrow> td_record list \<Rightarrow> td_record list option" where
  "records_at gb 0 data base out = Some out"
| "records_at gb (Suc k) data base out =
     (if length out \<ge> 400 then Some out
      else records_loop (\<lambda>d b o'. records_at gb k d b o') gb data base 0 out)"

definition parse_td_ta_records_at ::
  "(bytes \<Rightarrow> str option) \<Rightarrow> bytes \<Rightarrow> nat \<Rightarrow> nat \<Rightarrow> td_record list \<Rightarrow> td_record list option" where
  "parse_td_ta_records_at gb data base depth out = records_at gb (9 - depth) data base out"

definition parse_td_records :: "(bytes \<Rightarrow> str option) \<Rightarrow> bytes \<Rightarrow> td_record list option" where
  "parse_td_records gb data = parse_td_ta_records_at gb data 0 0 []"

section \<open>Walks that accept exactly the serializations of an item\<close>

locale serialized_items =
  fixes item :: "bytes \<Rightarrow> nat \<Rightarrow> nat option option"
    and enc :: "'f \<Rightarrow> bytes"
    and ok :: "'f \<Rightarrow> bool"
  assumes item_total: "pos \<le> length data \<Longrightarrow> \<exists>r. item data pos = Some r"
    and item_enc: "ok f \<Longrightarrow> data = pre @ enc f @ rest \<Longrightarrow>
      item data (length pre) = Some (Some (length pre + length (enc f)))"
    and item_dec: "pos \<le> length data \<Longrightarrow> item data pos = Some (Some p) \<Longrightarrow>
      \<exists>f. ok f \<and> p = pos + length (enc f) \<and> p \<le> length data \<and> drop pos data = enc f @ drop p data"
begin

lemma count_loop_total: "pos \<le> length data \<Longrightarrow> \<exists>r. count_loop item k data pos = Some r"
proof (induction k arbitrary: pos)
  case (Suc k)
  obtain r where r: "item data pos = Some r" using item_total [OF Suc.prems] by blast
  show ?case
  proof (cases r)
    case (Some p)
    then have "p \<le> length data" using item_dec [OF Suc.prems, of p] r by auto
    then show ?thesis using r Some Suc.IH by simp
  qed (use r in simp)
qed simp

lemma count_loop_enc:
  assumes "\<forall>f \<in> set fs. ok f" "data = pre @ concat (map enc fs) @ rest"
  shows "count_loop item (length fs) data (length pre) = Some (Some (length pre + length (concat (map enc fs))))"
  using assms
proof (induction fs arbitrary: pre)
  case (Cons f fs)
  then have "item data (length pre) = Some (Some (length pre + length (enc f)))"
    by (intro item_enc [of f data pre "concat (map enc fs) @ rest"]) auto
  then show ?case using Cons.IH [of "pre @ enc f"] Cons.prems by (simp add: add.assoc)
qed simp

lemma count_loop_dec:
  assumes "pos \<le> length data" "count_loop item k data pos = Some (Some p)"
  shows "\<exists>fs. length fs = k \<and> (\<forall>f \<in> set fs. ok f) \<and> p = pos + length (concat (map enc fs))
           \<and> p \<le> length data \<and> drop pos data = concat (map enc fs) @ drop p data"
  using assms
proof (induction k arbitrary: pos)
  case (Suc k)
  from Suc.prems(2) obtain q where q: "item data pos = Some (Some q)" "count_loop item k data q = Some (Some p)"
    by (auto simp: bind_eq_Some_conv split: option.splits)
  from item_dec [OF Suc.prems(1) q(1)] obtain f where f: "ok f" "q = pos + length (enc f)"
    "q \<le> length data" "drop pos data = enc f @ drop q data" by blast
  from Suc.IH [OF f(3) q(2)] obtain fs where "length fs = k" "\<forall>f \<in> set fs. ok f"
    "p = q + length (concat (map enc fs))" "p \<le> length data" "drop q data = concat (map enc fs) @ drop p data"
    by blast
  with f show ?case by (intro exI [of _ "f # fs"]) auto
qed simp

end

text \<open>The two layouts.\<close>

type_synonym ta_raw = "u8 \<times> bytes"

definition ta_ok :: "ta_raw \<Rightarrow> bool" where
  "ta_ok f = (length (snd f) < 2 ^ 32)"

definition encode_ta :: "ta_raw \<Rightarrow> bytes" where
  "encode_ta f = [fst f] @ nat_le 4 (length (snd f)) @ snd f"

lemma subslice_at:
  "data = pre @ m @ rest \<Longrightarrow> i = length pre \<Longrightarrow> j = i + length m \<Longrightarrow> subslice data i j = Some m"
  using subslice_append_mid [of pre m rest] by simp

lemma le16_nat_le: "v < 2 ^ 16 \<Longrightarrow> \<exists>w. le16 (nat_le 2 v) = Some w \<and> unat w = v"
  using le_nat_nat_le [of 2 v] by (simp add: nat_le_2 unat_le16_pair)

lemma u32_nat_le: "v < 2 ^ 32 \<Longrightarrow> unat (u32_from_le (nat_le 4 v)) = v"
  by (simp add: unat_u32_from_le le_nat_nat_le)

lemma nat_le_take:
  assumes "i + n = j" "j \<le> length data"
  shows "drop i data = nat_le n (le_nat (take n (drop i data))) @ drop j data"
proof -
  have "nat_le n (le_nat (take n (drop i data))) = take n (drop i data)"
    using nat_le_le_nat [of "take n (drop i data)"] assms by auto
  then show ?thesis
    using append_take_drop_id [of n "drop i data"] assms(1) by (auto simp: add.commute)
qed

interpretation ta_walk: serialized_items ta_item encode_ta ta_ok
proof
  fix pos and data :: bytes
  assume "pos \<le> length data"
  then show "\<exists>r. ta_item data pos = Some r"
    by (simp add: ta_item_def subslice_Some Let_def)
next
  fix f data pre rest
  assume ok: "ta_ok f" and d: "data = pre @ encode_ta f @ rest"
  have "subslice data (length pre + 1) (length pre + 1 + 4) = Some (nat_le 4 (length (snd f)))"
    using d by (intro subslice_at [where pre = "pre @ [fst f]" and rest = "snd f @ rest"])
      (simp_all add: encode_ta_def)
  moreover have "length data = length pre + 1 + 4 + length (snd f) + length rest"
    using d by (simp add: encode_ta_def)
  ultimately show "ta_item data (length pre) = Some (Some (length pre + length (encode_ta f)))"
    using ok by (simp only: ta_item_def Let_def) (simp add: ta_ok_def u32_nat_le encode_ta_def)
next
  fix pos p and data :: bytes
  assume "pos \<le> length data" and p: "ta_item data pos = Some (Some p)"
  define vl where "vl = le_nat (take 4 (drop (pos + 1) data))"
  have l: "pos + 5 \<le> length data" using p by (auto simp: ta_item_def split: if_splits)
  then have p': "p = pos + 5 + vl" "p \<le> length data" and vl: "vl < 2 ^ 32"
    using p le_nat_bound [of "take 4 (drop (pos + 1) data)"]
    by (auto simp: ta_item_def Let_def subslice_Some unat_u32_from_le vl_def split: if_splits)
  let ?f = "(data ! pos, take vl (drop (pos + 5) data))"
  have "drop pos data = data ! pos # drop (pos + 1) data"
    using l by (simp add: Cons_nth_drop_Suc)
  also have "drop (pos + 1) data = nat_le 4 vl @ drop (pos + 5) data"
    using nat_le_take [of "pos + 1" 4 "pos + 5" data] l by (simp add: vl_def)
  also have "drop (pos + 5) data = take vl (drop (pos + 5) data) @ drop p data"
    using p' by (metis append_take_drop_id drop_drop add.commute)
  finally have e: "drop pos data = data ! pos # nat_le 4 vl @ take vl (drop (pos + 5) data) @ drop p data" .
  have "length (take vl (drop (pos + 5) data)) = vl" using p' by simp
  with e have "drop pos data = encode_ta ?f @ drop p data"
    by (simp only: encode_ta_def fst_conv snd_conv) simp
  then show "\<exists>f. ta_ok f \<and> p = pos + length (encode_ta f) \<and> p \<le> length data
      \<and> drop pos data = encode_ta f @ drop p data"
    using p' vl by (intro exI [of _ ?f]) (auto simp: ta_ok_def encode_ta_def min_def)
qed

interpretation td_walk: serialized_items td_item encode_raw raw_ok
proof
  fix pos and data :: bytes
  assume "pos \<le> length data"
  then show "\<exists>r. td_item data pos = Some r"
    using le16_subslice [of "pos + 1" data "pos + 3"]
    by (cases "pos + 3 \<le> length data") (auto simp: td_item_def subslice_Some Let_def)
next
  fix f data pre rest
  assume ok: "raw_ok f" and d: "data = pre @ encode_raw f @ rest"
  obtain h name val where f: "f = (h, name, val)" by (cases f) auto
  have l: "length name < 2 ^ 16" "length val < 2 ^ 32" using ok f by (simp_all add: raw_ok_def)
  obtain w where w: "le16 (nat_le 2 (length name)) = Some w" "unat w = length name"
    using le16_nat_le [OF l(1)] by blast
  have "subslice data (length pre + 1) (length pre + 3) = Some (nat_le 2 (length name))"
    using d f by (intro subslice_at [where pre = "pre @ [h]" and rest = "name @ nat_le 4 (length val) @ val @ rest"])
      (simp_all add: encode_raw_def)
  then have "Option.bind (subslice data (length pre + 1) (length pre + 3)) le16 = Some w"
    using w by simp
  moreover have "subslice data (length pre + 3 + length name) (length pre + 3 + length name + 4)
      = Some (nat_le 4 (length val))"
    using d f by (intro subslice_at [where pre = "pre @ [h] @ nat_le 2 (length name) @ name" and rest = "val @ rest"])
      (simp_all add: encode_raw_def)
  moreover have "length data = length pre + 3 + length name + 4 + length val + length rest"
    using d f by (simp add: encode_raw_def)
  ultimately show "td_item data (length pre) = Some (Some (length pre + length (encode_raw f)))"
    using w u32_nat_le [OF l(2)] f by (simp only: td_item_def Let_def Option.bind.simps)
      (simp add: encode_raw_def)
next
  fix pos p and data :: bytes
  assume le: "pos \<le> length data" and p: "td_item data pos = Some (Some p)"
  define r where "r = drop pos data"
  define nl where "nl = le_nat (take 2 (drop 1 r))"
  define vl where "vl = le_nat (take 4 (drop (3 + nl) r))"
  have l: "pos + 3 \<le> length data" using p by (auto simp: td_item_def split: if_splits)
  have w: "Option.bind (subslice data (pos + 1) (pos + 3)) le16 = Some (le16_pair (data ! (pos + 1)) (data ! (pos + 2)))"
    "unat (le16_pair (data ! (pos + 1)) (data ! (pos + 2))) = nl"
    using l le16_subslice [of "pos + 1" data "pos + 3"] take_drop_2 [of "pos + 1" data]
    by (simp_all add: nl_def r_def unat_le16_pair add.commute)
  have vl': "vl = le_nat (take 4 (drop (pos + 3 + nl) data))"
    by (simp add: vl_def r_def add.commute add.left_commute)
  have p': "p = pos + 7 + nl + vl" "p \<le> length data"
    using p l w unfolding td_item_def
    by (auto simp: Let_def subslice_Some unat_u32_from_le vl' split: if_splits)
  let ?f = "(hd r, take nl (drop 3 r), take vl (drop (7 + nl) r))"
  have "r = encode_raw ?f @ drop (7 + nl + vl) r" "raw_ok ?f"
    using split_raw [OF nl_def vl_def] p' by (simp_all add: r_def)
  moreover have "length (encode_raw ?f) = 7 + nl + vl"
    using p' by (simp add: encode_raw_def r_def)
  moreover have "drop (7 + nl + vl) r = drop p data"
    using p' by (simp add: r_def add.commute add.left_commute)
  ultimately show "\<exists>f. raw_ok f \<and> p = pos + length (encode_raw f) \<and> p \<le> length data
      \<and> drop pos data = encode_raw f @ drop p data"
    using p' by (intro exI [of _ ?f]) (simp add: r_def [symmetric])
qed

section \<open>Record lengths\<close>

definition encode_ta_record :: "ta_raw list \<Rightarrow> bytes" where
  "encode_ta_record fs = ta_marker @ nat_le 4 (length fs) @ concat (map encode_ta fs)"

definition encode_td_record :: "raw_field list \<Rightarrow> bytes" where
  "encode_td_record fs = td_marker @ encode_txdata fs"

lemma length_markers [simp]: "length td_marker = 4" "length ta_marker = 4"
  by (simp_all add: td_marker_def ta_marker_def)

lemma starts_with_drop: "starts_with (drop i data) m \<longleftrightarrow> (\<exists>rest. drop i data = m @ rest)"
  by (auto simp: starts_with_prefix prefix_def)

lemma td_record_len_unfold:
  assumes "drop start data = td_marker @ nat_le 2 n @ rest" "n < 2 ^ 16"
  shows "td_record_len data start = (if n = 0 then Some (Some 6) else if n > 200 then Some None
     else Option.bind (count_loop td_item n data (start + 6)) (\<lambda>r. Some (map_option (\<lambda>pos. pos - start) r)))"
proof -
  have len: "length data = start + 6 + length rest" "start \<le> length data"
    using arg_cong [OF assms(1), of length] by auto
  have d: "data = take start data @ td_marker @ nat_le 2 n @ rest"
    using assms(1) by (metis append_take_drop_id)
  obtain w where w: "le16 (nat_le 2 n) = Some w" "unat w = n" using le16_nat_le [OF assms(2)] by blast
  have "subslice data (start + 4) (start + 6) = Some (nat_le 2 n)"
    using d len by (intro subslice_at [where pre = "take start data @ td_marker" and rest = rest]) simp_all
  then have "Option.bind (subslice data (start + 4) (start + 6)) le16 = Some w" using w by simp
  then show ?thesis using len w assms(1)
    by (simp only: td_record_len_def slice_from_Some Let_def Option.bind.simps starts_with_append) simp
qed

lemma td_record_len_iff:
  "td_record_len data start = Some (Some n) \<longleftrightarrow>
     (\<exists>fs rest. drop start data = encode_td_record fs @ rest \<and> length fs \<le> 200 \<and> (\<forall>f \<in> set fs. raw_ok f)
        \<and> n = length (encode_td_record fs))"
  (is "?l = ?r")
proof
  assume ?l
  then have l: "start + 6 \<le> length data" and m: "starts_with (drop start data) td_marker"
    by (auto simp: td_record_len_def slice_from_Some Let_def split: if_splits)
  obtain rest0 where r0: "drop start data = td_marker @ rest0" using m starts_with_drop by blast
  then have "rest0 = drop (start + 4) data"
    by (metis add.commute append_eq_conv_conj drop_drop length_markers(1))
  then have r1: "rest0 = nat_le 2 (le_nat (take 2 (drop (start + 4) data))) @ drop (start + 6) data"
    using nat_le_take [of "start + 4" 2 "start + 6" data] l by simp
  define c where "c = le_nat (take 2 (drop (start + 4) data))"
  have c: "c < 2 ^ 16" using le_nat_bound [of "take 2 (drop (start + 4) data)"] l by (simp add: c_def)
  note u = td_record_len_unfold [OF r0 [unfolded r1 c_def [symmetric]] c]
  have d: "drop start data = td_marker @ nat_le 2 c @ drop (start + 6) data"
    using r0 r1 by (simp add: c_def)
  show ?r
  proof (cases "c = 0")
    case True
    then show ?thesis using \<open>?l\<close> u d
      by (intro exI [of _ "[]"] exI [of _ "drop (start + 6) data"])
         (simp add: encode_td_record_def encode_txdata_def)
  next
    case False
    then obtain p where p: "c \<le> 200" "count_loop td_item c data (start + 6) = Some (Some p)" "n = p - start"
      using \<open>?l\<close> u by (auto simp: bind_eq_Some_conv split: if_splits)
    from td_walk.count_loop_dec [OF l p(2)] obtain fs where "length fs = c" "\<forall>f \<in> set fs. raw_ok f"
      "p = start + 6 + length (concat (map encode_raw fs))"
      "drop (start + 6) data = concat (map encode_raw fs) @ drop p data" by blast
    then show ?thesis using d p
      by (intro exI [of _ fs] exI [of _ "drop p data"]) (simp add: encode_td_record_def encode_txdata_def)
  qed
next
  assume ?r
  then obtain fs rest where fs: "drop start data = encode_td_record fs @ rest" "length fs \<le> 200"
    "\<forall>f \<in> set fs. raw_ok f" "n = length (encode_td_record fs)" by blast
  have d: "drop start data = td_marker @ nat_le 2 (length fs) @ concat (map encode_raw fs) @ rest"
    using fs(1) by (simp add: encode_td_record_def encode_txdata_def)
  have "length fs < 2 ^ 16" using fs(2) by simp
  note u = td_record_len_unfold [OF d this]
  have "start \<le> length data" using arg_cong [OF d, of length] by auto
  moreover have "data = take start data @ drop start data" by simp
  ultimately have "count_loop td_item (length fs) data (start + 6)
      = Some (Some (start + 6 + length (concat (map encode_raw fs))))"
    using td_walk.count_loop_enc [OF fs(3), of data "take start data @ td_marker @ nat_le 2 (length fs)" rest] d
    by simp
  then show ?l using u fs(2,4) by (simp add: encode_td_record_def encode_txdata_def)
qed

lemma ta_record_len_unfold:
  assumes "drop start data = ta_marker @ nat_le 4 n @ rest" "n < 2 ^ 32"
  shows "ta_record_len data start = (if n > 100000 then Some None
     else Option.bind (count_loop ta_item n data (start + 8)) (\<lambda>r. Some (map_option (\<lambda>pos. pos - start) r)))"
proof -
  have len: "length data = start + 8 + length rest" "start \<le> length data"
    using arg_cong [OF assms(1), of length] by auto
  have d: "data = take start data @ ta_marker @ nat_le 4 n @ rest"
    using assms(1) by (metis append_take_drop_id)
  have "subslice data (start + 4) (start + 8) = Some (nat_le 4 n)"
    using d len by (intro subslice_at [where pre = "take start data @ ta_marker" and rest = rest]) simp_all
  then show ?thesis using len u32_nat_le [OF assms(2)] assms(1)
    by (simp only: ta_record_len_def slice_from_Some Let_def Option.bind.simps starts_with_append) simp
qed

lemma ta_record_len_iff:
  "ta_record_len data start = Some (Some n) \<longleftrightarrow>
     (\<exists>fs rest. drop start data = encode_ta_record fs @ rest \<and> length fs \<le> 100000 \<and> (\<forall>f \<in> set fs. ta_ok f)
        \<and> n = length (encode_ta_record fs))"
  (is "?l = ?r")
proof
  assume ?l
  then have l: "start + 8 \<le> length data" and m: "starts_with (drop start data) ta_marker"
    by (auto simp: ta_record_len_def slice_from_Some Let_def split: if_splits)
  obtain rest0 where r0: "drop start data = ta_marker @ rest0" using m starts_with_drop by blast
  then have "rest0 = drop (start + 4) data"
    by (metis add.commute append_eq_conv_conj drop_drop length_markers(2))
  then have r1: "rest0 = nat_le 4 (le_nat (take 4 (drop (start + 4) data))) @ drop (start + 8) data"
    using nat_le_take [of "start + 4" 4 "start + 8" data] l by simp
  define c where "c = le_nat (take 4 (drop (start + 4) data))"
  have c: "c < 2 ^ 32" using le_nat_bound [of "take 4 (drop (start + 4) data)"] l by (simp add: c_def)
  note u = ta_record_len_unfold [OF r0 [unfolded r1 c_def [symmetric]] c]
  obtain p where p: "c \<le> 100000" "count_loop ta_item c data (start + 8) = Some (Some p)" "n = p - start"
    using \<open>?l\<close> u by (auto simp: bind_eq_Some_conv split: if_splits)
  from ta_walk.count_loop_dec [OF l p(2)] obtain fs where "length fs = c" "\<forall>f \<in> set fs. ta_ok f"
    "p = start + 8 + length (concat (map encode_ta fs))"
    "drop (start + 8) data = concat (map encode_ta fs) @ drop p data" by blast
  then show ?r using r0 r1 p
    by (intro exI [of _ fs] exI [of _ "drop p data"]) (simp add: encode_ta_record_def c_def)
next
  assume ?r
  then obtain fs rest where fs: "drop start data = encode_ta_record fs @ rest" "length fs \<le> 100000"
    "\<forall>f \<in> set fs. ta_ok f" "n = length (encode_ta_record fs)" by blast
  have d: "drop start data = ta_marker @ nat_le 4 (length fs) @ concat (map encode_ta fs) @ rest"
    using fs(1) by (simp add: encode_ta_record_def)
  have "length fs < 2 ^ 32" using fs(2) by simp
  note u = ta_record_len_unfold [OF d this]
  have "start \<le> length data" using arg_cong [OF d, of length] by auto
  moreover have "data = take start data @ drop start data" by simp
  ultimately have "count_loop ta_item (length fs) data (start + 8)
      = Some (Some (start + 8 + length (concat (map encode_ta fs))))"
    using ta_walk.count_loop_enc [OF fs(3), of data "take start data @ ta_marker @ nat_le 4 (length fs)" rest] d
    by simp
  then show ?l using u fs(2,4) by (simp add: encode_ta_record_def)
qed

section \<open>No panics\<close>

lemma le16_two: "length bs = 2 \<Longrightarrow> \<exists>w. le16 bs = Some w"
  by (cases bs rule: list.exhaust; cases "tl bs") auto

lemma td_record_len_total: "\<exists>r. td_record_len data start = Some r"
proof (cases "start + 6 \<le> length data \<and> starts_with (drop start data) td_marker")
  case True
  then obtain w where "Option.bind (subslice data (start + 4) (start + 6)) le16 = Some w"
    using le16_subslice [of "start + 4" data "start + 6"] by auto
  then show ?thesis using True td_walk.count_loop_total [of "start + 6" data "unat w"]
    by (simp only: td_record_len_def Let_def Option.bind.simps) (auto simp: slice_from_def)
qed (auto simp: td_record_len_def slice_from_def)

lemma ta_record_len_total: "\<exists>r. ta_record_len data start = Some r"
proof (cases "start + 8 \<le> length data \<and> starts_with (drop start data) ta_marker")
  case True
  then show ?thesis using ta_walk.count_loop_total [of "start + 8" data "unat (u32_from_le (take 4 (drop (start + 4) data)))"]
    by (auto simp: ta_record_len_def slice_from_Some Let_def subslice_Some)
qed (auto simp: ta_record_len_def slice_from_def)

lemma marker_record_len_total: "\<exists>r. marker_record_len data start = Some r"
  using td_record_len_total [of data start] ta_record_len_total [of data start]
  by (auto simp: marker_record_len_def slice_from_def)

lemma markers_differ: "starts_with d td_marker \<Longrightarrow> \<not> starts_with d ta_marker"
  by (auto simp: starts_with_def td_marker_def ta_marker_def)

lemma starts_with_encode [simp]:
  "starts_with (encode_td_record fs @ rest) td_marker" "starts_with (encode_ta_record gs @ rest) ta_marker"
  by (simp_all add: encode_td_record_def encode_ta_record_def)

lemma marker_record_len_Some:
  "marker_record_len data start = Some (Some n) \<longleftrightarrow>
     td_record_len data start = Some (Some n) \<or> ta_record_len data start = Some (Some n)"
proof -
  have td: "start + 4 \<le> length data \<and> starts_with (drop start data) td_marker"
    if "td_record_len data start = Some (Some n)"
    using that by (auto simp: td_record_len_def slice_from_def split: if_splits)
  have ta: "start + 4 \<le> length data \<and> starts_with (drop start data) ta_marker"
    if "ta_record_len data start = Some (Some n)"
    using that by (auto simp: ta_record_len_def slice_from_def split: if_splits)
  show ?thesis
    using td ta markers_differ [of "drop start data"]
    by (auto simp: marker_record_len_def slice_from_def split: if_splits)
qed

section \<open>What is collected\<close>

definition td_record_ok :: "(bytes \<Rightarrow> str option) \<Rightarrow> td_record \<Rightarrow> bool" where
  "td_record_ok gb r =
     (td_len_fits r \<and> td_txdata_complete r \<and> td_parse_errors r = []
      \<and> td_low_bytes r = (if td_tag r = ascii ''TA'' then [] else td_low_byte_candidate (td_data r))
      \<and> (if td_tag r = ascii ''TD'' then
           \<exists>fs. length fs \<le> 200 \<and> (\<forall>f \<in> set fs. raw_ok f) \<and> td_data r = encode_txdata fs
             \<and> td_txdata_fields r = map (raw_field_of gb) fs
         else td_tag r \<in> {ascii ''TA'', ascii ''TA_ITEM''} \<and> td_txdata_fields r = []))"

definition extends :: "(bytes \<Rightarrow> str option) \<Rightarrow> td_record list \<Rightarrow> td_record list \<Rightarrow> bool" where
  "extends gb out out' = (\<exists>rs. out' = out @ rs \<and> (\<forall>r \<in> set rs. td_record_ok gb r))"

lemma extends_refl [simp]: "extends gb out out"
  by (simp add: extends_def)

lemma extends_trans: "extends gb a b \<Longrightarrow> extends gb b c \<Longrightarrow> extends gb a c"
  by (auto simp: extends_def)

lemma extends_snoc: "extends gb a b \<Longrightarrow> td_record_ok gb r \<Longrightarrow> extends gb a (b @ [r])"
  by (auto simp: extends_def)

lemma tags_differ: "ascii ''TA_ITEM'' \<noteq> ascii ''TD''" "ascii ''TA'' \<noteq> ascii ''TD''" "ascii ''TA_ITEM'' \<noteq> ascii ''TA''"
  by simp_all

lemma parse_txdata_fields_encode:
  assumes "length fs \<le> 200" "\<forall>f \<in> set fs. raw_ok f"
  shows "parse_txdata_fields gb (encode_txdata fs) rec = Some (fs \<noteq> [],
     rec\<lparr>td_txdata_field_count := word_of_nat (length fs), td_txdata_complete := True,
         td_txdata_fields := map (raw_field_of gb) fs\<rparr>)"
  using txdata_read_back [OF assms, of gb] by (simp add: parse_txdata_fields_def Let_def)

text \<open>The contract of a nested call: it does not panic and only appends well-formed records.\<close>

locale record_collector =
  fixes nest :: "bytes \<Rightarrow> nat \<Rightarrow> td_record list \<Rightarrow> td_record list option"
    and gb :: "bytes \<Rightarrow> str option"
  assumes nest: "\<And>d b o'. \<exists>o''. nest d b o' = Some o'' \<and> extends gb o' o''"
begin

lemma collect_td_extends:
  assumes "td_record_len data pos = Some (Some len)"
  shows "\<exists>out'. collect_td nest gb data base pos len out = Some out' \<and> extends gb out out'"
proof -
  from assms obtain fs rest where fs: "drop pos data = encode_td_record fs @ rest" "length fs \<le> 200"
    "\<forall>f \<in> set fs. raw_ok f" "len = length (encode_td_record fs)" unfolding td_record_len_iff by blast
  have le: "pos \<le> length data" using arg_cong [OF fs(1), of length] by (auto simp: encode_td_record_def)
  have d: "data = take pos data @ td_marker @ encode_txdata fs @ rest"
    using fs(1) by (metis append_take_drop_id append.assoc encode_td_record_def)
  have body: "subslice data (pos + 4) (pos + len) = Some (encode_txdata fs)"
    using d le fs(4) by (intro subslice_at [where pre = "take pos data @ td_marker" and rest = rest])
      (simp_all add: encode_td_record_def)
  obtain out' where out': "try_fold (\<lambda>f out. nest (txf_value f) (base + pos + 4) out) (map (raw_field_of gb) fs) out
      = Some out'" "extends gb out out'"
    using try_fold_invariant [of "extends gb out" out "map (raw_field_of gb) fs"
        "\<lambda>f out. nest (txf_value f) (base + pos + 4) out"] nest extends_trans by fastforce
  show ?thesis
    using body out' parse_txdata_fields_encode [OF fs(2,3), of gb]
    by (auto simp: collect_td_def Let_def default_td_record_def td_record_ok_def fs(2,3)
        intro!: extends_snoc exI [of _ fs])
qed

lemma ta_items_loop_extends:
  assumes "stop \<le> length data"
  shows "\<exists>out'. ta_items_loop nest gb data base stop k item_pos out = Some out' \<and> extends gb out out'"
proof (induction k arbitrary: item_pos out)
  case (Suc k)
  show ?case
  proof (cases "item_pos + 5 > stop")
    case False
    define vl where "vl = unat (u32_from_le (take 4 (drop (item_pos + 1) data)))"
    have b: "subslice data (item_pos + 1) (item_pos + 5) = Some (take 4 (drop (item_pos + 1) data))"
      "idx data item_pos = Some (data ! item_pos)"
      using False assms by (simp_all add: subslice_def idx_def)
    show ?thesis
    proof (cases "item_pos + 5 + vl > stop")
      case True
      then show ?thesis using b False by (simp add: Let_def vl_def)
    next
      case fits: False
      define val where "val = take vl (drop (item_pos + 5) data)"
      define item where "item = default_td_record\<lparr>td_offset := base + item_pos, td_tag := ascii ''TA_ITEM'',
        td_field := data ! item_pos, td_len := word_of_nat (min vl 65535), td_len_fits := True,
        td_txdata_complete := True, td_data := val, td_decoded_texts := td_xor_wide_texts gb val,
        td_low_bytes := td_low_byte_candidate val\<rparr>"
      have v: "subslice data (item_pos + 5) (item_pos + 5 + vl) = Some val"
        using fits assms by (simp add: subslice_def val_def)
      have ok: "td_record_ok gb item"
        by (simp add: item_def td_record_ok_def default_td_record_def)
      obtain o1 where o1: "nest val (base + (item_pos + 5)) (out @ [item]) = Some o1" "extends gb (out @ [item]) o1"
        using nest by blast
      obtain o2 where o2: "ta_items_loop nest gb data base stop k (item_pos + 5 + vl) o1 = Some o2" "extends gb o1 o2"
        using Suc.IH by blast
      have "extends gb out o2"
        using extends_snoc [OF extends_refl ok] o1(2) o2(2) extends_trans by blast
      moreover have "ta_items_loop nest gb data base stop (Suc k) item_pos out = Some o2"
        using False fits b v o1(1) o2(1)
        by (simp only: ta_items_loop.simps Let_def Option.bind.simps vl_def [symmetric] item_def [symmetric]
            if_False)
      ultimately show ?thesis by blast
    qed
  qed simp
qed simp

lemma collect_ta_extends:
  assumes "ta_record_len data pos = Some (Some len)"
  shows "\<exists>out'. collect_ta nest gb data base pos len out = Some out' \<and> extends gb out out'"
proof -
  from assms obtain fs rest where fs: "drop pos data = encode_ta_record fs @ rest"
    "len = length (encode_ta_record fs)" unfolding ta_record_len_iff by blast
  have len: "8 \<le> len" "pos + len \<le> length data"
    using arg_cong [OF fs(1), of length] fs(2) by (auto simp: encode_ta_record_def)
  let ?rec = "\<lambda>c. default_td_record\<lparr>td_offset := base + pos, td_tag := ascii ''TA'', td_len_fits := True,
    td_txdata_complete := True, td_data := take (len - 4) (drop (pos + 4) data), td_txdata_field_count := c\<rparr>"
  have "td_record_ok gb (?rec c)" for c by (simp add: td_record_ok_def default_td_record_def)
  then show ?thesis
    using len ta_items_loop_extends [of "pos + len" data base _ "pos + 8" "out @ [?rec _]"]
      extends_trans [OF extends_snoc [OF extends_refl]]
    by (simp add: collect_ta_def Let_def subslice_def) blast
qed

lemma records_loop_extends:
  "\<exists>out'. records_loop nest gb data base pos out = Some out' \<and> extends gb out out'"
proof (induction "length data - pos" arbitrary: pos out rule: less_induct)
  case less
  show ?case
  proof (cases "pos + 4 \<le> length data \<and> length out < 400")
    case False
    then show ?thesis by (subst records_loop.simps) auto
  next
    case True
    have IH: "\<exists>out'. records_loop nest gb data base (pos + max n 1) o' = Some out' \<and> extends gb o' out'" for n o'
      using True by (intro less.hyps) auto
    have IH1: "\<exists>out'. records_loop nest gb data base (pos + 1) out = Some out' \<and> extends gb out out'"
      using IH [of 1 out] by simp
    obtain rtd rta where r: "td_record_len data pos = Some rtd" "ta_record_len data pos = Some rta"
      using td_record_len_total ta_record_len_total by meson
    have td: "\<exists>out'. Option.bind (collect_td nest gb data base pos n out)
        (records_loop nest gb data base (pos + max n 1)) = Some out' \<and> extends gb out out'" if "rtd = Some n" for n
      using collect_td_extends [of data pos n base out] IH [of n] r that extends_trans by fastforce
    have ta: "\<exists>out'. Option.bind (collect_ta nest gb data base pos n out)
        (records_loop nest gb data base (pos + max n 1)) = Some out' \<and> extends gb out out'" if "rta = Some n" for n
      using collect_ta_extends [of data pos n base out] IH [of n] r that extends_trans by fastforce
    show ?thesis
      by (subst records_loop.simps)
         (use True IH1 r td ta in \<open>cases rtd; cases rta; simp add: slice_from_Some del: Suc_eq_plus1\<close>)
  qed
qed

end

lemma records_at_collector: "record_collector (records_at gb k) gb"
proof (induction k)
  case 0
  show ?case by unfold_locales simp
next
  case (Suc k)
  show ?case
  proof
    fix d b o'
    show "\<exists>o''. records_at gb (Suc k) d b o' = Some o'' \<and> extends gb o' o''"
      using record_collector.records_loop_extends [OF Suc.IH, of d b 0 o'] by simp
  qed
qed

interpretation collected: record_collector "records_at gb k" gb for gb k
  by (rule records_at_collector)

section \<open>Properties\<close>

text \<open>C15. \<open>td_record_len\<close> returns a length exactly where a TD record starts: the marker and the
  serialization of at most 200 fields, and then the length is the length of that record. It never
  panics.\<close>

theorem td_record_len_exact:
  "(\<exists>r. td_record_len data start = Some r) \<and>
   (td_record_len data start = Some (Some n) \<longleftrightarrow>
     (\<exists>fs rest. drop start data = encode_td_record fs @ rest \<and> length fs \<le> 200 \<and> (\<forall>f \<in> set fs. raw_ok f)
        \<and> n = length (encode_td_record fs)))"
  using td_record_len_total td_record_len_iff by blast

theorem td_record_len_exact_witness:
  "(\<exists>r. td_record_len [9, 0x54, 0x44, 1, 1, 0, 0, 7] 1 = Some r) \<and>
   (td_record_len [9, 0x54, 0x44, 1, 1, 0, 0, 7] 1 = Some (Some 6) \<longleftrightarrow>
     (\<exists>fs rest. drop 1 [9, 0x54, 0x44, 1, 1, 0, 0, 7] = encode_td_record fs @ rest \<and> length fs \<le> 200
        \<and> (\<forall>f \<in> set fs. raw_ok f) \<and> 6 = length (encode_td_record fs)))"
  by (rule td_record_len_exact)

text \<open> \<open>ta_record_len\<close> returns a length exactly where a TA record of at most 100000 items
  starts, and then the length of that record. It never panics.\<close>

theorem ta_record_len_exact:
  "(\<exists>r. ta_record_len data start = Some r) \<and>
   (ta_record_len data start = Some (Some n) \<longleftrightarrow>
     (\<exists>fs rest. drop start data = encode_ta_record fs @ rest \<and> length fs \<le> 100000 \<and> (\<forall>f \<in> set fs. ta_ok f)
        \<and> n = length (encode_ta_record fs)))"
  using ta_record_len_total ta_record_len_iff by blast

theorem ta_record_len_exact_witness:
  "(\<exists>r. ta_record_len [0x54, 0x41, 1, 1, 0, 0, 0, 0] 0 = Some r) \<and>
   (ta_record_len [0x54, 0x41, 1, 1, 0, 0, 0, 0] 0 = Some (Some 8) \<longleftrightarrow>
     (\<exists>fs rest. drop 0 [0x54, 0x41, 1, 1, 0, 0, 0, 0] = encode_ta_record fs @ rest \<and> length fs \<le> 100000
        \<and> (\<forall>f \<in> set fs. ta_ok f) \<and> 8 = length (encode_ta_record fs)))"
  by (rule ta_record_len_exact)

text \<open> \<open>parse_td_ta_records_at\<close> never panics, at any depth, and only appends well-formed
  records. In particular a TD record is only collected where its length could be read, so its fields
  are always complete: the error text about an incomplete TXData record is never produced.\<close>

theorem parse_td_ta_records_at_sound:
  "\<exists>rs. parse_td_ta_records_at gb data base depth out = Some (out @ rs)
     \<and> (\<forall>r \<in> set rs. td_record_ok gb r)"
  using collected.nest [of gb "9 - depth" data base out]
  by (auto simp: parse_td_ta_records_at_def extends_def)

theorem parse_td_ta_records_at_sound_witness:
  "\<exists>rs. parse_td_ta_records_at (\<lambda>_. None) [0x54, 0x44, 1, 1, 0, 0] 0 0 [] = Some ([] @ rs)
     \<and> (\<forall>r \<in> set rs. td_record_ok (\<lambda>_. None) r)"
  by (rule parse_td_ta_records_at_sound)

lemma nat_le_zero: "nat_le n 0 = replicate n 0"
  by (induction n) auto

lemma replicate_4: "replicate 4 x = [x, x, x, x]"
  by (simp add: numeral_eq_Suc)

lemma ta_items_loop_empty:
  assumes "data = pre @ concat (map encode_ta (replicate n (h, []))) @ rest"
    "stop = length pre + 5 * n" "\<And>b o'. nest [] b o' = Some o'"
  shows "\<exists>rs. ta_items_loop nest gb data base stop n (length pre) out = Some (out @ rs) \<and> length rs = n"
  using assms(1,2)
proof (induction n arbitrary: pre out)
  case (Suc n)
  let ?pre = "pre @ [h, 0, 0, 0, 0]"
  have e: "encode_ta (h, []) = [h, 0, 0, 0, 0]" by (simp add: encode_ta_def nat_le_zero replicate_4)
  have d: "data = ?pre @ concat (map encode_ta (replicate n (h, []))) @ rest"
    using Suc.prems(1) e by simp
  have b: "subslice data (length pre + 1) (length pre + 5) = Some [0, 0, 0, 0]"
    using d by (intro subslice_at [where pre = "pre @ [h]"]) simp_all
  have h: "idx data (length pre) = Some h" using d by (simp add: idx_def nth_append)
  have u: "unat (u32_from_le [0, 0, 0, 0]) = 0" by (simp add: u32_from_le_def)
  have v: "subslice data (length pre + 5) (length pre + 5 + 0) = Some []"
    using d by (simp add: subslice_def)
  have IH: "\<exists>rs. ta_items_loop nest gb data base stop n (length ?pre) o' = Some (o' @ rs) \<and> length rs = n" for o'
    using Suc.IH [OF d] Suc.prems(2) by simp
  have c: "\<not> length pre + 5 > stop" "\<not> length pre + 5 + 0 > stop" using Suc.prems(2) by simp_all
  have len5: "length pre + 5 = length ?pre" by simp
  obtain item where step: "ta_items_loop nest gb data base stop (Suc n) (length pre) out
      = ta_items_loop nest gb data base stop n (length pre + 5 + 0) (out @ [item])"
    by (simp only: ta_items_loop.simps Let_def h b u v c Option.bind.simps assms(3) if_False)
  show ?case using IH [of "out @ [item]"] step len5 by auto
qed auto

lemma records_at_short: "length data < 4 \<Longrightarrow> records_at gb k data base out = Some out"
  by (cases k) (auto simp: records_loop.simps)

text \<open> The limit of 400 records is tested only between records: a TA record of \<open>n\<close> empty items,
  for any \<open>n\<close> the length test admits (100000 at most), is collected whole, as \<open>n + 1\<close> records.\<close>

theorem parse_td_records_limit:
  assumes "n \<le> 100000"
  shows "\<exists>rs. parse_td_records gb (encode_ta_record (replicate n (h, []))) = Some rs \<and> length rs = n + 1"
proof -
  let ?data = "encode_ta_record (replicate n (h, []))"
  have len: "length ?data = 8 + 5 * n"
    by (simp add: encode_ta_record_def encode_ta_def length_concat comp_def sum_list_replicate)
  have rl: "ta_record_len ?data 0 = Some (Some (length ?data))"
    unfolding ta_record_len_iff using assms
    by (intro exI [of _ "replicate n (h, [])"] exI [of _ "[]"]) (auto simp: ta_ok_def)
  have m: "starts_with ?data ta_marker" by (simp add: encode_ta_record_def)
  have m': "\<not> starts_with ?data td_marker" using markers_differ m by blast
  have c: "subslice ?data 4 8 = Some (nat_le 4 n)"
    by (rule subslice_at [where pre = ta_marker and rest = "concat (map encode_ta (replicate n (h, [])))"])
       (simp_all add: encode_ta_record_def)
  have u: "unat (u32_from_le (nat_le 4 n)) = n" using assms by (intro u32_nat_le) simp
  obtain rec where ta: "collect_ta (records_at gb 8) gb ?data 0 0 (length ?data) []
      = ta_items_loop (records_at gb 8) gb ?data 0 (length ?data) n 8 [rec]"
    using c u len by (simp add: collect_ta_def subslice_Some Let_def)
  obtain rs where rs: "ta_items_loop (records_at gb 8) gb ?data 0 (length ?data) n 8 [rec] = Some ([rec] @ rs)"
    "length rs = n"
    using ta_items_loop_empty [of ?data "ta_marker @ nat_le 4 n" n h "[]" "length ?data" "records_at gb 8" gb 0 "[rec]"]
      len records_at_short [of "[]"] by (auto simp: encode_ta_record_def)
  have stop: "records_loop (records_at gb 8) gb ?data 0 (0 + max (length ?data) 1) o' = Some o'" for o'
  proof -
    have "\<not> 0 + max (length ?data) 1 + 4 \<le> length ?data" by simp
    then show ?thesis by (subst records_loop.simps) (simp only: simp_thms if_False)
  qed
  have "slice_from ?data 0 = Some ?data" "0 + 4 \<le> length ?data \<and> length ([] :: td_record list) < 400"
    using len by (simp_all add: slice_from_def)
  then have "records_loop (records_at gb 8) gb ?data 0 0 [] = Some ([rec] @ rs)"
    by (subst records_loop.simps)
       (simp only: m m' rl ta rs(1) stop Option.bind.simps option.case if_True if_False simp_thms)
  moreover have "(9::nat) - 0 = Suc 8" by simp
  moreover have "\<not> 400 \<le> length ([] :: td_record list)" by simp
  ultimately have "parse_td_records gb ?data = Some ([rec] @ rs)"
    by (simp only: parse_td_records_def parse_td_ta_records_at_def records_at.simps if_False)
  then show ?thesis using rs(2) by simp
qed

theorem parse_td_records_limit_witness:
  "(1000::nat) \<le> 100000 \<and> (\<exists>rs. parse_td_records (\<lambda>_. None) (encode_ta_record (replicate 1000 (7, []))) = Some rs
     \<and> length rs = 1000 + 1)"
  using parse_td_records_limit [of 1000 "\<lambda>_. None" 7] by simp

lemma td_record_len_min: "td_record_len data i = Some (Some n) \<Longrightarrow> 6 \<le> n \<and> i + n \<le> length data
    \<and> starts_with (drop i data) td_marker"
  unfolding td_record_len_iff
  by (auto simp: encode_td_record_def encode_txdata_def dest: arg_cong [where f = length])

lemma ta_record_len_min: "ta_record_len data i = Some (Some n) \<Longrightarrow> 8 \<le> n \<and> i + n \<le> length data
    \<and> starts_with (drop i data) ta_marker"
  unfolding ta_record_len_iff
  by (auto simp: encode_ta_record_def dest: arg_cong [where f = length])

definition marker_tag :: "bytes \<Rightarrow> nat \<Rightarrow> str" where
  "marker_tag data i = (if starts_with (drop i data) td_marker then ascii ''TD'' else ascii ''TA'')"

lemma marker_tag_bytes:
  assumes "starts_with (drop i data) td_marker \<or> starts_with (drop i data) ta_marker"
  shows "\<exists>tag. subslice data i (i + 2) = Some tag \<and> utf8_lossy tag = marker_tag data i"
proof -
  obtain rest where "drop i data = td_marker @ rest \<or> drop i data = ta_marker @ rest"
    using assms unfolding starts_with_drop by blast
  then have "length (drop i data) = 4 + length rest" by (metis length_append length_markers)
  then have "i + 4 \<le> length data" by simp
  moreover have "take 2 (drop i data) = [0x54, 0x44] \<and> starts_with (drop i data) td_marker
      \<or> take 2 (drop i data) = [0x54, 0x41] \<and> \<not> starts_with (drop i data) td_marker"
    using \<open>drop i data = td_marker @ rest \<or> drop i data = ta_marker @ rest\<close> markers_differ [of "drop i data"]
    by (elim disjE) (simp_all add: td_marker_def ta_marker_def starts_with_def del: length_drop)
  ultimately show ?thesis by (auto simp: subslice_def marker_tag_def utf8_step.simps)
qed

lemma find_markers_filter:
  "find_markers data = Some (map (\<lambda>i. (i, marker_tag data i))
     (filter (\<lambda>i. \<exists>n. marker_record_len data i = Some (Some n)) [0..<length data - 3]))"
proof -
  let ?P = "\<lambda>i. \<exists>n. marker_record_len data i = Some (Some n)"
  let ?g = "\<lambda>i out. if ?P i then out @ [(i, marker_tag data i)] else out"
  have "find_markers data = Some (fold ?g [0..<length data - 3] [])"
    unfolding find_markers_def
  proof (rule try_fold_pure)
    fix i and out :: "(nat \<times> str) list"
    obtain m where m: "marker_record_len data i = Some m" using marker_record_len_total by blast
    show "Option.bind (marker_record_len data i) (\<lambda>m. case m of None \<Rightarrow> Some out
        | Some _ \<Rightarrow> Option.bind (subslice data i (i + 2)) (\<lambda>tag. Some (out @ [(i, utf8_lossy tag)])))
      = Some (?g i out)"
    proof (cases m)
      case (Some n)
      then have "starts_with (drop i data) td_marker \<or> starts_with (drop i data) ta_marker"
        using m marker_record_len_Some [of data i n] td_record_len_min ta_record_len_min by blast
      then show ?thesis using m Some marker_tag_bytes by fastforce
    qed (use m in auto)
  qed
  moreover have "fold ?g xs out = out @ map (\<lambda>i. (i, marker_tag data i)) (filter ?P xs)" for xs out
    by (induction xs arbitrary: out) auto
  ultimately show ?thesis by simp
qed

text \<open> \<open>find_markers\<close> never panics and lists, in increasing order of position, exactly the
  places of the buffer where the length of a TD or TA record can be read, with the tag found there.\<close>

theorem find_markers_exact:
  "\<exists>ms. find_markers data = Some ms \<and> sorted_wrt (<) (map fst ms)
     \<and> (\<forall>i tag. (i, tag) \<in> set ms \<longleftrightarrow>
          (\<exists>n. td_record_len data i = Some (Some n)) \<and> tag = ascii ''TD''
          \<or> (\<exists>n. ta_record_len data i = Some (Some n)) \<and> tag = ascii ''TA'')"
proof -
  let ?P = "\<lambda>i. \<exists>n. marker_record_len data i = Some (Some n)"
  have P: "?P i \<longleftrightarrow> (\<exists>n. td_record_len data i = Some (Some n)) \<or> (\<exists>n. ta_record_len data i = Some (Some n))" for i
    using marker_record_len_Some by blast
  have bound: "i < length data - 3" if "?P i" for i
    using that td_record_len_min ta_record_len_min unfolding P by fastforce
  have td: "marker_tag data i = ascii ''TD''" if "td_record_len data i = Some (Some n)" for i n
    using td_record_len_min [OF that] by (simp add: marker_tag_def)
  have ta: "marker_tag data i = ascii ''TA''" if "ta_record_len data i = Some (Some n)" for i n
    using ta_record_len_min [OF that] markers_differ by (auto simp: marker_tag_def)
  let ?ms = "map (\<lambda>i. (i, marker_tag data i)) (filter ?P [0..<length data - 3])"
  have "sorted_wrt (<) (map fst ?ms)" by (simp add: comp_def sorted_wrt_filter)
  moreover have "(i, tag) \<in> set ?ms \<longleftrightarrow>
      (\<exists>n. td_record_len data i = Some (Some n)) \<and> tag = ascii ''TD''
      \<or> (\<exists>n. ta_record_len data i = Some (Some n)) \<and> tag = ascii ''TA''" for i tag
  proof -
    have "(i, tag) \<in> set ?ms \<longleftrightarrow> ?P i \<and> tag = marker_tag data i" using bound by auto
    also have "?P i \<and> tag = marker_tag data i \<longleftrightarrow>
        (\<exists>n. td_record_len data i = Some (Some n)) \<and> tag = ascii ''TD''
        \<or> (\<exists>n. ta_record_len data i = Some (Some n)) \<and> tag = ascii ''TA''"
      unfolding P using td [of i] ta [of i] by fastforce
    finally show ?thesis .
  qed
  ultimately show ?thesis using find_markers_filter by blast
qed

end
