(* ===== verification/Elements.thy ===== *)
theory Elements imports Proto Td_Records begin

text \<open>
  The elements of a message and their summaries (\<open>msg3_parser.rs\<close>): the records, the field
  reader, the names of types and faces, the texts of TXData records, and \<open>summarize_element\<close> with
  what it calls. The libraries the parser calls are one record of parameters, \<open>externals\<close>: the
  GB18030 decoder, the zlib decoder (\<open>None\<close> for an error) and the JSON reader of \<open>serde_json\<close>
  (objects in the iteration order of its map).
\<close>

section \<open>Records\<close>

datatype json = JNull | JBool bool | JNumber str | JString str | JArray "json list"
  | JObject "(str \<times> json) list"

record externals =
  gb18030 :: "bytes \<Rightarrow> str option"
  inflate :: "bytes \<Rightarrow> bytes option"
  json_from_str :: "str \<Rightarrow> json option"

record field =
  fd_id :: u8
  fd_name :: str
  fd_data :: bytes
  fd_text :: str

record element =
  el_offset :: nat
  el_typ :: u8
  el_payload :: bytes
  el_fields :: "field list"
  el_proto_strings :: "str list"
  el_proto_fields :: "proto_field list"
  el_tlvs :: "tlv_record list"
  el_markers :: "(nat \<times> str) list"
  el_td_records :: "td_record list"
  el_summary :: str

definition default_element :: element where
  "default_element = \<lparr>el_offset = 0, el_typ = 0, el_payload = [], el_fields = [],
     el_proto_strings = [], el_proto_fields = [], el_tlvs = [], el_markers = [],
     el_td_records = [], el_summary = []\<rparr>"

section \<open>Types and names\<close>

definition field_name :: "u8 \<Rightarrow> u8 \<Rightarrow> str" where
  "field_name elem_type field_id =
     (let t = elem_type; i = field_id; image = (t = 3 \<or> t = 5 \<or> t = 6); rich = (t = 7 \<or> t = 0x11) in
      if t = 1 \<and> i = 1 then ascii ''text''
      else if t = 2 \<and> i = 1 then ascii ''face_id_or_text''
      else if image \<and> i = 0 then ascii ''rich_or_resv_data''
      else if image \<and> i = 1 then ascii ''guid_or_md5''
      else if image \<and> i = 2 then ascii ''image_path''
      else if image \<and> i = 8 then ascii ''image_biz_type''
      else if image \<and> i = 10 then ascii ''image_extra''
      else if image \<and> i = 11 then ascii ''image_size_or_flag''
      else if rich \<and> i = 0 then ascii ''rich_or_struct_data''
      else if rich \<and> i = 1 then ascii ''guid''
      else if rich \<and> i = 2 then ascii ''app_or_service''
      else if rich \<and> i = 3 then ascii ''custom_data''
      else if t = 0x08 \<and> i = 1 then ascii ''metadata_flag''
      else if t = 0x08 \<and> i = 2 then ascii ''metadata_value''
      else if t = 0x0C \<and> i = 1 then ascii ''display_text''
      else if t = 0x0C \<and> i = 2 then ascii ''rich_context_data''
      else if t = 0x0E \<and> i = 1 then ascii ''layout_flag''
      else if t = 0x12 \<and> i = 2 then ascii ''text_metadata''
      else if t = 0x14 \<and> i = 1 then ascii ''xml''
      else if t = 0x14 \<and> i = 2 then ascii ''abstract_text''
      else if t = 0x19 \<and> i = 1 then ascii ''common_elem''
      else if t = 0x19 \<and> i = 2 then ascii ''custom_data''
      else [])"

definition valid_element_type :: "u8 \<Rightarrow> bool" where
  "valid_element_type t = (t \<in> {1, 2, 3, 5, 6, 7, 0x08, 0x0C, 0x0D, 0x0E, 0x10, 0x11, 0x12, 0x14,
     0x15, 0x16, 0x18, 0x19, 0x1A, 0x1B, 0x1E})"

definition element_label :: "u8 \<Rightarrow> str" where
  "element_label t =
     (if t = 1 then ascii ''text''
      else if t = 2 then ascii ''sysface''
      else if t \<in> {3, 5, 6} then ascii ''image''
      else if t \<in> {7, 0x11} then ascii ''file_or_struct''
      else if t = 0x08 then ascii ''message_metadata''
      else if t = 0x0C then ascii ''rich_context''
      else if t = 0x0D then ascii ''emoji''
      else if t = 0x0E then ascii ''layout_metadata''
      else if t = 0x10 then ascii ''public_account''
      else if t = 0x12 then ascii ''text_metadata''
      else if t = 0x14 then ascii ''special_abstract''
      else if t \<in> {0x15, 0x16, 0x18} then ascii ''custom_data''
      else if t = 0x19 then ascii ''custom_abstract''
      else if t = 0x1A then ascii ''video''
      else if t = 0x1B then ascii ''ark_app''
      else if t = 0x1E then ascii ''multi_msg''
      else ascii ''unknown'')"

section \<open>Fields\<close>

definition parse_field_text :: "u8 \<Rightarrow> u8 \<Rightarrow> bytes \<Rightarrow> str" where
  "parse_field_text elem_type fid data =
     (let allow_text = (\<not> (elem_type \<in> {3, 5, 6} \<and> fid \<noteq> 2)) in
      if elem_type = 1 \<and> fid = 1 \<and> length data \<ge> 2 \<and> length data mod 2 = 0 then
        let candidate = dropWhile text_control (utf16le_to_string data) in
        if candidate \<noteq> [] \<and> \<not> (\<exists>c \<in> set candidate. text_control c) \<and> 0xFFFD \<notin> set candidate
        then candidate else []
      else if allow_text \<and> plausible_utf16le data then
        let candidate = utf16le_to_string data in
        if reasonable_field_text candidate then candidate else []
      else if allow_text \<and> plausible_ascii data then
        let candidate = ascii_text data in
        if reasonable_field_text candidate then candidate else []
      else [])"

function fields_at :: "u8 \<Rightarrow> bytes \<Rightarrow> nat \<Rightarrow> field list \<Rightarrow> field list option" where
  "fields_at elem_type payload off out =
     (if off + 3 \<le> length payload then do {
        fid \<leftarrow> idx payload off;
        w \<leftarrow> Option.bind (subslice payload (off + 1) (off + 3)) le16;
        let n = unat w;
        if n > length payload - off - 3 then Some out
        else do {
          data \<leftarrow> subslice payload (off + 3) (off + 3 + n);
          fields_at elem_type payload (off + 3 + n)
            (out @ [\<lparr>fd_id = fid, fd_name = field_name elem_type fid, fd_data = data,
                     fd_text = parse_field_text elem_type fid data\<rparr>]) } }
      else Some out)"
  by pat_completeness auto
termination
  by (relation "measure (\<lambda>(_, payload, off, _). length payload - off)") auto

declare fields_at.simps [simp del]

definition parse_fields :: "u8 \<Rightarrow> bytes \<Rightarrow> field list option" where
  "parse_fields elem_type payload = fields_at elem_type payload 0 []"

section \<open>Elements for paths embedded in the data\<close>

definition label_image :: str where "label_image = [0x5B, 0x56FE, 0x7247, 0x5D]"
definition label_video :: str where "label_video = [0x5B, 0x89C6, 0x9891, 0x5D]"
definition label_file :: str where "label_file = [0x5B, 0x6587, 0x4EF6, 0x5D]"
definition label_undecodable :: str where "label_undecodable = [0x5B, 0x65E0, 0x6CD5, 0x89E3, 0x7801, 0x6587, 0x672C, 0x5D]"
definition label_struct :: str where "label_struct = [0x5B, 0x7ED3, 0x6784, 0x6D88, 0x606F, 0x5D]"

definition embedded_image_text :: "str \<Rightarrow> str" where
  "embedded_image_text text =
     trim_media_path
       (case find_sub text (ascii ''UserDataImage:'') of
          Some i \<Rightarrow> drop i text
        | None \<Rightarrow> (case find_sub text (ascii ''UserDataCustomFace:'') of
            Some i \<Rightarrow> drop i text | None \<Rightarrow> text))"

definition path_element :: "nat \<Rightarrow> u8 \<Rightarrow> u8 \<Rightarrow> str \<Rightarrow> str \<Rightarrow> str \<Rightarrow> element" where
  "path_element offset typ fid name text summary =
     default_element\<lparr>el_offset := offset, el_typ := typ, el_payload := utf16_encode_bytes text,
       el_fields := [\<lparr>fd_id = fid, fd_name = name, fd_data = utf16_encode_bytes text, fd_text = text\<rparr>],
       el_summary := summary\<rparr>"

definition embedded_element :: "nat \<times> str \<Rightarrow> element list" where
  "embedded_element p = (case p of (offset, text) \<Rightarrow>
     let image_text = embedded_image_text text; lower = to_ascii_lowercase image_text in
     if starts_with image_text (ascii ''UserDataImage:'')
        \<or> starts_with image_text (ascii ''UserDataCustomFace:'')
        \<or> contains_sub image_text (0x5C # ascii ''Image'')
        \<or> ends_with lower (ascii ''.jpg'') \<or> ends_with lower (ascii ''.jpeg'')
        \<or> ends_with lower (ascii ''.png'') \<or> ends_with lower (ascii ''.gif'')
        \<or> ends_with lower (ascii ''.webp'')
     then [path_element offset 6 2 (ascii ''image_path'') image_text label_image]
     else if starts_with text (ascii ''UserDataRoot:Video'')
        \<or> contains_sub (to_ascii_lowercase text) ([0x5C] @ ascii ''video'' @ [0x5C])
     then [path_element offset 0x1A 1 (ascii ''embedded_video_path'') text label_video]
     else if starts_with text (ascii ''UserDataFileRecv:'') \<or> contains_sub text (ascii ''FileRecv'')
     then [path_element offset 7 3 (ascii ''embedded_file_path'') text label_file]
     else [])"

definition embedded_visible_elements :: "bytes \<Rightarrow> element list" where
  "embedded_visible_elements data = concat (map embedded_element (utf16le_embedded_strings data 5))"

section \<open>Faces\<close>

definition is_system_decoration_element :: "element \<Rightarrow> bool" where
  "is_system_decoration_element e =
     (el_typ e \<in> {3, 5, 6} \<and>
      (\<exists>f \<in> set (el_fields e). fd_name f = ascii ''image_path'' \<and> is_bluebar_sysres_path (fd_text f)))"

definition faces :: "str list" where
  "faces =
    [[0x5FAE, 0x7B11], [0x6487, 0x5634], [0x8272], [0x53D1, 0x5446], [0x5F97, 0x610F],
     [0x6D41, 0x6CEA], [0x5BB3, 0x7F9E], [0x95ED, 0x5634], [0x7761], [0x5927, 0x54ED],
     [0x5C34, 0x5C2C], [0x53D1, 0x6012], [0x8C03, 0x76AE], [0x5472, 0x7259], [0x60CA, 0x8BB6],
     [0x96BE, 0x8FC7], [0x9177], [0x51B7, 0x6C57], [0x6293, 0x72C2], [0x5410], [0x5077, 0x7B11],
     [0x53EF, 0x7231], [0x767D, 0x773C], [0x50B2, 0x6162], [0x9965, 0x997F], [0x56F0],
     [0x60CA, 0x6050], [0x6D41, 0x6C57], [0x61A8, 0x7B11], [0x5927, 0x5175], [0x594B, 0x6597],
     [0x5492, 0x9A82], [0x7591, 0x95EE], [0x5618], [0x6655], [0x6298, 0x78E8], [0x8870],
     [0x9AB7, 0x9AC5], [0x6572, 0x6253], [0x518D, 0x89C1], [0x64E6, 0x6C57], [0x62A0, 0x9F3B],
     [0x9F13, 0x638C], [0x7CD7, 0x5927, 0x4E86], [0x574F, 0x7B11], [0x5DE6, 0x54FC, 0x54FC],
     [0x53F3, 0x54FC, 0x54FC], [0x54C8, 0x6B20], [0x9119, 0x89C6], [0x59D4, 0x5C48],
     [0x5FEB, 0x54ED, 0x4E86], [0x9634, 0x9669], [0x4EB2, 0x4EB2], [0x5413], [0x53EF, 0x601C],
     [0x83DC, 0x5200], [0x897F, 0x74DC], [0x5564, 0x9152], [0x7BEE, 0x7403], [0x4E52, 0x4E53],
     [0x5496, 0x5561], [0x996D], [0x732A, 0x5934], [0x73AB, 0x7470], [0x51CB, 0x8C22],
     [0x793A, 0x7231], [0x7231, 0x5FC3], [0x5FC3, 0x788E], [0x86CB, 0x7CD5], [0x95EA, 0x7535],
     [0x70B8, 0x5F39], [0x5200], [0x8DB3, 0x7403], [0x74E2, 0x866B], [0x4FBF, 0x4FBF],
     [0x6708, 0x4EAE], [0x592A, 0x9633], [0x793C, 0x7269], [0x62E5, 0x62B1], [0x5F3A], [0x5F31],
     [0x63E1, 0x624B], [0x80DC, 0x5229], [0x62B1, 0x62F3], [0x52FE, 0x5F15], [0x62F3, 0x5934],
     [0x5DEE, 0x52B2], [0x7231, 0x4F60], [0x4E, 0x4F], [0x4F, 0x4B], [0x7231, 0x60C5],
     [0x98DE, 0x543B], [0x8DF3, 0x8DF3], [0x53D1, 0x6296], [0x6004, 0x706B], [0x8F6C, 0x5708],
     [0x78D5, 0x5934], [0x56DE, 0x5934], [0x8DF3, 0x7EF3], [0x6325, 0x624B], [0x6FC0, 0x52A8],
     [0x8857, 0x821E], [0x732E, 0x543B], [0x5DE6, 0x592A, 0x6781], [0x53F3, 0x592A, 0x6781]]"

definition extended_face_shortcut :: "u8 \<Rightarrow> str option" where
  "extended_face_shortcut fid = (if fid = 212 then Some (ascii ''/qw'') else None)"

definition face_text :: "u8 \<Rightarrow> str" where
  "face_text fid =
     (if unat fid < length faces then [0x5B] @ faces ! unat fid @ [0x5D]
      else case extended_face_shortcut fid of
        Some shortcut \<Rightarrow> [0x5B] @ shortcut @ [0x5D]
      | None \<Rightarrow> ascii ''[face:'' @ nat_digits (unat fid) @ [0x5D])"

definition sysface_id :: "element \<Rightarrow> u8 option" where
  "sysface_id e =
     (if el_typ e = 2 \<and> length (el_payload e) \<ge> 4 \<and> el_payload e ! 0 = 1 \<and> el_payload e ! 1 = 1
      then Some (el_payload e ! 3) else None)"

definition is_qq_face_label :: "str \<Rightarrow> bool" where
  "is_qq_face_label text = (\<exists>fid \<in> set [0..<101]. face_text (word_of_nat fid) = trim text)"

section \<open>Texts of an element\<close>

definition first_text :: "('a \<Rightarrow> bool) \<Rightarrow> ('a \<Rightarrow> str) \<Rightarrow> 'a list \<Rightarrow> str" where
  "first_text P g xs = (case find P xs of Some x \<Rightarrow> g x | None \<Rightarrow> [])"

definition first_meaningful_text :: "element \<Rightarrow> nat \<Rightarrow> str" where
  "first_meaningful_text e max_len =
     first_text (\<lambda>f. fd_text f \<noteq> [] \<and> str_len (fd_text f) \<le> max_len \<and> 0xFFFD \<notin> set (fd_text f)
                   \<and> \<not> is_generic_token (fd_text f)) fd_text (el_fields e)"

definition proto_text_ok :: "nat \<Rightarrow> proto_field \<Rightarrow> bool" where
  "proto_text_ok max_len pf =
     (pf_text pf \<noteq> [] \<and> str_len (pf_text pf) \<le> max_len \<and> \<not> is_generic_token (pf_text pf))"

definition first_proto_text :: "element \<Rightarrow> nat \<Rightarrow> str" where
  "first_proto_text e max_len =
     first_text (proto_text_ok max_len) pf_text
       (concat (map tlv_proto_fields (el_tlvs e)) @ el_proto_fields e)"

definition push_unique_text :: "str list \<Rightarrow> str \<Rightarrow> str list" where
  "push_unique_text out text = (if text \<noteq> [] \<and> text \<notin> set out then out @ [text] else out)"

text \<open>The fields of the complete TXData records of an element, in order.\<close>

definition complete_txdata_fields :: "element \<Rightarrow> txdata_field list" where
  "complete_txdata_fields e = concat (map td_txdata_fields (filter td_txdata_complete (el_td_records e)))"

definition txdata_named_texts :: "element \<Rightarrow> str list \<Rightarrow> str list" where
  "txdata_named_texts e names =
     fold (\<lambda>f out. if txf_name f \<in> set names
                   then fold (\<lambda>t o'. push_unique_text o' t) (txf_value_texts f) out else out)
       (complete_txdata_fields e) []"

definition first_txdata_named_text :: "element \<Rightarrow> str list \<Rightarrow> str" where
  "first_txdata_named_text e names = (case txdata_named_texts e names of [] \<Rightarrow> [] | t # _ \<Rightarrow> t)"

fun le_value :: "nat \<Rightarrow> bytes \<Rightarrow> u64 \<Rightarrow> u64" where
  "le_value i [] v = v"
| "le_value i (b # bs) v = le_value (i + 1) bs (v OR push_bit (8 * i) (ucast b))"

definition first_txdata_named_uint :: "element \<Rightarrow> str list \<Rightarrow> u64 option" where
  "first_txdata_named_uint e names =
     (case find (\<lambda>f. txf_name f \<in> set names \<and> length (txf_value f) \<in> {1, 2, 4, 8}) (complete_txdata_fields e) of
        Some f \<Rightarrow> Some (le_value 0 (txf_value f) 0) | None \<Rightarrow> None)"

definition has_txdata_named_field :: "element \<Rightarrow> str list \<Rightarrow> bool" where
  "has_txdata_named_field e names = (\<exists>f \<in> set (complete_txdata_fields e). txf_name f \<in> set names)"

definition field_text :: "element \<Rightarrow> u8 \<Rightarrow> str" where
  "field_text e fid = first_text (\<lambda>f. fd_id f = fid \<and> fd_text f \<noteq> []) fd_text (el_fields e)"

section \<open>Structured messages\<close>

definition xml_attr_with :: "nat \<Rightarrow> str \<Rightarrow> str \<Rightarrow> str option" where
  "xml_attr_with quote xml attr =
     (let needle = attr @ [0x3D, quote] in
      case find_sub xml needle of
        None \<Rightarrow> None
      | Some start \<Rightarrow>
          let rest = drop (start + length needle) xml in
          case find_sub rest [quote] of None \<Rightarrow> None | Some stop \<Rightarrow> Some (take stop rest))"

definition extract_xml_attr :: "str \<Rightarrow> str \<Rightarrow> str" where
  "extract_xml_attr xml attr =
     (case xml_attr_with 0x22 xml attr of
        Some t \<Rightarrow> t
      | None \<Rightarrow> (case xml_attr_with 0x27 xml attr of Some t \<Rightarrow> t | None \<Rightarrow> []))"

definition struct_msg_candidate :: "externals \<Rightarrow> bytes \<Rightarrow> str" where
  "struct_msg_candidate x candidate =
     (if length candidate < 2 \<or> candidate ! 0 \<noteq> 0x78 then []
      else case inflate x candidate of
        None \<Rightarrow> []
      | Some inflated \<Rightarrow>
          (case utf8_decode inflated of
             Some text \<Rightarrow> if reasonable_field_text text then text
                          else (let wide = utf16le_to_string inflated in
                                if reasonable_field_text wide then wide else [])
           | None \<Rightarrow> (let wide = utf16le_to_string inflated in
                      if reasonable_field_text wide then wide else [])))"

definition decode_struct_msg_payload :: "externals \<Rightarrow> bytes \<Rightarrow> str" where
  "decode_struct_msg_payload x data =
     (let candidates = (if length data > 1 \<and> data ! 0 \<le> 1 then [drop 1 data, data] else [data, []])
      in first_text (\<lambda>t. t \<noteq> []) (\<lambda>t. t) (map (struct_msg_candidate x) candidates))"

definition struct_msg_xml :: "externals \<Rightarrow> element \<Rightarrow> str" where
  "struct_msg_xml x e =
     (let text = first_text (\<lambda>t. t \<noteq> []) (\<lambda>t. t) (map (\<lambda>f. decode_struct_msg_payload x (fd_data f)) (el_fields e))
      in if text \<noteq> [] then text else decode_struct_msg_payload x (el_payload e))"

definition struct_msg_display_text :: "str \<Rightarrow> str \<Rightarrow> str" where
  "struct_msg_display_text xml fallback =
     (let text = first_text (\<lambda>t. t \<noteq> []) (\<lambda>t. t)
            (map (\<lambda>attr. trim (extract_xml_attr xml (ascii attr))) [''brief'', ''m_resid'', ''title'', ''summary''])
      in if text \<noteq> [] then text
         else if trim fallback \<noteq> [] then trim fallback
         else if trim xml \<noteq> [] then label_struct
         else [])"

definition structured_txdata_display_text :: "element \<Rightarrow> str" where
  "structured_txdata_display_text e =
     (let text = first_text (\<lambda>t. trim t \<noteq> [] \<and> \<not> is_generic_token (trim t)) trim
            (map (\<lambda>xml. struct_msg_display_text xml []) (txdata_named_texts e [ascii ''strXmlInfo'']));
          title = trim (first_txdata_named_text e [ascii ''strTitle'']);
          summary = trim (first_txdata_named_text e [ascii ''strSummary'']) in
      if text \<noteq> [] then text
      else if title \<noteq> [] \<and> summary \<noteq> [] then title @ [0x20] @ summary
      else if title \<noteq> [] then title
      else if summary \<noteq> [] then summary
      else [])"

fun find_json_string :: "json \<Rightarrow> str \<Rightarrow> str" and find_in_values :: "json list \<Rightarrow> str \<Rightarrow> str"
  and find_in_object :: "(str \<times> json) list \<Rightarrow> str \<Rightarrow> str" where
  "find_json_string (JObject kvs) key =
     (let own = (case map_of kvs key of Some (JString t) \<Rightarrow> trim t | _ \<Rightarrow> []) in
      if own \<noteq> [] then own else find_in_object kvs key)"
| "find_json_string (JArray vs) key = find_in_values vs key"
| "find_json_string _ key = []"
| "find_in_values [] key = []"
| "find_in_values (v # vs) key =
     (let t = find_json_string v key in if t \<noteq> [] then t else find_in_values vs key)"
| "find_in_object [] key = []"
| "find_in_object ((k, v) # kvs) key =
     (let t = find_json_string v key in if t \<noteq> [] then t else find_in_object kvs key)"

definition ark_meta_json :: "externals \<Rightarrow> element \<Rightarrow> json option" where
  "ark_meta_json x e =
     (case find (\<lambda>t. json_from_str x t \<noteq> None) (txdata_named_texts e [ascii ''meta'', ascii ''config-json'']) of
        Some t \<Rightarrow> json_from_str x t | None \<Rightarrow> None)"

definition ark_app_display_text :: "externals \<Rightarrow> element \<Rightarrow> str" where
  "ark_app_display_text x e =
     (let prompt = trim (first_txdata_named_text e [ascii ''prompt'']) in
      if prompt \<noteq> [] then prompt
      else
        let text = (case ark_meta_json x e of
              Some meta \<Rightarrow> first_text (\<lambda>t. t \<noteq> []) (\<lambda>t. t)
                 (map (\<lambda>key. find_json_string meta (ascii key)) [''title'', ''desc'', ''tag''])
            | None \<Rightarrow> []) in
        if text \<noteq> [] then text
        else first_txdata_named_text e [ascii ''desc'', ascii ''view'', ascii ''app''])"

definition ark_app_href :: "externals \<Rightarrow> element \<Rightarrow> str" where
  "ark_app_href x e =
     (case ark_meta_json x e of
        Some meta \<Rightarrow> first_text (\<lambda>t. starts_with t (ascii ''http://'') \<or> starts_with t (ascii ''https://'')) (\<lambda>t. t)
          (map (\<lambda>key. find_json_string meta (ascii key)) [''jumpUrl'', ''source_url'', ''url''])
      | None \<Rightarrow> [])"

definition rich_context_text :: "element \<Rightarrow> str" where
  "rich_context_text e =
     (let text = first_text (\<lambda>f. fd_name f = ascii ''display_text'' \<and> trim (fd_text f) \<noteq> []
              \<and> reasonable_field_text (trim (fd_text f))) (\<lambda>f. trim (fd_text f)) (el_fields e) in
      if text \<noteq> [] then text
      else if el_fields e \<noteq> [] then []
      else join [10] (filter (\<lambda>t. t \<noteq> [] \<and> \<not> contains_sub t [0x3C, 0x24, 0x1FF]
               \<and> \<not> (\<forall>c \<in> set t. is_ascii_punctuation c \<or> is_whitespace c) \<and> \<not> length t < 8)
             (map trim (utf16le_text_runs (el_payload e) 8))))"

definition multi_msg_display_text :: "element \<Rightarrow> str" where
  "multi_msg_display_text e =
     (let title = trim (first_txdata_named_text e [ascii ''title'']);
          brief = trim (first_txdata_named_text e [ascii ''brief'']) in
      if title \<noteq> [] \<and> brief \<noteq> [] then brief @ [0x20] @ title
      else if title \<noteq> [] then title
      else if brief \<noteq> [] then brief
      else [])"

section \<open>Summaries\<close>

definition summarize_element :: "externals \<Rightarrow> element \<Rightarrow> str" where
  "summarize_element x e =
    (let t = el_typ e; p = el_payload e; link = first_txdata_named_text e [ascii ''strLinkHttp''] in
     if t = 1 then
       (if link \<noteq> [] then link
        else let text = first_text (\<lambda>f. fd_id f = 1 \<and> fd_text f \<noteq> [] \<and> 0xFFFD \<notin> set (fd_text f)) fd_text (el_fields e) in
          if text \<noteq> [] then text
          else if \<exists>f \<in> set (el_fields e). fd_id f = 1 \<and> 0xFFFD \<in> set (fd_text f) then label_undecodable
          else [])
     else if t = 2 \<and> length p \<ge> 4 then
       (if link \<noteq> [] then link
        else if p ! 0 = 1 \<and> p ! 1 = 1 \<and> p ! 2 = 0 then face_text (p ! 3)
        else let text = first_meaningful_text e 80 in
          if text \<noteq> [] then [0x5B] @ (if starts_with text [0x2F] then drop 1 text else text) @ [0x5D]
          else [])
     else if t \<in> {3, 5, 6} then
       (if is_system_decoration_element e then []
        else let proto_text = first_proto_text e 80 in
          if proto_text \<noteq> [] then proto_text
          else let text = first_text (\<lambda>f. fd_text f \<noteq> [] \<and> \<not> looks_like_image_path (fd_text f) \<and> str_len (fd_text f) < 80)
                 fd_text (el_fields e) in
            if text \<noteq> [] then text
            else if starts_with_td_ta p \<or> (\<exists>f \<in> set (el_fields e). looks_like_image_path (fd_text f))
            then label_image else [])
     else if t = 0x0C then rich_context_text e
     else if t = 0x0D then first_meaningful_text e 32
     else if t = 7 \<or> t = 0x11 then
       (let text = first_meaningful_text e 120 in
        if text \<noteq> [] then text
        else let text2 = structured_txdata_display_text e in
          if text2 \<noteq> [] then text2
          else if \<exists>f \<in> set (el_fields e). fd_text f = ascii ''com.tencent.filetransfer'' then label_file
          else [])
     else if t = 0x10 then first_meaningful_text e 120
     else if t = 0x14 then
       (let text = struct_msg_display_text (struct_msg_xml x e) (first_meaningful_text e 160) in
        if text \<noteq> [] then text else first_proto_text e 160)
     else if t \<in> {0x15, 0x16, 0x18, 0x19} then
       (let text = first_meaningful_text e 160 in
        if text \<noteq> [] then text else first_proto_text e 160)
     else if t = 0x1A then label_video
     else if t = 0x1B then
       (let text = ark_app_display_text x e in
        if text \<noteq> [] then text else first_meaningful_text e 160)
     else if t = 0x1E then
       (let text = multi_msg_display_text e in
        if text \<noteq> [] then text else first_meaningful_text e 160)
     else [])"

definition useful_element :: "element \<Rightarrow> bool" where
  "useful_element e =
     (if el_typ e = 1 \<and> el_summary e = [] \<and> el_fields e = [] then False
      else el_summary e \<noteq> []
        \<or> (el_typ e = 0 \<and> (\<exists>f \<in> set (el_fields e). starts_with (fd_name f) (ascii ''raw_'')))
        \<or> (el_typ e = 1 \<and> el_fields e \<noteq> [])
        \<or> (el_typ e = 0x08 \<and> el_fields e \<noteq> [])
        \<or> (el_typ e = 0x0C \<and> length (el_payload e) \<ge> 8)
        \<or> el_tlvs e \<noteq> []
        \<or> el_td_records e \<noteq> []
        \<or> (el_typ e = 0x19 \<and> (el_fields e \<noteq> [] \<or> el_proto_fields e \<noteq> []))
        \<or> el_typ e \<in> {0x0E, 0x12})"

section \<open>Facts\<close>

lemma complete_field_records: "f \<in> set (complete_txdata_fields e) \<longleftrightarrow>
    (\<exists>r \<in> set (el_td_records e). td_txdata_complete r \<and> f \<in> set (td_txdata_fields r))"
  by (auto simp: complete_txdata_fields_def)

lemma complete_field_bex: "(\<exists>f \<in> set (complete_txdata_fields e). Q f \<and> R f) \<longleftrightarrow>
    (\<exists>r f. r \<in> set (el_td_records e) \<and> td_txdata_complete r \<and> f \<in> set (td_txdata_fields r) \<and> Q f \<and> R f)"
  by (auto simp: complete_txdata_fields_def)

lemma set_push_unique: "set (push_unique_text out t) = set out \<union> ({t} - {[]})"
  by (auto simp: push_unique_text_def)

lemma distinct_push_unique: "distinct (push_unique_text out t) = distinct out"
  by (auto simp: push_unique_text_def)

lemma fold_push_unique:
  "set (fold (\<lambda>t o'. push_unique_text o' t) ts out) = set out \<union> (set ts - {[]})"
  "distinct out \<Longrightarrow> distinct (fold (\<lambda>t o'. push_unique_text o' t) ts out)"
  by (induction ts arbitrary: out) (auto simp: set_push_unique distinct_push_unique)

definition named_step :: "str list \<Rightarrow> txdata_field \<Rightarrow> str list \<Rightarrow> str list" where
  "named_step names f out = (if txf_name f \<in> set names
      then fold (\<lambda>t o'. push_unique_text o' t) (txf_value_texts f) out else out)"

lemma fold_named:
  "set (fold (named_step names) fs out) = set out \<union>
      {t. t \<noteq> [] \<and> (\<exists>f \<in> set fs. txf_name f \<in> set names \<and> t \<in> set (txf_value_texts f))}"
  "distinct out \<Longrightarrow> distinct (fold (named_step names) fs out)"
  by (induction fs arbitrary: out) (auto simp: named_step_def fold_push_unique)

lemma first_text_Some: "first_text P g xs \<noteq> [] \<Longrightarrow> \<exists>x \<in> set xs. P x \<and> first_text P g xs = g x"
proof (cases "find P xs")
  case (Some x)
  then have "x \<in> set xs \<and> P x" by (metis find_Some_iff nth_mem)
  then show ?thesis using Some by (auto simp: first_text_def)
qed (simp add: first_text_def)

lemma first_text_Nil: "(\<And>x. x \<in> set xs \<Longrightarrow> P x \<Longrightarrow> g x \<noteq> []) \<Longrightarrow>
    first_text P g xs = [] \<longleftrightarrow> (\<forall>x \<in> set xs. \<not> P x)"
  unfolding first_text_def
  by (metis (no_types, lifting) find_None_iff find_Some_iff nth_mem option.case_eq_if option.collapse)

subsection \<open>The field reader\<close>

text \<open>A field as it stands in the payload: its id and its data.\<close>

definition field_ok :: "u8 \<times> bytes \<Rightarrow> bool" where
  "field_ok f = (length (snd f) < 2 ^ 16)"

definition encode_elem_field :: "u8 \<times> bytes \<Rightarrow> bytes" where
  "encode_elem_field f = [fst f] @ nat_le 2 (length (snd f)) @ snd f"

definition elem_field_of :: "u8 \<Rightarrow> u8 \<times> bytes \<Rightarrow> field" where
  "elem_field_of t f = \<lparr>fd_id = fst f, fd_name = field_name t (fst f), fd_data = snd f,
     fd_text = parse_field_text t (fst f) (snd f)\<rparr>"

text \<open>What stops the reader: fewer than three bytes, or a length that does not fit.\<close>

definition field_stop :: "bytes \<Rightarrow> bool" where
  "field_stop rest = (length rest < 3 \<or> length rest < 3 + le_nat (take 2 (drop 1 rest)))"

lemma fields_at_step:
  assumes "off \<le> length payload"
  shows "fields_at t payload off out =
    (let r = drop off payload; n = le_nat (take 2 (drop 1 r)) in
     if field_stop r then Some out
     else fields_at t payload (off + 3 + n) (out @ [elem_field_of t (hd r, take n (drop 3 r))]))"
proof (cases "off + 3 \<le> length payload")
  case True
  define w where "w = le16_pair (payload ! (off + 1)) (payload ! (off + 2))"
  have w: "Option.bind (subslice payload (off + 1) (off + 3)) le16 = Some w"
    using True le16_subslice [of "off + 1" payload "off + 3"] by (simp add: w_def)
  have n: "le_nat (take 2 (drop 1 (drop off payload))) = unat w"
    using True take_drop_2 [of "off + 1" payload] by (simp add: w_def unat_le16_pair add.commute)
  have hd: "hd (drop off payload) = payload ! off" using True by (simp add: hd_drop_conv_nth)
  have stop: "field_stop (drop off payload) \<longleftrightarrow> unat w > length payload - off - 3"
    using True n unfolding field_stop_def by auto
  have d3: "drop 3 (drop off payload) = drop (off + 3) payload" by (simp add: add.commute)
  show ?thesis
    unfolding fields_at.simps [of t payload off out] Let_def n stop hd d3 w
    using True by (auto simp: idx_Some subslice_def elem_field_of_def)
next
  case False
  then show ?thesis by (subst fields_at.simps) (auto simp: field_stop_def Let_def)
qed

lemma split_elem_field:
  assumes "\<not> field_stop r" "n = le_nat (take 2 (drop 1 r))"
  shows "r = encode_elem_field (hd r, take n (drop 3 r)) @ drop (3 + n) r \<and> field_ok (hd r, take n (drop 3 r))
       \<and> 3 + n \<le> length r"
proof -
  have l: "3 + n \<le> length r" using assms by (simp add: field_stop_def)
  then obtain a r1 where r: "r = a # r1" by (cases r) auto
  have e: "r1 = nat_le 2 n @ drop 2 r1"
    using nat_le_take [of 0 2 2 r1] l r assms(2) by simp
  have "drop 2 r1 = take n (drop 2 r1) @ drop (2 + n) r1"
    by (metis append_take_drop_id drop_drop add.commute)
  moreover have "length (take n (drop 2 r1)) = n" using l r by simp
  moreover have "drop 3 r = drop 2 r1" "drop (3 + n) r = drop (2 + n) r1"
    by (simp_all add: r numeral_3_eq_3 numeral_2_eq_2)
  moreover have "n < 2 ^ 16" using le_nat_bound [of "take 2 (drop 1 r)"] l assms(2) by (simp add: r)
  ultimately show ?thesis using e l r
    by (simp add: encode_elem_field_def field_ok_def)
qed

lemma fields_at_spec:
  "off \<le> length payload \<Longrightarrow> \<exists>fs rest. fields_at t payload off out = Some (out @ map (elem_field_of t) fs)
     \<and> drop off payload = concat (map encode_elem_field fs) @ rest \<and> (\<forall>f \<in> set fs. field_ok f) \<and> field_stop rest"
proof (induction "length payload - off" arbitrary: off out rule: less_induct)
  case less
  define r where "r = drop off payload"
  define n where "n = le_nat (take 2 (drop 1 r))"
  note step = fields_at_step [OF less.prems, unfolded Let_def, folded r_def, folded n_def]
  show ?case
  proof (cases "field_stop r")
    case True
    then show ?thesis using step by (intro exI [of _ "[]"] exI [of _ r]) (simp add: r_def [symmetric])
  next
    case False
    let ?f = "(hd r, take n (drop 3 r))"
    have sp: "r = encode_elem_field ?f @ drop (3 + n) r" "field_ok ?f" "3 + n \<le> length r"
      using split_elem_field [OF False n_def] by blast+
    then have "off + 3 + n \<le> length payload" "length payload - (off + 3 + n) < length payload - off"
      by (auto simp: r_def)
    from less.hyps [OF this(2,1)] obtain fs rest where
      fs: "fields_at t payload (off + 3 + n) (out @ [elem_field_of t ?f])
          = Some ((out @ [elem_field_of t ?f]) @ map (elem_field_of t) fs)"
      "drop (off + 3 + n) payload = concat (map encode_elem_field fs) @ rest"
      "\<forall>f \<in> set fs. field_ok f" "field_stop rest" by blast
    have "drop (3 + n) r = drop (off + 3 + n) payload" by (simp add: r_def add.commute add.left_commute)
    then have "r = concat (map encode_elem_field (?f # fs)) @ rest" using sp(1) fs(2) by simp
    then show ?thesis using step False fs sp(2)
      by (intro exI [of _ "?f # fs"] exI [of _ rest]) (simp add: r_def [symmetric])
  qed
qed

lemma parse_fields_split:
  "\<exists>fs rest. parse_fields t payload = Some (map (elem_field_of t) fs)
     \<and> payload = concat (map encode_elem_field fs) @ rest \<and> (\<forall>f \<in> set fs. field_ok f) \<and> field_stop rest"
  using fields_at_spec [of 0 payload t "[]"] by (simp add: parse_fields_def)

lemma encode_elem_field_inject:
  assumes "encode_elem_field f @ r = encode_elem_field g @ s" "field_ok f" "field_ok g"
  shows "f = g \<and> r = s"
proof -
  have e: "fst f = fst g" "nat_le 2 (length (snd f)) = nat_le 2 (length (snd g))" "snd f @ r = snd g @ s"
    using assms(1) by (simp_all add: encode_elem_field_def append_eq_append_conv)
  have "length (snd f) = length (snd g)"
    using arg_cong [OF e(2), of le_nat] assms(2,3) by (simp add: le_nat_nat_le field_ok_def)
  then show ?thesis using e(1,3) by (simp add: prod_eq_iff)
qed

lemma field_stop_encode: "field_ok f \<Longrightarrow> \<not> field_stop (encode_elem_field f @ r)"
  using le_nat_nat_le [of 2 "length (snd f)"]
  by (simp add: field_stop_def encode_elem_field_def field_ok_def)

lemma fields_unique:
  assumes "concat (map encode_elem_field fs) @ r = concat (map encode_elem_field gs) @ s"
    "\<forall>f \<in> set fs. field_ok f" "\<forall>g \<in> set gs. field_ok g" "field_stop r" "field_stop s"
  shows "fs = gs \<and> r = s"
  using assms
proof (induction fs arbitrary: gs)
  case Nil
  then show ?case using field_stop_encode by (cases gs) auto
next
  case (Cons f fs)
  show ?case
  proof (cases gs)
    case Nil
    then have "s = encode_elem_field f @ (concat (map encode_elem_field fs) @ r)" using Cons.prems(1) by simp
    moreover have "field_ok f" using Cons.prems(2) by simp
    ultimately have "\<not> field_stop s" by (simp only: field_stop_encode simp_thms)
    then show ?thesis using Cons.prems(5) by simp
  next
    case (Cons g gs')
    then have "f = g \<and> concat (map encode_elem_field fs) @ r = concat (map encode_elem_field gs') @ s"
      using Cons.prems by (intro encode_elem_field_inject) simp_all
    then show ?thesis using Cons Cons.prems Cons.IH [of gs'] by simp
  qed
qed

lemma parse_fields_iff:
  "(\<exists>out. parse_fields t payload = Some out) \<and>
   (parse_fields t payload = Some out \<longleftrightarrow>
     (\<exists>fs rest. payload = concat (map encode_elem_field fs) @ rest \<and> (\<forall>f \<in> set fs. field_ok f)
        \<and> field_stop rest \<and> out = map (elem_field_of t) fs))"
proof -
  obtain fs rest where fs: "parse_fields t payload = Some (map (elem_field_of t) fs)"
    "payload = concat (map encode_elem_field fs) @ rest" "\<forall>f \<in> set fs. field_ok f" "field_stop rest"
    using parse_fields_split by blast
  have uniq: "gs = fs" if "payload = concat (map encode_elem_field gs) @ s" "\<forall>g \<in> set gs. field_ok g" "field_stop s" for gs s
    using fields_unique [of gs s fs rest] that fs(2-4) by simp
  have "parse_fields t payload = Some out \<longleftrightarrow> out = map (elem_field_of t) fs" using fs(1) by auto
  also have "\<dots> \<longleftrightarrow> (\<exists>fs rest. payload = concat (map encode_elem_field fs) @ rest \<and> (\<forall>f \<in> set fs. field_ok f)
        \<and> field_stop rest \<and> out = map (elem_field_of t) fs)"
    using fs(2-4) uniq by metis
  finally show ?thesis using fs(1) by blast
qed

lemma parse_fields_exact_aux:
  "payload = concat (map encode_elem_field fs) @ rest \<Longrightarrow> \<forall>f \<in> set fs. field_ok f \<Longrightarrow> field_stop rest \<Longrightarrow>
   parse_fields t payload = Some (map (elem_field_of t) fs)"
  using parse_fields_iff [of t payload "map (elem_field_of t) fs"] by blast

text \<open>C37.  \<open>parse_fields\<close> never panics and reads a payload completely: the payload is the
  serialization of the returned fields followed by a rest that is too short for a field, and a
  payload of that shape is read as just these fields.\<close>

theorem parse_fields_exact:
  "(\<exists>out. parse_fields t payload = Some out) \<and>
   (parse_fields t payload = Some out \<longleftrightarrow>
     (\<exists>fs rest. payload = concat (map encode_elem_field fs) @ rest \<and> (\<forall>f \<in> set fs. field_ok f)
        \<and> field_stop rest \<and> out = map (elem_field_of t) fs))"
  by (rule parse_fields_iff)

theorem parse_fields_exact_witness:
  "(\<exists>out. parse_fields 1 [1, 2, 0, 0x68, 0, 9] = Some out) \<and>
   (parse_fields 1 [1, 2, 0, 0x68, 0, 9] = Some [elem_field_of 1 (1, [0x68, 0])] \<longleftrightarrow>
     (\<exists>fs rest. [1, 2, 0, 0x68, 0, 9] = concat (map encode_elem_field fs) @ rest \<and> (\<forall>f \<in> set fs. field_ok f)
        \<and> field_stop rest \<and> [elem_field_of 1 (1, [0x68, 0])] = map (elem_field_of 1) fs))"
  by (rule parse_fields_exact)

subsection \<open>Faces\<close>

lemma faces_length [simp]: "length faces = 105"
  by (simp add: faces_def)

lemma faces_distinct: "distinct faces"
  by (simp add: faces_def)

lemma faces_not_special: "ascii ''/qw'' \<notin> set faces" "\<forall>f \<in> set faces. take 5 f \<noteq> ascii ''face:''"
  by (simp_all add: faces_def)

definition face_name :: "u8 \<Rightarrow> str" where
  "face_name fid = (if unat fid < 105 then faces ! unat fid else if fid = 212 then ascii ''/qw''
     else ascii ''face:'' @ nat_digits (unat fid))"

lemma face_text_name: "face_text fid = [0x5B] @ face_name fid @ [0x5D]"
  unfolding face_text_def face_name_def extended_face_shortcut_def faces_length by simp

lemma face_name_special: "\<not> unat fid < 105 \<Longrightarrow> face_name fid \<notin> set faces"
proof
  assume "\<not> unat fid < 105" "face_name fid \<in> set faces"
  moreover from this(2) have "take 5 (face_name fid) \<noteq> ascii ''face:''" "face_name fid \<noteq> ascii ''/qw''"
    using faces_not_special by metis+
  ultimately show False by (auto simp: face_name_def split: if_splits)
qed

lemma face_name_inject: "face_name a = face_name b \<Longrightarrow> a = b"
proof -
  assume e: "face_name a = face_name b"
  have mem: "face_name i \<in> set faces \<longleftrightarrow> unat i < 105" for i
    using face_name_special [of i] by (auto simp: face_name_def)
  show "a = b"
  proof (cases "unat a < 105")
    case True
    then have "unat b < 105" using e mem by metis
    then have "unat a = unat b" using True e faces_distinct by (simp add: face_name_def nth_eq_iff_index_eq)
    then show ?thesis by (simp add: word_unat_eq_iff)
  next
    case False
    then have b: "\<not> unat b < 105" using e mem by metis
    have q: "ascii ''/qw'' \<noteq> ascii ''face:'' @ nat_digits n" for n by simp
    show ?thesis
      using e False b q q [symmetric] nat_digits_inject [of "unat a" "unat b"]
      by (auto simp: face_name_def word_unat_eq_iff simp del: ascii_simps split: if_splits)
  qed
qed

text \<open> Every face number has a label of its own: \<open>face_text\<close> is injective, over the table, the
  extended shortcut and the numbers without a name.\<close>

theorem face_text_injective:
  assumes "face_text a = face_text b"
  shows "a = b"
  using assms face_name_inject [of a b] by (simp add: face_text_name)

theorem face_text_injective_witness:
  "face_text 212 = face_text 212 \<and> (212 :: u8) = 212"
  using face_text_injective [of 212 212] by simp

text \<open> The label test covers the numbers 0 to 100 only, although the table has names up to 104 (and
  the shortcut 212): \<open>is_qq_face_label\<close> does not recognise the labels of the other faces.\<close>

theorem is_qq_face_label_range: "is_qq_face_label (face_text n) \<longleftrightarrow> unat n \<le> 100"
proof -
  have t: "trim (face_text i) = face_text i" for i
    by (simp add: trim_def trim_matches_def trim_end_matches_def face_text_name is_whitespace_def)
  have "unat (word_of_nat i :: u8) = i" if "i < 101" for i
    using that by (simp add: unat_of_nat_small)
  moreover have "face_text (word_of_nat i) = face_text n \<longleftrightarrow> word_of_nat i = n" for i
    using face_name_inject by (auto simp: face_text_name)
  ultimately have "(\<exists>i \<in> set [0..<101]. face_text (word_of_nat i) = face_text n) \<longleftrightarrow> unat n < 101"
    by (auto intro!: bexI [of _ "unat n"])
  then show ?thesis by (auto simp: is_qq_face_label_def t)
qed

subsection \<open>Texts of TXData values\<close>

text \<open> \<open>txdata_named_texts\<close> returns each non-empty text of the fields with one of the names, in
  complete records, exactly once.\<close>

theorem txdata_named_texts_exact:
  "distinct (txdata_named_texts e names) \<and>
   (t \<in> set (txdata_named_texts e names) \<longleftrightarrow>
     t \<noteq> [] \<and> (\<exists>r f. r \<in> set (el_td_records e) \<and> td_txdata_complete r \<and> f \<in> set (td_txdata_fields r)
       \<and> txf_name f \<in> set names \<and> t \<in> set (txf_value_texts f)))"
proof -
  have "txdata_named_texts e names = fold (named_step names) (complete_txdata_fields e) []"
    by (simp add: txdata_named_texts_def named_step_def [abs_def])
  then show ?thesis using fold_named [where names = names and fs = "complete_txdata_fields e" and out = "[]"]
    by (simp only: complete_field_bex distinct.simps simp_thms mem_Collect_eq set_simps Un_empty_left)
qed

lemma unat_or_disjoint: "(a :: u64) AND b = 0 \<Longrightarrow> unat a + unat b < 2 ^ 64 \<Longrightarrow> unat (a OR b) = unat a + unat b"
  by (simp add: disjunctive_add_eq_or [symmetric] unat_word_ariths)

lemma le_value_step:
  assumes "unat (v :: u64) < 256 ^ i" "i < 8"
  shows "unat (v OR push_bit (8 * i) (ucast (b :: u8))) = unat v + 256 ^ i * unat b"
proof -
  have p: "(256::nat) ^ i = 2 ^ (8 * i)" by (simp add: power_mult)
  have high: "\<not> bit v j" if "8 * i \<le> j" for j
  proof -
    have "unat v < 2 ^ j" using assms(1) that unfolding p by (meson less_le_trans one_le_numeral power_increasing)
    then have "\<not> bit (unat v) j" by (simp add: bit_iff_odd)
    then show ?thesis by (simp add: bit_unsigned_iff)
  qed
  have dis: "v AND push_bit (8 * i) (ucast b) = 0"
    by (rule bit_eqI) (use high in \<open>auto simp: bit_simps\<close>)
  have le: "(256::nat) ^ Suc i \<le> 256 ^ 8" using assms(2) by (intro power_increasing) auto
  have sm: "unat b * 256 ^ i < 256 ^ Suc i" by simp
  have ub: "unat (push_bit (8 * i) (ucast b :: u64)) = 256 ^ i * unat b"
  proof -
    have "unat b * 256 ^ i < 256 ^ 8" by (rule less_le_trans [OF sm le])
    then have "unat b * 2 ^ (8 * i) < 2 ^ 64" unfolding p by simp
    moreover have "unat (ucast b :: u64) = unat b"
      using unat_u8_less [of b] by (simp add: unsigned_ucast_eq take_bit_nat_eq_self del: unat_u8_less)
    ultimately show ?thesis
      unfolding unsigned_push_bit_eq by (simp add: push_bit_eq_mult take_bit_nat_eq_self p mult.commute)
  qed
  have "unat v + 256 ^ i * unat b < 256 ^ i + 256 ^ i * unat b" using assms(1) by simp
  also have "\<dots> = 256 ^ i * (unat b + 1)" by simp
  also have "\<dots> \<le> 256 ^ i * 256" using unat_u8_le [of b] by (intro mult_le_mono2) simp
  also have "\<dots> \<le> 2 ^ 64" using le by simp
  finally show ?thesis using unat_or_disjoint [OF dis] ub by simp
qed

lemma le_value_le_nat:
  "unat v < 256 ^ i \<Longrightarrow> i + length bs \<le> 8 \<Longrightarrow> unat (le_value i bs v) = unat v + 256 ^ i * le_nat bs"
proof (induction bs arbitrary: i v)
  case (Cons b bs)
  have s: "unat (v OR push_bit (8 * i) (ucast b)) = unat v + 256 ^ i * unat b"
    using Cons.prems by (intro le_value_step) auto
  have "unat v + 256 ^ i * unat b < 256 ^ i * (unat b + 1)" using Cons.prems by simp
  also have "\<dots> \<le> 256 ^ i * 256" using unat_u8_le [of b] by (intro mult_le_mono2) simp
  finally have "unat v + 256 ^ i * unat b < 256 ^ (i + 1)" by simp
  then show ?case using Cons.IH [of "v OR push_bit (8 * i) (ucast b)" "i + 1"] Cons.prems s
    by (simp add: algebra_simps)
qed simp

text \<open> \<open>first_txdata_named_uint\<close> finds a value exactly when a complete record has a field of that name
  with 1, 2, 4 or 8 bytes, and what it returns is the little-endian value of such a field.\<close>

theorem first_txdata_named_uint_value:
  "(first_txdata_named_uint e names = None \<longleftrightarrow>
      \<not> (\<exists>f \<in> set (complete_txdata_fields e). txf_name f \<in> set names \<and> length (txf_value f) \<in> {1, 2, 4, 8}))
   \<and> (first_txdata_named_uint e names = Some v \<longrightarrow>
      (\<exists>f \<in> set (complete_txdata_fields e). txf_name f \<in> set names \<and> unat v = le_nat (txf_value f)))"
proof -
  define P where "P f \<longleftrightarrow> txf_name f \<in> set names \<and> length (txf_value f) \<in> {1, 2, 4, 8}" for f :: txdata_field
  have u: "first_txdata_named_uint e names = (case find P (complete_txdata_fields e) of
      Some f \<Rightarrow> Some (le_value 0 (txf_value f) 0) | None \<Rightarrow> None)"
    unfolding first_txdata_named_uint_def P_def ..
  show ?thesis
  proof (cases "find P (complete_txdata_fields e)")
    case None
    then have "\<not> (\<exists>f. f \<in> set (complete_txdata_fields e) \<and> P f)" by (simp only: find_None_iff simp_thms)
    then show ?thesis using u None by (auto simp: P_def)
  next
    case (Some f)
    then have f: "f \<in> set (complete_txdata_fields e)" "P f" by (metis find_Some_iff nth_mem)+
    then have "unat (le_value 0 (txf_value f) 0) = le_nat (txf_value f)"
      by (subst le_value_le_nat) (auto simp: P_def)
    then show ?thesis using Some f u by (auto simp: P_def)
  qed
qed

definition uint_element :: element where
  "uint_element = default_element\<lparr>el_td_records := [default_td_record\<lparr>td_txdata_complete := True,
     td_txdata_fields := [\<lparr>txf_header = 1, txf_name = [0x61], txf_value_len = 2, txf_value = [7, 1],
       txf_value_texts = [], txf_value_text_len = 0\<rparr>]\<rparr>]\<rparr>"

theorem first_txdata_named_uint_value_witness:
  "\<exists>f \<in> set (complete_txdata_fields uint_element). txf_name f \<in> set [[0x61]]
          \<and> unat (263 :: u64) = le_nat (txf_value f)"
proof (rule conjunct2 [OF first_txdata_named_uint_value, THEN mp])
  show "first_txdata_named_uint uint_element [[0x61]] = Some 263"
    by (simp add: first_txdata_named_uint_def uint_element_def complete_txdata_fields_def)
qed

subsection \<open>Strings inside JSON\<close>

inductive json_string_at :: "str \<Rightarrow> json \<Rightarrow> str \<Rightarrow> bool" for key where
  own: "map_of kvs key = Some (JString t) \<Longrightarrow> json_string_at key (JObject kvs) t"
| member: "(k, v) \<in> set kvs \<Longrightarrow> json_string_at key v t \<Longrightarrow> json_string_at key (JObject kvs) t"
| item: "v \<in> set vs \<Longrightarrow> json_string_at key v t \<Longrightarrow> json_string_at key (JArray vs) t"

inductive_simps json_string_at_simps [simp]:
  "json_string_at key (JObject kvs) t" "json_string_at key (JArray vs) t" "json_string_at key JNull t"
  "json_string_at key (JBool b) t" "json_string_at key (JNumber n) t" "json_string_at key (JString s) t"

lemma find_json_string_spec:
  "(find_json_string v key = [] \<longleftrightarrow> (\<forall>t. json_string_at key v t \<longrightarrow> trim t = []))
     \<and> (find_json_string v key \<noteq> [] \<longrightarrow> (\<exists>t. json_string_at key v t \<and> find_json_string v key = trim t))"
  "(find_in_values vs key = [] \<longleftrightarrow> (\<forall>v \<in> set vs. \<forall>t. json_string_at key v t \<longrightarrow> trim t = []))
     \<and> (find_in_values vs key \<noteq> [] \<longrightarrow> (\<exists>v \<in> set vs. \<exists>t. json_string_at key v t \<and> find_in_values vs key = trim t))"
  "(find_in_object kvs key = [] \<longleftrightarrow> (\<forall>(k, v) \<in> set kvs. \<forall>t. json_string_at key v t \<longrightarrow> trim t = []))
     \<and> (find_in_object kvs key \<noteq> [] \<longrightarrow>
          (\<exists>(k, v) \<in> set kvs. \<exists>t. json_string_at key v t \<and> find_in_object kvs key = trim t))"
proof (induction v key and vs key and kvs key rule: find_json_string_find_in_values_find_in_object.induct)
  case (1 kvs key)
  define own where "own = (case map_of kvs key of Some (JString t) \<Rightarrow> trim t | _ \<Rightarrow> [])"
  have own: "own \<noteq> [] \<Longrightarrow> \<exists>t. map_of kvs key = Some (JString t) \<and> own = trim t \<and> trim t \<noteq> []"
    "own = [] \<Longrightarrow> map_of kvs key = Some (JString t) \<Longrightarrow> trim t = []" for t
    by (auto simp: own_def split: option.splits json.splits)
  have e: "find_json_string (JObject kvs) key = (if own \<noteq> [] then own else find_in_object kvs key)"
    by (simp add: own_def Let_def)
  show ?case
  proof (cases "own = []")
    case True
    then show ?thesis unfolding e using 1 own(2) by (fastforce simp: own_def [symmetric])
  next
    case False
    then show ?thesis unfolding e using own(1) by fastforce
  qed
qed (auto simp: Let_def)

text \<open> \<open>find_json_string\<close> searches the whole value: it returns nothing exactly when every string
  under the key, at any depth, is blank, and what it returns is such a string, trimmed.\<close>

theorem find_json_string_complete:
  "(find_json_string v key = [] \<longleftrightarrow> (\<forall>t. json_string_at key v t \<longrightarrow> trim t = []))
     \<and> (find_json_string v key \<noteq> [] \<longrightarrow> (\<exists>t. json_string_at key v t \<and> find_json_string v key = trim t))"
  by (rule find_json_string_spec(1))

theorem find_json_string_complete_witness:
  "\<exists>t. json_string_at [0x61] (JArray [JNull, JObject [([0x61], JString [0x62])]]) t
        \<and> find_json_string (JArray [JNull, JObject [([0x61], JString [0x62])]]) [0x61] = trim t"
proof (rule conjunct2 [OF find_json_string_complete, THEN mp])
  show "find_json_string (JArray [JNull, JObject [([0x61], JString [0x62])]]) [0x61] \<noteq> []"
    by (simp add: trim_def trim_matches_def trim_end_matches_def is_whitespace_def)
qed

end
