(* ===== verification/Msg_Parser.thy ===== *)
theory Msg_Parser imports Elements begin

text \<open>
  The message parser (\<open>parse_msgcontent\<close> of \<open>msg3_parser.rs\<close>): it walks the buffer, takes raw TD and
  TA records and typed elements where they stand, turns short gaps between them into raw elements,
  and falls back to embedded paths and the labels of transport messages. An outer \<open>None\<close> is a panic.
\<close>

section \<open>Raw text in gaps\<close>

definition exact_utf16le_text :: "externals \<Rightarrow> bytes \<Rightarrow> str" where
  "exact_utf16le_text x data =
     (if length data < 2 \<or> length data mod 2 \<noteq> 0 then []
      else if length data \<ge> 4 \<and> td_xor_high_byte (data ! 1)
         \<and> (\<forall>i \<in> set [0..<length data div 2]. data ! (2 * i + 1) = data ! 1)
         \<and> td_xor_wide_texts (gb18030 x) data \<noteq> [] then []
      else case utf16_decode (utf16_units data) of
          None \<Rightarrow> []
        | Some text \<Rightarrow>
            if \<not> (\<forall>c \<in> set text. c < 0x80) \<and> reasonable_field_text text \<and> \<not> is_generic_token text
            then text else [])"

definition standard_element_len_at :: "bytes \<Rightarrow> nat \<Rightarrow> nat option option" where
  "standard_element_len_at data pos =
     (if pos + 4 \<le> length data \<and> starts_with (drop pos data) td_marker then td_record_len data pos
      else if pos + 4 \<le> length data \<and> starts_with (drop pos data) ta_marker then ta_record_len data pos
      else if pos + 3 > length data then Some None
      else do {
        typ \<leftarrow> idx data pos;
        w \<leftarrow> Option.bind (subslice data (pos + 1) (pos + 3)) le16;
        let n = unat w;
        let zero_len_metadata = (n = 0 \<and> typ \<in> {0x0E, 0x12});
        if valid_element_type typ \<and> (zero_len_metadata \<or> n \<ge> 3) \<and> n \<le> length data - pos - 3
        then Some (Some (3 + n)) else Some None })"

function scan_start :: "bytes \<Rightarrow> nat \<Rightarrow> nat \<Rightarrow> nat option option" where
  "scan_start data stop scan =
     (if scan + 3 \<le> stop then do {
        r \<leftarrow> standard_element_len_at data scan;
        if r \<noteq> None then Some (Some scan) else scan_start data stop (scan + 1) }
      else if stop = length data then Some (Some (length data)) else Some None)"
  by pat_completeness auto
termination
  by (relation "measure (\<lambda>(_, stop, scan). stop - scan)") auto

declare scan_start.simps [simp del]

definition next_standard_element_start :: "bytes \<Rightarrow> nat \<Rightarrow> nat \<Rightarrow> nat option option" where
  "next_standard_element_start data pos max_scan =
     scan_start data (min (length data) (saturating_add pos max_scan)) pos"

definition raw_text_field :: "bytes \<Rightarrow> str \<Rightarrow> field" where
  "raw_text_field payload text =
     \<lparr>fd_id = 0, fd_name = ascii ''raw_text_gap'', fd_data = payload, fd_text = text\<rparr>"

definition raw_gap_texts :: "externals \<Rightarrow> bytes \<Rightarrow> field list" where
  "raw_gap_texts x payload =
     (let visible = exact_utf16le_text x payload in
      fold (\<lambda>text fs. if \<exists>f \<in> set fs. fd_text f = text then fs else fs @ [raw_text_field payload text])
        (td_xor_wide_texts (gb18030 x) payload)
        (if visible \<noteq> [] then [raw_text_field payload visible] else []))"

definition raw_gap_element :: "externals \<Rightarrow> bytes \<Rightarrow> nat \<Rightarrow> nat \<Rightarrow> element option option" where
  "raw_gap_element x data pos stop =
     (if pos < 32 \<or> stop \<le> pos \<or> stop - pos > 512 then Some None
      else do {
        payload \<leftarrow> subslice data pos stop;
        let texts = raw_gap_texts x payload;
        flds \<leftarrow> (if texts \<noteq> [] then Some texts
                 else do {
                   parsed \<leftarrow> parse_fields 0 payload;
                   let consumed = sum_list (map (\<lambda>f. 3 + length (fd_data f)) parsed);
                   Some (if consumed = length payload \<and> parsed \<noteq> []
                         then map (\<lambda>f. f\<lparr>fd_name := ascii ''raw_field_gap''\<rparr>) parsed else []) });
        if flds = [] then Some None
        else Some (Some (default_element\<lparr>el_offset := pos, el_payload := payload, el_fields := flds,
               el_summary := exact_utf16le_text x payload\<rparr>)) })"

section \<open>Transport messages\<close>

definition is_mmt_transport_index :: "element \<Rightarrow> bool" where
  "is_mmt_transport_index e =
     (has_txdata_named_field e [ascii ''bStructMsgVersion'']
      \<and> has_txdata_named_field e [ascii ''arrMMTMsgIndex'']
      \<and> has_txdata_named_field e [ascii ''arrPackets''])"

definition has_transport_metadata :: "element \<Rightarrow> bool" where
  "has_transport_metadata e = has_txdata_named_field e
     (map ascii [''arrPackets'', ''C2CSessionData'', ''dwConnTime'', ''dwServerTime'', ''dwMsgSeq'',
        ''dwBeginSeq'', ''dwEndSeq'', ''dwPacketSeq'', ''dwPacketCount'', ''dwPacketIndex'',
        ''nSessionType''])"

definition has_unresolved_visible_txdata_text :: "element \<Rightarrow> bool" where
  "has_unresolved_visible_txdata_text e =
     (\<exists>f \<in> set (complete_txdata_fields e).
        txf_name f \<in> set (map ascii [''bsAbstractText'', ''MSGBOX_bsPreviewMsgText'', ''bsMsgText''])
        \<and> txf_value_texts f = [] \<and> txf_value f \<noteq> [])"

definition label_system :: str where "label_system = [0x5B, 0x7CFB, 0x7EDF, 0x6D88, 0x606F, 0x5D]"
definition label_call :: str where "label_call = [0x5B, 0x97F3, 0x89C6, 0x9891, 0x901A, 0x8BDD, 0x5D]"
definition label_mmt :: str where "label_mmt = [0x5B, 0x65E0, 0x53EF, 0x89C1, 0x6B63, 0x6587, 0xFF1A, 0x4D, 0x4D, 0x54, 0x5305, 0x7D22, 0x5F15, 0x5D]"
definition label_transport :: str where "label_transport = [0x5B, 0x65E0, 0x53EF, 0x89C1, 0x6B63, 0x6587, 0xFF1A, 0x4F20, 0x8F93, 0x5143, 0x6570, 0x636E, 0x5D]"

definition system_message_label :: "element list \<Rightarrow> str" where
  "system_message_label elems =
     (if \<exists>e \<in> set elems. has_unresolved_visible_txdata_text e then label_system else [])"

fun av_call_scan :: "bool \<Rightarrow> txdata_field list \<Rightarrow> str" where
  "av_call_scan has_av [] = (if has_av then label_call else [])"
| "av_call_scan has_av (f # fs) =
     (if txf_name f \<in> set (map ascii [''wAvMsgType'', ''bVideo'', ''nMsgContentType'']) then av_call_scan True fs
      else if txf_name f = ascii ''bsMsgText'' then
        (let text = first_text (\<lambda>t. trim t \<noteq> [] \<and> \<not> is_generic_token (trim t)) trim (txf_value_texts f) in
         if text \<noteq> [] then text else av_call_scan has_av fs)
      else av_call_scan has_av fs)"

definition av_call_label :: "element \<Rightarrow> str" where
  "av_call_label e = av_call_scan False (complete_txdata_fields e)"

definition transport_only_label :: "element list \<Rightarrow> str" where
  "transport_only_label elems =
     (if \<exists>e \<in> set elems. is_mmt_transport_index e then label_mmt
      else case find (\<lambda>label. label \<noteq> []) (map av_call_label elems) of
          Some label \<Rightarrow> label
        | None \<Rightarrow>
            let label = system_message_label elems in
            if label \<noteq> [] then label
            else if \<exists>e \<in> set elems. has_transport_metadata e then label_transport
            else [])"

section \<open>The parser\<close>

text \<open>The \<open>collect_*\<close> calls for one field of an element.\<close>

definition collect_field_data :: "field \<Rightarrow> element \<Rightarrow> element option" where
  "collect_field_data f e = do {
     let base = (if fd_name f = [] then ascii ''field'' @ nat_digits (unat (fd_id f)) else fd_name f);
     ss \<leftarrow> collect_proto_strings (fd_data f) 0 (el_proto_strings e);
     ps \<leftarrow> collect_proto_fields (fd_data f) 0 base (el_proto_fields e);
     ts \<leftarrow> collect_ctx_tlvs (fd_data f) base (el_tlvs e);
     Some (e\<lparr>el_proto_strings := ss, el_proto_fields := ps, el_tlvs := ts\<rparr>) }"

text \<open>The element for a raw TD or TA record at \<open>pos\<close>.\<close>

definition raw_record_element :: "externals \<Rightarrow> nat \<Rightarrow> bytes \<Rightarrow> element option" where
  "raw_record_element x pos payload = do {
     ms \<leftarrow> find_markers payload;
     tds \<leftarrow> parse_td_records (gb18030 x) payload;
     let e = default_element\<lparr>el_offset := pos, el_payload := payload, el_markers := ms,
               el_td_records := tds\<rparr>;
     Some (e\<lparr>el_summary := summarize_element x e\<rparr>) }"

text \<open>The element for a type and its payload, found at \<open>pos\<close>.\<close>

definition typed_element :: "externals \<Rightarrow> nat \<Rightarrow> u8 \<Rightarrow> bytes \<Rightarrow> element option" where
  "typed_element x pos typ payload = do {
     let raw_td = starts_with_td_ta payload;
     flds \<leftarrow> (if raw_td then Some [] else parse_fields typ payload);
     ss \<leftarrow> collect_proto_strings payload 0 [];
     ps \<leftarrow> collect_proto_fields payload 0 [] [];
     ts \<leftarrow> collect_ctx_tlvs payload (ascii ''payload'') [];
     let e0 = default_element\<lparr>el_offset := pos, el_typ := typ, el_payload := payload,
                el_fields := flds, el_proto_strings := ss, el_proto_fields := ps, el_tlvs := ts\<rparr>;
     e1 \<leftarrow> try_fold collect_field_data flds e0;
     ms \<leftarrow> find_markers payload;
     tds \<leftarrow> (if raw_td \<or> ms \<noteq> [] then parse_td_records (gb18030 x) payload else Some []);
     let e2 = e1\<lparr>el_markers := ms, el_td_records := tds\<rparr>;
     Some (e2\<lparr>el_summary := summarize_element x e2\<rparr>) }"

definition raw_record_len_at :: "bytes \<Rightarrow> nat \<Rightarrow> nat option option" where
  "raw_record_len_at data pos =
     (if pos + 4 \<le> length data \<and> starts_with (drop pos data) td_marker then td_record_len data pos
      else if pos + 4 \<le> length data \<and> starts_with (drop pos data) ta_marker then ta_record_len data pos
      else Some None)"

text \<open>One round of the loop at \<open>pos\<close>: the elements pushed and the next position. \<open>pos + 3\<close> is not
  past the end.\<close>

definition parse_step :: "externals \<Rightarrow> bytes \<Rightarrow> nat \<Rightarrow> (element list \<times> nat) option" where
  "parse_step x data pos = do {
     raw_len \<leftarrow> raw_record_len_at data pos;
     case raw_len of
       Some n \<Rightarrow> do {
         payload \<leftarrow> subslice data pos (pos + n);
         e \<leftarrow> raw_record_element x pos payload;
         Some (if useful_element e then [e] else [], pos + max n 1) }
     | None \<Rightarrow> do {
         typ \<leftarrow> idx data pos;
         w \<leftarrow> Option.bind (subslice data (pos + 1) (pos + 3)) le16;
         let n = unat w;
         rest \<leftarrow> slice_from data pos;
         case (if typ = 1 \<and> n \<ge> 1024 then near_td_ta_marker_delta rest 8 else None) of
           Some delta \<Rightarrow> Some ([], pos + delta)
         | None \<Rightarrow>
             let zero_len_metadata = (n = 0 \<and> typ \<in> {0x0E, 0x12}) in
             if \<not> valid_element_type typ \<or> (\<not> zero_len_metadata \<and> n < 3) \<or> n > length data - pos - 3
             then do {
               nxt \<leftarrow> next_standard_element_start data (pos + 1) 1024;
               case nxt of
                 None \<Rightarrow> Some ([], pos + 1)
               | Some next \<Rightarrow> do {
                   gap \<leftarrow> raw_gap_element x data pos next;
                   Some (case gap of Some e \<Rightarrow> ([e], next) | None \<Rightarrow> ([], pos + 1)) } }
             else do {
               payload \<leftarrow> subslice data (pos + 3) (pos + 3 + n);
               e \<leftarrow> typed_element x pos typ payload;
               if useful_element e then Some ([e], pos + 3 + n)
               else do {
                 gap \<leftarrow> raw_gap_element x data pos (pos + 3 + n);
                 Some (case gap of Some raw \<Rightarrow> ([raw], pos + 3 + n) | None \<Rightarrow> ([], pos + 1)) } } } }"

lemma raw_gap_element_forward: "raw_gap_element x data pos stop = Some (Some e) \<Longrightarrow> pos < stop"
  by (auto simp: raw_gap_element_def split: if_splits)

lemma near_delta_pos: "near_td_ta_marker_delta data m = Some d \<Longrightarrow> 0 < d \<and> d + 3 < length data \<and> d \<le> m
    \<and> starts_with_td_ta (drop d data)"
proof -
  assume "near_td_ta_marker_delta data m = Some d"
  then have "d \<in> set [1..<min (length data - 3) (m + 1)] \<and> starts_with_td_ta (drop d data)"
    unfolding near_td_ta_marker_delta_def Let_def by (metis (no_types, lifting) find_Some_iff nth_mem)
  then show ?thesis by auto
qed

lemma parse_step_forward: "parse_step x data pos = Some (es, pos') \<Longrightarrow> pos < pos'"
  by (auto simp: parse_step_def Let_def bind_eq_Some_conv
        dest: raw_gap_element_forward near_delta_pos split: if_splits option.splits)

function msg_loop :: "externals \<Rightarrow> bytes \<Rightarrow> nat \<Rightarrow> element list \<Rightarrow> element list option" where
  "msg_loop x data pos out =
     (if pos + 3 \<le> length data then
        (case parse_step x data pos of
           None \<Rightarrow> None
         | Some (es, pos') \<Rightarrow> msg_loop x data pos' (out @ es))
      else Some out)"
  by pat_completeness auto
termination
  by (relation "measure (\<lambda>(_, data, pos, _). length data - pos)")
     (auto dest!: parse_step_forward)

declare msg_loop.simps [simp del]

definition parse_msgcontent :: "externals \<Rightarrow> bytes \<Rightarrow> element list option" where
  "parse_msgcontent x data = do {
     out \<leftarrow> msg_loop x data
       (if length data \<ge> 20 \<and> starts_with data (ascii_bytes ''MSG'') then 20 else 0) [];
     Some (if \<not> (\<exists>e \<in> set out. el_summary e \<noteq> []) \<and> transport_only_label out = []
           then out @ embedded_visible_elements data else out) }"

section \<open>What a round consumes\<close>

lemma find_markers_total: "\<exists>ms. find_markers data = Some ms"
  using find_markers_filter by blast

lemma parse_td_records_total: "\<exists>tds. parse_td_records gb data = Some tds"
  using collected.nest [of gb 9 data 0 "[]"] by (auto simp: parse_td_records_def parse_td_ta_records_at_def)

lemma parse_fields_total: "\<exists>fs. parse_fields t payload = Some fs"
  using parse_fields_split by blast

lemma standard_element_len_total: "\<exists>r. standard_element_len_at data pos = Some r"
  using td_record_len_total [of data pos] ta_record_len_total [of data pos] le16_subslice [of "pos + 1" data "pos + 3"]
  by (auto simp: standard_element_len_at_def idx_Some Let_def)

lemma scan_start_spec:
  "\<exists>r. scan_start data stop scan = Some r \<and>
     (case r of
        Some p \<Rightarrow> (scan \<le> p \<and> p + 3 \<le> stop \<and> standard_element_len_at data p \<noteq> Some None
              \<and> (\<forall>q. scan \<le> q \<and> q < p \<longrightarrow> standard_element_len_at data q = Some None))
            \<or> (p = length data \<and> stop = length data
              \<and> (\<forall>q. scan \<le> q \<and> q + 3 \<le> stop \<longrightarrow> standard_element_len_at data q = Some None))
      | None \<Rightarrow> stop \<noteq> length data \<and> (\<forall>q. scan \<le> q \<and> q + 3 \<le> stop \<longrightarrow> standard_element_len_at data q = Some None))"
proof (induction "stop - scan" arbitrary: scan rule: less_induct)
  case less
  show ?case
  proof (cases "scan + 3 \<le> stop")
    case False
    then show ?thesis by (subst scan_start.simps) auto
  next
    case True
    obtain r where r: "standard_element_len_at data scan = Some r" using standard_element_len_total by blast
    show ?thesis
    proof (cases r)
      case (Some n)
      then show ?thesis using True r by (subst scan_start.simps) (auto intro!: exI [of _ "Some scan"])
    next
      case None
      have ext: "(\<forall>q. scan \<le> q \<and> P q \<longrightarrow> standard_element_len_at data q = Some None) \<longleftrightarrow>
          (\<forall>q. scan + 1 \<le> q \<and> P q \<longrightarrow> standard_element_len_at data q = Some None)" for P
        using r None by (metis Suc_eq_plus1 Suc_leD le_antisym not_less_eq_eq)
      have "stop - (scan + 1) < stop - scan" using True by simp
      from less.hyps [OF this] obtain r' where r': "scan_start data stop (scan + 1) = Some r'"
        and spec: "case r' of
            Some p \<Rightarrow> (scan + 1 \<le> p \<and> p + 3 \<le> stop \<and> standard_element_len_at data p \<noteq> Some None
              \<and> (\<forall>q. scan + 1 \<le> q \<and> q < p \<longrightarrow> standard_element_len_at data q = Some None))
            \<or> (p = length data \<and> stop = length data
              \<and> (\<forall>q. scan + 1 \<le> q \<and> q + 3 \<le> stop \<longrightarrow> standard_element_len_at data q = Some None))
          | None \<Rightarrow> stop \<noteq> length data \<and> (\<forall>q. scan + 1 \<le> q \<and> q + 3 \<le> stop \<longrightarrow> standard_element_len_at data q = Some None)"
        by blast
      have "scan_start data stop scan = Some r'"
        using True r None r' by (subst scan_start.simps) simp
      moreover have "case r' of
            Some p \<Rightarrow> (scan \<le> p \<and> p + 3 \<le> stop \<and> standard_element_len_at data p \<noteq> Some None
              \<and> (\<forall>q. scan \<le> q \<and> q < p \<longrightarrow> standard_element_len_at data q = Some None))
            \<or> (p = length data \<and> stop = length data
              \<and> (\<forall>q. scan \<le> q \<and> q + 3 \<le> stop \<longrightarrow> standard_element_len_at data q = Some None))
          | None \<Rightarrow> stop \<noteq> length data \<and> (\<forall>q. scan \<le> q \<and> q + 3 \<le> stop \<longrightarrow> standard_element_len_at data q = Some None)"
        using spec unfolding ext by (cases r') auto
      ultimately show ?thesis by blast
    qed
  qed
qed

definition element_end :: "element \<Rightarrow> nat" where
  "element_end e = el_offset e + (if el_typ e = 0 then 0 else 3) + length (el_payload e)"

text \<open>The bytes an element says it was read from are those of the buffer.\<close>

definition element_of :: "bytes \<Rightarrow> element \<Rightarrow> bool" where
  "element_of data e =
     (subslice data (element_end e - length (el_payload e)) (element_end e) = Some (el_payload e)
      \<and> (el_typ e = 0 \<or>
           valid_element_type (el_typ e) \<and> data ! el_offset e = el_typ e
           \<and> u16_at data (el_offset e + 1) = length (el_payload e)
           \<and> (3 \<le> length (el_payload e) \<or> el_payload e = [] \<and> el_typ e \<in> {0x0E, 0x12})))"

lemma collect_field_data_keeps:
  "collect_field_data f e = Some e' \<Longrightarrow> el_offset e' = el_offset e \<and> el_typ e' = el_typ e
     \<and> el_payload e' = el_payload e \<and> el_fields e' = el_fields e"
  by (auto simp: collect_field_data_def bind_eq_Some_conv Let_def)

lemma typed_element_head:
  assumes "typed_element x pos typ payload = Some e"
  shows "el_offset e = pos \<and> el_typ e = typ \<and> el_payload e = payload"
proof -
  from assms obtain e0 e1 flds where "try_fold collect_field_data flds e0 = Some e1"
    "el_offset e0 = pos \<and> el_typ e0 = typ \<and> el_payload e0 = payload"
    "el_offset e = el_offset e1 \<and> el_typ e = el_typ e1 \<and> el_payload e = el_payload e1"
    by (auto simp: typed_element_def Let_def bind_eq_Some_conv)
  then show ?thesis
    using try_fold_preserves [of collect_field_data flds e0 e1
        "\<lambda>e. el_offset e = pos \<and> el_typ e = typ \<and> el_payload e = payload"] collect_field_data_keeps by metis
qed

lemma raw_record_element_head:
  "raw_record_element x pos payload = Some e \<Longrightarrow> el_offset e = pos \<and> el_typ e = 0 \<and> el_payload e = payload"
  by (auto simp: raw_record_element_def Let_def bind_eq_Some_conv default_element_def)

lemma raw_gap_element_head:
  assumes "raw_gap_element x data pos stop = Some (Some e)"
  shows "el_offset e = pos \<and> el_typ e = 0 \<and> subslice data pos stop = Some (el_payload e)
       \<and> 32 \<le> pos \<and> pos < stop \<and> stop \<le> pos + 512 \<and> el_fields e \<noteq> []"
  using assms by (auto simp: raw_gap_element_def Let_def bind_eq_Some_conv default_element_def split: if_splits)

lemma raw_record_len_bounds:
  "raw_record_len_at data pos = Some (Some n) \<Longrightarrow> 6 \<le> n \<and> pos + n \<le> length data"
  using td_record_len_min [of data pos n] ta_record_len_min [of data pos n]
  by (auto simp: raw_record_len_at_def split: if_splits)

lemma element_of_raw:
  "el_typ e = 0 \<Longrightarrow> subslice data (el_offset e) stop = Some (el_payload e) \<Longrightarrow> element_of data e \<and> element_end e = stop"
proof -
  assume t: "el_typ e = 0" and s: "subslice data (el_offset e) stop = Some (el_payload e)"
  have "element_end e = stop" using t subslice_length [OF s] s
    by (auto simp: element_end_def subslice_eq_Some)
  moreover have "stop - length (el_payload e) = el_offset e"
    using subslice_length [OF s] s by (auto simp: subslice_eq_Some)
  ultimately show ?thesis using t s by (simp add: element_of_def)
qed

lemma parse_step_sound:
  assumes "parse_step x data pos = Some (es, pos')" "pos + 3 \<le> length data"
  shows "es = [] \<or> (\<exists>e. es = [e] \<and> el_offset e = pos \<and> element_end e = pos' \<and> pos' \<le> length data
      \<and> element_of data e)"
proof -
  define w where "w = le16_pair (data ! (pos + 1)) (data ! (pos + 2))"
  have w: "Option.bind (subslice data (pos + 1) (pos + 3)) le16 = Some w" "unat w = u16_at data (pos + 1)"
    using assms(2) le16_subslice [of "pos + 1" data "pos + 3"] u16_at_pair [of "pos + 1" data]
    by (simp_all add: w_def)
  obtain rl where rl: "raw_record_len_at data pos = Some rl"
    using assms(1) by (auto simp: parse_step_def bind_eq_Some_conv)
  show ?thesis
  proof (cases rl)
    case (Some n)
    then have b: "6 \<le> n" "pos + n \<le> length data" using raw_record_len_bounds rl by blast+
    from assms(1) rl Some obtain payload e where "subslice data pos (pos + n) = Some payload"
      "raw_record_element x pos payload = Some e" "es = (if useful_element e then [e] else [])" "pos' = pos + max n 1"
      by (auto simp: parse_step_def bind_eq_Some_conv)
    then show ?thesis using raw_record_element_head [of x pos payload e] element_of_raw [of e data "pos + n"] b
      by auto
  next
    case None
    have gap: "\<exists>e'. [e] = [e'] \<and> el_offset e' = pos \<and> element_end e' = stop \<and> stop \<le> length data \<and> element_of data e'"
      if "raw_gap_element x data pos stop = Some (Some e)" for stop e
      using raw_gap_element_head [OF that] element_of_raw [of e data stop] by (auto simp: subslice_eq_Some)
    define n where "n = unat w"
    define ty where "ty = data ! pos"
    define bad where "bad \<longleftrightarrow> \<not> valid_element_type ty \<or> (\<not> (n = 0 \<and> ty \<in> {0x0E, 0x12}) \<and> n < 3)
        \<or> n > length data - pos - 3"
    have i: "idx data pos = Some ty" "slice_from data pos = Some (drop pos data)"
      using assms(2) by (simp_all add: idx_def slice_from_def ty_def)
    note step = assms(1) [unfolded parse_step_def Let_def rl None w(1) i Option.bind.simps option.case,
        folded n_def, folded bad_def]
    show ?thesis
    proof (cases "(if ty = 1 \<and> n \<ge> 1024 then near_td_ta_marker_delta (drop pos data) 8 else None)")
      case (Some d)
      then show ?thesis using step by simp
    next
      case nodelta: None
      note step' = step [unfolded nodelta option.case]
      show ?thesis
      proof (cases bad)
        case True
        then show ?thesis using step' gap by (auto simp: bind_eq_Some_conv split: option.splits)
      next
        case False
        with step' obtain payload e where p: "subslice data (pos + 3) (pos + 3 + n) = Some payload"
          "typed_element x pos ty payload = Some e"
          and r: "if useful_element e then es = [e] \<and> pos' = pos + 3 + n
            else \<exists>g. raw_gap_element x data pos (pos + 3 + n) = Some g
              \<and> (case g of Some raw \<Rightarrow> es = [raw] \<and> pos' = pos + 3 + n | None \<Rightarrow> es = [])"
          by (auto simp: bind_eq_Some_conv split: option.splits if_splits)
        have h: "el_offset e = pos" "el_typ e = ty" "el_payload e = payload"
          using typed_element_head [OF p(2)] by auto
        have t: "valid_element_type ty" "3 \<le> n \<or> n = 0 \<and> ty \<in> {0x0E, 0x12}" "pos + 3 + n \<le> length data"
          using False assms(2) by (auto simp: bad_def)
        have "ty \<noteq> 0" using t(1) by (auto simp: valid_element_type_def)
        then have "element_of data e \<and> element_end e = pos + 3 + n"
          using h t p(1) w(2) subslice_length [OF p(1)]
          by (auto simp: element_of_def element_end_def ty_def n_def)
        then show ?thesis using r gap h(1) t(3) by (auto split: if_splits option.splits)
      qed
    qed
  qed
qed

lemma msg_loop_sound:
  "msg_loop x data pos out = Some res \<Longrightarrow> \<exists>es. res = out @ es
     \<and> (\<forall>e \<in> set es. element_of data e \<and> pos \<le> el_offset e \<and> element_end e \<le> length data)
     \<and> sorted_wrt (\<lambda>e e'. element_end e \<le> el_offset e') es"
proof (induction "length data - pos" arbitrary: pos out rule: less_induct)
  case less
  show ?case
  proof (cases "pos + 3 \<le> length data")
    case False
    then show ?thesis using less.prems by (subst (asm) msg_loop.simps) simp
  next
    case True
    then obtain es1 pos' where step: "parse_step x data pos = Some (es1, pos')"
      "msg_loop x data pos' (out @ es1) = Some res"
      using less.prems by (subst (asm) msg_loop.simps) (auto split: option.splits)
    have fwd: "pos < pos'" by (rule parse_step_forward [OF step(1)])
    have "length data - pos' < length data - pos" using fwd True by simp
    from less.hyps [OF this step(2)] obtain es2 where es2: "res = (out @ es1) @ es2"
      "\<forall>e \<in> set es2. element_of data e \<and> pos' \<le> el_offset e \<and> element_end e \<le> length data"
      "sorted_wrt (\<lambda>e e'. element_end e \<le> el_offset e') es2" by blast
    from parse_step_sound [OF step(1) True] show ?thesis
    proof (elim disjE exE conjE)
      assume "es1 = []"
      then show ?thesis using es2 fwd by (intro exI [of _ es2]) force
    next
      fix e
      assume "es1 = [e]" "el_offset e = pos" "element_end e = pos'" "pos' \<le> length data" "element_of data e"
      then show ?thesis using es2 fwd by (intro exI [of _ "e # es2"]) force
    qed
  qed
qed

section \<open>When the parser does not panic\<close>

definition strings_safe :: "bytes \<Rightarrow> bool" where
  "strings_safe data = (\<forall>d out. sublist d data \<longrightarrow> collect_proto_strings d 0 out \<noteq> None)"

lemma subslice_sublist: "subslice data a b = Some d \<Longrightarrow> sublist d data"
  by (auto simp: subslice_eq_Some sublist_def) (metis append_take_drop_id)

lemma strings_safe_sublist: "strings_safe data \<Longrightarrow> sublist d data \<Longrightarrow> strings_safe d"
  unfolding strings_safe_def by (meson sublist_order.order.trans)

lemma slice_ok_sublist: "slice_ok data \<Longrightarrow> sublist d data \<Longrightarrow> slice_ok d"
  using sublist_length_le [of d data] by (simp add: slice_ok_def)

lemma parse_fields_sublist:
  assumes "parse_fields t payload = Some fs" "f \<in> set fs"
  shows "sublist (fd_data f) payload"
proof -
  obtain gs rest where g: "parse_fields t payload = Some (map (elem_field_of t) gs)"
    "payload = concat (map encode_elem_field gs) @ rest" using parse_fields_split by blast
  then obtain g where "g \<in> set gs" "fd_data f = snd g" using assms by (auto simp: elem_field_of_def)
  moreover from this(1) obtain xs ys where "gs = xs @ g # ys" by (meson split_list)
  ultimately show ?thesis
    using g(2) by (auto simp: encode_elem_field_def intro!: sublist_appendI [of _ "concat (map encode_elem_field xs) @ fst g # nat_le 2 (length (snd g))", simplified])
qed

lemma collect_field_data_total:
  assumes "slice_ok (fd_data f)" "strings_safe (fd_data f)"
  shows "\<exists>e'. collect_field_data f e = Some e'"
proof -
  let ?base = "if fd_name f = [] then ascii ''field'' @ nat_digits (unat (fd_id f)) else fd_name f"
  obtain ss where "collect_proto_strings (fd_data f) 0 (el_proto_strings e) = Some ss"
    using assms(2) unfolding strings_safe_def by fastforce
  moreover obtain ps where "collect_proto_fields (fd_data f) 0 ?base (el_proto_fields e) = Some ps"
    using collect_fields_Some [OF assms(1)] by blast
  moreover obtain ts where "collect_ctx_tlvs (fd_data f) ?base (el_tlvs e) = Some ts"
    using tlvs_loop_spec [OF assms(1)] unfolding collect_ctx_tlvs_def by blast
  ultimately show ?thesis by (simp only: collect_field_data_def Let_def Option.bind.simps) simp
qed

lemma typed_element_total:
  assumes "slice_ok payload" "strings_safe payload"
  shows "\<exists>e. typed_element x pos t payload = Some e"
proof -
  obtain flds where fl: "(if starts_with_td_ta payload then Some [] else parse_fields t payload) = Some flds"
    "\<forall>f \<in> set flds. sublist (fd_data f) payload"
  proof -
    obtain fs where fs: "parse_fields t payload = Some fs" using parse_fields_total by blast
    then have "\<forall>f \<in> set fs. sublist (fd_data f) payload" using parse_fields_sublist by blast
    then show thesis using fs that [of "if starts_with_td_ta payload then [] else fs"] by simp
  qed
  obtain ss where ss: "collect_proto_strings payload 0 [] = Some ss"
    using assms(2) unfolding strings_safe_def by fastforce
  obtain ps where ps: "collect_proto_fields payload 0 [] [] = Some ps"
    using collect_fields_Some [OF assms(1)] by blast
  obtain ts where ts: "collect_ctx_tlvs payload (ascii ''payload'') [] = Some ts"
    using tlvs_loop_spec [OF assms(1)] unfolding collect_ctx_tlvs_def by blast
  have "\<exists>e1. try_fold collect_field_data flds e0 = Some e1" for e0
    using try_fold_invariant [of "\<lambda>_. True" e0 flds collect_field_data] collect_field_data_total fl(2)
      slice_ok_sublist [OF assms(1)] strings_safe_sublist [OF assms(2)] by blast
  then obtain E where E: "try_fold collect_field_data flds e0 = Some (E e0)" for e0 by metis
  obtain ms tds where "find_markers payload = Some ms" "parse_td_records (gb18030 x) payload = Some tds"
    using find_markers_total parse_td_records_total by meson
  then show ?thesis using ss ps ts E
    by (simp only: typed_element_def Let_def fl(1) Option.bind.simps) simp
qed

lemma raw_gap_element_total: "stop \<le> length data \<Longrightarrow> \<exists>r. raw_gap_element x data pos stop = Some r"
proof -
  assume le: "stop \<le> length data"
  show ?thesis
  proof (cases "pos < 32 \<or> stop \<le> pos \<or> stop - pos > 512")
    case False
    define payload where "payload = take (stop - pos) (drop pos data)"
    have p: "subslice data pos stop = Some payload" using False le by (simp add: subslice_def payload_def)
    obtain fs where fs: "parse_fields 0 payload = Some fs" using parse_fields_total by blast
    show ?thesis using False
      by (simp only: raw_gap_element_def p Option.bind.simps Let_def fs if_False if_cancel) auto
  qed (simp add: raw_gap_element_def)
qed

lemma next_start_bound:
  assumes "next_standard_element_start data pos m = Some (Some p)"
  shows "pos \<le> p \<and> p \<le> length data \<or> p = length data"
  using assms scan_start_spec [of data "min (length data) (saturating_add pos m)" pos]
  unfolding next_standard_element_start_def by (auto split: option.splits)

lemma next_start_total: "\<exists>r. next_standard_element_start data pos m = Some r"
  using scan_start_spec [of data "min (length data) (saturating_add pos m)" pos]
  unfolding next_standard_element_start_def by blast

lemma raw_record_len_total: "\<exists>r. raw_record_len_at data pos = Some r"
  using td_record_len_total [of data pos] ta_record_len_total [of data pos] by (simp add: raw_record_len_at_def)

lemma parse_step_total:
  assumes "slice_ok data" "strings_safe data" "pos + 3 \<le> length data"
  shows "\<exists>r. parse_step x data pos = Some r"
proof -
  define w where "w = le16_pair (data ! (pos + 1)) (data ! (pos + 2))"
  have w: "Option.bind (subslice data (pos + 1) (pos + 3)) le16 = Some w"
    using assms(3) le16_subslice [of "pos + 1" data "pos + 3"] by (simp add: w_def)
  have i: "idx data pos = Some (data ! pos)" "slice_from data pos = Some (drop pos data)"
    using assms(3) by (simp_all add: idx_def slice_from_def)
  obtain rl where rl: "raw_record_len_at data pos = Some rl" using raw_record_len_total by blast
  have sub: "slice_ok d \<and> strings_safe d" if "subslice data a b = Some d" for a b d
    using subslice_sublist [OF that] slice_ok_sublist [OF assms(1)] strings_safe_sublist [OF assms(2)] by blast
  have gap: "\<exists>r. raw_gap_element x data pos stop = Some r" if "stop \<le> length data" for stop
    using raw_gap_element_total [OF that] .
  show ?thesis
  proof (cases rl)
    case (Some n)
    then have b: "pos + n \<le> length data" using raw_record_len_bounds [of data pos n] rl by simp
    obtain ms tds where "find_markers (take n (drop pos data)) = Some ms"
      "parse_td_records (gb18030 x) (take n (drop pos data)) = Some tds"
      using find_markers_total parse_td_records_total by meson
    then show ?thesis using rl Some b
      by (simp add: parse_step_def raw_record_element_def subslice_def Let_def)
  next
    case None
    let ?n = "unat w"
    obtain nxt where nxt: "next_standard_element_start data (pos + 1) 1024 = Some nxt"
      using next_start_total by blast
    have ng: "\<exists>r. raw_gap_element x data pos p = Some r" if "nxt = Some p" for p
      using next_start_bound [of data "pos + 1" 1024 p] nxt that gap by auto
    show ?thesis
    proof (cases "?n > length data - pos - 3")
      case True
      then show ?thesis
        unfolding parse_step_def Let_def rl None w i Option.bind.simps option.case nxt
        using ng by (auto split: option.splits)
    next
      case False
      then have le: "pos + 3 + ?n \<le> length data" using assms(3) by simp
      then have p: "subslice data (pos + 3) (pos + 3 + ?n) = Some (take ?n (drop (pos + 3) data))"
        by (simp add: subslice_def)
      obtain e where e: "typed_element x pos (data ! pos) (take ?n (drop (pos + 3) data)) = Some e"
        using typed_element_total sub [OF p] by blast
      obtain g where g: "raw_gap_element x data pos (pos + 3 + ?n) = Some g" using gap [OF le] by blast
      show ?thesis
        unfolding parse_step_def Let_def rl None w i Option.bind.simps option.case nxt p e g
        using ng by (auto split: option.splits)
    qed
  qed
qed

lemma msg_loop_total:
  assumes "slice_ok data" "strings_safe data"
  shows "\<exists>res. msg_loop x data pos out = Some res"
proof (induction "length data - pos" arbitrary: pos out rule: less_induct)
  case less
  show ?case
  proof (cases "pos + 3 \<le> length data")
    case False
    then show ?thesis by (subst msg_loop.simps) simp
  next
    case True
    obtain es pos' where s: "parse_step x data pos = Some (es, pos')"
      using parse_step_total [OF assms True] by (metis surj_pair)
    have "length data - pos' < length data - pos" using parse_step_forward [OF s] True by simp
    from less.hyps [OF this] show ?thesis using True s by (subst msg_loop.simps) simp
  qed
qed

text \<open>Bytes below 0x80 are varints of their own, so nothing overflows.\<close>

lemma read_varint_small:
  assumes "off < length data" "data ! off < 0x80"
  shows "read_varint data off = (Some (ucast (data ! off)), off + 1)"
proof -
  have u: "unat (data ! off) < 128" using assms(2) by (simp add: word_less_nat_alt)
  have "data ! off AND 0x80 = 0" unfolding and_128_eq_0 by (rule u)
  moreover have "data ! off AND 0x7F = data ! off"
    by (rule u8_eqI) (use u in \<open>simp add: unat_and_127\<close>)
  ultimately show ?thesis using assms(1)
    by (simp add: read_varint_def varint_loop_eval [of 10])
qed

lemma strings_loop_small:
  assumes "slice_ok data" "\<forall>b \<in> set data. b < 0x80"
    "\<And>d out. set d \<subseteq> set data \<Longrightarrow> slice_ok d \<Longrightarrow> nest d out \<noteq> None"
  shows "strings_loop nest data off seen out \<noteq> None"
proof (induction "length data - off" arbitrary: off seen out rule: less_induct)
  case less
  show ?case
  proof (cases "off < length data \<and> seen < 80")
    case False
    then show ?thesis by (subst strings_loop.simps) auto
  next
    case True
    let ?key = "ucast (data ! off) :: u64"
    have k: "read_varint data off = (Some ?key, off + 1)"
      using True assms(2) by (intro read_varint_small) auto
    have IH: "strings_loop nest data off' s o' \<noteq> None" if "off < off'" for off' s o'
      using that True by (intro less.hyps) auto
    have two: "\<exists>out'. read_varint data (off + 1) = (None, off2) \<or> (\<exists>v. read_varint data (off + 1) = (Some v, off2)
        \<and> unat v < 256 \<and> off2 = off + 2)" if "read_varint data (off + 1) = (r, off2)" for r off2
    proof (cases "off + 1 < length data")
      case True
      have "unat (ucast b :: u64) < 256" for b :: u8
        using unat_u8_less [of b] by (simp add: unsigned_ucast_eq take_bit_nat_eq_self del: unat_u8_less)
      then show ?thesis using that read_varint_small [OF True] assms(2) True by auto
    next
      case False
      then show ?thesis using that by (auto simp: read_varint_def varint_loop_eval [of 10])
    qed
    obtain r off2 where r: "read_varint data (off + 1) = (r, off2)" by (cases "read_varint data (off + 1)")
    have len: "\<not> (off2 + unat v > length data) \<Longrightarrow> Option.bind (subslice data off2 (off2 + unat v))
        (\<lambda>bs. Option.bind (nest bs (f bs)) (strings_loop nest data (off2 + unat v) (seen + 1))) \<noteq> None"
      if "r = Some v" for v f
    proof -
      assume le: "\<not> (off2 + unat v > length data)"
      define bs where "bs = take (unat v) (drop off2 data)"
      have "set bs \<subseteq> set data" by (auto simp: bs_def dest: in_set_takeD in_set_dropD)
      then have "nest bs (f bs) \<noteq> None"
        using assms(1,3) slice_ok_take_drop [OF assms(1)] by (simp add: bs_def)
      then obtain o' where "nest bs (f bs) = Some o'" by blast
      moreover have "off < off2 + unat v" using two [OF r] that r by auto
      ultimately show ?thesis using IH [of "off2 + unat v" "seen + 1" o'] le by (auto simp: subslice_def bs_def)
    qed
    have add: "uadd off2 (unat v) = Some (off2 + unat v)" if "r = Some v" for v
      using two [OF r] that r True slice_ok_limit [OF assms(1)] assms(1)
      by (auto simp: uadd_def usize_limit_def slice_ok_def)
    consider "?key = 0 \<or> ?key AND 7 \<notin> {0, 1, 2, 5}" | "?key \<noteq> 0" "?key AND 7 = 0" | "?key \<noteq> 0" "?key AND 7 = 1"
      | "?key \<noteq> 0" "?key AND 7 = 2" | "?key \<noteq> 0" "?key AND 7 = 5" by auto
    then show ?thesis
    proof cases
      case 1
      then show ?thesis using True k by (subst strings_loop.simps) (auto simp: Let_def)
    next
      case 2
      then show ?thesis using True k r IH [of off2] two [OF r]
        by (subst strings_loop.simps) (auto simp: Let_def split: option.splits)
    next
      case 3
      then show ?thesis using True k IH by (subst strings_loop.simps) (simp add: Let_def)
    next
      case 4
      show ?thesis
      proof (cases r)
        case None
        then show ?thesis using True k r 4 by (subst strings_loop.simps) (simp add: Let_def)
      next
        case (Some v)
        show ?thesis using True 4 len [OF Some] add [OF Some]
          by (subst strings_loop.simps)
             (simp only: k r Some prod.case option.case Let_def Option.bind.simps if_False if_True
                simp_thms zero_neq_numeral numeral_eq_one_iff split: if_split, simp)
      qed
    next
      case 5
      then show ?thesis using True k IH by (subst strings_loop.simps) (simp add: Let_def)
    qed
  qed
qed

lemma collect_strings_small:
  "slice_ok data \<Longrightarrow> \<forall>b \<in> set data. b < 0x80 \<Longrightarrow> collect_strings k data out \<noteq> None"
proof (induction k arbitrary: data out)
  case (Suc k)
  then show ?case using strings_loop_small [of data "collect_strings k" 0 0 out] by (auto simp: subset_iff)
qed simp

lemma strings_safe_small: "slice_ok data \<Longrightarrow> \<forall>b \<in> set data. b < 0x80 \<Longrightarrow> strings_safe data"
  unfolding strings_safe_def collect_proto_strings_def
  by (meson collect_strings_small set_mono_sublist slice_ok_sublist subsetD)

section \<open>A writer of messages\<close>

type_synonym item = "u8 \<times> bytes"

definition item_ok :: "item \<Rightarrow> bool" where
  "item_ok it = (case it of (t, payload) \<Rightarrow>
     valid_element_type t \<and> length payload < 2 ^ 16 \<and> (t = 1 \<longrightarrow> length payload < 1024)
     \<and> (3 \<le> length payload \<or> payload = [] \<and> t \<in> {0x0E, 0x12}))"

definition encode_item :: "item \<Rightarrow> bytes" where
  "encode_item it = [fst it] @ nat_le 2 (length (snd it)) @ snd it"

definition encode_items :: "item list \<Rightarrow> bytes" where
  "encode_items items = concat (map encode_item items)"

text \<open>The elements the parser makes of the items, one after the other from \<open>pos\<close> on; \<open>None\<close> where one
  of them would not be useful.\<close>

fun item_elements :: "externals \<Rightarrow> nat \<Rightarrow> item list \<Rightarrow> element list option" where
  "item_elements x pos [] = Some []"
| "item_elements x pos ((t, payload) # items) = do {
     e \<leftarrow> typed_element x pos t payload;
     if useful_element e then do {
       es \<leftarrow> item_elements x (pos + 3 + length payload) items;
       Some (e # es) } else None }"

text \<open>What the readers find at the start of an item.\<close>

lemma item_header:
  assumes "item_ok (t, payload)" "data = pre @ encode_item (t, payload) @ rest"
  shows "raw_record_len_at data (length pre) = Some None" "idx data (length pre) = Some t"
    "slice_from data (length pre) = Some (drop (length pre) data)"
    "\<exists>w. Option.bind (subslice data (length pre + 1) (length pre + 3)) le16 = Some w \<and> unat w = length payload"
    "length data = length pre + 3 + length payload + length rest"
proof -
  let ?pos = "length pre"
  have ok: "valid_element_type t" "length payload < 2 ^ 16"
    using assms(1) by (auto simp: item_ok_def)
  have d: "drop ?pos data = t # nat_le 2 (length payload) @ payload @ rest" "data ! ?pos = t"
    "length data = ?pos + 3 + length payload + length rest"
    using assms(2) by (simp_all add: encode_item_def nth_append)
  then show "length data = ?pos + 3 + length payload + length rest"
    "idx data ?pos = Some t" "slice_from data ?pos = Some (drop ?pos data)"
    by (simp_all add: idx_def slice_from_def)
  have "subslice data (?pos + 1) (?pos + 3) = Some (nat_le 2 (length payload))"
    using assms(2) by (intro subslice_at [where pre = "pre @ [t]" and rest = "payload @ rest"])
      (simp_all add: encode_item_def)
  then show "\<exists>w. Option.bind (subslice data (?pos + 1) (?pos + 3)) le16 = Some w \<and> unat w = length payload"
    using le16_nat_le [OF ok(2)] by auto
  have "t \<noteq> 0x54" using ok(1) by (auto simp: valid_element_type_def)
  then have "\<not> starts_with (drop ?pos data) td_marker" "\<not> starts_with (drop ?pos data) ta_marker"
    unfolding d(1) by (simp_all add: starts_with_prefix td_marker_def ta_marker_def)
  then show "raw_record_len_at data ?pos = Some None" by (simp add: raw_record_len_at_def)
qed

lemma parse_step_item:
  assumes "item_ok (t, payload)" "data = pre @ encode_item (t, payload) @ rest"
    "typed_element x (length pre) t payload = Some e" "useful_element e"
  shows "parse_step x data (length pre) = Some ([e], length pre + 3 + length payload)"
proof -
  let ?pos = "length pre"
  note h = item_header [OF assms(1,2)]
  obtain w where w: "Option.bind (subslice data (?pos + 1) (?pos + 3)) le16 = Some w" "unat w = length payload"
    using h(4) by blast
  have p: "subslice data (?pos + 3) (?pos + 3 + length payload) = Some payload"
    using assms(2) by (intro subslice_at [where pre = "pre @ [t] @ nat_le 2 (length payload)" and rest = rest])
      (simp_all add: encode_item_def)
  have nodelta: "(if t = 1 \<and> 1024 \<le> unat w then near_td_ta_marker_delta (drop ?pos data) 8 else None) = None"
    using assms(1) w(2) by (auto simp: item_ok_def)
  have good: "\<not> (\<not> valid_element_type t \<or> \<not> (unat w = 0 \<and> t \<in> {0x0E, 0x12}) \<and> unat w < 3
      \<or> length data - ?pos - 3 < unat w)"
    using assms(1) w(2) h(5) by (auto simp: item_ok_def)
  show ?thesis
    unfolding parse_step_def Let_def h(1-3) w(1) Option.bind.simps option.case nodelta
    using good by (simp only: if_False w(2) p assms(3,4) Option.bind.simps if_True)
qed

lemma msg_loop_items:
  assumes "\<forall>it \<in> set items. item_ok it" "item_elements x (length pre) items = Some es"
  shows "msg_loop x (pre @ encode_items items) (length pre) out = Some (out @ es)"
  using assms
proof (induction items arbitrary: pre out es)
  case Nil
  then show ?case by (subst msg_loop.simps) (simp add: encode_items_def)
next
  case (Cons it items)
  obtain t payload where it: "it = (t, payload)" by (cases it)
  from Cons.prems(2) obtain e es' where e: "typed_element x (length pre) t payload = Some e" "useful_element e"
    "item_elements x (length pre + 3 + length payload) items = Some es'" "es = e # es'"
    by (auto simp: it bind_eq_Some_conv split: if_splits)
  let ?data = "pre @ encode_items (it # items)" and ?pre = "pre @ encode_item it"
  have d: "?data = ?pre @ encode_items items" by (simp add: encode_items_def)
  have len: "length ?pre = length pre + 3 + length payload" by (simp add: it encode_item_def)
  have "parse_step x ?data (length pre) = Some ([e], length ?pre)"
    using parse_step_item [of t payload ?data pre "encode_items items" x e] e(1,2) Cons.prems(1) d len
    by (simp add: it)
  moreover have "msg_loop x (?pre @ encode_items items) (length ?pre) (out @ [e]) = Some ((out @ [e]) @ es')"
    using Cons.prems(1) e(3) by (intro Cons.IH) (simp_all only: len, simp)
  moreover have "length pre + 3 \<le> length ?data" by (simp add: it encode_items_def encode_item_def)
  ultimately show ?case using e(4) d by (subst msg_loop.simps) simp
qed

section \<open>Properties\<close>

text \<open>Libraries that decode nothing, for the concrete instances.\<close>

definition no_externals :: externals where
  "no_externals = \<lparr>gb18030 = \<lambda>_. None, inflate = \<lambda>_. None, json_from_str = \<lambda>_. None\<rparr>"

lemma face_message_safe:
  "slice_ok ([2, 4, 0, 1, 1, 0, 14] :: bytes)" "strings_safe [2, 4, 0, 1, 1, 0, 14]"
proof -
  show s: "slice_ok ([2, 4, 0, 1, 1, 0, 14] :: bytes)" by (simp add: slice_ok_def)
  show "strings_safe [2, 4, 0, 1, 1, 0, 14]" by (rule strings_safe_small [OF s]) simp
qed

text \<open>C10.  The only way \<open>parse_msgcontent\<close> can panic is a panic of the string collector on some
  part of the message: where that collector is safe on every sublist of the bytes, the parser
  returns its elements, whatever the bytes and the libraries do.\<close>

theorem parse_msgcontent_safe:
  assumes "slice_ok data" "strings_safe data"
  shows "\<exists>out. parse_msgcontent x data = Some out"
proof -
  obtain res where "msg_loop x data
      (if length data \<ge> 20 \<and> starts_with data (ascii_bytes ''MSG'') then 20 else 0) [] = Some res"
    using msg_loop_total [OF assms] by blast
  then show ?thesis by (simp only: parse_msgcontent_def Option.bind.simps) blast
qed

theorem parse_msgcontent_safe_witness:
  "\<exists>out. parse_msgcontent no_externals [2, 4, 0, 1, 1, 0, 14] = Some out"
  by (rule parse_msgcontent_safe [OF face_message_safe])

text \<open> It does panic: a text element of 11 bytes whose payload reads as a protobuf field with the
  length \<open>2 ^ 64 - 1\<close> aborts the parser, for any libraries.\<close>

theorem parse_msgcontent_panics:
  "parse_msgcontent x
     [1, 11, 0, 0x0A, 0xFF, 0xFF, 0xFF, 0xFF, 0xFF, 0xFF, 0xFF, 0xFF, 0xFF, 0x01] = None"
proof -
  let ?p = "[0x0A, 0xFF, 0xFF, 0xFF, 0xFF, 0xFF, 0xFF, 0xFF, 0xFF, 0xFF, 0x01] :: bytes"
  let ?d = "[1, 11, 0, 0x0A, 0xFF, 0xFF, 0xFF, 0xFF, 0xFF, 0xFF, 0xFF, 0xFF, 0xFF, 0x01] :: bytes"
  obtain fs where fs: "parse_fields 1 ?p = Some fs" using parse_fields_total by blast
  have "collect_proto_strings ?p 0 [] = None"
    unfolding collect_proto_strings_def
    by (simp add: strings_loop.simps read_varint_def varint_loop_eval numeral_3_eq_3 uadd_def usize_limit_def)
  then have t: "typed_element x 0 1 ?p = None"
    by (simp add: typed_element_def fs starts_with_td_ta_def)
  have w: "Option.bind (subslice ?d (0 + 1) (0 + 3)) le16 = Some 11"
    by (simp add: subslice_def le16_pair_def)
  have r: "raw_record_len_at ?d 0 = Some None" "idx ?d 0 = Some 1" "slice_from ?d 0 = Some ?d"
    by (simp_all add: raw_record_len_at_def starts_with_def td_marker_def ta_marker_def idx_def slice_from_def)
  have p: "subslice ?d (0 + 3) (0 + 3 + 11) = Some ?p"
    by (simp add: subslice_def)
  have "parse_step x ?d 0 = None"
    unfolding parse_step_def Let_def r w Option.bind.simps option.case using p t
    by (simp add: valid_element_type_def)
  then show ?thesis
    unfolding parse_msgcontent_def by (subst msg_loop.simps) (simp add: starts_with_def ascii_bytes_def)
qed

text \<open>C9.  The elements tile the message. Apart from the elements for embedded paths, which are only
  added when no other element has a summary, every element names the bytes it was read from: a typed
  element its type byte, its 16-bit length and its payload, with a valid type and at least three
  bytes unless it is a metadata element; a raw one its payload. They come in the order of the message
  and do not overlap.\<close>

theorem parse_msgcontent_tiles:
  assumes "parse_msgcontent x data = Some out"
  shows "\<exists>es emb. out = es @ emb \<and> (\<forall>e \<in> set es. element_of data e \<and> element_end e \<le> length data)
     \<and> sorted_wrt (\<lambda>e e'. element_end e \<le> el_offset e') es
     \<and> (emb \<noteq> [] \<longrightarrow> emb = embedded_visible_elements data \<and> (\<forall>e \<in> set es. el_summary e = []))"
proof -
  from assms obtain es p where es: "msg_loop x data p [] = Some es"
    "out = (if \<not> (\<exists>e \<in> set es. el_summary e \<noteq> []) \<and> transport_only_label es = []
            then es @ embedded_visible_elements data else es)"
    unfolding parse_msgcontent_def by (auto simp: bind_eq_Some_conv)
  from msg_loop_sound [OF es(1)] show ?thesis
    by (intro exI [of _ es] exI [of _ "drop (length es) out"]) (auto simp: es(2))
qed

theorem parse_msgcontent_tiles_witness:
  "\<exists>out es emb. parse_msgcontent no_externals [2, 4, 0, 1, 1, 0, 14] = Some out \<and> out = es @ emb
     \<and> sorted_wrt (\<lambda>e e'. element_end e \<le> el_offset e') es"
proof -
  obtain out where "parse_msgcontent no_externals [2, 4, 0, 1, 1, 0, 14] = Some out"
    using msg_loop_total [OF face_message_safe, of no_externals 0 "[]"]
    unfolding parse_msgcontent_def by (auto simp: starts_with_def ascii_bytes_def)
  with parse_msgcontent_tiles [OF this] show ?thesis by blast
qed

text \<open> The scan for the next element start returns the first position from \<open>pos\<close> on, within
  \<open>max_scan\<close> bytes, where an element or record fits, and the end of the data when the scan reaches the
  end without one; it never panics.\<close>

theorem next_standard_element_start_least:
  "\<exists>r. next_standard_element_start data pos max_scan = Some r \<and>
     (case r of
        Some p \<Rightarrow> (pos \<le> p \<and> p + 3 \<le> length data \<and> p + 3 \<le> saturating_add pos max_scan
              \<and> standard_element_len_at data p \<noteq> Some None
              \<and> (\<forall>q. pos \<le> q \<and> q < p \<longrightarrow> standard_element_len_at data q = Some None))
            \<or> (p = length data \<and> length data \<le> saturating_add pos max_scan
              \<and> (\<forall>q. pos \<le> q \<and> q + 3 \<le> length data \<longrightarrow> standard_element_len_at data q = Some None))
      | None \<Rightarrow> saturating_add pos max_scan < length data
            \<and> (\<forall>q. pos \<le> q \<and> q + 3 \<le> saturating_add pos max_scan \<longrightarrow> standard_element_len_at data q = Some None))"
proof -
  let ?stop = "min (length data) (saturating_add pos max_scan)"
  obtain r where r: "scan_start data ?stop pos = Some r" using scan_start_spec by blast
  note sp = scan_start_spec [of data ?stop pos, unfolded r option.inject]
  show ?thesis
    unfolding next_standard_element_start_def r option.inject
    using sp by (intro exI [of _ r]) (cases r; auto simp: min_def split: if_splits)
qed

theorem next_standard_element_start_least_witness:
  "\<exists>r. next_standard_element_start [9, 9, 0x0E, 0, 0] 0 1024 = Some r \<and>
     (case r of
        Some p \<Rightarrow> (0 \<le> p \<and> p + 3 \<le> length [9, 9, 0x0E, 0, 0 :: u8] \<and> p + 3 \<le> saturating_add 0 1024
              \<and> standard_element_len_at [9, 9, 0x0E, 0, 0] p \<noteq> Some None
              \<and> (\<forall>q. 0 \<le> q \<and> q < p \<longrightarrow> standard_element_len_at [9, 9, 0x0E, 0, 0] q = Some None))
            \<or> (p = length [9, 9, 0x0E, 0, 0 :: u8] \<and> length [9, 9, 0x0E, 0, 0 :: u8] \<le> saturating_add 0 1024
              \<and> (\<forall>q. 0 \<le> q \<and> q + 3 \<le> length [9, 9, 0x0E, 0, 0 :: u8]
                    \<longrightarrow> standard_element_len_at [9, 9, 0x0E, 0, 0] q = Some None))
      | None \<Rightarrow> saturating_add 0 1024 < length [9, 9, 0x0E, 0, 0 :: u8]
            \<and> (\<forall>q. 0 \<le> q \<and> q + 3 \<le> saturating_add 0 1024
                  \<longrightarrow> standard_element_len_at [9, 9, 0x0E, 0, 0] q = Some None))"
  by (rule next_standard_element_start_least)

lemma parse_items_back:
  assumes "\<forall>it \<in> set items. item_ok it" "item_elements x (length hdr) items = Some es"
    "hdr = [] \<or> length hdr = 20 \<and> starts_with hdr (ascii_bytes ''MSG'')" "\<exists>e \<in> set es. el_summary e \<noteq> []"
  shows "parse_msgcontent x (hdr @ encode_items items) = Some es"
proof -
  have msg: "starts_with (hdr @ encode_items items) (ascii_bytes ''MSG'')" if "length hdr = 20" "starts_with hdr (ascii_bytes ''MSG'')"
    using that by (auto simp: starts_with_prefix)
  have "\<not> starts_with (encode_items items) (ascii_bytes ''MSG'')"
  proof (cases items)
    case (Cons it r)
    then have "valid_element_type (fst it)" using assms(1) by (auto simp: item_ok_def)
    then show ?thesis using Cons
      by (auto simp: encode_items_def encode_item_def starts_with_prefix ascii_bytes_def valid_element_type_def)
  qed (simp add: encode_items_def starts_with_def ascii_bytes_def)
  then have start: "(if length (hdr @ encode_items items) \<ge> 20 \<and> starts_with (hdr @ encode_items items) (ascii_bytes ''MSG'')
      then 20 else 0) = length hdr"
    using assms(3) msg by auto
  have "msg_loop x (hdr @ encode_items items) (length hdr) [] = Some ([] @ es)"
    using msg_loop_items [OF assms(1,2)] .
  then show ?thesis unfolding parse_msgcontent_def start using assms(4) by auto
qed

text \<open>C1.  Round trip: a message written as a sequence of well-formed elements, with or without the
  20-byte header, is parsed into exactly these elements in order, provided each is useful and some
  element has a summary.\<close>

theorem parse_msgcontent_roundtrip:
  assumes "\<forall>it \<in> set items. item_ok it" "item_elements x (length hdr) items = Some es"
    "hdr = [] \<or> length hdr = 20 \<and> starts_with hdr (ascii_bytes ''MSG'')" "\<exists>e \<in> set es. el_summary e \<noteq> []"
  shows "parse_msgcontent x (hdr @ encode_items items) = Some es"
  by (rule parse_items_back [OF assms])

lemma face_element:
  "\<exists>e. typed_element x pos 2 [1, 1, 0, n] = Some e \<and> el_summary e = face_text n \<and> el_typ e = 2
     \<and> el_payload e = [1, 1, 0, n] \<and> useful_element e"
proof -
  let ?p = "[1, 1, 0, n]"
  have m: "find_markers ?p = Some []"
    by (simp add: find_markers_def marker_record_len_def starts_with_def td_marker_def ta_marker_def slice_from_def)
  have l: "looks_like_proto ?p = False"
    by (simp add: looks_like_proto_def proto_scan.simps read_varint_def varint_loop_eval)
  obtain fs where fs: "parse_fields 2 ?p = Some fs" "fs = [elem_field_of 2 (1, [n])]"
    using parse_fields_exact_aux [of ?p "[(1, [n])]" "[]" 2]
    by (simp add: encode_elem_field_def field_ok_def field_stop_def nat_le_2)
  have ss: "collect_proto_strings ?p 0 [] = Some []"
    by (simp add: collect_proto_strings_def numeral_3_eq_3 strings_loop.simps read_varint_def varint_loop_eval)
  have ps: "collect_proto_fields ?p 0 [] [] = Some []"
    using l by (simp add: collect_proto_fields_def numeral_eq_Suc)
  have ts: "collect_ctx_tlvs ?p src [] = Some []" for src
    using tlvs_loop_step [of 0 ?p src 0 "[]"]
    by (simp add: collect_ctx_tlvs_def Let_def be16_pair_swap unat_le16_pair numeral_2_eq_2)
  have fld: "collect_field_data (elem_field_of 2 (1, [n])) e = Some e" for e
    by (simp add: collect_field_data_def elem_field_of_def collect_proto_strings_def collect_proto_fields_def
        numeral_3_eq_3 numeral_eq_Suc collect_ctx_tlvs_def tlvs_loop.simps)
  have raw: "starts_with_td_ta ?p = False" by (simp add: starts_with_td_ta_def)
  show ?thesis
    using fs by (auto simp: typed_element_def raw Let_def ss ps ts m fld default_element_def
      summarize_element_def first_txdata_named_text_def txdata_named_texts_def complete_txdata_fields_def
      useful_element_def face_text_name)
qed

text \<open> A system face on its own: the seven bytes of its element are parsed into one element that shows
  the label of that face and has its number, for every face number.\<close>

theorem face_message:
  "\<exists>e. parse_msgcontent x (encode_items [(2, [1, 1, 0, n])]) = Some [e]
     \<and> el_summary e = face_text n \<and> sysface_id e = Some n"
proof -
  obtain e where e: "typed_element x 0 2 [1, 1, 0, n] = Some e" "el_summary e = face_text n" "el_typ e = 2"
    "el_payload e = [1, 1, 0, n]" "useful_element e" using face_element by blast
  have "item_elements x 0 [(2, [1, 1, 0, n])] = Some [e]" using e(1,5) by simp
  then have "parse_msgcontent x ([] @ encode_items [(2, [1, 1, 0, n])]) = Some [e]"
    using e(2) by (intro parse_items_back) (simp_all add: item_ok_def valid_element_type_def face_text_name)
  then show ?thesis using e by (simp add: sysface_id_def)
qed

theorem parse_msgcontent_roundtrip_witness:
  "\<exists>es. parse_msgcontent no_externals ([] @ encode_items [(2, [1, 1, 0, 14])]) = Some es \<and> es \<noteq> []"
proof -
  obtain e where e: "typed_element no_externals 0 2 [1, 1, 0, 14] = Some e" "el_summary e = face_text 14"
    "useful_element e" using face_element by blast
  have "item_elements no_externals (length []) [(2, [1, 1, 0, 14])] = Some [e]" using e(1,3) by simp
  from parse_msgcontent_roundtrip [OF _ this] show ?thesis
    using e(2) by (simp add: item_ok_def valid_element_type_def face_text_name)
qed

lemma typed_element_parts:
  assumes "typed_element x pos t payload = Some e" "\<not> starts_with_td_ta payload" "find_markers payload = Some []"
    "parse_fields t payload = Some flds"
  shows "\<exists>e2. e = e2\<lparr>el_summary := summarize_element x e2\<rparr> \<and> el_typ e2 = t \<and> el_payload e2 = payload
     \<and> el_fields e2 = flds \<and> el_td_records e2 = []"
proof -
  from assms obtain e0 e1 where f: "try_fold collect_field_data flds e0 = Some e1"
    "el_typ e0 = t \<and> el_payload e0 = payload \<and> el_fields e0 = flds"
    "e = (e1\<lparr>el_markers := [], el_td_records := []\<rparr>)
           \<lparr>el_summary := summarize_element x (e1\<lparr>el_markers := [], el_td_records := []\<rparr>)\<rparr>"
    by (auto simp: typed_element_def Let_def bind_eq_Some_conv)
  then have "el_typ e1 = t \<and> el_payload e1 = payload \<and> el_fields e1 = flds"
    using try_fold_preserves [of collect_field_data flds e0 e1
        "\<lambda>e. el_typ e = t \<and> el_payload e = payload \<and> el_fields e = flds"] collect_field_data_keeps by metis
  then show ?thesis using f(3) by (intro exI [of _ "e1\<lparr>el_markers := [], el_td_records := []\<rparr>"]) simp
qed

definition text_payload :: "str \<Rightarrow> bytes" where
  "text_payload t = encode_elem_field (1, utf16_encode_bytes t)"

definition plain_chars :: "str \<Rightarrow> bool" where
  "plain_chars t = (t \<noteq> [] \<and> (\<forall>c \<in> set t. scalar_value c \<and> c \<noteq> 0xFFFD \<and> \<not> text_control c))"

lemma text_field:
  assumes "plain_chars t"
  shows "parse_field_text 1 1 (utf16_encode_bytes t) = t"
proof -
  have z: "\<forall>c \<in> set t. scalar_value c \<and> c \<noteq> 0" using assms by (auto simp: plain_chars_def text_control_def)
  have ne: "t \<noteq> []" "\<forall>c \<in> set t. \<not> text_control c" "0xFFFD \<notin> set t" using assms by (auto simp: plain_chars_def)
  have "dropWhile text_control t = t" using ne by (cases t) auto
  then show ?thesis
    using utf16_encode_ne [OF ne(1)] even_utf16_encode [of t] utf16le_to_string_encode [OF z] ne
    by (simp add: parse_field_text_def Let_def even_iff_mod_2_eq_zero)
qed

text \<open> A text message on its own: a text of scalar values without control characters, written in
  UTF-16 into the text field of one element, is parsed into one element whose summary is that
  text, unless its bytes trip the string collector or contain a TD or TA record.\<close>

theorem text_message:
  assumes "plain_chars t" "length (utf16_encode_bytes t) \<le> 1020" "strings_safe (text_payload t)"
    "find_markers (text_payload t) = Some []"
  shows "\<exists>e. parse_msgcontent x (encode_items [(1, text_payload t)]) = Some [e] \<and> el_summary e = t"
proof -
  let ?p = "text_payload t"
  have ne: "t \<noteq> []" "0xFFFD \<notin> set t" using assms(1) by (auto simp: plain_chars_def)
  have len: "length ?p = 3 + length (utf16_encode_bytes t)" by (simp add: text_payload_def encode_elem_field_def)
  have pf: "parse_fields 1 ?p = Some [elem_field_of 1 (1, utf16_encode_bytes t)]"
    using assms(2) parse_fields_exact_aux [of ?p "[(1, utf16_encode_bytes t)]" "[]" 1]
    by (simp add: text_payload_def field_ok_def field_stop_def)
  have raw: "\<not> starts_with_td_ta ?p"
    by (simp add: text_payload_def encode_elem_field_def starts_with_td_ta_def)
  obtain e where e: "typed_element x 0 1 ?p = Some e"
    using typed_element_total [of ?p x 0 1] assms(2,3) len by (auto simp: slice_ok_def)
  obtain e2 where e2: "e = e2\<lparr>el_summary := summarize_element x e2\<rparr>" "el_typ e2 = 1"
    "el_fields e2 = [elem_field_of 1 (1, utf16_encode_bytes t)]" "el_td_records e2 = []"
    using typed_element_parts [OF e raw assms(4) pf] by blast
  have sum: "summarize_element x e2 = t"
    using e2(2-4) text_field [OF assms(1)] ne
    by (simp add: summarize_element_def first_txdata_named_text_def txdata_named_texts_def
        complete_txdata_fields_def first_text_def elem_field_of_def)
  then have "useful_element e" using e2 ne by (simp add: useful_element_def)
  then have "item_elements x (length []) [(1, ?p)] = Some [e]" using e by simp
  then have "parse_msgcontent x ([] @ encode_items [(1, ?p)]) = Some [e]"
    using assms(2) len sum ne(1) e2(1)
    by (intro parse_items_back) (simp_all add: item_ok_def valid_element_type_def)
  then show ?thesis using sum e2(1) by simp
qed

theorem text_message_witness:
  "\<exists>e. parse_msgcontent no_externals (encode_items [(1, text_payload [0x68, 0x69])]) = Some [e]
     \<and> el_summary e = [0x68, 0x69]"
proof (rule text_message)
  have p: "text_payload [0x68, 0x69] = [1, 4, 0, 0x68, 0, 0x69, 0]"
    by (simp add: text_payload_def encode_elem_field_def utf16_encode_bytes_def nat_le_2)
  show "plain_chars [0x68, 0x69]" by (simp add: plain_chars_def scalar_value_def text_control_def)
  show "length (utf16_encode_bytes [0x68, 0x69]) \<le> 1020" by (simp add: utf16_encode_bytes_def)
  show "strings_safe (text_payload [0x68, 0x69])"
    unfolding p by (rule strings_safe_small) (simp_all add: slice_ok_def)
  show "find_markers (text_payload [0x68, 0x69]) = Some []"
    unfolding p by (simp add: find_markers_def marker_record_len_def starts_with_def td_marker_def
        ta_marker_def slice_from_def upt_rec)
qed

end
