(* ===== verification/Outcome.thy ===== *)
theory Outcome imports Prelude begin

text \<open>
  Functions that return \<open>Result<T, E>\<close> and may also panic. A computation is \<open>Ok\<close> with its
  value, \<open>Err\<close> with the error the code builds, or \<open>Panic\<close>; \<open>and_then\<close> is the \<open>?\<close> operator,
  \<open>or_panic\<close> embeds the checked operations of the prelude.
\<close>

datatype ('e, 'a) outcome = Panic | Err 'e | Ok 'a

primrec and_then :: "('e, 'a) outcome \<Rightarrow> ('a \<Rightarrow> ('e, 'b) outcome) \<Rightarrow> ('e, 'b) outcome" where
  "and_then Panic f = Panic"
| "and_then (Err e) f = Err e"
| "and_then (Ok x) f = f x"

definition or_panic :: "'a option \<Rightarrow> ('e, 'a) outcome" where
  "or_panic x = (case x of Some y \<Rightarrow> Ok y | None \<Rightarrow> Panic)"

definition ok_or :: "'e \<Rightarrow> 'a option \<Rightarrow> ('e, 'a) outcome" where
  "ok_or e x = (case x of Some y \<Rightarrow> Ok y | None \<Rightarrow> Err e)"

definition map_ok :: "('a \<Rightarrow> 'b) \<Rightarrow> ('e, 'a) outcome \<Rightarrow> ('e, 'b) outcome" where
  "map_ok f x = and_then x (\<lambda>y. Ok (f y))"

text \<open>A loop whose body uses \<open>?\<close>.\<close>

fun ok_fold :: "('a \<Rightarrow> 's \<Rightarrow> ('e, 's) outcome) \<Rightarrow> 'a list \<Rightarrow> 's \<Rightarrow> ('e, 's) outcome" where
  "ok_fold f [] s = Ok s"
| "ok_fold f (x # xs) s = and_then (f x s) (ok_fold f xs)"

lemma or_panic_simps [simp]: "or_panic None = Panic" "or_panic (Some x) = Ok x"
  by (simp_all add: or_panic_def)

lemma ok_or_simps [simp]: "ok_or e None = Err e" "ok_or e (Some x) = Ok x"
  by (simp_all add: ok_or_def)

lemma and_then_Ok_iff: "and_then m f = Ok y \<longleftrightarrow> (\<exists>x. m = Ok x \<and> f x = Ok y)"
  by (cases m) auto

lemma and_then_Panic_iff: "and_then m f = Panic \<longleftrightarrow> m = Panic \<or> (\<exists>x. m = Ok x \<and> f x = Panic)"
  by (cases m) auto

lemma map_ok_simps [simp]: "map_ok f Panic = Panic" "map_ok f (Err e) = Err e" "map_ok f (Ok x) = Ok (f x)"
  by (simp_all add: map_ok_def)

lemma ok_fold_pure: "(\<And>x s. x \<in> set xs \<Longrightarrow> f x s = Ok (g x s)) \<Longrightarrow> ok_fold f xs s = Ok (fold g xs s)"
  by (induction xs arbitrary: s) auto

lemma ok_fold_no_panic: "(\<And>x s. x \<in> set xs \<Longrightarrow> f x s \<noteq> Panic) \<Longrightarrow> ok_fold f xs s \<noteq> Panic"
  by (induction xs arbitrary: s) (auto simp: and_then_Panic_iff)

lemma ok_fold_invariant:
  assumes "ok_fold f xs s = Ok s'" "P s" "\<And>x s s'. x \<in> set xs \<Longrightarrow> P s \<Longrightarrow> f x s = Ok s' \<Longrightarrow> P s'"
  shows "P s'"
  using assms by (induction xs arbitrary: s) (auto simp: and_then_Ok_iff)

text \<open>\<open>chunks_exact\<close> of a slice: whole chunks only, the rest is dropped.\<close>

function chunks_exact :: "nat \<Rightarrow> 'a list \<Rightarrow> 'a list list" where
  "chunks_exact n xs = (if n = 0 \<or> length xs < n then [] else take n xs # chunks_exact n (drop n xs))"
  by pat_completeness auto
termination by (relation "measure (\<lambda>(n, xs). length xs)") auto

declare chunks_exact.simps [simp del]

lemma chunks_exact_length: "0 < n \<Longrightarrow> length (chunks_exact n xs) = length xs div n"
proof (induction n xs rule: chunks_exact.induct)
  case (1 n xs)
  then show ?case
    by (cases "length xs < n") (auto simp: chunks_exact.simps [of n xs] le_div_geq)
qed

lemma chunks_exact_nth:
  "i < length xs div n \<Longrightarrow> 0 < n \<Longrightarrow> chunks_exact n xs ! i = take n (drop (n * i) xs)"
proof (induction n xs arbitrary: i rule: chunks_exact.induct)
  case (1 n xs)
  then have "\<not> length xs < n" by auto
  with 1 show ?case
    by (cases i) (auto simp: chunks_exact.simps [of n xs] le_div_geq add.commute)
qed

lemma chunks_exact_concat:
  "0 < n \<Longrightarrow> \<forall>x \<in> set xs. length x = n \<Longrightarrow> length r < n \<Longrightarrow> chunks_exact n (concat xs @ r) = xs"
  by (induction xs) (simp_all add: chunks_exact.simps)

lemma chunk_size: "c \<in> set (chunks_exact n xs) \<Longrightarrow> length c = n"
  by (induction n xs rule: chunks_exact.induct) (subst (asm) (2) chunks_exact.simps, auto split: if_splits)

end
