(* ===== verification/Cfb.thy ===== *)
theory Cfb imports Outcome Rust_Text begin

text \<open>
  The reader of compound files (\<open>cfb.rs\<close>): sectors, the file allocation table and its mini
  table, the directory, the contents of a stream, the listing of the streams, and the extraction
  of the streams to files.

  A file system is a map from absolute paths (lists of components) to directories and files.
  \<open>Err\<close> carries the error the code builds; a failure of the operating system that is not
  caused by the shape of the tree is outside the model.
\<close>

section \<open>Data\<close>

datatype cfb_error =
    Not_a_cfb_file
  | Header_too_short
  | Unsupported_sector_size nat
  | Read_u16_out_of_bounds nat
  | Read_u32_out_of_bounds nat
  | Invalid_directory_index nat
  | No_such_file "str list"
  | Not_a_directory "str list"
  | Is_a_directory "str list"

record dir_entry =
  de_name :: str
  de_typ :: u8
  de_left :: u32
  de_right :: u32
  de_child :: u32
  de_start :: u32
  de_size :: u64

record cfb_reader =
  cf_data :: bytes
  cf_sector_size :: nat
  cf_mini_sector_size :: nat
  cf_num_fat_sectors :: u32
  cf_first_directory_sector :: u32
  cf_mini_stream_cutoff :: u32
  cf_first_mini_fat_sector :: u32
  cf_num_mini_fat_sectors :: u32
  cf_first_difat_sector :: u32
  cf_num_difat_sectors :: u32
  cf_max_sector :: u32
  cf_fat :: "u32 list"
  cf_entries :: "dir_entry list"
  cf_mini_fat :: "u32 list"
  cf_root_mini_stream :: bytes

definition cfb_magic :: bytes where
  "cfb_magic = [0xD0, 0xCF, 0x11, 0xE0, 0xA1, 0xB1, 0x1A, 0xE1]"

definition freesect :: u32 where "freesect = 0xFFFFFFFF"

definition endofchain :: u32 where "endofchain = 0xFFFFFFFE"

definition no_stream :: u32 where "no_stream = 0xFFFFFFFF"

definition chain_end :: "u32 \<Rightarrow> bool" where
  "chain_end s = (s = freesect \<or> s = endofchain)"

definition is_cfb :: "bytes option \<Rightarrow> bool" where
  "is_cfb file = (case file of Some data \<Rightarrow> starts_with data cfb_magic | None \<Rightarrow> False)"

definition cfb_read_u16 :: "bytes \<Rightarrow> nat \<Rightarrow> (cfb_error, u16) outcome" where
  "cfb_read_u16 data off = map_ok u16_from_le (ok_or (Read_u16_out_of_bounds off) (subslice data off (off + 2)))"

definition cfb_read_u32 :: "bytes \<Rightarrow> nat \<Rightarrow> (cfb_error, u32) outcome" where
  "cfb_read_u32 data off = map_ok u32_from_le (ok_or (Read_u32_out_of_bounds off) (subslice data off (off + 4)))"

definition empty_dir_entry :: dir_entry where
  "empty_dir_entry = \<lparr>de_name = [], de_typ = 0, de_left = no_stream, de_right = no_stream,
     de_child = no_stream, de_start = freesect, de_size = 0\<rparr>"

section \<open>Sectors\<close>

definition valid_sector :: "cfb_reader \<Rightarrow> u32 \<Rightarrow> bool" where
  "valid_sector r sector = (sector \<le> cf_max_sector r)"

definition sector_bytes :: "cfb_reader \<Rightarrow> u32 \<Rightarrow> bytes" where
  "sector_bytes r sector =
     (if \<not> valid_sector r sector then []
      else let off = (unat sector + 1) * cf_sector_size r;
               stop = min (saturating_add off (cf_sector_size r)) (length (cf_data r))
           in (case subslice (cf_data r) off stop of Some b \<Rightarrow> b | None \<Rightarrow> []))"

text \<open>\<open>seen\<close> of the code holds exactly the numbers pushed so far.\<close>

definition difat_add :: "cfb_reader \<Rightarrow> u32 \<Rightarrow> u32 list \<Rightarrow> u32 list" where
  "difat_add r v ids = (if chain_end v then ids else if valid_sector r v then push_new ids v else ids)"

definition difat_entries :: "cfb_reader \<Rightarrow> bytes \<Rightarrow> nat \<Rightarrow> nat \<Rightarrow> u32 list \<Rightarrow> (cfb_error, u32 list) outcome" where
  "difat_entries r raw base n ids =
     ok_fold (\<lambda>i ids. and_then (cfb_read_u32 raw (base + i * 4)) (\<lambda>v. Ok (difat_add r v ids))) [0..<n] ids"

fun difat_loop :: "cfb_reader \<Rightarrow> nat \<Rightarrow> u32 \<Rightarrow> u32 set \<Rightarrow> u32 list \<Rightarrow> (cfb_error, u32 list) outcome" where
  "difat_loop r 0 sector visited ids = Ok ids"
| "difat_loop r (Suc n) sector visited ids =
     (if chain_end sector \<or> \<not> valid_sector r sector \<or> sector \<in> visited then Ok ids
      else let raw = sector_bytes r sector in
        if length raw \<noteq> cf_sector_size r then Ok ids
        else and_then (difat_entries r raw 0 127 ids) (\<lambda>ids'.
             and_then (cfb_read_u32 raw (127 * 4)) (\<lambda>nxt.
             difat_loop r n nxt (insert sector visited) ids')))"

definition read_difat :: "cfb_reader \<Rightarrow> (cfb_error, u32 list) outcome" where
  "read_difat r =
     and_then (difat_entries r (cf_data r) 76 109 []) (\<lambda>ids.
     and_then (difat_loop r (unat (cf_num_difat_sectors r)) (cf_first_difat_sector r) {} ids) (\<lambda>ids'.
     Ok (if cf_num_fat_sectors r > 0 then take (unat (cf_num_fat_sectors r)) ids' else ids')))"

definition read_fat :: "cfb_reader \<Rightarrow> u32 list \<Rightarrow> u32 list" where
  "read_fat r ids = concat (map (\<lambda>sector.
     let raw = sector_bytes r sector in
     if length raw = cf_sector_size r then map u32_from_le (chunks_exact 4 raw) else []) ids)"

section \<open>Chains\<close>

function chain_loop :: "cfb_reader \<Rightarrow> nat \<Rightarrow> u32 \<Rightarrow> u32 set \<Rightarrow> u32 list \<Rightarrow> u32 list" where
  "chain_loop r max_steps sector seen out =
     (if length out < max_steps then
        if chain_end sector \<or> \<not> valid_sector r sector \<or> sector \<in> seen then out
        else (case idx (cf_fat r) (unat sector) of
                None \<Rightarrow> out @ [sector]
              | Some nxt \<Rightarrow> chain_loop r max_steps nxt (insert sector seen) (out @ [sector]))
      else out)"
  by pat_completeness auto
termination
  by (relation "measure (\<lambda>(_, max_steps, _, _, out). max_steps - length out)") auto

definition fat_chain :: "cfb_reader \<Rightarrow> u32 \<Rightarrow> nat option \<Rightarrow> u32 list" where
  "fat_chain r start limit =
     (if chain_end start \<or> \<not> valid_sector r start then []
      else chain_loop r (case limit of Some n \<Rightarrow> n | None \<Rightarrow> unat (cf_max_sector r) + 1) start {} [])"

definition read_sector_chain :: "cfb_reader \<Rightarrow> u32 \<Rightarrow> nat option \<Rightarrow> nat option \<Rightarrow> bytes" where
  "read_sector_chain r start len limit =
     (let out = concat (map (sector_bytes r) (fat_chain r start limit))
      in case len of Some n \<Rightarrow> take n out | None \<Rightarrow> out)"

lemma unseen_shrinks:
  "unat (s :: u32) < n \<Longrightarrow> s \<notin> seen \<Longrightarrow>
   card ({..<n} - unat ` insert s seen) < card ({..<n} - unat ` seen)"
proof (rule psubset_card_mono)
  assume "unat s < n" "s \<notin> seen"
  then have "unat s \<in> {..<n} - unat ` seen"
    by (auto simp flip: word_unat_eq_iff)
  then show "{..<n} - unat ` insert s seen \<subset> {..<n} - unat ` seen" by blast
qed simp

function mini_chain_loop :: "cfb_reader \<Rightarrow> u32 \<Rightarrow> u32 set \<Rightarrow> u32 list \<Rightarrow> u32 list" where
  "mini_chain_loop r sector seen out =
     (if chain_end sector \<or> unat sector \<ge> length (cf_mini_fat r) \<or> sector \<in> seen then out
      else mini_chain_loop r (cf_mini_fat r ! unat sector) (insert sector seen) (out @ [sector]))"
  by pat_completeness auto
termination
  by (relation "measure (\<lambda>(r, _, seen, _). card ({..<length (cf_mini_fat r)} - unat ` seen))")
     (auto simp: unseen_shrinks simp del: image_insert)

declare chain_loop.simps [simp del] mini_chain_loop.simps [simp del]

definition mini_chain :: "cfb_reader \<Rightarrow> u32 \<Rightarrow> u32 list" where
  "mini_chain r start = (if chain_end start then [] else mini_chain_loop r start {} [])"

section \<open>The directory and the streams\<close>

definition dir_entry_of :: "bytes \<Rightarrow> dir_entry" where
  "dir_entry_of item =
     (let name_len = unat (u16_from_le [item ! 64, item ! 65]); typ = item ! 66 in
      if typ \<notin> {1, 2, 5} \<or> \<not> (2 \<le> name_len \<and> name_len \<le> 64) \<or> name_len mod 2 \<noteq> 0
      then empty_dir_entry
      else \<lparr>de_name = utf16_lossy (map u16_from_le (chunks_exact 2 (take (name_len - 2) item))),
            de_typ = typ,
            de_left = u32_from_le (take 4 (drop 68 item)),
            de_right = u32_from_le (take 4 (drop 72 item)),
            de_child = u32_from_le (take 4 (drop 76 item)),
            de_start = u32_from_le (take 4 (drop 116 item)),
            de_size = ucast (u32_from_le (take 4 (drop 120 item)))
              OR push_bit 32 (ucast (u32_from_le (take 4 (drop 124 item))))\<rparr>)"

definition read_directory :: "cfb_reader \<Rightarrow> dir_entry list" where
  "read_directory r =
     map dir_entry_of (chunks_exact 128 (read_sector_chain r (cf_first_directory_sector r) None None))"

definition read_mini_fat :: "cfb_reader \<Rightarrow> u32 list" where
  "read_mini_fat r =
     (if chain_end (cf_first_mini_fat_sector r) \<or> cf_num_mini_fat_sectors r = 0 then []
      else map u32_from_le (chunks_exact 4
             (read_sector_chain r (cf_first_mini_fat_sector r) None
               (Some (unat (cf_num_mini_fat_sectors r))))))"

definition read_root_mini_stream :: "cfb_reader \<Rightarrow> bytes" where
  "read_root_mini_stream r =
     (case cf_entries r of
        [] \<Rightarrow> []
      | root # _ \<Rightarrow>
          if chain_end (de_start root) \<or> de_size root = 0 then []
          else read_sector_chain r (de_start root) (Some (unat (de_size root))) None)"

definition cfb_open :: "bytes \<Rightarrow> (cfb_error, cfb_reader) outcome" where
  "cfb_open data =
     (if \<not> starts_with data cfb_magic then Err Not_a_cfb_file
      else if length data < 512 then Err Header_too_short
      else
        and_then (cfb_read_u16 data 30) (\<lambda>shift.
        and_then (or_panic (ushl1 (unat shift))) (\<lambda>sector_size.
        and_then (cfb_read_u16 data 32) (\<lambda>mini_shift.
        and_then (or_panic (ushl1 (unat mini_shift))) (\<lambda>mini_sector_size.
        if sector_size \<noteq> 512 then Err (Unsupported_sector_size sector_size)
        else
          and_then (cfb_read_u32 data 44) (\<lambda>num_fat_sectors.
          and_then (cfb_read_u32 data 48) (\<lambda>first_directory_sector.
          and_then (cfb_read_u32 data 56) (\<lambda>mini_stream_cutoff.
          and_then (cfb_read_u32 data 60) (\<lambda>first_mini_fat_sector.
          and_then (cfb_read_u32 data 64) (\<lambda>num_mini_fat_sectors.
          and_then (cfb_read_u32 data 68) (\<lambda>first_difat_sector.
          and_then (cfb_read_u32 data 72) (\<lambda>num_difat_sectors.
          let r0 = \<lparr>cf_data = data, cf_sector_size = sector_size, cf_mini_sector_size = mini_sector_size,
                cf_num_fat_sectors = num_fat_sectors, cf_first_directory_sector = first_directory_sector,
                cf_mini_stream_cutoff = mini_stream_cutoff, cf_first_mini_fat_sector = first_mini_fat_sector,
                cf_num_mini_fat_sectors = num_mini_fat_sectors, cf_first_difat_sector = first_difat_sector,
                cf_num_difat_sectors = num_difat_sectors,
                cf_max_sector = word_of_nat (length data div sector_size - 1),
                cf_fat = [], cf_entries = [], cf_mini_fat = [], cf_root_mini_stream = []\<rparr>
          in and_then (read_difat r0) (\<lambda>ids.
             let r1 = r0\<lparr>cf_fat := read_fat r0 ids\<rparr>;
                 r2 = r1\<lparr>cf_entries := read_directory r1\<rparr>;
                 r3 = r2\<lparr>cf_mini_fat := read_mini_fat r2\<rparr>
             in Ok (r3\<lparr>cf_root_mini_stream := read_root_mini_stream r3\<rparr>))))))))))))))"

definition mini_sector_bytes :: "cfb_reader \<Rightarrow> u32 \<Rightarrow> bytes option" where
  "mini_sector_bytes r s = do {
     off \<leftarrow> umul (unat s) (cf_mini_sector_size r);
     let stop = min (saturating_add off (cf_mini_sector_size r)) (length (cf_root_mini_stream r));
     if off < stop then subslice (cf_root_mini_stream r) off stop else Some [] }"

definition read_stream_entry :: "cfb_reader \<Rightarrow> nat \<Rightarrow> (cfb_error, bytes) outcome" where
  "read_stream_entry r index =
     and_then (ok_or (Invalid_directory_index index) (idx (cf_entries r) index)) (\<lambda>e.
       if de_size e = 0 \<or> chain_end (de_start e) then Ok []
       else if de_size e < ucast (cf_mini_stream_cutoff r) \<and> cf_root_mini_stream r \<noteq> []
       then and_then (or_panic (try_fold (\<lambda>s out. map_option (\<lambda>b. out @ b) (mini_sector_bytes r s))
                       (mini_chain r (de_start e)) []))
              (\<lambda>out. Ok (take (unat (de_size e)) out))
       else Ok (read_sector_chain r (de_start e) (Some (unat (de_size e))) None))"

section \<open>Listing the streams\<close>

text \<open>\<open>walk\<close> threads the set of visited indices and the list of streams. It is a nested
  recursion: the right subtree is visited with the state the other two left behind, so that the
  visited set grows is proved together with termination.\<close>

type_synonym walk_state = "u32 set \<times> (str \<times> nat) list"

function (domintros) walk :: "dir_entry list \<Rightarrow> u32 \<Rightarrow> str list \<Rightarrow> walk_state \<Rightarrow> walk_state" where
  "walk es i pre st =
     (if i = no_stream \<or> unat i \<ge> length es \<or> i \<in> fst st then st
      else let st0 = (insert i (fst st), snd st); e = es ! unat i in
        if de_name e = [] \<or> de_typ e \<notin> {1, 2, 5} then st0
        else let st1 = walk es (de_left e) pre st0;
                 st2 = (if de_typ e = 1 then walk es (de_child e) (pre @ [de_name e]) st1
                        else if de_typ e = 2
                        then (fst st1, snd st1 @ [(join [0x2F] (pre @ [de_name e]), unat i)])
                        else walk es (de_child e) pre st1)
             in walk es (de_right e) pre st2)"
  by pat_completeness auto

lemma walk_visits: "walk_dom (es, i, pre, st) \<Longrightarrow> fst st \<subseteq> fst (walk es i pre st)"
proof (induction rule: walk.pinduct)
  case (1 es i pre st)
  define st0 where "st0 = (insert i (fst st), snd st)"
  define e where "e = es ! unat i"
  show ?case
  proof (cases "(i = no_stream \<or> unat i \<ge> length es \<or> i \<in> fst st) \<or> (de_name e = [] \<or> de_typ e \<notin> {1, 2, 5})")
    case True
    then show ?thesis using 1(1) by (auto simp: walk.psimps Let_def e_def)
  next
    case False
    define st1 where "st1 = walk es (de_left e) pre st0"
    define st2 where "st2 = (if de_typ e = 1 then walk es (de_child e) (pre @ [de_name e]) st1
                        else if de_typ e = 2
                        then (fst st1, snd st1 @ [(join [0x2F] (pre @ [de_name e]), unat i)])
                        else walk es (de_child e) pre st1)"
    from False have f1: "\<not> (i = no_stream \<or> unat i \<ge> length es \<or> i \<in> fst st)"
      and f2: "\<not> (de_name e = [] \<or> de_typ e \<notin> {1, 2, 5})" by simp_all
    have w: "walk es i pre st = walk es (de_right e) pre st2"
      using 1(1) f1 f2 unfolding st2_def st1_def st0_def e_def
      by (simp only: walk.psimps Let_def if_False)
    have "fst st1 \<subseteq> fst st2"
      using 1(3) [OF f1 st0_def e_def f2 st1_def] 1(4) [OF f1 st0_def e_def f2 st1_def]
      by (auto simp: st2_def)
    then show ?thesis
      using w 1(2) [OF f1 st0_def e_def f2] 1(5) [OF f1 st0_def e_def f2 st1_def st2_def]
      by (auto simp: st0_def st1_def)
  qed
qed

lemma seen_shrinks:
  "unat (i :: u32) < n \<Longrightarrow> i \<notin> seen \<Longrightarrow> insert i seen \<subseteq> later \<Longrightarrow>
   card ({..<n} - unat ` later) < card ({..<n} - unat ` seen)"
  by (rule le_less_trans [OF card_mono unseen_shrinks [of i n seen]]) auto

termination walk
proof (relation "measure (\<lambda>(es, i, pre, st). card ({..<length es} - unat ` fst st))", goal_cases)
  case (2 es i pre st)
  then show ?case by (auto intro!: seen_shrinks simp del: image_insert)
next
  case (3 es i pre st)
  then show ?case by (auto intro!: seen_shrinks dest!: walk_visits simp del: image_insert)
next
  case (4 es i pre st)
  then show ?case by (auto intro!: seen_shrinks dest!: walk_visits simp del: image_insert)
next
  case (5 es i pre st)
  then show ?case
    by (auto intro!: seen_shrinks dest!: walk_visits simp del: image_insert split: if_splits)
qed auto

declare walk.simps [simp del]

definition list_streams :: "cfb_reader \<Rightarrow> (str \<times> nat) list" where
  "list_streams r =
     (let out = (if cf_entries r \<noteq> [] then snd (walk (cf_entries r) 0 [] ({}, [])) else [])
      in if out \<noteq> [] then out
         else map (\<lambda>(i, e). (de_name e, i))
                (filter (\<lambda>(i, e). de_name e \<noteq> [] \<and> de_typ e = 2)
                  (zip [0..<length (cf_entries r)] (cf_entries r))))"

section \<open>Output paths\<close>

type_synonym path = "str list"

datatype node = Dir | File bytes

type_synonym file_system = "path \<Rightarrow> node option"

definition unsafe_char :: "nat \<Rightarrow> bool" where
  "unsafe_char c = (is_control c \<or> c \<in> {0x5C, 0x2F, 0x3A, 0x3C, 0x3E, 0x7C, 0x3F, 0x2A})"

definition safe_part :: "str \<Rightarrow> str" where
  "safe_part name =
     (let out = map (\<lambda>c. if unsafe_char c then 0x5F else c) name;
          trimmed = trim_end_matches (\<lambda>c. c = 0x2E \<or> c = 0x20) (trim out);
          safe = (if trimmed = [] then [0x5F] else trimmed)
      in if length safe > 180 then take 180 safe else safe)"

definition stream_parts :: "str \<Rightarrow> path" where
  "stream_parts stream = map safe_part (filter (\<lambda>part. part \<noteq> []) (split_on 0x2F stream))"

definition stream_prefixes :: "(str \<times> nat) list \<Rightarrow> path set" where
  "stream_prefixes streams = set (concat (map (\<lambda>(stream, _).
     let parts = stream_parts stream in map (\<lambda>i. take i parts) [1..<length parts]) streams))"

text \<open>\<open>Path::file_stem\<close> and \<open>Path::extension\<close> of a last component.\<close>

definition stem_extension :: "str \<Rightarrow> str \<times> str option" where
  "stem_extension name =
     (let r = takeWhile (\<lambda>c. c \<noteq> 0x2E) (rev name); n = length name - length r in
      if n \<le> 1 \<or> name = ascii ''..'' then (name, None) else (take (n - 1) name, Some (rev r)))"

definition file_stem :: "path \<Rightarrow> str option" where
  "file_stem p = (if p = [] \<or> last p = ascii ''..'' then None else Some (fst (stem_extension (last p))))"

definition extension :: "path \<Rightarrow> str option" where
  "extension p = (if p = [] \<or> last p = ascii ''..'' then None else snd (stem_extension (last p)))"

definition numbered_name :: "str \<Rightarrow> str \<Rightarrow> nat \<Rightarrow> str" where
  "numbered_name stem ext i =
     (if ext = [] then stem @ ascii ''__'' @ nat_digits i
      else stem @ ascii ''__'' @ nat_digits i @ ascii ''.'' @ ext)"

function first_free :: "file_system \<Rightarrow> path \<Rightarrow> str \<Rightarrow> str \<Rightarrow> nat \<Rightarrow> path" where
  "first_free fs parent stem ext i =
     (if i < 1000000 then
        let candidate = parent @ [numbered_name stem ext i] in
        if fs candidate = None then candidate else first_free fs parent stem ext (i + 1)
      else parent @ [stem @ ascii ''__overflow''])"
  by pat_completeness auto
termination by (relation "measure (\<lambda>(_, _, _, _, i). 1000000 - i)") auto

declare first_free.simps [simp del]

definition unique_output_path :: "file_system \<Rightarrow> path \<Rightarrow> str \<Rightarrow> path set \<Rightarrow> path" where
  "unique_output_path fs out_root stream taken_prefixes =
     (let parts0 = stream_parts stream;
          parts = (if parts0 \<in> taken_prefixes then parts0 @ [ascii ''__stream''] else parts0);
          base = out_root @ parts
      in if fs base = None then base
         else let parent = (if base = [] then out_root else butlast base);
                  stem = (case file_stem base of Some s \<Rightarrow> s | None \<Rightarrow> ascii ''_'');
                  ext = (case extension base of Some s \<Rightarrow> s | None \<Rightarrow> [])
              in first_free fs parent stem ext 1)"

section \<open>Extraction\<close>

record extracted_stream =
  xs_stream :: str
  xs_output :: path
  xs_size :: nat

record cfb_report =
  cr_input :: path
  cr_output_root :: path
  cr_streams :: nat
  cr_bytes :: nat
  cr_files :: "extracted_stream list"

fun is_file :: "node option \<Rightarrow> bool" where
  "is_file (Some (File d)) = True"
| "is_file _ = False"

definition fs_read :: "file_system \<Rightarrow> path \<Rightarrow> (cfb_error, bytes) outcome" where
  "fs_read fs p = (case fs p of Some (File d) \<Rightarrow> Ok d | _ \<Rightarrow> Err (No_such_file p))"

definition fs_create_dir_all :: "file_system \<Rightarrow> path \<Rightarrow> (cfb_error, file_system) outcome" where
  "fs_create_dir_all fs p =
     (case find (\<lambda>k. is_file (fs (take k p))) [0..<length p + 1] of
        Some k \<Rightarrow> Err (Not_a_directory (take k p))
      | None \<Rightarrow> Ok (\<lambda>q. if take (length q) p = q \<and> fs q = None then Some Dir else fs q))"

definition fs_remove_dir_all :: "file_system \<Rightarrow> path \<Rightarrow> (cfb_error, file_system) outcome" where
  "fs_remove_dir_all fs p =
     (if is_file (fs p) then Err (Not_a_directory p)
      else Ok (\<lambda>q. if starts_with q p then None else fs q))"

definition fs_write :: "file_system \<Rightarrow> path \<Rightarrow> bytes \<Rightarrow> (cfb_error, file_system) outcome" where
  "fs_write fs p d =
     (if fs p = Some Dir then Err (Is_a_directory p)
      else if p = [] \<or> fs (butlast p) \<noteq> Some Dir then Err (No_such_file p)
      else Ok (fs(p \<mapsto> File d)))"

definition extract_stream ::
  "cfb_reader \<Rightarrow> path \<Rightarrow> path set \<Rightarrow> str \<times> nat \<Rightarrow> file_system \<times> extracted_stream list \<times> nat
    \<Rightarrow> (cfb_error, file_system \<times> extracted_stream list \<times> nat) outcome" where
  "extract_stream r out_root taken_prefixes entry st =
     (let (stream, index) = entry; (fs, files, total) = st in
      and_then (read_stream_entry r index) (\<lambda>data.
      let out = unique_output_path fs out_root stream taken_prefixes in
      and_then (if out = [] then Ok fs else fs_create_dir_all fs (butlast out)) (\<lambda>fs1.
      and_then (fs_write fs1 out data) (\<lambda>fs2.
      Ok (fs2, files @ [\<lparr>xs_stream = stream, xs_output = out, xs_size = length data\<rparr>],
          total + length data)))))"

definition extract_cfb_with_limit ::
  "file_system \<Rightarrow> path \<Rightarrow> path \<Rightarrow> bool \<Rightarrow> nat option \<Rightarrow> (cfb_error, file_system \<times> cfb_report) outcome" where
  "extract_cfb_with_limit fs input out_root clean stream_limit =
     and_then (if clean \<and> fs out_root \<noteq> None then fs_remove_dir_all fs out_root else Ok fs) (\<lambda>fs1.
     and_then (fs_create_dir_all fs1 out_root) (\<lambda>fs2.
     and_then (fs_read fs2 input) (\<lambda>data.
     and_then (cfb_open data) (\<lambda>reader.
     let streams = list_streams reader;
         taken_prefixes = stream_prefixes streams;
         taken = (case stream_limit of Some n \<Rightarrow> take n streams | None \<Rightarrow> streams)
     in and_then (ok_fold (extract_stream reader out_root taken_prefixes) taken (fs2, [], 0))
          (\<lambda>(fs3, files, total).
          Ok (fs3, \<lparr>cr_input = input, cr_output_root = out_root, cr_streams = length files,
                    cr_bytes = total, cr_files = files\<rparr>))))))"

definition extract_cfb ::
  "file_system \<Rightarrow> path \<Rightarrow> path \<Rightarrow> bool \<Rightarrow> (cfb_error, file_system \<times> cfb_report) outcome" where
  "extract_cfb fs input out_root clean = extract_cfb_with_limit fs input out_root clean None"

end
