(* ===== verification/Cfb_Contents.thy ===== *)
theory Cfb_Contents imports Cfb begin

text \<open>
  The chains of sectors of a compound file and the contents of its streams: the contract of a
  chain walk as a locale, the two walks of the reader as its interpretations, and what
  \<open>read_stream_entry\<close> returns.
\<close>

section \<open>Chains of sectors\<close>

text \<open>The contract of a chain walk: it follows \<open>nxt\<close> from the start, never visits a number
  twice, never leaves the usable numbers, and stops only where the table ends, at a number that
  is not usable, at one it has seen, or at the limit. The FAT and the mini FAT are read by two
  loops of their own; both keep it.\<close>

definition chained :: "('s \<Rightarrow> bool) \<Rightarrow> ('s \<Rightarrow> 's option) \<Rightarrow> 's list \<Rightarrow> bool" where
  "chained usable nxt ids = (distinct ids \<and> (\<forall>t \<in> set ids. usable t)
     \<and> (\<forall>i. Suc i < length ids \<longrightarrow> nxt (ids ! i) = Some (ids ! Suc i))
     \<and> (case nxt (last ids) of Some t \<Rightarrow> \<not> usable t | None \<Rightarrow> True))"

locale chain_walk =
  fixes usable :: "'s \<Rightarrow> bool" and nxt :: "'s \<Rightarrow> 's option" and limit :: "nat option"
    and walked :: "'s \<Rightarrow> 's list"
  assumes walked_start: "limit \<noteq> Some 0 \<Longrightarrow> usable s \<Longrightarrow> walked s \<noteq> [] \<and> hd (walked s) = s"
    and walked_usable: "t \<in> set (walked s) \<Longrightarrow> usable t"
    and walked_distinct: "distinct (walked s)"
    and walked_limit: "limit = Some n \<Longrightarrow> length (walked s) \<le> n"
    and walked_next: "Suc i < length (walked s) \<Longrightarrow> nxt (walked s ! i) = Some (walked s ! Suc i)"
    and walked_stop: "walked s \<noteq> [] \<Longrightarrow> limit \<noteq> Some (length (walked s)) \<Longrightarrow>
      nxt (last (walked s)) = Some t \<Longrightarrow> usable t \<Longrightarrow> t \<in> set (walked s)"
begin

lemma walked_agrees:
  assumes "chained usable nxt ids" "ids \<noteq> []" "\<forall>n. limit = Some n \<longrightarrow> length ids \<le> n"
  shows "i < length (walked (hd ids)) \<Longrightarrow> i < length ids \<and> walked (hd ids) ! i = ids ! i"
proof (induction i)
  case 0
  have "usable (hd ids)" using assms(1,2) by (simp add: chained_def)
  with 0 show ?case using assms walked_start [of "hd ids"] by (auto simp: hd_conv_nth)
next
  case (Suc i)
  then have i: "i < length ids" "walked (hd ids) ! i = ids ! i" by auto
  have n: "nxt (ids ! i) = Some (walked (hd ids) ! Suc i)" using walked_next [OF Suc.prems] i by simp
  have u: "usable (walked (hd ids) ! Suc i)" using Suc.prems nth_mem walked_usable by blast
  have "Suc i < length ids"
  proof (rule ccontr)
    assume "\<not> Suc i < length ids"
    then have "ids ! i = last ids" using i(1) assms(2) by (metis Suc_lessI diff_Suc_1 last_conv_nth)
    then show False using n u assms(1) by (simp add: chained_def)
  qed
  then show ?case using n assms(1) by (simp add: chained_def)
qed

lemma walked_linked:
  assumes "chained usable nxt ids" "ids \<noteq> []" "\<forall>n. limit = Some n \<longrightarrow> length ids \<le> n"
  shows "walked (hd ids) = ids"
proof (rule nth_equalityI)
  note agree = walked_agrees [OF assms]
  let ?w = "walked (hd ids)"
  have "usable (hd ids)" using assms(1,2) by (simp add: chained_def)
  moreover have "limit \<noteq> Some 0" using assms(2,3) by auto
  ultimately have ne: "?w \<noteq> []" using walked_start by blast
  have le: "length ?w \<le> length ids" using agree by (meson le_less_linear order_refl less_irrefl)
  show len: "length ?w = length ids"
  proof (rule ccontr)
    assume "\<not> ?thesis"
    with le have lt: "length ?w < length ids" by simp
    let ?k = "length ?w - 1"
    have k: "?k < length ?w" "Suc ?k < length ids" using ne lt by (simp_all add: Suc_diff_Suc)
    then have "nxt (last ?w) = Some (ids ! Suc ?k)"
      using agree [of ?k] assms(1) ne by (simp add: last_conv_nth chained_def)
    moreover have "usable (ids ! Suc ?k)" using k(2) assms(1) by (simp add: chained_def)
    moreover have "limit \<noteq> Some (length ?w)" using assms(3) lt by fastforce
    ultimately have "ids ! Suc ?k \<in> set ?w" using walked_stop ne by blast
    then obtain j where "j < length ?w" "?w ! j = ids ! Suc ?k" by (metis in_set_conv_nth)
    then show False using agree [of j] k assms(1) by (auto simp: chained_def nth_eq_iff_index_eq)
  qed
  show "\<And>i. i < length ?w \<Longrightarrow> ?w ! i = ids ! i" using agree by blast
qed

end

text \<open>One loop as a relation: \<open>follows usable nxt limit s out w\<close> says that the loop, at the number
  \<open>s\<close> with \<open>out\<close> collected, returns \<open>w\<close>. Both loops of the reader run it.\<close>

inductive follows :: "('s \<Rightarrow> bool) \<Rightarrow> ('s \<Rightarrow> 's option) \<Rightarrow> nat option \<Rightarrow> 's \<Rightarrow> 's list \<Rightarrow> 's list \<Rightarrow> bool"
  for usable nxt limit where
  full: "limit = Some n \<Longrightarrow> n \<le> length out \<Longrightarrow> follows usable nxt limit s out out"
| stuck: "\<not> usable s \<or> s \<in> set out \<Longrightarrow> follows usable nxt limit s out out"
| final: "\<forall>n. limit = Some n \<longrightarrow> length out < n \<Longrightarrow> usable s \<Longrightarrow> s \<notin> set out \<Longrightarrow> nxt s = None \<Longrightarrow>
    follows usable nxt limit s out (out @ [s])"
| step: "\<forall>n. limit = Some n \<longrightarrow> length out < n \<Longrightarrow> usable s \<Longrightarrow> s \<notin> set out \<Longrightarrow> nxt s = Some t \<Longrightarrow>
    follows usable nxt limit t (out @ [s]) w \<Longrightarrow> follows usable nxt limit s out w"

definition links :: "('s \<Rightarrow> 's option) \<Rightarrow> 's list \<Rightarrow> bool" where
  "links nxt ids = (\<forall>i. Suc i < length ids \<longrightarrow> nxt (ids ! i) = Some (ids ! Suc i))"

lemma links_snoc: "links nxt (ids @ [s, t]) \<longleftrightarrow> links nxt (ids @ [s]) \<and> nxt s = Some t"
  by (auto simp: links_def nth_append less_Suc_eq)

lemma links_prefix: "links nxt (ids @ ids') \<Longrightarrow> links nxt ids"
  by (auto simp: links_def nth_append split: if_splits dest!: spec)

lemma follows_spec:
  assumes "follows usable nxt limit s out w" "distinct out" "\<forall>t \<in> set out. usable t" "links nxt (out @ [s])"
    "\<forall>n. limit = Some n \<longrightarrow> length out \<le> n"
  shows "prefix out w \<and> distinct w \<and> (\<forall>t \<in> set w. usable t) \<and> links nxt w
     \<and> (\<forall>n. limit = Some n \<longrightarrow> length w \<le> n)
     \<and> (\<forall>t. w \<noteq> [] \<longrightarrow> limit \<noteq> Some (length w) \<longrightarrow> nxt (last w) = Some t \<longrightarrow> usable t \<longrightarrow> t \<in> set w)
     \<and> (limit \<noteq> Some (length out) \<longrightarrow> usable s \<longrightarrow> s \<notin> set out \<longrightarrow> prefix (out @ [s]) w)"
  using assms
proof (induction rule: follows.induct)
  case (stuck s out)
  have "nxt (last out) = Some s" if "out \<noteq> []"
  proof -
    have "out @ [s] = butlast out @ [last out, s]" using that by simp
    with stuck.prems(3) show ?thesis by (simp only: links_snoc)
  qed
  then show ?case using stuck by (auto dest: links_prefix)
next
  case (full n out s)
  then show ?case using links_prefix [of nxt out "[s]"] by auto
next
  case (final out s)
  then show ?case by auto
next
  case (step out s t w)
  have "links nxt ((out @ [s]) @ [t])" using step.hyps(4) step.prems(3) links_snoc [of nxt out s t] by simp
  moreover have "distinct (out @ [s])" "\<forall>t \<in> set (out @ [s]). usable t"
    "\<forall>n. limit = Some n \<longrightarrow> length (out @ [s]) \<le> n" using step.hyps(1,2,3) step.prems(1,2) by auto
  ultimately have r: "prefix (out @ [s]) w" and r': "distinct w \<and> (\<forall>t \<in> set w. usable t) \<and> links nxt w
     \<and> (\<forall>n. limit = Some n \<longrightarrow> length w \<le> n)
     \<and> (\<forall>t. w \<noteq> [] \<longrightarrow> limit \<noteq> Some (length w) \<longrightarrow> nxt (last w) = Some t \<longrightarrow> usable t \<longrightarrow> t \<in> set w)"
    using step.IH by blast+
  then show ?case using append_prefixD [OF r] by blast
qed

lemma follows_chain_walk:
  assumes "\<And>s. follows usable nxt limit s [] (walked s)"
  shows "chain_walk usable nxt limit walked"
proof
  note spec = follows_spec [OF assms, simplified, unfolded links_def]
  fix s t n i
  show "limit \<noteq> Some 0 \<Longrightarrow> usable s \<Longrightarrow> walked s \<noteq> [] \<and> hd (walked s) = s"
    using spec [of s] by (auto simp: prefix_def)
qed (use follows_spec [OF assms, simplified, unfolded links_def] in auto)

definition fat_usable :: "cfb_reader \<Rightarrow> u32 \<Rightarrow> bool" where
  "fat_usable r s = (\<not> chain_end s \<and> valid_sector r s)"

definition fat_next :: "cfb_reader \<Rightarrow> u32 \<Rightarrow> u32 option" where
  "fat_next r s = idx (cf_fat r) (unat s)"

definition mini_usable :: "cfb_reader \<Rightarrow> u32 \<Rightarrow> bool" where
  "mini_usable r s = (\<not> chain_end s \<and> unat s < length (cf_mini_fat r))"

definition mini_next :: "cfb_reader \<Rightarrow> u32 \<Rightarrow> u32 option" where
  "mini_next r s = idx (cf_mini_fat r) (unat s)"

definition chain_limit :: "cfb_reader \<Rightarrow> nat option \<Rightarrow> nat" where
  "chain_limit r limit = (case limit of Some n \<Rightarrow> n | None \<Rightarrow> unat (cf_max_sector r) + 1)"

lemma chain_loop_follows:
  "follows (fat_usable r) (fat_next r) (Some n) s out (chain_loop r n s (set out) out)"
proof (induction r n s "set out" out rule: chain_loop.induct)
  case (1 r n s out)
  note loop = chain_loop.simps [of r n s "set out" out]
  show ?case
  proof (cases "length out < n \<and> fat_usable r s \<and> s \<notin> set out")
    case True
    then have c: "length out < n" "\<not> (chain_end s \<or> \<not> valid_sector r s \<or> s \<in> set out)"
      by (simp_all add: fat_usable_def)
    show ?thesis
    proof (cases "idx (cf_fat r) (unat s)")
      case None
      then have "chain_loop r n s (set out) out = out @ [s]" using loop c by simp
      then show ?thesis using True None by (auto simp: fat_next_def intro: follows.final)
    next
      case (Some t)
      then have "chain_loop r n s (set out) out = chain_loop r n t (set (out @ [s])) (out @ [s])"
        using loop c by simp
      then show ?thesis using True Some 1 [OF c Some] by (auto simp: fat_next_def intro: follows.step)
    qed
  next
    case False
    then have "chain_loop r n s (set out) out = out" using loop by (auto simp: fat_usable_def)
    then show ?thesis using False
      by (cases "length out < n") (auto intro: follows.full follows.stuck)
  qed
qed

lemma mini_chain_loop_follows:
  "follows (mini_usable r) (mini_next r) None s out (mini_chain_loop r s (set out) out)"
proof (induction r s "set out" out rule: mini_chain_loop.induct)
  case (1 r s out)
  note loop = mini_chain_loop.simps [of r s "set out" out]
  show ?case
  proof (cases "mini_usable r s \<and> s \<notin> set out")
    case True
    then have c: "\<not> (chain_end s \<or> unat s \<ge> length (cf_mini_fat r) \<or> s \<in> set out)"
      by (auto simp: mini_usable_def)
    then have "mini_next r s = Some (cf_mini_fat r ! unat s)" by (simp add: mini_next_def idx_def)
    moreover have "mini_chain_loop r s (set out) out
        = mini_chain_loop r (cf_mini_fat r ! unat s) (set (out @ [s])) (out @ [s])"
      using loop c by simp
    ultimately show ?thesis using True 1 [OF c] by (auto intro: follows.step)
  next
    case False
    then have "mini_chain_loop r s (set out) out = out" using loop by (auto simp: mini_usable_def)
    then show ?thesis using False by (auto intro: follows.stuck)
  qed
qed

interpretation fat: chain_walk "fat_usable r" "fat_next r" "Some (chain_limit r limit)" "\<lambda>s. fat_chain r s limit"
  for r limit
proof (rule follows_chain_walk)
  fix s
  show "follows (fat_usable r) (fat_next r) (Some (chain_limit r limit)) s [] (fat_chain r s limit)"
    using chain_loop_follows [of r "chain_limit r limit" s "[]"]
    by (auto simp: fat_chain_def chain_limit_def fat_usable_def intro: follows.stuck)
qed

interpretation mini: chain_walk "mini_usable r" "mini_next r" None "mini_chain r" for r
proof (rule follows_chain_walk)
  fix s
  show "follows (mini_usable r) (mini_next r) None s [] (mini_chain r s)"
    using mini_chain_loop_follows [of r s "[]"]
    by (auto simp: mini_chain_def mini_usable_def intro: follows.stuck)
qed

section \<open>Bounds of the chains\<close>

lemma fat_chain_length: "length (fat_chain r s limit) \<le> unat (cf_max_sector r) + 1"
proof -
  have "length (map unat (fat_chain r s limit)) \<le> unat (cf_max_sector r) + 1"
  proof (rule distinct_bounded_length)
    show "distinct (map unat (fat_chain r s limit))"
      using fat.walked_distinct [of r s limit] by (simp add: distinct_map inj_on_def flip: word_unat_eq_iff)
    show "x < unat (cf_max_sector r) + 1" if "x \<in> set (map unat (fat_chain r s limit))" for x
      using that fat.walked_usable [of _ r s limit]
      by (auto simp: fat_usable_def valid_sector_def word_le_nat_alt less_Suc_eq_le)
  qed
  then show ?thesis by simp
qed

lemma mini_chain_length: "length (mini_chain r s) \<le> length (cf_mini_fat r)"
proof -
  have "length (map unat (mini_chain r s)) \<le> length (cf_mini_fat r)"
  proof (rule distinct_bounded_length)
    show "distinct (map unat (mini_chain r s))"
      using mini.walked_distinct [of r s] by (simp add: distinct_map inj_on_def flip: word_unat_eq_iff)
    show "x < length (cf_mini_fat r)" if "x \<in> set (map unat (mini_chain r s))" for x
      using that mini.walked_usable [of _ r s] by (auto simp: mini_usable_def)
  qed
  then show ?thesis by simp
qed

definition empty_reader :: cfb_reader where
  "empty_reader = \<lparr>cf_data = [], cf_sector_size = 512, cf_mini_sector_size = 64,
     cf_num_fat_sectors = 0, cf_first_directory_sector = 0, cf_mini_stream_cutoff = 4096,
     cf_first_mini_fat_sector = 0, cf_num_mini_fat_sectors = 0, cf_first_difat_sector = 0,
     cf_num_difat_sectors = 0, cf_max_sector = 2, cf_fat = [1, 0],
     cf_entries = [], cf_mini_fat = [2, endofchain, 0], cf_root_mini_stream = []\<rparr>"

text \<open>Whatever the allocation tables hold, cycles included, a chain visits each sector at most once:
  it has no more sectors than the volume (for the FAT, nor more than the limit given) or than the
  mini FAT has entries, all of them in range, each followed by the entry of its predecessor.\<close>

theorem sector_chains_bounded:
  "distinct (fat_chain r s limit) \<and> length (fat_chain r s limit) \<le> unat (cf_max_sector r) + 1
   \<and> (limit = Some n \<longrightarrow> length (fat_chain r s limit) \<le> n)
   \<and> (\<forall>t \<in> set (fat_chain r s limit). valid_sector r t) \<and> links (fat_next r) (fat_chain r s limit)
   \<and> distinct (mini_chain r s) \<and> length (mini_chain r s) \<le> length (cf_mini_fat r)
   \<and> (\<forall>t \<in> set (mini_chain r s). unat t < length (cf_mini_fat r)) \<and> links (mini_next r) (mini_chain r s)"
  using fat.walked_distinct [of r s limit] fat_chain_length [of r s limit] fat.walked_limit [of r limit "chain_limit r limit" s]
    fat.walked_usable [of _ r s limit] fat.walked_next [of _ r s limit]
    mini.walked_distinct [of r s] mini_chain_length [of r s] mini.walked_usable [of _ r s] mini.walked_next [of _ r s]
  by (auto simp: links_def fat_usable_def mini_usable_def chain_limit_def)

theorem sector_chains_bounded_witness:
  "distinct (fat_chain empty_reader 0 (Some 1)) \<and> length (fat_chain empty_reader 0 (Some 1)) \<le> 1
   \<and> length (mini_chain empty_reader 0) \<le> length (cf_mini_fat empty_reader)"
  using sector_chains_bounded [of empty_reader 0 "Some 1" 1] by simp

section \<open>The contents of a stream\<close>

definition plain_sector :: "cfb_reader \<Rightarrow> u32 \<Rightarrow> bytes" where
  "plain_sector r s = take (cf_sector_size r) (drop ((unat s + 1) * cf_sector_size r) (cf_data r))"

definition plain_mini_sector :: "cfb_reader \<Rightarrow> u32 \<Rightarrow> bytes" where
  "plain_mini_sector r s = take (cf_mini_sector_size r) (drop (unat s * cf_mini_sector_size r) (cf_root_mini_stream r))"

definition uses_mini_stream :: "cfb_reader \<Rightarrow> dir_entry \<Rightarrow> bool" where
  "uses_mini_stream r e = (de_size e < ucast (cf_mini_stream_cutoff r) \<and> cf_root_mini_stream r \<noteq> [])"

text \<open>What it means that a directory entry stores a content: the sectors of a chain that starts
  where the entry says hold it, padded at the end.\<close>

definition stores :: "cfb_reader \<Rightarrow> dir_entry \<Rightarrow> bytes \<Rightarrow> bool" where
  "stores r e c = (unat (de_size e) = length c \<and> (c \<noteq> [] \<longrightarrow>
     (\<exists>ids pad. ids \<noteq> [] \<and> hd ids = de_start e \<and>
        (if uses_mini_stream r e
         then chained (mini_usable r) (mini_next r) ids \<and> concat (map (plain_mini_sector r) ids) = c @ pad
         else chained (fat_usable r) (fat_next r) ids \<and> concat (map (plain_sector r) ids) = c @ pad))))"

lemma sector_bytes_plain:
  assumes "valid_sector r s" "length (cf_data r) < 2 ^ 63"
  shows "sector_bytes r s = plain_sector r s"
  using assms
  by (auto simp: sector_bytes_def plain_sector_def subslice_def saturating_add_def usize_limit_def Let_def
      min_def max_def split: option.split)

lemma mini_sector_bytes_plain:
  assumes "length (cf_root_mini_stream r) < 2 ^ 63" "cf_mini_sector_size r \<le> 2 ^ 31"
  shows "mini_sector_bytes r s = Some (plain_mini_sector r s)"
proof -
  have "unat s < 2 ^ LENGTH(32)" by (rule unsigned_less)
  then have "unat s * cf_mini_sector_size r \<le> 2 ^ 32 * 2 ^ 31" using assms(2) by (intro mult_le_mono) simp_all
  then have "umul (unat s) (cf_mini_sector_size r) = Some (unat s * cf_mini_sector_size r)"
    by (simp add: umul_def usize_limit_def)
  then show ?thesis using assms
    by (auto simp: mini_sector_bytes_def plain_mini_sector_def subslice_def saturating_add_def usize_limit_def Let_def
        min_def max_def)
qed

lemma mini_sectors_read:
  assumes "length (cf_root_mini_stream r) < 2 ^ 63" "cf_mini_sector_size r \<le> 2 ^ 31"
  shows "try_fold (\<lambda>s out. map_option (\<lambda>b. out @ b) (mini_sector_bytes r s)) ids out
    = Some (out @ concat (map (plain_mini_sector r) ids))"
  by (induction ids arbitrary: out) (simp_all add: mini_sector_bytes_plain [OF assms])

lemma fat_sectors_read:
  assumes "length (cf_data r) < 2 ^ 63"
  shows "concat (map (sector_bytes r) (fat_chain r s limit)) = concat (map (plain_sector r) (fat_chain r s limit))"
  using fat.walked_usable [of _ r s limit]
  by (auto intro!: arg_cong [where f = concat] map_cong sector_bytes_plain [OF _ assms] simp: fat_usable_def)

lemma chained_fat_chain:
  assumes "chained (fat_usable r) (fat_next r) ids" "ids \<noteq> []"
  shows "fat_chain r (hd ids) None = ids"
proof (rule fat.walked_linked [OF assms], intro allI impI)
  fix n
  assume n: "Some (chain_limit r None) = Some n"
  have "length (map unat ids) \<le> unat (cf_max_sector r) + 1"
    by (rule distinct_bounded_length)
       (use assms(1) in \<open>auto simp: chained_def distinct_map inj_on_def fat_usable_def valid_sector_def
          word_le_nat_alt less_Suc_eq_le simp flip: word_unat_eq_iff\<close>)
  then show "length ids \<le> n" using n by (auto simp: chain_limit_def)
qed

lemma stored_stream_read:
  assumes "i < length (cf_entries r)" "stores r (cf_entries r ! i) c"
    "length (cf_data r) < 2 ^ 63" "length (cf_root_mini_stream r) < 2 ^ 63" "cf_mini_sector_size r \<le> 2 ^ 31"
  shows "read_stream_entry r i = Ok c"
proof -
  define e where "e = cf_entries r ! i"
  have e: "ok_or (Invalid_directory_index i) (idx (cf_entries r) i) = Ok e"
    using assms(1) by (simp add: idx_def e_def)
  have sz: "unat (de_size e) = length c" using assms(2) by (simp add: stores_def e_def)
  note read = read_stream_entry_def e and_then.simps mini_sectors_read [OF assms(4,5)] or_panic_simps
    read_sector_chain_def fat_sectors_read [OF assms(3)] Let_def
  show ?thesis
  proof (cases "c = []")
    case True
    then show ?thesis using sz by (simp add: read unat_eq_zero)
  next
    case False
    with sz have ne: "de_size e \<noteq> 0" by auto
    from False assms(2) obtain ids pad where ids: "ids \<noteq> []" "hd ids = de_start e"
      and st: "if uses_mini_stream r e
         then chained (mini_usable r) (mini_next r) ids \<and> concat (map (plain_mini_sector r) ids) = c @ pad
         else chained (fat_usable r) (fat_next r) ids \<and> concat (map (plain_sector r) ids) = c @ pad"
      unfolding stores_def e_def by blast
    have "de_start e \<in> set ids" using ids by (metis hd_in_set)
    then have ce: "\<not> chain_end (de_start e)"
      using st by (auto simp: chained_def mini_usable_def fat_usable_def split: if_splits)
    show ?thesis
    proof (cases "uses_mini_stream r e")
      case True
      then have "mini_chain r (de_start e) = ids" using st mini.walked_linked [of r ids] ids by simp
      then show ?thesis using True st ne ce sz by (simp add: read uses_mini_stream_def)
    next
      case False
      then have "fat_chain r (de_start e) None = ids" using st chained_fat_chain [of r ids] ids by simp
      then show ?thesis using False st ne ce sz by (auto simp: read uses_mini_stream_def)
    qed
  qed
qed

definition sample_reader :: cfb_reader where
  "sample_reader = \<lparr>cf_data = [0, 0, 1, 2, 3, 4], cf_sector_size = 2, cf_mini_sector_size = 1,
     cf_num_fat_sectors = 0, cf_first_directory_sector = 0, cf_mini_stream_cutoff = 3,
     cf_first_mini_fat_sector = 0, cf_num_mini_fat_sectors = 0, cf_first_difat_sector = 0,
     cf_num_difat_sectors = 0, cf_max_sector = 2, cf_fat = [endofchain, 0],
     cf_entries = [empty_dir_entry\<lparr>de_start := 1, de_size := 3\<rparr>, empty_dir_entry\<lparr>de_start := 2, de_size := 2\<rparr>],
     cf_mini_fat = [endofchain, freesect, 0], cf_root_mini_stream = [7, 8, 9]\<rparr>"

lemma sample_stores: "stores sample_reader (cf_entries sample_reader ! 0) [3, 4, 1]"
proof -
  have "chained (fat_usable sample_reader) (fat_next sample_reader) [1, 0]
      \<and> concat (map (plain_sector sample_reader) [1, 0]) = [3, 4, 1] @ [2]"
    by (simp add: sample_reader_def chained_def fat_usable_def fat_next_def chain_end_def freesect_def
        endofchain_def valid_sector_def idx_def plain_sector_def)
  then show ?thesis
    unfolding stores_def
    by (intro conjI impI exI [of _ "[1, 0]"] exI [of _ "[2]"])
       (simp_all add: sample_reader_def uses_mini_stream_def)
qed

lemma sample_read: "read_stream_entry sample_reader 0 = Ok [3, 4, 1]"
  by (rule stored_stream_read [OF _ sample_stores]) (simp_all add: sample_reader_def)

text \<open>C4. Reading a stream returns the content its directory entry stores: where the sectors of a
  chain from the start of the entry, in the FAT or in the mini FAT as the size decides, hold the
  content followed by padding, \<open>read_stream_entry\<close> returns just the content.\<close>

theorem read_stream_entry_stored:
  assumes "i < length (cf_entries r)" "stores r (cf_entries r ! i) c"
    "length (cf_data r) < 2 ^ 63" "length (cf_root_mini_stream r) < 2 ^ 63" "cf_mini_sector_size r \<le> 2 ^ 31"
  shows "read_stream_entry r i = Ok c"
  by (rule stored_stream_read [OF assms])

theorem read_stream_entry_stored_witness:
  "read_stream_entry sample_reader 0 = Ok [3, 4, 1] \<and> read_stream_entry sample_reader 1 = Ok [9, 7]"
proof
  show "read_stream_entry sample_reader 0 = Ok [3, 4, 1]"
    by (rule read_stream_entry_stored [OF _ sample_stores]) (simp_all add: sample_reader_def)
  show "read_stream_entry sample_reader 1 = Ok [9, 7]"
  proof (rule read_stream_entry_stored)
    have "chained (mini_usable sample_reader) (mini_next sample_reader) [2, 0]
      \<and> concat (map (plain_mini_sector sample_reader) [2, 0]) = [9, 7] @ []"
      by (simp add: sample_reader_def chained_def mini_usable_def mini_next_def chain_end_def freesect_def
          endofchain_def idx_def plain_mini_sector_def)
    then show "stores sample_reader (cf_entries sample_reader ! 1) [9, 7]"
      unfolding stores_def
      by (intro conjI impI exI [of _ "[2, 0]"] exI [of _ "[]"])
         (simp_all add: sample_reader_def uses_mini_stream_def)
  qed (simp_all add: sample_reader_def)
qed

end
