(* ===== verification/Cfb_Streams.thy ===== *)
theory Cfb_Streams imports Cfb_Contents begin

text \<open>
  The listing of the streams of a compound file, the output paths, and the extraction as a
  change of the file system.
\<close>

section \<open>Walking the directory\<close>

lemma walk_node:
  assumes "\<not> (i = no_stream \<or> unat i \<ge> length es \<or> i \<in> fst st)" "\<not> (de_name e = [] \<or> de_typ e \<notin> {1, 2, 5})"
    and e: "e = es ! unat i" "st1 = walk es (de_left e) pre (insert i (fst st), snd st)"
      "st2 = (if de_typ e = 1 then walk es (de_child e) (pre @ [de_name e]) st1
              else if de_typ e = 2 then (fst st1, snd st1 @ [(join [0x2F] (pre @ [de_name e]), unat i)])
              else walk es (de_child e) pre st1)"
  shows "walk es i pre st = walk es (de_right e) pre st2"
  using assms(1,2) unfolding e by (subst walk.simps) (simp only: Let_def if_False)

text \<open>The abstract directory: the binary trees of the siblings, with the children of storages.\<close>

datatype dir_tree = Leaf | Node u32 dir_tree dir_tree dir_tree

fun tree_indices :: "dir_tree \<Rightarrow> u32 list" where
  "tree_indices Leaf = []"
| "tree_indices (Node i l c r) = i # tree_indices l @ tree_indices c @ tree_indices r"

fun tree_at :: "dir_entry list \<Rightarrow> u32 \<Rightarrow> dir_tree \<Rightarrow> bool" where
  "tree_at es i Leaf = (i = no_stream)"
| "tree_at es i (Node j l c r) =
     (i = j \<and> i \<noteq> no_stream \<and> unat i < length es \<and> de_name (es ! unat i) \<noteq> []
      \<and> de_typ (es ! unat i) \<in> {1, 2, 5} \<and> tree_at es (de_left (es ! unat i)) l
      \<and> tree_at es (de_right (es ! unat i)) r
      \<and> (if de_typ (es ! unat i) = 2 then c = Leaf else tree_at es (de_child (es ! unat i)) c))"

fun tree_streams :: "dir_entry list \<Rightarrow> str list \<Rightarrow> dir_tree \<Rightarrow> (str \<times> nat) list" where
  "tree_streams es pre Leaf = []"
| "tree_streams es pre (Node i l c r) =
     tree_streams es pre l
     @ (if de_typ (es ! unat i) = 1 then tree_streams es (pre @ [de_name (es ! unat i)]) c
        else if de_typ (es ! unat i) = 2 then [(join [0x2F] (pre @ [de_name (es ! unat i)]), unat i)]
        else tree_streams es pre c)
     @ tree_streams es pre r"

lemma walk_tree:
  assumes "tree_at es i t" "distinct (tree_indices t)" "set (tree_indices t) \<inter> fst st = {}"
  shows "walk es i pre st = (fst st \<union> set (tree_indices t), snd st @ tree_streams es pre t)"
  using assms
proof (induction t arbitrary: i pre st)
  case Leaf
  then show ?case by (simp add: walk.simps)
next
  case (Node j l c r)
  define e where "e = es ! unat i"
  have i: "i = j" "i \<noteq> no_stream" "unat i < length es" "de_name e \<noteq> []" "de_typ e \<in> {1, 2, 5}"
    using Node.prems(1) unfolding tree_at.simps e_def by blast+
  have l: "walk es (de_left e) pre (insert i (fst st), snd st)
      = (insert i (fst st) \<union> set (tree_indices l), snd st @ tree_streams es pre l)"
    using Node.prems by (subst Node.IH(1)) (auto simp: e_def)
  define st1 where "st1 = (insert i (fst st) \<union> set (tree_indices l), snd st @ tree_streams es pre l)"
  have c: "walk es (de_child e) pre' st1 = (fst st1 \<union> set (tree_indices c), snd st1 @ tree_streams es pre' c)"
    if "de_typ e \<noteq> 2" for pre'
    using Node.prems that by (subst Node.IH(2)) (auto simp: e_def st1_def)
  define st2 where "st2 = (if de_typ e = 1 then walk es (de_child e) (pre @ [de_name e]) st1
                        else if de_typ e = 2
                        then (fst st1, snd st1 @ [(join [0x2F] (pre @ [de_name e]), unat i)])
                        else walk es (de_child e) pre st1)"
  have st2: "st2 = (fst st1 \<union> set (tree_indices c), snd st1 @
      (if de_typ e = 1 then tree_streams es (pre @ [de_name e]) c
       else if de_typ e = 2 then [(join [0x2F] (pre @ [de_name e]), unat i)] else tree_streams es pre c))"
    using c Node.prems(1) by (auto simp: st2_def e_def)
  have "walk es i pre st = walk es (de_right e) pre st2"
    by (rule walk_node [OF _ _ e_def _ st2_def]) (use i Node.prems(3) l in \<open>auto simp: st1_def\<close>)
  also have "\<dots> = (fst st2 \<union> set (tree_indices r), snd st2 @ tree_streams es pre r)"
    using Node.prems by (subst Node.IH(3)) (auto simp: st2 st1_def e_def)
  finally show ?case using i by (auto simp: st2 st1_def e_def)
qed

lemma list_streams_of_tree:
  assumes "tree_at (cf_entries r) 0 t" "distinct (tree_indices t)" "tree_streams (cf_entries r) [] t \<noteq> []"
  shows "list_streams r = tree_streams (cf_entries r) [] t"
proof -
  have "cf_entries r \<noteq> []" using assms(1,3) by (cases t) auto
  then show ?thesis using walk_tree [OF assms(1,2), of "({}, [])" "[]"] assms(3)
    by (simp add: list_streams_def)
qed

text \<open>C17. The listing refines the directory tree: where the entries represent a tree of storages and
  streams rooted at entry 0, no entry twice, \<open>list_streams\<close> returns its streams in order, each under
  the path of the storages around it, provided there is one.\<close>

theorem list_streams_tree:
  assumes "tree_at (cf_entries r) 0 t" "distinct (tree_indices t)" "tree_streams (cf_entries r) [] t \<noteq> []"
  shows "list_streams r = tree_streams (cf_entries r) [] t"
  by (rule list_streams_of_tree [OF assms])

definition sample_directory :: "dir_entry list" where
  "sample_directory = [empty_dir_entry\<lparr>de_name := [0x52], de_typ := 5, de_child := 1\<rparr>,
     empty_dir_entry\<lparr>de_name := [0x61], de_typ := 1, de_child := 2\<rparr>,
     empty_dir_entry\<lparr>de_name := [0x62], de_typ := 2\<rparr>]"

theorem list_streams_tree_witness:
  "list_streams (empty_reader\<lparr>cf_entries := sample_directory\<rparr>) = [([0x61, 0x2F, 0x62], 2)]"
proof -
  let ?r = "empty_reader\<lparr>cf_entries := sample_directory\<rparr>"
  let ?t = "Node 0 Leaf (Node 1 Leaf (Node 2 Leaf Leaf Leaf) Leaf) Leaf"
  have "list_streams ?r = tree_streams (cf_entries ?r) [] ?t"
    by (rule list_streams_tree) (simp_all add: sample_directory_def empty_dir_entry_def no_stream_def)
  then show ?thesis by (simp add: sample_directory_def)
qed

lemma sample_listing:
  "list_streams (empty_reader\<lparr>cf_entries := sample_directory\<rparr>) = [([0x61, 0x2F, 0x62], 2)]"
proof -
  let ?r = "empty_reader\<lparr>cf_entries := sample_directory\<rparr>"
  let ?t = "Node 0 Leaf (Node 1 Leaf (Node 2 Leaf Leaf Leaf) Leaf) Leaf"
  have "list_streams ?r = tree_streams (cf_entries ?r) [] ?t"
    by (rule list_streams_of_tree) (simp_all add: sample_directory_def empty_dir_entry_def no_stream_def)
  then show ?thesis by (simp add: sample_directory_def)
qed

definition stream_entry :: "dir_entry list \<Rightarrow> str \<times> nat \<Rightarrow> bool" where
  "stream_entry es s = (snd s < length es \<and> de_typ (es ! snd s) = 2 \<and> de_name (es ! snd s) \<noteq> [])"

definition visits :: "dir_entry list \<Rightarrow> walk_state \<Rightarrow> walk_state \<Rightarrow> bool" where
  "visits es st st' = (fst st \<subseteq> fst st' \<and> (\<exists>new. snd st' = snd st @ new \<and> distinct (map snd new)
     \<and> (\<forall>s \<in> set new. stream_entry es s \<and> (\<exists>j. snd s = unat j \<and> j \<in> fst st' \<and> j \<notin> fst st))))"

lemma visits_refl: "visits es st st"
  by (simp add: visits_def)

lemma visits_trans:
  assumes "visits es st st1" "visits es st1 st2"
  shows "visits es st st2"
proof -
  obtain n1 where n1: "snd st1 = snd st @ n1" "distinct (map snd n1)"
    "\<forall>s \<in> set n1. stream_entry es s \<and> (\<exists>j. snd s = unat j \<and> j \<in> fst st1 \<and> j \<notin> fst st)"
    using assms(1) unfolding visits_def by blast
  obtain n2 where n2: "snd st2 = snd st1 @ n2" "distinct (map snd n2)"
    "\<forall>s \<in> set n2. stream_entry es s \<and> (\<exists>j. snd s = unat j \<and> j \<in> fst st2 \<and> j \<notin> fst st1)"
    using assms(2) unfolding visits_def by blast
  have "snd s \<noteq> snd s'" if "s \<in> set n1" "s' \<in> set n2" for s s'
    using n1(3) n2(3) that by (auto dest!: bspec simp flip: word_unat_eq_iff)
  then have "snd ` set n1 \<inter> snd ` set n2 = {}" by auto
  moreover have "fst st \<subseteq> fst st1" "fst st1 \<subseteq> fst st2" using assms by (simp_all add: visits_def)
  moreover have "\<forall>s \<in> set (n1 @ n2). stream_entry es s \<and> (\<exists>j. snd s = unat j \<and> j \<in> fst st2 \<and> j \<notin> fst st)"
    using n1(3) n2(3) calculation(2,3) unfolding set_append by blast
  ultimately show ?thesis unfolding visits_def
    using n1(1,2) n2(1,2) by (intro conjI exI [of _ "n1 @ n2"]) auto
qed

lemma visits_mark: "visits es (insert i (fst st), snd st) st1 \<Longrightarrow> visits es st st1"
  unfolding visits_def by simp blast

lemma visits_push:
  assumes "visits es (insert i (fst st), snd st) st1" "i \<notin> fst st" "stream_entry es (nm, unat i)"
  shows "visits es st (fst st1, snd st1 @ [(nm, unat i)])"
proof -
  obtain n where n: "snd st1 = snd st @ n" "distinct (map snd n)"
    "\<forall>s \<in> set n. stream_entry es s \<and> (\<exists>j. snd s = unat j \<and> j \<in> fst st1 \<and> j \<notin> insert i (fst st))"
    "insert i (fst st) \<subseteq> fst st1"
    using assms(1) unfolding visits_def by auto
  have "unat i \<notin> snd ` set n" using n(3) by (auto dest!: bspec simp flip: word_unat_eq_iff)
  moreover have "\<forall>s \<in> set (n @ [(nm, unat i)]). stream_entry es s \<and> (\<exists>j. snd s = unat j \<and> j \<in> fst st1 \<and> j \<notin> fst st)"
    using n(3,4) assms(2,3) by auto
  ultimately show ?thesis unfolding visits_def
    using n(1,2,4) by (intro conjI exI [of _ "n @ [(nm, unat i)]"]) auto
qed

lemma walk_visits_new: "visits es st (walk es i pre st)"
proof (induction es i pre st rule: walk.induct)
  case (1 es i pre st)
  define st0 where "st0 = (insert i (fst st), snd st)"
  define e where "e = es ! unat i"
  note w = walk.simps [of es i pre st, unfolded Let_def, folded st0_def e_def]
  consider "i = no_stream \<or> unat i \<ge> length es \<or> i \<in> fst st"
    | "\<not> (i = no_stream \<or> unat i \<ge> length es \<or> i \<in> fst st)" "de_name e = [] \<or> de_typ e \<notin> {1, 2, 5}"
    | "\<not> (i = no_stream \<or> unat i \<ge> length es \<or> i \<in> fst st)" "\<not> (de_name e = [] \<or> de_typ e \<notin> {1, 2, 5})"
    by blast
  then show ?case
  proof cases
    case 1
    then show ?thesis by (simp add: w visits_refl)
  next
    case 2
    then show ?thesis using visits_mark [OF visits_refl [of es st0, unfolded st0_def]] by (simp add: w st0_def)
  next
    case 3
    note f1 = 3(1) and f2 = 3(2)
    define st1 where "st1 = walk es (de_left e) pre st0"
    define st2 where "st2 = (if de_typ e = 1 then walk es (de_child e) (pre @ [de_name e]) st1
                        else if de_typ e = 2
                        then (fst st1, snd st1 @ [(join [0x2F] (pre @ [de_name e]), unat i)])
                        else walk es (de_child e) pre st1)"
    have wr: "walk es i pre st = walk es (de_right e) pre st2"
      by (rule walk_node [OF f1 f2 e_def _ st2_def]) (simp add: st1_def st0_def)
    have "visits es st0 st1" using 1(1) [OF f1 st0_def e_def f2] by (simp add: st1_def)
    moreover have "visits es st1 st2" if "de_typ e \<noteq> 2"
      using that 1(2) [OF f1 st0_def e_def f2 st1_def] 1(3) [OF f1 st0_def e_def f2 st1_def] by (auto simp: st2_def)
    ultimately have "visits es st st2"
      using visits_push [of es i st st1] visits_mark [of es i st] visits_trans [of es st0 st1 st2] f1 f2
      by (cases "de_typ e = 2") (auto simp: st0_def st2_def stream_entry_def e_def)
    then show ?thesis using 1(4) [OF f1 st0_def e_def f2 st1_def st2_def] wr visits_trans by simp
  qed
qed

lemma visits_start:
  "visits es ({}, []) st \<Longrightarrow> distinct (map snd (snd st)) \<and> (\<forall>s \<in> set (snd st). stream_entry es s)"
  by (auto simp: visits_def)

definition flat_listing :: "dir_entry list \<Rightarrow> (str \<times> nat) list" where
  "flat_listing es = map (\<lambda>(i, e). (de_name e, i))
     (filter (\<lambda>(i, e). de_name e \<noteq> [] \<and> de_typ e = 2) (zip [0..<length es] es))"

lemma flat_listing_sound:
  "distinct (map snd (flat_listing es)) \<and> (\<forall>s \<in> set (flat_listing es). stream_entry es s)"
proof -
  have "map snd (flat_listing es)
      = map fst (filter (\<lambda>(i, e). de_name e \<noteq> [] \<and> de_typ e = 2) (zip [0..<length es] es))"
    unfolding flat_listing_def by (simp only: map_map) (rule map_cong [OF refl], auto)
  moreover have "distinct (map fst (filter (\<lambda>(i, e). de_name e \<noteq> [] \<and> de_typ e = 2) (zip [0..<length es] es)))"
    by (rule distinct_map_filter) simp
  ultimately have "distinct (map snd (flat_listing es))" by (simp only:)
  then show ?thesis by (auto simp: flat_listing_def stream_entry_def set_zip)
qed

text \<open>For any directory, cyclic or shared trees included, \<open>list_streams\<close> lists each entry at most
  once, and only entries that are streams with a name: every listed index can be read.\<close>

theorem list_streams_sound:
  "distinct (map snd (list_streams r)) \<and> (\<forall>s \<in> set (list_streams r). stream_entry (cf_entries r) s)"
proof (cases "cf_entries r \<noteq> [] \<and> snd (walk (cf_entries r) 0 [] ({}, [])) \<noteq> []")
  case True
  then show ?thesis using visits_start [OF walk_visits_new] by (simp add: list_streams_def)
next
  case False
  then have "list_streams r = flat_listing (cf_entries r)" by (auto simp: list_streams_def flat_listing_def)
  then show ?thesis using flat_listing_sound by simp
qed

theorem list_streams_sound_witness:
  "stream_entry sample_directory ([0x61, 0x2F, 0x62], 2)"
  using list_streams_sound [of "empty_reader\<lparr>cf_entries := sample_directory\<rparr>"] sample_listing by simp

end
