(* ===== verification/Cfb_Extract.thy ===== *)
theory Cfb_Extract imports Cfb_Streams begin

text \<open>
  Where the streams of a compound file are written: the output paths, what the extraction keeps
  of the file system, and the ways in which it fails.
\<close>

section \<open>Output paths\<close>

definition plain_component :: "str \<Rightarrow> bool" where
  "plain_component c = (c \<noteq> [] \<and> c \<noteq> ascii ''.'' \<and> c \<noteq> ascii ''..'' \<and> (\<forall>x \<in> set c. \<not> unsafe_char x))"

lemma safe_part_cases:
  "safe_part name = [0x5F] \<or> (\<exists>t. t \<noteq> [] \<and> \<not> (last t = 0x2E \<or> last t = 0x20)
     \<and> (\<forall>x \<in> set t. \<not> unsafe_char x) \<and> safe_part name = take 180 t)"
proof -
  define out where "out = map (\<lambda>c. if unsafe_char c then 0x5F else c) name"
  define t where "t = trim_end_matches (\<lambda>c. c = 0x2E \<or> c = 0x20) (trim out)"
  have u: "\<not> unsafe_char x" if "x \<in> set out" for x
    using that by (auto simp: out_def unsafe_char_def is_control_def split: if_splits)
  have "set t \<subseteq> set (trim out)" unfolding t_def using suffix_trim_end set_mono_prefix by blast
  also have "\<dots> \<subseteq> set out" by (simp add: trim_def set_trim_matches)
  finally have "\<forall>x \<in> set t. \<not> unsafe_char x" using u by blast
  moreover have "t \<noteq> [] \<Longrightarrow> \<not> (last t = 0x2E \<or> last t = 0x20)"
    unfolding t_def by (rule trim_end_last [where p = "\<lambda>c. c = 0x2E \<or> c = 0x20"])
  moreover have "safe_part name = (if t = [] then [0x5F] else take 180 t)"
    by (simp add: safe_part_def out_def t_def Let_def)
  ultimately show ?thesis by (cases "t = []") auto
qed

lemma safe_part_plain: "plain_component (safe_part name) \<and> length (safe_part name) \<le> 180"
proof -
  have dots: "take 180 t \<noteq> ascii ''.'' \<and> take 180 t \<noteq> ascii ''..''" if "t \<noteq> []" "last t \<noteq> 0x2E" for t
  proof (cases "length t \<le> 180")
    case True
    then show ?thesis using that by (cases t rule: rev_cases) auto
  next
    case False
    then have "length (take 180 t) = 180" by simp
    moreover have "length (ascii ''.'') \<noteq> 180" "length (ascii ''..'') \<noteq> 180" by simp_all
    ultimately show ?thesis by metis
  qed
  from safe_part_cases [of name] show ?thesis
  proof (elim disjE exE conjE)
    assume "safe_part name = [0x5F]"
    then show ?thesis by (simp add: plain_component_def unsafe_char_def is_control_def)
  next
    fix t
    assume t: "t \<noteq> []" "\<not> (last t = 0x2E \<or> last t = 0x20)" "\<forall>x \<in> set t. \<not> unsafe_char x" "safe_part name = take 180 t"
    then have "\<forall>x \<in> set (take 180 t). \<not> unsafe_char x" by (meson in_set_takeD)
    then show ?thesis using t dots [of t] by (simp add: plain_component_def del: ascii_simps)
  qed
qed

lemma stem_extension_chars:
  "stem_extension name = (stem, ext) \<Longrightarrow> set stem \<subseteq> set name \<and> (\<forall>e. ext = Some e \<longrightarrow> set e \<subseteq> set name)"
  by (auto simp: stem_extension_def Let_def split: if_splits dest!: in_set_takeD set_takeWhileD)

lemma safe_ascii: "x \<in> set (ascii ''__overflow'') \<Longrightarrow> \<not> unsafe_char x" "\<not> unsafe_char 0x2E" "\<not> unsafe_char 0x5F"
  by (auto simp: unsafe_char_def is_control_def)

lemma safe_digits: "x \<in> set (nat_digits i) \<Longrightarrow> \<not> unsafe_char x"
  using nat_digits_digit [of x i] by (auto simp: is_ascii_digit_def unsafe_char_def is_control_def)

lemma plain_component_long: "2 < length c \<Longrightarrow> \<forall>x \<in> set c. \<not> unsafe_char x \<Longrightarrow> plain_component c"
  by (auto simp: plain_component_def)

lemma numbered_length: "length stem + 2 < length (numbered_name stem ext i)"
proof -
  have "nat_digits i \<noteq> []" by (subst nat_digits.simps) simp
  then show ?thesis by (simp add: numbered_name_def)
qed

lemma numbered_plain:
  assumes "\<forall>x \<in> set stem. \<not> unsafe_char x" "\<forall>x \<in> set ext. \<not> unsafe_char x"
  shows "plain_component (numbered_name stem ext i)"
proof (rule plain_component_long)
  show "2 < length (numbered_name stem ext i)" using numbered_length [of stem ext i] by simp
  show "\<forall>x \<in> set (numbered_name stem ext i). \<not> unsafe_char x"
    using assms safe_digits [of _ i] safe_ascii(2,3) by (auto simp: numbered_name_def)
qed

lemma overflow_plain:
  assumes "\<forall>x \<in> set stem. \<not> unsafe_char x"
  shows "plain_component (stem @ ascii ''__overflow'')"
  by (rule plain_component_long) (use assms safe_ascii(1) in \<open>auto simp del: ascii_simps simp: ascii_def\<close>)

lemma first_free_cases:
  "(\<exists>j. first_free fs parent stem ext i = parent @ [numbered_name stem ext j])
   \<or> first_free fs parent stem ext i = parent @ [stem @ ascii ''__overflow'']"
proof (induction fs parent stem ext i rule: first_free.induct)
  case (1 fs parent stem ext i)
  then show ?case by (auto simp: first_free.simps [of fs parent stem ext i] Let_def)
qed

text \<open>The last component of an existing base is replaced; its new name is built from its characters.\<close>

lemma first_free_base:
  assumes "base \<noteq> []" "stem = (case file_stem base of Some s \<Rightarrow> s | None \<Rightarrow> ascii ''_'')"
    "ext = (case extension base of Some s \<Rightarrow> s | None \<Rightarrow> [])" "\<forall>x \<in> set (last base). \<not> unsafe_char x"
  shows "\<exists>c. first_free fs parent stem ext 1 = parent @ [c] \<and> plain_component c"
proof -
  obtain s e where se: "stem_extension (last base) = (s, e)" by (cases "stem_extension (last base)")
  have "\<forall>x \<in> set stem. \<not> unsafe_char x" "\<forall>x \<in> set ext. \<not> unsafe_char x"
    using stem_extension_chars [OF se] se assms safe_ascii(3)
    by (auto simp: file_stem_def extension_def split: if_splits option.splits)
  then show ?thesis using first_free_cases [of fs parent stem ext 1] numbered_plain [of stem ext] overflow_plain [of stem]
    by blast
qed

lemma stream_parts_plain: "c \<in> set (stream_parts stream) \<Longrightarrow> plain_component c"
  by (auto simp: stream_parts_def safe_part_plain)

lemma suffix_component_plain: "plain_component (ascii ''__stream'')"
  by (rule plain_component_long) (auto simp: unsafe_char_def is_control_def)



text \<open>A stream whose path has no component (one named with slashes only) escapes: with the output
  root in place, its output path is a sibling of the root.\<close>

theorem unique_output_path_escapes:
  assumes "stream_parts stream = []" "[] \<notin> P" "fs root \<noteq> None" "root \<noteq> []"
  shows "\<exists>c. unique_output_path fs root stream P = butlast root @ [c]"
  using assms first_free_cases [of fs "butlast root"]
  by (auto simp: unique_output_path_def Let_def) blast

theorem unique_output_path_escapes_witness:
  "\<exists>c. unique_output_path [[[0x6F]] \<mapsto> Dir] [[0x6F]] [0x2F] (stream_prefixes [([0x2F], 1)]) = [] @ [c]"
proof -
  have "\<exists>c. unique_output_path [[[0x6F]] \<mapsto> Dir] [[0x6F]] [0x2F] (stream_prefixes [([0x2F], 1)]) = butlast [[0x6F]] @ [c]"
    by (rule unique_output_path_escapes) (simp_all add: stream_parts_def stream_prefixes_def)
  then show ?thesis by simp
qed

section \<open>What the extraction keeps\<close>

text \<open>The candidate names are numbered below a million; a file system with fewer entries than that
  always has a free one.\<close>

definition roomy :: "file_system \<Rightarrow> bool" where
  "roomy fs = (finite (dom fs) \<and> card (dom fs) < 999999)"

lemma roomy_subset: "roomy fs' \<Longrightarrow> dom fs \<subseteq> dom fs' \<Longrightarrow> roomy fs"
  unfolding roomy_def using card_mono [of "dom fs'" "dom fs"] finite_subset [of "dom fs" "dom fs'"] by simp

lemma numbered_name_inject: "numbered_name stem ext i = numbered_name stem ext j \<Longrightarrow> i = j"
  using nat_digits_inject by (auto simp: numbered_name_def split: if_splits)

lemma first_free_free:
  "i \<le> j \<Longrightarrow> j < 1000000 \<Longrightarrow> fs (parent @ [numbered_name stem ext j]) = None \<Longrightarrow>
   fs (first_free fs parent stem ext i) = None"
proof (induction fs parent stem ext i rule: first_free.induct)
  case (1 fs parent stem ext i)
  show ?case
  proof (cases "fs (parent @ [numbered_name stem ext i]) = None")
    case True
    then show ?thesis using "1.prems" by (simp add: first_free.simps [of fs parent stem ext i] Let_def)
  next
    case False
    then have "i \<noteq> j" using "1.prems" by auto
    then show ?thesis using 1 False by (simp add: first_free.simps [of fs parent stem ext i] Let_def)
  qed
qed

lemma roomy_candidate:
  assumes "roomy fs"
  shows "\<exists>j. 1 \<le> j \<and> j < 1000000 \<and> fs (parent @ [numbered_name stem ext j]) = None"
proof (rule ccontr)
  assume "\<not> ?thesis"
  then have "(\<lambda>j. parent @ [numbered_name stem ext j]) ` {1..<1000000} \<subseteq> dom fs" by auto
  moreover have "inj_on (\<lambda>j. parent @ [numbered_name stem ext j]) {1..<1000000}"
    by (rule inj_onI) (simp add: numbered_name_inject)
  ultimately have "card {1..<1000000::nat} \<le> card (dom fs)"
    using assms card_inj_on_le unfolding roomy_def by blast
  then show False using assms by (simp add: roomy_def)
qed

lemma output_path_free:
  assumes "roomy fs"
  shows "fs (unique_output_path fs root stream P) = None"
proof -
  have "fs (first_free fs parent stem ext 1) = None" for parent stem ext
    using roomy_candidate [OF assms] first_free_free by blast
  then show ?thesis unfolding unique_output_path_def Let_def by (simp split: if_split)
qed

lemma create_dir_all_keeps:
  assumes "fs_create_dir_all fs p = Ok fs'"
  shows "fs q = Some n \<Longrightarrow> fs' q = Some n" "fs' q \<noteq> fs q \<Longrightarrow> fs' q = Some Dir" "length q > length p \<Longrightarrow> fs' q = fs q"
  using assms by (auto simp: fs_create_dir_all_def split: option.splits if_splits)

lemma extract_stream_Ok:
  assumes "extract_stream r root P (stream, i) (fs, files, sz) = Ok (fs', files', sz')"
  obtains data fs1 where "read_stream_entry r i = Ok data"
    "fs1 = fs \<or> fs_create_dir_all fs (butlast (unique_output_path fs root stream P)) = Ok fs1"
    "fs1 (unique_output_path fs root stream P) \<noteq> Some Dir"
    "fs' = fs1(unique_output_path fs root stream P \<mapsto> File data)"
    "files' = files @ [\<lparr>xs_stream = stream, xs_output = unique_output_path fs root stream P, xs_size = length data\<rparr>]"
    "sz' = sz + length data"
  using assms
  by (auto simp: extract_stream_def and_then_Ok_iff Let_def fs_write_def split: if_splits)

lemma extract_stream_dom:
  "extract_stream r root P s (fs, files, sz) = Ok (fs', files', sz') \<Longrightarrow> dom fs \<subseteq> dom fs'"
  by (cases s, clarsimp, erule extract_stream_Ok) (auto dest: create_dir_all_keeps(1))

lemma extract_streams_dom:
  assumes "ok_fold (extract_stream r root P) streams st = Ok st'"
  shows "dom (fst st) \<subseteq> dom (fst st')"
proof (rule ok_fold_invariant [OF assms, where P = "\<lambda>s. dom (fst st) \<subseteq> dom (fst s)"])
  fix x and s s' :: "file_system \<times> extracted_stream list \<times> nat"
  assume "extract_stream r root P x s = Ok s'" "dom (fst st) \<subseteq> dom (fst s)"
  then show "dom (fst st) \<subseteq> dom (fst s')"
    using extract_stream_dom [of r root P x "fst s" "fst (snd s)" "snd (snd s)" "fst s'" "fst (snd s')" "snd (snd s')"]
    by simp
qed simp

text \<open>What holds after each stream: every file of the start is as it was, the reported files hold what was
  read for them, under different paths, and the total is the sum of their sizes.\<close>

definition extracted :: "cfb_reader \<Rightarrow> file_system \<Rightarrow> file_system \<times> extracted_stream list \<times> nat \<Rightarrow> bool" where
  "extracted r fs0 st = (let (fs, files, sz) = st in
     (\<forall>p n. fs0 p = Some n \<longrightarrow> fs p = Some n)
     \<and> (\<forall>f \<in> set files. fs0 (xs_output f) = None \<and> (\<exists>i d. read_stream_entry r i = Ok d
          \<and> fs (xs_output f) = Some (File d) \<and> xs_size f = length d))
     \<and> distinct (map xs_output files) \<and> sz = sum_list (map xs_size files))"

lemma extract_stream_extracted:
  assumes "extract_stream r root P (stream, i) (fs, files, sz) = Ok (fs', files', sz')"
    "extracted r fs0 (fs, files, sz)" "roomy fs"
  shows "extracted r fs0 (fs', files', sz')"
proof -
  let ?out = "unique_output_path fs root stream P"
  obtain data fs1 where d: "read_stream_entry r i = Ok data"
    "fs1 = fs \<or> fs_create_dir_all fs (butlast ?out) = Ok fs1"
    "fs' = fs1(?out \<mapsto> File data)"
    "files' = files @ [\<lparr>xs_stream = stream, xs_output = ?out, xs_size = length data\<rparr>]"
    "sz' = sz + length data"
    using extract_stream_Ok [OF assms(1)] by metis
  have free: "fs ?out = None" by (rule output_path_free [OF assms(3)])
  have keep: "fs p = Some n \<Longrightarrow> fs' p = Some n" for p n
    using d(2,3) free create_dir_all_keeps(1) by (auto split: if_splits)
  have "fs0 ?out = None" using assms(2) free by (cases "fs0 ?out") (auto simp: extracted_def)
  moreover have "?out \<notin> xs_output ` set files" using assms(2) free by (force simp: extracted_def)
  moreover have "fs' ?out = Some (File data)" using d(3) by simp
  moreover have "\<forall>p n. fs0 p = Some n \<longrightarrow> fs' p = Some n" using assms(2) keep by (simp add: extracted_def)
  moreover have "\<forall>f \<in> set files. fs0 (xs_output f) = None \<and> (\<exists>i d. read_stream_entry r i = Ok d
          \<and> fs' (xs_output f) = Some (File d) \<and> xs_size f = length d)"
    using assms(2) keep by (simp add: extracted_def) blast
  moreover have "distinct (map xs_output files)" "sz = sum_list (map xs_size files)"
    using assms(2) by (simp_all add: extracted_def)
  ultimately show ?thesis using d(1) unfolding extracted_def d(4,5) Let_def prod.case
    by (intro conjI) auto
qed

lemma extract_streams_extracted:
  assumes "ok_fold (extract_stream r root P) streams st = Ok st'" "extracted r fs0 st" "roomy (fst st')"
  shows "extracted r fs0 st'" and "dom (fst st) \<subseteq> dom (fst st')" and "length (fst (snd st')) = length (fst (snd st)) + length streams"
proof -
  have "extracted r fs0 st' \<and> dom (fst st) \<subseteq> dom (fst st')
      \<and> length (fst (snd st')) = length (fst (snd st)) + length streams"
    using assms(1,2)
  proof (induction streams arbitrary: st)
    case (Cons s streams)
    obtain stream i where s: "s = (stream, i)" by (cases s)
    obtain st1 where st1: "extract_stream r root P s st = Ok st1" "ok_fold (extract_stream r root P) streams st1 = Ok st'"
      using Cons.prems(1) by (auto simp: and_then_Ok_iff)
    obtain fs files sz fs1 files1 sz1 where e: "st = (fs, files, sz)" "st1 = (fs1, files1, sz1)"
      by (cases st, cases st1) auto
    note dom1 = extract_stream_dom [OF st1(1) [unfolded e]]
    have dom2: "dom fs1 \<subseteq> dom (fst st')" using extract_streams_dom [OF st1(2)] by (simp add: e)
    have dom: "dom fs \<subseteq> dom (fst st')" using dom1 dom2 by blast
    then have "roomy fs" using assms(3) roomy_subset by blast
    then have x1: "extracted r fs0 st1"
      using extract_stream_extracted [OF st1(1) [unfolded e s] Cons.prems(2) [unfolded e]] by (simp add: e)
    have "length files1 = length files + 1" by (rule extract_stream_Ok [OF st1(1) [unfolded e s]]) simp
    moreover note ih = Cons.IH [OF st1(2) x1]
    ultimately have "length (fst (snd st')) = length (fst (snd st)) + length (s # streams)" by (simp add: e)
    moreover have "dom (fst st) \<subseteq> dom (fst st')" using dom by (simp only: e fst_conv)
    ultimately show ?case using ih by blast
  qed simp
  then show "extracted r fs0 st'" "dom (fst st) \<subseteq> dom (fst st')"
    "length (fst (snd st')) = length (fst (snd st)) + length streams" by blast+
qed

section \<open>Opening a volume\<close>

lemma cfb_read_u16_Ok: "off + 2 \<le> length data \<Longrightarrow> cfb_read_u16 data off = Ok (u16_from_le (take 2 (drop off data)))"
  by (simp add: cfb_read_u16_def subslice_def)

lemma cfb_read_u32_Ok: "off + 4 \<le> length data \<Longrightarrow> cfb_read_u32 data off = Ok (u32_from_le (take 4 (drop off data)))"
  by (simp add: cfb_read_u32_def subslice_def)

lemma difat_entries_Ok: "base + n * 4 \<le> length raw \<Longrightarrow> \<exists>ids'. difat_entries r raw base n ids = Ok ids'"
  unfolding difat_entries_def
  by (intro exI, rule ok_fold_pure [where g = "\<lambda>i. difat_add r (u32_from_le (take 4 (drop (base + i * 4) raw)))"])
     (simp add: cfb_read_u32_Ok)

lemma difat_loop_Ok: "cf_sector_size r = 512 \<Longrightarrow> \<exists>ids'. difat_loop r n sector visited ids = Ok ids'"
proof (induction n arbitrary: sector visited ids)
  case (Suc n)
  let ?raw = "sector_bytes r sector"
  show ?case
  proof (cases "chain_end sector \<or> \<not> valid_sector r sector \<or> sector \<in> visited \<or> length ?raw \<noteq> 512")
    case True
    then show ?thesis using Suc.prems by (auto simp: Let_def)
  next
    case False
    then obtain ids1 where ids1: "difat_entries r ?raw 0 127 ids = Ok ids1"
      using difat_entries_Ok [of 0 127 ?raw r ids] by auto
    have "cfb_read_u32 ?raw 508 = Ok (u32_from_le (take 4 (drop 508 ?raw)))"
      using False by (intro cfb_read_u32_Ok) simp
    then show ?thesis using False Suc ids1 by (auto simp: Let_def)
  qed
qed simp

lemma read_difat_Ok:
  assumes "cf_sector_size r = 512" "512 \<le> length (cf_data r)"
  shows "\<exists>ids. read_difat r = Ok ids"
proof -
  obtain ids where ids: "difat_entries r (cf_data r) 76 109 [] = Ok ids"
    using difat_entries_Ok [of 76 109 "cf_data r" r "[]"] assms(2) by auto
  then show ?thesis
    using difat_loop_Ok [OF assms(1), of "unat (cf_num_difat_sectors r)" "cf_first_difat_sector r" "{}" ids]
    by (auto simp: read_difat_def)
qed

text \<open>The fields of a reader that \<open>cfb_open\<close> builds from the header.\<close>

definition opened :: "bytes \<Rightarrow> cfb_reader \<Rightarrow> bool" where
  "opened data r = (cf_data r = data \<and> cf_sector_size r = 512
     \<and> cf_mini_sector_size r = 2 ^ u16_at data 32
     \<and> cf_max_sector r = word_of_nat (length data div 512 - 1)
     \<and> (\<exists>r0. cf_data r0 = data \<and> cf_sector_size r0 = 512 \<and> cf_entries r = read_directory r0))"

lemma u16_at_word: "unat (u16_from_le (take 2 (drop i data))) = u16_at data i"
  by (simp add: u16_at_def unat_u16_from_le)

lemma cfb_open_header:
  assumes "starts_with data cfb_magic" "512 \<le> length data"
  shows "u16_at data 30 \<ge> 64 \<or> u16_at data 32 \<ge> 64 \<Longrightarrow> cfb_open data = Panic"
    and "u16_at data 30 < 64 \<Longrightarrow> u16_at data 32 < 64 \<Longrightarrow> u16_at data 30 \<noteq> 9 \<Longrightarrow>
      cfb_open data = Err (Unsupported_sector_size (2 ^ u16_at data 30))"
    and "u16_at data 30 = 9 \<Longrightarrow> u16_at data 32 < 64 \<Longrightarrow> \<exists>r. cfb_open data = Ok r \<and> opened data r"
proof -
  have len: "(length data < 512) = False" using assms(2) by simp
  note head = cfb_open_def assms(1) len cfb_read_u16_Ok cfb_read_u32_Ok u16_at_word ushl1_def
  show "u16_at data 30 \<ge> 64 \<or> u16_at data 32 \<ge> 64 \<Longrightarrow> cfb_open data = Panic"
    using assms(2) by (auto simp: head)
  have "(2::nat) ^ n = 512 \<longleftrightarrow> n = 9" for n
    using power_inject_exp [of "2::nat" n 9] by simp
  then show "u16_at data 30 < 64 \<Longrightarrow> u16_at data 32 < 64 \<Longrightarrow> u16_at data 30 \<noteq> 9 \<Longrightarrow>
      cfb_open data = Err (Unsupported_sector_size (2 ^ u16_at data 30))"
    using assms(2) by (simp add: head)
  assume s: "u16_at data 30 = 9" "u16_at data 32 < 64"
  define u where "u i = u32_from_le (take 4 (drop i data))" for i
  define r0 where "r0 = \<lparr>cf_data = data, cf_sector_size = 512, cf_mini_sector_size = 2 ^ u16_at data 32,
     cf_num_fat_sectors = u 44, cf_first_directory_sector = u 48, cf_mini_stream_cutoff = u 56,
     cf_first_mini_fat_sector = u 60, cf_num_mini_fat_sectors = u 64, cf_first_difat_sector = u 68,
     cf_num_difat_sectors = u 72, cf_max_sector = word_of_nat (length data div 512 - 1), cf_fat = [],
     cf_entries = [], cf_mini_fat = [], cf_root_mini_stream = []\<rparr>"
  obtain ids where ids: "read_difat r0 = Ok ids"
    using read_difat_Ok [of r0] assms(2) by (auto simp: r0_def)
  define r1 where "r1 = r0\<lparr>cf_fat := read_fat r0 ids\<rparr>"
  define r2 where "r2 = r1\<lparr>cf_entries := read_directory r1\<rparr>"
  define r3 where "r3 = r2\<lparr>cf_mini_fat := read_mini_fat r2\<rparr>"
  have "cfb_open data = Ok (r3\<lparr>cf_root_mini_stream := read_root_mini_stream r3\<rparr>)"
  proof -
    have w: "cfb_read_u32 data i = Ok (u i)" if "i \<in> {44, 48, 56, 60, 64, 68, 72}" for i
      using that assms(2) by (auto simp: cfb_read_u32_Ok u_def)
    have h: "cfb_read_u16 data 30 = Ok (u16_from_le (take 2 (drop 30 data)))"
      "cfb_read_u16 data 32 = Ok (u16_from_le (take 2 (drop 32 data)))"
      "or_panic (ushl1 (unat (u16_from_le (take 2 (drop 30 data))))) = Ok 512"
      "or_panic (ushl1 (unat (u16_from_le (take 2 (drop 32 data))))) = Ok (2 ^ u16_at data 32)"
      using assms(2) s by (simp_all add: cfb_read_u16_Ok u16_at_word ushl1_def)
    have f: "(\<not> starts_with data cfb_magic) = False" "((512::nat) \<noteq> 512) = False" using assms(1) by simp_all
    show ?thesis
      by (simp only: cfb_open_def f len if_False h w insert_iff simp_thms and_then.simps Let_def
          r0_def [symmetric] ids r1_def [symmetric] r2_def [symmetric] r3_def [symmetric])
  qed
  moreover have "opened data (r3\<lparr>cf_root_mini_stream := read_root_mini_stream r3\<rparr>)"
    unfolding opened_def by (intro conjI exI [of _ r1]) (simp_all add: r3_def r2_def r1_def r0_def)
  ultimately show "\<exists>r. cfb_open data = Ok r \<and> opened data r" by blast
qed

text \<open>\<open>cfb_open\<close> succeeds exactly on the files that start with the magic, are at least 512 bytes long and
  have 512-byte sectors and a mini sector shift below 64; a shift of 64 or more, of either size,
  makes it panic, and nothing else does.\<close>

theorem cfb_open_exact:
  "((\<exists>r. cfb_open data = Ok r) \<longleftrightarrow>
     starts_with data cfb_magic \<and> 512 \<le> length data \<and> u16_at data 30 = 9 \<and> u16_at data 32 < 64)
   \<and> (cfb_open data = Panic \<longleftrightarrow>
     starts_with data cfb_magic \<and> 512 \<le> length data \<and> (64 \<le> u16_at data 30 \<or> 64 \<le> u16_at data 32))"
proof (cases "starts_with data cfb_magic \<and> 512 \<le> length data")
  case True
  then show ?thesis
    using cfb_open_header [of data]
    by (cases "u16_at data 30 \<ge> 64 \<or> u16_at data 32 \<ge> 64"; cases "u16_at data 30 = 9") auto
next
  case False
  then show ?thesis by (auto simp: cfb_open_def)
qed

section \<open>The whole extraction\<close>

text \<open>C20. An extraction that returns has written what it reports: the report counts its files and their bytes,
  every reported path holds a file of the reported size, the paths are all different, and every file
  that was there before, outside the output root when that is cleaned, is unchanged; as long as
  the file system has less than 999999 entries.\<close>

theorem extract_cfb_reports:
  assumes "extract_cfb_with_limit fs input root clean limit = Ok (fs', rep)" "roomy fs'"
  shows "cr_streams rep = length (cr_files rep) \<and> cr_bytes rep = sum_list (map xs_size (cr_files rep))
    \<and> distinct (map xs_output (cr_files rep))
    \<and> (\<forall>f \<in> set (cr_files rep). \<exists>d. fs' (xs_output f) = Some (File d) \<and> xs_size f = length d
          \<and> (clean \<and> starts_with (xs_output f) root \<or> fs (xs_output f) = None))
    \<and> (\<forall>p d. fs p = Some (File d) \<longrightarrow> \<not> (clean \<and> starts_with p root) \<longrightarrow> fs' p = Some (File d))"
proof -
  obtain fs1 fs2 data r where steps:
    "(if clean \<and> fs root \<noteq> None then fs_remove_dir_all fs root else Ok fs) = Ok fs1"
    "fs_create_dir_all fs1 root = Ok fs2" "fs_read fs2 input = Ok data" "cfb_open data = Ok r"
    using assms(1) by (auto simp: extract_cfb_with_limit_def and_then_Ok_iff Let_def)
  obtain streams files sz where fold:
    "ok_fold (extract_stream r root (stream_prefixes (list_streams r))) streams (fs2, [], 0) = Ok (fs', files, sz)"
    "cr_files rep = files" "cr_streams rep = length files" "cr_bytes rep = sz"
    using assms(1) steps by (auto simp: extract_cfb_with_limit_def and_then_Ok_iff Let_def)
  have "extracted r fs2 (fs2, [], 0)" by (simp add: extracted_def)
  then have x: "extracted r fs2 (fs', files, sz)"
    using extract_streams_extracted(1) [OF fold(1)] assms(2) by simp
  have kept: "fs2 p = Some n" if "fs p = Some n" "\<not> (clean \<and> starts_with p root)" for p n
    using steps(1) create_dir_all_keeps(1) [OF steps(2), of p n] that
    by (auto simp: fs_remove_dir_all_def split: if_splits)
  have new: "clean \<and> starts_with p root \<or> fs p = None" if "fs2 p = None" for p
    using kept [of p] that by (cases "fs p") auto
  show ?thesis using x kept new unfolding extracted_def fold(2-4) prod.case Let_def by blast
qed

definition minimal_volume :: bytes where
  "minimal_volume = cfb_magic @ replicate 22 0 @ [9, 0, 6, 0] @ replicate 478 0"

lemma minimal_volume_opens: "\<exists>r. cfb_open minimal_volume = Ok r \<and> list_streams r = []"
proof -
  have l: "length minimal_volume = 512" by (simp add: minimal_volume_def cfb_magic_def)
  have m: "starts_with minimal_volume cfb_magic" by (simp add: minimal_volume_def)
  have s: "u16_at minimal_volume 30 = 9" "u16_at minimal_volume 32 = 6"
    by (simp_all add: minimal_volume_def cfb_magic_def u16_at_def)
  obtain r where r: "cfb_open minimal_volume = Ok r" "opened minimal_volume r"
    using cfb_open_header(3) [OF m] l s by auto
  obtain r0 where r0: "cf_data r0 = minimal_volume" "cf_sector_size r0 = 512" "cf_entries r = read_directory r0"
    using r(2) by (auto simp: opened_def)
  have "sector_bytes r0 s = []" for s
    using r0(1,2) l by (auto simp: sector_bytes_def subslice_def Let_def split: option.split)
  then have "concat (map (sector_bytes r0) xs) = []" for xs by simp
  then have "cf_entries r = []"
    by (simp only: r0 read_directory_def read_sector_chain_def Let_def option.case) (simp add: chunks_exact.simps)
  then show ?thesis using r(1) by (auto simp: list_streams_def)
qed

theorem extract_cfb_reports_witness:
  "\<exists>fs' rep. extract_cfb_with_limit [[] \<mapsto> Dir, [[0x69]] \<mapsto> File minimal_volume] [[0x69]] [[0x6F]] False None = Ok (fs', rep)
     \<and> cr_streams rep = length (cr_files rep) \<and> fs' [[0x69]] = Some (File minimal_volume)"
proof -
  let ?fs = "[[] \<mapsto> Dir, [[0x69]] \<mapsto> File minimal_volume] :: file_system"
  let ?fs' = "\<lambda>q. if take (length q) [[0x6F]] = q \<and> ?fs q = None then Some Dir else ?fs q"
  obtain r where r: "cfb_open minimal_volume = Ok r" "list_streams r = []" using minimal_volume_opens by blast
  have c: "fs_create_dir_all ?fs [[0x6F]] = Ok ?fs'"
    by (simp add: fs_create_dir_all_def)
  have rd: "fs_read ?fs' [[0x69]] = Ok minimal_volume" by (simp add: fs_read_def)
  obtain rep where e: "extract_cfb_with_limit ?fs [[0x69]] [[0x6F]] False None = Ok (?fs', rep)"
    using r rd by (simp add: extract_cfb_with_limit_def c)
  have "dom ?fs' \<subseteq> {[], [[0x69]], [[0x6F]]}"
  proof
    fix q
    assume "q \<in> dom ?fs'"
    then show "q \<in> {[], [[0x69]], [[0x6F]]}" by (cases q) (auto split: if_splits)
  qed
  then have "roomy ?fs'" using card_mono [of "{[], [[0x69]], [[0x6F]]}" "dom ?fs'"] finite_subset
    by (auto simp: roomy_def)
  then have "cr_streams rep = length (cr_files rep)"
    "\<And>p d. ?fs p = Some (File d) \<Longrightarrow> ?fs' p = Some (File d)" using extract_cfb_reports [OF e] by blast+
  then show ?thesis using e by auto
qed

section \<open>Failures\<close>

lemma safe_part_plain_ascii:
  "name \<noteq> [] \<Longrightarrow> \<forall>c \<in> set name. is_ascii_uppercase c \<or> is_ascii_lowercase c \<or> c = 0x5F \<Longrightarrow> length name \<le> 180 \<Longrightarrow>
   safe_part name = name"
proof -
  assume n: "name \<noteq> []" "\<forall>c \<in> set name. is_ascii_uppercase c \<or> is_ascii_lowercase c \<or> c = 0x5F" "length name \<le> 180"
  have c: "map (\<lambda>c. if unsafe_char c then 0x5F else c) name = name"
    using n(2) by (intro map_idI) (auto simp: unsafe_char_def is_control_def is_ascii_uppercase_def is_ascii_lowercase_def)
  have "dropWhile P name = name" "dropWhile P (rev name) = rev name"
    if "\<And>c. c \<in> set name \<Longrightarrow> \<not> P c" for P
    using that n(1) by (auto simp: dropWhile_eq_self_iff hd_rev)
  moreover have "\<not> is_whitespace c \<and> c \<noteq> 0x2E \<and> c \<noteq> 0x20" if "c \<in> set name" for c
    using n(2) that by (auto simp: is_whitespace_def is_ascii_uppercase_def is_ascii_lowercase_def)
  ultimately have "trim name = name" "trim_end_matches (\<lambda>c. c = 0x2E \<or> c = 0x20) name = name"
    by (simp_all add: trim_def trim_matches_def trim_end_matches_def)
  then show ?thesis using n(1,3) by (simp add: safe_part_def c)
qed

abbreviation name_A :: str where "name_A \<equiv> ascii ''A''"
abbreviation name_C :: str where "name_C \<equiv> ascii ''C''"
abbreviation name_stream :: str where "name_stream \<equiv> ascii ''__stream''"

lemma clash_parts:
  "stream_parts (ascii ''A'') = [name_A]"
  "stream_parts (ascii ''A/__stream/C'') = [name_A, name_stream, name_C]"
  by (simp_all add: stream_parts_def safe_part_plain_ascii is_ascii_uppercase_def is_ascii_lowercase_def)

lemma clash_prefixes:
  "stream_prefixes [(ascii ''A'', i), (ascii ''A/__stream/C'', j)] = {[name_A], [name_A, name_stream]}"
  unfolding stream_prefixes_def by (simp add: clash_parts upt_rec Let_def del: ascii_simps)

text \<open>The suffix that makes room for a stream beside the storage of the same path is not itself checked
  against the storages: of the streams \<open>A\<close> and \<open>A/__stream/C\<close> the first is written to the file
  \<open>A/__stream\<close>, which the second then needs as a directory, and the extraction stops with an error.\<close>

theorem extract_stream_name_clash:
  assumes "read_stream_entry r i = Ok d" "read_stream_entry r j = Ok d'"
  shows "ok_fold (extract_stream r [] (stream_prefixes [(ascii ''A'', i), (ascii ''A/__stream/C'', j)]))
     [(ascii ''A'', i), (ascii ''A/__stream/C'', j)] ([[] \<mapsto> Dir], [], 0)
   = Err (Not_a_directory [name_A, name_stream])"
proof -
  let ?P = "{[name_A], [name_A, name_stream]}"
  let ?fs = "[[] \<mapsto> Dir] :: file_system"
  define fs1 where "fs1 = (\<lambda>q. if take (length q) [name_A] = q \<and> ?fs q = None then Some Dir else ?fs q)"
  define fs2 where "fs2 = fs1([name_A, name_stream] \<mapsto> File d)"
  have ne: "name_A \<noteq> name_stream" "name_C \<noteq> name_stream" by simp_all
  have o1: "unique_output_path ?fs [] (ascii ''A'') ?P = [name_A, name_stream]"
    unfolding unique_output_path_def clash_parts by simp
  have c1: "fs_create_dir_all ?fs [name_A] = Ok fs1"
    by (simp add: fs_create_dir_all_def fs1_def del: ascii_simps)
  have w1: "fs_write fs1 [name_A, name_stream] d = Ok fs2"
    by (simp add: fs_write_def fs1_def fs2_def del: ascii_simps)
  have o2: "unique_output_path fs2 [] (ascii ''A/__stream/C'') ?P = [name_A, name_stream, name_C]"
    unfolding unique_output_path_def clash_parts by (simp add: fs2_def fs1_def del: ascii_simps)
  have c2: "fs_create_dir_all fs2 [name_A, name_stream] = Err (Not_a_directory [name_A, name_stream])"
    by (simp add: fs_create_dir_all_def fs2_def fs1_def upt_rec del: ascii_simps)
  have "extract_stream r [] ?P (ascii ''A'', i) (?fs, [], 0)
      = Ok (fs2, [\<lparr>xs_stream = ascii ''A'', xs_output = [name_A, name_stream], xs_size = length d\<rparr>], length d)"
    by (simp add: extract_stream_def assms(1) o1 c1 w1 Let_def del: ascii_simps)
  moreover have "extract_stream r [] ?P (ascii ''A/__stream/C'', j) (fs2, fl, sz) = Err (Not_a_directory [name_A, name_stream])"
    for fl sz
    by (simp add: extract_stream_def assms(2) o2 c2 Let_def del: ascii_simps)
  ultimately show ?thesis by (simp add: clash_prefixes del: ascii_simps)
qed

theorem extract_stream_name_clash_witness:
  "ok_fold (extract_stream sample_reader [] (stream_prefixes [(ascii ''A'', 0), (ascii ''A/__stream/C'', 0)]))
     [(ascii ''A'', 0), (ascii ''A/__stream/C'', 0)] ([[] \<mapsto> Dir], [], 0)
   = Err (Not_a_directory [name_A, name_stream])"
  by (rule extract_stream_name_clash [OF sample_read sample_read])

text \<open>A mini sector size of \<open>2 ^ 63\<close>, which \<open>cfb_open\<close> accepts, makes reading a stream of the mini FAT
  panic: the offset of its sector overflows.\<close>

theorem read_stream_entry_overflow:
  assumes "i < length (cf_entries r)" "uses_mini_stream r (cf_entries r ! i)" "de_size (cf_entries r ! i) \<noteq> 0"
    "mini_usable r (de_start (cf_entries r ! i))" "2 \<le> unat (de_start (cf_entries r ! i))"
    "cf_mini_sector_size r = 2 ^ 63"
  shows "read_stream_entry r i = Panic"
proof -
  let ?s = "de_start (cf_entries r ! i)"
  obtain ids where ids: "mini_chain r ?s = ?s # ids"
    using mini.walked_start [OF _ assms(4)] by (cases "mini_chain r ?s") auto
  have "mini_sector_bytes r ?s = None"
    using assms(5,6) by (simp add: mini_sector_bytes_def umul_def usize_limit_def)
  then have "try_fold (\<lambda>s out. map_option (\<lambda>b. out @ b) (mini_sector_bytes r s)) (mini_chain r ?s) [] = None"
    by (simp add: ids)
  then show ?thesis using assms by (simp add: read_stream_entry_def idx_def uses_mini_stream_def mini_usable_def)
qed

theorem read_stream_entry_overflow_witness:
  "read_stream_entry (sample_reader\<lparr>cf_mini_sector_size := 2 ^ 63\<rparr>) 1 = Panic"
  by (rule read_stream_entry_overflow)
     (simp_all add: sample_reader_def uses_mini_stream_def mini_usable_def chain_end_def freesect_def endofchain_def)

end
