(* ===== verification/Tea.thy ===== *)
theory Tea imports Outcome Qq_Hash begin

text \<open>
  The cipher of the info storage (\<open>info_storage.rs\<close>): one TEA block of 16 rounds, the chained
  mode with a random number of padding bytes, and the key as hexadecimal text.
\<close>

section \<open>One block\<close>

definition u32_to_be :: "u32 \<Rightarrow> bytes" where
  "u32_to_be w = rev (nat_le 4 (unat w))"

definition be_word_at :: "bytes \<Rightarrow> nat \<Rightarrow> u32" where
  "be_word_at bs i = u32_from_be (take 4 (drop i bs))"

definition tea_delta :: u32 where "tea_delta = 0x9e3779b9"

definition tea_mix :: "u32 \<Rightarrow> u32 \<Rightarrow> u32 \<Rightarrow> u32 \<Rightarrow> u32" where
  "tea_mix v s ka kb = (push_bit 4 v + ka) XOR (v + s) XOR (drop_bit 5 v + kb)"

fun tea_decipher_round :: "bytes \<Rightarrow> u32 \<times> u32 \<times> u32 \<Rightarrow> u32 \<times> u32 \<times> u32" where
  "tea_decipher_round key (y, z, s) =
     (let z' = z - tea_mix y s (be_word_at key 8) (be_word_at key 12);
          y' = y - tea_mix z' s (be_word_at key 0) (be_word_at key 4)
      in (y', z', s - tea_delta))"

definition tea_decipher_block :: "bytes \<Rightarrow> bytes \<Rightarrow> bytes" where
  "tea_decipher_block block key =
     (let (y, z, _) = (tea_decipher_round key ^^ 16) (be_word_at block 0, be_word_at block 4, 0xe3779b90)
      in u32_to_be y @ u32_to_be z)"

section \<open>The chained mode\<close>

datatype tea_error =
    Bad_cipher_length
  | Negative_plaintext_length
  | Ended_before_next_block
  | Ended_in_salt
  | Ended_in_plaintext

record tea_state =
  ts_plain :: bytes
  ts_pos :: nat
  ts_crypt :: nat
  ts_pre_cipher :: bytes

definition xor_bytes :: "bytes \<Rightarrow> bytes \<Rightarrow> bytes" where
  "xor_bytes a b = map2 (XOR) a b"

definition next_block :: "bytes \<Rightarrow> bytes \<Rightarrow> tea_state \<Rightarrow> (tea_error, tea_state) outcome" where
  "next_block cipher key st =
     (if ts_crypt st \<ge> length cipher then Err Ended_before_next_block
      else and_then (or_panic (subslice cipher (ts_crypt st) (ts_crypt st + 8))) (\<lambda>block.
           and_then (or_panic (subslice cipher (ts_crypt st - 8) (ts_crypt st))) (\<lambda>prev.
           Ok \<lparr>ts_plain = tea_decipher_block (xor_bytes (ts_plain st) block) key, ts_pos = 0,
               ts_crypt = ts_crypt st + 8, ts_pre_cipher = prev\<rparr>)))"

lemma next_block_advances: "next_block cipher key st = Ok st' \<Longrightarrow> ts_crypt st < length cipher \<and> ts_crypt st' = ts_crypt st + 8"
  by (auto simp: next_block_def and_then_Ok_iff split: if_splits)

text \<open>\<open>n\<close> is \<open>salt_bytes - skipped\<close>.\<close>

function skip_salt :: "bytes \<Rightarrow> bytes \<Rightarrow> nat \<Rightarrow> tea_state \<Rightarrow> (tea_error, tea_state) outcome" where
  "skip_salt cipher key n st =
     (if n = 0 then Ok st
      else if ts_pos st < 8 then skip_salt cipher key (n - 1) (st\<lparr>ts_pos := ts_pos st + 1\<rparr>)
      else if ts_crypt st < length cipher then
        (case next_block cipher key st of
           Ok st' \<Rightarrow> skip_salt cipher key n st' | Err e \<Rightarrow> Err e | Panic \<Rightarrow> Panic)
      else Err Ended_in_salt)"
  by pat_completeness auto
termination
  by (relation "measures [\<lambda>(_, _, n, _). n, \<lambda>(cipher, _, _, st). length cipher - ts_crypt st]")
     (auto dest: next_block_advances)

function read_plain :: "bytes \<Rightarrow> bytes \<Rightarrow> nat \<Rightarrow> tea_state \<Rightarrow> bytes \<Rightarrow> (tea_error, bytes) outcome" where
  "read_plain cipher key out_len st out =
     (if out_len = 0 then Ok out
      else if ts_pos st < 8 then
        (case (idx (ts_plain st) (ts_pos st), idx (ts_pre_cipher st) (ts_pos st)) of
           (Some a, Some b) \<Rightarrow>
             read_plain cipher key (out_len - 1) (st\<lparr>ts_pos := ts_pos st + 1\<rparr>) (out @ [a XOR b])
         | _ \<Rightarrow> Panic)
      else if ts_crypt st < length cipher then
        (case next_block cipher key st of
           Ok st' \<Rightarrow> read_plain cipher key out_len st' out | Err e \<Rightarrow> Err e | Panic \<Rightarrow> Panic)
      else Err Ended_in_plaintext)"
  by pat_completeness auto
termination
  by (relation "measures [\<lambda>(_, _, n, _, _). n, \<lambda>(cipher, _, _, st, _). length cipher - ts_crypt st]")
     (auto dest: next_block_advances)

declare skip_salt.simps [simp del] read_plain.simps [simp del]

definition qq_tea_decrypt :: "bytes \<Rightarrow> bytes \<Rightarrow> nat \<Rightarrow> (tea_error, bytes) outcome" where
  "qq_tea_decrypt cipher key salt_bytes =
     (if length cipher \<le> 15 \<or> length cipher mod 8 \<noteq> 0 then Err Bad_cipher_length
      else
        let plain = tea_decipher_block (take 8 cipher) key in
        and_then (or_panic (idx plain 0)) (\<lambda>b.
        let pad = unat (b AND 7) in
        if length cipher < pad + 10 then Err Negative_plaintext_length
        else
          and_then (skip_salt cipher key salt_bytes
            \<lparr>ts_plain = plain, ts_pos = pad + 1, ts_crypt = 8, ts_pre_cipher = replicate 8 0\<rparr>) (\<lambda>st.
          read_plain cipher key (length cipher - (pad + 10)) st [])))"

section \<open>The key\<close>

definition clean_key_hex :: "str \<Rightarrow> str" where
  "clean_key_hex t = filter (\<lambda>c. c \<notin> {0x20, 0x3A, 0x2D}) t"

definition key_from_hex :: "str \<Rightarrow> bytes option option" where
  "key_from_hex t =
     (let hex = clean_key_hex t in
      if str_len hex \<noteq> 32 \<or> hex = replicate 32 0x30 then Some None else hex_pairs 16 0 hex)"

text \<open>The text of the key log, already read, is a list of lines; \<open>key_hex_of\<close> stands for the JSON
  reader: the string under \<open>key_hex\<close> of a line that parses.\<close>

definition latest_key :: "(str \<Rightarrow> str option) \<Rightarrow> str option \<Rightarrow> str list option \<Rightarrow> bytes option option" where
  "latest_key key_hex_of env_key log = do {
     from_env \<leftarrow> (case env_key of None \<Rightarrow> Some None | Some t \<Rightarrow> key_from_hex t);
     case from_env of
       Some key \<Rightarrow> Some (Some key)
     | None \<Rightarrow>
         (case log of
            None \<Rightarrow> Some None
          | Some lines \<Rightarrow>
              try_fold (\<lambda>line out. case key_hex_of line of
                  None \<Rightarrow> Some out
                | Some t \<Rightarrow> map_option (\<lambda>k. case k of Some v \<Rightarrow> Some v | None \<Rightarrow> out) (key_from_hex t))
                lines None) }"

section \<open>Blocks: decipher inverts encipher\<close>

text \<open>The cipher as its inventors state it.\<close>

fun tea_encipher_round :: "bytes \<Rightarrow> u32 \<times> u32 \<times> u32 \<Rightarrow> u32 \<times> u32 \<times> u32" where
  "tea_encipher_round key (y, z, s) =
     (let s' = s + tea_delta;
          y' = y + tea_mix z s' (be_word_at key 0) (be_word_at key 4);
          z' = z + tea_mix y' s' (be_word_at key 8) (be_word_at key 12)
      in (y', z', s'))"

definition tea_encipher_block :: "bytes \<Rightarrow> bytes \<Rightarrow> bytes" where
  "tea_encipher_block block key =
     (let (y, z, _) = (tea_encipher_round key ^^ 16) (be_word_at block 0, be_word_at block 4, 0)
      in u32_to_be y @ u32_to_be z)"

lemma length_u32_to_be [simp]: "length (u32_to_be w) = 4"
  by (simp add: u32_to_be_def)

lemma u32_be_inverse: "u32_from_be (u32_to_be w) = w"
proof -
  have "unat w < 2 ^ LENGTH(32)" by (rule unsigned_less)
  then have "be_nat (u32_to_be w) = unat w"
    by (simp add: be_nat_def u32_to_be_def le_nat_nat_le)
  then show ?thesis by (simp add: u32_from_be_def)
qed

lemma u32_to_from_be: "length bs = 4 \<Longrightarrow> u32_to_be (u32_from_be bs) = bs"
proof -
  assume l: "length bs = 4"
  then have "be_nat bs < 2 ^ 32" using le_nat_bound [of "rev bs"] by (simp add: be_nat_def)
  then have "unat (u32_from_be bs) = be_nat bs" by (simp add: u32_from_be_def unat_of_nat_small)
  then show ?thesis using nat_le_le_nat [of "rev bs"] l by (simp add: u32_to_be_def be_nat_def)
qed

lemma be_words: "length bs = 8 \<Longrightarrow> u32_to_be (be_word_at bs 0) @ u32_to_be (be_word_at bs 4) = bs"
  by (simp add: be_word_at_def u32_to_from_be)

lemma be_word_blocks [simp]:
  "be_word_at (u32_to_be y @ u32_to_be z) 0 = y" "be_word_at (u32_to_be y @ u32_to_be z) 4 = z"
  by (simp_all add: be_word_at_def u32_be_inverse)

lemma round_inverse: "tea_decipher_round key (tea_encipher_round key s) = s"
  "tea_encipher_round key (tea_decipher_round key s) = s"
  by (cases s, simp add: Let_def)+

lemma rounds_inverse: "(tea_decipher_round key ^^ n) ((tea_encipher_round key ^^ n) s) = s"
  "(tea_encipher_round key ^^ n) ((tea_decipher_round key ^^ n) s) = s"
proof (induction n arbitrary: s)
  case (Suc n)
  { case 1 show ?case using Suc(1) by (simp add: funpow_swap1 [of "tea_decipher_round key"] round_inverse) }
  { case 2 show ?case using Suc(2) by (simp add: funpow_swap1 [of "tea_encipher_round key"] round_inverse) }
qed simp_all

lemma round_sum: "snd (snd ((tea_encipher_round key ^^ n) (y, z, s))) = s + of_nat n * tea_delta"
proof (induction n)
  case (Suc n)
  then show ?case by (cases "(tea_encipher_round key ^^ n) (y, z, s)") (simp add: Let_def algebra_simps)
qed simp

lemma sum_16: "(0 :: u32) + of_nat 16 * tea_delta = 0xe3779b90"
  by (simp add: tea_delta_def)

lemma decipher_encipher:
  assumes "length block = 8"
  shows "tea_decipher_block (tea_encipher_block block key) key = block"
proof -
  define s where "s = (be_word_at block 0, be_word_at block 4, 0 :: u32)"
  obtain y z w where e: "(tea_encipher_round key ^^ 16) s = (y, z, w)" by (metis prod.exhaust)
  have "w = 0xe3779b90" using round_sum [of 16 key "be_word_at block 0" "be_word_at block 4" 0] e sum_16
    by (simp add: s_def)
  then have "(tea_decipher_round key ^^ 16) (y, z, 0xe3779b90) = s"
    using rounds_inverse(1) [where key = key and n = 16 and s = s] e by simp
  moreover have "tea_encipher_block block key = u32_to_be y @ u32_to_be z"
    using e by (simp add: tea_encipher_block_def s_def)
  ultimately show ?thesis using be_words [OF assms] by (simp add: tea_decipher_block_def s_def)
qed

lemma encipher_decipher:
  assumes "length block = 8"
  shows "tea_encipher_block (tea_decipher_block block key) key = block"
proof -
  define s where "s = (be_word_at block 0, be_word_at block 4, 0xe3779b90 :: u32)"
  obtain y z w where e: "(tea_decipher_round key ^^ 16) s = (y, z, w)" by (metis prod.exhaust)
  have "(tea_encipher_round key ^^ 16) (y, z, w) = s"
    using rounds_inverse(2) [where key = key and n = 16 and s = s] e by simp
  moreover from this have "w + of_nat 16 * tea_delta = 0xe3779b90"
    using round_sum [of 16 key y z w] by (simp add: s_def)
  then have "w = 0" using sum_16 by (metis add_right_cancel)
  moreover have "tea_decipher_block block key = u32_to_be y @ u32_to_be z"
    using e by (simp add: tea_decipher_block_def s_def)
  ultimately show ?thesis using be_words [OF assms] by (simp add: tea_encipher_block_def s_def)
qed

lemma length_decipher [simp]: "length (tea_decipher_block b k) = 8"
  by (simp add: tea_decipher_block_def split: prod.split)

lemma length_encipher [simp]: "length (tea_encipher_block b k) = 8"
  by (simp add: tea_encipher_block_def split: prod.split)

section \<open>The chained mode against its definition\<close>

text \<open>The plaintext blocks of a list of cipher blocks: \<open>d\<close> is the deciphered block before, \<open>c\<close> the
  cipher block before.\<close>

fun tea_chain :: "bytes \<Rightarrow> bytes \<Rightarrow> bytes \<Rightarrow> bytes list \<Rightarrow> bytes list" where
  "tea_chain key d c [] = []"
| "tea_chain key d c (b # bs) =
     (let d' = tea_decipher_block (xor_bytes d b) key in xor_bytes d' c # tea_chain key d' b bs)"

definition tea_plaintext :: "bytes \<Rightarrow> bytes \<Rightarrow> bytes" where
  "tea_plaintext key cipher = concat (tea_chain key (replicate 8 0) (replicate 8 0) (chunks_exact 8 cipher))"

definition tea_pad :: "bytes \<Rightarrow> bytes \<Rightarrow> nat" where
  "tea_pad key cipher = unat (tea_plaintext key cipher ! 0 AND 7)"

lemma length_xor [simp]: "length (xor_bytes a b) = min (length a) (length b)"
  by (simp add: xor_bytes_def)

lemma xor_zero: "length a \<le> n \<Longrightarrow> xor_bytes (replicate n 0) a = a" "length a \<le> n \<Longrightarrow> xor_bytes a (replicate n 0) = a"
  by (auto simp: xor_bytes_def intro!: nth_equalityI)

text \<open>What is still to come from a state: the rest of the current block and the blocks after it.\<close>

definition tea_rest :: "bytes \<Rightarrow> bytes \<Rightarrow> tea_state \<Rightarrow> bytes" where
  "tea_rest cipher key st =
     drop (ts_pos st) (xor_bytes (ts_plain st) (ts_pre_cipher st))
     @ concat (tea_chain key (ts_plain st) (take 8 (drop (ts_crypt st - 8) cipher))
         (chunks_exact 8 (drop (ts_crypt st) cipher)))"

definition tea_ok :: "bytes \<Rightarrow> tea_state \<Rightarrow> bool" where
  "tea_ok cipher st = (length cipher mod 8 = 0 \<and> ts_crypt st mod 8 = 0 \<and> 8 \<le> ts_crypt st
     \<and> ts_crypt st \<le> length cipher \<and> length (ts_plain st) = 8 \<and> length (ts_pre_cipher st) = 8 \<and> ts_pos st \<le> 8)"

lemma next_block_rest:
  assumes "tea_ok cipher st" "ts_pos st = 8" "ts_crypt st < length cipher"
  shows "\<exists>st'. next_block cipher key st = Ok st' \<and> tea_ok cipher st' \<and> ts_pos st' = 0
     \<and> ts_crypt st' = ts_crypt st + 8 \<and> tea_rest cipher key st' = tea_rest cipher key st"
proof -
  have c: "ts_crypt st + 8 \<le> length cipher" "8 \<le> ts_crypt st"
    using assms(1,3) unfolding tea_ok_def by presburger+
  let ?b = "take 8 (drop (ts_crypt st) cipher)" and ?p = "take 8 (drop (ts_crypt st - 8) cipher)"
  let ?st' = "\<lparr>ts_plain = tea_decipher_block (xor_bytes (ts_plain st) ?b) key, ts_pos = 0,
      ts_crypt = ts_crypt st + 8, ts_pre_cipher = ?p\<rparr>"
  have "next_block cipher key st = Ok ?st'"
    using assms(3) c by (simp add: next_block_def subslice_def)
  moreover have "tea_ok cipher ?st'" using assms(1) c by (auto simp: tea_ok_def)
  moreover have "chunks_exact 8 (drop (ts_crypt st) cipher) = ?b # chunks_exact 8 (drop (ts_crypt st + 8) cipher)"
    using c by (subst chunks_exact.simps) (simp add: add.commute)
  then have "tea_rest cipher key ?st' = tea_rest cipher key st"
    using assms(1,2) by (simp add: tea_rest_def tea_ok_def Let_def)
  ultimately show ?thesis by fastforce
qed

lemma rest_end: "tea_ok cipher st \<Longrightarrow> ts_pos st = 8 \<Longrightarrow> \<not> ts_crypt st < length cipher \<Longrightarrow> tea_rest cipher key st = []"
  by (simp add: tea_rest_def tea_ok_def chunks_exact.simps)

lemma rest_byte:
  assumes "tea_ok cipher st" "ts_pos st < 8"
  shows "tea_rest cipher key st = (ts_plain st ! ts_pos st XOR ts_pre_cipher st ! ts_pos st)
     # tea_rest cipher key (st\<lparr>ts_pos := ts_pos st + 1\<rparr>)" "tea_ok cipher (st\<lparr>ts_pos := ts_pos st + 1\<rparr>)"
  using assms by (simp_all add: tea_ok_def tea_rest_def xor_bytes_def Cons_nth_drop_Suc [symmetric])

lemma skip_salt_rest:
  assumes "tea_ok cipher st"
  shows "if n \<le> length (tea_rest cipher key st)
    then \<exists>st'. skip_salt cipher key n st = Ok st' \<and> tea_ok cipher st' \<and> tea_rest cipher key st' = drop n (tea_rest cipher key st)
    else skip_salt cipher key n st = Err Ended_in_salt"
  using assms
proof (induction cipher key n st rule: skip_salt.induct)
  case (1 cipher key n st)
  note loop = skip_salt.simps [of cipher key n st]
  consider "n = 0" | "n \<noteq> 0" "ts_pos st < 8" | "n \<noteq> 0" "ts_pos st = 8" "ts_crypt st < length cipher"
    | "n \<noteq> 0" "ts_pos st = 8" "\<not> ts_crypt st < length cipher"
    using "1.prems" by (fastforce simp: tea_ok_def)
  then show ?case
  proof cases
    case 1
    then show ?thesis using loop "1.prems" by simp
  next
    case 2
    then show ?thesis using 1(1) [OF 2 rest_byte(2) [OF "1.prems" 2(2)]] rest_byte(1) [OF "1.prems" 2(2), of key] loop 2
      by (cases n) (auto split: if_splits)
  next
    case 3
    obtain st' where st': "next_block cipher key st = Ok st'" "tea_ok cipher st'"
      "tea_rest cipher key st' = tea_rest cipher key st"
      using next_block_rest [OF "1.prems" 3(2,3)] by blast
    then have "skip_salt cipher key n st = skip_salt cipher key n st'" using loop 3 by simp
    moreover have p: "\<not> ts_pos st < 8" using 3(2) by simp
    ultimately show ?thesis using 1(2) [OF 3(1) p 3(3) st'(1) st'(2)] by (simp only: st'(3))
  next
    case 4
    then show ?thesis using loop rest_end [OF "1.prems" 4(2,3), of key] by simp
  qed
qed

lemma read_plain_rest:
  assumes "tea_ok cipher st"
  shows "read_plain cipher key n st out =
    (if n \<le> length (tea_rest cipher key st) then Ok (out @ take n (tea_rest cipher key st)) else Err Ended_in_plaintext)"
  using assms
proof (induction cipher key n st out rule: read_plain.induct)
  case (1 cipher key n st out)
  note loop = read_plain.simps [of cipher key n st out]
  consider "n = 0" | "n \<noteq> 0" "ts_pos st < 8" | "n \<noteq> 0" "ts_pos st = 8" "ts_crypt st < length cipher"
    | "n \<noteq> 0" "ts_pos st = 8" "\<not> ts_crypt st < length cipher"
    using "1.prems" by (fastforce simp: tea_ok_def)
  then show ?case
  proof cases
    case 1
    then show ?thesis using loop by simp
  next
    case 2
    have i: "idx (ts_plain st) (ts_pos st) = Some (ts_plain st ! ts_pos st)"
      "idx (ts_pre_cipher st) (ts_pos st) = Some (ts_pre_cipher st ! ts_pos st)"
      using 2(2) "1.prems" by (simp_all add: idx_def tea_ok_def)
    note ih = 1(1) [OF 2 refl i rest_byte(2) [OF "1.prems" 2(2)]]
    then show ?thesis using rest_byte(1) [OF "1.prems" 2(2), of key] loop 2 i
      by (cases n) auto
  next
    case 3
    obtain st' where st': "next_block cipher key st = Ok st'" "tea_ok cipher st'"
      "tea_rest cipher key st' = tea_rest cipher key st"
      using next_block_rest [OF "1.prems" 3(2,3)] by blast
    then have "read_plain cipher key n st out = read_plain cipher key n st' out" using loop 3 by simp
    moreover have p: "\<not> ts_pos st < 8" using 3(2) by simp
    ultimately show ?thesis using 1(2) [OF 3(1) p 3(3) st'(1) st'(2)] by (simp only: st'(3))
  next
    case 4
    then show ?thesis using loop rest_end [OF "1.prems" 4(2,3), of key] by simp
  qed
qed

lemma chunks_8: "8 \<le> length xs \<Longrightarrow> chunks_exact 8 xs = take 8 xs # chunks_exact 8 (drop 8 xs)"
  by (subst chunks_exact.simps) simp

lemma length_tea_chain: "\<forall>b \<in> set bs. length b = 8 \<Longrightarrow> length d = 8 \<Longrightarrow> length c = 8 \<Longrightarrow>
    length (concat (tea_chain key d c bs)) = 8 * length bs"
  by (induction key d c bs rule: tea_chain.induct) (simp_all add: Let_def)

lemma length_tea_plaintext: "length cipher mod 8 = 0 \<Longrightarrow> length (tea_plaintext key cipher) = length cipher"
  unfolding tea_plaintext_def
  by (subst length_tea_chain) (auto simp: chunk_size chunks_exact_length)

lemma tea_plaintext_start:
  assumes "8 \<le> length cipher"
  shows "tea_plaintext key cipher = tea_decipher_block (take 8 cipher) key
    @ concat (tea_chain key (tea_decipher_block (take 8 cipher) key) (take 8 cipher) (chunks_exact 8 (drop 8 cipher)))"
  using assms by (simp add: tea_plaintext_def chunks_8 [of cipher] xor_zero Let_def)

definition tea_reference :: "bytes \<Rightarrow> bytes \<Rightarrow> nat \<Rightarrow> (tea_error, bytes) outcome" where
  "tea_reference cipher key salt_bytes =
     (if length cipher \<le> 15 \<or> length cipher mod 8 \<noteq> 0 then Err Bad_cipher_length
      else let p = tea_plaintext key cipher; pad = unat (p ! 0 AND 7) in
        if length cipher < pad + 10 then Err Negative_plaintext_length
        else Ok (take (length cipher - (pad + 10)) (drop (pad + 1 + salt_bytes) p)))"

lemma unat_and_7: "unat ((b :: u8) AND 7) < 8"
proof -
  have "unat (b AND 7) = unat b AND unat (7 :: u8)" by (rule unsigned_and_eq)
  also have "unat (7 :: u8) = mask 3" by (simp add: mask_eq_exp_minus_1)
  also have "unat b AND mask 3 = unat b mod 8" by (simp add: take_bit_eq_mod flip: take_bit_eq_mask)
  finally show ?thesis by simp
qed

lemma qq_tea_decrypt_reference:
  assumes "salt_bytes \<le> 9"
  shows "qq_tea_decrypt cipher key salt_bytes = tea_reference cipher key salt_bytes"
proof (cases "length cipher \<le> 15 \<or> length cipher mod 8 \<noteq> 0")
  case True
  then show ?thesis by (simp add: qq_tea_decrypt_def tea_reference_def)
next
  case False
  define plain where "plain = tea_decipher_block (take 8 cipher) key"
  define pad where "pad = unat (plain ! 0 AND 7)"
  define st where "st = \<lparr>ts_plain = plain, ts_pos = pad + 1, ts_crypt = 8, ts_pre_cipher = replicate 8 (0 :: u8)\<rparr>"
  have len: "16 \<le> length cipher" "length cipher mod 8 = 0" using False by auto
  have lp: "length plain = 8" by (simp add: plain_def)
  have pad8: "pad < 8" by (simp add: pad_def unat_and_7)
  note p = tea_plaintext_start [of cipher key, folded plain_def]
  have p0: "tea_plaintext key cipher ! 0 = plain ! 0" using p len lp by (simp add: nth_append)
  have ok: "tea_ok cipher st" using len lp pad8 by (simp add: tea_ok_def st_def)
  have rest: "tea_rest cipher key st = drop (pad + 1) (tea_plaintext key cipher)"
    using p len lp pad8 by (simp add: tea_rest_def st_def xor_zero)
  have lr: "length (tea_rest cipher key st) = length cipher - (pad + 1)"
    using length_tea_plaintext [OF len(2), of key] by (simp add: rest)
  have q: "qq_tea_decrypt cipher key salt_bytes =
      (if length cipher < pad + 10 then Err Negative_plaintext_length
       else and_then (skip_salt cipher key salt_bytes st) (\<lambda>st'. read_plain cipher key (length cipher - (pad + 10)) st' []))"
  proof -
    have "idx plain 0 = Some (plain ! 0)" using lp by (simp add: idx_def)
    then show ?thesis
      using False by (simp add: qq_tea_decrypt_def plain_def [symmetric] Let_def pad_def [symmetric] st_def)
  qed
  show ?thesis
  proof (cases "length cipher < pad + 10")
    case True
    then show ?thesis using q False p0 by (simp add: tea_reference_def Let_def pad_def)
  next
    case fits: False
    then have "salt_bytes \<le> length (tea_rest cipher key st)" using lr assms by simp
    then obtain st' where st': "skip_salt cipher key salt_bytes st = Ok st'" "tea_ok cipher st'"
      "tea_rest cipher key st' = drop salt_bytes (tea_rest cipher key st)"
      using skip_salt_rest [OF ok, of salt_bytes key] by auto
    have "length cipher - (pad + 10) \<le> length (tea_rest cipher key st')"
      using lr assms fits by (simp add: st'(3))
    then show ?thesis
      using q fits False p0 st' read_plain_rest [OF st'(2), of key "length cipher - (pad + 10)" "[]"]
      by (simp add: tea_reference_def Let_def pad_def [symmetric] rest add.commute)
  qed
qed

text \<open>C34. The block loop of \<open>qq_tea_decrypt\<close>, with its position, its two counters and its refills, computes the
  chained mode: for up to nine salt bytes (the code passes two) it returns the part of the
  plaintext after the length byte, the padding and the salt and before the last bytes, or the
  error of the first test that fails; it never panics and never runs out of cipher.\<close>

theorem qq_tea_decrypt_equiv:
  assumes "salt_bytes \<le> 9"
  shows "qq_tea_decrypt cipher key salt_bytes = tea_reference cipher key salt_bytes"
  by (rule qq_tea_decrypt_reference [OF assms])

theorem qq_tea_decrypt_equiv_witness:
  "qq_tea_decrypt (replicate 24 1) (replicate 16 2) 2 = tea_reference (replicate 24 1) (replicate 16 2) 2"
  by (rule qq_tea_decrypt_equiv) simp

section \<open>Round trip\<close>

fun tea_unchain :: "bytes \<Rightarrow> bytes \<Rightarrow> bytes \<Rightarrow> bytes list \<Rightarrow> bytes list" where
  "tea_unchain key d c [] = []"
| "tea_unchain key d c (p # ps) =
     (let d' = xor_bytes p c; b = xor_bytes d (tea_encipher_block d' key) in b # tea_unchain key d' b ps)"

text \<open>The sender: a byte whose low three bits count the padding, the padding, two salt bytes, the data
  and seven more bytes.\<close>

definition tea_envelope :: "u8 \<Rightarrow> bytes \<Rightarrow> bytes \<Rightarrow> bytes \<Rightarrow> bytes \<Rightarrow> bytes" where
  "tea_envelope head padding salt data trailer = head # padding @ salt @ data @ trailer"

definition qq_tea_encrypt :: "bytes \<Rightarrow> bytes \<Rightarrow> bytes" where
  "qq_tea_encrypt key envelope = concat (tea_unchain key (replicate 8 0) (replicate 8 0) (chunks_exact 8 envelope))"

lemma xor_twice: "length a = length b \<Longrightarrow> xor_bytes a (xor_bytes a b) = b" "length a = length b \<Longrightarrow> xor_bytes (xor_bytes a b) b = a"
  by (auto simp: xor_bytes_def intro!: nth_equalityI) (simp_all flip: xor.assoc add: xor.assoc)

lemma unchain_sizes: "length d = 8 \<Longrightarrow> b \<in> set (tea_unchain key d c ps) \<Longrightarrow> \<forall>p \<in> set ps. length p = 8 \<Longrightarrow> length c = 8 \<Longrightarrow> length b = 8"
  by (induction key d c ps rule: tea_unchain.induct) (auto simp: Let_def)

lemma length_unchain [simp]: "length (tea_unchain key d c ps) = length ps"
  by (induction key d c ps rule: tea_unchain.induct) (simp_all add: Let_def)

lemma chain_unchain:
  "length d = 8 \<Longrightarrow> length c = 8 \<Longrightarrow> \<forall>p \<in> set ps. length p = 8 \<Longrightarrow> tea_chain key d c (tea_unchain key d c ps) = ps"
  by (induction key d c ps rule: tea_unchain.induct) (simp_all add: Let_def xor_twice decipher_encipher)

lemma tea_plaintext_encrypt:
  assumes "length envelope mod 8 = 0"
  shows "tea_plaintext key (qq_tea_encrypt key envelope) = envelope"
    "length (qq_tea_encrypt key envelope) = length envelope"
proof -
  let ?ps = "chunks_exact 8 envelope" and ?z = "replicate 8 (0 :: u8)"
  have ps: "\<forall>p \<in> set ?ps. length p = 8" by (simp add: chunk_size)
  have bs: "\<forall>b \<in> set (tea_unchain key ?z ?z ?ps). length b = 8" using unchain_sizes [of ?z _ key ?z ?ps] ps by simp
  have "chunks_exact 8 (concat (tea_unchain key ?z ?z ?ps) @ []) = tea_unchain key ?z ?z ?ps"
    by (rule chunks_exact_concat) (use bs in simp_all)
  moreover have whole: "concat ?ps = envelope" using assms
  proof (induction "8 :: nat" envelope rule: chunks_exact.induct)
    case (1 xs)
    then show ?case by (subst chunks_exact.simps) (auto simp: mod_if [of "length xs"] le_mod_geq)
  qed
  ultimately show "tea_plaintext key (qq_tea_encrypt key envelope) = envelope"
    using ps by (simp add: tea_plaintext_def qq_tea_encrypt_def chain_unchain)
  have "length (concat xs) = 8 * length xs" if "\<forall>x \<in> set xs. length x = 8" for xs :: "bytes list"
    using that by (induction xs) simp_all
  note this [OF bs] and this [OF ps]
  then show "length (qq_tea_encrypt key envelope) = length envelope"
    using whole by (simp add: qq_tea_encrypt_def)
qed

text \<open>C2. Decryption inverts the sender: whatever the key, the padding, the two salt bytes and the seven
  bytes at the end are, the data of an enciphered envelope is returned. The end bytes are not
  looked at, so an envelope with any of them is accepted.\<close>

theorem qq_tea_roundtrip:
  assumes "length padding = unat (head AND 7)" "length salt = 2" "length trailer = 7"
    "length (tea_envelope head padding salt data trailer) mod 8 = 0"
  shows "qq_tea_decrypt (qq_tea_encrypt key (tea_envelope head padding salt data trailer)) key 2 = Ok data"
proof -
  let ?e = "tea_envelope head padding salt data trailer"
  let ?c = "qq_tea_encrypt key ?e"
  have l: "length ?c = length padding + length data + 10" "length ?c mod 8 = 0"
    using tea_plaintext_encrypt(2) [OF assms(4), of key] assms by (simp_all add: tea_envelope_def)
  have "drop (length padding + 1 + 2) ?e = data @ trailer" using assms(2) by (simp add: tea_envelope_def)
  moreover have "\<not> length ?c \<le> 15" using l by presburger
  moreover have "?e ! 0 = head" by (simp add: tea_envelope_def)
  ultimately show ?thesis using l assms(1)
    by (simp add: qq_tea_decrypt_reference tea_reference_def tea_plaintext_encrypt(1) [OF assms(4)] Let_def)
qed

theorem qq_tea_roundtrip_witness:
  "qq_tea_decrypt (qq_tea_encrypt (replicate 16 1) (tea_envelope 5 [1, 2, 3, 4, 5] [6, 7] [72] (replicate 7 0))) (replicate 16 1) 2
   = Ok [72]"
  by (rule qq_tea_roundtrip) (simp_all add: tea_envelope_def)

section \<open>Keys that make the reader panic\<close>

lemma ascii_slice:
  assumes "\<forall>c \<in> set s. c < 128"
  shows "skip_bytes a s = (if a \<le> length s then Some (drop a s) else None)"
    "take_bytes a s = (if a \<le> length s then Some (take a s) else None)"
  using assms by (induction s arbitrary: a) (auto simp: char_len_def take_Cons' drop_Cons')

lemma hex_pairs_ascii: "\<forall>c \<in> set s. c < 128 \<Longrightarrow> 2 * (i + n) \<le> length s \<Longrightarrow> hex_pairs n i s \<noteq> None"
proof (induction n arbitrary: i)
  case (Suc n)
  have d: "\<forall>c \<in> set (drop (i * 2) s). c < 128" using Suc.prems(1) by (auto dest: in_set_dropD)
  have "str_slice s (i * 2) (i * 2 + 2) = Some (take 2 (drop (i * 2) s))"
    using Suc.prems by (simp add: str_slice_def ascii_slice ascii_slice [OF d])
  then show ?case using Suc.IH [of "Suc i"] Suc.prems by (auto split: option.splits)
qed simp

lemma key_from_hex_ascii: "\<forall>c \<in> set t. c < 128 \<Longrightarrow> key_from_hex t \<noteq> None"
  using hex_pairs_ascii [of "clean_key_hex t" 0 16] str_len_ascii [of "clean_key_hex t"]
  by (auto simp: key_from_hex_def Let_def clean_key_hex_def)

text \<open>The key reader never panics on ASCII, but a key of 32 bytes of UTF-8 whose second character (separators
  left out) is not ASCII makes it panic: the length is compared in bytes, and the pairs of digits are
  cut without a test for the boundaries of characters.\<close>

theorem key_from_hex_panics:
  assumes "clean_key_hex t = c # d # s" "c < 128" "128 \<le> d" "str_len (clean_key_hex t) = 32"
  shows "key_from_hex t = None \<and> key_from_hex (filter (\<lambda>x. x < 128) t) \<noteq> None"
proof
  have "clean_key_hex t \<noteq> replicate 32 0x30" using assms(1,3) by (auto simp: numeral_eq_Suc)
  moreover have "str_slice (c # d # s) 0 2 = None" using assms(2,3) by (simp add: str_slice_def char_len_def)
  then have "hex_pairs 16 0 (c # d # s) = None" by (simp add: numeral_eq_Suc)
  ultimately show "key_from_hex t = None" using assms(1,4) by (simp add: key_from_hex_def Let_def)
  show "key_from_hex (filter (\<lambda>x. x < 128) t) \<noteq> None" by (rule key_from_hex_ascii) simp
qed

theorem key_from_hex_panics_witness: "key_from_hex (0x30 # 0xE9 # replicate 29 0x30) = None"
  using key_from_hex_panics [of "0x30 # 0xE9 # replicate 29 0x30" "0x30" "0xE9" "replicate 29 0x30"]
  by (simp add: clean_key_hex_def char_len_def numeral_eq_Suc)

end
