(* ===== verification/Entry_Cache.thy ===== *)
theory Entry_Cache imports Prelude Rust_Text "HOL-Library.AList" begin

text \<open>
  The cache of decrypted streams (\<open>EntryChunkCache\<close> of \<open>info_storage.rs\<close>): a hash map, modelled
  as an association list with distinct keys, a queue of the keys from the least to the most
  recently used, and the number of bytes held. An abstract cache is the list of its entries in
  that order; the operations refine it.
\<close>

section \<open>State and operations\<close>

record file_identity =
  fi_len :: u64
  fi_modified_nanos :: nat

record cached_entry_chunks =
  cc_identity :: file_identity
  cc_chunks :: "bytes list"
  cc_bytes :: nat

record entry_chunk_cache =
  ec_items :: "(str \<times> cached_entry_chunks) list"
  ec_order :: "str list"
  ec_bytes :: nat

definition empty_cache :: entry_chunk_cache where
  "empty_cache = \<lparr>ec_items = [], ec_order = [], ec_bytes = 0\<rparr>"

definition cache_capacity :: nat where "cache_capacity = 16"

definition cache_max_bytes :: nat where "cache_max_bytes = 64 * 1024 * 1024"

definition cache_remove :: "str \<Rightarrow> entry_chunk_cache \<Rightarrow> entry_chunk_cache" where
  "cache_remove key c =
     (let c1 = c\<lparr>ec_order := filter (\<lambda>k. k \<noteq> key) (ec_order c)\<rparr> in
      case map_of (ec_items c1) key of
        None \<Rightarrow> c1
      | Some removed \<Rightarrow> c1\<lparr>ec_items := AList.delete key (ec_items c1), ec_bytes := ec_bytes c1 - cc_bytes removed\<rparr>)"

definition cache_get :: "str \<Rightarrow> file_identity \<Rightarrow> entry_chunk_cache \<Rightarrow> bytes list option \<times> entry_chunk_cache" where
  "cache_get key identity c =
     (case map_of (ec_items c) key of
        None \<Rightarrow> (None, c)
      | Some cached \<Rightarrow>
          if cc_identity cached \<noteq> identity then (None, cache_remove key c)
          else (Some (cc_chunks cached), c\<lparr>ec_order := filter (\<lambda>k. k \<noteq> key) (ec_order c) @ [key]\<rparr>))"

function evict :: "nat \<Rightarrow> entry_chunk_cache \<Rightarrow> entry_chunk_cache" where
  "evict bytes c =
     (if length (ec_items c) \<ge> cache_capacity \<or> saturating_add (ec_bytes c) bytes > cache_max_bytes then
        (case ec_order c of
           [] \<Rightarrow> c
         | oldest # order \<Rightarrow>
             evict bytes (case map_of (ec_items c) oldest of
                None \<Rightarrow> c\<lparr>ec_order := order\<rparr>
              | Some removed \<Rightarrow> c\<lparr>ec_order := order, ec_items := AList.delete oldest (ec_items c),
                                  ec_bytes := ec_bytes c - cc_bytes removed\<rparr>))
      else c)"
  by pat_completeness auto
termination
  by (relation "measure (\<lambda>(_, c). length (ec_order c))") (auto split: option.split)

declare evict.simps [simp del]

definition cache_insert :: "str \<Rightarrow> file_identity \<Rightarrow> bytes list \<Rightarrow> entry_chunk_cache \<Rightarrow> entry_chunk_cache" where
  "cache_insert key identity chunks c =
     (let c1 = cache_remove key c;
          bytes = sum_list (map length chunks)
      in if bytes > cache_max_bytes then c1
         else let c2 = evict bytes c1 in
           c2\<lparr>ec_order := ec_order c2 @ [key],
              ec_bytes := saturating_add (ec_bytes c2) bytes,
              ec_items := AList.update key \<lparr>cc_identity = identity, cc_chunks = chunks, cc_bytes = bytes\<rparr> (ec_items c2)\<rparr>)"

section \<open>The invariant and the abstract cache\<close>

definition cached_at :: "entry_chunk_cache \<Rightarrow> str \<Rightarrow> cached_entry_chunks" where
  "cached_at c k = the (map_of (ec_items c) k)"

definition cache_inv :: "entry_chunk_cache \<Rightarrow> bool" where
  "cache_inv c = (distinct (ec_order c) \<and> distinct (map fst (ec_items c)) \<and> set (ec_order c) = fst ` set (ec_items c)
     \<and> (\<forall>(k, e) \<in> set (ec_items c). cc_bytes e = sum_list (map length (cc_chunks e)))
     \<and> ec_bytes c = sum_list (map (\<lambda>k. cc_bytes (cached_at c k)) (ec_order c))
     \<and> ec_bytes c \<le> cache_max_bytes \<and> length (ec_items c) \<le> cache_capacity)"

text \<open>The abstract cache: the entries from the least to the most recently used.\<close>

definition lru :: "entry_chunk_cache \<Rightarrow> (str \<times> cached_entry_chunks) list" where
  "lru c = map (\<lambda>k. (k, cached_at c k)) (ec_order c)"

definition lru_size :: "(str \<times> cached_entry_chunks) list \<Rightarrow> nat" where
  "lru_size es = sum_list (map (\<lambda>(k, e). cc_bytes e) es)"

definition lru_drop :: "str \<Rightarrow> (str \<times> cached_entry_chunks) list \<Rightarrow> (str \<times> cached_entry_chunks) list" where
  "lru_drop key es = filter (\<lambda>(k, e). k \<noteq> key) es"

definition lru_get :: "str \<Rightarrow> file_identity \<Rightarrow> (str \<times> cached_entry_chunks) list
    \<Rightarrow> bytes list option \<times> (str \<times> cached_entry_chunks) list" where
  "lru_get key identity es =
     (case map_of es key of
        None \<Rightarrow> (None, es)
      | Some e \<Rightarrow> if cc_identity e \<noteq> identity then (None, lru_drop key es)
                  else (Some (cc_chunks e), lru_drop key es @ [(key, e)]))"

text \<open>Making room drops the fewest oldest entries.\<close>

fun lru_room :: "nat \<Rightarrow> (str \<times> cached_entry_chunks) list \<Rightarrow> (str \<times> cached_entry_chunks) list" where
  "lru_room bytes [] = []"
| "lru_room bytes (e # es) =
     (if length (e # es) < cache_capacity \<and> lru_size (e # es) + bytes \<le> cache_max_bytes then e # es
      else lru_room bytes es)"

definition lru_insert :: "str \<Rightarrow> file_identity \<Rightarrow> bytes list \<Rightarrow> (str \<times> cached_entry_chunks) list
    \<Rightarrow> (str \<times> cached_entry_chunks) list" where
  "lru_insert key identity chunks es =
     (let bytes = sum_list (map length chunks) in
      if bytes > cache_max_bytes then lru_drop key es
      else lru_room bytes (lru_drop key es)
           @ [(key, \<lparr>cc_identity = identity, cc_chunks = chunks, cc_bytes = bytes\<rparr>)])"

section \<open>Refinement\<close>

lemma inv_order: "cache_inv c \<Longrightarrow> k \<in> set (ec_order c) \<longleftrightarrow> map_of (ec_items c) k \<noteq> None"
  by (auto simp: cache_inv_def map_of_eq_None_iff)

lemma inv_at: "cache_inv c \<Longrightarrow> map_of (ec_items c) k = Some e \<Longrightarrow> k \<in> set (ec_order c) \<and> cached_at c k = e"
  by (simp add: inv_order cached_at_def)

lemma inv_length: "cache_inv c \<Longrightarrow> length (ec_items c) = length (lru c)"
  unfolding cache_inv_def lru_def by (metis distinct_card image_set length_map)

lemma inv_bound: "cache_inv c \<Longrightarrow> ec_bytes c \<le> cache_max_bytes"
  unfolding cache_inv_def by blast

lemma inv_size: "cache_inv c \<Longrightarrow> ec_bytes c = lru_size (lru c)"
  by (simp add: cache_inv_def lru_def lru_size_def comp_def)

lemma lru_lookup: "cache_inv c \<Longrightarrow> map_of (lru c) k = map_of (ec_items c) k"
  using inv_order [of c k] inv_at [of c k]
  by (cases "map_of (ec_items c) k") (auto simp: lru_def map_of_map_restrict restrict_map_def)

lemma lru_drop_absent: "map_of es key = None \<Longrightarrow> lru_drop key es = es"
  by (auto simp: lru_drop_def map_of_eq_None_iff filter_id_conv image_iff)

lemma map_of_lru_drop: "map_of (lru_drop key es) k = (if k = key then None else map_of es k)"
  by (induction es) (auto simp: lru_drop_def)

lemma lru_size_drop:
  assumes "distinct (map fst es)" "map_of es key = Some e"
  shows "lru_size (lru_drop key es) = lru_size es - cc_bytes e" "cc_bytes e \<le> lru_size es"
    "Suc (length (lru_drop key es)) = length es"
  using assms
proof (induction es)
  case (Cons x es)
  { case 1
    then show ?case using Cons lru_drop_absent [of es key]
      by (cases x) (auto simp: lru_drop_def lru_size_def map_of_eq_None_iff split: if_splits) }
  { case 2 then show ?case using Cons by (cases x) (auto simp: lru_size_def split: if_splits) }
  { case 3
    then show ?case using Cons lru_drop_absent [of es key]
      by (cases x) (auto simp: lru_drop_def map_of_eq_None_iff split: if_splits) }
qed simp_all

lemma lru_drop_order: "lru_drop key (map (\<lambda>k. (k, f k)) ks) = map (\<lambda>k. (k, f k)) (filter (\<lambda>k. k \<noteq> key) ks)"
  by (induction ks) (simp_all add: lru_drop_def)

lemma distinct_lru: "cache_inv c \<Longrightarrow> distinct (map fst (lru c))"
  by (simp add: lru_def comp_def cache_inv_def)

text \<open>An invariant on the abstract side, from which the one on the state is rebuilt.\<close>

lemma cache_invI:
  assumes "distinct (ec_order c)" "distinct (map fst (ec_items c))" "set (ec_order c) = fst ` set (ec_items c)"
    "\<forall>(k, e) \<in> set (ec_items c). cc_bytes e = sum_list (map length (cc_chunks e))"
    "ec_bytes c = lru_size (lru c)" "lru_size (lru c) \<le> cache_max_bytes" "length (lru c) \<le> cache_capacity"
  shows "cache_inv c"
proof -
  have "length (ec_items c) = length (lru c)"
    using assms(1-3) unfolding lru_def by (metis distinct_card image_set length_map)
  then show ?thesis using assms by (simp add: cache_inv_def lru_def lru_size_def comp_def)
qed

lemma forget_refines:
  assumes inv: "cache_inv c" and e: "map_of (ec_items c) key = Some e"
    and c': "c' = c\<lparr>ec_order := filter (\<lambda>k. k \<noteq> key) (ec_order c), ec_items := AList.delete key (ec_items c),
        ec_bytes := ec_bytes c - cc_bytes e\<rparr>"
  shows "cache_inv c' \<and> lru c' = lru_drop key (lru c)"
proof -
  have at: "cached_at c' k = cached_at c k" if "k \<noteq> key" for k
    using that by (simp add: cached_at_def c' AList.delete_conv')
  have l: "lru c' = lru_drop key (lru c)"
  proof -
    have "ec_order c' = filter (\<lambda>k. k \<noteq> key) (ec_order c)" by (simp add: c')
    then show ?thesis unfolding lru_def lru_drop_order by (auto intro: at)
  qed
  have sz: "lru_size (lru c') = ec_bytes c - cc_bytes e"
    using lru_size_drop(1) [OF distinct_lru [OF inv], of key e] lru_lookup [OF inv, of key] e inv_size [OF inv] l by simp
  have "length (lru c') \<le> length (lru c)" unfolding l by (simp add: lru_drop_def)
  then have "length (lru c') \<le> cache_capacity" using inv_length [OF inv] inv by (simp add: cache_inv_def)
  moreover have "distinct (map fst (AList.delete key (ec_items c)))" "set (AList.delete key (ec_items c)) \<subseteq> set (ec_items c)"
    "fst ` set (AList.delete key (ec_items c)) = fst ` set (ec_items c) - {key}"
    using inv by (auto simp: cache_inv_def AList.delete_keys AList.delete_eq intro: distinct_map_filter)
  moreover have "lru_size (lru c') \<le> cache_max_bytes"
  proof -
    have "ec_bytes c \<le> cache_max_bytes" by (rule inv_bound [OF inv])
    then show ?thesis using sz by linarith
  qed
  ultimately have "cache_inv c'" using inv sz
    by (intro cache_invI) (auto simp: c' cache_inv_def)
  then show ?thesis using l by blast
qed

lemma remove_refines:
  assumes "cache_inv c"
  shows "cache_inv (cache_remove key c)" "lru (cache_remove key c) = lru_drop key (lru c)"
proof -
  have "cache_inv (cache_remove key c) \<and> lru (cache_remove key c) = lru_drop key (lru c)"
  proof (cases "map_of (ec_items c) key")
    case None
    then have "key \<notin> set (ec_order c)" using inv_order [OF assms] by simp
    then have "filter (\<lambda>k. k \<noteq> key) (ec_order c) = ec_order c" by (auto simp: filter_id_conv)
    then have "cache_remove key c = c" using None by (simp add: cache_remove_def Let_def)
    then show ?thesis using lru_drop_absent [of "lru c" key] lru_lookup [OF assms, of key] None assms by simp
  next
    case (Some e)
    then show ?thesis using forget_refines [OF assms Some refl] by (simp add: cache_remove_def Let_def)
  qed
  then show "cache_inv (cache_remove key c)" "lru (cache_remove key c) = lru_drop key (lru c)" by blast+
qed

lemma get_refines:
  assumes "cache_inv c"
  shows "cache_inv (snd (cache_get key identity c))"
    "fst (cache_get key identity c) = fst (lru_get key identity (lru c))"
    "lru (snd (cache_get key identity c)) = snd (lru_get key identity (lru c))"
proof -
  have "cache_inv (snd (cache_get key identity c)) \<and> fst (cache_get key identity c) = fst (lru_get key identity (lru c))
    \<and> lru (snd (cache_get key identity c)) = snd (lru_get key identity (lru c))"
  proof (cases "map_of (ec_items c) key")
    case None
    then show ?thesis using assms lru_lookup [OF assms, of key] by (simp add: cache_get_def lru_get_def)
  next
    case (Some e)
    note look = lru_lookup [OF assms, of key, unfolded Some]
    show ?thesis
    proof (cases "cc_identity e = identity")
      case False
      then show ?thesis using Some look remove_refines [OF assms, of key] by (simp add: cache_get_def lru_get_def)
    next
      case True
      let ?c' = "c\<lparr>ec_order := filter (\<lambda>k. k \<noteq> key) (ec_order c) @ [key]\<rparr>"
      have k: "key \<in> set (ec_order c)" "cached_at c key = e" using inv_at [OF assms Some] by auto
      have at: "cached_at ?c' = cached_at c" by (simp add: cached_at_def [abs_def])
      have l: "lru ?c' = lru_drop key (lru c) @ [(key, e)]"
        by (simp add: lru_def at lru_drop_order k)
      have sz: "lru_size (lru ?c') = lru_size (lru c)"
        using lru_size_drop [OF distinct_lru [OF assms] look] by (simp add: l lru_size_def)
      have "length (lru ?c') = length (lru c)"
        using lru_size_drop(3) [OF distinct_lru [OF assms] look] by (simp add: l)
      then have "cache_inv ?c'" using assms k(1) sz inv_size [OF assms] inv_length [OF assms]
        by (intro cache_invI) (auto simp: cache_inv_def)
      then show ?thesis using Some look True l by (simp add: cache_get_def lru_get_def)
    qed
  qed
  then show "cache_inv (snd (cache_get key identity c))"
    "fst (cache_get key identity c) = fst (lru_get key identity (lru c))"
    "lru (snd (cache_get key identity c)) = snd (lru_get key identity (lru c))" by blast+
qed

lemma evict_refines:
  assumes "cache_inv c" "bytes \<le> cache_max_bytes"
  shows "cache_inv (evict bytes c) \<and> lru (evict bytes c) = lru_room bytes (lru c)"
  using assms
proof (induction bytes c rule: evict.induct)
  case (1 bytes c)
  let ?full = "length (ec_items c) \<ge> cache_capacity \<or> saturating_add (ec_bytes c) bytes > cache_max_bytes"
  have "ec_bytes c \<le> cache_max_bytes" by (rule inv_bound [OF "1.prems"(1)])
  then have "saturating_add (ec_bytes c) bytes = ec_bytes c + bytes" using "1.prems"(2)
    by (simp add: saturating_add_def usize_limit_def cache_max_bytes_def)
  then have cond: "?full \<longleftrightarrow> \<not> (length (lru c) < cache_capacity \<and> lru_size (lru c) + bytes \<le> cache_max_bytes)"
    using inv_length [OF "1.prems"(1)] inv_size [OF "1.prems"(1)] by auto
  show ?case
  proof (cases ?full)
    case False
    then have "evict bytes c = c" by (subst evict.simps) simp
    moreover have "lru_room bytes (lru c) = lru c" using False cond by (cases "lru c") auto
    ultimately show ?thesis using "1.prems"(1) by simp
  next
    case True
    show ?thesis
    proof (cases "ec_order c")
      case Nil
      then show ?thesis using True cond "1.prems"(2)
        by (simp add: lru_def lru_size_def cache_capacity_def)
    next
      case (Cons oldest order)
      obtain e where e: "map_of (ec_items c) oldest = Some e"
        using inv_order [OF "1.prems"(1), of oldest] Cons by auto
      let ?c' = "c\<lparr>ec_order := order, ec_items := AList.delete oldest (ec_items c), ec_bytes := ec_bytes c - cc_bytes e\<rparr>"
      have "distinct (oldest # order)" using "1.prems"(1) Cons by (simp add: cache_inv_def)
      then have o: "filter (\<lambda>k. k \<noteq> oldest) (ec_order c) = order"
        using Cons by (auto simp: filter_id_conv)
      have f: "cache_inv ?c' \<and> lru ?c' = lru_drop oldest (lru c)"
        by (rule forget_refines [OF "1.prems"(1) e]) (simp add: o)
      have d: "lru_drop oldest (lru c) = tl (lru c)"
        unfolding lru_def lru_drop_order o by (simp add: Cons)
      have "evict bytes c = evict bytes ?c'" using True Cons e by (subst evict.simps) simp
      moreover have "lru_room bytes (lru c) = lru_room bytes (tl (lru c))"
        using True cond Cons by (cases "lru c") (auto simp: lru_def)
      moreover have "cache_inv (evict bytes ?c') \<and> lru (evict bytes ?c') = lru_room bytes (lru ?c')"
        using "1.IH" [OF True Cons] f "1.prems"(2) by (simp add: e)
      ultimately show ?thesis using f d by simp
    qed
  qed
qed

lemma room_fits: "bytes \<le> cache_max_bytes \<Longrightarrow> length (lru_room bytes es) < cache_capacity
    \<and> lru_size (lru_room bytes es) + bytes \<le> cache_max_bytes"
  by (induction bytes es rule: lru_room.induct) (simp_all add: lru_size_def cache_capacity_def)

lemma room_sublist: "set (lru_room bytes es) \<subseteq> set es"
  by (induction bytes es rule: lru_room.induct) auto

lemma update_new: "key \<notin> fst ` set xs \<Longrightarrow> AList.update key e xs = xs @ [(key, e)]"
  by (induction xs) auto

lemma insert_refines:
  assumes "cache_inv c"
  shows "cache_inv (cache_insert key identity chunks c)"
    "lru (cache_insert key identity chunks c) = lru_insert key identity chunks (lru c)"
proof -
  define bytes where "bytes = sum_list (map length chunks)"
  define c1 where "c1 = cache_remove key c"
  define e where "e = \<lparr>cc_identity = identity, cc_chunks = chunks, cc_bytes = bytes\<rparr>"
  note r = remove_refines [OF assms, of key, folded c1_def]
  have "cache_inv (cache_insert key identity chunks c)
    \<and> lru (cache_insert key identity chunks c) = lru_insert key identity chunks (lru c)"
  proof (cases "bytes > cache_max_bytes")
    case True
    then show ?thesis using r by (simp add: cache_insert_def lru_insert_def Let_def bytes_def c1_def)
  next
    case False
    define c2 where "c2 = evict bytes c1"
    define c3 where "c3 = c2\<lparr>ec_order := ec_order c2 @ [key], ec_bytes := saturating_add (ec_bytes c2) bytes,
        ec_items := AList.update key e (ec_items c2)\<rparr>"
    have ev: "cache_inv c2" "lru c2 = lru_room bytes (lru_drop key (lru c))"
      using evict_refines [OF r(1), of bytes] False r(2) by (simp_all add: c2_def)
    note fits = room_fits [of bytes "lru_drop key (lru c)", folded ev(2)]
    have "key \<notin> fst ` set (lru c2)" unfolding ev(2)
      using room_sublist [of bytes "lru_drop key (lru c)"] by (auto simp: lru_drop_def)
    then have nk: "key \<notin> set (ec_order c2)" by (simp add: lru_def image_image)
    then have ni: "key \<notin> fst ` set (ec_items c2)" using ev(1) by (simp add: cache_inv_def)
    then have up: "AList.update key e (ec_items c2) = ec_items c2 @ [(key, e)]"
      by (rule update_new)
    have at: "cached_at c3 k = (if k = key then e else cached_at c2 k)" for k
      by (simp add: cached_at_def c3_def AList.update_conv')
    have l: "lru c3 = lru c2 @ [(key, e)]"
    proof -
      have "ec_order c3 = ec_order c2 @ [key]" by (simp add: c3_def)
      then show ?thesis using nk by (auto simp: lru_def at)
    qed
    have "saturating_add (ec_bytes c2) bytes = ec_bytes c2 + bytes"
      using fits False inv_size [OF ev(1)] by (simp add: saturating_add_def usize_limit_def cache_max_bytes_def)
    then have f: "ec_order c3 = ec_order c2 @ [key]" "ec_items c3 = ec_items c2 @ [(key, e)]" "ec_bytes c3 = ec_bytes c2 + bytes"
      by (simp_all add: c3_def up)
    have eb: "cc_bytes e = bytes" "cc_chunks e = chunks" by (simp_all add: e_def)
    have i2: "distinct (ec_order c2)" "distinct (map fst (ec_items c2))" "set (ec_order c2) = fst ` set (ec_items c2)"
      "\<forall>(k, e) \<in> set (ec_items c2). cc_bytes e = sum_list (map length (cc_chunks e))"
      using ev(1) by (simp_all add: cache_inv_def)
    have sz: "lru_size (lru c3) = lru_size (lru c2) + bytes" by (simp add: l lru_size_def eb)
    have "cache_inv c3"
    proof (rule cache_invI)
      show "ec_bytes c3 = lru_size (lru c3)" using f(3) sz inv_size [OF ev(1)] by simp
      show "lru_size (lru c3) \<le> cache_max_bytes" "length (lru c3) \<le> cache_capacity"
        using sz fits False l by simp_all
      show "\<forall>(k, e) \<in> set (ec_items c3). cc_bytes e = sum_list (map length (cc_chunks e))"
        using i2(4) by (simp add: f(2) eb bytes_def)
    qed (use i2 nk ni f in simp_all)
    then show ?thesis using False l ev(2)
      by (simp add: cache_insert_def lru_insert_def Let_def bytes_def [symmetric] c1_def [symmetric]
          c2_def [symmetric] c3_def e_def [symmetric])
  qed
  then show "cache_inv (cache_insert key identity chunks c)"
    "lru (cache_insert key identity chunks c) = lru_insert key identity chunks (lru c)" by blast+
qed

section \<open>Any sequence of operations\<close>

datatype cache_op = Get str file_identity | Insert str file_identity "bytes list"

fun cache_step :: "cache_op \<Rightarrow> entry_chunk_cache \<Rightarrow> entry_chunk_cache" where
  "cache_step (Get k i) c = snd (cache_get k i c)"
| "cache_step (Insert k i chunks) c = cache_insert k i chunks c"

fun lru_step :: "cache_op \<Rightarrow> (str \<times> cached_entry_chunks) list \<Rightarrow> (str \<times> cached_entry_chunks) list" where
  "lru_step (Get k i) es = snd (lru_get k i es)"
| "lru_step (Insert k i chunks) es = lru_insert k i chunks es"

lemma empty_refines: "cache_inv empty_cache \<and> lru empty_cache = []"
  by (simp add: cache_inv_def empty_cache_def lru_def)

lemma run_refines: "cache_inv c \<Longrightarrow> cache_inv (fold cache_step ops c) \<and> lru (fold cache_step ops c) = fold lru_step ops (lru c)"
proof (induction ops arbitrary: c)
  case (Cons op ops)
  have "cache_inv (cache_step op c)" "lru (cache_step op c) = lru_step op (lru c)"
    using get_refines [OF Cons.prems] insert_refines [OF Cons.prems] by (cases op; simp)+
  then show ?case using Cons.IH by simp
qed simp

text \<open>C3. After any sequence of lookups and insertions the hash map, the queue and the byte count are
  consistent with one another and within the limits (16 entries, 64 MiB), and together they are the
  abstract cache: a list of entries from the least to the most recently used, where a hit moves
  its entry to the end, a stale hit drops it, and an insertion drops the fewest oldest entries
  that make room.\<close>

theorem entry_cache_refines:
  "cache_inv (fold cache_step ops empty_cache) \<and> lru (fold cache_step ops empty_cache) = fold lru_step ops []
   \<and> length (ec_items (fold cache_step ops empty_cache)) \<le> 16
   \<and> ec_bytes (fold cache_step ops empty_cache) \<le> 67108864
   \<and> ec_bytes (fold cache_step ops empty_cache) = lru_size (fold lru_step ops [])"
proof -
  define c where "c = fold cache_step ops empty_cache"
  have inv: "cache_inv c" and l: "lru c = fold lru_step ops []"
    using run_refines [of empty_cache ops] empty_refines by (simp_all add: c_def)
  have "length (ec_items c) \<le> 16" using inv unfolding cache_inv_def cache_capacity_def by blast
  moreover have "ec_bytes c \<le> 67108864" using inv_bound [OF inv] by (simp add: cache_max_bytes_def)
  moreover have "ec_bytes c = lru_size (fold lru_step ops [])" using inv_size [OF inv] l by simp
  ultimately show ?thesis unfolding c_def [symmetric] using inv l by blast
qed

lemma lru_insert_lookup:
  assumes "sum_list (map length chunks) \<le> cache_max_bytes"
  shows "map_of (lru_insert key i chunks es) key
    = Some \<lparr>cc_identity = i, cc_chunks = chunks, cc_bytes = sum_list (map length chunks)\<rparr>"
proof -
  define n where "n = sum_list (map length chunks)"
  have "key \<notin> fst ` set (lru_room n (lru_drop key es))"
    using room_sublist [of n "lru_drop key es"] by (auto simp: lru_drop_def)
  then have "map_of (lru_room n (lru_drop key es)) key = None" by (simp add: map_of_eq_None_iff)
  moreover have "\<not> n > cache_max_bytes" using assms by (simp add: n_def)
  ultimately show ?thesis unfolding lru_insert_def Let_def n_def [symmetric]
    by (simp add: map_add_def)
qed

text \<open>A lookup right after an insertion, in any reachable cache, returns the chunks inserted when the file
  has the identity they were read with, and nothing when it has another (the stale entry is then
  gone), provided they fit the cache at all.\<close>

theorem entry_cache_hit:
  assumes "c = fold cache_step ops empty_cache" "sum_list (map length chunks) \<le> 67108864"
  shows "fst (cache_get key i (cache_insert key j chunks c)) = (if i = j then Some chunks else None)
    \<and> (i \<noteq> j \<longrightarrow> fst (cache_get key j (snd (cache_get key i (cache_insert key j chunks c)))) = None)"
proof -
  have inv: "cache_inv c" using run_refines empty_refines assms(1) by blast
  note ins = insert_refines [OF inv, of key j chunks]
  note g = get_refines [OF ins(1)]
  have m: "map_of (lru (cache_insert key j chunks c)) key
      = Some \<lparr>cc_identity = j, cc_chunks = chunks, cc_bytes = sum_list (map length chunks)\<rparr>"
    using lru_insert_lookup [of chunks key j "lru c"] assms(2) ins(2) by (simp add: cache_max_bytes_def)
  show ?thesis using get_refines(2) [OF g(1)] g(2,3) m
    by (auto simp: lru_get_def map_of_lru_drop)
qed

theorem entry_cache_hit_witness:
  "fst (cache_get [0x61] \<lparr>fi_len = 3, fi_modified_nanos = 1\<rparr>
     (cache_insert [0x61] \<lparr>fi_len = 3, fi_modified_nanos = 1\<rparr> [[1, 2, 3]] empty_cache)) = Some [[1, 2, 3]]"
  using entry_cache_hit [of empty_cache "[]" "[[1, 2, 3]]" "[0x61]" "\<lparr>fi_len = 3, fi_modified_nanos = 1\<rparr>"
      "\<lparr>fi_len = 3, fi_modified_nanos = 1\<rparr>"] by simp

end
