(* ===== verification/Info_Storage.thy ===== *)
theory Info_Storage imports Tea Entry_Cache Txdata begin

text \<open>
  The reader of the info storage (\<open>info_storage.rs\<close>): the encrypted streams and their cache, the
  entries inside a stream, and the labels and profiles read from the fields of an entry.

  The files below the root, the zlib decoder and the GB18030 decoder are parameters. A hash map is
  an association list with distinct keys, in the order of insertion; no result depends on the
  order. Every operation that reads a stream passes the storage on, because the cache is a part
  of it.
\<close>

section \<open>Data\<close>

datatype info_error =
    No_such_stream str
  | Key_unavailable
  | Partial_decode str nat nat str

type_synonym entries = "(str \<times> txdata_field list) list"

record info_env =
  ie_file :: "str \<Rightarrow> (file_identity \<times> bytes) option"
  ie_root_exists :: bool
  ie_zlib :: "bytes \<Rightarrow> bytes option"
  ie_gb :: "bytes \<Rightarrow> str option"

record info_storage =
  is_key :: "bytes option"
  is_cache :: entry_chunk_cache

record decoded_field =
  df_index :: nat
  df_header :: u8
  df_name :: str
  df_value_len :: u32
  df_uint_value :: "u32 option"
  df_texts :: "str list"
  df_role :: str

record group_member_profile =
  gm_uin :: str
  gm_display_name :: str
  gm_display_name_field :: "nat option"
  gm_title :: str
  gm_title_field :: "nat option"
  gm_head_index :: "u32 option"
  gm_faceshop_face_id :: "u32 option"
  gm_fields :: "decoded_field list"

record contact_profile =
  cp_uin :: str
  cp_faceshop_face_id :: "u32 option"
  cp_custom_head_file :: str
  cp_custom_head_file_field :: str
  cp_fields :: "decoded_field list"

record group_profile =
  gp_group_id :: str
  gp_name :: str
  gp_memo :: str
  gp_finger_memo :: str
  gp_group_face :: "u32 option"
  gp_use_custom_face :: "u32 option"
  gp_custom_image_type :: "u32 option"
  gp_image_file_path :: str
  gp_head_history_paths :: "str list"
  gp_file_hash_hex :: str
  gp_user_head_timestamp_v2 :: "u32 option"
  gp_fields :: "decoded_field list"

definition info_storage_new :: "(str \<Rightarrow> str option) \<Rightarrow> str option \<Rightarrow> str list option \<Rightarrow> info_storage option" where
  "info_storage_new key_hex_of env_key log =
     map_option (\<lambda>key. \<lparr>is_key = key, is_cache = empty_cache\<rparr>) (latest_key key_hex_of env_key log)"

definition storage_available :: "info_env \<Rightarrow> info_storage \<Rightarrow> bool" where
  "storage_available env st = (is_key st \<noteq> None \<and> ie_root_exists env)"

section \<open>The chunks of a stream\<close>

definition es_plain :: bytes where "es_plain = [0x45, 0x53, 1, 1]"

definition es_encrypted :: "bytes \<Rightarrow> bool" where
  "es_encrypted data = (starts_with data [0x45, 0x53, 1, 3] \<or> starts_with data [0x45, 0x53, 1, 2])"

definition be_nat_at :: "bytes \<Rightarrow> nat \<Rightarrow> nat" where
  "be_nat_at data i = unat (u32_from_be (take 4 (drop i data)))"

function encrypted_chunks ::
  "(bytes \<Rightarrow> bytes option) \<Rightarrow> bytes \<Rightarrow> bytes \<Rightarrow> nat \<Rightarrow> bytes list \<Rightarrow> (info_error, bytes list) outcome" where
  "encrypted_chunks zlib key data pos out =
     (if pos + 8 \<le> length data then
        let enc_len = be_nat_at data (pos + 4); start = pos + 8 in
        if enc_len = 0 \<or> start + enc_len > length data then Ok out
        else (case qq_tea_decrypt (take enc_len (drop start data)) key 2 of
            Panic \<Rightarrow> Panic
          | Err e \<Rightarrow> encrypted_chunks zlib key data (start + enc_len) out
          | Ok compressed \<Rightarrow>
              encrypted_chunks zlib key data (start + enc_len)
                (case zlib compressed of None \<Rightarrow> out | Some inflated \<Rightarrow> out @ [inflated]))
      else Ok out)"
  by pat_completeness auto
termination
  by (relation "measure (\<lambda>(_, _, data, pos, _). length data - pos)") auto

declare encrypted_chunks.simps [simp del]

definition stream_chunks :: "(bytes \<Rightarrow> bytes option) \<Rightarrow> bytes \<Rightarrow> bytes \<Rightarrow> (info_error, bytes list) outcome" where
  "stream_chunks zlib key data =
     (if length data \<ge> 5 \<and> starts_with data es_plain then Ok [drop 4 data]
      else if length data \<ge> 8 \<and> es_encrypted data then encrypted_chunks zlib key data 8 []
      else Ok [])"

definition entry_chunks :: "info_env \<Rightarrow> info_storage \<Rightarrow> str \<Rightarrow> (info_error, bytes list) outcome \<times> info_storage" where
  "entry_chunks env st rel =
     (case ie_file env rel of
        None \<Rightarrow> (Err (No_such_stream rel), st)
      | Some (identity, data) \<Rightarrow>
          (case cache_get rel identity (is_cache st) of
             (Some cached, cache) \<Rightarrow> (Ok cached, st\<lparr>is_cache := cache\<rparr>)
           | (None, cache) \<Rightarrow>
               (let st1 = st\<lparr>is_cache := cache\<rparr> in
                case is_key st of
                  None \<Rightarrow> (Err Key_unavailable, st1)
                | Some key \<Rightarrow>
                    (case stream_chunks (ie_zlib env) key data of
                       Ok chunks \<Rightarrow> (Ok chunks, st1\<lparr>is_cache := cache_insert rel identity chunks cache\<rparr>)
                     | Err e \<Rightarrow> (Err e, st1)
                     | Panic \<Rightarrow> (Panic, st1)))))"

section \<open>The entries of a chunk\<close>

definition extend_entry :: "str \<Rightarrow> txdata_field list \<Rightarrow> entries \<Rightarrow> entries" where
  "extend_entry name flds out = AList.map_default name flds (\<lambda>old. old @ flds) out"

definition td_or_ta :: "bytes \<Rightarrow> bool" where
  "td_or_ta data = (starts_with data [0x54, 0x44, 1, 1] \<or> starts_with data [0x54, 0x41, 1, 1])"

definition decode_entry :: "(bytes \<Rightarrow> str option) \<Rightarrow> str \<Rightarrow> bytes \<Rightarrow> entries \<Rightarrow> entries option" where
  "decode_entry gb name data out =
     (if td_or_ta data then do {
        rec \<leftarrow> decode_txdata_fields gb (drop 4 data);
        Some (if txr_fields rec \<noteq> [] then extend_entry name (txr_fields rec) out else out) }
      else Some out)"

function payload_entries ::
  "(bytes \<Rightarrow> str option) \<Rightarrow> str set option \<Rightarrow> bytes \<Rightarrow> nat \<Rightarrow> entries \<Rightarrow> entries option" where
  "payload_entries gb wanted payload p out =
     (if p + 8 \<le> length payload then
        let name_len = be_nat_at payload p; p1 = p + 4 in
        if p1 + name_len + 4 > length payload then Some out
        else
          let name = utf8_lossy (take name_len (drop p1 payload));
              p2 = p1 + name_len;
              data_len = be_nat_at payload p2;
              p3 = p2 + 4
          in if p3 + data_len > length payload then Some out
             else if (case wanted of Some w \<Rightarrow> name \<notin> w | None \<Rightarrow> False)
             then payload_entries gb wanted payload (p3 + data_len) out
             else (case decode_entry gb name (take data_len (drop p3 payload)) out of
                 None \<Rightarrow> None
               | Some out' \<Rightarrow> payload_entries gb wanted payload (p3 + data_len) out')
      else Some out)"
  by pat_completeness auto
termination
  by (relation "measure (\<lambda>(_, _, payload, p, _). length payload - p)") auto

function inner_entries ::
  "(bytes \<Rightarrow> str option) \<Rightarrow> str set option \<Rightarrow> bytes \<Rightarrow> nat \<Rightarrow> entries \<Rightarrow> entries option" where
  "inner_entries gb wanted buf pos out =
     (if pos + 5 \<le> length buf then
        let tag = buf ! pos; bytes = be_nat_at buf (pos + 1); start = pos + 5 in
        if bytes = 0 \<or> start + bytes > length buf then Some out
        else if tag \<noteq> 2 then inner_entries gb wanted buf (start + bytes) out
        else (case payload_entries gb wanted (take bytes (drop start buf)) 0 out of
            None \<Rightarrow> None
          | Some out' \<Rightarrow> inner_entries gb wanted buf (start + bytes) out')
      else Some out)"
  by pat_completeness auto
termination
  by (relation "measure (\<lambda>(_, _, buf, pos, _). length buf - pos)") auto

declare payload_entries.simps [simp del] inner_entries.simps [simp del]

definition parse_inner_entries ::
  "(bytes \<Rightarrow> str option) \<Rightarrow> bytes \<Rightarrow> entries \<Rightarrow> str set option \<Rightarrow> entries option" where
  "parse_inner_entries gb buf out wanted = inner_entries gb wanted buf 0 out"

definition entries_filtered ::
  "info_env \<Rightarrow> info_storage \<Rightarrow> str \<Rightarrow> str set option \<Rightarrow> (info_error, entries) outcome \<times> info_storage" where
  "entries_filtered env st rel wanted =
     (if is_key st = None then (Ok [], st)
      else case entry_chunks env st rel of
             (r, st1) \<Rightarrow>
               (and_then r (\<lambda>chunks. or_panic
                  (try_fold (\<lambda>chunk out. parse_inner_entries (ie_gb env) chunk out wanted) chunks [])), st1))"

section \<open>Texts and numbers of fields\<close>

definition hex_prefix :: "bytes \<Rightarrow> nat \<Rightarrow> str" where
  "hex_prefix data limit = join [0x20] (map (\<lambda>b. hex2 (unat b)) (take limit data))
     @ (if length data > limit then ascii '' ...'' else [])"

definition field_texts :: "txdata_field \<Rightarrow> (info_error, str list) outcome" where
  "field_texts f =
     (if txf_header f = 8 \<and> txf_value_text_len f \<noteq> 0 \<and> txf_value_text_len f \<noteq> length (txf_value f)
      then Err (Partial_decode (txf_name f) (txf_value_text_len f) (length (txf_value f)) (hex_prefix (txf_value f) 96))
      else Ok (filter (\<lambda>s. s \<noteq> []) (map trim (txf_value_texts f))))"

definition usable_label :: "str \<Rightarrow> str \<Rightarrow> bool \<Rightarrow> bool" where
  "usable_label txt ident allow_numeric =
     (let t = trim txt in
      if t = [] \<or> t = ident then False
      else if str_len t > 80 \<or> 0 \<in> set t \<or> 0x5C \<in> set t \<or> 0x2F \<in> set t then False
      else if \<not> allow_numeric \<and> (\<forall>c \<in> set t. is_ascii_digit c) then False
      else \<not> (\<exists>c \<in> set t. c < 0x20))"

fun first_field_text ::
  "txdata_field list \<Rightarrow> nat list \<Rightarrow> str \<Rightarrow> bool \<Rightarrow> (info_error, str \<times> nat option) outcome" where
  "first_field_text flds [] ident allow_numeric = Ok ([], None)"
| "first_field_text flds (i # order) ident allow_numeric =
     (case idx flds i of
        None \<Rightarrow> first_field_text flds order ident allow_numeric
      | Some f \<Rightarrow>
          if txf_header f \<noteq> 8 then first_field_text flds order ident allow_numeric
          else and_then (field_texts f) (\<lambda>texts.
            case find (\<lambda>t. usable_label t ident allow_numeric) texts of
              Some t \<Rightarrow> Ok (t, Some i)
            | None \<Rightarrow> first_field_text flds order ident allow_numeric))"

definition priority_field_text :: "txdata_field list \<Rightarrow> nat list \<Rightarrow> str \<Rightarrow> bool \<Rightarrow> (info_error, str) outcome" where
  "priority_field_text flds order ident allow_numeric = map_ok fst (first_field_text flds order ident allow_numeric)"

fun named_text :: "txdata_field list \<Rightarrow> str \<Rightarrow> (info_error, str option) outcome" where
  "named_text [] name = Ok None"
| "named_text (f # flds) name =
     (if txf_name f = name \<and> txf_header f = 8
      then and_then (field_texts f) (\<lambda>texts.
        case find (\<lambda>v. v \<noteq> []) texts of Some v \<Rightarrow> Ok (Some v) | None \<Rightarrow> named_text flds name)
      else named_text flds name)"

definition named_bytes :: "txdata_field list \<Rightarrow> str \<Rightarrow> str option" where
  "named_bytes flds name =
     map_option (\<lambda>f. concat (map (\<lambda>b. hex2 (unat b)) (txf_value f))) (find (\<lambda>f. txf_name f = name) flds)"

definition uint_of :: "u8 set \<Rightarrow> txdata_field \<Rightarrow> u32 option" where
  "uint_of two f =
     (if txf_header f \<in> {1, 6} \<and> length (txf_value f) = 4 then Some (u32_from_le (txf_value f))
      else if txf_header f = 2 \<and> length (txf_value f) = 1 then Some (ucast (hd (txf_value f)))
      else if txf_header f \<in> two \<and> length (txf_value f) = 2 then Some (ucast (u16_from_le (txf_value f)))
      else None)"

fun named_uint :: "txdata_field list \<Rightarrow> str \<Rightarrow> u32 option" where
  "named_uint [] name = None"
| "named_uint (f # flds) name =
     (case (if txf_name f = name then uint_of {3, 4} f else None) of
        Some v \<Rightarrow> Some v | None \<Rightarrow> named_uint flds name)"

definition decoded_fields :: "txdata_field list \<Rightarrow> (info_error, decoded_field list) outcome" where
  "decoded_fields flds =
     ok_fold (\<lambda>(i, f) out.
       and_then (if txf_header f = 8 then field_texts f else Ok []) (\<lambda>texts.
       Ok (out @ [\<lparr>df_index = i, df_header = txf_header f, df_name = txf_name f, df_value_len = txf_value_len f,
            df_uint_value = uint_of {3} f, df_texts = texts, df_role = []\<rparr>])))
       (zip [0..<length flds] flds) []"

definition nested_txdata :: "(bytes \<Rightarrow> str option) \<Rightarrow> bytes \<Rightarrow> txdata_field list list option" where
  "nested_txdata gb data =
     try_fold (\<lambda>i out.
       if td_or_ta (drop i data)
       then map_option (\<lambda>rec. if txr_fields rec \<noteq> [] then out @ [txr_fields rec] else out)
              (decode_txdata_fields gb (drop (i + 4) data))
       else Some out) [0..<length data - 3] []"

definition push_value :: "str \<Rightarrow> str \<Rightarrow> (str \<times> str list) list \<Rightarrow> (str \<times> str list) list" where
  "push_value name t out = AList.map_default name [t] (\<lambda>old. old @ [t]) out"

definition push_field_values :: "txdata_field \<Rightarrow> (str \<times> str list) list \<Rightarrow> (info_error, (str \<times> str list) list) outcome" where
  "push_field_values f out =
     (if txf_name f = [] then Ok out
      else map_ok (\<lambda>texts. fold (push_value (txf_name f)) texts out) (field_texts f))"

definition named_values :: "(bytes \<Rightarrow> str option) \<Rightarrow> txdata_field list \<Rightarrow> (info_error, (str \<times> str list) list) outcome" where
  "named_values gb flds =
     ok_fold (\<lambda>f out.
       and_then (push_field_values f out) (\<lambda>out1.
       and_then (or_panic (nested_txdata gb (txf_value f))) (\<lambda>recs.
       ok_fold push_field_values (concat recs) out1))) flds []"

section \<open>Labels and profiles of one entry\<close>

fun group_label_names :: "(bytes \<Rightarrow> str option) \<Rightarrow> txdata_field list \<Rightarrow> str \<Rightarrow> str list \<Rightarrow> (info_error, str) outcome" where
  "group_label_names gb flds ident [] = priority_field_text flds [2] ident False"
| "group_label_names gb flds ident (name # names) =
     and_then (named_values gb flds) (\<lambda>values.
       case Option.bind (map_of values name) (\<lambda>vs. idx vs 0) of
         Some t \<Rightarrow> if usable_label t ident False then Ok t else group_label_names gb flds ident names
       | None \<Rightarrow> group_label_names gb flds ident names)"

definition group_label_from_fields :: "(bytes \<Rightarrow> str option) \<Rightarrow> txdata_field list \<Rightarrow> str \<Rightarrow> (info_error, str) outcome" where
  "group_label_from_fields gb flds ident =
     group_label_names gb flds ident (map ascii [''string_long_group_name'', ''strGroupName'', ''strGroupName1''])"

definition group_member_profile_of :: "str \<Rightarrow> txdata_field list \<Rightarrow> (info_error, group_member_profile) outcome" where
  "group_member_profile_of uin flds =
     and_then (decoded_fields flds) (\<lambda>decoded.
     and_then (first_field_text flds [3, 2, 4, 5, 6, 7, 8, 9] uin True) (\<lambda>(display_name, display_name_field).
     and_then (first_field_text flds [1] uin True) (\<lambda>(title, title_field).
     Ok \<lparr>gm_uin = uin, gm_display_name = display_name, gm_display_name_field = display_name_field,
         gm_title = title, gm_title_field = title_field,
         gm_head_index = named_uint flds (ascii ''wHeadIndex''),
         gm_faceshop_face_id = named_uint flds (ascii ''dwFaceshopFaceId''),
         gm_fields = map (\<lambda>d. d\<lparr>df_role :=
           (if Some (df_index d) = display_name_field then ascii ''display_name''
            else if Some (df_index d) = title_field then ascii ''title''
            else df_role d)\<rparr>) decoded\<rparr>)))"

fun custom_head :: "txdata_field list \<Rightarrow> str list \<Rightarrow> contact_profile \<Rightarrow> (info_error, contact_profile) outcome" where
  "custom_head flds [] p = Ok p"
| "custom_head flds (name # names) p =
     and_then (named_text flds name) (\<lambda>v.
       case v of
         Some value_text \<Rightarrow> Ok (p\<lparr>cp_custom_head_file := value_text, cp_custom_head_file_field := name\<rparr>)
       | None \<Rightarrow> custom_head flds names p)"

definition merge_contact_profile :: "contact_profile \<Rightarrow> txdata_field list \<Rightarrow> (info_error, contact_profile) outcome" where
  "merge_contact_profile p flds =
     (let p1 = (if cp_faceshop_face_id p = None
                then p\<lparr>cp_faceshop_face_id := named_uint flds (ascii ''dwFaceshopFaceId'')\<rparr> else p) in
      and_then (if cp_custom_head_file p1 = []
                then custom_head flds (map ascii [''strCustomHeadFile140'', ''strCustomHeadFile100'',
                       ''strCustomHeadFileOrigin'', ''strCustomHeadFile'']) p1
                else Ok p1) (\<lambda>p2.
      if cp_fields p2 = [] then map_ok (\<lambda>d. p2\<lparr>cp_fields := d\<rparr>) (decoded_fields flds) else Ok p2))"

section \<open>Labels\<close>

definition or_default :: "(info_error, entries) outcome \<Rightarrow> (info_error, entries) outcome" where
  "or_default r = (case r of Err e \<Rightarrow> Ok [] | Ok es \<Rightarrow> Ok es | Panic \<Rightarrow> Panic)"

definition storage_entries :: "info_env \<Rightarrow> info_storage \<Rightarrow> str \<Rightarrow> (info_error, entries) outcome \<times> info_storage" where
  "storage_entries env st rel = entries_filtered env st rel None"

definition group_label :: "info_env \<Rightarrow> info_storage \<Rightarrow> str \<Rightarrow> (info_error, str) outcome \<times> info_storage" where
  "group_label env st ident =
     (case storage_entries env st (ascii ''Group/Basic.db'') of
        (r, st1) \<Rightarrow> (and_then (or_default r) (\<lambda>es.
          case map_of es ident of None \<Rightarrow> Ok [] | Some flds \<Rightarrow> group_label_from_fields (ie_gb env) flds ident), st1))"

definition entry_label ::
  "info_env \<Rightarrow> info_storage \<Rightarrow> str \<Rightarrow> str \<Rightarrow> nat list \<Rightarrow> bool \<Rightarrow> (info_error, str) outcome \<times> info_storage" where
  "entry_label env st rel ident order allow_numeric =
     (case storage_entries env st rel of
        (r, st1) \<Rightarrow> (and_then (or_default r) (\<lambda>es.
          case map_of es ident of None \<Rightarrow> Ok [] | Some flds \<Rightarrow> priority_field_text flds order ident allow_numeric), st1))"

definition label_order :: "nat list" where "label_order = [0, 1, 2, 3, 4, 5]"

definition storage_label :: "info_env \<Rightarrow> info_storage \<Rightarrow> str \<Rightarrow> str \<Rightarrow> (info_error, str) outcome \<times> info_storage" where
  "storage_label env st kind ident =
     (if kind = ascii ''group'' then group_label env st ident
      else if kind = ascii ''discuss'' then entry_label env st (ascii ''discuss/remark.db'') ident label_order False
      else if kind = ascii ''buddy'' then
        (case entry_label env st (ascii ''Contact/Remark.db'') ident label_order False of
           (Ok t, st1) \<Rightarrow>
             if t = [] then entry_label env st1 (ascii ''Contact/PublicInfo.db'') ident label_order False
             else (Ok t, st1)
         | r \<Rightarrow> r)
      else (Ok [], st))"

type_synonym label_map = "(str \<times> str) list"

definition insert_priority_labels :: "label_map \<Rightarrow> entries \<Rightarrow> nat list \<Rightarrow> (info_error, label_map) outcome" where
  "insert_priority_labels out es order =
     ok_fold (\<lambda>(ident, flds) out.
       case priority_field_text flds order ident False of
         Ok label \<Rightarrow> Ok (if label \<noteq> [] \<and> map_of out ident = None then out @ [(ident, label)] else out)
       | Err e \<Rightarrow> Ok out
       | Panic \<Rightarrow> Panic) es out"

definition group_labels :: "(bytes \<Rightarrow> str option) \<Rightarrow> entries \<Rightarrow> (info_error, label_map) outcome" where
  "group_labels gb es =
     ok_fold (\<lambda>(ident, flds) out.
       case group_label_from_fields gb flds ident of
         Ok label \<Rightarrow> Ok (if label \<noteq> [] then AList.update ident label out else out)
       | Err e \<Rightarrow> Ok out
       | Panic \<Rightarrow> Panic) es []"

definition storage_labels :: "info_env \<Rightarrow> info_storage \<Rightarrow> str \<Rightarrow> str set \<Rightarrow> (info_error, label_map) outcome \<times> info_storage" where
  "storage_labels env st kind wanted =
     (if wanted = {} then (Ok [], st)
      else if kind = ascii ''group'' then
        (case entries_filtered env st (ascii ''Group/Basic.db'') (Some wanted) of
           (r, st1) \<Rightarrow> (and_then (or_default r) (group_labels (ie_gb env)), st1))
      else if kind = ascii ''discuss'' then
        (case entries_filtered env st (ascii ''discuss/remark.db'') (Some wanted) of
           (r, st1) \<Rightarrow> (and_then (or_default r) (\<lambda>es. insert_priority_labels [] es label_order), st1))
      else if kind = ascii ''buddy'' then
        (case entries_filtered env st (ascii ''Contact/Remark.db'') (Some wanted) of
           (r, st1) \<Rightarrow>
             (case and_then (or_default r) (\<lambda>es. insert_priority_labels [] es label_order) of
                Ok labels \<Rightarrow>
                  (let unresolved = {ident \<in> wanted. map_of labels ident = None} in
                   if unresolved = {} then (Ok labels, st1)
                   else (case entries_filtered env st1 (ascii ''Contact/PublicInfo.db'') (Some unresolved) of
                      (r2, st2) \<Rightarrow>
                        (and_then (or_default r2) (\<lambda>es. insert_priority_labels labels es label_order), st2)))
              | e \<Rightarrow> (e, st1)))
      else (Ok [], st))"

section \<open>Profiles\<close>

definition entries_for_stream ::
  "info_env \<Rightarrow> info_storage \<Rightarrow> str \<Rightarrow> str set option \<Rightarrow> (info_error, entries) outcome \<times> info_storage" where
  "entries_for_stream env st rel wanted = entries_filtered env st rel wanted"

definition group_member_profiles_for ::
  "info_env \<Rightarrow> info_storage \<Rightarrow> str \<Rightarrow> str set \<Rightarrow> (info_error, (str \<times> group_member_profile) list) outcome \<times> info_storage" where
  "group_member_profiles_for env st group_id wanted =
     (if \<not> (\<forall>c \<in> set group_id. is_ascii_digit c) \<or> wanted = {} then (Ok [], st)
      else case entries_filtered env st (ascii ''User/Group'' @ group_id @ ascii ''.db'') (Some wanted) of
        (r, st1) \<Rightarrow> (and_then (or_default r) (\<lambda>es.
          ok_fold (\<lambda>(uin, flds) out. and_then (group_member_profile_of uin flds) (\<lambda>p.
            Ok (if gm_display_name p \<noteq> [] \<or> gm_title p \<noteq> [] \<or> gm_fields p \<noteq> []
                then AList.update uin p out else out))) es []), st1))"

definition default_contact :: "str \<Rightarrow> contact_profile" where
  "default_contact uin = \<lparr>cp_uin = uin, cp_faceshop_face_id = None, cp_custom_head_file = [],
     cp_custom_head_file_field = [], cp_fields = []\<rparr>"

definition merge_entry :: "str \<times> txdata_field list \<Rightarrow> (str \<times> contact_profile) list
    \<Rightarrow> (info_error, (str \<times> contact_profile) list) outcome" where
  "merge_entry entry out =
     (let (uin, flds) = entry;
          p = (case map_of out uin of Some p \<Rightarrow> p | None \<Rightarrow> default_contact uin)
      in map_ok (\<lambda>p'. AList.update uin p' out) (merge_contact_profile p flds))"

fun contact_streams ::
  "info_env \<Rightarrow> str set \<Rightarrow> str list \<Rightarrow> info_storage \<Rightarrow> (str \<times> contact_profile) list
    \<Rightarrow> (info_error, (str \<times> contact_profile) list) outcome \<times> info_storage" where
  "contact_streams env wanted [] st out = (Ok out, st)"
| "contact_streams env wanted (rel # rels) st out =
     (case entries_filtered env st rel (Some wanted) of
        (r, st1) \<Rightarrow>
          (case and_then (or_default r) (\<lambda>es. ok_fold merge_entry es out) of
             Ok out' \<Rightarrow> contact_streams env wanted rels st1 out'
           | e \<Rightarrow> (e, st1)))"

definition contact_profiles_for ::
  "info_env \<Rightarrow> info_storage \<Rightarrow> str set \<Rightarrow> (info_error, (str \<times> contact_profile) list) outcome \<times> info_storage" where
  "contact_profiles_for env st wanted =
     (if wanted = {} then (Ok [], st)
      else contact_streams env wanted (map ascii [''Contact/QQInfo.db'', ''Contact/NonRelationQQInfo.db'',
             ''Contact/PublicInfo.db'', ''Contact/Remark.db'']) st [])"

definition default_group :: "str \<Rightarrow> group_profile" where
  "default_group group_id = \<lparr>gp_group_id = group_id, gp_name = [], gp_memo = [], gp_finger_memo = [],
     gp_group_face = None, gp_use_custom_face = None, gp_custom_image_type = None, gp_image_file_path = [],
     gp_head_history_paths = [], gp_file_hash_hex = [], gp_user_head_timestamp_v2 = None, gp_fields = []\<rparr>"

definition text_or_empty :: "txdata_field list \<Rightarrow> string \<Rightarrow> (info_error, str) outcome" where
  "text_or_empty flds name = map_ok (\<lambda>t. case t of Some v \<Rightarrow> v | None \<Rightarrow> []) (named_text flds (ascii name))"

definition group_profile_of :: "str \<Rightarrow> txdata_field list \<Rightarrow> (info_error, group_profile) outcome" where
  "group_profile_of group_id flds =
     and_then (text_or_empty flds ''strGroupName'') (\<lambda>name_text.
     and_then (text_or_empty flds ''strGroupMemo'') (\<lambda>memo.
     and_then (text_or_empty flds ''strFingerMemo'') (\<lambda>finger_memo.
     and_then (text_or_empty flds ''strImageFilePath'') (\<lambda>image_file_path.
     and_then (decoded_fields flds) (\<lambda>decoded.
     Ok \<lparr>gp_group_id = group_id, gp_name = name_text, gp_memo = memo, gp_finger_memo = finger_memo,
         gp_group_face = named_uint flds (ascii ''wGroupFace''),
         gp_use_custom_face = named_uint flds (ascii ''cUseCustomFace''),
         gp_custom_image_type = named_uint flds (ascii ''enumCostomImageType''),
         gp_image_file_path = image_file_path,
         gp_head_history_paths = (case find (\<lambda>f. txf_name f = ascii ''arrayGroupHeadHistory'') flds of
            Some f \<Rightarrow> txf_value_texts f | None \<Rightarrow> []),
         gp_file_hash_hex = (case named_bytes flds (ascii ''bufFileHash'') of Some h \<Rightarrow> h | None \<Rightarrow> []),
         gp_user_head_timestamp_v2 = named_uint flds (ascii ''dwUserHeadTimestamp_v2''),
         gp_fields = decoded\<rparr>)))))"

definition group_profile_for :: "info_env \<Rightarrow> info_storage \<Rightarrow> str \<Rightarrow> (info_error, group_profile) outcome \<times> info_storage" where
  "group_profile_for env st group_id =
     (case entries_filtered env st (ascii ''Group/Basic.db'') (Some {group_id}) of
        (r, st1) \<Rightarrow> (and_then (or_default r) (\<lambda>es.
          case map_of es group_id of
            None \<Rightarrow> Ok (default_group group_id)
          | Some flds \<Rightarrow> group_profile_of group_id flds), st1))"

definition friend_social_image_profiles_for ::
  "info_env \<Rightarrow> info_storage \<Rightarrow> str set \<Rightarrow> (info_error, (str \<times> contact_profile) list) outcome \<times> info_storage" where
  "friend_social_image_profiles_for env st wanted =
     (if wanted = {} then (Ok [], st)
      else case entries_filtered env st (ascii ''dbImage.db'') (Some wanted) of
        (r, st1) \<Rightarrow> (and_then (or_default r) (\<lambda>es.
          ok_fold (\<lambda>(uin, flds) out.
            and_then (text_or_empty flds ''sSize100'') (\<lambda>head.
            and_then (decoded_fields flds) (\<lambda>decoded.
            Ok (AList.update uin \<lparr>cp_uin = uin, cp_faceshop_face_id = None, cp_custom_head_file = head,
                 cp_custom_head_file_field = ascii ''FriendSocial.db/FriendSocial/dbImage.db:sSize100'',
                 cp_fields = decoded\<rparr> out)))) es []), st1))"

end
