(* ===== verification/Info_Facts.thy ===== *)
theory Info_Facts imports Info_Storage begin

text \<open>
  What the reader of the info storage guarantees: reading never panics, a restricted read is the
  restriction of a full one, the cache cannot be observed, the batch lookup of labels agrees with
  the single one, and a stream written as entries is read back.
\<close>

section \<open>Reading never panics\<close>

lemma qq_tea_no_panic: "qq_tea_decrypt cipher key 2 \<noteq> Panic"
  by (simp add: qq_tea_decrypt_reference tea_reference_def Let_def)

lemma encrypted_chunks_Ok: "\<exists>chunks. encrypted_chunks zlib key data pos out = Ok chunks"
proof (induction zlib key data pos out rule: encrypted_chunks.induct)
  case (1 zlib key data pos out)
  define n where "n = be_nat_at data (pos + 4)"
  note loop = encrypted_chunks.simps [of zlib key data pos out, unfolded Let_def, folded n_def]
  show ?case
  proof (cases "pos + 8 \<le> length data \<and> \<not> (n = 0 \<or> pos + 8 + n > length data)")
    case False
    then show ?thesis using loop by auto
  next
    case True
    then show ?thesis using loop 1 [OF _ n_def refl] qq_tea_no_panic [of "take n (drop (pos + 8) data)" key]
      by (cases "qq_tea_decrypt (take n (drop (pos + 8) data)) key 2") auto
  qed
qed

lemma stream_chunks_Ok: "\<exists>chunks. stream_chunks zlib key data = Ok chunks"
  by (simp add: stream_chunks_def encrypted_chunks_Ok)

lemma decode_total: "\<exists>r. decode_txdata_fields gb data = Some r"
  using txdata_complete_exact_aux [of gb data] by blast

lemma decode_entry_total: "\<exists>out'. decode_entry gb name data out = Some out'"
  using decode_total [of gb "drop 4 data"] by (auto simp: decode_entry_def)

lemma payload_entries_total: "\<exists>out'. payload_entries gb wanted payload p out = Some out'"
proof (induction gb wanted payload p out rule: payload_entries.induct)
  case (1 gb wanted payload p out)
  define n where "n = be_nat_at payload p"
  define nm where "nm = utf8_lossy (take n (drop (p + 4) payload))"
  define m where "m = be_nat_at payload (p + 4 + n)"
  note loop = payload_entries.simps [of gb wanted payload p out, unfolded Let_def, folded n_def, folded nm_def m_def]
  show ?case
  proof (cases "p + 8 \<le> length payload \<and> \<not> p + 4 + n + 4 > length payload \<and> \<not> p + 4 + n + 4 + m > length payload")
    case False
    then show ?thesis using loop by auto
  next
    case True
    then have c: "p + 8 \<le> length payload" "\<not> p + 4 + n + 4 > length payload" "\<not> p + 4 + n + 4 + m > length payload" by auto
    note ih = 1 [OF c(1) n_def refl c(2) nm_def refl m_def refl c(3)]
    show ?thesis using loop c ih decode_entry_total [of gb nm "take m (drop (p + 4 + n + 4) payload)" out]
      by (cases "case wanted of Some w \<Rightarrow> nm \<notin> w | None \<Rightarrow> False") auto
  qed
qed

lemma inner_entries_total: "\<exists>out'. inner_entries gb wanted buf pos out = Some out'"
proof (induction gb wanted buf pos out rule: inner_entries.induct)
  case (1 gb wanted buf pos out)
  define n where "n = be_nat_at buf (pos + 1)"
  note loop = inner_entries.simps [of gb wanted buf pos out, unfolded Let_def, folded n_def]
  show ?case
  proof (cases "pos + 5 \<le> length buf \<and> \<not> (n = 0 \<or> pos + 5 + n > length buf)")
    case False
    then show ?thesis using loop by auto
  next
    case True
    then have c: "pos + 5 \<le> length buf" "\<not> (n = 0 \<or> pos + 5 + n > length buf)" by auto
    obtain o' where o': "payload_entries gb wanted (take n (drop (pos + 5) buf)) 0 out = Some o'"
      using payload_entries_total by blast
    show ?thesis using loop c o' 1(1) [OF c(1) refl n_def refl c(2)] 1(2) [OF c(1) refl n_def refl c(2) _ o']
      by (cases "buf ! pos = 2") auto
  qed
qed

section \<open>A restricted read\<close>

definition restrict_entries :: "str set option \<Rightarrow> entries \<Rightarrow> entries" where
  "restrict_entries wanted es = (case wanted of None \<Rightarrow> es | Some w \<Rightarrow> filter (\<lambda>(k, _). k \<in> w) es)"

lemma filter_extend:
  "filter (\<lambda>(k, _). k \<in> w) (extend_entry name flds es)
   = (if name \<in> w then extend_entry name flds (filter (\<lambda>(k, _). k \<in> w) es) else filter (\<lambda>(k, _). k \<in> w) es)"
  unfolding extend_entry_def by (induction es) auto

lemma decode_entry_restrict:
  "decode_entry gb name data es = Some es' \<Longrightarrow>
   (if name \<in> w then decode_entry gb name data (filter (\<lambda>(k, _). k \<in> w) es) = Some (filter (\<lambda>(k, _). k \<in> w) es')
    else filter (\<lambda>(k, _). k \<in> w) es' = filter (\<lambda>(k, _). k \<in> w) es)"
  using decode_total [of gb "drop 4 data"]
  by (auto simp: decode_entry_def filter_extend split: if_splits)

lemma payload_entries_restrict:
  "payload_entries gb None payload p es = Some es' \<Longrightarrow>
   payload_entries gb (Some w) payload p (filter (\<lambda>(k, _). k \<in> w) es) = Some (filter (\<lambda>(k, _). k \<in> w) es')"
proof (induction gb "None :: str set option" payload p es rule: payload_entries.induct)
  case (1 gb payload p es)
  define n where "n = be_nat_at payload p"
  define nm where "nm = utf8_lossy (take n (drop (p + 4) payload))"
  define m where "m = be_nat_at payload (p + 4 + n)"
  note loop = payload_entries.simps [of gb _ payload p, unfolded Let_def, folded n_def, folded nm_def m_def]
  show ?case
  proof (cases "p + 8 \<le> length payload \<and> \<not> p + 4 + n + 4 > length payload \<and> \<not> p + 4 + n + 4 + m > length payload")
    case False
    then have "payload_entries gb v payload p o' = Some o'" for v o' using loop by auto
    then show ?thesis using "1.prems" by (simp only: option.inject)
  next
    case True
    then have c: "p + 8 \<le> length payload" "\<not> p + 4 + n + 4 > length payload" "\<not> p + 4 + n + 4 + m > length payload" by auto
    let ?d = "take m (drop (p + 4 + n + 4) payload)"
    obtain es1 where e: "decode_entry gb nm ?d es = Some es1" using decode_entry_total by blast
    then have "payload_entries gb None payload (p + 4 + n + 4 + m) es1 = Some es'"
      using "1.prems" loop [of None es] c by simp
    then have "payload_entries gb (Some w) payload (p + 4 + n + 4 + m) (filter (\<lambda>(k, _). k \<in> w) es1)
        = Some (filter (\<lambda>(k, _). k \<in> w) es')"
      using "1.hyps"(2) [OF c(1) n_def refl c(2) nm_def refl m_def refl c(3) _ e] by simp
    then show ?thesis
      using loop [of "Some w" "filter (\<lambda>(k, _). k \<in> w) es"] c decode_entry_restrict [OF e, of w]
      by (cases "nm \<in> w") auto
  qed
qed

lemma inner_entries_restrict:
  "inner_entries gb None buf pos es = Some es' \<Longrightarrow>
   inner_entries gb (Some w) buf pos (filter (\<lambda>(k, _). k \<in> w) es) = Some (filter (\<lambda>(k, _). k \<in> w) es')"
proof (induction gb "None :: str set option" buf pos es rule: inner_entries.induct)
  case (1 gb buf pos es)
  define n where "n = be_nat_at buf (pos + 1)"
  note loop = inner_entries.simps [of gb _ buf pos, unfolded Let_def, folded n_def]
  show ?case
  proof (cases "pos + 5 \<le> length buf \<and> \<not> (n = 0 \<or> pos + 5 + n > length buf)")
    case False
    then have "inner_entries gb v buf pos o' = Some o'" for v o' using loop by auto
    then show ?thesis using "1.prems" by (simp only: option.inject)
  next
    case True
    then have c: "pos + 5 \<le> length buf" "\<not> (n = 0 \<or> pos + 5 + n > length buf)" by auto
    show ?thesis
    proof (cases "buf ! pos = 2")
      case False
      then show ?thesis using "1.prems" loop c "1.hyps"(1) [OF c(1) refl n_def refl c(2)] by simp
    next
      case tag: True
      obtain es1 where e: "payload_entries gb None (take n (drop (pos + 5) buf)) 0 es = Some es1"
        using payload_entries_total by blast
      then have r: "inner_entries gb None buf (pos + 5 + n) es1 = Some es'" using "1.prems" loop [of None es] c tag by simp
      show ?thesis
        using "1.hyps"(2) [OF c(1) refl n_def refl c(2) _ e r] tag loop [of "Some w"] c payload_entries_restrict [OF e, of w]
        by simp
    qed
  qed
qed

lemma try_fold_restrict:
  assumes "\<And>x s s'. f x s = Some s' \<Longrightarrow> g x (h s) = Some (h s')" "try_fold f xs s = Some s'"
  shows "try_fold g xs (h s) = Some (h s')"
  using assms(2) by (induction xs arbitrary: s) (auto simp: bind_eq_Some_conv assms(1))

lemma chunks_entries_total: "\<exists>es. try_fold (\<lambda>chunk out. parse_inner_entries gb chunk out wanted) chunks out = Some es"
  using try_fold_invariant [of "\<lambda>_. True" out chunks "\<lambda>chunk out. parse_inner_entries gb chunk out wanted"]
  by (auto simp: parse_inner_entries_def inner_entries_total)

lemma chunks_entries_restrict:
  assumes "try_fold (\<lambda>chunk out. parse_inner_entries gb chunk out None) chunks [] = Some es"
  shows "try_fold (\<lambda>chunk out. parse_inner_entries gb chunk out wanted) chunks [] = Some (restrict_entries wanted es)"
proof (cases wanted)
  case None
  then show ?thesis using assms by (simp add: restrict_entries_def)
next
  case (Some w)
  have "try_fold (\<lambda>chunk out. parse_inner_entries gb chunk out (Some w)) chunks (filter (\<lambda>(k, _). k \<in> w) [])
      = Some (filter (\<lambda>(k, _). k \<in> w) es)"
    by (rule try_fold_restrict [OF _ assms]) (simp add: parse_inner_entries_def inner_entries_restrict)
  then show ?thesis by (simp add: restrict_entries_def Some)
qed


section \<open>The cache cannot be observed\<close>

text \<open>\<open>contents\<close> says what a file held when it had an identity: the length and the modification time
  are taken to determine it.\<close>

definition files_as :: "(str \<Rightarrow> file_identity \<Rightarrow> bytes) \<Rightarrow> info_env \<Rightarrow> bool" where
  "files_as contents env = (\<forall>rel i data. ie_file env rel = Some (i, data) \<longrightarrow> data = contents rel i)"

definition coherent :: "(str \<Rightarrow> file_identity \<Rightarrow> bytes) \<Rightarrow> (bytes \<Rightarrow> bytes option) \<Rightarrow> info_storage \<Rightarrow> bool" where
  "coherent contents zlib st = (cache_inv (is_cache st) \<and> (\<forall>rel e. map_of (ec_items (is_cache st)) rel = Some e \<longrightarrow>
     (\<exists>key. is_key st = Some key \<and> stream_chunks zlib key (contents rel (cc_identity e)) = Ok (cc_chunks e))))"

text \<open>The read without a cache.\<close>

definition disk_chunks :: "info_env \<Rightarrow> bytes option \<Rightarrow> str \<Rightarrow> (info_error, bytes list) outcome" where
  "disk_chunks env key rel =
     (case ie_file env rel of
        None \<Rightarrow> Err (No_such_stream rel)
      | Some (i, data) \<Rightarrow> (case key of None \<Rightarrow> Err Key_unavailable | Some k \<Rightarrow> stream_chunks (ie_zlib env) k data))"

definition disk_entries :: "info_env \<Rightarrow> bytes option \<Rightarrow> str \<Rightarrow> str set option \<Rightarrow> (info_error, entries) outcome" where
  "disk_entries env key rel wanted =
     (if key = None then Ok []
      else and_then (disk_chunks env key rel) (\<lambda>chunks. or_panic
             (try_fold (\<lambda>chunk out. parse_inner_entries (ie_gb env) chunk out wanted) chunks [])))"

lemma map_of_room:
  assumes "distinct (map fst es)" "map_of (lru_room n es) k = Some e"
  shows "map_of es k = Some e"
  using assms room_sublist [of n es] by (metis map_of_SomeD map_of_is_SomeI subsetD)

lemma map_of_insert:
  assumes "cache_inv c" "map_of (ec_items (cache_insert key i chunks c)) k = Some e"
  shows "map_of (ec_items c) k = Some e \<or> k = key \<and> cc_identity e = i \<and> cc_chunks e = chunks"
proof -
  note r = insert_refines [OF assms(1), of key i chunks]
  have m: "map_of (lru_insert key i chunks (lru c)) k = Some e" using assms(2) lru_lookup [OF r(1), of k] r(2) by simp
  have d: "distinct (map fst (lru_drop key (lru c)))"
    unfolding lru_drop_def using distinct_lru [OF assms(1)] by (rule distinct_map_filter)
  show ?thesis
  proof (cases "sum_list (map length chunks) > cache_max_bytes")
    case True
    then have "map_of (lru_drop key (lru c)) k = Some e" using m by (simp add: lru_insert_def Let_def)
    then show ?thesis using lru_lookup [OF assms(1), of k] by (simp add: map_of_lru_drop split: if_splits)
  next
    case False
    then have "map_of (lru_room (sum_list (map length chunks)) (lru_drop key (lru c))) k = Some e \<or>
        k = key \<and> cc_identity e = i \<and> cc_chunks e = chunks"
      using m by (auto simp: lru_insert_def Let_def map_add_Some_iff split: if_splits)
    then show ?thesis
    proof (elim disjE)
      assume "map_of (lru_room (sum_list (map length chunks)) (lru_drop key (lru c))) k = Some e"
      then have "map_of (lru_drop key (lru c)) k = Some e" by (rule map_of_room [OF d])
      then show ?thesis using lru_lookup [OF assms(1), of k] by (simp add: map_of_lru_drop split: if_splits)
    qed simp
  qed
qed

lemma map_of_get:
  assumes "cache_inv c" "map_of (ec_items (snd (cache_get key i c))) k = Some e"
  shows "map_of (ec_items c) k = Some e"
  using assms
  by (auto simp: cache_get_def cache_remove_def Let_def AList.delete_conv' split: option.splits if_splits)

lemma coherent_chunks:
  assumes "coherent contents (ie_zlib env) st" "files_as contents env" "entry_chunks env st rel = (r, st')"
    "is_key st \<noteq> None"
  shows "r = disk_chunks env (is_key st) rel \<and> coherent contents (ie_zlib env) st' \<and> is_key st' = is_key st"
proof (cases "ie_file env rel")
  case None
  then show ?thesis using assms by (simp add: entry_chunks_def disk_chunks_def)
next
  case (Some f)
  obtain i data where f: "f = (i, data)" by (cases f)
  obtain key where key: "is_key st = Some key" using assms(4) by blast
  have data: "data = contents rel i" using assms(2) Some f by (simp add: files_as_def)
  have inv: "cache_inv (is_cache st)" using assms(1) by (simp add: coherent_def)
  obtain hit cache where g: "cache_get rel i (is_cache st) = (hit, cache)" by (cases "cache_get rel i (is_cache st)")
  have inv': "cache_inv cache" using get_refines(1) [OF inv, of rel i] g by simp
  have old: "map_of (ec_items cache) k = Some e \<Longrightarrow> map_of (ec_items (is_cache st)) k = Some e" for k e
    using map_of_get [OF inv, of rel i k e] g by simp
  have coh: "coherent contents (ie_zlib env) (st\<lparr>is_cache := cache\<rparr>)"
    using assms(1) inv' old by (simp add: coherent_def)
  show ?thesis
  proof (cases hit)
    case (Some cached)
    then obtain e where "map_of (ec_items (is_cache st)) rel = Some e" "cc_identity e = i" "cached = cc_chunks e"
      using g by (auto simp: cache_get_def split: option.splits if_splits)
    then have "stream_chunks (ie_zlib env) key data = Ok cached"
      using assms(1) key data by (auto simp: coherent_def)
    moreover have "r = Ok cached" "st' = st\<lparr>is_cache := cache\<rparr>"
      using assms(3) \<open>ie_file env rel = Some f\<close> f g Some by (simp_all add: entry_chunks_def)
    ultimately show ?thesis using \<open>ie_file env rel = Some f\<close> f key coh by (simp add: disk_chunks_def)
  next
    case None
    obtain chunks where ch: "stream_chunks (ie_zlib env) key data = Ok chunks" using stream_chunks_Ok by blast
    have st': "r = Ok chunks" "st' = st\<lparr>is_cache := cache_insert rel i chunks cache\<rparr>"
      using assms(3) Some f g None key ch by (simp_all add: entry_chunks_def Let_def)
    have "coherent contents (ie_zlib env) st'"
      using coh insert_refines(1) [OF inv'] map_of_insert [OF inv'] key ch data
      unfolding st'(2) coherent_def by simp blast
    then show ?thesis using st' Some f key ch by (simp add: disk_chunks_def)
  qed
qed

lemma coherent_entries:
  assumes "coherent contents (ie_zlib env) st" "files_as contents env"
  shows "\<exists>st'. entries_filtered env st rel wanted = (disk_entries env (is_key st) rel wanted, st')
    \<and> coherent contents (ie_zlib env) st' \<and> is_key st' = is_key st"
proof (cases "is_key st")
  case None
  then show ?thesis using assms(1) by (simp add: entries_filtered_def disk_entries_def)
next
  case (Some key)
  obtain r st' where e: "entry_chunks env st rel = (r, st')" by (cases "entry_chunks env st rel")
  then show ?thesis using coherent_chunks [OF assms e] Some by (simp add: entries_filtered_def disk_entries_def)
qed

lemma coherent_new: "is_cache st = empty_cache \<Longrightarrow> coherent contents zlib st"
  using empty_refines by (simp add: coherent_def empty_cache_def)

text \<open>C25. The cache of decrypted streams cannot be observed: from a state where it agrees with the files it was
  filled from (in particular from the empty cache), as long as a file's identity determines its
  contents, a read of entries returns what decrypting the file of this moment returns, and leaves
  a cache that agrees again; files may change between the reads.\<close>

theorem entries_cache_transparent:
  assumes "coherent contents (ie_zlib env) st" "files_as contents env"
  shows "fst (entries_filtered env st rel wanted) = disk_entries env (is_key st) rel wanted
    \<and> coherent contents (ie_zlib env) (snd (entries_filtered env st rel wanted))
    \<and> is_key (snd (entries_filtered env st rel wanted)) = is_key st"
  using coherent_entries [OF assms, of rel wanted] by auto

definition sample_env :: info_env where
  "sample_env = \<lparr>ie_file = (\<lambda>rel. if rel = ascii ''discuss/remark.db''
       then Some (\<lparr>fi_len = 5, fi_modified_nanos = 1\<rparr>, [0x45, 0x53, 1, 1, 9]) else None),
     ie_root_exists = True, ie_zlib = (\<lambda>_. None), ie_gb = (\<lambda>_. None)\<rparr>"

definition sample_storage :: info_storage where
  "sample_storage = \<lparr>is_key = Some (replicate 16 7), is_cache = empty_cache\<rparr>"

lemma sample_coherent: "coherent (\<lambda>_ _. [0x45, 0x53, 1, 1, 9]) (ie_zlib sample_env) sample_storage"
    "files_as (\<lambda>_ _. [0x45, 0x53, 1, 1, 9]) sample_env"
  using coherent_new [of sample_storage] by (simp_all add: sample_storage_def files_as_def sample_env_def)

theorem entries_cache_transparent_witness:
  "fst (entries_filtered sample_env sample_storage (ascii ''discuss/remark.db'') None)
     = disk_entries sample_env (is_key sample_storage) (ascii ''discuss/remark.db'') None"
  using entries_cache_transparent [OF sample_coherent] by blast

section \<open>Labels: the batch and the single lookup\<close>

lemma payload_entries_invariant:
  assumes "\<And>name flds es. P es \<Longrightarrow> P (extend_entry name flds es)"
  shows "payload_entries gb None payload p es = Some es' \<Longrightarrow> P es \<Longrightarrow> P es'"
proof (induction gb "None :: str set option" payload p es rule: payload_entries.induct)
  case (1 gb payload p es)
  have d: "decode_entry gb name data o1 = Some o2 \<Longrightarrow> P o1 \<Longrightarrow> P o2" for name data o1 o2
    using assms by (auto simp: decode_entry_def bind_eq_Some_conv split: if_splits)
  show ?case using "1.prems" "1.hyps"(2) d
    by (subst (asm) payload_entries.simps) (fastforce simp: Let_def split: if_splits option.splits)
qed

lemma inner_entries_invariant:
  assumes "\<And>name flds es. P es \<Longrightarrow> P (extend_entry name flds es)"
  shows "inner_entries gb None buf pos es = Some es' \<Longrightarrow> P es \<Longrightarrow> P es'"
proof (induction gb "None :: str set option" buf pos es rule: inner_entries.induct)
  case (1 gb buf pos es)
  show ?case using "1.prems" "1.hyps" payload_entries_invariant [of P, OF assms]
    by (subst (asm) inner_entries.simps) (fastforce simp: Let_def split: if_splits option.splits)
qed

lemma extend_distinct: "distinct (map fst es) \<Longrightarrow> distinct (map fst (extend_entry name flds es))"
proof -
  have "fst ` set (AList.map_default name flds f es) = insert name (fst ` set es)" for f and es :: entries
    by (induction es) auto
  then show "distinct (map fst es) \<Longrightarrow> ?thesis"
    unfolding extend_entry_def by (induction es) (auto simp del: AList.map_default.simps simp: AList.map_default.simps)
qed

text \<open>The entries of a stream, and of a part of it, after \<open>unwrap_or_default\<close>.\<close>

lemma disk_entries_default:
  "\<exists>es. or_default (disk_entries env key rel None) = Ok es \<and> distinct (map fst es)
     \<and> (\<forall>w. or_default (disk_entries env key rel (Some w)) = Ok (filter (\<lambda>(k, _). k \<in> w) es))"
proof (cases "\<exists>chunks. key \<noteq> None \<and> disk_chunks env key rel = Ok chunks")
  case False
  moreover have "disk_chunks env key rel \<noteq> Panic"
    using stream_chunks_Ok by (auto simp: disk_chunks_def split: option.splits prod.splits) (metis outcome.distinct(3))
  ultimately show ?thesis
    by (intro exI [of _ "[]"]) (cases "disk_chunks env key rel"; auto simp: or_default_def disk_entries_def)
next
  case True
  then obtain chunks where ch: "key \<noteq> None" "disk_chunks env key rel = Ok chunks" by blast
  obtain es where es: "try_fold (\<lambda>chunk out. parse_inner_entries (ie_gb env) chunk out None) chunks [] = Some es"
    using chunks_entries_total by blast
  have "distinct (map fst es)"
    by (rule try_fold_preserves [OF es])
       (auto simp: parse_inner_entries_def elim!: inner_entries_invariant [where P = "\<lambda>es. distinct (map fst es)", rotated]
         intro: extend_distinct)
  then show ?thesis using ch es chunks_entries_restrict [OF es]
    by (intro exI [of _ es]) (auto simp: or_default_def disk_entries_def restrict_entries_def)
qed

lemma try_fold_total: "(\<And>x s. x \<in> set xs \<Longrightarrow> \<exists>s'. f x s = Some s') \<Longrightarrow> \<exists>s'. try_fold f xs s = Some s'"
  using try_fold_invariant [of "\<lambda>_. True" s xs f] by simp

lemma field_texts_no_panic: "field_texts f \<noteq> Panic"
  by (simp add: field_texts_def)

lemma first_field_text_no_panic: "first_field_text flds order ident num \<noteq> Panic"
  by (induction order) (auto simp: and_then_Panic_iff field_texts_no_panic split: option.split)

lemma priority_no_panic: "priority_field_text flds order ident num \<noteq> Panic"
  by (simp add: priority_field_text_def map_ok_def and_then_Panic_iff first_field_text_no_panic)

lemma named_values_no_panic: "named_values gb flds \<noteq> Panic"
proof -
  have p: "push_field_values f out \<noteq> Panic" for f out
    by (simp add: push_field_values_def map_ok_def and_then_Panic_iff field_texts_no_panic)
  have n: "\<exists>r. nested_txdata gb data = Some r" for data
    unfolding nested_txdata_def by (rule try_fold_total) (simp add: decode_total)
  have q: "ok_fold push_field_values fs o' \<noteq> Panic" for fs o'
    by (rule ok_fold_no_panic) (rule p)
  show ?thesis unfolding named_values_def
  proof (rule ok_fold_no_panic)
    fix f :: txdata_field and out :: "(str \<times> str list) list"
    obtain r where "nested_txdata gb (txf_value f) = Some r" using n by blast
    then show "and_then (push_field_values f out) (\<lambda>out1. and_then (or_panic (nested_txdata gb (txf_value f)))
        (\<lambda>recs. ok_fold push_field_values (concat recs) out1)) \<noteq> Panic"
      using p q by (auto simp: and_then_Panic_iff)
  qed
qed

lemma group_label_no_panic: "group_label_from_fields gb flds ident \<noteq> Panic"
proof -
  have "group_label_names gb flds ident names \<noteq> Panic" for names
    by (induction names) (auto simp: and_then_Panic_iff named_values_no_panic priority_no_panic split: option.split)
  then show ?thesis unfolding group_label_from_fields_def by blast
qed

text \<open>The label a single lookup finds, errors and empty labels left out.\<close>

definition label_of :: "(info_error, str) outcome \<Rightarrow> str option" where
  "label_of r = (case r of Ok l \<Rightarrow> if l = [] then None else Some l | _ \<Rightarrow> None)"

lemma insert_labels_lookup:
  assumes "distinct (map fst es)"
  shows "\<exists>out'. insert_priority_labels out es order = Ok out' \<and>
     (\<forall>ident. map_of out' ident = (case map_of out ident of Some l \<Rightarrow> Some l
        | None \<Rightarrow> Option.bind (map_of es ident) (\<lambda>flds. label_of (priority_field_text flds order ident False))))"
  using assms
proof (induction es arbitrary: out)
  case (Cons e es)
  obtain i flds where e: "e = (i, flds)" by (cases e)
  define out1 where "out1 = (case label_of (priority_field_text flds order i False) of
      Some l \<Rightarrow> if map_of out i = None then out @ [(i, l)] else out | None \<Rightarrow> out)"
  have "insert_priority_labels out (e # es) order = insert_priority_labels out1 es order"
    using priority_no_panic [of flds order i False]
    by (cases "priority_field_text flds order i False")
       (simp_all add: insert_priority_labels_def e out1_def label_of_def)
  moreover have "map_of out1 k = (case map_of out k of Some l \<Rightarrow> Some l
      | None \<Rightarrow> if k = i then label_of (priority_field_text flds order i False) else None)" for k
    by (auto simp: out1_def map_add_def split: option.split)
  moreover have "map_of es i = None" using Cons.prems by (simp add: e map_of_eq_None_iff)
  moreover have "distinct (map fst es)" using Cons.prems by simp
  note ih = Cons.IH [OF this, of out1]
  ultimately show ?case by (force simp: e split: option.split)
qed (simp add: insert_priority_labels_def split: option.split)

lemma group_labels_lookup:
  assumes "distinct (map fst es)"
  shows "\<exists>out'. group_labels gb es = Ok out' \<and>
     (\<forall>ident. map_of out' ident = Option.bind (map_of es ident) (\<lambda>flds. label_of (group_label_from_fields gb flds ident)))"
proof -
  define f :: "str \<times> txdata_field list \<Rightarrow> label_map \<Rightarrow> (info_error, label_map) outcome"
    where "f = (\<lambda>(ident, flds) out. case group_label_from_fields gb flds ident of
         Ok label \<Rightarrow> Ok (if label \<noteq> [] then AList.update ident label out else out) | Err e \<Rightarrow> Ok out | Panic \<Rightarrow> Panic)"
  have "\<exists>out'. ok_fold f es out = Ok out' \<and> (\<forall>ident. map_of out' ident =
      (case Option.bind (map_of es ident) (\<lambda>flds. label_of (group_label_from_fields gb flds ident)) of
         Some l \<Rightarrow> Some l | None \<Rightarrow> map_of out ident))" for out
    using assms
  proof (induction es arbitrary: out)
    case (Cons e es)
    obtain i flds where e: "e = (i, flds)" by (cases e)
    define out1 where "out1 = (case label_of (group_label_from_fields gb flds i) of
        Some l \<Rightarrow> AList.update i l out | None \<Rightarrow> out)"
    have "ok_fold f (e # es) out = ok_fold f es out1"
      using group_label_no_panic [of gb flds i]
      by (cases "group_label_from_fields gb flds i") (simp_all add: e out1_def label_of_def f_def)
    moreover have "map_of out1 k = (case (if k = i then label_of (group_label_from_fields gb flds i) else None) of
        Some l \<Rightarrow> Some l | None \<Rightarrow> map_of out k)" for k
      by (auto simp: out1_def AList.update_conv' split: option.split)
    moreover have "map_of es i = None" using Cons.prems by (simp add: e map_of_eq_None_iff)
    moreover have "distinct (map fst es)" using Cons.prems by simp
    then obtain out' where o: "ok_fold f es out1 = Ok out'"
      and m: "\<forall>ident. map_of out' ident = (case Option.bind (map_of es ident) (\<lambda>flds. label_of (group_label_from_fields gb flds ident)) of
         Some l \<Rightarrow> Some l | None \<Rightarrow> map_of out1 ident)"
      using Cons.IH [of out1] by blast
    ultimately have "map_of out' k = (case Option.bind (map_of (e # es) k) (\<lambda>flds. label_of (group_label_from_fields gb flds k)) of
         Some l \<Rightarrow> Some l | None \<Rightarrow> map_of out k)" for k
      by (cases "k = i") (simp_all add: e m split: option.split)
    then show ?case using \<open>ok_fold f (e # es) out = ok_fold f es out1\<close> o by simp
  qed simp
  from this [of "[]"] obtain out' where "ok_fold f es [] = Ok out'" and m: "\<forall>ident. map_of out' ident =
      (case Option.bind (map_of es ident) (\<lambda>flds. label_of (group_label_from_fields gb flds ident)) of
         Some l \<Rightarrow> Some l | None \<Rightarrow> map_of [] ident)" by blast
  moreover have "group_labels gb es = ok_fold f es []" by (simp add: group_labels_def f_def)
  moreover have "(case v of Some l \<Rightarrow> Some l | None \<Rightarrow> map_of [] i) = v" for v :: "str option" and i :: str
    by (cases v) simp_all
  ultimately show ?thesis by simp
qed

text \<open>The kinds of the storage and what a restricted stream yields for one name.\<close>

lemma map_of_restrict: "map_of (filter (\<lambda>(k, _). k \<in> w) es) i = (if i \<in> w then map_of es i else None)"
  by (induction es) auto

lemma distinct_restrict: "distinct (map fst es) \<Longrightarrow> distinct (map fst (filter (\<lambda>(k, _). k \<in> w) es))"
  by (rule distinct_map_filter)

definition stream_label :: "info_env \<Rightarrow> bytes option \<Rightarrow> string \<Rightarrow> str \<Rightarrow> (info_error, str) outcome" where
  "stream_label env key rel ident = and_then (or_default (disk_entries env key (ascii rel) None)) (\<lambda>es.
     case map_of es ident of None \<Rightarrow> Ok [] | Some flds \<Rightarrow> priority_field_text flds label_order ident False)"

lemma entry_label_disk:
  assumes "coherent contents (ie_zlib env) st" "files_as contents env"
  shows "\<exists>st'. entry_label env st (ascii rel) ident label_order False = (stream_label env (is_key st) rel ident, st')
    \<and> coherent contents (ie_zlib env) st' \<and> is_key st' = is_key st"
  using coherent_entries [OF assms, of "ascii rel" None]
  by (auto simp: entry_label_def storage_entries_def stream_label_def)

lemma stream_labels_lookup:
  "\<exists>out'. and_then (or_default (disk_entries env key (ascii rel) (Some w))) (\<lambda>es. insert_priority_labels out es label_order) = Ok out'
    \<and> (\<forall>i. map_of out' i = (case map_of out i of Some l \<Rightarrow> Some l
         | None \<Rightarrow> if i \<in> w then label_of (stream_label env key rel i) else None))"
proof -
  obtain es where es: "or_default (disk_entries env key (ascii rel) None) = Ok es" "distinct (map fst es)"
    "\<And>w. or_default (disk_entries env key (ascii rel) (Some w)) = Ok (filter (\<lambda>(k, _). k \<in> w) es)"
    using disk_entries_default [of env key "ascii rel"] by blast
  obtain out' where o: "insert_priority_labels out (filter (\<lambda>(k, _). k \<in> w) es) label_order = Ok out'"
    and m: "\<forall>i. map_of out' i = (case map_of out i of Some l \<Rightarrow> Some l
        | None \<Rightarrow> Option.bind (map_of (filter (\<lambda>(k, _). k \<in> w) es) i)
            (\<lambda>flds. label_of (priority_field_text flds label_order i False)))"
    using insert_labels_lookup [OF distinct_restrict [OF es(2)]] by blast
  have "Option.bind (map_of es i) (\<lambda>flds. label_of (priority_field_text flds label_order i False))
      = label_of (stream_label env key rel i)" for i
    by (cases "map_of es i") (simp_all add: stream_label_def es(1) label_of_def)
  then show ?thesis using o m by (auto simp: es(3) map_of_restrict split: option.split)
qed

lemma stream_label_no_panic: "stream_label env key rel i \<noteq> Panic"
  using disk_entries_default [of env key "ascii rel"]
  by (auto simp: stream_label_def priority_no_panic split: option.splits)

definition agrees :: "(info_error, label_map) outcome \<Rightarrow> str set \<Rightarrow> (str \<Rightarrow> (info_error, str) outcome) \<Rightarrow> bool" where
  "agrees batch wanted single = (\<exists>labels. batch = Ok labels \<and> (\<forall>i. i \<notin> wanted \<longrightarrow> map_of labels i = None)
     \<and> (\<forall>i l. i \<in> wanted \<longrightarrow> single i = Ok l \<longrightarrow> map_of labels i = (if l = [] then None else Some l)))"

lemma agrees_label_of:
  assumes "\<exists>labels. batch = Ok labels \<and> (\<forall>i. map_of labels i = (if i \<in> wanted then f i else None))"
    "\<And>i l. single i = Ok l \<Longrightarrow> f i = (if l = [] then None else Some l)"
  shows "agrees batch wanted single"
  using assms unfolding agrees_def by auto

lemma agree_group:
  "agrees (and_then (or_default (disk_entries env key rel (Some w))) (group_labels gb)) w
     (\<lambda>i. and_then (or_default (disk_entries env key rel None)) (\<lambda>es.
        case map_of es i of None \<Rightarrow> Ok [] | Some flds \<Rightarrow> group_label_from_fields gb flds i))"
proof -
  obtain es where es: "or_default (disk_entries env key rel None) = Ok es" "distinct (map fst es)"
    "\<And>w. or_default (disk_entries env key rel (Some w)) = Ok (filter (\<lambda>(k, _). k \<in> w) es)"
    using disk_entries_default [of env key rel] by blast
  obtain labels where "group_labels gb (filter (\<lambda>(k, _). k \<in> w) es) = Ok labels"
    "\<forall>i. map_of labels i = Option.bind (map_of (filter (\<lambda>(k, _). k \<in> w) es) i)
       (\<lambda>flds. label_of (group_label_from_fields gb flds i))"
    using group_labels_lookup [OF distinct_restrict [OF es(2)]] by blast
  then show ?thesis
    by (intro agrees_label_of [where f = "\<lambda>i. Option.bind (map_of es i) (\<lambda>flds. label_of (group_label_from_fields gb flds i))"])
       (auto simp: es map_of_restrict label_of_def split: option.splits)
qed

lemma agree_stream:
  "agrees (and_then (or_default (disk_entries env key (ascii rel) (Some w))) (\<lambda>es. insert_priority_labels [] es label_order)) w
     (stream_label env key rel)"
  using stream_labels_lookup [of env key rel w "[]"]
  by (intro agrees_label_of [where f = "\<lambda>i. label_of (stream_label env key rel i)"]) (auto simp: label_of_def)

lemma labels_agree:
  assumes "coherent contents (ie_zlib env) st" "files_as contents env"
  shows "agrees (fst (storage_labels env st kind wanted)) wanted (\<lambda>i. fst (storage_label env st kind i))"
proof -
  define key where "key = is_key st"
  have read: "\<exists>st'. entries_filtered env st0 rel w = (disk_entries env key rel w, st')
      \<and> coherent contents (ie_zlib env) st' \<and> is_key st' = key"
    if "coherent contents (ie_zlib env) st0" "is_key st0 = key" for st0 rel w
    using coherent_entries [OF that(1) assms(2), of rel w] that(2) by simp
  have single: "\<exists>st'. entry_label env st0 (ascii rel) i label_order False = (stream_label env key rel i, st')
      \<and> coherent contents (ie_zlib env) st' \<and> is_key st' = key"
    if "coherent contents (ie_zlib env) st0" "is_key st0 = key" for st0 rel i
    using entry_label_disk [OF that(1) assms(2), of rel i] that(2) by simp
  note start = assms(1) key_def [symmetric]
  have kinds: "ascii ''group'' \<noteq> ascii ''discuss''" "ascii ''group'' \<noteq> ascii ''buddy''" "ascii ''discuss'' \<noteq> ascii ''buddy''"
    by simp_all
  consider "wanted = {}" | "wanted \<noteq> {}" "kind = ascii ''group''" | "wanted \<noteq> {}" "kind = ascii ''discuss''"
    | "wanted \<noteq> {}" "kind = ascii ''buddy''"
    | "wanted \<noteq> {}" "kind \<noteq> ascii ''group''" "kind \<noteq> ascii ''discuss''" "kind \<noteq> ascii ''buddy''" by blast
  then show ?thesis
  proof cases
    case 1
    then show ?thesis by (simp add: agrees_def storage_labels_def)
  next
    case 2
    note b = read [OF start, of "ascii ''Group/Basic.db''" "Some wanted"] read [OF start, of "ascii ''Group/Basic.db''" None]
    have "fst (storage_labels env st kind wanted) =
        and_then (or_default (disk_entries env key (ascii ''Group/Basic.db'') (Some wanted))) (group_labels (ie_gb env))"
      using 2 b(1) by (auto simp: storage_labels_def simp del: ascii_simps)
    moreover have "fst (storage_label env st kind i) = and_then (or_default (disk_entries env key (ascii ''Group/Basic.db'') None)) (\<lambda>es.
        case map_of es i of None \<Rightarrow> Ok [] | Some flds \<Rightarrow> group_label_from_fields (ie_gb env) flds i)" for i
      using 2 b(2) by (auto simp: storage_label_def group_label_def storage_entries_def simp del: ascii_simps)
    ultimately show ?thesis using agree_group by (simp only:)
  next
    case 3
    have "fst (storage_labels env st kind wanted) =
        and_then (or_default (disk_entries env key (ascii ''discuss/remark.db'') (Some wanted)))
          (\<lambda>es. insert_priority_labels [] es label_order)"
      using 3 kinds read [OF start, of "ascii ''discuss/remark.db''" "Some wanted"]
      by (auto simp: storage_labels_def simp del: ascii_simps)
    moreover have "fst (storage_label env st kind i) = stream_label env key ''discuss/remark.db'' i" for i
      using 3 kinds single [OF start, of "''discuss/remark.db''" i] by (auto simp: storage_label_def simp del: ascii_simps)
    ultimately show ?thesis using agree_stream by (simp only:)
  next
    case 4
    define remark where "remark i = stream_label env key ''Contact/Remark.db'' i" for i
    define public where "public i = stream_label env key ''Contact/PublicInfo.db'' i" for i
    define found where "found i = (case label_of (remark i) of Some l \<Rightarrow> Some l | None \<Rightarrow> label_of (public i))" for i
    obtain st1 where r: "entries_filtered env st (ascii ''Contact/Remark.db'') (Some wanted)
        = (disk_entries env key (ascii ''Contact/Remark.db'') (Some wanted), st1)"
      and st1: "coherent contents (ie_zlib env) st1" "is_key st1 = key"
      using read [OF start] by blast
    obtain labels where l: "and_then (or_default (disk_entries env key (ascii ''Contact/Remark.db'') (Some wanted)))
        (\<lambda>es. insert_priority_labels [] es label_order) = Ok labels"
      and lm: "\<And>i. map_of labels i = (if i \<in> wanted then label_of (remark i) else None)"
      using stream_labels_lookup [of env key "''Contact/Remark.db''" wanted "[]"] by (auto simp: remark_def simp del: ascii_simps)
    define open_names where "open_names = {i \<in> wanted. map_of labels i = None}"
    have batch: "\<exists>out. fst (storage_labels env st kind wanted) = Ok out
      \<and> (\<forall>i. map_of out i = (if i \<in> wanted then found i else None))"
    proof (cases "open_names = {}")
      case True
      then have "fst (storage_labels env st kind wanted) = Ok labels"
        using 4 kinds r l by (auto simp: storage_labels_def open_names_def [symmetric] simp del: ascii_simps)
      moreover have "map_of labels i = (if i \<in> wanted then found i else None)" for i
        using True lm [of i] by (auto simp: open_names_def found_def split: option.split)
      ultimately show ?thesis by blast
    next
      case False
      obtain st2 where r2: "entries_filtered env st1 (ascii ''Contact/PublicInfo.db'') (Some open_names)
          = (disk_entries env key (ascii ''Contact/PublicInfo.db'') (Some open_names), st2)"
        using read [OF st1] by blast
      obtain out where o: "and_then (or_default (disk_entries env key (ascii ''Contact/PublicInfo.db'') (Some open_names)))
          (\<lambda>es. insert_priority_labels labels es label_order) = Ok out"
        and om: "\<And>i. map_of out i = (case map_of labels i of Some l \<Rightarrow> Some l
            | None \<Rightarrow> if i \<in> open_names then label_of (public i) else None)"
        using stream_labels_lookup [of env key "''Contact/PublicInfo.db''" open_names labels, folded public_def] by blast
      have "fst (storage_labels env st kind wanted) = Ok out"
        using 4 kinds False by (simp add: storage_labels_def Let_def r l r2 o open_names_def [symmetric] del: ascii_simps)
      moreover have "map_of out i = (if i \<in> wanted then found i else None)" for i
        using lm [of i] om [of i] by (auto simp: open_names_def found_def split: option.split)
      ultimately show ?thesis by blast
    qed
    have "found i = (if l = [] then None else Some l)" if "fst (storage_label env st kind i) = Ok l" for i l
    proof -
      obtain st1' where s1: "entry_label env st (ascii ''Contact/Remark.db'') i label_order False = (remark i, st1')"
        and c1: "coherent contents (ie_zlib env) st1'" "is_key st1' = key"
        using single [OF start] unfolding remark_def by blast
      obtain st2' where s2: "entry_label env st1' (ascii ''Contact/PublicInfo.db'') i label_order False = (public i, st2')"
        using single [OF c1] unfolding public_def by blast
      have "(if remark i = Ok [] then public i else remark i) = Ok l"
        using that 4 kinds s1 s2
        by (cases "remark i") (auto simp: storage_label_def simp del: ascii_simps split: if_splits)
      then show ?thesis by (auto simp: found_def label_of_def split: if_splits)
    qed
    then show ?thesis by (rule agrees_label_of [OF batch])
  next
    case 5
    then show ?thesis by (simp add: agrees_def storage_labels_def storage_label_def)
  qed
qed

text \<open>C29. The batch lookup of labels agrees with the single one: from a coherent cache \<open>labels\<close> always succeeds,
  gives labels to wanted names only, and for a wanted name whose single lookup \<open>label\<close> succeeds it
  gives the label found, or none when that is empty; for every kind of conversation, although
  it reads restricted streams, and the second stream only for the names the first left open.\<close>

theorem storage_labels_agree:
  assumes "coherent contents (ie_zlib env) st" "files_as contents env"
  shows "\<exists>labels. fst (storage_labels env st kind wanted) = Ok labels
    \<and> (\<forall>ident. ident \<notin> wanted \<longrightarrow> map_of labels ident = None)
    \<and> (\<forall>ident l. ident \<in> wanted \<longrightarrow> fst (storage_label env st kind ident) = Ok l \<longrightarrow>
         map_of labels ident = (if l = [] then None else Some l))"
proof -
  have "agrees (fst (storage_labels env st kind wanted)) wanted (\<lambda>i. fst (storage_label env st kind i))"
    by (rule labels_agree [OF assms])
  then show ?thesis unfolding agrees_def by blast
qed

theorem storage_labels_agree_witness:
  "\<exists>labels. fst (storage_labels sample_env sample_storage (ascii ''discuss'') {[0x31]}) = Ok labels
     \<and> map_of labels [0x32] = None"
proof -
  have "[0x32] \<notin> {[0x31 :: nat]}" by simp
  then show ?thesis using storage_labels_agree [OF sample_coherent, of "ascii ''discuss''" "{[0x31]}"] by blast
qed

end
