(* ===== verification/Media_Types.thy ===== *)
theory Media_Types imports Msg_Text "HOL-Library.Signed_Division" begin

text \<open>
  What the parsers of media files share (\<open>media_info.rs\<close>): the records of a probe, the JSON
  values of their details, the readers of numbers and tags, and the boxes of ISO files.

  The serializer of \<open>serde_json\<close> is the parameter \<open>to_json\<close>; it does not fail on the values the
  program builds. Positions lie inside the buffer and the lengths added to them have at most 32
  bits, so those sums are natural numbers; the one 64-bit length, of a box, is added with a check in
  the code too. An index that the condition just before it covers is written with \<open>!\<close>.
\<close>

section \<open>Records\<close>

type_synonym i64 = "64 word"

record media_file =
  mfl_path :: str
  mfl_source_root :: "str option"
  mfl_relative_path :: "str option"
  mfl_file_name :: str
  mfl_extension :: "str option"
  mfl_file_size :: i64
  mfl_mtime_unix :: i64
  mfl_media_kind :: str
  mfl_container :: str
  mfl_detected_format :: str
  mfl_mime :: "str option"
  mfl_hash_mode :: str
  mfl_sha256_hex :: "str option"
  mfl_probe_version :: str
  mfl_scan_status :: str
  mfl_error :: "str option"
  mfl_scanned_at_unix :: i64

record media_stream =
  ms_stream_index :: i64
  ms_stream_type :: str
  ms_codec :: "str option"
  ms_codec_tag :: "str option"
  ms_profile :: "str option"
  ms_level :: "str option"
  ms_width :: "i64 option"
  ms_height :: "i64 option"
  ms_coded_width :: "i64 option"
  ms_coded_height :: "i64 option"
  ms_duration_ms :: "i64 option"
  ms_bitrate :: "i64 option"
  ms_fps_num :: "i64 option"
  ms_fps_den :: "i64 option"
  ms_sample_rate :: "i64 option"
  ms_channels :: "i64 option"
  ms_bit_depth :: "i64 option"
  ms_pixel_format :: "str option"
  ms_chroma_subsampling :: "str option"
  ms_color_primaries :: "str option"
  ms_transfer_characteristics :: "str option"
  ms_matrix_coefficients :: "str option"
  ms_rotation_degrees :: "i64 option"
  ms_details_json :: "str option"

record media_feature =
  mf_stream_index :: i64
  mf_standard :: "str option"
  mf_coding_mode :: "str option"
  mf_transform :: "str option"
  mf_prediction :: "str option"
  mf_entropy_coding :: "str option"
  mf_progressive :: "str option"
  mf_lossless :: "i64 option"
  mf_near_lossless :: "i64 option"
  mf_alpha :: "i64 option"
  mf_animation :: "i64 option"
  mf_icc_profile :: "i64 option"
  mf_exif :: "i64 option"
  mf_xmp :: "i64 option"
  mf_orientation :: "i64 option"
  mf_confidence :: "str option"
  mf_features_json :: "str option"

record media_probe =
  mp_file :: media_file
  mp_streams :: "media_stream list"
  mp_codec_features :: "media_feature list"

record parsed_media =
  pm_media_kind :: str
  pm_container :: str
  pm_detected_format :: str
  pm_mime :: "str option"
  pm_scan_status :: str
  pm_error :: "str option"
  pm_streams :: "media_stream list"
  pm_features :: "media_feature list"

definition default_stream :: media_stream where
  "default_stream = \<lparr>ms_stream_index = 0, ms_stream_type = [], ms_codec = None, ms_codec_tag = None,
     ms_profile = None, ms_level = None, ms_width = None, ms_height = None, ms_coded_width = None,
     ms_coded_height = None, ms_duration_ms = None, ms_bitrate = None, ms_fps_num = None, ms_fps_den = None,
     ms_sample_rate = None, ms_channels = None, ms_bit_depth = None, ms_pixel_format = None,
     ms_chroma_subsampling = None, ms_color_primaries = None, ms_transfer_characteristics = None,
     ms_matrix_coefficients = None, ms_rotation_degrees = None, ms_details_json = None\<rparr>"

definition default_feature :: media_feature where
  "default_feature = \<lparr>mf_stream_index = 0, mf_standard = None, mf_coding_mode = None, mf_transform = None,
     mf_prediction = None, mf_entropy_coding = None, mf_progressive = None, mf_lossless = None,
     mf_near_lossless = None, mf_alpha = None, mf_animation = None, mf_icc_profile = None, mf_exif = None,
     mf_xmp = None, mf_orientation = None, mf_confidence = None, mf_features_json = None\<rparr>"

section \<open>JSON details\<close>

datatype jvalue =
    VNull
  | VBool bool
  | VInt int
  | VStr str
  | VArr "jvalue list"
  | VObj "(str \<times> jvalue) list"

definition v_opt :: "('a \<Rightarrow> jvalue) \<Rightarrow> 'a option \<Rightarrow> jvalue" where
  "v_opt f x = (case x of None \<Rightarrow> VNull | Some y \<Rightarrow> f y)"

definition v_nat :: "nat \<Rightarrow> jvalue" where "v_nat n = VInt (int n)"

definition v_uint :: "'a::len word \<Rightarrow> jvalue" where "v_uint w = VInt (uint w)"

definition v_i64 :: "i64 \<Rightarrow> jvalue" where "v_i64 w = VInt (sint w)"

definition v_obj :: "(string \<times> jvalue) list \<Rightarrow> jvalue" where
  "v_obj kvs = VObj (map (\<lambda>(k, v). (ascii k, v)) kvs)"

definition max_details_json_bytes :: nat where "max_details_json_bytes = 64 * 1024"

definition json_limited :: "(jvalue \<Rightarrow> str) \<Rightarrow> jvalue \<Rightarrow> str \<times> bool" where
  "json_limited to_json v =
     (let text = to_json v in
      if str_len text \<le> max_details_json_bytes then (text, False)
      else (to_json (v_obj [(''truncated'', VBool True), (''original_len'', v_nat (str_len text)),
              (''prefix'', VStr (take (min max_details_json_bytes 4096) text))]), True))"

section \<open>Readers\<close>

definition be16_opt :: "bytes \<Rightarrow> nat \<Rightarrow> u16 option" where
  "be16_opt data off = (if off + 2 \<le> length data then Some (u16_from_be (take 2 (drop off data))) else None)"

definition le16_opt :: "bytes \<Rightarrow> nat \<Rightarrow> u16 option" where
  "le16_opt data off = (if off + 2 \<le> length data then Some (u16_from_le (take 2 (drop off data))) else None)"

text \<open>\<open>BigEndian::read_u16(&data[i..i + 2])\<close> and its like panic outside the buffer.\<close>

definition be16_at :: "bytes \<Rightarrow> nat \<Rightarrow> u16 option" where
  "be16_at data i = map_option u16_from_be (subslice data i (i + 2))"

definition be32_at :: "bytes \<Rightarrow> nat \<Rightarrow> u32 option" where
  "be32_at data i = map_option u32_from_be (subslice data i (i + 4))"

definition be64_at :: "bytes \<Rightarrow> nat \<Rightarrow> u64 option" where
  "be64_at data i = map_option u64_from_be (subslice data i (i + 8))"

definition le16_at :: "bytes \<Rightarrow> nat \<Rightarrow> u16 option" where
  "le16_at data i = map_option u16_from_le (subslice data i (i + 2))"

definition le32_at :: "bytes \<Rightarrow> nat \<Rightarrow> u32 option" where
  "le32_at data i = map_option u32_from_le (subslice data i (i + 4))"

definition read_u24le :: "bytes \<Rightarrow> u32 option" where
  "read_u24le data = do {
     a \<leftarrow> idx data 0; b \<leftarrow> idx data 1; c \<leftarrow> idx data 2;
     Some (ucast a OR push_bit 8 (ucast b) OR push_bit 16 (ucast c)) }"

definition read_u24be :: "bytes \<Rightarrow> u32 option" where
  "read_u24be data = do {
     a \<leftarrow> idx data 0; b \<leftarrow> idx data 1; c \<leftarrow> idx data 2;
     Some (push_bit 16 (ucast a) OR push_bit 8 (ucast b) OR ucast c) }"

definition synchsafe_u32 :: "bytes \<Rightarrow> u32 option" where
  "synchsafe_u32 data = do {
     a \<leftarrow> idx data 0; b \<leftarrow> idx data 1; c \<leftarrow> idx data 2; d \<leftarrow> idx data 3;
     Some (push_bit 21 (ucast a AND 0x7f) OR push_bit 14 (ucast b AND 0x7f)
        OR push_bit 7 (ucast c AND 0x7f) OR (ucast d AND 0x7f)) }"

definition fourcc :: "bytes \<Rightarrow> str" where
  "fourcc data = utf8_lossy data"

definition windows :: "nat \<Rightarrow> 'a list \<Rightarrow> 'a list list" where
  "windows n xs = map (\<lambda>i. take n (drop i xs)) [0..<Suc (length xs) - n]"

section \<open>Boxes\<close>

record box_header =
  bx_typ :: bytes
  bx_size :: nat
  bx_data_start :: nat
  bx_stop :: nat

definition box_extent :: "bytes \<Rightarrow> nat \<Rightarrow> nat \<Rightarrow> (nat \<times> nat) option" where
  "box_extent data pos limit =
     (let size32 = unat (u32_from_be (take 4 (drop pos data))) in
      if size32 = 1 then
        if pos + 16 > limit \<or> pos + 16 > length data then None
        else Some (unat (u64_from_be (take 8 (drop (pos + 8) data))), pos + 16)
      else if size32 = 0 then Some (limit - pos, pos + 8)
      else Some (size32, pos + 8))"

definition read_box :: "bytes \<Rightarrow> nat \<Rightarrow> nat \<Rightarrow> box_header option" where
  "read_box data pos limit =
     (if pos + 8 > limit \<or> pos + 8 > length data then None
      else do {
        (size, data_start) \<leftarrow> box_extent data pos limit;
        if size < data_start - pos then None
        else do {
          stop \<leftarrow> uadd pos size;
          if stop > limit \<or> stop > length data then None
          else Some \<lparr>bx_typ = take 4 (drop (pos + 4) data), bx_size = size,
                 bx_data_start = data_start, bx_stop = stop\<rparr> } })"

lemma read_box_Some:
  assumes "read_box data pos limit = Some h"
  shows "pos + 8 \<le> bx_data_start h" "bx_data_start h \<le> bx_stop h" "bx_stop h \<le> limit" "bx_stop h \<le> length data"
    "length (bx_typ h) = 4"
  using assms by (auto simp: read_box_def box_extent_def Let_def uadd_def bind_eq_Some_conv split: if_splits)

lemma read_box_shrinks: "read_box data pos limit = Some h \<Longrightarrow> limit - bx_stop h < limit - pos"
  by (frule read_box_Some(1), frule read_box_Some(2), frule read_box_Some(3)) linarith

text \<open>\<open>while let Some(header) = read_box(data, pos, limit) { .. pos = header.end; }\<close>, with a body that
  may panic.\<close>

function fold_boxes :: "(box_header \<Rightarrow> 's \<Rightarrow> 's option) \<Rightarrow> bytes \<Rightarrow> nat \<Rightarrow> nat \<Rightarrow> 's \<Rightarrow> 's option" where
  "fold_boxes f data pos limit st =
     (case read_box data pos limit of
        None \<Rightarrow> Some st
      | Some h \<Rightarrow> Option.bind (f h st) (fold_boxes f data (bx_stop h) limit))"
  by pat_completeness auto
termination
  by (relation "measure (\<lambda>(_, _, pos, limit, _). limit - pos)") (auto dest: read_box_shrinks)

declare fold_boxes.simps [simp del]

section \<open>Facts\<close>

named_theorems reader_simps \<open>readers inside their buffer\<close>

lemma be16_at_Some [reader_simps]: "i + 2 \<le> length data \<Longrightarrow> be16_at data i = Some (u16_from_be (take 2 (drop i data)))"
  and be32_at_Some [reader_simps]: "i + 4 \<le> length data \<Longrightarrow> be32_at data i = Some (u32_from_be (take 4 (drop i data)))"
  and be64_at_Some [reader_simps]: "i + 8 \<le> length data \<Longrightarrow> be64_at data i = Some (u64_from_be (take 8 (drop i data)))"
  and le16_at_Some [reader_simps]: "i + 2 \<le> length data \<Longrightarrow> le16_at data i = Some (u16_from_le (take 2 (drop i data)))"
  and le32_at_Some [reader_simps]: "i + 4 \<le> length data \<Longrightarrow> le32_at data i = Some (u32_from_le (take 4 (drop i data)))"
  by (simp_all add: be16_at_def be32_at_def be64_at_def le16_at_def le32_at_def subslice_def)

lemma fold_boxes_invariant:
  assumes "P st"
    and "\<And>h st. bx_data_start h \<le> bx_stop h \<Longrightarrow> bx_stop h \<le> limit \<Longrightarrow> bx_stop h \<le> length data \<Longrightarrow>
      length (bx_typ h) = 4 \<Longrightarrow> P st \<Longrightarrow> \<exists>st'. f h st = Some st' \<and> P st'"
  shows "\<exists>st'. fold_boxes f data pos limit st = Some st' \<and> P st'"
  using assms
proof (induction f data pos limit st rule: fold_boxes.induct)
  case (1 f data pos limit st)
  show ?case
  proof (cases "read_box data pos limit")
    case None
    then show ?thesis using 1 by (simp add: fold_boxes.simps)
  next
    case (Some h)
    obtain st' where st': "f h st = Some st'" "P st'"
      using 1(3) [of h st] 1(2) read_box_Some [OF Some] by blast
    then show ?thesis using 1(1) [OF Some st'] 1(3) Some st'(1) by (simp add: fold_boxes.simps)
  qed
qed

lemma fold_boxes_total:
  assumes "\<And>h st. bx_data_start h \<le> bx_stop h \<Longrightarrow> bx_stop h \<le> limit \<Longrightarrow> bx_stop h \<le> length data \<Longrightarrow>
     length (bx_typ h) = 4 \<Longrightarrow> \<exists>st'. f h st = Some st'"
  shows "\<exists>st'. fold_boxes f data pos limit st = Some st'"
  using fold_boxes_invariant [of "\<lambda>_. True" st limit data f pos] assms by auto

end
