(* ===== verification/Rust_Float.thy ===== *)
theory Rust_Float imports Rust_Text Complex_Main "HOL-Library.Log_Nat" begin

text \<open>
  The double-precision numbers of the language, as far as the program uses them: reading the bits
  of an \<open>f32\<close> or \<open>f64\<close>, conversion from and to \<open>i64\<close>, multiplication, division, \<open>round\<close> and
  \<open>parse\<close>. A finite number is its rational value; the sign of zero is left out, because no
  operation used here distinguishes the zeros.
\<close>

datatype f64 = Nan | Infinite bool | Finite rat

definition pow2 :: "int \<Rightarrow> rat" where
  "pow2 k = (if 0 \<le> k then 2 ^ nat k else 1 / 2 ^ nat (- k))"

text \<open>\<open>2 powr e \<le> x < 2 powr (e + 1)\<close> for a positive \<open>x\<close>.\<close>

definition binary_exponent :: "rat \<Rightarrow> int" where
  "binary_exponent x =
     (let (n, d) = quotient_of x; e = int (floorlog 2 (nat n)) - int (floorlog 2 (nat d))
      in if pow2 e \<le> x then e else e - 1)"

definition round_half_even :: "rat \<Rightarrow> int" where
  "round_half_even x =
     (let n = \<lfloor>x\<rfloor>; r = x - of_int n in
      if r < 1 / 2 then n else if r > 1 / 2 then n + 1 else if even n then n else n + 1)"

text \<open>The nearest double, ties to the even significand, subnormal numbers included.\<close>

definition f64_nearest :: "rat \<Rightarrow> f64" where
  "f64_nearest x =
     (if x = 0 then Finite 0
      else let q = max (binary_exponent \<bar>x\<bar> - 52) (- 1074);
               m = of_int (round_half_even (\<bar>x\<bar> / pow2 q)) * pow2 q
           in if m \<ge> pow2 1024 then Infinite (x < 0) else Finite (if x < 0 then - m else m))"

definition f64_of_fields :: "bool \<Rightarrow> nat \<Rightarrow> nat \<Rightarrow> nat \<Rightarrow> nat \<Rightarrow> f64" where
  "f64_of_fields negative e fraction e_bits f_bits =
     (let bias = 2 ^ (e_bits - 1) - 1; s = (if negative then -1 else 1 :: rat) in
      if e = 2 ^ e_bits - 1 then (if fraction = 0 then Infinite negative else Nan)
      else if e = 0 then Finite (s * of_nat fraction * pow2 (1 - int bias - int f_bits))
      else Finite (s * of_nat (2 ^ f_bits + fraction) * pow2 (int e - int bias - int f_bits)))"

text \<open>\<open>f32::from_bits(..) as f64\<close> and \<open>f64::from_bits\<close>.\<close>

definition f64_from_f32_bits :: "nat \<Rightarrow> f64" where
  "f64_from_f32_bits n = f64_of_fields (n div 2 ^ 31 mod 2 = 1) (n div 2 ^ 23 mod 2 ^ 8) (n mod 2 ^ 23) 8 23"

definition f64_from_bits :: "nat \<Rightarrow> f64" where
  "f64_from_bits n = f64_of_fields (n div 2 ^ 63 mod 2 = 1) (n div 2 ^ 52 mod 2 ^ 11) (n mod 2 ^ 52) 11 52"

definition f64_of_int :: "int \<Rightarrow> f64" where
  "f64_of_int n = f64_nearest (of_int n)"

fun f64_mul :: "f64 \<Rightarrow> f64 \<Rightarrow> f64" where
  "f64_mul (Finite a) (Finite b) = f64_nearest (a * b)"
| "f64_mul (Infinite s) (Infinite t) = Infinite (s \<noteq> t)"
| "f64_mul (Infinite s) (Finite b) = (if b = 0 then Nan else Infinite (s \<noteq> (b < 0)))"
| "f64_mul (Finite a) (Infinite t) = (if a = 0 then Nan else Infinite (t \<noteq> (a < 0)))"
| "f64_mul _ _ = Nan"

text \<open>Division by a positive constant.\<close>

fun f64_div :: "f64 \<Rightarrow> rat \<Rightarrow> f64" where
  "f64_div (Finite a) d = f64_nearest (a / d)"
| "f64_div x d = x"

text \<open>\<open>round\<close> goes to the nearest integer, ties away from zero; \<open>as i64\<close> saturates and takes NaN to 0.\<close>

definition round_half_away :: "rat \<Rightarrow> int" where
  "round_half_away x = (if x < 0 then - \<lfloor>- x + 1 / 2\<rfloor> else \<lfloor>x + 1 / 2\<rfloor>)"

fun f64_round_i64 :: "f64 \<Rightarrow> int" where
  "f64_round_i64 Nan = 0"
| "f64_round_i64 (Infinite s) = (if s then - (2 ^ 63) else 2 ^ 63 - 1)"
| "f64_round_i64 (Finite x) = max (- (2 ^ 63)) (min (2 ^ 63 - 1) (round_half_away x))"

text \<open>\<open>parse::<f64>\<close> of a text of digits and points: at most one point, at least one digit.\<close>

definition digits_number :: "str \<Rightarrow> nat" where
  "digits_number s = foldl (\<lambda>n c. 10 * n + (c - 48)) 0 s"

definition f64_parse :: "str \<Rightarrow> f64 option" where
  "f64_parse s =
     (let whole = takeWhile is_ascii_digit s; rest = drop (length whole) s;
          part = (case rest of [] \<Rightarrow> [] | _ # r \<Rightarrow> r)
      in if whole @ part = [] \<or> \<not> (rest = [] \<or> hd rest = 0x2E) \<or> \<not> (\<forall>c \<in> set part. is_ascii_digit c) then None
         else Some (f64_nearest (of_nat (digits_number (whole @ part)) / 10 ^ length part)))"

section \<open>Facts\<close>

lemma pow2_pos: "0 < pow2 k"
  by (simp add: pow2_def)

lemma round_half_even_int: "round_half_even (of_int n) = n"
  by (simp add: round_half_even_def)

lemma round_half_away_int: "round_half_away (of_int n) = n"
proof -
  have "\<lfloor>of_int k + 1 / 2 :: rat\<rfloor> = k" for k :: int by (rule floor_unique) simp_all
  from this [of n] this [of "- n"] show ?thesis by (simp add: round_half_away_def)
qed

end
