(* ===== verification/Media_Images.thy ===== *)
theory Media_Images imports Media_Types Rust_Float begin

text \<open>
  The parsers of image files (\<open>media_info.rs\<close>): JPEG, PNG, GIF, WebP, JPEG 2000, JPEG XL and SVG.

  Each loop over the segments of a file is a recursive function on the position, with the mutable
  variables of the code in a record; None is a panic. \<open>file_size\<close> is the size of the file of which
  \<open>data\<close> is the part that was read.
\<close>

section \<open>Signatures\<close>

definition is_jpeg :: "bytes \<Rightarrow> bool" where
  "is_jpeg data = (length data \<ge> 3 \<and> take 3 data = [0xff, 0xd8, 0xff])"

definition is_png :: "bytes \<Rightarrow> bool" where
  "is_png data = starts_with data [0x89, 0x50, 0x4e, 0x47, 0x0d, 0x0a, 0x1a, 0x0a]"

definition is_gif :: "bytes \<Rightarrow> bool" where
  "is_gif data = (starts_with data (ascii_bytes ''GIF87a'') \<or> starts_with data (ascii_bytes ''GIF89a''))"

definition is_webp :: "bytes \<Rightarrow> bool" where
  "is_webp data = (length data \<ge> 12 \<and> take 4 data = ascii_bytes ''RIFF'' \<and> take 4 (drop 8 data) = ascii_bytes ''WEBP'')"

definition is_jp2 :: "bytes \<Rightarrow> bool" where
  "is_jp2 data = starts_with data [0, 0, 0, 0x0c, 0x6a, 0x50, 0x20, 0x20, 0x0d, 0x0a, 0x87, 0x0a]"

definition is_j2k :: "bytes \<Rightarrow> bool" where
  "is_j2k data = starts_with data [0xff, 0x4f, 0xff, 0x51]"

definition jxl_container :: "bytes \<Rightarrow> bool" where
  "jxl_container data = starts_with data [0, 0, 0, 0x0c, 0x4a, 0x58, 0x4c, 0x20, 0x0d, 0x0a, 0x87, 0x0a]"

definition is_jxl :: "bytes \<Rightarrow> bool" where
  "is_jxl data = (jxl_container data \<or> starts_with data [0xff, 0x0a])"

section \<open>Status of a probe\<close>

definition scan_status_of :: "bool \<Rightarrow> str" where
  "scan_status_of partial = (if partial then ascii ''partial'' else ascii ''ok'')"

definition i64_bool :: "bool \<Rightarrow> i64" where "i64_bool b = of_bool b"

section \<open>JPEG\<close>

record jpeg_state =
  jp_width :: "i64 option"
  jp_height :: "i64 option"
  jp_bit_depth :: "i64 option"
  jp_components :: "i64 option"
  jp_sof_marker :: "u8 option"
  jp_restart_interval :: "i64 option"
  jp_has_exif :: bool
  jp_has_icc :: bool
  jp_has_xmp :: bool
  jp_has_jfif :: bool
  jp_has_dht :: bool
  jp_has_dac :: bool
  jp_subsampling :: "str option"
  jp_partial :: bool

definition jpeg_start :: jpeg_state where
  "jpeg_start = \<lparr>jp_width = None, jp_height = None, jp_bit_depth = None, jp_components = None,
     jp_sof_marker = None, jp_restart_interval = None, jp_has_exif = False, jp_has_icc = False,
     jp_has_xmp = False, jp_has_jfif = False, jp_has_dht = False, jp_has_dac = False,
     jp_subsampling = None, jp_partial = False\<rparr>"

definition jpeg_subsampling :: "bytes \<Rightarrow> str option option" where
  "jpeg_subsampling sof =
     (if length sof < 6 \<or> sof ! 5 = 0 then Some None
      else let comps = unat (sof ! 5) in
        if length sof < 6 + comps * 3 then Some None
        else if comps = 1 then Some (Some (ascii ''4:0:0''))
        else do {
          sampling \<leftarrow> idx sof 7;
          let h = drop_bit 4 sampling; v = sampling AND 0x0f in
          Some (Some (if (h, v) = (1, 1) then ascii ''4:4:4''
             else if (h, v) = (2, 1) then ascii ''4:2:2''
             else if (h, v) = (2, 2) then ascii ''4:2:0''
             else if (h, v) = (4, 1) then ascii ''4:1:1''
             else nat_digits (unat h) @ ascii ''x'' @ nat_digits (unat v))) })"

definition jpeg_sof_marker :: "u8 \<Rightarrow> bool" where
  "jpeg_sof_marker marker =
     (((0xc0 \<le> marker \<and> marker \<le> 0xcf) \<or> marker = 0xf7) \<and> marker \<notin> {0xc4, 0xc8, 0xcc})"

definition jpeg_segment :: "u8 \<Rightarrow> bytes \<Rightarrow> jpeg_state \<Rightarrow> jpeg_state option" where
  "jpeg_segment marker seg st =
     (if jpeg_sof_marker marker then
        let st1 = st\<lparr>jp_sof_marker := Some marker\<rparr> in
        if length seg \<ge> 6 then do {
          h \<leftarrow> be16_at seg 1; w \<leftarrow> be16_at seg 3; sub \<leftarrow> jpeg_subsampling seg;
          Some (st1\<lparr>jp_bit_depth := Some (ucast (seg ! 0)), jp_height := Some (ucast h), jp_width := Some (ucast w),
                    jp_components := Some (ucast (seg ! 5)), jp_subsampling := sub\<rparr>) }
        else Some st1
      else if marker = 0xc4 then Some (st\<lparr>jp_has_dht := True\<rparr>)
      else if marker = 0xcc then Some (st\<lparr>jp_has_dac := True\<rparr>)
      else if marker = 0xdd then
        (if length seg \<ge> 2 then do {
           r \<leftarrow> be16_at seg 0; Some (st\<lparr>jp_restart_interval := Some (ucast r)\<rparr>) }
         else Some st)
      else if marker = 0xe0 then
        Some (if starts_with seg (ascii_bytes ''JFIF'' @ [0]) then st\<lparr>jp_has_jfif := True\<rparr> else st)
      else if marker = 0xe1 then
        let st1 = (if starts_with seg (ascii_bytes ''Exif'' @ [0, 0]) then st\<lparr>jp_has_exif := True\<rparr> else st) in
        Some (if starts_with seg (ascii_bytes ''http://ns.adobe.com/xap/1.0/'' @ [0])
              then st1\<lparr>jp_has_xmp := True\<rparr> else st1)
      else if marker = 0xe2 then
        Some (if starts_with seg (ascii_bytes ''ICC_PROFILE'' @ [0]) then st\<lparr>jp_has_icc := True\<rparr> else st)
      else Some st)"

definition skip_ff :: "bytes \<Rightarrow> nat \<Rightarrow> nat" where
  "skip_ff data pos = pos + length (takeWhile (\<lambda>b. b = 0xff) (drop pos data))"

function jpeg_loop :: "bytes \<Rightarrow> nat \<Rightarrow> jpeg_state \<Rightarrow> jpeg_state option" where
  "jpeg_loop data pos st =
     (if pos + 1 < length data then
        if data ! pos \<noteq> 0xff then jpeg_loop data (pos + 1) st
        else let p = skip_ff data pos in
          if p \<ge> length data then Some st
          else let marker = data ! p; p1 = p + 1 in
            if marker = 0xd9 \<or> marker = 0xda then Some st
            else if marker = 0x01 \<or> (0xd0 \<le> marker \<and> marker \<le> 0xd7) then jpeg_loop data p1 st
            else case be16_opt data p1 of
              None \<Rightarrow> Some (st\<lparr>jp_partial := True\<rparr>)
            | Some v \<Rightarrow>
                let seg_len = unat v in
                if seg_len < 2 \<or> p1 + seg_len > length data then Some (st\<lparr>jp_partial := True\<rparr>)
                else do {
                  seg \<leftarrow> subslice data (p1 + 2) (p1 + seg_len);
                  st1 \<leftarrow> jpeg_segment marker seg st;
                  jpeg_loop data (p1 + seg_len) st1 }
      else Some st)"
  by pat_completeness auto
termination
  by (relation "measure (\<lambda>(data, pos, _). length data - pos)") (auto simp: skip_ff_def)

declare jpeg_loop.simps [simp del]

definition jpeg_marker_features :: "u8 option \<Rightarrow> bool \<Rightarrow> bool \<Rightarrow> str \<times> str \<times> bool \<times> bool \<times> str \<times> str" where
  "jpeg_marker_features marker has_dac has_dht =
     (let coder = (if has_dac then ascii ''arithmetic'' else ascii ''huffman'') in
      if marker \<in> {Some 0xc2, Some 0xc6, Some 0xca, Some 0xce}
      then (ascii ''progressive'', ascii ''dct'', True, False, coder, ascii ''jpeg'')
      else if marker \<in> {Some 0xc3, Some 0xc7, Some 0xcb, Some 0xcf}
      then (ascii ''lossless'', ascii ''lossless'', False, True, coder, ascii ''jpeg'')
      else if marker = Some 0xf7
      then (ascii ''jpeg-ls'', ascii ''lossless_or_near_lossless'', False, True, ascii ''golomb'', ascii ''jpeg-ls'')
      else (ascii ''baseline_or_sequential'', ascii ''dct'', False, False,
            if has_dht \<or> \<not> has_dac then ascii ''huffman'' else ascii ''arithmetic'', ascii ''jpeg''))"

definition bool_text :: "bool \<Rightarrow> str" where
  "bool_text b = (if b then ascii ''true'' else ascii ''false'')"

definition jpeg_pixel_format :: "i64 \<Rightarrow> str" where
  "jpeg_pixel_format c =
     (if c = 1 then ascii ''grayscale'' else if c = 3 then ascii ''ycbcr_or_rgb''
      else if c = 4 then ascii ''cmyk_or_ycck'' else nat_digits (unat c) @ ascii ''_components'')"

definition parse_jpeg_with_file_size :: "(jvalue \<Rightarrow> str) \<Rightarrow> bytes \<Rightarrow> u64 \<Rightarrow> parsed_media option" where
  "parse_jpeg_with_file_size to_json data file_size =
     map_option (\<lambda>st.
       let (coding_mode, transform, progressive, lossless, entropy, standard) =
             jpeg_marker_features (jp_sof_marker st) (jp_has_dac st) (jp_has_dht st);
           probe_truncated = (jp_partial st \<and> unat file_size > length data
              \<and> jp_width st \<noteq> None \<and> jp_height st \<noteq> None);
           details = v_obj
             [(''sof_marker'', v_opt (\<lambda>m. VStr (ascii ''0x'' @ hex2 (unat m))) (jp_sof_marker st)),
              (''components'', v_opt v_i64 (jp_components st)),
              (''restart_interval'', v_opt v_i64 (jp_restart_interval st)),
              (''jfif'', VBool (jp_has_jfif st)), (''app1_exif'', VBool (jp_has_exif st)),
              (''app1_xmp'', VBool (jp_has_xmp st)), (''app2_icc'', VBool (jp_has_icc st)),
              (''dht'', VBool (jp_has_dht st)), (''dac'', VBool (jp_has_dac st)),
              (''probe_truncated'', VBool probe_truncated), (''probe_read_bytes'', v_nat (length data)),
              (''file_size'', v_uint file_size)];
           (details_json, details_partial) = json_limited to_json details;
           truncated = (jp_partial st \<and> \<not> probe_truncated)
       in \<lparr>pm_media_kind = ascii ''image'', pm_container = ascii ''jpeg'', pm_detected_format = standard,
            pm_mime = Some (ascii ''image/jpeg''),
            pm_scan_status = scan_status_of (truncated \<or> details_partial),
            pm_error = (if truncated then Some (ascii ''truncated JPEG marker segment'') else None),
            pm_streams = [default_stream\<lparr>ms_stream_type := ascii ''image'', ms_codec := Some standard,
              ms_codec_tag := map_option (\<lambda>m. ascii ''SOF'' @ hex2 (unat m)) (jp_sof_marker st),
              ms_width := jp_width st, ms_height := jp_height st, ms_bit_depth := jp_bit_depth st,
              ms_pixel_format := map_option jpeg_pixel_format (jp_components st),
              ms_chroma_subsampling := jp_subsampling st, ms_details_json := Some details_json\<rparr>],
            pm_features = [default_feature\<lparr>mf_standard := Some standard, mf_coding_mode := Some coding_mode,
              mf_transform := Some transform, mf_entropy_coding := Some entropy,
              mf_progressive := Some (bool_text progressive), mf_lossless := Some (i64_bool lossless),
              mf_icc_profile := Some (i64_bool (jp_has_icc st)), mf_exif := Some (i64_bool (jp_has_exif st)),
              mf_xmp := Some (i64_bool (jp_has_xmp st)), mf_confidence := Some (ascii ''header''),
              mf_features_json := Some (to_json (v_obj [(''subsampling'', v_opt VStr (jp_subsampling st)),
                (''components'', v_opt v_i64 (jp_components st)), (''precision'', v_opt v_i64 (jp_bit_depth st))]))\<rparr>]\<rparr>)
       (jpeg_loop data 2 jpeg_start)"

section \<open>PNG\<close>

record png_state =
  pn_width :: "i64 option"
  pn_height :: "i64 option"
  pn_bit_depth :: "i64 option"
  pn_color_type :: "u8 option"
  pn_interlace :: "u8 option"
  pn_palette :: bool
  pn_transparency :: bool
  pn_gamma :: bool
  pn_icc :: bool
  pn_srgb :: bool
  pn_exif :: bool
  pn_xmp :: bool
  pn_animation :: bool
  pn_frame_count :: "i64 option"
  pn_partial :: bool
  pn_truncated_by_probe :: bool

definition png_start :: png_state where
  "png_start = \<lparr>pn_width = None, pn_height = None, pn_bit_depth = None, pn_color_type = None,
     pn_interlace = None, pn_palette = False, pn_transparency = False, pn_gamma = False, pn_icc = False,
     pn_srgb = False, pn_exif = False, pn_xmp = False, pn_animation = False, pn_frame_count = None,
     pn_partial = False, pn_truncated_by_probe = False\<rparr>"

definition png_cut :: "png_state \<Rightarrow> png_state" where
  "png_cut st = st\<lparr>pn_partial := True, pn_truncated_by_probe := True\<rparr>"

definition png_chunk :: "bytes \<Rightarrow> bytes \<Rightarrow> png_state \<Rightarrow> png_state option" where
  "png_chunk chunk_type chunk st =
     (if chunk_type = ascii_bytes ''IHDR'' \<and> length chunk \<ge> 13 then do {
        w \<leftarrow> be32_at chunk 0; h \<leftarrow> be32_at chunk 4;
        Some (st\<lparr>pn_width := Some (ucast w), pn_height := Some (ucast h), pn_bit_depth := Some (ucast (chunk ! 8)),
               pn_color_type := Some (chunk ! 9), pn_interlace := Some (chunk ! 12)\<rparr>) }
      else if chunk_type = ascii_bytes ''PLTE'' then Some (st\<lparr>pn_palette := True\<rparr>)
      else if chunk_type = ascii_bytes ''tRNS'' then Some (st\<lparr>pn_transparency := True\<rparr>)
      else if chunk_type = ascii_bytes ''gAMA'' then Some (st\<lparr>pn_gamma := True\<rparr>)
      else if chunk_type = ascii_bytes ''iCCP'' then Some (st\<lparr>pn_icc := True\<rparr>)
      else if chunk_type = ascii_bytes ''sRGB'' then Some (st\<lparr>pn_srgb := True\<rparr>)
      else if chunk_type = ascii_bytes ''eXIf'' then Some (st\<lparr>pn_exif := True\<rparr>)
      else if chunk_type \<in> {ascii_bytes ''iTXt'', ascii_bytes ''tEXt'', ascii_bytes ''zTXt''} then
        Some (if list_ex (\<lambda>w. w = ascii_bytes ''http://ns.adobe.com/xap/1.0/'') (windows 29 chunk)
              then st\<lparr>pn_xmp := True\<rparr> else st)
      else if chunk_type = ascii_bytes ''acTL'' \<and> length chunk \<ge> 8 then do {
        n \<leftarrow> be32_at chunk 0;
        Some (st\<lparr>pn_animation := True, pn_frame_count := Some (ucast n)\<rparr>) }
      else Some st)"

function png_loop :: "bytes \<Rightarrow> nat \<Rightarrow> png_state \<Rightarrow> (nat \<times> png_state) option" where
  "png_loop data pos st =
     (if pos + 12 \<le> length data then do {
        len32 \<leftarrow> be32_at data pos;
        chunk_type \<leftarrow> subslice data (pos + 4) (pos + 8);
        let len = unat len32 in
        if pos + 12 + len > length data then Some (pos, png_cut st)
        else do {
          chunk \<leftarrow> subslice data (pos + 8) (pos + 8 + len);
          if chunk_type = ascii_bytes ''IEND'' then Some (pos, st)
          else do {
            st1 \<leftarrow> png_chunk chunk_type chunk st;
            png_loop data (pos + 12 + len) st1 } } }
      else Some (pos, st))"
  by pat_completeness auto
termination
  by (relation "measure (\<lambda>(data, pos, _). length data - pos)") auto

declare png_loop.simps [simp del]

definition png_color_type :: "u8 \<Rightarrow> str" where
  "png_color_type v =
     (if v = 0 then ascii ''grayscale'' else if v = 2 then ascii ''rgb'' else if v = 3 then ascii ''indexed''
      else if v = 4 then ascii ''grayscale_alpha'' else if v = 6 then ascii ''rgba''
      else ascii ''unknown_'' @ nat_digits (unat v))"

definition parse_png_with_file_size :: "(jvalue \<Rightarrow> str) \<Rightarrow> bytes \<Rightarrow> u64 \<Rightarrow> parsed_media option" where
  "parse_png_with_file_size to_json data file_size =
     map_option (\<lambda>(pos, st0).
       let st1 = (if pos < length data \<and> pos + 12 > length data then png_cut st0 else st0);
           st = (if pn_width st1 = None \<or> pn_height st1 = None then st1\<lparr>pn_partial := True\<rparr> else st1);
           probe_truncated = (pn_partial st \<and> pn_truncated_by_probe st \<and> unat file_size > length data
              \<and> pn_width st \<noteq> None \<and> pn_height st \<noteq> None);
           alpha = (pn_color_type st \<in> {Some 4, Some 6} \<or> pn_transparency st);
           details = v_obj
             [(''color_type'', v_opt v_uint (pn_color_type st)), (''interlace'', v_opt v_uint (pn_interlace st)),
              (''palette'', VBool (pn_palette st)), (''gamma'', VBool (pn_gamma st)), (''srgb'', VBool (pn_srgb st)),
              (''frame_count'', v_opt v_i64 (pn_frame_count st)),
              (''probe_truncated'', VBool probe_truncated), (''probe_read_bytes'', v_nat (length data)),
              (''file_size'', v_uint file_size)];
           (details_json, details_partial) = json_limited to_json details;
           truncated = (pn_partial st \<and> \<not> probe_truncated)
       in \<lparr>pm_media_kind = (if pn_animation st then ascii ''animated_image'' else ascii ''image''),
            pm_container = ascii ''png'', pm_detected_format = ascii ''png'', pm_mime = Some (ascii ''image/png''),
            pm_scan_status = scan_status_of (truncated \<or> details_partial),
            pm_error = (if truncated then Some (ascii ''truncated PNG chunk'') else None),
            pm_streams = [default_stream\<lparr>ms_stream_type := ascii ''image'', ms_codec := Some (ascii ''png''),
              ms_width := pn_width st, ms_height := pn_height st, ms_bit_depth := pn_bit_depth st,
              ms_pixel_format := map_option png_color_type (pn_color_type st),
              ms_details_json := Some details_json\<rparr>],
            pm_features = [default_feature\<lparr>mf_standard := Some (ascii ''png''), mf_coding_mode := Some (ascii ''deflate''),
              mf_lossless := Some 1, mf_alpha := Some (i64_bool alpha), mf_animation := Some (i64_bool (pn_animation st)),
              mf_icc_profile := Some (i64_bool (pn_icc st)), mf_exif := Some (i64_bool (pn_exif st)),
              mf_xmp := Some (i64_bool (pn_xmp st)), mf_confidence := Some (ascii ''exact''),
              mf_features_json := Some (to_json (v_obj [(''palette'', VBool (pn_palette st)),
                (''gamma'', VBool (pn_gamma st)), (''srgb'', VBool (pn_srgb st)),
                (''interlace'', v_opt v_uint (pn_interlace st)),
                (''frame_count'', v_opt v_i64 (pn_frame_count st))]))\<rparr>]\<rparr>)
       (png_loop data 8 png_start)"

end
