(* ===== verification/Media_Pictures.thy ===== *)
theory Media_Pictures imports Media_Images begin

text \<open>
  The parsers of the other image files (\<open>media_info.rs\<close>): GIF, WebP, JPEG 2000, JPEG XL and SVG, in
  the manner of Media_Images.
\<close>

section \<open>GIF\<close>

function skip_gif_subblocks :: "bytes \<Rightarrow> nat \<Rightarrow> nat option" where
  "skip_gif_subblocks data pos =
     (if pos < length data then
        let len = unat (data ! pos); p = pos + 1 in
        if len = 0 then Some p
        else do {
          q \<leftarrow> uadd p len;
          if q > length data then None else skip_gif_subblocks data q }
      else None)"
  by pat_completeness auto
termination
  by (relation "measure (\<lambda>(data, pos). length data - pos)") (auto simp: uadd_eq_Some)

declare skip_gif_subblocks.simps [simp del]

lemma skip_gif_subblocks_bounds: "skip_gif_subblocks data pos = Some q \<Longrightarrow> pos < q \<and> q \<le> length data"
proof (induction data pos rule: skip_gif_subblocks.induct)
  case (1 data pos)
  show ?case
  proof (cases "pos < length data \<and> data ! pos \<noteq> 0")
    case False
    then show ?thesis using "1.prems" by (auto simp: skip_gif_subblocks.simps [of data pos] Let_def split: if_splits)
  next
    case True
    then have ne: "unat (data ! pos) \<noteq> 0" by (simp add: unat_eq_zero)
    obtain r where r: "uadd (pos + 1) (unat (data ! pos)) = Some r" "\<not> r > length data"
      "skip_gif_subblocks data r = Some q"
      using "1.prems" True ne by (auto simp: skip_gif_subblocks.simps [of data pos] Let_def bind_eq_Some_conv split: if_splits)
    then have "pos < r" by (simp add: uadd_eq_Some)
    then show ?thesis using "1.IH" [of "unat (data ! pos)" "pos + 1" r] True ne r by simp
  qed
qed

record gif_state =
  gf_frames :: nat
  gf_transparent :: bool
  gf_loop_count :: "i64 option"
  gf_partial :: bool
  gf_truncated_by_probe :: bool

definition gif_start :: gif_state where
  "gif_start = \<lparr>gf_frames = 0, gf_transparent = False, gf_loop_count = None, gf_partial = False,
     gf_truncated_by_probe = False\<rparr>"

definition gif_cut :: "gif_state \<Rightarrow> gif_state" where
  "gif_cut st = st\<lparr>gf_partial := True, gf_truncated_by_probe := True\<rparr>"

definition gif_palette_bytes :: "u8 \<Rightarrow> nat" where
  "gif_palette_bytes packed = 3 * 2 ^ (unat (packed AND 0x07) + 1)"

text \<open>The application extension: its name, then the loop count of a NETSCAPE block. The result is the
  position of the sub-blocks, or None for a block that does not fit.\<close>

definition gif_application :: "bytes \<Rightarrow> nat \<Rightarrow> gif_state \<Rightarrow> (nat \<times> gif_state) option option" where
  "gif_application data pos st =
     (if pos \<ge> length data then Some None
      else let block_size = unat (data ! pos) in
        if pos + 1 + block_size > length data then Some None
        else do {
          app \<leftarrow> subslice data (pos + 1) (pos + 1 + block_size);
          let p = pos + 1 + block_size in
          Some (Some (p, if starts_with app (ascii_bytes ''NETSCAPE'') \<and> p + 5 \<le> length data
                          \<and> data ! p = 3 \<and> data ! (p + 1) = 1
                       then st\<lparr>gf_loop_count := Some (case le16_opt data (p + 2) of Some v \<Rightarrow> ucast v | None \<Rightarrow> 0)\<rparr>
                       else st)) })"

lemma saturating_add_ge: "a \<le> saturating_add a b"
  by (simp add: saturating_add_def)

lemma past_palette: "Suc (saturating_add (pos + 10) n) < q \<Longrightarrow> pos < q"
  using saturating_add_ge [of "pos + 10" n] by linarith

lemma gif_application_forward: "gif_application data pos st = Some (Some (q, st')) \<Longrightarrow> pos < q"
  by (auto simp: gif_application_def Let_def bind_eq_Some_conv split: if_splits)

function gif_loop :: "bytes \<Rightarrow> nat \<Rightarrow> gif_state \<Rightarrow> gif_state option" where
  "gif_loop data pos st =
     (if pos < length data then
        if data ! pos = 0x2c then
          if pos + 10 > length data then Some (gif_cut st)
          else let st1 = st\<lparr>gf_frames := gf_frames st + 1\<rparr>;
                   local_packed = data ! (pos + 9);
                   p = (if local_packed AND 0x80 \<noteq> 0
                        then saturating_add (pos + 10) (gif_palette_bytes local_packed) else pos + 10)
               in if p \<ge> length data then Some (gif_cut st1)
                  else (case skip_gif_subblocks data (p + 1) of
                      Some nxt \<Rightarrow> gif_loop data nxt st1
                    | None \<Rightarrow> Some (gif_cut st1))
        else if data ! pos = 0x21 then
          if pos + 2 > length data then Some (gif_cut st)
          else let label = data ! (pos + 1); p = pos + 2 in
            if label = 0xf9 \<and> p + 5 \<le> length data \<and> data ! p = 4 then
              gif_loop data (p + 6) (st\<lparr>gf_transparent := (gf_transparent st \<or> data ! (p + 1) AND 0x01 \<noteq> 0)\<rparr>)
            else if label = 0xff then
              Option.bind (gif_application data p st) (\<lambda>r. case r of
                  None \<Rightarrow> Some (gif_cut st)
                | Some (q, st1) \<Rightarrow>
                   (case skip_gif_subblocks data q of
                      Some nxt \<Rightarrow> gif_loop data nxt st1
                    | None \<Rightarrow> Some (gif_cut st1)))
            else (case skip_gif_subblocks data p of
                    Some nxt \<Rightarrow> gif_loop data nxt st
                  | None \<Rightarrow> Some (gif_cut st))
        else if data ! pos = 0x3b then Some st
        else Some (st\<lparr>gf_partial := True\<rparr>)
      else Some st)"
  by pat_completeness auto
termination
  by (relation "measure (\<lambda>(data, pos, _). length data - pos)")
     (auto dest!: skip_gif_subblocks_bounds gif_application_forward past_palette split: if_splits)

declare gif_loop.simps [simp del]

definition parse_gif_with_file_size :: "(jvalue \<Rightarrow> str) \<Rightarrow> bytes \<Rightarrow> u64 \<Rightarrow> parsed_media option" where
  "parse_gif_with_file_size to_json data file_size =
     (let width = map_option ucast (le16_opt data 6) :: i64 option;
          height = map_option ucast (le16_opt data 8) :: i64 option;
          packed = (case idx data 10 of Some b \<Rightarrow> b | None \<Rightarrow> 0);
          global_palette = (packed AND 0x80 \<noteq> 0);
          global_palette_entries = (if global_palette then Some (2 ^ (unat (packed AND 0x07) + 1)) else None) :: nat option;
          start = (case global_palette_entries of Some n \<Rightarrow> saturating_add 13 (3 * n) | None \<Rightarrow> 13)
      in do {
        st \<leftarrow> gif_loop data start gif_start;
        version \<leftarrow> subslice data 3 (min 6 (length data));
        let animation = (gf_frames st > 1);
            probe_truncated = (gf_partial st \<and> gf_truncated_by_probe st \<and> unat file_size > length data
              \<and> width \<noteq> None \<and> height \<noteq> None);
            details = v_obj
              [(''version'', VStr (utf8_lossy version)), (''global_palette'', VBool global_palette),
               (''global_palette_entries'', v_opt v_nat global_palette_entries),
               (''frames'', v_nat (gf_frames st)), (''loop_count'', v_opt v_i64 (gf_loop_count st)),
               (''transparent'', VBool (gf_transparent st)),
               (''probe_truncated'', VBool probe_truncated), (''probe_read_bytes'', v_nat (length data)),
               (''file_size'', v_uint file_size)];
            (details_json, details_partial) = json_limited to_json details;
            truncated = (gf_partial st \<and> \<not> probe_truncated)
        in Some \<lparr>pm_media_kind = (if animation then ascii ''animated_image'' else ascii ''image''),
             pm_container = ascii ''gif'', pm_detected_format = ascii ''gif'', pm_mime = Some (ascii ''image/gif''),
             pm_scan_status = scan_status_of (truncated \<or> details_partial),
             pm_error = (if truncated then Some (ascii ''truncated GIF block'') else None),
             pm_streams = [default_stream\<lparr>ms_stream_type := ascii ''image'', ms_codec := Some (ascii ''gif''),
               ms_width := width, ms_height := height, ms_bit_depth := Some (ucast ((packed AND 0x07) + 1)),
               ms_details_json := Some details_json\<rparr>],
             pm_features = [default_feature\<lparr>mf_standard := Some (ascii ''gif''), mf_coding_mode := Some (ascii ''lzw''),
               mf_lossless := Some 1, mf_alpha := Some (i64_bool (gf_transparent st)),
               mf_animation := Some (i64_bool animation), mf_confidence := Some (ascii ''exact''),
               mf_features_json := Some (to_json (v_obj [(''frames'', v_nat (gf_frames st)),
                 (''loop_count'', v_opt v_i64 (gf_loop_count st)), (''global_palette'', VBool global_palette)]))\<rparr>]\<rparr> })"

section \<open>WebP\<close>

record webp_state =
  wp_width :: "i64 option"
  wp_height :: "i64 option"
  wp_codec :: str
  wp_lossless :: bool
  wp_alpha :: bool
  wp_animation :: bool
  wp_chunks :: "str list"
  wp_partial :: bool
  wp_truncated_by_probe :: bool

definition webp_start :: webp_state where
  "webp_start = \<lparr>wp_width = None, wp_height = None, wp_codec = ascii ''webp'', wp_lossless = False,
     wp_alpha = False, wp_animation = False, wp_chunks = [], wp_partial = False, wp_truncated_by_probe = False\<rparr>"

definition webp_cut :: "webp_state \<Rightarrow> webp_state" where
  "webp_cut st = st\<lparr>wp_partial := True, wp_truncated_by_probe := True\<rparr>"

definition webp_chunk :: "str \<Rightarrow> bytes \<Rightarrow> webp_state \<Rightarrow> webp_state option" where
  "webp_chunk typ chunk st =
     (if typ = ascii ''VP8X'' \<and> length chunk \<ge> 10 then do {
        w \<leftarrow> Option.bind (subslice chunk 4 7) read_u24le;
        h \<leftarrow> Option.bind (subslice chunk 7 10) read_u24le;
        Some (st\<lparr>wp_alpha := (wp_alpha st \<or> chunk ! 0 AND 0x10 \<noteq> 0),
               wp_animation := (wp_animation st \<or> chunk ! 0 AND 0x02 \<noteq> 0),
               wp_width := Some (ucast (w + 1)), wp_height := Some (ucast (h + 1)),
               wp_codec := ascii ''webp-vp8x''\<rparr>) }
      else if typ = ascii ''VP8L'' \<and> length chunk \<ge> 5 \<and> chunk ! 0 = 0x2f then
        let b1 = ucast (chunk ! 1) :: u32; b2 = ucast (chunk ! 2) :: u32;
            b3 = ucast (chunk ! 3) :: u32; b4 = ucast (chunk ! 4) :: u32
        in Some (st\<lparr>wp_width := Some (ucast (1 + (push_bit 8 (b2 AND 0x3f) OR b1))),
             wp_height := Some (ucast (1 + (push_bit 10 (b4 AND 0x0f) OR push_bit 2 b3 OR drop_bit 6 (b2 AND 0xc0)))),
             wp_alpha := (wp_alpha st \<or> b4 AND 0x10 \<noteq> 0), wp_lossless := True,
             wp_codec := ascii ''webp-vp8l''\<rparr>)
      else if typ = ascii ''VP8 '' \<and> length chunk \<ge> 10 \<and> take 3 (drop 3 chunk) = [0x9d, 0x01, 0x2a] then do {
        w \<leftarrow> le16_at chunk 6; h \<leftarrow> le16_at chunk 8;
        Some (st\<lparr>wp_width := Some (ucast (w AND 0x3fff)), wp_height := Some (ucast (h AND 0x3fff)),
               wp_codec := ascii ''webp-vp8''\<rparr>) }
      else if typ = ascii ''ALPH'' then Some (st\<lparr>wp_alpha := True\<rparr>)
      else if typ = ascii ''ANIM'' \<or> typ = ascii ''ANMF'' then Some (st\<lparr>wp_animation := True\<rparr>)
      else Some st)"

function webp_loop :: "bytes \<Rightarrow> nat \<Rightarrow> webp_state \<Rightarrow> (nat \<times> webp_state) option" where
  "webp_loop data pos st =
     (if pos + 8 \<le> length data then do {
        tag \<leftarrow> subslice data pos (pos + 4);
        len32 \<leftarrow> le32_at data (pos + 4);
        let len = unat len32; typ = fourcc tag in
        if pos + 8 + len > length data then Some (pos, webp_cut st)
        else do {
          chunk \<leftarrow> subslice data (pos + 8) (pos + 8 + len);
          st1 \<leftarrow> webp_chunk typ chunk (st\<lparr>wp_chunks := wp_chunks st @ [typ]\<rparr>);
          webp_loop data (pos + (8 + len + len mod 2)) st1 } }
      else Some (pos, st))"
  by pat_completeness auto
termination
  by (relation "measure (\<lambda>(data, pos, _). length data - pos)") auto

declare webp_loop.simps [simp del]

definition parse_webp_with_file_size :: "(jvalue \<Rightarrow> str) \<Rightarrow> bytes \<Rightarrow> u64 \<Rightarrow> parsed_media option" where
  "parse_webp_with_file_size to_json data file_size =
     map_option (\<lambda>(pos, st0).
       let st = (if pos < length data \<and> pos + 8 > length data then webp_cut st0 else st0);
           probe_truncated = (wp_partial st \<and> wp_truncated_by_probe st \<and> unat file_size > length data
              \<and> wp_width st \<noteq> None \<and> wp_height st \<noteq> None);
           details = v_obj
             [(''chunks'', VArr (map VStr (wp_chunks st))),
              (''probe_truncated'', VBool probe_truncated), (''probe_read_bytes'', v_nat (length data)),
              (''file_size'', v_uint file_size)];
           (details_json, details_partial) = json_limited to_json details;
           truncated = (wp_partial st \<and> \<not> probe_truncated)
       in \<lparr>pm_media_kind = (if wp_animation st then ascii ''animated_image'' else ascii ''image''),
            pm_container = ascii ''webp'', pm_detected_format = ascii ''webp'', pm_mime = Some (ascii ''image/webp''),
            pm_scan_status = scan_status_of (truncated \<or> details_partial),
            pm_error = (if truncated then Some (ascii ''truncated WebP chunk'') else None),
            pm_streams = [default_stream\<lparr>ms_stream_type := ascii ''image'', ms_codec := Some (wp_codec st),
              ms_width := wp_width st, ms_height := wp_height st, ms_details_json := Some details_json\<rparr>],
            pm_features = [default_feature\<lparr>mf_standard := Some (ascii ''webp''),
              mf_coding_mode := Some (if wp_lossless st then ascii ''vp8l'' else ascii ''vp8''),
              mf_lossless := Some (i64_bool (wp_lossless st)), mf_alpha := Some (i64_bool (wp_alpha st)),
              mf_animation := Some (i64_bool (wp_animation st)), mf_confidence := Some (ascii ''exact''),
              mf_features_json := Some (to_json (v_obj [(''codec'', VStr (wp_codec st)),
                (''lossless'', VBool (wp_lossless st)), (''alpha'', VBool (wp_alpha st)),
                (''animation'', VBool (wp_animation st))]))\<rparr>]\<rparr>)
       (webp_loop data 12 webp_start)"

section \<open>JPEG 2000\<close>

record j2k_state =
  jk_width :: "i64 option"
  jk_height :: "i64 option"
  jk_components :: "i64 option"
  jk_bit_depth :: "i64 option"
  jk_progression_order :: "str option"
  jk_transform :: "str option"

definition j2k_start :: j2k_state where
  "j2k_start = \<lparr>jk_width = None, jk_height = None, jk_components = None, jk_bit_depth = None,
     jk_progression_order = None, jk_transform = None\<rparr>"

definition saturating_sub_u32 :: "u32 \<Rightarrow> u32 \<Rightarrow> u32" where
  "saturating_sub_u32 a b = (if a < b then 0 else a - b)"

definition j2k_progression :: "u8 \<Rightarrow> str" where
  "j2k_progression b =
     (if b = 0 then ascii ''LRCP'' else if b = 1 then ascii ''RLCP'' else if b = 2 then ascii ''RPCL''
      else if b = 3 then ascii ''PCRL'' else if b = 4 then ascii ''CPRL'' else ascii ''unknown'')"

definition j2k_transform :: "u8 \<Rightarrow> str" where
  "j2k_transform b =
     (if b = 0 then ascii ''9/7 irreversible'' else if b = 1 then ascii ''5/3 reversible'' else ascii ''unknown'')"

definition j2k_segment :: "u8 \<Rightarrow> bytes \<Rightarrow> j2k_state \<Rightarrow> j2k_state option" where
  "j2k_segment marker seg st =
     (if marker = 0x51 \<and> length seg \<ge> 36 then do {
        xsiz \<leftarrow> be32_at seg 2; ysiz \<leftarrow> be32_at seg 6; xosiz \<leftarrow> be32_at seg 10; yosiz \<leftarrow> be32_at seg 14;
        comps \<leftarrow> be16_at seg 34;
        let st1 = st\<lparr>jk_width := Some (ucast (saturating_sub_u32 xsiz xosiz)),
              jk_height := Some (ucast (saturating_sub_u32 ysiz yosiz)), jk_components := Some (ucast comps)\<rparr> in
        Some (if length seg \<ge> 37 then st1\<lparr>jk_bit_depth := Some (ucast ((seg ! 36 AND 0x7f) + 1))\<rparr> else st1) }
      else if marker = 0x52 \<and> length seg \<ge> 10 then
        Some (st\<lparr>jk_progression_order := Some (j2k_progression (seg ! 1)),
                 jk_transform := Some (j2k_transform (seg ! 9))\<rparr>)
      else Some st)"

function j2k_loop :: "bytes \<Rightarrow> nat \<Rightarrow> j2k_state \<Rightarrow> j2k_state option" where
  "j2k_loop data pos st =
     (if pos + 4 \<le> length data then
        if data ! pos \<noteq> 0xff then j2k_loop data (pos + 1) st
        else let marker = data ! (pos + 1); p = pos + 2 in
          if marker = 0x90 \<or> marker = 0xd9 then Some st
          else (case be16_opt data p of
              None \<Rightarrow> Some st
            | Some v \<Rightarrow>
                let len = unat v in
                if len < 2 \<or> p + len > length data then Some st
                else do {
                  seg \<leftarrow> subslice data (p + 2) (p + len);
                  st1 \<leftarrow> j2k_segment marker seg st;
                  j2k_loop data (p + len) st1 })
      else Some st)"
  by pat_completeness auto
termination
  by (relation "measure (\<lambda>(data, pos, _). length data - pos)") auto

declare j2k_loop.simps [simp del]

definition parse_j2k_codestream :: "bytes \<Rightarrow> j2k_state \<Rightarrow> j2k_state option" where
  "parse_j2k_codestream data st = j2k_loop data (if starts_with data [0xff, 0x4f] then 2 else 0) st"

definition jp2_header_box :: "bytes \<Rightarrow> box_header \<Rightarrow> j2k_state \<Rightarrow> j2k_state option" where
  "jp2_header_box data inner st =
     (if bx_typ inner = ascii_bytes ''ihdr'' then do {
        chunk \<leftarrow> subslice data (bx_data_start inner) (bx_stop inner);
        if length chunk \<ge> 14 then do {
          h \<leftarrow> be32_at chunk 0; w \<leftarrow> be32_at chunk 4; comps \<leftarrow> be16_at chunk 8;
          let bpc = chunk ! 10;
              st1 = st\<lparr>jk_height := Some (ucast h), jk_width := Some (ucast w), jk_components := Some (ucast comps)\<rparr> in
          Some (if bpc \<noteq> 0xff then st1\<lparr>jk_bit_depth := Some (ucast ((bpc AND 0x7f) + 1))\<rparr> else st1) }
        else Some st }
      else Some st)"

definition jp2_box :: "bytes \<Rightarrow> box_header \<Rightarrow> j2k_state \<Rightarrow> j2k_state option" where
  "jp2_box data header st = do {
     st1 \<leftarrow> (if bx_typ header = ascii_bytes ''jp2h''
             then fold_boxes (jp2_header_box data) data (bx_data_start header) (bx_stop header) st else Some st);
     if bx_typ header = ascii_bytes ''jp2c'' then do {
       codestream \<leftarrow> subslice data (bx_data_start header) (bx_stop header);
       parse_j2k_codestream codestream st1 }
     else Some st1 }"

definition parse_jpeg2000 :: "(jvalue \<Rightarrow> str) \<Rightarrow> bytes \<Rightarrow> parsed_media option" where
  "parse_jpeg2000 to_json data =
     map_option (\<lambda>st.
       let details = (if is_jp2 data then v_obj [(''container'', VStr (ascii ''jp2''))]
                      else v_obj [(''container'', VStr (ascii ''codestream''))]);
           (details_json, details_partial) = json_limited to_json details
       in \<lparr>pm_media_kind = ascii ''image'', pm_container = ascii ''jpeg2000'',
            pm_detected_format = (if is_jp2 data then ascii ''jp2'' else ascii ''j2k''),
            pm_mime = Some (if is_jp2 data then ascii ''image/jp2'' else ascii ''image/j2k''),
            pm_scan_status = scan_status_of details_partial, pm_error = None,
            pm_streams = [default_stream\<lparr>ms_stream_type := ascii ''image'', ms_codec := Some (ascii ''jpeg2000''),
              ms_width := jk_width st, ms_height := jk_height st, ms_bit_depth := jk_bit_depth st,
              ms_details_json := Some details_json\<rparr>],
            pm_features = [default_feature\<lparr>mf_standard := Some (ascii ''jpeg2000''),
              mf_coding_mode := Some (ascii ''wavelet''), mf_transform := jk_transform st, mf_lossless := None,
              mf_confidence := Some (ascii ''header''),
              mf_features_json := Some (to_json (v_obj [(''components'', v_opt v_i64 (jk_components st)),
                (''progression_order'', v_opt VStr (jk_progression_order st))]))\<rparr>]\<rparr>)
       (if is_jp2 data then fold_boxes (jp2_box data) data 0 (length data) j2k_start
        else parse_j2k_codestream data j2k_start)"

section \<open>JPEG XL\<close>

definition parse_jpeg_xl :: "(jvalue \<Rightarrow> str) \<Rightarrow> bytes \<Rightarrow> parsed_media" where
  "parse_jpeg_xl to_json data =
     (let details = v_obj [(''container'', VBool (jxl_container data)),
            (''codestream_magic'', VBool (starts_with data [0xff, 0x0a]))];
          (details_json, details_partial) = json_limited to_json details
      in \<lparr>pm_media_kind = ascii ''image'', pm_container = ascii ''jpegxl'', pm_detected_format = ascii ''jxl'',
           pm_mime = Some (ascii ''image/jxl''), pm_scan_status = scan_status_of details_partial, pm_error = None,
           pm_streams = [default_stream\<lparr>ms_stream_type := ascii ''image'', ms_codec := Some (ascii ''jpegxl''),
             ms_details_json := Some details_json\<rparr>],
           pm_features = [default_feature\<lparr>mf_standard := Some (ascii ''jpegxl''),
             mf_confidence := Some (ascii ''header''),
             mf_features_json := Some (to_json (v_obj [(''container'', VBool (jxl_container data))]))\<rparr>]\<rparr>)"

section \<open>SVG\<close>

text \<open>The offsets found by \<open>find\<close> cut the text at a match of ASCII characters, so at a boundary.\<close>

definition svg_attr_in :: "str \<Rightarrow> str \<Rightarrow> nat \<Rightarrow> i64 option" where
  "svg_attr_in text_value attr quote =
     (let needle = attr @ [0x3D, quote] in
      case find_sub text_value needle of
        None \<Rightarrow> None
      | Some start \<Rightarrow>
          let v = takeWhile (\<lambda>c. c \<noteq> quote) (drop (start + length needle) text_value);
              numeric = takeWhile (\<lambda>c. is_ascii_digit c \<or> c = 0x2E) v
          in map_option (\<lambda>x. word_of_int (f64_round_i64 x)) (f64_parse numeric))"

definition svg_dimension_attr :: "str \<Rightarrow> str \<Rightarrow> i64 option" where
  "svg_dimension_attr text_value attr =
     (case svg_attr_in text_value attr 0x22 of Some v \<Rightarrow> Some v | None \<Rightarrow> svg_attr_in text_value attr 0x27)"

definition parse_svg :: "(jvalue \<Rightarrow> str) \<Rightarrow> bytes \<Rightarrow> parsed_media" where
  "parse_svg to_json data =
     (let text_value = utf8_lossy (take (min (length data) 4096) data);
          width = svg_dimension_attr text_value (ascii ''width'');
          height = svg_dimension_attr text_value (ascii ''height'');
          details = v_obj [(''root'', VStr (ascii ''svg'')), (''width_attr'', v_opt v_i64 width),
            (''height_attr'', v_opt v_i64 height)];
          (details_json, details_partial) = json_limited to_json details
      in \<lparr>pm_media_kind = ascii ''image_vector'', pm_container = ascii ''svg'', pm_detected_format = ascii ''svg'',
           pm_mime = Some (ascii ''image/svg+xml''), pm_scan_status = scan_status_of details_partial, pm_error = None,
           pm_streams = [default_stream\<lparr>ms_stream_type := ascii ''image'', ms_codec := Some (ascii ''svg''),
             ms_width := width, ms_height := height, ms_details_json := Some details_json\<rparr>],
           pm_features = [default_feature\<lparr>mf_standard := Some (ascii ''svg''),
             mf_coding_mode := Some (ascii ''xml_vector''), mf_lossless := Some 1,
             mf_confidence := Some (ascii ''header''),
             mf_features_json := Some (ascii ''{\"root\":\"svg\"}'')\<rparr>]\<rparr>)"

end
