(* ===== verification/Media_Iso.thy ===== *)
theory Media_Iso imports Media_Pictures begin

text \<open>
  The parser of ISO base media files (\<open>media_info.rs\<close>): the movie box with its tracks, sample entries
  and elementary stream descriptors, found in the head of the file or in a window at its end.

  A payload \<open>&data[header.data_start..header.end]\<close> is \<open>box_payload\<close>, which panics when the box does not
  lie in the buffer. \<open>from_json\<close> stands for the JSON reader of \<open>serde_json\<close>.
\<close>

definition box_payload :: "bytes \<Rightarrow> box_header \<Rightarrow> bytes option" where
  "box_payload data h = subslice data (bx_data_start h) (bx_stop h)"

section \<open>Records\<close>

record iso_sample_entry =
  se_tag :: str
  se_codec :: str
  se_width :: "i64 option"
  se_height :: "i64 option"
  se_channels :: "i64 option"
  se_sample_rate :: "i64 option"
  se_bit_depth :: "i64 option"
  se_bitrate :: "i64 option"
  se_pixel_format :: "str option"
  se_chroma_subsampling :: "str option"
  se_color_primaries :: "str option"
  se_transfer_characteristics :: "str option"
  se_matrix_coefficients :: "str option"
  se_profile :: "str option"
  se_level :: "str option"
  se_details :: jvalue

record iso_track_meta =
  tm_handler :: "str option"
  tm_timescale :: "u64 option"
  tm_duration :: "u64 option"
  tm_width :: "i64 option"
  tm_height :: "i64 option"
  tm_rotation_degrees :: "i64 option"
  tm_sample_count :: "i64 option"
  tm_sample_delta :: "u64 option"
  tm_sample_entries :: "iso_sample_entry list"

record iso_track_output =
  to_stream_type :: str
  to_stream :: media_stream
  to_feature :: "media_feature option"

record movie_meta =
  mv_timescale :: "i64 option"
  mv_duration_ms :: "i64 option"
  mv_tracks :: "iso_track_output list"

record tail_probe =
  tp_offset :: u64
  tp_data :: bytes

definition default_track_meta :: iso_track_meta where
  "default_track_meta = \<lparr>tm_handler = None, tm_timescale = None, tm_duration = None, tm_width = None,
     tm_height = None, tm_rotation_degrees = None, tm_sample_count = None, tm_sample_delta = None,
     tm_sample_entries = []\<rparr>"

definition default_movie :: movie_meta where
  "default_movie = \<lparr>mv_timescale = None, mv_duration_ms = None, mv_tracks = []\<rparr>"

section \<open>Elementary stream descriptors\<close>

record esds_info =
  es_codec :: "str option"
  es_profile :: "str option"
  es_object_type :: "u8 option"
  es_stream_type :: "u8 option"
  es_max_bitrate :: "u32 option"
  es_avg_bitrate :: "u32 option"
  es_audio_object_type :: "u8 option"
  es_sample_rate :: "u32 option"
  es_channels :: "u8 option"
  es_details :: jvalue

definition default_esds :: esds_info where
  "default_esds = \<lparr>es_codec = None, es_profile = None, es_object_type = None, es_stream_type = None,
     es_max_bitrate = None, es_avg_bitrate = None, es_audio_object_type = None, es_sample_rate = None,
     es_channels = None, es_details = VNull\<rparr>"

text \<open>A length of up to four bytes with seven bits each; the value and the number of bytes.\<close>

fun descriptor_len_loop :: "nat \<Rightarrow> nat \<Rightarrow> nat \<Rightarrow> bytes \<Rightarrow> (nat \<times> nat) option" where
  "descriptor_len_loop 0 index v data = None"
| "descriptor_len_loop (Suc n) index v [] = None"
| "descriptor_len_loop (Suc n) index v (b # data) =
     (let v1 = push_bit 7 v OR unat (b AND 0x7f) in
      if b AND 0x80 = 0 then Some (v1, index + 1) else descriptor_len_loop n (index + 1) v1 data)"

definition read_descriptor_len :: "bytes \<Rightarrow> (nat \<times> nat) option" where
  "read_descriptor_len data = descriptor_len_loop 4 0 0 data"

fun bits_loop :: "bytes \<Rightarrow> nat \<Rightarrow> nat \<Rightarrow> u32 \<Rightarrow> u32 option" where
  "bits_loop data pos 0 v = Some v"
| "bits_loop data pos (Suc n) v = do {
     b \<leftarrow> idx data (pos div 8);
     bits_loop data (pos + 1) n (push_bit 1 v OR ucast (drop_bit (7 - pos mod 8) b AND 1)) }"

text \<open>\<open>read_bits\<close> advances \<open>bit_pos\<close> on success only; the result is the value and the new position.\<close>

definition read_bits :: "bytes \<Rightarrow> nat \<Rightarrow> nat \<Rightarrow> (u32 \<times> nat) option option" where
  "read_bits data bit_pos bits =
     (if bits > 32 \<or> bit_pos + bits > length data * 8 then Some None
      else map_option (\<lambda>v. Some (v, bit_pos + bits)) (bits_loop data bit_pos bits 0))"

definition aac_sample_rate :: "u8 \<Rightarrow> u32 option" where
  "aac_sample_rate i =
     (if unat i < 13
      then Some ([96000, 88200, 64000, 48000, 44100, 32000, 24000, 22050, 16000, 12000, 11025, 8000, 7350] ! unat i)
      else None)"

text \<open>The first \<open>?\<close>-like reads return without touching \<open>info\<close>.\<close>

definition audio_object_type_at :: "bytes \<Rightarrow> (u32 \<times> nat) option option" where
  "audio_object_type_at data = do {
     r \<leftarrow> read_bits data 0 5;
     case r of
       None \<Rightarrow> Some None
     | Some (t, p) \<Rightarrow>
         if t = 31 then do {
           e \<leftarrow> read_bits data p 6;
           Some (map_option (\<lambda>(ext, p'). (32 + ext, p')) e) }
         else Some (Some (t, p)) }"

definition parse_audio_specific_config :: "bytes \<Rightarrow> esds_info \<Rightarrow> esds_info option" where
  "parse_audio_specific_config data info = do {
     r \<leftarrow> audio_object_type_at data;
     case r of
       None \<Rightarrow> Some info
     | Some (object_type, p) \<Rightarrow> do {
         f \<leftarrow> read_bits data p 4;
         case f of
           None \<Rightarrow> Some info
         | Some (freq_index, p1) \<Rightarrow> do {
             rate \<leftarrow> (if freq_index = 15 then read_bits data p1 24
                     else Some (map_option (\<lambda>x. (x, p1)) (aac_sample_rate (ucast freq_index))));
             c \<leftarrow> read_bits data (case rate of Some (_, p2) \<Rightarrow> p2 | None \<Rightarrow> p1) 4;
             Some (info\<lparr>es_audio_object_type := Some (ucast object_type), es_sample_rate := map_option fst rate,
                        es_channels := map_option (\<lambda>(v, _). ucast v) c\<rparr>) } } }"

definition es_nested :: "bytes \<Rightarrow> nat" where
  "es_nested payload =
     (if length payload \<ge> 3 then
        let flags = payload ! 2;
            n1 = (if flags AND 0x80 \<noteq> 0 then 3 + 2 else 3);
            n2 = (if flags AND 0x40 \<noteq> 0 \<and> n1 < length payload then n1 + (1 + unat (payload ! n1)) else n1)
        in if flags AND 0x20 \<noteq> 0 then n2 + 2 else n2
      else 3)"

function parse_es_descriptors :: "bytes \<Rightarrow> nat \<Rightarrow> esds_info \<Rightarrow> esds_info option" where
  "parse_es_descriptors data depth info =
     (if depth \<ge> 8 then Some info
      else if length data < 2 then Some info
      else case read_descriptor_len (drop 1 data) of
        None \<Rightarrow> Some info
      | Some (len, len_bytes) \<Rightarrow>
          let header_len = 1 + len_bytes in
          if header_len + len > length data then Some info
          else
            let payload = take len (drop header_len data); tag = data ! 0 in
            do {
              info1 \<leftarrow>
                (if tag = 0x03 then
                   if es_nested payload < length payload
                   then parse_es_descriptors (drop (es_nested payload) payload) (depth + 1) info
                   else Some info
                 else if tag = 0x04 then
                   if length payload \<ge> 13 then do {
                     mx \<leftarrow> be32_at payload 5; avg \<leftarrow> be32_at payload 9;
                     parse_es_descriptors (drop 13 payload) (depth + 1)
                       (info\<lparr>es_object_type := Some (payload ! 0), es_stream_type := Some (drop_bit 2 (payload ! 1)),
                          es_max_bitrate := Some mx, es_avg_bitrate := Some avg\<rparr>) }
                   else Some info
                 else if tag = 0x05 then parse_audio_specific_config payload info
                 else Some info);
              parse_es_descriptors (drop (header_len + len) data) depth info1 })"
  by pat_completeness auto
termination
  by (relation "measures [\<lambda>(_, depth, _). 8 - depth, \<lambda>(data, _, _). length data]") auto

declare parse_es_descriptors.simps [simp del]

definition codec_from_object_type :: "u8 \<Rightarrow> str option" where
  "codec_from_object_type t =
     (if t = 0x20 then Some (ascii ''mpeg4-video'') else if t = 0x21 then Some (ascii ''h264'')
      else if t = 0x23 then Some (ascii ''h265'')
      else if t \<in> {0x40, 0x66, 0x67, 0x68} then Some (ascii ''aac'')
      else if t \<in> {0x69, 0x6b} then Some (ascii ''mp3'') else if t = 0x6c then Some (ascii ''jpeg'')
      else if t = 0xa3 then Some (ascii ''vc1'') else None)"

definition aac_profile :: "u32 \<Rightarrow> str" where
  "aac_profile t =
     (if t = 1 then ascii ''aac-main'' else if t = 2 then ascii ''aac-lc'' else if t = 3 then ascii ''aac-ssr''
      else if t = 4 then ascii ''aac-ltp'' else if t = 5 then ascii ''he-aac'' else if t = 23 then ascii ''aac-ld''
      else if t = 29 then ascii ''he-aac-v2'' else if t = 39 then ascii ''aac-eld'' else ascii ''aac'')"

definition parse_esds :: "bytes \<Rightarrow> esds_info option" where
  "parse_esds payload =
     map_option (\<lambda>info0.
       let info1 = info0\<lparr>es_codec := Option.bind (es_object_type info0) codec_from_object_type\<rparr>;
           info = (if es_codec info1 = Some (ascii ''aac'')
              then info1\<lparr>es_profile := Some (case es_audio_object_type info1 of
                     Some t \<Rightarrow> aac_profile (ucast t) | None \<Rightarrow> ascii ''aac'')\<rparr>
              else info1)
       in info\<lparr>es_details := v_obj [(''box'', VStr (ascii ''esds'')),
            (''object_type_indication'', v_opt v_uint (es_object_type info)),
            (''stream_type'', v_opt v_uint (es_stream_type info)), (''codec'', v_opt VStr (es_codec info)),
            (''profile'', v_opt VStr (es_profile info)), (''max_bitrate'', v_opt v_uint (es_max_bitrate info)),
            (''avg_bitrate'', v_opt v_uint (es_avg_bitrate info)),
            (''audio_object_type'', v_opt v_uint (es_audio_object_type info)),
            (''sample_rate'', v_opt v_uint (es_sample_rate info)), (''channels'', v_opt v_uint (es_channels info))]\<rparr>)
       (parse_es_descriptors (if length payload \<ge> 4 then drop 4 payload else payload) 0 default_esds)"

section \<open>Colour\<close>

record color_info =
  co_primaries :: "str option"
  co_transfer :: "str option"
  co_matrix :: "str option"
  co_details :: jvalue

definition color_primaries_name :: "u16 \<Rightarrow> str" where
  "color_primaries_name v =
     (if v = 1 then ascii ''bt709'' else if v = 4 then ascii ''bt470m'' else if v = 5 then ascii ''bt470bg''
      else if v = 6 then ascii ''smpte170m'' else if v = 9 then ascii ''bt2020''
      else if v = 12 then ascii ''display-p3'' else ascii ''unknown'')"

definition transfer_characteristics_name :: "u16 \<Rightarrow> str" where
  "transfer_characteristics_name v =
     (if v = 1 then ascii ''bt709'' else if v = 6 then ascii ''smpte170m'' else if v = 13 then ascii ''srgb''
      else if v = 16 then ascii ''pq'' else if v = 18 then ascii ''hlg'' else ascii ''unknown'')"

definition matrix_coefficients_name :: "u16 \<Rightarrow> str" where
  "matrix_coefficients_name v =
     (if v = 0 then ascii ''rgb'' else if v = 1 then ascii ''bt709'' else if v = 5 then ascii ''bt470bg''
      else if v = 6 then ascii ''smpte170m'' else if v = 9 then ascii ''bt2020_ncl''
      else if v = 10 then ascii ''bt2020_cl'' else ascii ''unknown'')"

definition parse_colr :: "bytes \<Rightarrow> color_info option" where
  "parse_colr payload =
     (let color_type = (if length payload \<ge> 4 then Some (fourcc (take 4 payload)) else None);
          make = (\<lambda>p t m r. \<lparr>co_primaries = p, co_transfer = t, co_matrix = m,
            co_details = v_obj [(''box'', VStr (ascii ''colr'')), (''color_type'', v_opt VStr color_type),
              (''color_primaries'', v_opt VStr p), (''transfer_characteristics'', v_opt VStr t),
              (''matrix_coefficients'', v_opt VStr m), (''full_range'', v_opt VBool r)]\<rparr>)
      in if (color_type = Some (ascii ''nclx'') \<or> color_type = Some (ascii ''nclc'')) \<and> length payload \<ge> 10 then do {
           p \<leftarrow> be16_at payload 4; t \<leftarrow> be16_at payload 6; m \<leftarrow> be16_at payload 8;
           Some (make (Some (color_primaries_name p)) (Some (transfer_characteristics_name t))
             (Some (matrix_coefficients_name m))
             (if color_type = Some (ascii ''nclx'') \<and> length payload \<ge> 11
              then Some (payload ! 10 AND 0x80 \<noteq> 0) else None)) }
         else Some (make None None None None))"

section \<open>Sample entries\<close>

definition hevc_chroma_subsampling :: "u8 \<Rightarrow> str option" where
  "hevc_chroma_subsampling v =
     (if v = 0 then Some (ascii ''monochrome'') else if v = 1 then Some (ascii ''4:2:0'')
      else if v = 2 then Some (ascii ''4:2:2'') else if v = 3 then Some (ascii ''4:4:4'') else None)"

definition is_video_sample_entry :: "str \<Rightarrow> bool" where
  "is_video_sample_entry tag = (tag \<in> set (map ascii
     [''avc1'', ''avc3'', ''hvc1'', ''hev1'', ''av01'', ''mp4v'', ''jpeg'', ''mjpg'', ''png '', ''jxlc'']))"

definition is_audio_sample_entry :: "str \<Rightarrow> bool" where
  "is_audio_sample_entry tag = (tag \<in> set (map ascii
     [''mp4a'', ''alac'', ''Opus'', ''fLaC'', ''samr'', ''sawb'', ''enca'']))"

definition codec_from_sample_entry :: "str \<Rightarrow> str" where
  "codec_from_sample_entry tag =
     (case map_of (map (\<lambda>(k, v). (ascii k, ascii v))
        [(''avc1'', ''h264''), (''avc3'', ''h264''), (''hvc1'', ''h265''), (''hev1'', ''h265''), (''av01'', ''av1''),
         (''mp4a'', ''aac''), (''alac'', ''alac''), (''mp4v'', ''mpeg4-video''), (''jpeg'', ''jpeg''),
         (''mjpg'', ''jpeg''), (''png '', ''png''), (''jxlc'', ''jpegxl''), (''Opus'', ''opus''), (''fLaC'', ''flac'')]) tag of
        Some codec \<Rightarrow> codec | None \<Rightarrow> tag)"

definition av1_chroma :: "u8 \<Rightarrow> str" where
  "av1_chroma b =
     (if b AND 0x10 \<noteq> 0 then ascii ''monochrome''
      else if b AND 0x08 \<noteq> 0 then (if b AND 0x04 \<noteq> 0 then ascii ''4:2:0'' else ascii ''4:2:2'')
      else (if b AND 0x04 \<noteq> 0 then ascii ''4:4:0'' else ascii ''4:4:4''))"

type_synonym entry_state = "iso_sample_entry \<times> jvalue list"

definition avcc_box :: "bytes \<Rightarrow> str \<Rightarrow> entry_state \<Rightarrow> entry_state" where
  "avcc_box p typ st =
     (let (e, ds) = st in
      (e\<lparr>se_profile := Some (nat_digits (unat (p ! 1))), se_level := Some (nat_digits (unat (p ! 3)))\<rparr>,
       ds @ [v_obj [(''box'', VStr typ), (''configuration_version'', v_uint (p ! 0)),
         (''avc_profile_indication'', v_uint (p ! 1)), (''profile_compatibility'', v_uint (p ! 2)),
         (''avc_level_indication'', v_uint (p ! 3))]]))"

definition hvcc_box :: "bytes \<Rightarrow> str \<Rightarrow> entry_state \<Rightarrow> entry_state" where
  "hvcc_box p typ st =
     (let (e, ds) = st;
          e1 = e\<lparr>se_profile := Some (nat_digits (unat (p ! 1 AND 0x1f))), se_level := Some (nat_digits (unat (p ! 12)))\<rparr>;
          e2 = (if length p \<ge> 22
                then e1\<lparr>se_chroma_subsampling := hevc_chroma_subsampling (p ! 16 AND 0x03),
                        se_bit_depth := Some (ucast ((p ! 17 AND 0x07) + 8))\<rparr> else e1)
      in (e2, ds @ [v_obj [(''box'', VStr typ), (''general_profile_space'', v_uint (drop_bit 6 (p ! 1))),
           (''general_tier_flag'', v_uint (drop_bit 5 (p ! 1) AND 1)),
           (''general_profile_idc'', v_uint (p ! 1 AND 0x1f)), (''general_level_idc'', v_uint (p ! 12)),
           (''chroma_subsampling'', v_opt VStr (se_chroma_subsampling e2)),
           (''bit_depth'', v_opt v_i64 (se_bit_depth e2))]]))"

definition av1c_box :: "bytes \<Rightarrow> str \<Rightarrow> entry_state \<Rightarrow> entry_state" where
  "av1c_box p typ st =
     (let (e, ds) = st;
          e1 = e\<lparr>se_profile := Some (nat_digits (unat (drop_bit 5 (p ! 1 AND 0xe0)))),
                 se_level := Some (nat_digits (unat (p ! 1 AND 0x1f))),
                 se_bit_depth := Some (if p ! 2 AND 0x20 \<noteq> 0 then 12 else if p ! 2 AND 0x40 \<noteq> 0 then 10 else 8),
                 se_chroma_subsampling := Some (av1_chroma (p ! 2))\<rparr>
      in (e1, ds @ [v_obj [(''box'', VStr typ), (''seq_profile'', v_uint (drop_bit 5 (p ! 1 AND 0xe0))),
           (''seq_level_idx_0'', v_uint (p ! 1 AND 0x1f)), (''high_bitdepth'', VBool (p ! 2 AND 0x40 \<noteq> 0)),
           (''twelve_bit'', VBool (p ! 2 AND 0x20 \<noteq> 0)), (''monochrome'', VBool (p ! 2 AND 0x10 \<noteq> 0)),
           (''chroma_subsampling_x'', VBool (p ! 2 AND 0x08 \<noteq> 0)),
           (''chroma_subsampling_y'', VBool (p ! 2 AND 0x04 \<noteq> 0)),
           (''chroma_subsampling'', v_opt VStr (se_chroma_subsampling e1))]]))"

definition esds_box :: "bytes \<Rightarrow> entry_state \<Rightarrow> entry_state option" where
  "esds_box p st =
     map_option (\<lambda>esds.
       let (e, ds) = st;
           e1 = (case es_codec esds of Some c \<Rightarrow> e\<lparr>se_codec := c\<rparr> | None \<Rightarrow> e);
           e2 = (if se_profile e1 = None then e1\<lparr>se_profile := es_profile esds\<rparr> else e1);
           e3 = (if se_sample_rate e2 = None \<or> se_sample_rate e2 = Some 0
                 then e2\<lparr>se_sample_rate := map_option ucast (es_sample_rate esds)\<rparr> else e2);
           e4 = (if se_channels e3 = None \<or> se_channels e3 = Some 0
                 then e3\<lparr>se_channels := map_option ucast (es_channels esds)\<rparr> else e3);
           e5 = e4\<lparr>se_bitrate := map_option ucast
                 (case es_avg_bitrate esds of Some b \<Rightarrow> Some b | None \<Rightarrow> es_max_bitrate esds)\<rparr>
       in (e5, ds @ [es_details esds]))
       (parse_esds p)"

definition colr_box :: "bytes \<Rightarrow> entry_state \<Rightarrow> entry_state option" where
  "colr_box p st =
     map_option (\<lambda>color.
       let (e, ds) = st in
       (e\<lparr>se_color_primaries := co_primaries color, se_transfer_characteristics := co_transfer color,
          se_matrix_coefficients := co_matrix color\<rparr>, ds @ [co_details color]))
       (parse_colr p)"

definition be32_details :: "bytes \<Rightarrow> str \<Rightarrow> string list \<Rightarrow> jvalue option" where
  "be32_details p typ names =
     map_option (\<lambda>vs. VObj ((ascii ''box'', VStr typ) # zip (map ascii names) (map v_uint vs)))
       (those (map (\<lambda>i. be32_at p (4 * i)) [0..<length names]))"

definition sample_entry_box :: "bytes \<Rightarrow> box_header \<Rightarrow> entry_state \<Rightarrow> entry_state option" where
  "sample_entry_box entry header st = do {
     p \<leftarrow> box_payload entry header;
     let typ = fourcc (bx_typ header);
         push = (\<lambda>d. (fst st, snd st @ [d]));
         other = Some (push (v_obj [(''box'', VStr typ), (''size'', v_nat (bx_size header))])) in
     if typ = ascii ''avcC'' \<and> length p \<ge> 4 then Some (avcc_box p typ st)
     else if typ = ascii ''hvcC'' \<and> length p \<ge> 13 then Some (hvcc_box p typ st)
     else if typ = ascii ''av1C'' \<and> length p \<ge> 4 then Some (av1c_box p typ st)
     else if typ = ascii ''esds'' then esds_box p st
     else if typ = ascii ''colr'' then colr_box p st
     else if typ = ascii ''pasp'' \<and> length p \<ge> 8
     then map_option push (be32_details p typ [''h_spacing'', ''v_spacing''])
     else if typ = ascii ''clap'' \<and> length p \<ge> 32
     then map_option push (be32_details p typ [''clean_aperture_width_n'', ''clean_aperture_width_d'',
        ''clean_aperture_height_n'', ''clean_aperture_height_d'', ''horiz_offset_n'', ''horiz_offset_d'',
        ''vert_offset_n'', ''vert_offset_d''])
     else other }"

definition new_sample_entry :: "str \<Rightarrow> iso_sample_entry" where
  "new_sample_entry tag = \<lparr>se_tag = tag, se_codec = codec_from_sample_entry tag, se_width = None, se_height = None,
     se_channels = None, se_sample_rate = None, se_bit_depth = None, se_bitrate = None, se_pixel_format = None,
     se_chroma_subsampling = None, se_color_primaries = None, se_transfer_characteristics = None,
     se_matrix_coefficients = None, se_profile = None, se_level = None, se_details = VNull\<rparr>"

text \<open>The fixed part of an entry; the result is the offset of the boxes nested in it.\<close>

definition sample_entry_fields :: "str \<Rightarrow> bytes \<Rightarrow> iso_sample_entry \<Rightarrow> (nat \<times> iso_sample_entry) option" where
  "sample_entry_fields tag entry e =
     (if is_video_sample_entry tag then do {
        e1 \<leftarrow> (if length entry \<ge> 78 then do {
                w \<leftarrow> be16_at entry 32; h \<leftarrow> be16_at entry 34;
                Some (e\<lparr>se_width := Some (ucast w), se_height := Some (ucast h)\<rparr>) } else Some e);
        Some (min 86 (length entry), e1) }
      else if is_audio_sample_entry tag then do {
        e1 \<leftarrow> (if length entry \<ge> 36 then do {
                c \<leftarrow> be16_at entry 24; d \<leftarrow> be16_at entry 26; r \<leftarrow> be32_at entry 32;
                Some (e\<lparr>se_channels := Some (ucast c), se_bit_depth := Some (ucast d),
                       se_sample_rate := Some (ucast (drop_bit 16 r))\<rparr>) } else Some e);
        Some (min 36 (length entry), e1) }
      else Some (min 8 (length entry), e))"

definition sample_entry_details :: "iso_sample_entry \<Rightarrow> jvalue list \<Rightarrow> jvalue" where
  "sample_entry_details e ds =
     v_obj [(''tag'', VStr (se_tag e)), (''width'', v_opt v_i64 (se_width e)), (''height'', v_opt v_i64 (se_height e)),
       (''channels'', v_opt v_i64 (se_channels e)), (''sample_rate'', v_opt v_i64 (se_sample_rate e)),
       (''bit_depth'', v_opt v_i64 (se_bit_depth e)), (''bitrate'', v_opt v_i64 (se_bitrate e)),
       (''pixel_format'', v_opt VStr (se_pixel_format e)),
       (''chroma_subsampling'', v_opt VStr (se_chroma_subsampling e)),
       (''color_primaries'', v_opt VStr (se_color_primaries e)),
       (''transfer_characteristics'', v_opt VStr (se_transfer_characteristics e)),
       (''matrix_coefficients'', v_opt VStr (se_matrix_coefficients e)), (''boxes'', VArr ds)]"

definition parse_sample_entry :: "str \<Rightarrow> bytes \<Rightarrow> iso_sample_entry option" where
  "parse_sample_entry tag entry = do {
     (nested_offset, e) \<leftarrow> sample_entry_fields tag entry (new_sample_entry tag);
     (e1, ds) \<leftarrow> fold_boxes (sample_entry_box entry) entry nested_offset (length entry) (e, []);
     Some (e1\<lparr>se_details := sample_entry_details e1 ds\<rparr>) }"

fun stsd_loop :: "bytes \<Rightarrow> nat \<Rightarrow> nat \<Rightarrow> iso_track_meta \<Rightarrow> iso_track_meta option" where
  "stsd_loop payload 0 pos meta = Some meta"
| "stsd_loop payload (Suc n) pos meta =
     (if pos + 8 > length payload then Some meta
      else do {
        size32 \<leftarrow> be32_at payload pos;
        let size = unat size32 in
        if size < 8 \<or> pos + size > length payload then Some meta
        else do {
          tag \<leftarrow> subslice payload (pos + 4) (pos + 8);
          entry \<leftarrow> subslice payload pos (pos + size);
          e \<leftarrow> parse_sample_entry (fourcc tag) entry;
          stsd_loop payload n (pos + size) (meta\<lparr>tm_sample_entries := tm_sample_entries meta @ [e]\<rparr>) } })"

definition parse_stsd :: "bytes \<Rightarrow> iso_track_meta \<Rightarrow> iso_track_meta option" where
  "parse_stsd payload meta =
     (if length payload < 8 then Some meta
      else do { count \<leftarrow> be32_at payload 4; stsd_loop payload (unat count) 8 meta })"

section \<open>Tables and headers of a track\<close>

definition parse_stts :: "bytes \<Rightarrow> iso_track_meta \<Rightarrow> iso_track_meta option" where
  "parse_stts payload meta =
     (if length payload < 16 then Some meta
      else do {
        entry_count \<leftarrow> be32_at payload 4;
        if entry_count = 0 then Some meta
        else do {
          sample_count \<leftarrow> be32_at payload 8; sample_delta \<leftarrow> be32_at payload 12;
          Some (meta\<lparr>tm_sample_count := Some (ucast sample_count), tm_sample_delta := Some (ucast sample_delta)\<rparr>) } })"

definition parse_stsz :: "bytes \<Rightarrow> iso_track_meta \<Rightarrow> iso_track_meta option" where
  "parse_stsz payload meta =
     (if length payload < 12 then Some meta
      else do {
        sample_count \<leftarrow> be32_at payload 8;
        Some (if sample_count > 0 then meta\<lparr>tm_sample_count := Some (ucast sample_count)\<rparr> else meta) })"

text \<open>The first conversion to milliseconds is done in \<open>u128\<close> and cut to 64 bits, the second saturates.\<close>

definition parse_mvhd :: "bytes \<Rightarrow> (u64 option \<times> u64 option) option" where
  "parse_mvhd payload =
     (if length payload < 20 then Some (None, None)
      else if payload ! 0 = 1 then
        if length payload < 32 then Some (None, None)
        else do {
          timescale \<leftarrow> be32_at payload 20; duration \<leftarrow> be64_at payload 24;
          Some (Some (ucast timescale),
                if timescale > 0 then Some (word_of_nat (unat duration * 1000 div unat timescale)) else None) }
      else do {
        timescale \<leftarrow> be32_at payload 12; duration \<leftarrow> be32_at payload 16;
        Some (Some (ucast timescale),
              if timescale > 0 then Some (word_of_nat (min (unat duration * 1000) (2 ^ 64 - 1) div unat timescale)) else None) })"

definition parse_mdhd :: "bytes \<Rightarrow> iso_track_meta \<Rightarrow> iso_track_meta option" where
  "parse_mdhd payload meta =
     (if length payload < 20 then Some meta
      else if payload ! 0 = 1 then
        if length payload \<ge> 32 then do {
          timescale \<leftarrow> be32_at payload 20; duration \<leftarrow> be64_at payload 24;
          Some (meta\<lparr>tm_timescale := Some (ucast timescale), tm_duration := Some duration\<rparr>) }
        else Some meta
      else do {
        timescale \<leftarrow> be32_at payload 12; duration \<leftarrow> be32_at payload 16;
        Some (meta\<lparr>tm_timescale := Some (ucast timescale), tm_duration := Some (ucast duration)\<rparr>) })"

definition rotation_from_matrix :: "u32 \<Rightarrow> u32 \<Rightarrow> u32 \<Rightarrow> u32 \<Rightarrow> i64 option" where
  "rotation_from_matrix a b c d =
     (let one = 0x00010000 in
      if (a, b, c, d) = (one, 0, 0, one) then Some 0
      else if (a, b, c, d) = (0, one, - one, 0) then Some 90
      else if (a, b, c, d) = (- one, 0, 0, - one) then Some 180
      else if (a, b, c, d) = (0, - one, one, 0) then Some 270
      else None)"

definition parse_tkhd :: "bytes \<Rightarrow> iso_track_meta \<Rightarrow> iso_track_meta option" where
  "parse_tkhd payload meta =
     (if length payload < 88 then Some meta
      else let (matrix_offset, width_offset) = (if payload ! 0 = 1 then (56, 92) else (44, 80)) in
        do {
          meta1 \<leftarrow> (if length payload \<ge> width_offset + 8 then do {
              w \<leftarrow> be32_at payload width_offset; h \<leftarrow> be32_at payload (width_offset + 4);
              Some (meta\<lparr>tm_width := Some (ucast (drop_bit 16 w)), tm_height := Some (ucast (drop_bit 16 h))\<rparr>) }
            else Some meta);
          if length payload \<ge> matrix_offset + 32 then do {
            a \<leftarrow> be32_at payload matrix_offset; b \<leftarrow> be32_at payload (matrix_offset + 4);
            c \<leftarrow> be32_at payload (matrix_offset + 12); d \<leftarrow> be32_at payload (matrix_offset + 16);
            Some (meta1\<lparr>tm_rotation_degrees := rotation_from_matrix a b c d\<rparr>) }
          else Some meta1 })"

section \<open>Tracks\<close>

definition stbl_box :: "bytes \<Rightarrow> box_header \<Rightarrow> iso_track_meta \<Rightarrow> iso_track_meta option" where
  "stbl_box data h meta =
     (if bx_typ h = ascii_bytes ''stsd'' then Option.bind (box_payload data h) (\<lambda>p. parse_stsd p meta)
      else if bx_typ h = ascii_bytes ''stts'' then Option.bind (box_payload data h) (\<lambda>p. parse_stts p meta)
      else if bx_typ h = ascii_bytes ''stsz'' then Option.bind (box_payload data h) (\<lambda>p. parse_stsz p meta)
      else Some meta)"

definition parse_stbl :: "bytes \<Rightarrow> nat \<Rightarrow> nat \<Rightarrow> iso_track_meta \<Rightarrow> iso_track_meta option" where
  "parse_stbl data start stop meta = fold_boxes (stbl_box data) data start stop meta"

definition parse_minf :: "bytes \<Rightarrow> nat \<Rightarrow> nat \<Rightarrow> iso_track_meta \<Rightarrow> iso_track_meta option" where
  "parse_minf data start stop meta =
     fold_boxes (\<lambda>h meta. if bx_typ h = ascii_bytes ''stbl''
        then parse_stbl data (bx_data_start h) (bx_stop h) meta else Some meta) data start stop meta"

definition mdia_box :: "bytes \<Rightarrow> box_header \<Rightarrow> iso_track_meta \<Rightarrow> iso_track_meta option" where
  "mdia_box data h meta =
     (if bx_typ h = ascii_bytes ''mdhd'' then Option.bind (box_payload data h) (\<lambda>p. parse_mdhd p meta)
      else if bx_typ h = ascii_bytes ''hdlr'' then
        map_option (\<lambda>p. if length p \<ge> 12 then meta\<lparr>tm_handler := Some (fourcc (take 4 (drop 8 p)))\<rparr> else meta)
          (box_payload data h)
      else if bx_typ h = ascii_bytes ''minf'' then parse_minf data (bx_data_start h) (bx_stop h) meta
      else Some meta)"

definition parse_mdia :: "bytes \<Rightarrow> nat \<Rightarrow> nat \<Rightarrow> iso_track_meta \<Rightarrow> iso_track_meta option" where
  "parse_mdia data start stop meta = fold_boxes (mdia_box data) data start stop meta"

definition trak_box :: "bytes \<Rightarrow> box_header \<Rightarrow> iso_track_meta \<Rightarrow> iso_track_meta option" where
  "trak_box data h meta =
     (if bx_typ h = ascii_bytes ''tkhd'' then Option.bind (box_payload data h) (\<lambda>p. parse_tkhd p meta)
      else if bx_typ h = ascii_bytes ''mdia'' then parse_mdia data (bx_data_start h) (bx_stop h) meta
      else Some meta)"

definition track_stream_type :: "iso_track_meta \<Rightarrow> str" where
  "track_stream_type meta =
     (if tm_handler meta \<in> {Some (ascii ''vide''), Some (ascii ''pict''), Some (ascii ''auxv'')} then ascii ''video''
      else if tm_handler meta = Some (ascii ''soun'') then ascii ''audio''
      else if tm_handler meta \<in> {Some (ascii ''subt''), Some (ascii ''text''), Some (ascii ''sbtl'')}
      then ascii ''subtitle'' else ascii ''metadata'')"

definition track_duration_ms :: "iso_track_meta \<Rightarrow> i64 option" where
  "track_duration_ms meta =
     (case (tm_duration meta, tm_timescale meta) of
        (Some duration, Some timescale) \<Rightarrow>
          if timescale > 0 then Some (word_of_nat (unat duration * 1000 div unat timescale)) else None
      | _ \<Rightarrow> None)"

definition track_fps :: "iso_track_meta \<Rightarrow> i64 \<times> i64" where
  "track_fps meta =
     (if track_stream_type meta = ascii ''video'' then
        (case (tm_timescale meta, tm_sample_delta meta) of
           (Some timescale, Some delta) \<Rightarrow> if timescale > 0 \<and> delta > 0 then (timescale, delta) else (0, 0)
         | _ \<Rightarrow> (0, 0))
      else (0, 0))"

definition positive :: "i64 \<Rightarrow> i64 option" where
  "positive x = (if sint x > 0 then Some x else None)"

definition or_else :: "'a option \<Rightarrow> 'a option \<Rightarrow> 'a option" where
  "or_else x y = (case x of Some v \<Rightarrow> Some v | None \<Rightarrow> y)"

definition codec_feature_for_iso :: "(jvalue \<Rightarrow> str) \<Rightarrow> str \<Rightarrow> iso_sample_entry option \<Rightarrow> media_feature" where
  "codec_feature_for_iso to_json codec entry =
     (let details = (case entry of Some e \<Rightarrow> se_details e | None \<Rightarrow> v_obj [(''codec'', VStr codec)]) in
      default_feature\<lparr>mf_standard := Some codec, mf_coding_mode := Some (ascii ''container_header''),
        mf_confidence := Some (ascii ''container''),
        mf_features_json := Some (fst (json_limited to_json details))\<rparr>)"

definition track_output :: "(jvalue \<Rightarrow> str) \<Rightarrow> iso_track_meta \<Rightarrow> iso_track_output" where
  "track_output to_json meta =
     (let stream_type = track_stream_type meta;
          entry = (case tm_sample_entries meta of [] \<Rightarrow> None | e # _ \<Rightarrow> Some e);
          details = v_obj [(''handler'', v_opt VStr (tm_handler meta)),
            (''sample_entries'', VArr (map se_details (tm_sample_entries meta))),
            (''track_timescale'', v_opt v_uint (tm_timescale meta)),
            (''track_duration'', v_opt v_uint (tm_duration meta)),
            (''sample_count'', v_opt v_i64 (tm_sample_count meta)),
            (''sample_delta'', v_opt v_uint (tm_sample_delta meta))];
          (details_json, _) = json_limited to_json details;
          codec = map_option se_codec entry;
          (fps_num, fps_den) = track_fps meta
      in \<lparr>to_stream_type = stream_type,
           to_stream = \<lparr>ms_stream_index = 0, ms_stream_type = stream_type, ms_codec = codec,
             ms_codec_tag = map_option se_tag entry, ms_profile = Option.bind entry se_profile,
             ms_level = Option.bind entry se_level,
             ms_width = or_else (tm_width meta) (Option.bind entry se_width),
             ms_height = or_else (tm_height meta) (Option.bind entry se_height),
             ms_coded_width = Option.bind entry se_width, ms_coded_height = Option.bind entry se_height,
             ms_duration_ms = track_duration_ms meta, ms_bitrate = Option.bind entry se_bitrate,
             ms_fps_num = positive fps_num, ms_fps_den = positive fps_den,
             ms_sample_rate = Option.bind entry se_sample_rate, ms_channels = Option.bind entry se_channels,
             ms_bit_depth = Option.bind entry se_bit_depth, ms_pixel_format = Option.bind entry se_pixel_format,
             ms_chroma_subsampling = Option.bind entry se_chroma_subsampling,
             ms_color_primaries = Option.bind entry se_color_primaries,
             ms_transfer_characteristics = Option.bind entry se_transfer_characteristics,
             ms_matrix_coefficients = Option.bind entry se_matrix_coefficients,
             ms_rotation_degrees = tm_rotation_degrees meta, ms_details_json = Some details_json\<rparr>,
           to_feature = map_option (\<lambda>c. codec_feature_for_iso to_json c entry) codec\<rparr>)"

definition parse_trak :: "(jvalue \<Rightarrow> str) \<Rightarrow> bytes \<Rightarrow> nat \<Rightarrow> nat \<Rightarrow> iso_track_output option" where
  "parse_trak to_json data start stop =
     map_option (track_output to_json) (fold_boxes (trak_box data) data start stop default_track_meta)"

section \<open>The movie\<close>

definition moov_box :: "(jvalue \<Rightarrow> str) \<Rightarrow> bytes \<Rightarrow> box_header \<Rightarrow> movie_meta \<Rightarrow> movie_meta option" where
  "moov_box to_json data h movie =
     (if bx_typ h = ascii_bytes ''mvhd'' then do {
        p \<leftarrow> box_payload data h;
        (timescale, duration_ms) \<leftarrow> parse_mvhd p;
        Some (movie\<lparr>mv_timescale := timescale, mv_duration_ms := duration_ms\<rparr>) }
      else if bx_typ h = ascii_bytes ''trak'' then
        map_option (\<lambda>track. movie\<lparr>mv_tracks := mv_tracks movie @ [track]\<rparr>)
          (parse_trak to_json data (bx_data_start h) (bx_stop h))
      else Some movie)"

definition parse_moov :: "(jvalue \<Rightarrow> str) \<Rightarrow> bytes \<Rightarrow> nat \<Rightarrow> nat \<Rightarrow> movie_meta option" where
  "parse_moov to_json data start stop = fold_boxes (moov_box to_json data) data start stop default_movie"

text \<open>The scan of the tail: the first movie with tracks, otherwise the first movie.\<close>

fun tail_scan :: "(jvalue \<Rightarrow> str) \<Rightarrow> tail_probe \<Rightarrow> nat list \<Rightarrow> (movie_meta \<times> u64) option
    \<Rightarrow> (movie_meta \<times> u64) option option" where
  "tail_scan to_json tail [] fallback = Some fallback"
| "tail_scan to_json tail (pos # ps) fallback = do {
     tag \<leftarrow> subslice (tp_data tail) (pos + 4) (pos + 8);
     if tag \<noteq> ascii_bytes ''moov'' then tail_scan to_json tail ps fallback
     else (case read_box (tp_data tail) pos (length (tp_data tail)) of
         None \<Rightarrow> tail_scan to_json tail ps fallback
       | Some h \<Rightarrow>
           if bx_typ h \<noteq> ascii_bytes ''moov'' then tail_scan to_json tail ps fallback
           else do {
             movie \<leftarrow> parse_moov to_json (tp_data tail) (bx_data_start h) (bx_stop h);
             let found = (movie, word_of_nat (min (unat (tp_offset tail) + pos) (2 ^ 64 - 1))) in
             if mv_tracks movie \<noteq> [] then Some (Some found)
             else tail_scan to_json tail ps (case fallback of None \<Rightarrow> Some found | Some x \<Rightarrow> Some x) }) }"

definition parse_moov_from_tail :: "(jvalue \<Rightarrow> str) \<Rightarrow> tail_probe \<Rightarrow> (movie_meta \<times> u64) option option" where
  "parse_moov_from_tail to_json tail = tail_scan to_json tail [0..<length (tp_data tail) - 8] None"

definition iso_format :: "str option \<Rightarrow> str list \<Rightarrow> str" where
  "iso_format major_brand brands =
     (let has_brand = (\<lambda>wanted. major_brand = Some (ascii wanted) \<or> ascii wanted \<in> set brands) in
      if has_brand ''avif'' \<or> has_brand ''avis'' then ascii ''avif''
      else if has_brand ''heic'' \<or> has_brand ''heix'' \<or> has_brand ''hevc'' then ascii ''heic''
      else if has_brand ''heif'' \<or> has_brand ''mif1'' \<or> has_brand ''msf1'' then ascii ''heif''
      else if has_brand ''M4A '' \<or> has_brand ''M4B '' then ascii ''m4a''
      else if (case major_brand of Some b \<Rightarrow> starts_with b (ascii ''3g'') | None \<Rightarrow> False) then ascii ''3gp''
      else if has_brand ''qt  '' then ascii ''mov''
      else ascii ''mp4'')"

section \<open>The file\<close>

record iso_state =
  is_major_brand :: "str option"
  is_minor_version :: "u32 option"
  is_brands :: "str list"
  is_movie_timescale :: "i64 option"
  is_movie_duration :: "i64 option"
  is_tracks :: "iso_track_output list"
  is_moov_source :: "str option"

definition iso_start :: iso_state where
  "iso_start = \<lparr>is_major_brand = None, is_minor_version = None, is_brands = [], is_movie_timescale = None,
     is_movie_duration = None, is_tracks = [], is_moov_source = None\<rparr>"

text \<open>The brands after the first eight bytes of a file type box, four bytes each.\<close>

definition brands_from :: "bytes \<Rightarrow> str list" where
  "brands_from payload = map (\<lambda>k. fourcc (take 4 (drop (8 + 4 * k) payload))) [0..<(length payload - 8) div 4]"

definition iso_box :: "(jvalue \<Rightarrow> str) \<Rightarrow> bytes \<Rightarrow> box_header \<Rightarrow> iso_state \<Rightarrow> iso_state option" where
  "iso_box to_json data h st =
     (if bx_typ h = ascii_bytes ''ftyp'' then do {
        payload \<leftarrow> box_payload data h;
        if length payload \<ge> 8 then do {
          minor \<leftarrow> be32_at payload 4;
          Some (st\<lparr>is_major_brand := Some (fourcc (take 4 payload)), is_minor_version := Some minor,
                 is_brands := is_brands st @ brands_from payload\<rparr>) }
        else Some st }
      else if bx_typ h = ascii_bytes ''moov'' then
        map_option (\<lambda>movie. st\<lparr>is_movie_timescale := mv_timescale movie, is_movie_duration := mv_duration_ms movie,
            is_tracks := mv_tracks movie, is_moov_source := Some (ascii ''head'')\<rparr>)
          (parse_moov to_json data (bx_data_start h) (bx_stop h))
      else Some st)"

text \<open>The loop leaves at the box that ends the data; there is no box after it in any case.\<close>

definition iso_head :: "(jvalue \<Rightarrow> str) \<Rightarrow> bytes \<Rightarrow> iso_state option" where
  "iso_head to_json data = fold_boxes (iso_box to_json data) data 0 (length data) iso_start"

definition iso_with_tail :: "(jvalue \<Rightarrow> str) \<Rightarrow> tail_probe option \<Rightarrow> iso_state \<Rightarrow> (iso_state \<times> u64 option) option" where
  "iso_with_tail to_json tail st =
     (if is_tracks st = [] then
        (case tail of
           None \<Rightarrow> Some (st, None)
         | Some t \<Rightarrow>
             map_option (\<lambda>r. case r of
                 None \<Rightarrow> (st, None)
               | Some (movie, offset) \<Rightarrow>
                   (st\<lparr>is_movie_timescale := or_else (mv_timescale movie) (is_movie_timescale st),
                       is_movie_duration := or_else (mv_duration_ms movie) (is_movie_duration st),
                       is_tracks := mv_tracks movie, is_moov_source := Some (ascii ''tail'')\<rparr>, Some offset))
               (parse_moov_from_tail to_json t))
      else Some (st, None))"

definition iso_media_kind :: "str \<Rightarrow> iso_state \<Rightarrow> str" where
  "iso_media_kind format st =
     (if format \<in> {ascii ''avif'', ascii ''heif'', ascii ''heic''} then
        (if ascii ''avis'' \<in> set (is_brands st) \<or> ascii ''msf1'' \<in> set (is_brands st)
         then ascii ''animated_image'' else ascii ''image'')
      else if \<exists>t \<in> set (is_tracks st). to_stream_type t = ascii ''video'' then ascii ''video''
      else if \<exists>t \<in> set (is_tracks st). to_stream_type t = ascii ''audio'' then ascii ''audio''
      else ascii ''unknown'')"

text \<open>The details of a track are wrapped with those of the container, read back from their text.\<close>

definition wrap_track_details ::
  "(jvalue \<Rightarrow> str) \<Rightarrow> (str \<Rightarrow> jvalue option) \<Rightarrow> jvalue \<Rightarrow> str \<Rightarrow> str option \<Rightarrow> str" where
  "wrap_track_details to_json from_json details details_json track_json =
     (case track_json of
        Some t \<Rightarrow>
          let v = (case from_json t of Some v \<Rightarrow> v | None \<Rightarrow> v_obj [(''raw_track_details_json'', VStr t)])
          in fst (json_limited to_json (v_obj [(''container'', details), (''track'', v)]))
      | None \<Rightarrow> details_json)"

definition iso_streams ::
  "(jvalue \<Rightarrow> str) \<Rightarrow> (str \<Rightarrow> jvalue option) \<Rightarrow> jvalue \<Rightarrow> str \<Rightarrow> iso_track_output list
    \<Rightarrow> media_stream list \<times> media_feature list" where
  "iso_streams to_json from_json details details_json tracks =
     (map (\<lambda>(i, t). (to_stream t)\<lparr>ms_stream_index := word_of_nat i,
          ms_details_json := Some (wrap_track_details to_json from_json details details_json
             (ms_details_json (to_stream t)))\<rparr>) (zip [0..<length tracks] tracks),
      concat (map (\<lambda>(i, t). case to_feature t of
          Some f \<Rightarrow> [f\<lparr>mf_stream_index := word_of_nat i\<rparr>] | None \<Rightarrow> []) (zip [0..<length tracks] tracks)))"

definition iso_mime :: "str \<Rightarrow> str" where
  "iso_mime format =
     (if format = ascii ''avif'' then ascii ''image/avif''
      else if format = ascii ''heif'' \<or> format = ascii ''heic'' then ascii ''image/heif''
      else if format = ascii ''m4a'' then ascii ''audio/mp4''
      else if format = ascii ''3gp'' then ascii ''video/3gpp''
      else if format = ascii ''mov'' then ascii ''video/quicktime'' else ascii ''video/mp4'')"

definition parse_iso_bmff_with_tail ::
  "(jvalue \<Rightarrow> str) \<Rightarrow> (str \<Rightarrow> jvalue option) \<Rightarrow> bytes \<Rightarrow> tail_probe option \<Rightarrow> u64 \<Rightarrow> parsed_media option" where
  "parse_iso_bmff_with_tail to_json from_json data tail file_size = do {
     st0 \<leftarrow> iso_head to_json data;
     (st, tail_moov_offset) \<leftarrow> iso_with_tail to_json tail st0;
     let partial = (unat file_size > length data \<and> is_tracks st = []);
         format = iso_format (is_major_brand st) (is_brands st);
         media_kind = iso_media_kind format st;
         details = v_obj [(''major_brand'', v_opt VStr (is_major_brand st)),
           (''minor_version'', v_opt v_uint (is_minor_version st)),
           (''compatible_brands'', VArr (map VStr (is_brands st))),
           (''movie_timescale'', v_opt v_i64 (is_movie_timescale st)),
           (''movie_duration_ms'', v_opt v_i64 (is_movie_duration st)),
           (''moov_source'', v_opt VStr (is_moov_source st)),
           (''tail_probe_offset'', v_opt (\<lambda>t. v_uint (tp_offset t)) tail),
           (''tail_probe_bytes'', v_opt (\<lambda>t. v_nat (length (tp_data t))) tail),
           (''tail_moov_offset'', v_opt v_uint tail_moov_offset)];
         (details_json, details_partial) = json_limited to_json details;
         (streams, features) = iso_streams to_json from_json details details_json (is_tracks st)
     in Some \<lparr>pm_media_kind = media_kind, pm_container = ascii ''mp4'', pm_detected_format = format,
          pm_mime = Some (iso_mime format),
          pm_scan_status = (if partial \<or> details_partial then ascii ''partial''
             else if media_kind = ascii ''unknown'' then ascii ''unsupported'' else ascii ''ok''),
          pm_error = (if partial then Some (ascii ''moov/tracks not found in probe head/tail windows'')
             else if media_kind = ascii ''unknown'' then Some (ascii ''no supported media tracks found'') else None),
          pm_streams = (if streams = [] then
              [default_stream\<lparr>ms_stream_type := (if media_kind = ascii ''image'' \<or> media_kind = ascii ''animated_image''
                  then ascii ''image'' else ascii ''metadata''), ms_codec := Some format,
                ms_duration_ms := is_movie_duration st, ms_details_json := Some details_json\<rparr>]
            else streams),
          pm_features = features\<rparr> }"

definition is_iso_bmff :: "bytes \<Rightarrow> bool" where
  "is_iso_bmff data =
     (case read_box data 0 (length data) of
        Some h \<Rightarrow> bx_typ h = ascii_bytes ''ftyp'' \<or> bx_typ h = ascii_bytes ''moov'' | None \<Rightarrow> False)"

end
