(* ===== verification/Media_Audio.thy ===== *)
theory Media_Audio imports Media_Pictures begin

text \<open>
  The parsers of audio files (\<open>media_info.rs\<close>): RIFF and WAV, SILK, MP3, FLAC and Ogg.
\<close>

section \<open>Arithmetic of \<open>i64\<close>\<close>

definition i64_saturating_mul :: "i64 \<Rightarrow> i64 \<Rightarrow> i64" where
  "i64_saturating_mul a b = word_of_int (max (- (2 ^ 63)) (min (2 ^ 63 - 1) (sint a * sint b)))"

definition i64_div :: "i64 \<Rightarrow> i64 \<Rightarrow> i64" where
  "i64_div a b = word_of_int (sint a sdiv sint b)"

section \<open>WAV\<close>

record wav_state =
  wv_format_tag :: "i64 option"
  wv_channels :: "i64 option"
  wv_sample_rate :: "i64 option"
  wv_byte_rate :: "i64 option"
  wv_bit_depth :: "i64 option"
  wv_data_size :: "i64 option"
  wv_partial :: bool
  wv_truncated_by_probe :: bool

definition wav_start :: wav_state where
  "wav_start = \<lparr>wv_format_tag = None, wv_channels = None, wv_sample_rate = None, wv_byte_rate = None,
     wv_bit_depth = None, wv_data_size = None, wv_partial = False, wv_truncated_by_probe = False\<rparr>"

definition wav_chunk :: "str \<Rightarrow> bytes \<Rightarrow> wav_state \<Rightarrow> wav_state option" where
  "wav_chunk typ chunk st =
     (if typ = ascii ''fmt '' \<and> length chunk \<ge> 16 then do {
        tag \<leftarrow> le16_at chunk 0; channels \<leftarrow> le16_at chunk 2; sample_rate \<leftarrow> le32_at chunk 4;
        byte_rate \<leftarrow> le32_at chunk 8; bit_depth \<leftarrow> le16_at chunk 14;
        Some (st\<lparr>wv_format_tag := Some (ucast tag), wv_channels := Some (ucast channels),
               wv_sample_rate := Some (ucast sample_rate), wv_byte_rate := Some (ucast byte_rate),
               wv_bit_depth := Some (ucast bit_depth)\<rparr>) }
      else Some st)"

function wav_loop :: "bytes \<Rightarrow> nat \<Rightarrow> wav_state \<Rightarrow> wav_state option" where
  "wav_loop data pos st =
     (if pos + 8 \<le> length data then do {
        tag \<leftarrow> subslice data pos (pos + 4);
        len32 \<leftarrow> le32_at data (pos + 4);
        let len = unat len32; typ = fourcc tag;
            st1 = (if typ = ascii ''data'' then st\<lparr>wv_data_size := Some (ucast len32)\<rparr> else st) in
        if pos + 8 + len > length data then Some (st1\<lparr>wv_partial := True, wv_truncated_by_probe := True\<rparr>)
        else do {
          chunk \<leftarrow> subslice data (pos + 8) (pos + 8 + len);
          st2 \<leftarrow> wav_chunk typ chunk st1;
          wav_loop data (pos + (8 + len + len mod 2)) st2 } }
      else Some st)"
  by pat_completeness auto
termination
  by (relation "measure (\<lambda>(data, pos, _). length data - pos)") auto

declare wav_loop.simps [simp del]

definition wav_codec :: "i64 \<Rightarrow> str" where
  "wav_codec t =
     (if t = 1 then ascii ''pcm'' else if t = 3 then ascii ''float'' else if t = 6 then ascii ''alaw''
      else if t = 7 then ascii ''mulaw'' else if t = 0x55 then ascii ''mp3''
      else if t = 0xfffe then ascii ''extensible'' else ascii ''unknown'')"

definition wav_duration_ms :: "wav_state \<Rightarrow> i64 option" where
  "wav_duration_ms st =
     (case (wv_data_size st, wv_byte_rate st) of
        (Some nbytes, Some rate) \<Rightarrow> if sint rate > 0 then Some (i64_div (i64_saturating_mul nbytes 1000) rate) else None
      | _ \<Rightarrow> None)"

definition parse_wav :: "(jvalue \<Rightarrow> str) \<Rightarrow> bytes \<Rightarrow> u64 \<Rightarrow> parsed_media option" where
  "parse_wav to_json data file_size =
     map_option (\<lambda>st.
       let probe_truncated = (wv_partial st \<and> wv_truncated_by_probe st \<and> unat file_size > length data
              \<and> wv_format_tag st \<noteq> None \<and> wv_sample_rate st \<noteq> None);
           details = v_obj
             [(''format_tag'', v_opt v_i64 (wv_format_tag st)), (''data_size'', v_opt v_i64 (wv_data_size st)),
              (''byte_rate'', v_opt v_i64 (wv_byte_rate st)),
              (''probe_truncated'', VBool probe_truncated), (''probe_read_bytes'', v_nat (length data)),
              (''file_size'', v_uint file_size)];
           truncated = (wv_partial st \<and> \<not> probe_truncated)
       in \<lparr>pm_media_kind = ascii ''audio'', pm_container = ascii ''riff'', pm_detected_format = ascii ''wav'',
            pm_mime = Some (ascii ''audio/wav''), pm_scan_status = scan_status_of truncated,
            pm_error = (if truncated then Some (ascii ''truncated WAV chunk'') else None),
            pm_streams = [default_stream\<lparr>ms_stream_type := ascii ''audio'',
              ms_codec := map_option wav_codec (wv_format_tag st), ms_duration_ms := wav_duration_ms st,
              ms_sample_rate := wv_sample_rate st, ms_channels := wv_channels st, ms_bit_depth := wv_bit_depth st,
              ms_bitrate := map_option (\<lambda>r. r * 8) (wv_byte_rate st), ms_details_json := Some (to_json details)\<rparr>],
            pm_features = []\<rparr>)
       (wav_loop data 12 wav_start)"

section \<open>RIFF\<close>

definition is_riff :: "bytes \<Rightarrow> bool" where
  "is_riff data = (length data \<ge> 12 \<and> take 4 data = ascii_bytes ''RIFF'')"

definition parse_riff :: "(jvalue \<Rightarrow> str) \<Rightarrow> bytes \<Rightarrow> u64 \<Rightarrow> parsed_media option" where
  "parse_riff to_json data file_size =
     (let riff_type = (if length data \<ge> 12 then fourcc (take 4 (drop 8 data)) else ascii ''unknown'') in
      if riff_type = ascii ''WEBP'' then parse_webp_with_file_size to_json data file_size
      else if riff_type = ascii ''WAVE'' then parse_wav to_json data file_size
      else if riff_type = ascii ''AVI '' then
        Some \<lparr>pm_media_kind = ascii ''video'', pm_container = ascii ''riff'', pm_detected_format = ascii ''avi'',
          pm_mime = Some (ascii ''video/x-msvideo''), pm_scan_status = ascii ''partial'',
          pm_error = Some (ascii ''AVI RIFF metadata parser is shallow''),
          pm_streams = [default_stream\<lparr>ms_stream_type := ascii ''video'', ms_codec := Some (ascii ''avi''),
            ms_details_json := Some (ascii ''{\"riff_type\":\"AVI \"}'')\<rparr>],
          pm_features = []\<rparr>
      else
        Some \<lparr>pm_media_kind = ascii ''unknown'', pm_container = ascii ''riff'', pm_detected_format = riff_type,
          pm_mime = None, pm_scan_status = ascii ''unsupported'', pm_error = Some (ascii ''unsupported RIFF type''),
          pm_streams = [], pm_features = []\<rparr>)"

section \<open>SILK\<close>

definition silk_magic :: bytes where "silk_magic = ascii_bytes ''#!SILK_V3''"

definition silk_header_offset :: "bytes \<Rightarrow> nat option" where
  "silk_header_offset data =
     (if starts_with data silk_magic then Some 0
      else if length data > 1 \<and> data ! 0 = 0x02 \<and> starts_with (drop 1 data) silk_magic then Some 1
      else None)"

definition is_silk :: "bytes \<Rightarrow> bool" where
  "is_silk data = (silk_header_offset data \<noteq> None)"

definition parse_silk :: "(jvalue \<Rightarrow> str) \<Rightarrow> bytes \<Rightarrow> u64 \<Rightarrow> parsed_media" where
  "parse_silk to_json data file_size =
     (let header_offset = (case silk_header_offset data of Some i \<Rightarrow> i | None \<Rightarrow> 0);
          control_byte = idx data (header_offset + length silk_magic);
          details = v_obj [(''header_offset'', v_nat header_offset), (''control_byte'', v_opt v_uint control_byte),
            (''probe_read_bytes'', v_nat (length data)), (''file_size'', v_uint file_size)];
          (details_json, details_partial) = json_limited to_json details
      in \<lparr>pm_media_kind = ascii ''audio'', pm_container = ascii ''silk'', pm_detected_format = ascii ''silk'',
           pm_mime = Some (ascii ''audio/silk''), pm_scan_status = scan_status_of details_partial, pm_error = None,
           pm_streams = [default_stream\<lparr>ms_stream_type := ascii ''audio'', ms_codec := Some (ascii ''silk''),
             ms_details_json := Some details_json\<rparr>],
           pm_features = [default_feature\<lparr>mf_standard := Some (ascii ''silk''),
             mf_coding_mode := Some (ascii ''speech''), mf_confidence := Some (ascii ''header''),
             mf_features_json := Some (to_json (v_obj [(''header_offset'', v_nat header_offset),
               (''control_byte'', v_opt v_uint control_byte)]))\<rparr>]\<rparr>)"

section \<open>MP3\<close>

definition max_mp3_sync_search_bytes :: nat where "max_mp3_sync_search_bytes = 64 * 1024"
definition max_mp3_sync_candidates :: nat where "max_mp3_sync_candidates = 128"
definition min_mp3_consistent_frames :: nat where "min_mp3_consistent_frames = 3"
definition max_mp3_consistency_frames :: nat where "max_mp3_consistency_frames = 8"

record id3v2_info =
  id3_version :: u8
  id3_revision :: u8
  id3_flags :: u8
  id3_tag_size :: nat
  id3_total_size :: nat
  id3_footer :: bool

record mp3_frame_header =
  fh_version_id :: u8
  fh_layer_index :: u8
  fh_protection_absent :: bool
  fh_bitrate_index :: nat
  fh_sample_rate_index :: nat
  fh_padding :: bool
  fh_channel_mode :: u8
  fh_bitrate_bps :: u32
  fh_sample_rate :: u32
  fh_frame_len :: nat
  fh_samples_per_frame :: u16

record mp3_vbr_info =
  vb_marker :: str
  vb_offset :: nat
  vb_frames :: "u32 option"
  vb_bytes :: "u32 option"
  vb_quality :: "u32 option"
  vb_version :: "u16 option"
  vb_delay :: "u16 option"

record mp3_probe =
  pb_id3v2 :: "id3v2_info option"
  pb_first_frame_offset :: nat
  pb_first_frame :: mp3_frame_header
  pb_checked_frames :: nat
  pb_frame_bytes_checked :: nat
  pb_bitrate_changes :: nat
  pb_vbr :: "mp3_vbr_info option"

definition parse_id3v2 :: "bytes \<Rightarrow> id3v2_info option option" where
  "parse_id3v2 data =
     (if length data < 10 \<or> \<not> starts_with data (ascii_bytes ''ID3'') then Some None
      else let version = data ! 3; revision = data ! 4 in
        if \<not> (2 \<le> version \<and> version \<le> 4) \<or> version = 0xff \<or> revision = 0xff
           \<or> list_ex (\<lambda>b. b AND 0x80 \<noteq> 0) (take 4 (drop 6 data)) then Some None
        else do {
          tag \<leftarrow> synchsafe_u32 (take 4 (drop 6 data));
          let tag_size = unat tag; footer = (version = 4 \<and> data ! 5 AND 0x10 \<noteq> 0) in
          Some (do {
            n \<leftarrow> uadd 10 tag_size;
            total_size \<leftarrow> uadd n (if footer then 10 else 0);
            Some \<lparr>id3_version = version, id3_revision = revision, id3_flags = data ! 5,
                  id3_tag_size = tag_size, id3_total_size = total_size, id3_footer = footer\<rparr> }) })"

definition mp3_bitrate_kbps :: "u8 \<Rightarrow> u8 \<Rightarrow> nat \<Rightarrow> u16 option option" where
  "mp3_bitrate_kbps version_id layer_index i =
     (if i = 0 \<or> i = 15 then Some None
      else let table =
          (if version_id = 3 \<and> layer_index = 3
           then Some [0, 32, 64, 96, 128, 160, 192, 224, 256, 288, 320, 352, 384, 416, 448, 0]
           else if version_id = 3 \<and> layer_index = 2
           then Some [0, 32, 48, 56, 64, 80, 96, 112, 128, 160, 192, 224, 256, 320, 384, 0]
           else if version_id = 3 \<and> layer_index = 1
           then Some [0, 32, 40, 48, 56, 64, 80, 96, 112, 128, 160, 192, 224, 256, 320, 0]
           else if version_id \<noteq> 3 \<and> layer_index = 3
           then Some [0, 32, 48, 56, 64, 80, 96, 112, 128, 144, 160, 176, 192, 224, 256, 0]
           else if version_id \<noteq> 3 \<and> (layer_index = 2 \<or> layer_index = 1)
           then Some [0, 8, 16, 24, 32, 40, 48, 56, 64, 80, 96, 112, 128, 144, 160, 0]
           else None)
        in case table of None \<Rightarrow> Some None | Some t \<Rightarrow> map_option Some (idx t i))"

definition mp3_sample_rate :: "u8 \<Rightarrow> nat \<Rightarrow> u32 option option" where
  "mp3_sample_rate version_id i =
     (if i = 3 then Some None
      else map_option (\<lambda>base.
          if version_id = 3 then Some base else if version_id = 2 then Some (base div 2)
          else if version_id = 0 then Some (base div 4) else None)
        (idx [44100, 48000, 32000] i))"

text \<open>The products stay below 2 to the 32 for the bit rates of the tables.\<close>

definition mp3_frame_len :: "u8 \<Rightarrow> u8 \<Rightarrow> u32 \<Rightarrow> u32 \<Rightarrow> bool \<Rightarrow> nat option" where
  "mp3_frame_len version_id layer_index bitrate_bps sample_rate padding =
     (if sample_rate = 0 then None
      else let pad = of_bool padding :: u32;
               len = (if layer_index = 3 then Some ((12 * bitrate_bps div sample_rate + pad) * 4)
                      else if layer_index = 2 then Some (144 * bitrate_bps div sample_rate + pad)
                      else if layer_index = 1 \<and> version_id = 3 then Some (144 * bitrate_bps div sample_rate + pad)
                      else if layer_index = 1 then Some (72 * bitrate_bps div sample_rate + pad)
                      else None)
           in case len of None \<Rightarrow> None | Some n \<Rightarrow> if n \<ge> 4 then Some (unat n) else None)"

definition mp3_samples_per_frame :: "u8 \<Rightarrow> u8 \<Rightarrow> u16 option" where
  "mp3_samples_per_frame version_id layer_index =
     (if layer_index = 3 then Some 384 else if layer_index = 2 then Some 1152
      else if layer_index = 1 \<and> version_id = 3 then Some 1152 else if layer_index = 1 then Some 576 else None)"

definition parse_mp3_frame_header :: "bytes \<Rightarrow> nat \<Rightarrow> mp3_frame_header option option" where
  "parse_mp3_frame_header data pos =
     (if pos + 4 > length data then Some None
      else do {
        header \<leftarrow> be32_at data pos;
        if header AND 0xffe00000 \<noteq> 0xffe00000 then Some None
        else
          let version_id = ucast (drop_bit 19 header AND 0x3) :: u8;
              layer_index = ucast (drop_bit 17 header AND 0x3) :: u8;
              protection_absent = (drop_bit 16 header AND 0x1 \<noteq> 0);
              bitrate_index = unat (drop_bit 12 header AND 0xf);
              sample_rate_index = unat (drop_bit 10 header AND 0x3);
              padding = (drop_bit 9 header AND 0x1 \<noteq> 0);
              channel_mode = ucast (drop_bit 6 header AND 0x3) :: u8;
              emphasis = ucast (header AND 0x3) :: u8
          in if version_id = 1 \<or> layer_index = 0 \<or> emphasis = 2 then Some None
          else do {
            kbps \<leftarrow> mp3_bitrate_kbps version_id layer_index bitrate_index;
            rate \<leftarrow> mp3_sample_rate version_id sample_rate_index;
            Some (do {
              k \<leftarrow> kbps;
              let bitrate_bps = ucast k * 1000;
              sample_rate \<leftarrow> rate;
              frame_len \<leftarrow> mp3_frame_len version_id layer_index bitrate_bps sample_rate padding;
              samples_per_frame \<leftarrow> mp3_samples_per_frame version_id layer_index;
              Some \<lparr>fh_version_id = version_id, fh_layer_index = layer_index, fh_protection_absent = protection_absent,
                fh_bitrate_index = bitrate_index, fh_sample_rate_index = sample_rate_index, fh_padding = padding,
                fh_channel_mode = channel_mode, fh_bitrate_bps = bitrate_bps, fh_sample_rate = sample_rate,
                fh_frame_len = frame_len, fh_samples_per_frame = samples_per_frame\<rparr> }) } })"

definition version_name :: "mp3_frame_header \<Rightarrow> str" where
  "version_name f =
     (if fh_version_id f = 0 then ascii ''mpeg2.5'' else if fh_version_id f = 2 then ascii ''mpeg2''
      else if fh_version_id f = 3 then ascii ''mpeg1'' else ascii ''reserved'')"

definition layer_name :: "mp3_frame_header \<Rightarrow> str" where
  "layer_name f =
     (if fh_layer_index f = 1 then ascii ''layer3'' else if fh_layer_index f = 2 then ascii ''layer2''
      else if fh_layer_index f = 3 then ascii ''layer1'' else ascii ''reserved'')"

definition fh_channels :: "mp3_frame_header \<Rightarrow> u8" where
  "fh_channels f = (if fh_channel_mode f = 3 then 1 else 2)"

definition is_consistent_with :: "mp3_frame_header \<Rightarrow> mp3_frame_header \<Rightarrow> bool" where
  "is_consistent_with f first = (fh_version_id f = fh_version_id first \<and> fh_layer_index f = fh_layer_index first
     \<and> fh_sample_rate f = fh_sample_rate first)"

definition read_mp3_optional_u32 :: "bytes \<Rightarrow> nat \<Rightarrow> (u32 \<times> nat) option" where
  "read_mp3_optional_u32 data cursor =
     (if cursor + 4 > length data then None else map_option (\<lambda>v. (v, cursor + 4)) (be32_at data cursor))"

definition flagged_u32 :: "bool \<Rightarrow> bytes \<Rightarrow> nat \<Rightarrow> (u32 option \<times> nat) option" where
  "flagged_u32 flag data cursor =
     (if flag then map_option (\<lambda>(v, c). (Some v, c)) (read_mp3_optional_u32 data cursor) else Some (None, cursor))"

definition parse_xing_info :: "bytes \<Rightarrow> nat \<Rightarrow> mp3_vbr_info option option" where
  "parse_xing_info data offset =
     (if offset + 8 > length data then Some None
      else let tag = take 4 (drop offset data) in
        if tag \<noteq> ascii_bytes ''Xing'' \<and> tag \<noteq> ascii_bytes ''Info'' then Some None
        else do {
          flags \<leftarrow> be32_at data (offset + 4);
          Some (do {
            (frames, c1) \<leftarrow> flagged_u32 (flags AND 0x1 \<noteq> 0) data (offset + 8);
            (bytes, c2) \<leftarrow> flagged_u32 (flags AND 0x2 \<noteq> 0) data c1;
            c3 \<leftarrow> (if flags AND 0x4 \<noteq> 0
                  then do { c \<leftarrow> uadd c2 100; if c > length data then None else Some c } else Some c2);
            (quality, c4) \<leftarrow> flagged_u32 (flags AND 0x8 \<noteq> 0) data c3;
            Some \<lparr>vb_marker = (if tag = ascii_bytes ''Xing'' then ascii ''xing'' else ascii ''info''),
              vb_offset = offset, vb_frames = frames, vb_bytes = bytes, vb_quality = quality,
              vb_version = None, vb_delay = None\<rparr> }) })"

definition parse_vbri_info :: "bytes \<Rightarrow> nat \<Rightarrow> mp3_vbr_info option option" where
  "parse_vbri_info data offset =
     (if offset + 18 > length data \<or> take 4 (drop offset data) \<noteq> ascii_bytes ''VBRI'' then Some None
      else do {
        version \<leftarrow> be16_at data (offset + 4); delay \<leftarrow> be16_at data (offset + 6);
        quality \<leftarrow> be16_at data (offset + 8); bytes \<leftarrow> be32_at data (offset + 10);
        frames \<leftarrow> be32_at data (offset + 14);
        Some (Some \<lparr>vb_marker = ascii ''vbri'', vb_offset = offset, vb_frames = Some frames, vb_bytes = Some bytes,
          vb_quality = Some (ucast quality), vb_version = Some version, vb_delay = Some delay\<rparr>) })"

definition mp3_xing_offset :: "nat \<Rightarrow> mp3_frame_header \<Rightarrow> nat option" where
  "mp3_xing_offset frame_offset f =
     (if fh_layer_index f \<noteq> 1 then None
      else let side_info_len = (if fh_version_id f = 3 then if fh_channels f = 1 then 17 else 32
                                else if fh_channels f = 1 then 9 else 17)
        in Some (saturating_add (saturating_add (saturating_add frame_offset 4)
             (if fh_protection_absent f then 0 else 2)) side_info_len))"

fun vbr_window :: "bytes \<Rightarrow> nat list \<Rightarrow> mp3_vbr_info option option" where
  "vbr_window data [] = Some None"
| "vbr_window data (offset # os) =
     (let tag = take 4 (drop offset data) in do {
        r \<leftarrow> (if tag = ascii_bytes ''Xing'' \<or> tag = ascii_bytes ''Info'' then parse_xing_info data offset
             else if tag = ascii_bytes ''VBRI'' then parse_vbri_info data offset else Some None);
        case r of Some i \<Rightarrow> Some (Some i) | None \<Rightarrow> vbr_window data os })"

text \<open>The windows of four bytes between the header of the frame and its end, at most 256 bytes on.\<close>

definition detect_mp3_vbr :: "bytes \<Rightarrow> nat \<Rightarrow> mp3_frame_header \<Rightarrow> mp3_vbr_info option option" where
  "detect_mp3_vbr data frame_offset f = do {
     x \<leftarrow> (case mp3_xing_offset frame_offset f of Some offset \<Rightarrow> parse_xing_info data offset | None \<Rightarrow> Some None);
     case x of
       Some i \<Rightarrow> Some (Some i)
     | None \<Rightarrow> do {
         v \<leftarrow> parse_vbri_info data (saturating_add frame_offset 36);
         case v of
           Some i \<Rightarrow> Some (Some i)
         | None \<Rightarrow>
             let start = saturating_add frame_offset 4;
                 stop = min (length data) (min (saturating_add frame_offset (fh_frame_len f)) (frame_offset + 256))
             in if start \<ge> stop then Some None else vbr_window data [start..<Suc stop - 4] } }"

record mp3_check =
  mc_pos :: nat
  mc_checked_frames :: nat
  mc_frame_bytes_checked :: nat
  mc_bitrate_changes :: nat

text \<open>At most eight frames are checked; the outer option is the panic, the inner one the \<open>?\<close>.\<close>

fun mp3_frames_loop :: "nat \<Rightarrow> bytes \<Rightarrow> mp3_frame_header \<Rightarrow> nat \<Rightarrow> mp3_check \<Rightarrow> mp3_check option option" where
  "mp3_frames_loop 0 data first first_offset st = Some (Some st)"
| "mp3_frames_loop (Suc n) data first first_offset st =
     (if mc_pos st + 4 > length data then Some (Some st)
      else do {
        r \<leftarrow> parse_mp3_frame_header data (mc_pos st);
        case r of
          None \<Rightarrow> Some (Some st)
        | Some frame \<Rightarrow>
            if \<not> is_consistent_with frame first then Some (Some st)
            else
              let st1 = (if mc_checked_frames st > 0 \<and> fh_bitrate_index frame \<noteq> fh_bitrate_index first
                         then st\<lparr>mc_bitrate_changes := mc_bitrate_changes st + 1\<rparr> else st) in
              case uadd (mc_pos st) (fh_frame_len frame) of
                None \<Rightarrow> Some None
              | Some nxt \<Rightarrow>
                  if nxt > length data then Some (Some st1)
                  else mp3_frames_loop n data first first_offset
                    (st1\<lparr>mc_checked_frames := mc_checked_frames st1 + 1,
                         mc_frame_bytes_checked := nxt - first_offset, mc_pos := nxt\<rparr>) })"

definition validate_mp3_frame_sequence :: "bytes \<Rightarrow> id3v2_info option \<Rightarrow> nat \<Rightarrow> mp3_probe option option" where
  "validate_mp3_frame_sequence data id3v2 first_offset = do {
     r \<leftarrow> parse_mp3_frame_header data first_offset;
     case r of
       None \<Rightarrow> Some None
     | Some first \<Rightarrow> do {
         l \<leftarrow> mp3_frames_loop max_mp3_consistency_frames data first first_offset
                \<lparr>mc_pos = first_offset, mc_checked_frames = 0, mc_frame_bytes_checked = 0, mc_bitrate_changes = 0\<rparr>;
         case l of
           None \<Rightarrow> Some None
         | Some st \<Rightarrow>
             if mc_checked_frames st < min_mp3_consistent_frames then Some None
             else map_option (\<lambda>vbr. Some \<lparr>pb_id3v2 = id3v2, pb_first_frame_offset = first_offset,
                 pb_first_frame = first, pb_checked_frames = mc_checked_frames st,
                 pb_frame_bytes_checked = mc_frame_bytes_checked st,
                 pb_bitrate_changes = mc_bitrate_changes st, pb_vbr = vbr\<rparr>)
               (detect_mp3_vbr data first_offset first) } }"

function mp3_search :: "bytes \<Rightarrow> id3v2_info option \<Rightarrow> nat \<Rightarrow> nat \<Rightarrow> nat \<Rightarrow> mp3_probe option option" where
  "mp3_search data id3v2 search_end candidates pos =
     (if pos + 4 \<le> search_end then do {
        b0 \<leftarrow> idx data pos; b1 \<leftarrow> idx data (pos + 1);
        if b0 = 0xff \<and> b1 AND 0xe0 = 0xe0 then
          if candidates + 1 > max_mp3_sync_candidates then Some None
          else do {
            r \<leftarrow> validate_mp3_frame_sequence data id3v2 pos;
            case r of
              Some probe \<Rightarrow> Some (Some probe)
            | None \<Rightarrow> mp3_search data id3v2 search_end (candidates + 1) (pos + 1) }
        else mp3_search data id3v2 search_end candidates (pos + 1) }
      else Some None)"
  by pat_completeness auto
termination
  by (relation "measure (\<lambda>(_, _, search_end, _, pos). search_end - pos)") auto

declare mp3_search.simps [simp del]

definition find_mp3_probe :: "bytes \<Rightarrow> mp3_probe option option" where
  "find_mp3_probe data = do {
     id3v2 \<leftarrow> parse_id3v2 data;
     let search_start = min (case id3v2 of Some i \<Rightarrow> id3_total_size i | None \<Rightarrow> 0) (length data);
         search_end = min (length data) (saturating_add search_start max_mp3_sync_search_bytes) in
     mp3_search data id3v2 search_end 0 search_start }"

definition mp3_effective_bitrate :: "mp3_probe \<Rightarrow> i64 option" where
  "mp3_effective_bitrate probe = do {
     vbr \<leftarrow> pb_vbr probe; frames \<leftarrow> vb_frames vbr; bytes \<leftarrow> vb_bytes vbr;
     if frames = 0 \<or> bytes = 0 \<or> fh_sample_rate (pb_first_frame probe) = 0 then None
     else
       let num = unat frames * unat (fh_samples_per_frame (pb_first_frame probe));
           den = unat (fh_sample_rate (pb_first_frame probe))
       in if num = 0 then None else Some (word_of_nat (unat bytes * 8 * den div num)) }"

definition mp3_duration_ms :: "u64 \<Rightarrow> mp3_probe \<Rightarrow> i64 option" where
  "mp3_duration_ms file_size probe =
     (let first = pb_first_frame probe;
          audio_bytes = unat file_size - (case pb_id3v2 probe of Some i \<Rightarrow> id3_total_size i | None \<Rightarrow> 0);
          by_rate = (if fh_bitrate_bps first > 0
            then Some (word_of_nat (audio_bytes * 8 * 1000 div unat (fh_bitrate_bps first))) else None)
      in case Option.bind (pb_vbr probe) vb_frames of
           Some frames \<Rightarrow>
             if fh_sample_rate first > 0
             then Some (word_of_nat (unat frames * unat (fh_samples_per_frame first) * 1000 div unat (fh_sample_rate first)))
             else by_rate
         | None \<Rightarrow> by_rate)"

definition id3v2_details :: "id3v2_info \<Rightarrow> jvalue" where
  "id3v2_details i = v_obj [(''version'', v_uint (id3_version i)), (''revision'', v_uint (id3_revision i)),
     (''flags'', v_uint (id3_flags i)), (''tag_size'', v_nat (id3_tag_size i)),
     (''total_size'', v_nat (id3_total_size i)), (''footer'', VBool (id3_footer i))]"

definition mp3_vbr_details :: "mp3_vbr_info \<Rightarrow> jvalue" where
  "mp3_vbr_details i = v_obj [(''marker'', VStr (vb_marker i)), (''offset'', v_nat (vb_offset i)),
     (''frames'', v_opt v_uint (vb_frames i)), (''bytes'', v_opt v_uint (vb_bytes i)),
     (''quality'', v_opt v_uint (vb_quality i)), (''version'', v_opt v_uint (vb_version i)),
     (''delay'', v_opt v_uint (vb_delay i))]"

definition mp3_details :: "mp3_probe \<Rightarrow> jvalue" where
  "mp3_details probe =
     (let frame = pb_first_frame probe in v_obj
      [(''id3v2'', v_opt id3v2_details (pb_id3v2 probe)), (''mpeg_version'', VStr (version_name frame)),
       (''layer'', VStr (layer_name frame)), (''channel_mode'', v_uint (fh_channel_mode frame)),
       (''bitrate_index'', v_nat (fh_bitrate_index frame)), (''sample_rate_index'', v_nat (fh_sample_rate_index frame)),
       (''padding'', VBool (fh_padding frame)), (''protection_absent'', VBool (fh_protection_absent frame)),
       (''first_frame_offset'', v_nat (pb_first_frame_offset probe)), (''first_frame_len'', v_nat (fh_frame_len frame)),
       (''samples_per_frame'', v_uint (fh_samples_per_frame frame)),
       (''frame_consistency'', v_obj [(''checked_frames'', v_nat (pb_checked_frames probe)),
          (''required_frames'', v_nat min_mp3_consistent_frames),
          (''frame_bytes_checked'', v_nat (pb_frame_bytes_checked probe)),
          (''bitrate_changes'', v_nat (pb_bitrate_changes probe)), (''result'', VStr (ascii ''ok''))]),
       (''vbr'', v_opt mp3_vbr_details (pb_vbr probe))])"

definition parse_mp3 :: "(jvalue \<Rightarrow> str) \<Rightarrow> bytes \<Rightarrow> u64 \<Rightarrow> parsed_media option" where
  "parse_mp3 to_json data file_size =
     map_option (\<lambda>found.
       let stream = default_stream\<lparr>ms_stream_type := ascii ''audio'', ms_codec := Some (ascii ''mp3'')\<rparr>;
           stream1 = (case found of
               None \<Rightarrow> stream\<lparr>ms_details_json := Some (to_json (VObj []))\<rparr>
             | Some probe \<Rightarrow> let frame = pb_first_frame probe in
                 stream\<lparr>ms_bitrate := (case mp3_effective_bitrate probe of
                            Some b \<Rightarrow> Some b | None \<Rightarrow> Some (ucast (fh_bitrate_bps frame))),
                   ms_sample_rate := Some (ucast (fh_sample_rate frame)), ms_channels := Some (ucast (fh_channels frame)),
                   ms_profile := Some (layer_name frame), ms_duration_ms := mp3_duration_ms file_size probe,
                   ms_details_json := Some (to_json (mp3_details probe))\<rparr>)
       in \<lparr>pm_media_kind = ascii ''audio'', pm_container = ascii ''mp3'', pm_detected_format = ascii ''mp3'',
            pm_mime = Some (ascii ''audio/mpeg''),
            pm_scan_status = (if found \<noteq> None then ascii ''ok'' else ascii ''error''),
            pm_error = (if found = None then Some (ascii ''valid MP3 frame sequence not found'') else None),
            pm_streams = [stream1], pm_features = []\<rparr>)
       (find_mp3_probe data)"

definition is_mp3 :: "bytes \<Rightarrow> bool option" where
  "is_mp3 data = map_option (\<lambda>r. r \<noteq> None) (find_mp3_probe data)"

section \<open>FLAC\<close>

definition is_flac :: "bytes \<Rightarrow> bool" where
  "is_flac data = starts_with data (ascii_bytes ''fLaC'')"

definition flac_stream_info :: "(jvalue \<Rightarrow> str) \<Rightarrow> bytes \<Rightarrow> media_stream \<Rightarrow> media_stream option" where
  "flac_stream_info to_json block stream = do {
     packed \<leftarrow> be64_at block 10; min_block \<leftarrow> be16_at block 0; max_block \<leftarrow> be16_at block 2;
     let sample_rate = drop_bit 44 packed AND 0x000fffff;
         channel_count = (drop_bit 41 packed AND 0x7) + 1;
         bit_depth = (drop_bit 36 packed AND 0x1f) + 1;
         total_samples = packed AND 0x000fffffffff;
         s1 = stream\<lparr>ms_sample_rate := Some sample_rate, ms_channels := Some channel_count, ms_bit_depth := Some bit_depth\<rparr>;
         s2 = (if sint sample_rate > 0 \<and> sint total_samples > 0
               then s1\<lparr>ms_duration_ms := Some (i64_div (i64_saturating_mul total_samples 1000) sample_rate)\<rparr> else s1) in
     Some (s2\<lparr>ms_details_json := Some (to_json (v_obj [(''min_block_size'', v_uint min_block),
       (''max_block_size'', v_uint max_block), (''total_samples'', v_i64 total_samples)]))\<rparr>) }"

text \<open>The result says whether a block was cut off.\<close>

function flac_loop :: "(jvalue \<Rightarrow> str) \<Rightarrow> bytes \<Rightarrow> nat \<Rightarrow> media_stream \<Rightarrow> (bool \<times> media_stream) option" where
  "flac_loop to_json data pos stream =
     (if pos + 4 \<le> length data then do {
        size_bytes \<leftarrow> subslice data (pos + 1) (pos + 4);
        len32 \<leftarrow> read_u24be size_bytes;
        let header = data ! pos; block_type = header AND 0x7f; final = (header AND 0x80 \<noteq> 0);
            len = unat len32; p = pos + 4 in
        if p + len > length data then Some (True, stream)
        else do {
          stream1 \<leftarrow> (if block_type = 0 \<and> len \<ge> 34 then do {
                block \<leftarrow> subslice data p (p + len); flac_stream_info to_json block stream } else Some stream);
          if final then Some (False, stream1) else flac_loop to_json data (p + len) stream1 } }
      else Some (False, stream))"
  by pat_completeness auto
termination
  by (relation "measure (\<lambda>(_, data, pos, _). length data - pos)") auto

declare flac_loop.simps [simp del]

definition parse_flac :: "(jvalue \<Rightarrow> str) \<Rightarrow> bytes \<Rightarrow> parsed_media option" where
  "parse_flac to_json data =
     map_option (\<lambda>(partial, stream).
       \<lparr>pm_media_kind = ascii ''audio'', pm_container = ascii ''flac'', pm_detected_format = ascii ''flac'',
        pm_mime = Some (ascii ''audio/flac''), pm_scan_status = scan_status_of partial,
        pm_error = (if partial then Some (ascii ''truncated FLAC metadata block'') else None),
        pm_streams = [stream], pm_features = []\<rparr>)
       (flac_loop to_json data 4 (default_stream\<lparr>ms_stream_type := ascii ''audio'', ms_codec := Some (ascii ''flac'')\<rparr>))"

section \<open>Ogg\<close>

definition is_ogg :: "bytes \<Rightarrow> bool" where
  "is_ogg data = starts_with data (ascii_bytes ''OggS'')"

definition first_ogg_packet :: "bytes \<Rightarrow> bytes option option" where
  "first_ogg_packet data =
     (if length data < 27 \<or> take 4 data \<noteq> ascii_bytes ''OggS'' then Some None
      else let segment_count = unat (data ! 26) in
        if length data < 27 + segment_count then Some None
        else do {
          laces \<leftarrow> subslice data 27 (27 + segment_count);
          let nbytes = sum_list (map unat laces); start = 27 + segment_count in
          if start + nbytes > length data then Some None
          else map_option Some (subslice data start (start + nbytes)) })"

definition ogg_stream ::
  "(jvalue \<Rightarrow> str) \<Rightarrow> bytes \<Rightarrow> media_stream \<Rightarrow> (str \<times> str \<times> media_stream) option" where
  "ogg_stream to_json packet stream =
     (if starts_with packet (ascii_bytes ''OpusHead'') \<and> length packet \<ge> 19 then do {
        rate \<leftarrow> le32_at packet 12; pre_skip \<leftarrow> le16_at packet 10; gain \<leftarrow> le16_at packet 16;
        Some (ascii ''opus'', ascii ''audio/opus'',
          stream\<lparr>ms_codec := Some (ascii ''opus''), ms_channels := Some (ucast (packet ! 9)),
            ms_sample_rate := Some (ucast rate),
            ms_details_json := Some (to_json (v_obj [(''version'', v_uint (packet ! 8)), (''pre_skip'', v_uint pre_skip),
              (''output_gain'', VInt (sint gain)), (''channel_mapping_family'', v_uint (packet ! 18))]))\<rparr>) }
      else if starts_with packet [1] \<and> subslice packet 1 7 = Some (ascii_bytes ''vorbis'') \<and> length packet \<ge> 30 then do {
        rate \<leftarrow> le32_at packet 12; bitrate \<leftarrow> le32_at packet 16;
        Some (ascii ''vorbis'', ascii ''audio/ogg'',
          stream\<lparr>ms_codec := Some (ascii ''vorbis''), ms_channels := Some (ucast (packet ! 11)),
            ms_sample_rate := Some (ucast rate), ms_bitrate := Some (ucast bitrate)\<rparr>) }
      else Some (ascii ''ogg'', ascii ''application/ogg'', stream))"

definition parse_ogg :: "(jvalue \<Rightarrow> str) \<Rightarrow> bytes \<Rightarrow> parsed_media option" where
  "parse_ogg to_json data = do {
     packet \<leftarrow> first_ogg_packet data;
     let stream = default_stream\<lparr>ms_stream_type := ascii ''audio'', ms_codec := Some (ascii ''ogg'')\<rparr>;
     (codec, mime, stream1) \<leftarrow> (case packet of
         None \<Rightarrow> Some (ascii ''ogg'', ascii ''application/ogg'', stream)
       | Some p \<Rightarrow> ogg_stream to_json p stream);
     Some \<lparr>pm_media_kind = ascii ''audio'', pm_container = ascii ''ogg'', pm_detected_format = codec,
       pm_mime = Some mime, pm_scan_status = ascii ''ok'', pm_error = None,
       pm_streams = [stream1], pm_features = []\<rparr> }"

end
