(* ===== verification/Media_Matroska.thy ===== *)
theory Media_Matroska imports Media_Audio begin

text \<open>
  The parser of Matroska files (\<open>media_info.rs\<close>): EBML elements, read to a depth of 64, and the
  tracks among them.
\<close>

section \<open>Elements\<close>

text \<open>The number of leading zero bits of a byte.\<close>

definition leading_zeros :: "u8 \<Rightarrow> nat" where
  "leading_zeros b = length (takeWhile (\<lambda>i. \<not> bit b i) (rev [0..<8]))"

definition read_ebml_id :: "bytes \<Rightarrow> nat \<Rightarrow> (nat \<times> nat) option" where
  "read_ebml_id data pos =
     (case idx data pos of
        None \<Rightarrow> None
      | Some first \<Rightarrow>
          let len = leading_zeros first + 1 in
          if len = 0 \<or> len > 4 \<or> pos + len > length data then None
          else Some (be_nat (take len (drop pos data)), len))"

text \<open>\<open>0xffu8 >> len\<close> panics when \<open>len\<close> is the width of the byte. The size itself is None when it is unknown,
  that is, when all of its bits are set.\<close>

definition u8_shr :: "u8 \<Rightarrow> nat \<Rightarrow> u8 option" where
  "u8_shr b n = (if n < 8 then Some (drop_bit n b) else None)"

definition read_ebml_size :: "bytes \<Rightarrow> nat \<Rightarrow> (u64 option \<times> nat) option option" where
  "read_ebml_size data pos =
     (case idx data pos of
        None \<Rightarrow> Some None
      | Some first \<Rightarrow>
          let len = leading_zeros first + 1 in
          if len = 0 \<or> len > 8 \<or> pos + len > length data then Some None
          else do {
            mask \<leftarrow> u8_shr 0xff len;
            rest \<leftarrow> subslice data (pos + 1) (pos + len);
            let v = foldl (\<lambda>v b. push_bit 8 v OR ucast b) (ucast (first AND mask)) rest :: u64;
                unknown = (v = 2 ^ (7 * len) - 1) in
            Some (Some (if unknown then None else Some v, len)) })"

record ebml_elem =
  ee_id :: nat
  ee_start :: nat
  ee_stop :: nat

definition read_ebml_elem :: "bytes \<Rightarrow> nat \<Rightarrow> nat \<Rightarrow> ebml_elem option option" where
  "read_ebml_elem data pos limit =
     (case read_ebml_id data pos of
        None \<Rightarrow> Some None
      | Some (elem_id, id_len) \<Rightarrow> do {
          r \<leftarrow> read_ebml_size data (pos + id_len);
          case r of
            None \<Rightarrow> Some None
          | Some (size_opt, size_len) \<Rightarrow>
              let start = pos + id_len + size_len in
              Some (do {
                nbytes \<leftarrow> size_opt;
                stop \<leftarrow> uadd start (unat nbytes);
                if stop > limit \<or> stop > length data then None
                else Some \<lparr>ee_id = elem_id, ee_start = start, ee_stop = stop\<rparr> }) })"

definition is_ebml_master :: "nat \<Rightarrow> bool" where
  "is_ebml_master i = (i \<in> {0x1a45dfa3, 0x18538067, 0x1549a966, 0x1654ae6b, 0xae, 0xe0, 0xe1})"

definition ebml_uint :: "bytes \<Rightarrow> i64 option" where
  "ebml_uint data = (if length data > 8 then None else Some (foldl (\<lambda>v b. push_bit 8 v OR ucast b) 0 data))"

definition ebml_float :: "bytes \<Rightarrow> f64 option" where
  "ebml_float data =
     (if length data = 4 then Some (f64_from_f32_bits (be_nat data))
      else if length data = 8 then Some (f64_from_bits (be_nat data)) else None)"

definition ebml_string :: "bytes \<Rightarrow> str" where
  "ebml_string data = trim_matches (\<lambda>c. c = 0) (utf8_lossy data)"

section \<open>Tracks\<close>

record ebml_track =
  et_track_number :: "i64 option"
  et_track_type :: "i64 option"
  et_codec_id :: "str option"
  et_pixel_width :: "i64 option"
  et_pixel_height :: "i64 option"
  et_display_width :: "i64 option"
  et_display_height :: "i64 option"
  et_sample_rate :: "i64 option"
  et_channels :: "i64 option"
  et_bit_depth :: "i64 option"

record ebml_state =
  eb_doc_type :: "str option"
  eb_timecode_scale :: "i64 option"
  eb_duration_ms :: "i64 option"
  eb_tracks :: "ebml_track list"

definition default_ebml_track :: ebml_track where
  "default_ebml_track = \<lparr>et_track_number = None, et_track_type = None, et_codec_id = None, et_pixel_width = None,
     et_pixel_height = None, et_display_width = None, et_display_height = None, et_sample_rate = None,
     et_channels = None, et_bit_depth = None\<rparr>"

definition default_ebml_state :: ebml_state where
  "default_ebml_state = \<lparr>eb_doc_type = None, eb_timecode_scale = None, eb_duration_ms = None, eb_tracks = []\<rparr>"

text \<open>The numbers of the fields, of the tracks and of the other masters are distinct.\<close>

definition track_field :: "nat \<Rightarrow> bytes \<Rightarrow> ebml_track \<Rightarrow> ebml_track" where
  "track_field i payload t =
     (if i = 0xd7 then t\<lparr>et_track_number := ebml_uint payload\<rparr>
      else if i = 0x83 then t\<lparr>et_track_type := ebml_uint payload\<rparr>
      else if i = 0x86 then t\<lparr>et_codec_id := Some (ebml_string payload)\<rparr>
      else if i = 0xb0 then t\<lparr>et_pixel_width := ebml_uint payload\<rparr>
      else if i = 0xba then t\<lparr>et_pixel_height := ebml_uint payload\<rparr>
      else if i = 0x54b0 then t\<lparr>et_display_width := ebml_uint payload\<rparr>
      else if i = 0x54ba then t\<lparr>et_display_height := ebml_uint payload\<rparr>
      else if i = 0xb5
      then t\<lparr>et_sample_rate := map_option (\<lambda>x. word_of_int (f64_round_i64 x)) (ebml_float payload)\<rparr>
      else if i = 0x9f then t\<lparr>et_channels := ebml_uint payload\<rparr>
      else if i = 0x6264 then t\<lparr>et_bit_depth := ebml_uint payload\<rparr>
      else t)"

definition state_field :: "nat \<Rightarrow> bytes \<Rightarrow> ebml_state \<Rightarrow> ebml_state" where
  "state_field i payload st =
     (if i = 0x4282 then st\<lparr>eb_doc_type := Some (ebml_string payload)\<rparr>
      else if i = 0x2ad7b1 then st\<lparr>eb_timecode_scale := ebml_uint payload\<rparr>
      else if i = 0x4489 then
        (case ebml_float payload of
            None \<Rightarrow> st
          | Some duration \<Rightarrow>
              let scale = f64_of_int (case eb_timecode_scale st of Some s \<Rightarrow> sint s | None \<Rightarrow> 1000000) in
              st\<lparr>eb_duration_ms := Some (word_of_int (f64_round_i64 (f64_div (f64_mul duration scale) 1000000)))\<rparr>)
      else st)"

lemma read_ebml_elem_bounds:
  "read_ebml_elem data pos limit = Some (Some e) \<Longrightarrow>
   pos < ee_start e \<and> ee_start e \<le> ee_stop e \<and> ee_stop e \<le> limit \<and> ee_stop e \<le> length data"
  by (auto simp: read_ebml_elem_def read_ebml_id_def Let_def uadd_def bind_eq_Some_conv split: option.splits if_splits)

text \<open>Both readers descend into the nested elements of a master and then go on after it. The guard
  \<open>elem.end <= pos\<close> of the code never holds, because an element is never empty.\<close>

function parse_ebml_track :: "bytes \<Rightarrow> nat \<Rightarrow> nat \<Rightarrow> nat \<Rightarrow> ebml_track \<Rightarrow> ebml_track option" where
  "parse_ebml_track data pos stop depth track =
     (if depth > 64 then Some track
      else do {
        r \<leftarrow> read_ebml_elem data pos stop;
        case r of
          None \<Rightarrow> Some track
        | Some e \<Rightarrow> do {
            payload \<leftarrow> subslice data (ee_start e) (ee_stop e);
            track1 \<leftarrow> (if is_ebml_master (ee_id e)
                then parse_ebml_track data (ee_start e) (ee_stop e) (depth + 1) track
                else Some (track_field (ee_id e) payload track));
            if ee_stop e \<le> pos then Some track1 else parse_ebml_track data (ee_stop e) stop depth track1 } })"
  by pat_completeness auto
termination
  by (relation "measures [\<lambda>(_, _, _, depth, _). 65 - depth, \<lambda>(_, pos, stop, _, _). stop - pos]")
     (auto dest!: read_ebml_elem_bounds)

function parse_ebml_range :: "bytes \<Rightarrow> nat \<Rightarrow> nat \<Rightarrow> nat \<Rightarrow> ebml_state \<Rightarrow> ebml_state option" where
  "parse_ebml_range data pos stop depth st =
     (if depth > 64 then Some st
      else do {
        r \<leftarrow> read_ebml_elem data pos stop;
        case r of
          None \<Rightarrow> Some st
        | Some e \<Rightarrow> do {
            payload \<leftarrow> subslice data (ee_start e) (ee_stop e);
            st1 \<leftarrow> (if ee_id e = 0xae then
                  map_option (\<lambda>track. st\<lparr>eb_tracks := eb_tracks st @ [track]\<rparr>)
                    (parse_ebml_track data (ee_start e) (ee_stop e) (depth + 1) default_ebml_track)
                else if is_ebml_master (ee_id e)
                then parse_ebml_range data (ee_start e) (ee_stop e) (depth + 1) st
                else Some (state_field (ee_id e) payload st));
            if ee_stop e \<le> pos then Some st1 else parse_ebml_range data (ee_stop e) stop depth st1 } })"
  by pat_completeness auto
termination
  by (relation "measures [\<lambda>(_, _, _, depth, _). 65 - depth, \<lambda>(_, pos, stop, _, _). stop - pos]")
     (auto dest!: read_ebml_elem_bounds)

declare parse_ebml_track.simps [simp del] parse_ebml_range.simps [simp del]

section \<open>The file\<close>

definition is_matroska :: "bytes \<Rightarrow> bool" where
  "is_matroska data = starts_with data [0x1a, 0x45, 0xdf, 0xa3]"

definition matroska_codec :: "str \<Rightarrow> str" where
  "matroska_codec codec_id =
     (case map_of (map (\<lambda>(k, v). (ascii k, ascii v))
        [(''V_VP8'', ''vp8''), (''V_VP9'', ''vp9''), (''V_AV1'', ''av1''), (''V_MPEG4/ISO/AVC'', ''h264''),
         (''V_MPEGH/ISO/HEVC'', ''h265''), (''A_OPUS'', ''opus''), (''A_VORBIS'', ''vorbis''), (''A_FLAC'', ''flac''),
         (''A_AAC'', ''aac''), (''A_AAC/MPEG4/LC'', ''aac'')]) codec_id of
        Some c \<Rightarrow> c | None \<Rightarrow> codec_id)"

definition matroska_stream_type :: "i64 option \<Rightarrow> str" where
  "matroska_stream_type t =
     (if t = Some 1 then ascii ''video'' else if t = Some 2 then ascii ''audio''
      else if t = Some 17 then ascii ''subtitle'' else ascii ''metadata'')"

definition matroska_stream :: "(jvalue \<Rightarrow> str) \<Rightarrow> ebml_state \<Rightarrow> nat \<times> ebml_track \<Rightarrow> media_stream" where
  "matroska_stream to_json st entry =
     (let (i, track) = entry in
      default_stream\<lparr>ms_stream_index := word_of_nat i, ms_stream_type := matroska_stream_type (et_track_type track),
        ms_codec := map_option matroska_codec (et_codec_id track), ms_codec_tag := et_codec_id track,
        ms_width := et_pixel_width track, ms_height := et_pixel_height track,
        ms_coded_width := et_pixel_width track, ms_coded_height := et_pixel_height track,
        ms_duration_ms := eb_duration_ms st, ms_sample_rate := et_sample_rate track,
        ms_channels := et_channels track, ms_bit_depth := et_bit_depth track,
        ms_details_json := Some (to_json (v_obj [(''track_number'', v_opt v_i64 (et_track_number track)),
          (''display_width'', v_opt v_i64 (et_display_width track)),
          (''display_height'', v_opt v_i64 (et_display_height track)),
          (''doc_type'', v_opt VStr (eb_doc_type st))]))\<rparr>)"

definition matroska_streams :: "(jvalue \<Rightarrow> str) \<Rightarrow> ebml_state \<Rightarrow> media_stream list" where
  "matroska_streams to_json st =
     (let streams = map (matroska_stream to_json st) (zip [0..<length (eb_tracks st)] (eb_tracks st)) in
      if streams = [] then
        [default_stream\<lparr>ms_stream_type := ascii ''metadata'', ms_codec := eb_doc_type st,
          ms_details_json := Some (to_json (v_obj [(''doc_type'', v_opt VStr (eb_doc_type st)),
            (''duration_ms'', v_opt v_i64 (eb_duration_ms st)),
            (''timecode_scale'', v_opt v_i64 (eb_timecode_scale st))]))\<rparr>]
      else streams)"

definition parse_matroska :: "(jvalue \<Rightarrow> str) \<Rightarrow> bytes \<Rightarrow> parsed_media option" where
  "parse_matroska to_json data =
     map_option (\<lambda>st.
       let detected = (if eb_doc_type st = Some (ascii ''webm'') then ascii ''webm'' else ascii ''mkv'');
           streams = matroska_streams to_json st;
           has_video = (\<exists>s \<in> set streams. ms_stream_type s = ascii ''video'');
           has_audio = (\<exists>s \<in> set streams. ms_stream_type s = ascii ''audio'')
       in \<lparr>pm_media_kind = (if has_video then ascii ''video'' else if has_audio then ascii ''audio'' else ascii ''unknown''),
            pm_container = ascii ''matroska'', pm_detected_format = detected,
            pm_mime = Some (if detected = ascii ''webm'' then ascii ''video/webm'' else ascii ''video/x-matroska''),
            pm_scan_status = (if has_video \<or> has_audio then ascii ''ok'' else ascii ''partial''),
            pm_error = (if has_video \<or> has_audio then None
               else Some (ascii ''Matroska tracks not found in probe window'')),
            pm_streams = streams, pm_features = []\<rparr>)
       (parse_ebml_range data 0 (length data) 0 default_ebml_state)"

end
