(* ===== verification/Media_Probe.thy ===== *)
theory Media_Probe imports Media_Iso Media_Matroska Outcome begin

text \<open>
  The probe of a media file (\<open>media_info.rs\<close>): which windows of the file are read, and which parser
  gets them.

  The library \<open>infer\<close>, which guesses a type and an extension from magic numbers, is the parameter
  \<open>infer\<close>; the texts of environment variables are arguments.
\<close>

section \<open>Documents\<close>

definition is_zero_filled_probe :: "bytes \<Rightarrow> bool" where
  "is_zero_filled_probe data = (data \<noteq> [] \<and> list_all (\<lambda>b. b = 0) data)"

definition is_pdf :: "bytes \<Rightarrow> bool" where
  "is_pdf data = starts_with data (ascii_bytes ''%PDF-'')"

definition trim_xml_probe_start :: "bytes \<Rightarrow> bytes" where
  "trim_xml_probe_start data =
     dropWhile (\<lambda>b. is_ascii_whitespace (unat b)) (if starts_with data [0xef, 0xbb, 0xbf] then drop 3 data else data)"

definition eq_ignore_ascii_case :: "bytes \<Rightarrow> bytes \<Rightarrow> bool" where
  "eq_ignore_ascii_case a b = (to_ascii_lowercase (map unat a) = to_ascii_lowercase (map unat b))"

definition is_svg :: "bytes \<Rightarrow> bool" where
  "is_svg data =
     (let trimmed = trim_xml_probe_start data in
      starts_with trimmed (ascii_bytes ''<svg'')
      \<or> list_ex (\<lambda>w. eq_ignore_ascii_case w (ascii_bytes ''<svg'')) (take 512 (windows 4 trimmed)))"

definition is_xml_document :: "bytes \<Rightarrow> media_file \<Rightarrow> bool" where
  "is_xml_document data file =
     (mfl_extension file = Some (ascii ''xml'') \<or> mfl_mime file = Some (ascii ''text/xml'')
      \<or> starts_with (trim_xml_probe_start data) (ascii_bytes ''<?xml''))"

definition format_from_mime :: "str \<Rightarrow> str option" where
  "format_from_mime mime = Some (last (split_on 0x2F mime))"

definition unsupported :: "media_file \<Rightarrow> parsed_media" where
  "unsupported file = \<lparr>pm_media_kind = ascii ''unknown'', pm_container = ascii ''unknown'',
     pm_detected_format = (case or_else (Option.bind (mfl_mime file) format_from_mime) (mfl_extension file) of
        Some f \<Rightarrow> f | None \<Rightarrow> ascii ''unknown''),
     pm_mime = mfl_mime file, pm_scan_status = ascii ''unsupported'',
     pm_error = Some (ascii ''unsupported or unknown media format''), pm_streams = [], pm_features = []\<rparr>"

definition document :: "string \<Rightarrow> string \<Rightarrow> parsed_media" where
  "document format mime = \<lparr>pm_media_kind = ascii ''document'', pm_container = ascii ''unknown'',
     pm_detected_format = ascii format, pm_mime = Some (ascii mime), pm_scan_status = ascii ''ok'',
     pm_error = None, pm_streams = [], pm_features = []\<rparr>"

definition zero_filled_placeholder :: "media_file \<Rightarrow> bool \<Rightarrow> parsed_media" where
  "zero_filled_placeholder file prefix_only = \<lparr>pm_media_kind = ascii ''unknown'', pm_container = ascii ''unknown'',
     pm_detected_format = (case mfl_extension file of Some e \<Rightarrow> e | None \<Rightarrow> ascii ''unknown''), pm_mime = None,
     pm_scan_status = ascii ''unsupported'',
     pm_error = Some (if prefix_only then ascii ''zero-filled placeholder probe prefix''
        else ascii ''zero-filled placeholder''),
     pm_streams = [], pm_features = []\<rparr>"

section \<open>The choice of the parser\<close>

record media_env =
  me_to_json :: "jvalue \<Rightarrow> str"
  me_from_json :: "str \<Rightarrow> jvalue option"
  me_infer :: "bytes \<Rightarrow> (str \<times> str) option"

definition choose_parser ::
  "media_env \<Rightarrow> bytes \<Rightarrow> tail_probe option \<Rightarrow> u64 \<Rightarrow> media_file \<Rightarrow> parsed_media option" where
  "choose_parser env data tail file_size file =
     (let to_json = me_to_json env in
      if is_zero_filled_probe data then Some (zero_filled_placeholder file (unat file_size > length data))
      else if is_jpeg data then parse_jpeg_with_file_size to_json data file_size
      else if is_png data then parse_png_with_file_size to_json data file_size
      else if is_gif data then parse_gif_with_file_size to_json data file_size
      else if is_webp data then parse_webp_with_file_size to_json data file_size
      else if is_jp2 data \<or> is_j2k data then parse_jpeg2000 to_json data
      else if is_jxl data then Some (parse_jpeg_xl to_json data)
      else if is_iso_bmff data then parse_iso_bmff_with_tail to_json (me_from_json env) data tail file_size
      else if is_riff data then parse_riff to_json data file_size
      else do {
        mp3 \<leftarrow> is_mp3 data;
        if mp3 then parse_mp3 to_json data file_size
        else if is_flac data then parse_flac to_json data
        else if is_ogg data then parse_ogg to_json data
        else if is_matroska data then parse_matroska to_json data
        else if is_silk data then Some (parse_silk to_json data file_size)
        else if is_pdf data then Some (document ''pdf'' ''application/pdf'')
        else if is_svg data then Some (parse_svg to_json data)
        else if is_xml_document data file then Some (document ''xml'' ''text/xml'')
        else Some (unsupported file) })"

definition parse_media_with_tail ::
  "media_env \<Rightarrow> bytes \<Rightarrow> tail_probe option \<Rightarrow> u64 \<Rightarrow> media_file \<Rightarrow> media_probe option" where
  "parse_media_with_tail env data tail file_size file0 =
     (let file = (case me_infer env data of
          Some (mime, ext) \<Rightarrow> file0\<lparr>mfl_mime := Some mime, mfl_detected_format := ext\<rparr> | None \<Rightarrow> file0) in
      map_option (\<lambda>parsed.
        let file1 = file\<lparr>mfl_media_kind := pm_media_kind parsed, mfl_container := pm_container parsed,
              mfl_detected_format := pm_detected_format parsed\<rparr>;
            file2 = (if mfl_mime file1 = None then file1\<lparr>mfl_mime := pm_mime parsed\<rparr> else file1)
        in \<lparr>mp_file = file2\<lparr>mfl_scan_status := pm_scan_status parsed, mfl_error := pm_error parsed\<rparr>,
            mp_streams = pm_streams parsed, mp_codec_features = pm_features parsed\<rparr>)
        (choose_parser env data tail file_size file))"

section \<open>The windows of the file\<close>

definition max_probe_read_bytes :: nat where "max_probe_read_bytes = 64 * 1024 * 1024"
definition default_probe_read_bytes :: nat where "default_probe_read_bytes = 4 * 1024 * 1024"
definition default_mp4_tail_read_bytes :: nat where "default_mp4_tail_read_bytes = 8 * 1024 * 1024"

definition parse_u64 :: "str \<Rightarrow> nat option" where
  "parse_u64 s =
     (let ds = (case s of c # r \<Rightarrow> if c = 0x2B \<and> r \<noteq> [] then r else s | [] \<Rightarrow> s) in
      if ds \<noteq> [] \<and> list_all is_ascii_digit ds \<and> digits_number ds < 2 ^ 64 then Some (digits_number ds) else None)"

definition env_bytes :: "str option \<Rightarrow> nat \<Rightarrow> nat" where
  "env_bytes var default_bytes =
     min (case Option.bind var (\<lambda>v. parse_u64 (trim v)) of Some n \<Rightarrow> if n > 0 then n else default_bytes
          | None \<Rightarrow> default_bytes) max_probe_read_bytes"

definition probe_read_bytes :: "str option \<Rightarrow> nat" where
  "probe_read_bytes var = env_bytes var default_probe_read_bytes"

definition mp4_tail_read_bytes :: "str option \<Rightarrow> nat" where
  "mp4_tail_read_bytes var = env_bytes var default_mp4_tail_read_bytes"

function top_level_box_from :: "bytes \<Rightarrow> bytes \<Rightarrow> nat \<Rightarrow> bool" where
  "top_level_box_from data typ pos =
     (case read_box data pos (length data) of
        None \<Rightarrow> False
      | Some h \<Rightarrow>
          if bx_typ h = typ then True
          else if bx_stop h \<le> pos \<or> bx_stop h \<ge> length data then False
          else top_level_box_from data typ (bx_stop h))"
  by pat_completeness auto
termination
  by (relation "measure (\<lambda>(data, _, pos). length data - pos)") (auto dest: read_box_shrinks)

declare top_level_box_from.simps [simp del]

definition has_complete_top_level_box :: "bytes \<Rightarrow> bytes \<Rightarrow> bool" where
  "has_complete_top_level_box data typ = top_level_box_from data typ 0"

definition should_read_iso_bmff_tail :: "bytes \<Rightarrow> nat \<Rightarrow> bool" where
  "should_read_iso_bmff_tail head file_size =
     (file_size > length head \<and> is_iso_bmff head \<and> \<not> has_complete_top_level_box head (ascii_bytes ''moov''))"

datatype tail_read_plan = Append_window nat nat | Tail_window nat nat

definition mp4_tail_read_plan :: "str option \<Rightarrow> bytes \<Rightarrow> nat \<Rightarrow> tail_read_plan option" where
  "mp4_tail_read_plan var head file_size =
     (if \<not> should_read_iso_bmff_tail head file_size then None
      else let head_len = length head in
        if file_size \<le> head_len then None
        else let remaining_budget = max_probe_read_bytes - head_len in
          if remaining_budget = 0 then None
          else let tail_len = min (min (mp4_tail_read_bytes var) file_size) remaining_budget in
            if tail_len = 0 then None
            else let tail_offset = file_size - tail_len in
              if tail_offset \<le> head_len then
                let extra_len = min (file_size - head_len) remaining_budget in
                if extra_len > 0 then Some (Append_window head_len extra_len) else None
              else Some (Tail_window tail_offset tail_len))"

text \<open>\<open>read_file_window\<close> of a file with the content \<open>file\<close>; \<open>file_size\<close> is the size its entry had when
  the directory was read. The result of \<open>read_mp4_tail_if_needed\<close> is the new head and the tail.\<close>

definition file_window :: "bytes \<Rightarrow> nat \<Rightarrow> nat \<Rightarrow> bytes" where
  "file_window file offset n = take n (drop offset file)"

definition read_mp4_tail_if_needed :: "str option \<Rightarrow> bytes \<Rightarrow> bytes \<Rightarrow> nat \<Rightarrow> bytes \<times> tail_probe option" where
  "read_mp4_tail_if_needed var file head file_size =
     (case mp4_tail_read_plan var head file_size of
        None \<Rightarrow> (head, None)
      | Some (Append_window offset n) \<Rightarrow> (head @ file_window file offset n, None)
      | Some (Tail_window offset n) \<Rightarrow>
          (head, Some \<lparr>tp_offset = word_of_nat offset, tp_data = file_window file offset n\<rparr>))"

section \<open>The probe of a file\<close>

datatype media_error = Cannot_open

text \<open>\<open>file\<close> is the content of the file, or None when it cannot be opened; \<open>sha256\<close> is the digest of a
  content as text, taken with \<open>HashMode::Full\<close>; \<open>record0\<close> is the record made from the entry.\<close>

definition probe_entry_timed ::
  "media_env \<Rightarrow> str option \<Rightarrow> str option \<Rightarrow> (bytes \<Rightarrow> str) option \<Rightarrow> i64 \<Rightarrow> bytes option \<Rightarrow> media_file
    \<Rightarrow> (media_error, media_probe) outcome" where
  "probe_entry_timed env read_var tail_var sha256 entry_size file record0 =
     (case file of
        None \<Rightarrow> Err Cannot_open
      | Some content \<Rightarrow>
          let file_size = nat (max (sint entry_size) 0);
              head = file_window content 0 (min file_size (probe_read_bytes read_var));
              (data, tail) = read_mp4_tail_if_needed tail_var content head file_size;
              record1 = (case sha256 of Some digest \<Rightarrow> record0\<lparr>mfl_sha256_hex := Some (digest content)\<rparr> | None \<Rightarrow> record0)
          in if data = [] then
               Ok \<lparr>mp_file = record1\<lparr>mfl_scan_status := ascii ''unsupported'', mfl_error := Some (ascii ''empty file'')\<rparr>,
                   mp_streams = [], mp_codec_features = []\<rparr>
             else or_panic (parse_media_with_tail env data tail (word_of_nat file_size) record1))"

end
