(* ===== verification/Media_Safety.thy ===== *)
theory Media_Safety imports Media_Probe begin

text \<open>
  The parsers of media files do not panic, whatever the bytes are, with one exception: the size of an EBML
  element of eight bytes.
\<close>

section \<open>Readers inside their buffer\<close>

lemma idx_total: "i < length xs \<Longrightarrow> idx xs i = Some (xs ! i)"
  by (simp add: idx_def)

lemma subslice_total: "a \<le> b \<Longrightarrow> b \<le> length xs \<Longrightarrow> subslice xs a b = Some (take (b - a) (drop a xs))"
  by (simp add: subslice_def)

lemmas in_buffer = be16_at_Some be32_at_Some be64_at_Some le16_at_Some le32_at_Some idx_total subslice_total

lemma u24_total: "length data = 3 \<Longrightarrow> \<exists>v. read_u24le data = Some v" "length data = 3 \<Longrightarrow> \<exists>v. read_u24be data = Some v"
  by (simp_all add: read_u24le_def read_u24be_def idx_total)

lemma total_if:
  "(c \<Longrightarrow> \<exists>r. x = Some r) \<Longrightarrow> (\<not> c \<Longrightarrow> \<exists>r. y = Some r) \<Longrightarrow> \<exists>r. (if c then x else y) = Some r"
  by simp

text \<open>A loop over a buffer by its distance from the end.\<close>

lemma buffer_induct:
  fixes data :: "'a list"
  assumes "\<And>pos st. (\<And>q st'. pos < q \<Longrightarrow> pos < length data \<Longrightarrow> P q st') \<Longrightarrow> P pos st"
  shows "P pos st"
proof (induction "length data - pos" arbitrary: pos st rule: less_induct)
  case less
  show ?case by (rule assms) (rule less, simp)
qed

section \<open>Images\<close>

lemma jpeg_subsampling_total: "\<exists>r. jpeg_subsampling sof = Some r"
proof (cases "length sof < 6 \<or> sof ! 5 = 0 \<or> length sof < 6 + unat (sof ! 5) * 3 \<or> unat (sof ! 5) = 1")
  case True
  then show ?thesis by (auto simp: jpeg_subsampling_def Let_def)
next
  case False
  then have "unat (sof ! 5) \<noteq> 0" by (simp add: unat_eq_zero)
  then have "7 < length sof" using False by linarith
  then show ?thesis by (simp add: jpeg_subsampling_def Let_def idx_total)
qed

lemma jpeg_segment_total: "\<exists>st'. jpeg_segment marker seg st = Some st'"
  using jpeg_subsampling_total [of seg] by (auto simp: jpeg_segment_def Let_def in_buffer)

lemma skip_ff_ge: "pos \<le> skip_ff data pos"
  by (simp add: skip_ff_def)

lemma jpeg_loop_total: "\<exists>st'. jpeg_loop data pos st = Some st'"
proof (induction pos st rule: buffer_induct [where data = data])
  case (1 pos st)
  obtain f where f: "\<And>m seg st. jpeg_segment m seg st = Some (f m seg st)" using jpeg_segment_total by metis
  have s: "pos < Suc (skip_ff data pos + n)" for n using skip_ff_ge [of pos data] by simp
  show ?case using s [of 0] s
    by (subst jpeg_loop.simps) (auto simp: Let_def in_buffer f intro!: 1 split: option.split)
qed

lemma parse_jpeg_total: "\<exists>p. parse_jpeg_with_file_size to_json data file_size = Some p"
  using jpeg_loop_total [of data 2 jpeg_start] by (auto simp: parse_jpeg_with_file_size_def)

lemma png_chunk_total: "\<exists>st'. png_chunk chunk_type chunk st = Some st'"
  by (auto simp: png_chunk_def in_buffer)

lemma png_loop_total: "\<exists>r. png_loop data pos st = Some r"
proof (induction pos st rule: buffer_induct [where data = data])
  case (1 pos st)
  obtain f where f: "\<And>m seg st. png_chunk m seg st = Some (f m seg st)" using png_chunk_total by metis
  show ?case by (subst png_loop.simps) (auto simp: Let_def in_buffer f simp del: split_paired_Ex intro!: 1)
qed

lemma parse_png_total: "\<exists>p. parse_png_with_file_size to_json data file_size = Some p"
  using png_loop_total [of data 8 png_start] by (auto simp: parse_png_with_file_size_def)

lemma gif_application_total: "\<exists>r. gif_application data pos st = Some r"
  by (auto simp: gif_application_def Let_def in_buffer)

lemma gif_loop_total: "\<exists>r. gif_loop data pos st = Some r"
proof (induction pos st rule: buffer_induct [where data = data])
  case (1 pos st)
  obtain f where f: "\<And>p st. gif_application data p st = Some (f p st)" using gif_application_total [of data] by metis
  have blocks: "\<exists>r. (case skip_gif_subblocks data p of Some nxt \<Rightarrow> gif_loop data nxt st' | None \<Rightarrow> Some st'') = Some r"
    if "pos < length data" "pos \<le> p" for p st' st''
  proof (cases "skip_gif_subblocks data p")
    case (Some q)
    then have "pos < q" using skip_gif_subblocks_bounds that(2) by fastforce
    then show ?thesis using 1 [OF _ that(1), of q st'] Some by simp
  qed simp
  have app: "\<exists>r. (case f (pos + 2) st of None \<Rightarrow> Some (gif_cut st)
      | Some (q, st1) \<Rightarrow> (case skip_gif_subblocks data q of Some nxt \<Rightarrow> gif_loop data nxt st1
                       | None \<Rightarrow> Some (gif_cut st1))) = Some r" if "pos < length data"
  proof (cases "f (pos + 2) st")
    case (Some a)
    obtain q st1 where a: "a = (q, st1)" by (cases a)
    have "pos \<le> q" using gif_application_forward f [of "pos + 2" st] Some a by fastforce
    then show ?thesis using blocks [OF that, of q "gif_cut st1" st1] Some a by simp
  qed simp
  have pal: "pos \<le> Suc (saturating_add (pos + 10) n)" for n using saturating_add_ge [of "pos + 10" n] by simp
  have ih: "\<exists>r. gif_loop data (pos + 2 + 6) st' = Some r" if "pos < length data" for st'
    using 1 [of "pos + 2 + 6" st'] that by simp
  show ?case
    unfolding gif_loop.simps [of data pos st] Let_def f bind.bind_lunit
    by (intro total_if) (use app ih blocks pal in \<open>simp_all split del: option.split\<close>)
qed

lemma parse_gif_total:
  assumes "6 \<le> length data"
  shows "\<exists>p. parse_gif_with_file_size to_json data file_size = Some p"
proof -
  obtain f where f: "\<And>pos st. gif_loop data pos st = Some (f pos st)" using gif_loop_total [of data] by metis
  show ?thesis using assms unfolding parse_gif_with_file_size_def Let_def
    by (simp add: f in_buffer split: prod.split)
qed

lemma webp_chunk_total: "\<exists>st'. webp_chunk typ chunk st = Some st'"
proof -
  have r: "\<exists>v. read_u24le (take 3 (drop i chunk)) = Some v" if "i + 3 \<le> length chunk" for i
    using u24_total(1) [of "take 3 (drop i chunk)"] that by simp
  show ?thesis
  proof (cases "typ = ascii ''VP8X'' \<and> length chunk \<ge> 10")
    case True
    then show ?thesis using r [of 4] r [of 7] by (auto simp: webp_chunk_def in_buffer)
  next
    case False
    then show ?thesis by (auto simp: webp_chunk_def Let_def in_buffer)
  qed
qed

lemma webp_loop_total: "\<exists>r. webp_loop data pos st = Some r"
proof (induction pos st rule: buffer_induct [where data = data])
  case (1 pos st)
  obtain f where f: "\<And>m seg st. webp_chunk m seg st = Some (f m seg st)" using webp_chunk_total by metis
  show ?case by (subst webp_loop.simps) (auto simp: Let_def in_buffer f simp del: split_paired_Ex intro!: 1)
qed

lemma parse_webp_total: "\<exists>p. parse_webp_with_file_size to_json data file_size = Some p"
  using webp_loop_total [of data 12 webp_start] by (auto simp: parse_webp_with_file_size_def)

lemma j2k_segment_total: "\<exists>st'. j2k_segment marker seg st = Some st'"
  by (auto simp: j2k_segment_def Let_def in_buffer)

lemma j2k_loop_total: "\<exists>r. j2k_loop data pos st = Some r"
proof (induction pos st rule: buffer_induct [where data = data])
  case (1 pos st)
  obtain f where f: "\<And>m seg st. j2k_segment m seg st = Some (f m seg st)" using j2k_segment_total by metis
  show ?case by (subst j2k_loop.simps) (auto simp: Let_def in_buffer f intro!: 1 split: option.split)
qed

lemma jp2_box_total:
  assumes "bx_data_start h \<le> bx_stop h" "bx_stop h \<le> length data"
  shows "\<exists>st'. jp2_box data h st = Some st'"
proof -
  have inner: "\<exists>st'. fold_boxes (jp2_header_box data) data (bx_data_start h) (bx_stop h) st = Some st'" for st
    by (rule fold_boxes_total) (auto simp: jp2_header_box_def in_buffer Let_def)
  obtain st1 where "(if bx_typ h = ascii_bytes ''jp2h''
      then fold_boxes (jp2_header_box data) data (bx_data_start h) (bx_stop h) st else Some st) = Some st1"
    using inner by (cases "bx_typ h = ascii_bytes ''jp2h''") auto
  then show ?thesis using assms j2k_loop_total by (simp add: jp2_box_def in_buffer parse_j2k_codestream_def)
qed

lemma parse_jpeg2000_total: "\<exists>p. parse_jpeg2000 to_json data = Some p"
proof -
  have "\<exists>st. fold_boxes (jp2_box data) data 0 (length data) j2k_start = Some st"
    by (rule fold_boxes_total) (rule jp2_box_total)
  then show ?thesis using j2k_loop_total [of data _ j2k_start]
    by (auto simp: parse_jpeg2000_def parse_j2k_codestream_def)
qed

section \<open>ISO files\<close>

lemma bits_loop_total: "pos + n \<le> length data * 8 \<Longrightarrow> \<exists>v. bits_loop data pos n v0 = Some v"
proof (induction n arbitrary: pos v0)
  case (Suc n)
  have "pos div 8 < length data" using Suc.prems by (simp add: less_mult_imp_div_less)
  then show ?case using Suc.IH [of "pos + 1"] Suc.prems by (simp add: idx_total)
qed simp

lemma read_bits_total: "\<exists>r. read_bits data pos n = Some r"
  using bits_loop_total [of pos n data 0] by (auto simp: read_bits_def)

lemma audio_config_total: "\<exists>info'. parse_audio_specific_config data info = Some info'"
proof -
  obtain f where f: "\<And>pos n. read_bits data pos n = Some (f pos n)" using read_bits_total [of data] by metis
  show ?thesis
    by (simp add: parse_audio_specific_config_def audio_object_type_at_def f split: option.split prod.split)
qed

lemma parse_es_descriptors_total: "\<exists>info'. parse_es_descriptors data depth info = Some info'"
proof (induction data depth info rule: parse_es_descriptors.induct)
  case (1 data depth info)
  note loop = parse_es_descriptors.simps [of data depth info]
  show ?case
  proof (cases "depth \<ge> 8 \<or> length data < 2 \<or> read_descriptor_len (drop 1 data) = None")
    case True
    then show ?thesis using loop by auto
  next
    case False
    then obtain len n where r: "read_descriptor_len (drop 1 data) = Some (len, n)"
      and g: "\<not> depth \<ge> 8" "\<not> length data < 2" by auto
    show ?thesis
    proof (cases "1 + n + len > length data")
      case True
      then show ?thesis using loop g r by simp
    next
      case fits: False
      define payload where "payload = take len (drop (1 + n) data)"
      define step where "step =
         (if data ! 0 = 0x03 then
            if es_nested payload < length payload
            then parse_es_descriptors (drop (es_nested payload) payload) (depth + 1) info else Some info
          else if data ! 0 = 0x04 then
            if length payload \<ge> 13 then do {
              mx \<leftarrow> be32_at payload 5; avg \<leftarrow> be32_at payload 9;
              parse_es_descriptors (drop 13 payload) (depth + 1)
                (info\<lparr>es_object_type := Some (payload ! 0), es_stream_type := Some (drop_bit 2 (payload ! 1)),
                   es_max_bitrate := Some mx, es_avg_bitrate := Some avg\<rparr>) }
            else Some info
          else if data ! 0 = 0x05 then parse_audio_specific_config payload info
          else Some info)"
      note ih = 1 [OF g r refl refl fits refl refl, folded payload_def]
      have "\<exists>info1. step = Some info1"
        using ih(1,2) audio_config_total by (auto simp: step_def in_buffer)
      then obtain info1 where s: "step = Some info1" by blast
      have "parse_es_descriptors data depth info = Option.bind step (parse_es_descriptors (drop (1 + n + len) data) depth)"
        using loop g r fits by (simp add: step_def payload_def Let_def del: parse_es_descriptors.simps)
      then show ?thesis using s ih(3) [of info1] by (simp add: step_def)
    qed
  qed
qed

lemma parse_esds_total: "\<exists>i. parse_esds payload = Some i"
  using parse_es_descriptors_total by (simp add: parse_esds_def)

lemma parse_colr_total: "\<exists>c. parse_colr payload = Some c"
  by (simp add: parse_colr_def Let_def in_buffer)

lemma those_map_Some: "those (map Some xs) = Some xs"
  by (induction xs) auto

lemma be32_details_total: "4 * length names \<le> length p \<Longrightarrow> \<exists>d. be32_details p nm names = Some d"
proof -
  assume "4 * length names \<le> length p"
  then have e: "map (\<lambda>i. be32_at p (4 * i)) [0..<length names]
      = map Some (map (\<lambda>i. u32_from_be (take 4 (drop (4 * i) p))) [0..<length names])"
    by (auto simp: in_buffer)
  show ?thesis unfolding be32_details_def e those_map_Some by simp
qed

lemma box_payload_total:
  "bx_data_start h \<le> bx_stop h \<Longrightarrow> bx_stop h \<le> length data \<Longrightarrow> \<exists>p. box_payload data h = Some p"
  by (simp add: box_payload_def in_buffer)

lemma sample_entry_box_total:
  assumes "bx_data_start h \<le> bx_stop h" "bx_stop h \<le> length entry"
  shows "\<exists>st'. sample_entry_box entry h st = Some st'"
proof -
  obtain p where p: "box_payload entry h = Some p" using box_payload_total [OF assms] by blast
  have "\<exists>st'. esds_box p st = Some st'" "\<exists>st'. colr_box p st = Some st'"
    using parse_esds_total [of p] parse_colr_total [of p] by (simp_all only: esds_box_def colr_box_def map_option_eq_Some) blast+
  then show ?thesis
    unfolding sample_entry_box_def p Let_def bind.bind_lunit by (intro total_if) (simp_all add: be32_details_total)
qed

lemma parse_sample_entry_total: "\<exists>e. parse_sample_entry tag entry = Some e"
proof -
  have "\<exists>r. sample_entry_fields tag entry (new_sample_entry tag) = Some r"
    by (simp add: sample_entry_fields_def in_buffer del: split_paired_Ex)
  then obtain n e where f: "sample_entry_fields tag entry (new_sample_entry tag) = Some (n, e)" by auto
  obtain e1 ds where "fold_boxes (sample_entry_box entry) entry n (length entry) (e, []) = Some (e1, ds)"
    using fold_boxes_total [of "length entry" entry "sample_entry_box entry" n "(e, [])"] sample_entry_box_total by auto
  then show ?thesis by (simp add: parse_sample_entry_def f)
qed

lemma stsd_loop_total: "\<exists>meta'. stsd_loop payload n pos meta = Some meta'"
proof (induction n arbitrary: pos meta)
  case (Suc n)
  obtain f where f: "\<And>tag e. parse_sample_entry tag e = Some (f tag e)" using parse_sample_entry_total by metis
  show ?case using Suc.IH by (simp add: Let_def in_buffer f)
qed simp

lemma track_tables_total:
  "\<exists>meta'. parse_stsd payload meta = Some meta'" "\<exists>meta'. parse_stts payload meta = Some meta'"
  "\<exists>meta'. parse_stsz payload meta = Some meta'" "\<exists>meta'. parse_mdhd payload meta = Some meta'"
  "\<exists>meta'. parse_tkhd payload meta = Some meta'" "\<exists>r. parse_mvhd payload = Some r"
  using stsd_loop_total
  by (simp_all add: parse_stsd_def parse_stts_def parse_stsz_def parse_mdhd_def parse_tkhd_def parse_mvhd_def
      in_buffer Let_def split: prod.split)

lemma parse_stbl_total: "stop \<le> length data \<Longrightarrow> \<exists>meta'. parse_stbl data start stop meta = Some meta'"
  unfolding parse_stbl_def
proof (rule fold_boxes_total)
  fix h :: box_header and st
  assume "bx_data_start h \<le> bx_stop h" "bx_stop h \<le> length data"
  then obtain p where "box_payload data h = Some p" using box_payload_total by blast
  then show "\<exists>st'. stbl_box data h st = Some st'" using track_tables_total by (simp add: stbl_box_def)
qed

lemma parse_minf_total: "\<exists>meta'. parse_minf data start stop meta = Some meta'"
  unfolding parse_minf_def by (rule fold_boxes_total) (simp add: parse_stbl_total)

lemma parse_mdia_total: "\<exists>meta'. parse_mdia data start stop meta = Some meta'"
  unfolding parse_mdia_def
proof (rule fold_boxes_total)
  fix h :: box_header and st
  assume "bx_data_start h \<le> bx_stop h" "bx_stop h \<le> length data"
  then obtain p where "box_payload data h = Some p" using box_payload_total by blast
  then show "\<exists>st'. mdia_box data h st = Some st'" using track_tables_total parse_minf_total by (simp add: mdia_box_def)
qed

lemma parse_trak_total: "\<exists>t. parse_trak to_json data start stop = Some t"
proof -
  have "\<exists>meta. fold_boxes (trak_box data) data start stop default_track_meta = Some meta"
  proof (rule fold_boxes_total)
    fix h :: box_header and st
    assume "bx_data_start h \<le> bx_stop h" "bx_stop h \<le> length data"
    then obtain p where "box_payload data h = Some p" using box_payload_total by blast
    then show "\<exists>st'. trak_box data h st = Some st'" using track_tables_total parse_mdia_total by (simp add: trak_box_def)
  qed
  then show ?thesis by (auto simp: parse_trak_def)
qed

lemma parse_moov_total: "\<exists>m. parse_moov to_json data start stop = Some m"
  unfolding parse_moov_def
proof (rule fold_boxes_total)
  fix h :: box_header and st
  assume "bx_data_start h \<le> bx_stop h" "bx_stop h \<le> length data"
  then obtain p where p: "box_payload data h = Some p" using box_payload_total by blast
  obtain r where r: "parse_mvhd p = Some r" using track_tables_total by blast
  obtain t where "parse_trak to_json data (bx_data_start h) (bx_stop h) = Some t" using parse_trak_total by blast
  then show "\<exists>st'. moov_box to_json data h st = Some st'" by (simp add: moov_box_def p r split: prod.split)
qed

lemma tail_scan_total:
  "\<forall>pos \<in> set ps. pos + 8 \<le> length (tp_data tail) \<Longrightarrow> \<exists>r. tail_scan to_json tail ps fallback = Some r"
proof (induction ps arbitrary: fallback)
  case (Cons pos ps)
  obtain f where f: "\<And>a b. parse_moov to_json (tp_data tail) a b = Some (f a b)" using parse_moov_total by metis
  have ih: "\<exists>r. tail_scan to_json tail ps fallback = Some r" for fallback using Cons by simp
  show ?case using Cons.prems ih
    by (simp add: in_buffer f Let_def split: option.split)
qed simp

lemma iso_head_total: "\<exists>st. iso_head to_json data = Some st"
  unfolding iso_head_def
proof (rule fold_boxes_total)
  fix h :: box_header and st
  assume h: "bx_data_start h \<le> bx_stop h" "bx_stop h \<le> length data"
  obtain m where "parse_moov to_json data (bx_data_start h) (bx_stop h) = Some m" using parse_moov_total by blast
  then show "\<exists>st'. iso_box to_json data h st = Some st'"
    using h by (auto simp: iso_box_def box_payload_def in_buffer)
qed

lemma parse_iso_total: "\<exists>p. parse_iso_bmff_with_tail to_json from_json data tail file_size = Some p"
proof -
  obtain st where st: "iso_head to_json data = Some st" using iso_head_total by blast
  have "\<exists>r. parse_moov_from_tail to_json t = Some r" for t
    unfolding parse_moov_from_tail_def by (rule tail_scan_total) auto
  then have "\<exists>r. iso_with_tail to_json tail st = Some r"
  proof -
    obtain f where f: "\<And>t. parse_moov_from_tail to_json t = Some (f t)"
      using \<open>\<And>t. \<exists>r. parse_moov_from_tail to_json t = Some r\<close> by metis
    show ?thesis by (simp add: iso_with_tail_def f del: split_paired_Ex split: option.split)
  qed
  then obtain st1 o1 where t: "iso_with_tail to_json tail st = Some (st1, o1)" by auto
  show ?thesis unfolding parse_iso_bmff_with_tail_def st t Let_def bind.bind_lunit prod.case
    by (simp split: prod.split)
qed

section \<open>Audio\<close>

lemma wav_loop_total: "\<exists>r. wav_loop data pos st = Some r"
proof (induction pos st rule: buffer_induct [where data = data])
  case (1 pos st)
  have "\<exists>st'. wav_chunk nm chunk st = Some st'" for nm chunk st by (simp add: wav_chunk_def in_buffer)
  then obtain f where f: "\<And>m seg st. wav_chunk m seg st = Some (f m seg st)" by metis
  show ?case by (subst wav_loop.simps) (auto simp: Let_def in_buffer f intro!: 1)
qed

lemma parse_wav_total: "\<exists>p. parse_wav to_json data file_size = Some p"
  using wav_loop_total [of data 12 wav_start] by (auto simp: parse_wav_def)

lemma parse_riff_total: "\<exists>p. parse_riff to_json data file_size = Some p"
  using parse_wav_total parse_webp_total by (simp add: parse_riff_def Let_def)

lemma parse_id3v2_total: "\<exists>r. parse_id3v2 data = Some r"
proof (cases "length data < 10")
  case False
  then have "length (take 4 (drop 6 data)) = 4" by simp
  then obtain n where "synchsafe_u32 (take 4 (drop 6 data)) = Some n"
    by (auto simp: synchsafe_u32_def idx_total)
  then show ?thesis using False by (simp add: parse_id3v2_def idx_total Let_def)
qed (simp add: parse_id3v2_def)

lemma unat_nibble: "unat (w AND 0xf :: u32) < 16" "unat (w AND 3 :: u32) < 4"
proof -
  have "w AND 0xf \<le> 0xf" "w AND 3 \<le> 3" by (rule word_and_le1)+
  then show "unat (w AND 0xf) < 16" "unat (w AND 3) < 4"
    by (simp_all add: word_le_nat_alt)
qed

lemma mp3_bitrate_total: "i < 16 \<Longrightarrow> \<exists>r. mp3_bitrate_kbps v l i = Some r"
  by (simp add: mp3_bitrate_kbps_def Let_def idx_total)

lemma mp3_sample_rate_total: "i < 4 \<Longrightarrow> \<exists>r. mp3_sample_rate v i = Some r"
  by (simp add: mp3_sample_rate_def idx_total)

lemma parse_frame_header_total: "\<exists>r. parse_mp3_frame_header data pos = Some r"
proof (cases "pos + 4 > length data")
  case False
  then obtain h where h: "be32_at data pos = Some h" by (simp add: in_buffer)
  obtain b where "mp3_bitrate_kbps (ucast (drop_bit 19 h AND 3)) (ucast (drop_bit 17 h AND 3)) (unat (drop_bit 12 h AND 0xf)) = Some b"
    using mp3_bitrate_total [OF unat_nibble(1)] by blast
  moreover obtain r where "mp3_sample_rate (ucast (drop_bit 19 h AND 3)) (unat (drop_bit 10 h AND 3)) = Some r"
    using mp3_sample_rate_total [OF unat_nibble(2)] by blast
  ultimately show ?thesis using False by (simp add: parse_mp3_frame_header_def h Let_def)
qed (simp add: parse_mp3_frame_header_def)

lemma xing_total: "\<exists>r. parse_xing_info data offset = Some r" and vbri_total: "\<exists>r. parse_vbri_info data offset = Some r"
  by (simp_all add: parse_xing_info_def parse_vbri_info_def in_buffer Let_def)

lemma vbr_window_total: "\<exists>r. vbr_window data os = Some r"
proof (induction os)
  case (Cons offset os)
  obtain f g where "\<And>i. parse_xing_info data i = Some (f i)" "\<And>i. parse_vbri_info data i = Some (g i)"
    using xing_total [of data] vbri_total [of data] by metis
  then show ?case using Cons by (simp add: Let_def split: option.split)
qed simp

lemma detect_mp3_vbr_total: "\<exists>r. detect_mp3_vbr data offset f = Some r"
proof -
  obtain x v w where "\<And>i. parse_xing_info data i = Some (x i)" "\<And>i. parse_vbri_info data i = Some (v i)"
    "\<And>os. vbr_window data os = Some (w os)"
    using xing_total [of data] vbri_total [of data] vbr_window_total [of data] by metis
  then show ?thesis by (simp add: detect_mp3_vbr_def Let_def split: option.split)
qed

lemma mp3_frames_loop_total: "\<exists>r. mp3_frames_loop n data first first_offset st = Some r"
proof (induction n arbitrary: st)
  case (Suc n)
  obtain f where "\<And>i. parse_mp3_frame_header data i = Some (f i)" using parse_frame_header_total [of data] by metis
  then show ?case using Suc by (simp add: Let_def split: option.split)
qed simp

lemma validate_mp3_total: "\<exists>r. validate_mp3_frame_sequence data id3v2 first_offset = Some r"
proof -
  obtain f d l where f: "\<And>i. parse_mp3_frame_header data i = Some (f i)" "\<And>i h. detect_mp3_vbr data i h = Some (d i h)"
    "\<And>n first i st. mp3_frames_loop n data first i st = Some (l n first i st)"
    using parse_frame_header_total [of data] detect_mp3_vbr_total [of data] mp3_frames_loop_total [of _ data] by metis
  show ?thesis by (simp add: validate_mp3_frame_sequence_def f split: option.split)
qed

lemma mp3_search_total:
  "search_end \<le> length data \<Longrightarrow> \<exists>r. mp3_search data id3v2 search_end candidates pos = Some r"
proof (induction data id3v2 search_end candidates pos rule: mp3_search.induct)
  case (1 data id3v2 search_end candidates pos)
  obtain v where v: "\<And>i. validate_mp3_frame_sequence data id3v2 i = Some (v i)" using validate_mp3_total [of data id3v2] by metis
  show ?case
  proof (cases "pos + 4 \<le> search_end")
    case True
    then have i: "idx data pos = Some (data ! pos)" "idx data (Suc pos) = Some (data ! Suc pos)"
      using "1.prems" by (simp_all add: idx_total)
    show ?thesis using 1 True i
      by (subst mp3_search.simps) (simp add: v split: option.split)
  qed (simp add: mp3_search.simps)
qed

lemma find_mp3_probe_total: "\<exists>r. find_mp3_probe data = Some r"
proof -
  obtain i where i: "parse_id3v2 data = Some i" using parse_id3v2_total by blast
  show ?thesis unfolding find_mp3_probe_def i Let_def bind.bind_lunit by (rule mp3_search_total) simp
qed

lemma is_mp3_total: "\<exists>b. is_mp3 data = Some b" and parse_mp3_total: "\<exists>p. parse_mp3 to_json data file_size = Some p"
  using find_mp3_probe_total [of data] by (auto simp: is_mp3_def parse_mp3_def)

lemma flac_loop_total: "\<exists>r. flac_loop to_json data pos stream = Some r"
proof (induction pos stream rule: buffer_induct [where data = data])
  case (1 pos stream)
  show ?case
  proof (cases "pos + 4 \<le> length data")
    case True
    then obtain n where n: "read_u24be (take 3 (drop (Suc pos) data)) = Some n"
      using u24_total(2) [of "take 3 (drop (Suc pos) data)"] by auto
    have "34 \<le> length block \<Longrightarrow> \<exists>s. flac_stream_info to_json block stream = Some s" for block
      by (simp add: flac_stream_info_def in_buffer Let_def)
    then obtain f where f: "\<And>block. 34 \<le> length block \<Longrightarrow> flac_stream_info to_json block stream = Some (f block)" by metis
    show ?thesis using True n
      by (subst flac_loop.simps) (simp add: Let_def in_buffer f 1 del: split_paired_Ex)
  qed (simp add: flac_loop.simps del: split_paired_Ex)
qed

lemma parse_flac_total: "\<exists>p. parse_flac to_json data = Some p"
proof -
  obtain r where "flac_loop to_json data 4 (default_stream\<lparr>ms_stream_type := ascii ''audio'', ms_codec := Some (ascii ''flac'')\<rparr>) = Some r"
    using flac_loop_total by blast
  then show ?thesis by (simp add: parse_flac_def del: ascii_simps split: prod.split)
qed

lemma parse_ogg_total: "\<exists>p. parse_ogg to_json data = Some p"
proof -
  have "\<exists>r. first_ogg_packet data = Some r" by (simp add: first_ogg_packet_def in_buffer Let_def)
  then obtain r where r: "first_ogg_packet data = Some r" by blast
  have "\<exists>x. ogg_stream to_json packet stream = Some x" for packet stream
    by (simp add: ogg_stream_def in_buffer del: split_paired_Ex)
  then obtain f where f: "\<And>packet stream. ogg_stream to_json packet stream = Some (f packet stream)" by metis
  show ?thesis by (simp add: parse_ogg_def r f Let_def split: option.split prod.split)
qed

section \<open>The probe\<close>



end
