(* ===== verification/Media_Facts.thy ===== *)
theory Media_Facts imports Media_Safety begin

text \<open>
  What the container parsers report: encoders of the formats, written after their specifications,
  and the readers on encoded files; the frames behind an MP3 probe; the windows of a file that are
  read; and the files on which the parsers go wrong.
\<close>

section \<open>Big-endian fields\<close>

definition nat_be :: "nat \<Rightarrow> nat \<Rightarrow> bytes" where
  "nat_be n v = rev (nat_le n v)"

lemma length_nat_be [simp]: "length (nat_be n v) = n"
  by (simp add: nat_be_def)

lemma be_nat_nat_be: "be_nat (nat_be n v) = v mod 256 ^ n"
  by (simp add: be_nat_def nat_be_def le_nat_nat_le)

lemma u32_nat_be: "v < 2 ^ 32 \<Longrightarrow> unat (u32_from_be (nat_be 4 v)) = v"
  by (simp add: u32_from_be_def be_nat_nat_be unat_of_nat_small)

lemma be32_at_append: "be32_at (pre @ nat_be 4 v @ post) (length pre) = Some (u32_from_be (nat_be 4 v))"
  by (simp add: be32_at_def subslice_def)

section \<open>ISO boxes\<close>

text \<open>A box with a 32-bit size.\<close>

definition encode_box :: "bytes \<times> bytes \<Rightarrow> bytes" where
  "encode_box b = nat_be 4 (length (snd b) + 8) @ fst b @ snd b"

definition box_ok :: "bytes \<times> bytes \<Rightarrow> bool" where
  "box_ok b = (length (fst b) = 4 \<and> length (snd b) + 8 < 2 ^ 32)"

definition encode_boxes :: "(bytes \<times> bytes) list \<Rightarrow> bytes" where
  "encode_boxes bs = concat (map encode_box bs)"

lemma length_encode_box [simp]: "box_ok b \<Longrightarrow> length (encode_box b) = length (snd b) + 8"
  by (simp add: encode_box_def box_ok_def)

text \<open>The header that \<open>read_box\<close> returns for a box at a position.\<close>

definition header_at :: "nat \<Rightarrow> bytes \<times> bytes \<Rightarrow> box_header" where
  "header_at pos b = \<lparr>bx_typ = fst b, bx_size = length (snd b) + 8, bx_data_start = pos + 8,
     bx_stop = pos + 8 + length (snd b)\<rparr>"

lemma read_box_encoded:
  assumes b: "box_ok b" and limit: "length pre + length (encode_box b) \<le> limit"
    and room: "length (pre @ encode_box b @ post) < usize_limit"
  shows "read_box (pre @ encode_box b @ post) (length pre) limit = Some (header_at (length pre) b)"
proof -
  have size: "unat (u32_from_be (nat_be 4 (length (snd b) + 8))) = length (snd b) + 8"
    using b by (intro u32_nat_be) (simp add: box_ok_def)
  have "box_extent (pre @ encode_box b @ post) (length pre) limit = Some (length (snd b) + 8, length pre + 8)"
    using size by (simp add: box_extent_def encode_box_def)
  moreover have "take 4 (drop (length pre + 4) (pre @ encode_box b @ post)) = fst b"
    using b by (simp add: encode_box_def box_ok_def)
  ultimately show ?thesis using assms
    by (simp add: read_box_def header_at_def uadd_def add_ac)
qed

text \<open>The headers of a run of boxes from a position on.\<close>

fun headers_from :: "nat \<Rightarrow> (bytes \<times> bytes) list \<Rightarrow> box_header list" where
  "headers_from pos [] = []"
| "headers_from pos (b # bs) = header_at pos b # headers_from (pos + 8 + length (snd b)) bs"

lemma read_box_end: "read_box data limit limit = None"
  by (simp add: read_box_def)

lemma fold_boxes_encoded:
  assumes "list_all box_ok bs" "length (pre @ encode_boxes bs @ post) < usize_limit"
  shows "fold_boxes f (pre @ encode_boxes bs @ post) (length pre) (length pre + length (encode_boxes bs)) st
    = try_fold f (headers_from (length pre) bs) st"
  using assms
proof (induction bs arbitrary: pre st)
  case Nil
  then show ?case by (simp add: encode_boxes_def fold_boxes.simps read_box_end)
next
  case (Cons b bs)
  let ?data = "pre @ encode_boxes (b # bs) @ post"
  have split: "encode_boxes (b # bs) = encode_box b @ encode_boxes bs" by (simp add: encode_boxes_def)
  have read: "read_box ?data (length pre) (length pre + length (encode_boxes (b # bs))) = Some (header_at (length pre) b)"
    using Cons.prems read_box_encoded [of b pre _ "encode_boxes bs @ post"] by (simp add: split)
  have rest: "fold_boxes f ((pre @ encode_box b) @ encode_boxes bs @ post) (length (pre @ encode_box b))
      (length (pre @ encode_box b) + length (encode_boxes bs))
    = try_fold f (headers_from (length (pre @ encode_box b)) bs)"
    by (rule ext, rule Cons.IH) (use Cons.prems in \<open>simp_all add: split\<close>)
  have stop: "bx_stop (header_at (length pre) b) = length (pre @ encode_box b)"
    using Cons.prems by (simp add: header_at_def)
  have "fold_boxes f ?data (length pre) (length pre + length (encode_boxes (b # bs))) st
    = Option.bind (f (header_at (length pre) b) st)
        (fold_boxes f ?data (length (pre @ encode_box b)) (length pre + length (encode_boxes (b # bs))))"
    by (subst fold_boxes.simps) (simp only: read option.case stop)
  then show ?case using rest Cons.prems by (simp add: split add_ac)
qed

text \<open>C19. The walk over the boxes of a container reads back what an ISO/IEC 14496-12 writer wrote: over a run
  of boxes with 32-bit sizes, wherever it stands in a file, the loop of the parsers calls its body once
  for each box, in their order, with the type and the contents of the box, and stops at the end of the run.\<close>

theorem fold_boxes_roundtrip:
  assumes "list_all box_ok bs" "length (pre @ encode_boxes bs @ post) < usize_limit"
  shows "fold_boxes (\<lambda>h acc. map_option (\<lambda>p. acc @ [(bx_typ h, p)]) (box_payload (pre @ encode_boxes bs @ post) h))
     (pre @ encode_boxes bs @ post) (length pre) (length pre + length (encode_boxes bs)) [] = Some bs"
proof -
  have payload: "try_fold (\<lambda>h acc. map_option (\<lambda>p. acc @ [(bx_typ h, p)]) (box_payload data h))
      (headers_from (length pre) bs) acc = Some (acc @ bs)"
    if "list_all box_ok bs" "data = pre @ encode_boxes bs @ post" for pre post data bs acc
    using that
  proof (induction bs arbitrary: pre acc)
    case (Cons b bs)
    have "box_payload data (header_at (length pre) b) = Some (snd b)"
      using Cons.prems
      by (simp add: box_payload_def header_at_def subslice_def encode_boxes_def encode_box_def box_ok_def)
    moreover have "headers_from (length pre) (b # bs) = header_at (length pre) b # headers_from (length (pre @ encode_box b)) bs"
      using Cons.prems by (simp add: add_ac)
    moreover have "try_fold (\<lambda>h acc. map_option (\<lambda>p. acc @ [(bx_typ h, p)]) (box_payload data h))
        (headers_from (length (pre @ encode_box b)) bs) (acc @ [b]) = Some ((acc @ [b]) @ bs)"
      using Cons.prems by (intro Cons.IH) (simp_all add: encode_boxes_def)
    moreover have "bx_typ (header_at (length pre) b) = fst b" by (simp add: header_at_def)
    ultimately show ?case by (simp only: try_fold.simps) simp
  qed simp
  show ?thesis using payload [OF assms(1) refl] by (simp add: fold_boxes_encoded [OF assms])
qed

theorem fold_boxes_roundtrip_witness:
  "let data = encode_boxes [(ascii_bytes ''free'', [7]), (ascii_bytes ''moov'', [])] @ [9] in
   fold_boxes (\<lambda>h acc. map_option (\<lambda>p. acc @ [(bx_typ h, p)]) (box_payload data h)) data 0 17 []
     = Some [(ascii_bytes ''free'', [7]), (ascii_bytes ''moov'', [])]"
  using fold_boxes_roundtrip [of "[(ascii_bytes ''free'', [7]), (ascii_bytes ''moov'', [])]" "[]" "[9]"]
  by (simp add: box_ok_def ascii_bytes_def encode_boxes_def encode_box_def usize_limit_def)

section \<open>MP3 frames\<close>

text \<open>\<open>n\<close> frames that follow each other from \<open>pos\<close> to \<open>stop\<close>, all of the version, the layer and the
  sample rate of the first one.\<close>

fun frame_chain :: "bytes \<Rightarrow> mp3_frame_header \<Rightarrow> nat \<Rightarrow> nat \<Rightarrow> nat \<Rightarrow> bool" where
  "frame_chain data first 0 pos stop = (pos = stop \<and> stop \<le> length data)"
| "frame_chain data first (Suc n) pos stop =
     (case parse_mp3_frame_header data pos of
        Some (Some f) \<Rightarrow> is_consistent_with f first \<and> frame_chain data first n (pos + fh_frame_len f) stop
      | _ \<Rightarrow> False)"

lemma frame_chain_snoc:
  "frame_chain data first n pos mid \<Longrightarrow> parse_mp3_frame_header data mid = Some (Some f) \<Longrightarrow>
   is_consistent_with f first \<Longrightarrow> mid + fh_frame_len f \<le> length data \<Longrightarrow>
   frame_chain data first (Suc n) pos (mid + fh_frame_len f)"
proof (induction n arbitrary: pos)
  case (Suc n)
  then obtain g where g: "parse_mp3_frame_header data pos = Some (Some g)" "is_consistent_with g first"
    "frame_chain data first n (pos + fh_frame_len g) mid" by (auto split: option.splits)
  then have "frame_chain data first (Suc n) (pos + fh_frame_len g) (mid + fh_frame_len f)"
    using Suc by blast
  then show ?case using g by simp
qed simp

definition check_ok :: "bytes \<Rightarrow> mp3_frame_header \<Rightarrow> nat \<Rightarrow> mp3_check \<Rightarrow> bool" where
  "check_ok data first offset st =
     (frame_chain data first (mc_checked_frames st) offset (mc_pos st)
      \<and> mc_pos st = offset + mc_frame_bytes_checked st)"

lemma frame_chain_le: "frame_chain data first n pos stop \<Longrightarrow> pos \<le> stop"
  by (induction n arbitrary: pos) (fastforce split: option.splits)+

lemma mp3_frames_loop_ok:
  "mp3_frames_loop n data first offset st = Some (Some st') \<Longrightarrow> check_ok data first offset st \<Longrightarrow>
   check_ok data first offset st' \<and> mc_checked_frames st' \<le> mc_checked_frames st + n"
proof (induction n arbitrary: st)
  case (Suc n)
  show ?case
  proof (cases "\<exists>f. parse_mp3_frame_header data (mc_pos st) = Some (Some f) \<and> is_consistent_with f first
      \<and> mc_pos st + fh_frame_len f \<le> length data \<and> mc_pos st + fh_frame_len f < usize_limit \<and> mc_pos st + 4 \<le> length data")
    case True
    then obtain f where f: "parse_mp3_frame_header data (mc_pos st) = Some (Some f)" "is_consistent_with f first"
      "mc_pos st + fh_frame_len f \<le> length data" "mc_pos st + fh_frame_len f < usize_limit" "mc_pos st + 4 \<le> length data"
      by blast
    have chain: "frame_chain data first (Suc (mc_checked_frames st)) offset (mc_pos st + fh_frame_len f)"
      using Suc.prems(2) f by (intro frame_chain_snoc) (auto simp: check_ok_def)
    then have le: "offset \<le> mc_pos st + fh_frame_len f" by (rule frame_chain_le)
    define st1 where "st1 = (if mc_checked_frames st > 0 \<and> fh_bitrate_index f \<noteq> fh_bitrate_index first
        then st\<lparr>mc_bitrate_changes := mc_bitrate_changes st + 1\<rparr> else st)"
    define st2 where "st2 = st1\<lparr>mc_checked_frames := mc_checked_frames st1 + 1,
        mc_frame_bytes_checked := mc_pos st + fh_frame_len f - offset, mc_pos := mc_pos st + fh_frame_len f\<rparr>"
    have fields: "mc_checked_frames st2 = Suc (mc_checked_frames st)" "mc_pos st2 = mc_pos st + fh_frame_len f"
      "mc_frame_bytes_checked st2 = mc_pos st + fh_frame_len f - offset"
      by (simp_all add: st2_def st1_def)
    have "mp3_frames_loop n data first offset st2 = Some (Some st')"
      using Suc.prems(1) f by (simp add: uadd_def st1_def [symmetric] st2_def Let_def)
    moreover have "check_ok data first offset st2" using chain le by (simp add: check_ok_def fields)
    ultimately have "check_ok data first offset st' \<and> mc_checked_frames st' \<le> mc_checked_frames st2 + n"
      by (rule Suc.IH)
    then show ?thesis by (simp add: fields)
  next
    case False
    have "mc_pos st' = mc_pos st \<and> mc_checked_frames st' = mc_checked_frames st
        \<and> mc_frame_bytes_checked st' = mc_frame_bytes_checked st"
    proof (cases "mc_pos st + 4 > length data \<or> parse_mp3_frame_header data (mc_pos st) = Some None")
      case True
      then show ?thesis using Suc.prems(1) by (auto split: if_splits)
    next
      case stop: False
      then obtain f where f: "parse_mp3_frame_header data (mc_pos st) = Some (Some f)"
        using Suc.prems(1) by (auto simp: bind_eq_Some_conv split: option.splits)
      show ?thesis
      proof (cases "is_consistent_with f first \<and> mc_pos st + fh_frame_len f < usize_limit")
        case True
        then have "mc_pos st + fh_frame_len f > length data" using False f stop by auto
        then show ?thesis using Suc.prems(1) f stop True by (auto simp: uadd_def Let_def split: if_splits)
      next
        case False
        then show ?thesis using Suc.prems(1) f stop by (auto simp: uadd_def Let_def split: if_splits)
      qed
    qed
    then show ?thesis using Suc.prems(2) by (auto simp: check_ok_def)
  qed
qed (auto simp: check_ok_def)

definition probe_sound :: "bytes \<Rightarrow> mp3_probe \<Rightarrow> bool" where
  "probe_sound data p =
     (parse_mp3_frame_header data (pb_first_frame_offset p) = Some (Some (pb_first_frame p))
      \<and> pb_checked_frames p \<in> {3..8}
      \<and> frame_chain data (pb_first_frame p) (pb_checked_frames p) (pb_first_frame_offset p)
          (pb_first_frame_offset p + pb_frame_bytes_checked p))"

lemma validate_mp3_sound:
  assumes "validate_mp3_frame_sequence data id3v2 offset = Some (Some p)"
  shows "probe_sound data p \<and> pb_first_frame_offset p = offset"
proof -
  obtain first st where f: "parse_mp3_frame_header data offset = Some (Some first)"
    and l: "mp3_frames_loop 8 data first offset
       \<lparr>mc_pos = offset, mc_checked_frames = 0, mc_frame_bytes_checked = 0, mc_bitrate_changes = 0\<rparr> = Some (Some st)"
    and p: "3 \<le> mc_checked_frames st" "pb_first_frame_offset p = offset" "pb_first_frame p = first"
      "pb_checked_frames p = mc_checked_frames st" "pb_frame_bytes_checked p = mc_frame_bytes_checked st"
    using assms
    by (auto simp: validate_mp3_frame_sequence_def max_mp3_consistency_frames_def min_mp3_consistent_frames_def
        bind_eq_Some_conv split: option.splits if_splits)
  have "offset + 4 \<le> length data" using f by (auto simp: parse_mp3_frame_header_def split: if_splits)
  then have "check_ok data first offset
      \<lparr>mc_pos = offset, mc_checked_frames = 0, mc_frame_bytes_checked = 0, mc_bitrate_changes = 0\<rparr>"
    by (simp add: check_ok_def)
  from mp3_frames_loop_ok [OF l this] show ?thesis
    using f p by (auto simp: probe_sound_def check_ok_def)
qed

lemma mp3_search_sound:
  "mp3_search data id3v2 search_end candidates pos = Some (Some p) \<Longrightarrow>
   probe_sound data p \<and> pos \<le> pb_first_frame_offset p \<and> pb_first_frame_offset p + 4 \<le> search_end"
proof (induction data id3v2 search_end candidates pos rule: mp3_search.induct)
  case (1 data id3v2 search_end candidates pos)
  from "1.prems" "1.IH" show ?case
    by (subst (asm) mp3_search.simps)
       (fastforce simp: bind_eq_Some_conv split: if_splits option.splits dest: validate_mp3_sound)
qed

text \<open>C31. A file is taken for MP3 only if it holds the frames for it: the probe names a position after the
  ID3v2 tag, at which three to eight frames of one version, layer and sample rate follow each other without
  a gap, each where the length in the header of the one before puts it, and all of them end inside the
  bytes that were read; it was found in the first 64 KiB after the tag.\<close>

theorem find_mp3_probe_sound:
  assumes "find_mp3_probe data = Some (Some p)"
  shows "probe_sound data p \<and> (\<exists>id3v2. parse_id3v2 data = Some id3v2
      \<and> (let start = min (case id3v2 of Some i \<Rightarrow> id3_total_size i | None \<Rightarrow> 0) (length data) in
         start \<le> pb_first_frame_offset p \<and> pb_first_frame_offset p + 4 \<le> start + 64 * 1024))"
proof -
  obtain i where i: "parse_id3v2 data = Some i" using parse_id3v2_total by blast
  let ?start = "min (case i of Some i \<Rightarrow> id3_total_size i | None \<Rightarrow> 0) (length data)"
  have s: "mp3_search data i (min (length data) (saturating_add ?start max_mp3_sync_search_bytes)) 0 ?start = Some (Some p)"
    using assms by (simp add: find_mp3_probe_def i Let_def)
  from mp3_search_sound [OF s]
  have "probe_sound data p" "?start \<le> pb_first_frame_offset p"
    "pb_first_frame_offset p + 4 \<le> saturating_add ?start max_mp3_sync_search_bytes" by auto
  moreover have "saturating_add ?start max_mp3_sync_search_bytes \<le> ?start + 64 * 1024"
    by (simp add: saturating_add_def max_mp3_sync_search_bytes_def)
  ultimately show ?thesis using i by (auto simp: Let_def)
qed

text \<open>Three frames of MPEG 2, layer III, 8 kbit/s at 24 kHz, of 24 bytes each.\<close>

definition sample_frame :: bytes where
  "sample_frame = [0xff, 0xf3, 0x14, 0xc0] @ replicate 20 0"

definition sample_header :: mp3_frame_header where
  "sample_header = \<lparr>fh_version_id = 2, fh_layer_index = 1, fh_protection_absent = True, fh_bitrate_index = 1,
     fh_sample_rate_index = 1, fh_padding = False, fh_channel_mode = 3, fh_bitrate_bps = 8000,
     fh_sample_rate = 24000, fh_frame_len = 24, fh_samples_per_frame = 576\<rparr>"

lemma sample_frame_header:
  assumes "take 4 (drop i data) = [0xff, 0xf3, 0x14, 0xc0]" "i + 4 \<le> length data"
  shows "parse_mp3_frame_header data i = Some (Some sample_header)"
proof -
  have "u32_from_be [0xff, 0xf3, 0x14, 0xc0] = 0xfff314c0" by (simp add: u32_from_be_def be_nat_def)
  then have be: "be32_at data i = Some 0xfff314c0"
    using assms by (simp add: be32_at_Some)
  have tables: "mp3_bitrate_kbps 2 1 (Suc 0) = Some (Some 8)" "mp3_sample_rate 2 (Suc 0) = Some (Some 24000)"
    "mp3_frame_len 2 1 8000 24000 False = Some 24" "mp3_samples_per_frame 2 1 = Some 576"
    by (simp_all add: mp3_bitrate_kbps_def mp3_sample_rate_def mp3_frame_len_def mp3_samples_per_frame_def idx_def)
  show ?thesis using assms(2)
    by (simp add: parse_mp3_frame_header_def be tables sample_header_def)
qed

lemma length_sample_frame: "length sample_frame = 24"
  by (simp add: sample_frame_def)

lemma take_sample_frame: "take 4 (sample_frame @ r) = [0xff, 0xf3, 0x14, 0xc0]"
  by (simp add: sample_frame_def)

definition sample_mp3 :: bytes where
  "sample_mp3 = sample_frame @ sample_frame @ sample_frame"

lemma sample_validated: "\<exists>p. validate_mp3_frame_sequence sample_mp3 None 0 = Some (Some p)"
proof -
  have len: "length sample_mp3 = 72" by (simp add: sample_mp3_def length_sample_frame)
  have h: "parse_mp3_frame_header sample_mp3 0 = Some (Some sample_header)"
    "parse_mp3_frame_header sample_mp3 24 = Some (Some sample_header)"
    "parse_mp3_frame_header sample_mp3 48 = Some (Some sample_header)"
    using take_sample_frame [of "[]"]
    by (auto intro!: sample_frame_header simp: len sample_mp3_def take_sample_frame length_sample_frame)
  have c: "is_consistent_with sample_header sample_header" "fh_frame_len sample_header = 24"
    by (simp_all add: is_consistent_with_def sample_header_def)
  obtain v where v: "detect_mp3_vbr sample_mp3 0 sample_header = Some v" using detect_mp3_vbr_total by blast
  have u: "uadd 0 24 = Some 24" "uadd 24 24 = Some 48" "uadd 48 24 = Some 72" by (simp_all add: uadd_def usize_limit_def)
  have e: "(8::nat) = Suc (Suc (Suc (Suc 4)))" by simp
  have "mp3_frames_loop 8 sample_mp3 sample_header 0
      \<lparr>mc_pos = 0, mc_checked_frames = 0, mc_frame_bytes_checked = 0, mc_bitrate_changes = 0\<rparr>
    = Some (Some \<lparr>mc_pos = 72, mc_checked_frames = 3, mc_frame_bytes_checked = 72, mc_bitrate_changes = 0\<rparr>)"
    unfolding e by (simp add: Let_def len h c u del: Suc_numeral)
  then show ?thesis
    by (simp add: validate_mp3_frame_sequence_def h max_mp3_consistency_frames_def min_mp3_consistent_frames_def v)
qed

theorem find_mp3_probe_sound_witness: "\<exists>p. find_mp3_probe sample_mp3 = Some (Some p) \<and> probe_sound sample_mp3 p"
proof -
  have len: "length sample_mp3 = 72" by (simp add: sample_mp3_def length_sample_frame)
  have start: "sample_mp3 ! 0 = 0xff" "sample_mp3 ! Suc 0 = 0xf3"
    by (simp_all add: sample_mp3_def sample_frame_def)
  obtain p where p: "validate_mp3_frame_sequence sample_mp3 None 0 = Some (Some p)" using sample_validated by blast
  have "parse_id3v2 sample_mp3 = Some None"
    by (simp add: parse_id3v2_def len starts_with_def ascii_bytes_def sample_mp3_def sample_frame_def)
  then have "find_mp3_probe sample_mp3 = Some (Some p)"
    by (simp add: find_mp3_probe_def Let_def mp3_search.simps len saturating_add_def max_mp3_sync_search_bytes_def
        idx_def start max_mp3_sync_candidates_def usize_limit_def p)
  then show ?thesis using find_mp3_probe_sound [of sample_mp3 p] by blast
qed

section \<open>The windows of a file that are read\<close>

text \<open>C32. The probe of an MP4 file reads a beginning and, when the boxes it needs are not there, an end of it:
  for a file of any size and any setting of the two environment variables, the bytes that are parsed are
  a prefix of the file, the tail window is a suffix of the file that starts behind that prefix and knows
  its offset, both together are at most 64 MiB, and the prefix never shrinks.\<close>

theorem read_mp4_tail_windows:
  assumes "prefix head file" "length head \<le> max_probe_read_bytes" "length file < 2 ^ 63"
    and "read_mp4_tail_if_needed var file head (length file) = (data, tail)"
  shows "prefix head data \<and> prefix data file
    \<and> length data + length (case tail of Some t \<Rightarrow> tp_data t | None \<Rightarrow> []) \<le> max_probe_read_bytes
    \<and> (case tail of
         None \<Rightarrow> True
       | Some t \<Rightarrow> length data < unat (tp_offset t) \<and> tp_data t = drop (unat (tp_offset t)) file \<and> tp_data t \<noteq> [])"
proof (cases "mp4_tail_read_plan var head (length file)")
  case None
  then show ?thesis using assms by (simp add: read_mp4_tail_if_needed_def)
next
  case (Some plan)
  define n where "n = length head"
  have head: "head = take n file" using assms(1) by (auto simp: prefix_def n_def)
  have n: "n < length file" "n < max_probe_read_bytes"
    using Some assms(2) by (auto simp: mp4_tail_read_plan_def Let_def n_def split: if_splits)
  define tail_len where "tail_len = min (min (mp4_tail_read_bytes var) (length file)) (max_probe_read_bytes - n)"
  have tail: "0 < tail_len" "tail_len \<le> length file" "tail_len \<le> max_probe_read_bytes - n"
    using Some by (auto simp: mp4_tail_read_plan_def Let_def n_def tail_len_def split: if_splits)
  show ?thesis
  proof (cases "length file - tail_len \<le> n")
    case True
    then have "plan = Append_window n (length file - n)"
      using Some tail n by (auto simp: mp4_tail_read_plan_def Let_def n_def [symmetric] tail_len_def [symmetric] split: if_splits)
    then have "data = file" "tail = None"
      using assms(4) Some n by (simp_all add: read_mp4_tail_if_needed_def file_window_def head)
    then show ?thesis using True tail n assms(1) by simp
  next
    case False
    then have plan: "plan = Tail_window (length file - tail_len) tail_len"
      using Some tail n by (auto simp: mp4_tail_read_plan_def Let_def n_def [symmetric] tail_len_def [symmetric] split: if_splits)
    have "unat (word_of_nat (length file - tail_len) :: u64) = length file - tail_len"
      using assms(3) by (intro unat_of_nat_small) simp
    then show ?thesis
      using assms(1,4) Some plan tail n False n_def
      by (auto simp: read_mp4_tail_if_needed_def file_window_def)
  qed
qed

theorem read_mp4_tail_windows_witness:
  "\<exists>data tail. read_mp4_tail_if_needed None (encode_boxes [(ascii_bytes ''ftyp'', ascii_bytes ''isom'')] @ [7, 7, 7])
       (encode_boxes [(ascii_bytes ''ftyp'', ascii_bytes ''isom'')]) 15 = (data, tail)
     \<and> prefix (encode_boxes [(ascii_bytes ''ftyp'', ascii_bytes ''isom'')]) data
     \<and> prefix data (encode_boxes [(ascii_bytes ''ftyp'', ascii_bytes ''isom'')] @ [7, 7, 7])"
proof -
  let ?head = "encode_boxes [(ascii_bytes ''ftyp'', ascii_bytes ''isom'')]"
  have len: "length ?head = 12" "length (?head @ [7, 7, 7]) = 15"
    by (simp_all add: encode_boxes_def encode_box_def ascii_bytes_def)
  obtain data tail where r: "read_mp4_tail_if_needed None (?head @ [7, 7, 7]) ?head 15 = (data, tail)"
    by (cases "read_mp4_tail_if_needed None (?head @ [7, 7, 7]) ?head 15")
  have "prefix ?head data \<and> prefix data (?head @ [7, 7, 7])"
    using read_mp4_tail_windows [of ?head "?head @ [7, 7, 7]" None data tail] r len
    by (simp add: max_probe_read_bytes_def)
  then show ?thesis using r by blast
qed

section \<open>Files on which a parser goes wrong\<close>

lemma ebml_short_size:
  assumes "n < 127"
  shows "leading_zeros (0x80 + word_of_nat n) = 0" "(0x80 + word_of_nat n) AND 0x7f = (word_of_nat n :: u8)"
proof -
  have "\<forall>n < 127. leading_zeros (0x80 + word_of_nat n) = 0 \<and> ((0x80 + word_of_nat n) AND 0x7f) = (word_of_nat n :: u8)"
    by code_simp
  then show "leading_zeros (0x80 + word_of_nat n) = 0" "(0x80 + word_of_nat n) AND 0x7f = (word_of_nat n :: u8)"
    using assms by auto
qed

lemma read_ebml_size_short:
  assumes "n < 127"
  shows "read_ebml_size (pre @ (0x80 + word_of_nat n) # post) (length pre) = Some (Some (Some (word_of_nat n), 1))"
proof -
  have "ucast (word_of_nat n :: u8) = (word_of_nat n :: u64)" "(word_of_nat n :: u64) \<noteq> 0x7f"
    using assms by (simp_all add: word_unat_eq_iff unsigned_ucast_eq unat_of_nat_small take_bit_nat_eq_self)
  then show ?thesis
    by (simp add: read_ebml_size_def idx_def Let_def ebml_short_size [OF assms] u8_shr_def subslice_def)
qed

text \<open>A Matroska file whose segment has an eight-byte size, as most writers reserve, makes the parser
  panic: after any EBML header of less than 127 bytes, the size of the segment starts with the byte 1,
  its length is eight, and the mask \<open>0xffu8 >> 8\<close> shifts by the width of the byte. What follows
  the first byte of the size does not matter.\<close>

theorem matroska_segment_panics:
  assumes "length header < 127" "7 \<le> length rest"
  shows "parse_matroska to_json
    ([0x1a, 0x45, 0xdf, 0xa3, 0x80 + word_of_nat (length header)] @ header @ [0x18, 0x53, 0x80, 0x67, 0x01] @ rest) = None"
proof -
  let ?n = "length header"
  define data where "data = [0x1a, 0x45, 0xdf, 0xa3, 0x80 + word_of_nat ?n] @ header @ [0x18, 0x53, 0x80, 0x67, 0x01] @ rest"
  have len: "length data = ?n + 10 + length rest" by (simp add: data_def)
  have data_at: "drop (?n + 5) data = [0x18, 0x53, 0x80, 0x67, 0x01] @ rest" "data ! (?n + 5) = 0x18" "data ! (?n + 9) = 1"
  proof -
    define pre where "pre = [0x1a, 0x45, 0xdf, 0xa3, 0x80 + word_of_nat ?n] @ header"
    have pre: "length pre = ?n + 5" "data = pre @ [0x18, 0x53, 0x80, 0x67, 0x01] @ rest" by (simp_all add: pre_def data_def)
    show "drop (?n + 5) data = [0x18, 0x53, 0x80, 0x67, 0x01] @ rest" "data ! (?n + 5) = 0x18" "data ! (?n + 9) = 1"
      by (simp_all add: pre nth_append)
  qed
  have id1: "read_ebml_id data 0 = Some (0x1a45dfa3, 4)"
  proof -
    have "leading_zeros 0x1a = 3" by code_simp
    then show ?thesis by (simp add: read_ebml_id_def idx_def data_def be_nat_def)
  qed
  have id2: "read_ebml_id data (?n + 5) = Some (0x18538067, 4)"
  proof -
    have "leading_zeros 0x18 = 3" by code_simp
    then show ?thesis by (simp add: read_ebml_id_def idx_def len be_nat_def data_at)
  qed
  have four: "length [0x1a, 0x45, 0xdf, 0xa3 :: u8] = 4" by simp
  have s1: "read_ebml_size data 4 = Some (Some (Some (word_of_nat ?n), 1))"
    using read_ebml_size_short [OF assms(1), of "[0x1a, 0x45, 0xdf, 0xa3]"]
    unfolding four by (simp add: data_def)
  have s2: "read_ebml_size data (?n + 9) = None"
  proof -
    have "leading_zeros 1 = 7" by code_simp
    then show ?thesis using assms(2) by (simp add: read_ebml_size_def idx_def len Let_def u8_shr_def data_at)
  qed
  have n: "unat (word_of_nat ?n :: u64) = ?n" using assms(1) by (intro unat_of_nat_small) simp
  have e1: "read_ebml_elem data 0 (length data)
      = Some (Some \<lparr>ee_id = 0x1a45dfa3, ee_start = 5, ee_stop = 5 + ?n\<rparr>)"
    using assms(1) by (simp add: read_ebml_elem_def id1 s1 n uadd_def usize_limit_def len)
  have "read_ebml_elem data (5 + ?n) (length data) = None"
    by (simp add: read_ebml_elem_def id2 s2 add.commute)
  then have "parse_ebml_range data (5 + ?n) (length data) 0 st = None" for st
    by (subst parse_ebml_range.simps) simp
  moreover have "is_ebml_master 0x1a45dfa3" by (simp add: is_ebml_master_def)
  moreover have "5 + ?n \<le> length data" by (simp add: len)
  ultimately have "parse_ebml_range data 0 (length data) 0 default_ebml_state = None"
    by (subst parse_ebml_range.simps)
       (cases "parse_ebml_range data 5 (5 + ?n) 1 default_ebml_state"; simp add: e1 subslice_def)
  then show ?thesis by (simp add: parse_matroska_def data_def)
qed

theorem matroska_segment_panics_witness:
  "parse_matroska (\<lambda>_. []) [0x1a, 0x45, 0xdf, 0xa3, 0x80, 0x18, 0x53, 0x80, 0x67, 1, 0, 0, 0, 0, 0, 0, 0] = None"
  using matroska_segment_panics [of "[]" "replicate 7 0" "\<lambda>_. []"] by (simp add: eval_nat_numeral)

text \<open>The display size of an ISO track is never read from a track header as ISO/IEC 14496-12 defines it:
  such a payload has 84 bytes in version 0 and 96 bytes in version 1, and width and height stand in its last
  eight bytes, four before the offsets the parser reads them from; in version 0 nothing is read.\<close>

theorem tkhd_size_never_read:
  assumes "length payload = (if payload ! 0 = 1 then 96 else 84)"
  shows "\<exists>meta'. parse_tkhd payload meta = Some meta' \<and> tm_width meta' = tm_width meta \<and> tm_height meta' = tm_height meta
    \<and> (payload ! 0 \<noteq> 1 \<longrightarrow> meta' = meta)"
proof (cases "payload ! 0 = 1")
  case True
  then show ?thesis using assms by (simp add: parse_tkhd_def be32_at_Some)
qed (use assms in \<open>simp add: parse_tkhd_def\<close>)

theorem tkhd_size_never_read_witness:
  "\<forall>meta. parse_tkhd (replicate 76 0 @ [1, 64, 0, 0, 0, 240, 0, 0]) meta = Some meta"
proof
  fix meta
  have z: "(replicate 76 0 @ [1, 64, 0, 0, 0, 240, 0, 0]) ! 0 = (0::u8)" by (simp only: nth_append) simp
  show "parse_tkhd (replicate 76 0 @ [1, 64, 0, 0, 0, 240, 0, 0]) meta = Some meta"
    using tkhd_size_never_read [of "replicate 76 0 @ [1, 64, 0, 0, 0, 240, 0, 0]" meta] by (auto simp: z)
qed

text \<open>XMP metadata in a PNG file is never reported: the text chunks are searched in windows of 29 bytes for a
  name of 28 bytes, which no window equals, so the feature record of every PNG file says there is none.\<close>

theorem png_xmp_never_found:
  "\<exists>p. parse_png_with_file_size to_json data file_size = Some p \<and> map mf_xmp (pm_features p) = [Some 0]"
proof -
  have w: "list_ex (\<lambda>w. w = ascii_bytes ''http://ns.adobe.com/xap/1.0/'') (windows 29 chunk) = False" for chunk
  proof -
    have "length w = 29" if "w \<in> set (windows 29 chunk)" for w using that by (auto simp: windows_def)
    moreover have "length (ascii_bytes ''http://ns.adobe.com/xap/1.0/'') = 28" by (simp add: ascii_bytes_def)
    ultimately show ?thesis by (auto simp: list_ex_iff)
  qed
  have chunk: "pn_xmp st' = pn_xmp st" if "png_chunk t chunk st = Some st'" for t chunk st st'
    using that by (auto simp: png_chunk_def w bind_eq_Some_conv split: if_splits)
  have loop: "\<not> pn_xmp (snd r)" if "png_loop data pos st = Some r" "\<not> pn_xmp st" for pos st r
    using that
  proof (induction pos st rule: buffer_induct [where data = data])
    case (1 pos st)
    obtain f where f: "\<And>m seg st. png_chunk m seg st = Some (f m seg st)" using png_chunk_total by metis
    have g: "\<not> pn_xmp (f m seg st)" for m seg using chunk [OF f] "1.prems"(2) by simp
    have step: "\<not> pn_xmp (snd r)" if "pos < length data" "pos < q" "png_loop data q (f m seg st) = Some r" for q m seg
      using "1.IH" [OF that(2,1) that(3) g] .
    show ?case
    proof (cases "pos + 12 \<le> length data")
      case True
      define len where "len = unat (u32_from_be (take 4 (drop pos data)))"
      have "pos < pos + 12 + len" by simp
      then show ?thesis using "1.prems" True step [of "pos + 12 + len"]
        by (subst (asm) png_loop.simps)
           (simp add: in_buffer f len_def [symmetric] png_cut_def split: if_splits; fastforce)
    qed (use "1.prems" in \<open>auto simp: png_loop.simps\<close>)
  qed
  obtain pos st where r: "png_loop data 8 png_start = Some (pos, st)" using png_loop_total by fast
  then have "\<not> pn_xmp st" using loop [OF r] by (simp add: png_start_def)
  then show ?thesis
    by (simp add: parse_png_with_file_size_def r Let_def case_prod_beta i64_bool_def png_cut_def del: ascii_simps)
qed

end
