(* ===== verification/Display.thy ===== *)
theory Display imports Msg_Parser begin

text \<open>
  How a parsed message is shown as text (\<open>msg3_parser.rs\<close>): the elements that belong to a quoted
  message or repeat a mention, the candidates for media files, and \<open>plain_text\<close>, which descends into
  the messages nested in the payloads of elements. None is a panic of the parser on a nested message.
\<close>

section \<open>Kinds of elements\<close>

definition chat_record :: str where "chat_record = [0x804A, 0x5929, 0x8BB0, 0x5F55]"
definition label_new_face :: str where "label_new_face = [0x5B, 0x65B0, 0x7CFB, 0x7EDF, 0x8868, 0x60C5, 0x5D]"
definition label_voice :: str where "label_voice = [0x5B, 0x8BED, 0x97F3, 0x5D]"

definition has_proto_path :: "string \<Rightarrow> element \<Rightarrow> bool" where
  "has_proto_path p e = (\<exists>pf \<in> set (el_proto_fields e). starts_with (pf_path pf) (ascii p))"

definition is_reply_abstract :: "element \<Rightarrow> bool" where
  "is_reply_abstract e =
     (el_typ e = 0x19 \<and> (has_proto_path ''common_elem.45'' e
        \<or> (\<exists>t \<in> set (el_proto_strings e). contains_sub t chat_record)))"

definition is_common_elem_face :: "element \<Rightarrow> bool" where
  "is_common_elem_face e =
     (el_typ e = 0x19 \<and> \<not> is_reply_abstract e \<and> has_proto_path ''common_elem.53'' e \<and> trim (el_summary e) \<noteq> [])"

definition new_sys_face_resource_id :: "element \<Rightarrow> str" where
  "new_sys_face_resource_id e =
     (if el_typ e \<noteq> 0x19 \<or> is_reply_abstract e then []
      else if \<not> has_proto_path ''common_elem.37'' e then []
      else first_text (\<lambda>t. starts_with t (ascii ''u_'') \<and> length t \<ge> 8) (\<lambda>t. t) (el_proto_strings e))"

section \<open>Media candidates\<close>

text \<open>The loops of \<open>element_candidate_texts\<close> over the texts of an element, with \<open>push_unique_text\<close>.\<close>

definition push_candidates :: "str list \<Rightarrow> str list \<Rightarrow> str list" where
  "push_candidates texts out = fold (\<lambda>t o'. push_unique_text o' t) (filter is_stable_media_candidate texts) out"

definition record_texts :: "td_record \<Rightarrow> str list" where
  "record_texts r = td_decoded_texts r @ concat (map txf_value_texts (td_txdata_fields r))"

definition element_candidate_texts :: "element \<Rightarrow> str list" where
  "element_candidate_texts e =
     push_candidates
       (map fd_text (el_fields e) @ el_proto_strings e @ map pf_text (el_proto_fields e)
        @ concat (map record_texts (filter td_txdata_complete (el_td_records e)))) []"

definition is_common_elem_style_metadata :: "element \<Rightarrow> bool" where
  "is_common_elem_style_metadata e =
     (el_typ e = 0x19 \<and> trim (el_summary e) = [] \<and> new_sys_face_resource_id e = []
      \<and> element_candidate_texts e = [] \<and> has_proto_path ''common_elem.37'' e)"

section \<open>Nested messages\<close>

text \<open>What \<open>parse_msgcontent\<close> returns for the payload of an index element, without the index itself.\<close>

definition without_index :: "element list \<Rightarrow> element list" where
  "without_index elems = filter (\<lambda>child. \<not> (el_offset child = 0 \<and> is_mmt_transport_index child)) elems"

definition embedded_mmt_elements :: "externals \<Rightarrow> element \<Rightarrow> element list option" where
  "embedded_mmt_elements x e =
     (if \<not> is_mmt_transport_index e then Some [] else map_option without_index (parse_msgcontent x (el_payload e)))"

definition embedded_payload_candidate :: "element \<Rightarrow> bool" where
  "embedded_payload_candidate e =
     (\<not> (el_typ e = 1 \<or> length (el_payload e) < 6) \<and> \<not> has_transport_metadata e
      \<and> \<not> (is_common_elem_style_metadata e \<or> el_typ e \<in> {0, 0x08, 0x0C, 0x0E, 0x12, 0x14, 0x18})
      \<and> \<not> (trim (el_summary e) \<noteq> [] \<and> \<not> is_stable_media_candidate (el_summary e)))"

definition embedded_payload_elements :: "externals \<Rightarrow> element \<Rightarrow> element list option" where
  "embedded_payload_elements x e =
     (if \<not> embedded_payload_candidate e then Some []
      else do {
        children \<leftarrow> parse_msgcontent x (el_payload e);
        let visible = trim (concat (map el_summary children)) in
        Some (if children = [] \<or> visible = [] \<or> visible = trim (el_summary e) then [] else children) })"

definition element_bytes :: "element \<Rightarrow> bytes" where
  "element_bytes e =
     (if el_typ e = 0 then el_payload e
      else if length (el_payload e) \<le> 65535
      then [el_typ e] @ nat_le 2 (length (el_payload e)) @ el_payload e else [])"

definition mmt_stream :: "element list \<Rightarrow> nat \<Rightarrow> bytes" where
  "mmt_stream elems i = el_payload (elems ! i) @ concat (map element_bytes (drop (i + 1) elems))"

definition mmt_display_elements :: "externals \<Rightarrow> element list \<Rightarrow> nat \<Rightarrow> element list option" where
  "mmt_display_elements x elems i = map_option without_index (parse_msgcontent x (mmt_stream elems i))"

section \<open>Quoted messages and mentions\<close>

definition is_reply_leadin_text :: "element \<Rightarrow> bool" where
  "is_reply_leadin_text e =
     (el_typ e = 1 \<and> (let text = trim (el_summary e) in text = [] \<or> (starts_with text [0x40] \<and> length text \<le> 64)))"

definition is_reply_mention_text :: "element \<Rightarrow> bool" where
  "is_reply_mention_text e =
     (el_typ e = 1 \<and> starts_with (trim (el_summary e)) [0x40] \<and> length (trim (el_summary e)) \<le> 64)"

definition is_inline_mention_suffix :: "element \<Rightarrow> bool" where
  "is_inline_mention_suffix e = (el_typ e \<in> {2, 0x0D} \<and> el_summary e \<noteq> [])"

definition is_space_text :: "element \<Rightarrow> bool" where
  "is_space_text e = (el_typ e = 1 \<and> trim (el_summary e) = [])"

text \<open>The score is a 32-bit number; a text of a message is far too short for it to overflow.\<close>

definition quote_text_score :: "str \<Rightarrow> int" where
  "quote_text_score text =
     (let trimmed = trim text in
      if trimmed = [] then - 1000
      else int (length trimmed) - 80 * int (length (filter is_control trimmed))
        - (if starts_with trimmed (ascii ''u_'') \<and> length trimmed \<le> 32 then 200 else 0)
        - (if starts_with trimmed [10] then 60 else 0)
        + (if contains_sub trimmed chat_record then 20 else 0))"

definition better_quote :: "int \<Rightarrow> str \<Rightarrow> str \<times> int \<Rightarrow> str \<times> int" where
  "better_quote score text best = (if score > snd best then (text, score) else best)"

definition reply_quote_text :: "element \<Rightarrow> str" where
  "reply_quote_text e =
     (let named = filter (\<lambda>pf. starts_with (pf_path pf) (ascii ''common_elem.45'') \<and> trim (pf_text pf) \<noteq> []) (el_proto_fields e);
          best1 = fold (\<lambda>pf. better_quote (quote_text_score (pf_text pf) + 3 * int (count_list (pf_path pf) 0x2E)) (pf_text pf))
            named ([], - 1000);
          best2 = fold (\<lambda>t. better_quote (quote_text_score t) t) (el_proto_strings e) best1 in
      if trim (fst best1) \<noteq> [] then trim (fst best1)
      else if trim (fst best2) \<noteq> [] then trim (fst best2)
      else trim (el_summary e))"

definition is_http_url :: "str \<Rightarrow> bool" where
  "is_http_url t = (starts_with t (ascii ''http://'') \<or> starts_with t (ascii ''https://''))"

definition reply_quote_href :: "element \<Rightarrow> str" where
  "reply_quote_href e =
     first_text is_http_url (\<lambda>t. t)
       (map (\<lambda>pf. trim (pf_text pf)) (filter (\<lambda>pf. starts_with (pf_path pf) (ascii ''common_elem.45'')) (el_proto_fields e))
        @ map trim (el_proto_strings e))"

text \<open>The elements before a quoted message that lead into it, and a mention after it that is repeated.\<close>

fun leadins_before :: "element list \<Rightarrow> nat \<Rightarrow> nat list" where
  "leadins_before elems 0 = []"
| "leadins_before elems (Suc p) = (if is_reply_leadin_text (elems ! p) then p # leadins_before elems p else [])"

definition repeated_mention :: "element list \<Rightarrow> nat \<Rightarrow> nat list" where
  "repeated_mention elems i =
     (let first = i + 1 in
      if first < length elems \<and> is_reply_mention_text (elems ! first) then
        let nxt = first + 1 + length (takeWhile is_space_text (drop (first + 1) elems)) in
        if nxt < length elems \<and> is_reply_mention_text (elems ! nxt)
           \<and> trim (el_summary (elems ! first)) = trim (el_summary (elems ! nxt))
        then [first..<nxt] else []
      else [])"

definition display_skip_indices :: "element list \<Rightarrow> nat set" where
  "display_skip_indices elems =
     set (concat (map (\<lambda>i. leadins_before elems i @ repeated_mention elems i)
       (filter (\<lambda>i. is_reply_abstract (elems ! i)) [0..<length elems])))"

section \<open>Descending into nested messages ends\<close>

lemma trim_bracketed: "trim (0x5B # m @ [0x5D]) = 0x5B # m @ [0x5D]"
  "trim [0x5B, a, b, 0x5D] = [0x5B, a, b, 0x5D]"
proof -
  show "trim (0x5B # m @ [0x5D]) = 0x5B # m @ [0x5D]" for m
    by (simp add: trim_def trim_matches_def trim_start_def trim_end_matches_def is_whitespace_def)
  from this [of "[a, b]"] show "trim [0x5B, a, b, 0x5D] = [0x5B, a, b, 0x5D]" by simp
qed

lemma embedded_visible_kinds:
  assumes "e \<in> set (embedded_visible_elements data)"
  shows "\<not> embedded_payload_candidate e \<and> \<not> is_mmt_transport_index e"
proof -
  have labels: "\<not> is_stable_media_candidate label_image" "\<not> is_stable_media_candidate label_video"
    "\<not> is_stable_media_candidate label_file" "trim label_image \<noteq> []" "trim label_video \<noteq> []" "trim label_file \<noteq> []"
    by (simp_all add: is_stable_media_candidate_def is_bluebar_sysres_path_def trim_bracketed label_image_def
        label_video_def label_file_def starts_with_def ends_with_def contains_sub_def to_ascii_lowercase_def
        is_ascii_uppercase_def)
  obtain p where "e \<in> set (embedded_element p)" using assms by (auto simp: embedded_visible_elements_def)
  then have "el_td_records e = [] \<and> el_summary e \<in> {label_image, label_video, label_file}"
    by (auto simp: embedded_element_def path_element_def default_element_def Let_def split: prod.splits if_splits)
  then show ?thesis using labels
    by (auto simp: embedded_payload_candidate_def is_mmt_transport_index_def has_txdata_named_field_def
        complete_txdata_fields_def)
qed

definition tiles :: "bytes \<Rightarrow> element list \<Rightarrow> bool" where
  "tiles data es = ((\<forall>e \<in> set es. element_of data e \<and> element_end e \<le> length data)
     \<and> sorted_wrt (\<lambda>e e'. element_end e \<le> el_offset e') es)"

lemma parse_msgcontent_parts:
  assumes "parse_msgcontent x data = Some out"
  shows "\<exists>es. tiles data es \<and> (out = es \<or> (\<forall>e \<in> set es. \<not> is_mmt_transport_index e)
     \<and> out = es @ embedded_visible_elements data)"
proof -
  from assms obtain es p where es: "msg_loop x data p [] = Some es"
    "out = (if \<not> (\<exists>e \<in> set es. el_summary e \<noteq> []) \<and> transport_only_label es = []
            then es @ embedded_visible_elements data else es)"
    unfolding parse_msgcontent_def by (auto simp: bind_eq_Some_conv)
  have "label_mmt \<noteq> []" by (simp add: label_mmt_def)
  then have "\<forall>e \<in> set es. \<not> is_mmt_transport_index e" if "transport_only_label es = []"
    using that by (auto simp: transport_only_label_def split: if_splits)
  then show ?thesis using msg_loop_sound [OF es(1)] es(2) by (auto simp: tiles_def)
qed

lemma length_element_bytes: "length (element_bytes e) \<le> element_end e - el_offset e"
  by (simp add: element_bytes_def element_end_def)

lemma tiles_bytes:
  "tiles data es \<Longrightarrow> \<forall>e \<in> set es. p \<le> el_offset e \<Longrightarrow> p \<le> length data \<Longrightarrow>
   p + length (concat (map element_bytes es)) \<le> length data"
proof (induction es arbitrary: p)
  case (Cons e es)
  have le: "el_offset e \<le> element_end e" by (simp add: element_end_def)
  have "tiles data es" "\<forall>e' \<in> set es. element_end e \<le> el_offset e'" "element_end e \<le> length data" "p \<le> el_offset e"
    using Cons.prems by (auto simp: tiles_def)
  then show ?case using Cons.IH [of "element_end e"] length_element_bytes [of e] le by simp
qed simp

lemma tiles_filter: "tiles data es \<Longrightarrow> tiles data (filter P es)"
  by (auto simp: tiles_def sorted_wrt_filter)

lemma tiles_stream:
  assumes "tiles data es" "i < length es"
  shows "el_offset (es ! i) + (if el_typ (es ! i) = 0 then 0 else 3) + length (mmt_stream es i) \<le> length data"
proof -
  have e: "es ! i \<in> set es" "element_end (es ! i) \<le> length data" using assms by (auto simp: tiles_def)
  have "tiles data (drop (i + 1) es)"
    using assms(1) by (auto simp: tiles_def sorted_wrt_drop dest: in_set_dropD)
  moreover have "\<forall>e \<in> set (drop (i + 1) es). element_end (es ! i) \<le> el_offset e"
    using assms by (auto simp: tiles_def in_set_conv_nth sorted_wrt_iff_nth_less)
  ultimately have "element_end (es ! i) + length (concat (map element_bytes (drop (i + 1) es))) \<le> length data"
    using e(2) by (rule tiles_bytes)
  then show ?thesis by (simp add: mmt_stream_def element_end_def)
qed

text \<open>The sizes of the messages one level below a list of elements: the payloads that may be messages, plus
  one, and the streams behind index elements. A message nested in a payload is smaller than the payload's
  entry, and one behind an index element is smaller than the stream, because the index itself is left out.\<close>

definition nested_sizes :: "element list \<Rightarrow> nat list" where
  "nested_sizes elems =
     map (\<lambda>e. Suc (length (el_payload e))) (filter embedded_payload_candidate elems)
     @ map (\<lambda>i. length (mmt_stream elems i)) (filter (\<lambda>i. is_mmt_transport_index (elems ! i)) [0..<length elems])"

definition nesting :: "element list \<Rightarrow> nat" where
  "nesting elems = Max (set (0 # nested_sizes elems))"

lemma nesting_le: "n \<in> set (nested_sizes elems) \<Longrightarrow> n \<le> nesting elems"
  by (simp add: nesting_def)

lemma nesting_less: "(\<And>n. n \<in> set (nested_sizes elems) \<Longrightarrow> n < m) \<Longrightarrow> 0 < m \<Longrightarrow> nesting elems < m"
  by (simp add: nesting_def)

lemma embedded_payload_typ: "embedded_payload_candidate e \<Longrightarrow> el_typ e \<noteq> 0"
  by (auto simp: embedded_payload_candidate_def)

lemma parse_nested_sizes:
  assumes "parse_msgcontent x data = Some out" "n \<in> set (nested_sizes (filter P out))"
  shows "n \<le> length data \<and> (n = length data \<longrightarrow> (\<exists>e \<in> set (filter P out). el_offset e = 0 \<and> is_mmt_transport_index e))"
proof -
  obtain es where es: "tiles data es" "out = es \<or> (\<forall>e \<in> set es. \<not> is_mmt_transport_index e)
     \<and> out = es @ embedded_visible_elements data"
    using parse_msgcontent_parts [OF assms(1)] by blast
  from assms(2) consider
      e where "e \<in> set out" "embedded_payload_candidate e" "n = Suc (length (el_payload e))"
    | i where "i < length (filter P out)" "is_mmt_transport_index (filter P out ! i)" "n = length (mmt_stream (filter P out) i)"
    unfolding nested_sizes_def by auto
  then show ?thesis
  proof cases
    case 1
    then have "e \<in> set es" using es(2) embedded_visible_kinds by auto
    then have "3 + length (el_payload e) \<le> length data"
      using es(1) embedded_payload_typ [OF 1(2)] by (auto simp: tiles_def element_end_def)
    then show ?thesis using 1(3) by simp
  next
    case 2
    then have "out = es" using es(2) embedded_visible_kinds nth_mem [OF 2(1)] by auto
    then have "tiles data (filter P out)" using es(1) tiles_filter by simp
    from tiles_stream [OF this 2(1)] 2 show ?thesis
      using nth_mem [OF 2(1)] by (auto split: if_splits)
  qed
qed

lemma embedded_nesting:
  assumes "embedded_payload_elements x e = Some children" "children \<noteq> []" "e \<in> set elems"
  shows "nesting children < nesting elems"
proof -
  have p: "parse_msgcontent x (el_payload e) = Some children" and c: "embedded_payload_candidate e"
    using assms(1,2) by (auto simp: embedded_payload_elements_def bind_eq_Some_conv Let_def split: if_splits)
  have "nesting children < Suc (length (el_payload e))"
    by (rule nesting_less) (use parse_nested_sizes [OF p, of _ "\<lambda>_. True"] in \<open>auto simp: less_Suc_eq_le\<close>)
  moreover have "Suc (length (el_payload e)) \<in> set (nested_sizes elems)"
    using assms(3) c by (auto simp: nested_sizes_def)
  ultimately show ?thesis using nesting_le by fastforce
qed

lemma parse_msgcontent_Nil: "parse_msgcontent x [] = Some []"
  by (simp add: parse_msgcontent_def msg_loop.simps embedded_visible_elements_def utf16le_embedded_strings_def
      embedded_loop.simps)

lemma mmt_nesting:
  assumes "mmt_display_elements x elems i = Some children" "children \<noteq> []" "is_mmt_transport_index (elems ! i)" "i < length elems"
  shows "nesting children < nesting elems"
proof -
  obtain out where p: "parse_msgcontent x (mmt_stream elems i) = Some out" "children = without_index out"
    using assms(1) by (auto simp: mmt_display_elements_def)
  have pos: "0 < length (mmt_stream elems i)"
    using p assms(2) parse_msgcontent_Nil [of x] by (cases "mmt_stream elems i") (auto simp: without_index_def)
  have "nesting children < length (mmt_stream elems i)"
    by (rule nesting_less [OF _ pos])
       (use parse_nested_sizes [OF p(1)] p(2) in \<open>force simp: without_index_def le_less\<close>)
  moreover have "length (mmt_stream elems i) \<in> set (nested_sizes elems)"
    using assms(3,4) by (auto simp: nested_sizes_def)
  ultimately show ?thesis using nesting_le by fastforce
qed

section \<open>Plain text\<close>

definition plain_skipped :: "element list \<Rightarrow> nat \<Rightarrow> bool" where
  "plain_skipped elems i =
     (let e = elems ! i in
      i \<in> display_skip_indices elems \<or> is_system_decoration_element e
      \<or> (el_typ e = 0x0C \<and> el_summary e = [])
      \<or> (el_typ e = 0x19 \<and> \<not> is_common_elem_face e \<and> new_sys_face_resource_id e = []))"

definition first_url :: "element \<Rightarrow> str" where
  "first_url e = first_text is_http_url (\<lambda>t. t) (element_candidate_texts e)"

definition plain_finish :: "element list \<Rightarrow> str \<Rightarrow> str" where
  "plain_finish elems out = (if out = [] then transport_only_label elems else out)"

text \<open>\<open>plain_from\<close> is what the loop of \<open>plain_text\<close> writes from index \<open>i\<close> on; after the children of an index
  element it ends.\<close>

definition then_text :: "str option \<Rightarrow> str option \<Rightarrow> str option" where
  "then_text a b = (case (a, b) of (Some s, Some t) \<Rightarrow> Some (s @ t) | _ \<Rightarrow> None)"

function plain_from :: "externals \<Rightarrow> element list \<Rightarrow> nat \<Rightarrow> str option" where
  "plain_from x elems i =
     (if length elems \<le> i then Some []
      else let e = elems ! i in
        if plain_skipped elems i then plain_from x elems (i + 1)
        else if el_typ e = 0x19 \<and> el_summary e = [] then
          then_text (Some (if new_sys_face_resource_id e \<noteq> [] then label_new_face else [])) (plain_from x elems (i + 1))
        else if is_mmt_transport_index e then do {
          children \<leftarrow> mmt_display_elements x elems i;
          if children \<noteq> [] then map_option (plain_finish children) (plain_from x children 0)
          else then_text (Some (el_summary e)) (plain_from x elems (i + 1)) }
        else
          then_text
            (do {
               children \<leftarrow> embedded_payload_elements x e;
               if children \<noteq> [] then map_option (plain_finish children) (plain_from x children 0)
               else Some (if el_summary e = [] then first_url e else el_summary e) })
            (plain_from x elems (i + 1)))"
  by pat_completeness auto
termination
  by (relation "measures [\<lambda>(_, elems, _). nesting elems, \<lambda>(_, elems, i). length elems - i]")
     (auto intro: mmt_nesting embedded_nesting nth_mem)

declare plain_from.simps [simp del]

definition plain_text :: "externals \<Rightarrow> element list \<Rightarrow> str option" where
  "plain_text x elems = map_option (plain_finish elems) (plain_from x elems 0)"

end
