(* ===== verification/Display_Json.thy ===== *)
theory Display_Json imports Display begin

text \<open>
  The structured form of a message (\<open>rich_nodes_json\<close> of \<open>msg3_parser.rs\<close>): one JSON object per shown
  element, written as text. An object is the list of its members, joined with commas; None is a panic.
\<close>

section \<open>Writing JSON\<close>

definition quoted :: "str \<Rightarrow> str" where
  "quoted s = [0x22] @ s @ [0x22]"

definition json_str :: "str \<Rightarrow> str" where
  "json_str s = quoted (json_escape s)"

definition js_member :: "string \<Rightarrow> str \<Rightarrow> str" where
  "js_member key v = quoted (ascii key) @ [0x3A] @ v"

definition js_obj :: "str list \<Rightarrow> str" where
  "js_obj members = [0x7B] @ join [0x2C] members @ [0x7D]"

definition js_arr :: "str list \<Rightarrow> str" where
  "js_arr items = [0x5B] @ join [0x2C] items @ [0x5D]"

definition type_member :: "string \<Rightarrow> str" where
  "type_member kind = js_member ''type'' (quoted (ascii kind))"

definition text_node :: "string \<Rightarrow> str \<Rightarrow> str list \<Rightarrow> str" where
  "text_node kind text extra = js_obj ([type_member kind, js_member ''text'' (json_str text)] @ extra)"

text \<open>A node with candidates; its label is written as it is.\<close>

definition media_node :: "string \<Rightarrow> str \<Rightarrow> str list \<Rightarrow> str list \<Rightarrow> str" where
  "media_node kind label cands extra =
     js_obj ([type_member kind, js_member ''text'' (quoted label), js_member ''candidates'' (js_arr (map json_str cands))] @ extra)"

section \<open>Candidates and their kind\<close>

definition link_texts :: "element \<Rightarrow> str list" where
  "link_texts e = txdata_named_texts e (map ascii [''strLinkHttp'', ''strMsgLink'', ''strLinkUrl'', ''c_strMsgLinkUrl''])"

definition rich_link_node_json :: "str \<Rightarrow> str list \<Rightarrow> str" where
  "rich_link_node_json text hrefs =
     text_node ''rich'' text
       ([js_member ''href'' (json_str (case hrefs of [] \<Rightarrow> [] | h # _ \<Rightarrow> h))]
        @ (if length hrefs > 1 then [js_member ''hrefs'' (js_arr (map json_str hrefs))] else []))"

definition in_folder :: "string \<Rightarrow> str \<Rightarrow> bool" where
  "in_folder name lower = (contains_sub lower ([0x5C] @ ascii name @ [0x5C]) \<or> contains_sub lower (ascii (''/'' @ name @ ''/'')))"

definition has_ext :: "string list \<Rightarrow> str \<Rightarrow> bool" where
  "has_ext exts lower = (\<exists>ext \<in> set exts. ends_with lower (ascii ext))"

definition video_candidate_texts :: "element \<Rightarrow> str list" where
  "video_candidate_texts e =
     fold (\<lambda>t out. if in_folder ''video'' (to_ascii_lowercase t) \<or> has_ext [''.mp4'', ''.webm'', ''.mov''] (to_ascii_lowercase t)
                   then push_unique_text out t else out)
       (element_candidate_texts e) (txdata_named_texts e (map ascii [''strVideoFilePath'', ''strVideoThumbPath'']))"

definition file_recv :: "str \<Rightarrow> str" where
  "file_recv t = ascii ''UserDataFileRecv:'' @ t"

definition starts_with_slash :: "str \<Rightarrow> bool" where
  "starts_with_slash t = (starts_with t [0x2F] \<or> starts_with t [0x5C])"

definition file_transfer_step :: "str \<Rightarrow> proto_field \<Rightarrow> str list \<Rightarrow> str list" where
  "file_transfer_step summary pf out =
     (let text = trim (pf_text pf) in
      if text = [] \<or> text = ascii ''{}'' \<or> ends_with text (ascii ''Byte'') then out
      else if starts_with_slash text \<or> (list_all is_ascii_hexdigit text \<and> str_len text \<ge> 16) then
        let out1 = push_unique_text (push_unique_text out text) (file_recv text) in
        if summary \<noteq> [] \<and> starts_with_slash text
        then push_unique_text out1 (file_recv (text @ [0x5C] @ summary)) else out1
      else out)"

definition file_transfer_candidates :: "element \<Rightarrow> str list" where
  "file_transfer_candidates e =
     (let cands = fold (file_transfer_step (el_summary e)) (el_proto_fields e) (element_candidate_texts e) in
      if is_stable_media_candidate (el_summary e)
      then push_unique_text (push_unique_text cands (el_summary e)) (file_recv (el_summary e)) else cands)"

definition looks_like_file_name :: "str \<Rightarrow> bool" where
  "looks_like_file_name text =
     has_ext [''.doc'', ''.docx'', ''.xls'', ''.xlsx'', ''.ppt'', ''.pptx'', ''.pdf'', ''.txt'', ''.zip'', ''.rar'', ''.7z'',
       ''.apk'', ''.exe'', ''.msi'', ''.jpg'', ''.jpeg'', ''.png'', ''.gif'', ''.webp'', ''.mp3'', ''.wav'', ''.m4a'',
       ''.mp4'', ''.mov'', ''.avi''] (to_ascii_lowercase (trim text))"

record file_meta =
  fm_name :: str
  fm_size_text :: str
  fm_size :: nat
  fm_uuid :: str
  fm_hash :: str

fun decimal :: "nat \<Rightarrow> str \<Rightarrow> nat" where
  "decimal v [] = v"
| "decimal v (c # cs) = decimal (10 * v + (c - 0x30)) cs"

text \<open>\<open>parse::<u64>\<close> of a text of digits, and 0 when it fails.\<close>

definition digits_u64 :: "str \<Rightarrow> nat" where
  "digits_u64 s = (if s \<noteq> [] \<and> decimal 0 s < 2 ^ 64 then decimal 0 s else 0)"

definition file_meta_step :: "proto_field \<Rightarrow> file_meta \<Rightarrow> file_meta" where
  "file_meta_step pf m =
     (let text = trim (pf_text pf);
          number = take (length text - 4) text;
          m1 = (if text \<noteq> [] \<and> fm_name m = [] \<and> looks_like_file_name text then m\<lparr>fm_name := text\<rparr> else m);
          m2 = (if text \<noteq> [] \<and> fm_size_text m1 = [] \<and> ends_with text (ascii ''Byte'') \<and> list_all is_ascii_digit number
                then m1\<lparr>fm_size_text := text, fm_size := digits_u64 number\<rparr> else m1);
          m3 = (if text \<noteq> [] \<and> fm_uuid m2 = [] \<and> starts_with_slash text then m2\<lparr>fm_uuid := text\<rparr> else m2);
          m4 = (if text \<noteq> [] \<and> fm_hash m3 = [] \<and> str_len text \<ge> 16 \<and> list_all is_ascii_hexdigit text
                then m3\<lparr>fm_hash := text\<rparr> else m3)
      in case pf_varint pf of
           Some v \<Rightarrow> if fm_size m4 = 0 \<and> 1024 \<le> unat v \<and> unat v < 2 ^ 43 then m4\<lparr>fm_size := unat v\<rparr> else m4
         | None \<Rightarrow> m4)"

definition file_transfer_meta :: "element \<Rightarrow> file_meta" where
  "file_transfer_meta e =
     (let m = fold file_meta_step (el_proto_fields e)
          \<lparr>fm_name = (if looks_like_file_name (el_summary e) then trim (el_summary e) else []),
           fm_size_text = [], fm_size = 0, fm_uuid = [], fm_hash = []\<rparr> in
      if fm_size_text m = [] \<and> fm_size m > 0 then m\<lparr>fm_size_text := nat_digits (fm_size m) @ ascii ''Byte''\<rparr> else m)"

definition file_transfer_meta_json :: "element \<Rightarrow> str" where
  "file_transfer_meta_json e =
     (let m = file_transfer_meta e in
      js_obj (map (\<lambda>(key, v). js_member key (json_str v))
          (filter (\<lambda>(key, v). v \<noteq> [])
             [(''file_name'', fm_name m), (''size_text'', fm_size_text m), (''uuid'', fm_uuid m), (''hash'', fm_hash m)])
        @ (if fm_size m > 0 then [js_member ''size'' (nat_digits (fm_size m))] else [])))"

definition media_node_kind :: "str list \<Rightarrow> string" where
  "media_node_kind cands =
     (let lower = map to_ascii_lowercase cands in
      if \<exists>t \<in> set lower. has_ext [''.amr'', ''.mp3'', ''.wav'', ''.ogg'', ''.m4a''] t \<or> in_folder ''audio'' t then ''voice''
      else if \<exists>t \<in> set lower. has_ext [''.mp4'', ''.webm'', ''.mov''] t \<or> in_folder ''video'' t then ''video''
      else if \<exists>t \<in> set cands. has_ext [''.jpg'', ''.jpeg'', ''.png'', ''.gif'', ''.webp'', ''.bmp''] (to_ascii_lowercase t)
           \<or> (\<exists>p \<in> set [''UserDataImage:'', ''UserDataCustomFace:'', ''FaceStore:'', ''GlobalSysTemp:'', ''sysres:''].
                starts_with t (ascii p)) then ''image''
      else ''file'')"

definition kind_label :: "string \<Rightarrow> str" where
  "kind_label kind =
     (if kind = ''image'' then label_image else if kind = ''video'' then label_video
      else if kind = ''voice'' then label_voice else label_file)"

section \<open>Forwarded messages\<close>

fun title_items :: "nat \<Rightarrow> bytes \<Rightarrow> nat \<Rightarrow> nat \<Rightarrow> nat \<Rightarrow> str list \<Rightarrow> str list option" where
  "title_items 0 data stop max_items item_pos out = Some out"
| "title_items (Suc n) data stop max_items item_pos out =
     (if item_pos + 5 > stop \<or> length out \<ge> max_items then Some out
      else do {
        header \<leftarrow> idx data item_pos;
        len_bytes \<leftarrow> subslice data (item_pos + 1) (item_pos + 5);
        let value_end = item_pos + 5 + unat (u32_from_le len_bytes) in
        if value_end > stop then Some out
        else do {
          v \<leftarrow> subslice data (item_pos + 5) value_end;
          let text = trim (utf16le_to_string v);
              out1 = (if header = 8 \<and> reasonable_field_text text then push_unique_text out text else out) in
          title_items n data stop max_items value_end out1 } })"

function titles_loop :: "bytes \<Rightarrow> nat \<Rightarrow> nat \<Rightarrow> str list \<Rightarrow> str list option" where
  "titles_loop data max_items pos out =
     (if pos + 8 \<le> length data \<and> length out < max_items then
        if \<not> starts_with (drop pos data) ta_marker then titles_loop data max_items (pos + 1) out
        else do {
          r \<leftarrow> ta_record_len data pos;
          let len = (case r of Some n \<Rightarrow> n | None \<Rightarrow> 0) in
          if r = None then titles_loop data max_items (pos + 1) out
          else do {
            count \<leftarrow> subslice data (pos + 4) (pos + 8);
            out1 \<leftarrow> title_items (unat (u32_from_le count)) data (pos + len) max_items (pos + 8) out;
            titles_loop data max_items (pos + max len 1) out1 } }
      else Some out)"
  by pat_completeness auto
termination
  by (relation "measure (\<lambda>(data, _, pos, _). length data - pos)") auto

declare titles_loop.simps [simp del]

definition title_list_preview :: "element \<Rightarrow> nat \<Rightarrow> str list option" where
  "title_list_preview e max_items =
     try_fold (\<lambda>f out. titles_loop (txf_value f) max_items 0 out)
       (filter (\<lambda>f. txf_name f = ascii ''titleList'') (complete_txdata_fields e)) []"

definition first_multi_msg_named_text :: "element \<Rightarrow> string \<Rightarrow> str" where
  "first_multi_msg_named_text e name = first_txdata_named_text e [ascii name]"

definition label_chat_record :: str where "label_chat_record = [0x5B, 0x804A, 0x5929, 0x8BB0, 0x5F55, 0x5D]"
definition label_nested :: str where "label_nested = [0x5B, 0x5185, 0x5D4C, 0x6D88, 0x606F, 0x5D]"
definition reason_external :: str where
  "reason_external = [0x5F53, 0x524D, 0x4D, 0x73, 0x67, 0x43, 0x6F, 0x6E, 0x74, 0x65, 0x6E, 0x74, 0x53EA, 0x5305, 0x542B, 0x74, 0x69, 0x74, 0x6C, 0x65, 0x4C, 0x69, 0x73, 0x74, 0x9884, 0x89C8, 0xFF1B, 0x5B8C, 0x6574, 0x5C55, 0x5F00, 0x9700, 0x8981, 0x62, 0x73, 0x52, 0x65, 0x73, 0x49, 0x64, 0x2F, 0x62, 0x73, 0x46, 0x69, 0x6C, 0x65, 0x4E, 0x61, 0x6D, 0x65, 0x5BF9, 0x5E94, 0x7684, 0x4D, 0x4D, 0x50, 0x6570, 0x636E, 0x6D41]"
definition reason_inline :: str where "reason_inline = [0x5F53, 0x524D, 0x4D, 0x73, 0x67, 0x43, 0x6F, 0x6E, 0x74, 0x65, 0x6E, 0x74, 0x53EA, 0x5305, 0x542B, 0x804A, 0x5929, 0x8BB0, 0x5F55, 0x9884, 0x89C8]"

definition multi_msg_node :: "element \<Rightarrow> str option" where
  "multi_msg_node e =
     map_option (\<lambda>previews.
       let text = multi_msg_display_text e in
       if text = [] \<and> previews = [] then []
       else
         let res_id = first_multi_msg_named_text e ''bsResId''; file_name = first_multi_msg_named_text e ''bsFileName'';
             item_count = (case first_txdata_named_uint e [ascii ''dwMsgPackListSize''] of
                Some n \<Rightarrow> unat n | None \<Rightarrow> length previews);
             external = \<not> (res_id = [] \<and> file_name = []) in
         text_node ''multi_msg'' (if text = [] then label_chat_record else text)
           [js_member ''res_id'' (json_str res_id), js_member ''file_name'' (json_str file_name),
            js_member ''item_count'' (nat_digits item_count), js_member ''preview_count'' (nat_digits (length previews)),
            js_member ''expand_status'' (quoted (ascii (if external then ''external_mmp_required'' else ''inline_preview_only''))),
            js_member ''expand_reason'' (json_str (if external then reason_external else reason_inline)),
            js_member ''items'' (js_arr (map (\<lambda>item. text_node ''multi_item'' item []) previews))])
       (title_list_preview e 6)"

section \<open>Nodes by type of element\<close>

definition file_actions :: "str list" where
  "file_actions = [[0x6253, 0x5F00, 0x6587, 0x4EF6], [0x6253, 0x5F00, 0x6240, 0x5728, 0x6587, 0x4EF6, 0x5939], [0x7EE7, 0x7EED, 0x53D1, 0x9001], [0x5230, 0x4E91, 0x7AEF, 0x67E5, 0x770B], [0x64A4, 0x56DE, 0x8BE5, 0x6587, 0x4EF6]]"

definition link_or_first :: "element \<Rightarrow> str list \<Rightarrow> str" where
  "link_or_first e links = (if trim (el_summary e) = [] then (case links of [] \<Rightarrow> [] | l # _ \<Rightarrow> l) else trim (el_summary e))"

definition picture_fields :: "str list" where
  "picture_fields = map ascii [''strPicInfoFileName'', ''bufPicInfoServerPath'', ''bufPicResId'']"

text \<open>The indices of the emoji and faces that continue a mention.\<close>

definition mention_run :: "element list \<Rightarrow> nat \<Rightarrow> nat list \<Rightarrow> nat list" where
  "mention_run elems i consumed =
     (if is_reply_mention_text (elems ! i) then
        takeWhile (\<lambda>j. \<not> (j \<in> display_skip_indices elems \<or> j \<in> set consumed \<or> \<not> is_inline_mention_suffix (elems ! j)))
          [i + 1..<length elems]
      else [])"

definition mention_text :: "element list \<Rightarrow> nat \<Rightarrow> nat list \<Rightarrow> str" where
  "mention_text elems i run = concat (map (\<lambda>j. el_summary (elems ! j)) (i # run))"

text \<open>A text element: its node and the indices it consumes.\<close>

definition text_element_node :: "element list \<Rightarrow> nat \<Rightarrow> nat list \<Rightarrow> str \<times> nat list" where
  "text_element_node elems i consumed =
     (let e = elems ! i; links = link_texts e; cands = element_candidate_texts e; kind = media_node_kind cands in
      if links \<noteq> [] then (rich_link_node_json (link_or_first e links) links, [])
      else if cands \<noteq> [] \<and> (\<exists>needle \<in> set file_actions. contains_sub (el_summary e) needle)
      then (media_node kind (json_escape (trim (el_summary e))) cands [], [])
      else if cands \<noteq> [] \<and> (trim (el_summary e) = [] \<or> has_txdata_named_field e picture_fields)
      then (media_node kind (kind_label kind) cands [], [])
      else
        let run = mention_run elems i consumed; text = mention_text elems i run in
        (if text = [] then [] else text_node (if is_reply_mention_text e then ''mention'' else ''text'') text [], run))"

definition plain_node :: "string \<Rightarrow> str \<Rightarrow> str" where
  "plain_node kind text = (if text = [] then [] else text_node kind text [])"

definition raw_element_node :: "element \<Rightarrow> str" where
  "raw_element_node e =
     (let cands = element_candidate_texts e; kind = media_node_kind cands in
      if cands \<noteq> [] then media_node kind (kind_label kind) cands [] else plain_node ''text'' (el_summary e))"

definition face_id_members :: "u8 \<Rightarrow> str list" where
  "face_id_members fid =
     (let n = nat_digits (unat fid) in
      [js_member ''face_id'' n,
       js_member ''candidates''
         (js_arr [quoted (ascii ''SysFaceResFileSystem:'' @ n @ ascii ''.gif''),
                  quoted (ascii ''SysFaceResFileSystem:apng'' @ [0x5C, 0x5C] @ n @ ascii ''.png'')])])"

definition face_element_node :: "element \<Rightarrow> str" where
  "face_element_node e =
     (let links = link_texts e in
      if links \<noteq> [] then rich_link_node_json (link_or_first e links) links
      else if el_summary e = [] then []
      else text_node ''face'' (el_summary e) (case sysface_id e of Some fid \<Rightarrow> face_id_members fid | None \<Rightarrow> []))"

definition summary_or :: "element \<Rightarrow> str \<Rightarrow> str" where
  "summary_or e label = json_escape (if el_summary e = [] then label else el_summary e)"

definition image_element_node :: "element \<Rightarrow> str" where
  "image_element_node e =
     (let cands = element_candidate_texts e; kind = media_node_kind cands in
      if cands \<noteq> [] then media_node kind (summary_or e (kind_label kind)) cands []
      else plain_node (if starts_with (el_summary e) (ascii ''SmallEmoji:'') then ''emoji'' else ''text'') (el_summary e))"

definition file_element_node :: "str list \<Rightarrow> element \<Rightarrow> str" where
  "file_element_node cands e =
     (let kind = media_node_kind cands in
      if cands \<noteq> [] then
        media_node kind (summary_or e (kind_label kind)) cands
          (if kind = ''file'' then [js_member ''file_meta'' (file_transfer_meta_json e)] else [])
      else if el_summary e = label_file then [] else plain_node ''text'' (el_summary e))"

text \<open>The candidates of the custom data elements include the summary.\<close>

definition custom_candidates :: "element \<Rightarrow> str list" where
  "custom_candidates e =
     (let cands = element_candidate_texts e; s = el_summary e in
      if is_stable_media_candidate s then
        let cands1 = push_unique_text cands (trim s) in
        if \<not> starts_with s (ascii ''UserData'') \<and> 0x3A \<notin> set s
        then push_unique_text cands1 (file_recv (trim s)) else cands1
      else cands)"

definition custom_element_node :: "element \<Rightarrow> str" where
  "custom_element_node e =
     (let cands = custom_candidates e in
      if cands \<noteq> [] then media_node (media_node_kind cands) (summary_or e label_file) cands [] else [])"

definition struct_xml :: "externals \<Rightarrow> element \<Rightarrow> str" where
  "struct_xml x e = (let text = struct_msg_xml x e in if text = [] then field_text e 1 else text)"

definition special_element_node :: "externals \<Rightarrow> element \<Rightarrow> str" where
  "special_element_node x e =
     (let xml = struct_xml x e; abstract = field_text e 2; href = extract_xml_attr xml (ascii ''url'');
          brief = extract_xml_attr xml (ascii ''brief'');
          text = (if abstract \<noteq> [] then abstract else if brief \<noteq> [] then brief
                  else struct_msg_display_text xml (el_summary e));
          cands = element_candidate_texts e; kind = media_node_kind cands in
      if xml = [] \<and> href = [] \<and> cands \<noteq> [] then media_node kind (json_escape (kind_label kind)) cands []
      else if href \<noteq> [] \<or> xml \<noteq> []
      then text_node ''rich'' text [js_member ''href'' (json_str href), js_member ''xml'' (json_str xml)]
      else plain_node ''text'' text)"

definition abstract_element_node :: "element \<Rightarrow> str" where
  "abstract_element_node e =
     (if is_reply_abstract e then
        let text = reply_quote_text e; href = reply_quote_href e in
        if text = [] then []
        else text_node ''quote'' text (if href = [] then [] else [js_member ''href'' (json_str href)])
      else if is_common_elem_face e then text_node ''face'' (trim (el_summary e)) []
      else
        let res_id = new_sys_face_resource_id e; cands = element_candidate_texts e; kind = media_node_kind cands in
        if res_id \<noteq> [] then
          js_obj [type_member ''face'', js_member ''text'' (quoted label_new_face), js_member ''resource_id'' (json_str res_id)]
        else if cands \<noteq> [] then media_node kind (kind_label kind) cands []
        else [])"

definition ark_element_node :: "externals \<Rightarrow> element \<Rightarrow> str" where
  "ark_element_node x e =
     (let text = ark_app_display_text x e; href = ark_app_href x e in
      if href \<noteq> [] then text_node ''rich'' text [js_member ''href'' (json_str href)]
      else plain_node ''app'' text)"

text \<open>The node of an element without nested messages, and the indices it consumes.\<close>

definition leaf_node :: "externals \<Rightarrow> element list \<Rightarrow> nat \<Rightarrow> nat list \<Rightarrow> (str \<times> nat list) option" where
  "leaf_node x elems i consumed =
     (let e = elems ! i; t = el_typ e; videos = video_candidate_texts e in
      if videos \<noteq> [] then Some (media_node ''video'' label_video videos [], [])
      else if t = 1 then Some (text_element_node elems i consumed)
      else if t = 0 then Some (raw_element_node e, [])
      else if t = 2 then Some (face_element_node e, [])
      else if t = 0x0D then Some (plain_node ''emoji'' (el_summary e), [])
      else if t = 0x0C then
        Some (plain_node (if is_qq_face_label (el_summary e) then ''face'' else ''text'') (el_summary e), [])
      else if t \<in> {3, 5, 6} then Some (image_element_node e, [])
      else if t \<in> {7, 0x11} then Some (file_element_node (element_candidate_texts e) e, [])
      else if t \<in> {0x10, 0x15, 0x16} then Some (custom_element_node e, [])
      else if t = 0x18 then Some (file_element_node (file_transfer_candidates e) e, [])
      else if t = 0x14 then Some (special_element_node x e, [])
      else if t = 0x19 then Some (abstract_element_node e, [])
      else if t = 0x1B then Some (ark_element_node x e, [])
      else if t = 0x1E then map_option (\<lambda>node. (node, [])) (multi_msg_node e)
      else Some ([], []))"

section \<open>The nodes of a message\<close>

definition array_items :: "str \<Rightarrow> str" where
  "array_items s =
     (let t = trim s; inner = drop 1 t in
      if starts_with t [0x5B] \<and> inner \<noteq> [] \<and> last inner = 0x5D \<and> trim (butlast inner) \<noteq> []
      then butlast inner else [])"

definition nested_node :: "str \<Rightarrow> str \<Rightarrow> str \<Rightarrow> str" where
  "nested_node label child_nodes raw_text =
     js_obj [type_member ''nested'', js_member ''text'' (json_str label), js_member ''children'' child_nodes,
       js_member ''raw_text'' (json_str raw_text)]"

text \<open>The pieces the loop writes between the brackets, with commas between them: an empty piece is not
  written. After the children of an index element everything is consumed.\<close>

definition piece :: "str \<Rightarrow> str list" where
  "piece node = (if node = [] then [] else [node])"

definition then_pieces :: "str list option \<Rightarrow> str list option \<Rightarrow> str list option" where
  "then_pieces a b = (case (a, b) of (Some s, Some t) \<Rightarrow> Some (s @ t) | _ \<Rightarrow> None)"

definition rich_finish :: "element list \<Rightarrow> str list \<Rightarrow> str" where
  "rich_finish elems pieces =
     js_arr (if pieces = [] then map (\<lambda>label. text_node ''system'' label []) (piece (transport_only_label elems)) else pieces)"

definition few_packets :: "element \<Rightarrow> bool" where
  "few_packets e = (case first_txdata_named_uint e [ascii ''dwPacketCount''] of Some n \<Rightarrow> n \<le> 1 | None \<Rightarrow> True)"

definition rich_skipped :: "element list \<Rightarrow> nat \<Rightarrow> nat list \<Rightarrow> bool" where
  "rich_skipped elems i consumed =
     (i \<in> display_skip_indices elems \<or> i \<in> set consumed \<or> is_system_decoration_element (elems ! i))"

function rich_from :: "externals \<Rightarrow> element list \<Rightarrow> nat \<Rightarrow> nat list \<Rightarrow> str list option" where
  "rich_from x elems i consumed =
     (if length elems \<le> i then Some []
      else let e = elems ! i in
        if rich_skipped elems i consumed then rich_from x elems (i + 1) consumed
        else if is_mmt_transport_index e then do {
          children \<leftarrow> mmt_display_elements x elems i;
          if children \<noteq> [] then do {
            nodes \<leftarrow> map_option (rich_finish children) (rich_from x children 0 []);
            if few_packets e then Some (piece (array_items nodes))
            else map_option (\<lambda>raw. [nested_node label_chat_record nodes raw]) (plain_text x children) }
          else do {
            (node, run) \<leftarrow> leaf_node x elems i consumed;
            then_pieces (Some (piece node)) (rich_from x elems (i + 1) (consumed @ run)) } }
        else do {
          children \<leftarrow> embedded_payload_elements x e;
          if children \<noteq> [] then
            then_pieces
              (Option.bind (map_option (rich_finish children) (rich_from x children 0 []))
                 (\<lambda>nodes. map_option (\<lambda>raw. [nested_node label_nested nodes raw]) (plain_text x children)))
              (rich_from x elems (i + 1) consumed)
          else do {
            (node, run) \<leftarrow> leaf_node x elems i consumed;
            then_pieces (Some (piece node)) (rich_from x elems (i + 1) (consumed @ run)) } })"
  by pat_completeness auto
termination
  by (relation "measures [\<lambda>(_, elems, _, _). nesting elems, \<lambda>(_, elems, i, _). length elems - i]")
     (auto intro: mmt_nesting embedded_nesting nth_mem)

declare rich_from.simps [simp del]

definition rich_nodes_json :: "externals \<Rightarrow> element list \<Rightarrow> str option" where
  "rich_nodes_json x elems = map_option (rich_finish elems) (rich_from x elems 0 [])"

end
