(* ===== verification/Display_Html.thy ===== *)
theory Display_Html imports Display_Json begin

text \<open>
  The HTML form of a message (\<open>rich_html_fragment\<close> of \<open>msg3_parser.rs\<close>): tags of the program's own names
  around escaped texts. None is a panic.
\<close>

section \<open>Tags\<close>

definition qq_tag :: "string \<Rightarrow> str \<Rightarrow> str \<Rightarrow> str" where
  "qq_tag name attrs body = ascii (''<'' @ name) @ attrs @ ascii ''>'' @ body @ ascii (''</'' @ name @ ''>'')"

definition tag_attr :: "string \<Rightarrow> str \<Rightarrow> str" where
  "tag_attr name v = ascii ('' '' @ name @ ''='') @ [0x22] @ html_escape v @ [0x22]"

definition path_attr :: "str list \<Rightarrow> str" where
  "path_attr cands = (case cands of [] \<Rightarrow> [] | t # _ \<Rightarrow> tag_attr ''path'' t)"

definition media_tag :: "str list \<Rightarrow> (string \<Rightarrow> str) \<Rightarrow> str" where
  "media_tag cands body = (let kind = media_node_kind cands in qq_tag (''qq-'' @ kind) (path_attr cands) (body kind))"

definition link_tag :: "str \<Rightarrow> str \<Rightarrow> str" where
  "link_tag href text = qq_tag ''qq-link'' (tag_attr ''href'' href) (html_escape text)"

definition summary_html :: "element \<Rightarrow> string \<Rightarrow> str" where
  "summary_html e kind = html_escape (if el_summary e = [] then kind_label kind else el_summary e)"

section \<open>Elements\<close>

definition text_element_html :: "element list \<Rightarrow> nat \<Rightarrow> nat list \<Rightarrow> str \<times> nat list" where
  "text_element_html elems i consumed =
     (let e = elems ! i; links = link_texts e; cands = element_candidate_texts e in
      if links \<noteq> [] then (link_tag (hd links) (link_or_first e links), [])
      else if cands \<noteq> [] \<and> (\<exists>needle \<in> set file_actions. contains_sub (el_summary e) needle)
      then (media_tag cands (\<lambda>_. html_escape (trim (el_summary e))), [])
      else if cands \<noteq> [] \<and> (trim (el_summary e) = [] \<or> has_txdata_named_field e picture_fields)
      then (media_tag cands kind_label, [])
      else let run = mention_run elems i consumed in (html_escape (mention_text elems i run), run))"

definition raw_element_html :: "element \<Rightarrow> str" where
  "raw_element_html e =
     (let cands = element_candidate_texts e in
      if cands \<noteq> [] then media_tag cands kind_label else html_escape (el_summary e))"

definition face_element_html :: "element \<Rightarrow> str" where
  "face_element_html e =
     (let links = link_texts e in
      if links \<noteq> [] then link_tag (hd links) (link_or_first e links)
      else if el_summary e = [] then [] else qq_tag ''qq-face'' [] (html_escape (el_summary e)))"

definition image_element_html :: "element \<Rightarrow> str" where
  "image_element_html e =
     (let cands = element_candidate_texts e in
      if cands \<noteq> [] then media_tag cands (summary_html e)
      else if el_summary e = [] then []
      else if starts_with (el_summary e) (ascii ''SmallEmoji:'') then qq_tag ''qq-emoji'' [] (html_escape (el_summary e))
      else html_escape (el_summary e))"

definition file_element_html :: "str list \<Rightarrow> element \<Rightarrow> str" where
  "file_element_html cands e =
     (if cands \<noteq> [] then media_tag cands (summary_html e)
      else if el_summary e = label_file then [] else html_escape (el_summary e))"

definition custom_element_html :: "element \<Rightarrow> str" where
  "custom_element_html e =
     (let cands = custom_candidates e in if cands \<noteq> [] then media_tag cands (summary_html e) else [])"

definition video_element_html :: "element \<Rightarrow> str" where
  "video_element_html e =
     qq_tag ''qq-video'' (path_attr (video_candidate_texts e))
       (html_escape (if el_summary e = [] then label_video else el_summary e))"

definition special_element_html :: "externals \<Rightarrow> element \<Rightarrow> str" where
  "special_element_html x e =
     (let xml = struct_xml x e; href = extract_xml_attr xml (ascii ''url''); abstract = field_text e 2;
          text = (if abstract \<noteq> [] then abstract else struct_msg_display_text xml (el_summary e));
          cands = element_candidate_texts e in
      if xml = [] \<and> href = [] \<and> cands \<noteq> [] then media_tag cands kind_label
      else if href \<noteq> [] then link_tag href text
      else html_escape text)"

definition abstract_element_html :: "element \<Rightarrow> str" where
  "abstract_element_html e =
     (if is_reply_abstract e then
        let text = reply_quote_text e; href = reply_quote_href e in
        if text = [] then []
        else qq_tag ''qq-quote'' (if href = [] then [] else tag_attr ''href'' href) (html_escape text)
      else if is_common_elem_face e then qq_tag ''qq-face'' [] (html_escape (trim (el_summary e)))
      else
        let res_id = new_sys_face_resource_id e; cands = element_candidate_texts e in
        if res_id \<noteq> [] then qq_tag ''qq-face'' (tag_attr ''data-res-id'' res_id) label_new_face
        else if cands \<noteq> [] then media_tag cands kind_label
        else [])"

definition ark_element_html :: "externals \<Rightarrow> element \<Rightarrow> str" where
  "ark_element_html x e =
     (let text = ark_app_display_text x e; href = ark_app_href x e in
      if href \<noteq> [] then link_tag href text else html_escape text)"

definition multi_msg_html :: "element \<Rightarrow> str option" where
  "multi_msg_html e =
     map_option (\<lambda>previews.
       let text = multi_msg_display_text e in
       if text = [] \<and> previews = [] then []
       else qq_tag ''qq-multi-msg'' []
         (html_escape (if text = [] then label_chat_record else text)
          @ concat (map (\<lambda>item. qq_tag ''qq-multi-item'' [] (html_escape item)) previews)))
       (title_list_preview e 6)"

definition leaf_html :: "externals \<Rightarrow> element list \<Rightarrow> nat \<Rightarrow> nat list \<Rightarrow> (str \<times> nat list) option" where
  "leaf_html x elems i consumed =
     (let e = elems ! i; t = el_typ e in
      if t = 1 then Some (text_element_html elems i consumed)
      else if t = 0 then Some (raw_element_html e, [])
      else if t = 2 then Some (face_element_html e, [])
      else if t = 0x0D then Some (if el_summary e = [] then [] else qq_tag ''qq-emoji'' [] (html_escape (el_summary e)), [])
      else if t = 0x0C then Some (html_escape (el_summary e), [])
      else if t \<in> {3, 5, 6} then Some (image_element_html e, [])
      else if t \<in> {7, 0x11} then Some (file_element_html (element_candidate_texts e) e, [])
      else if t \<in> {0x10, 0x15, 0x16} then Some (custom_element_html e, [])
      else if t = 0x18 then Some (file_element_html (file_transfer_candidates e) e, [])
      else if t = 0x1A then Some (video_element_html e, [])
      else if t = 0x14 then Some (special_element_html x e, [])
      else if t = 0x19 then Some (abstract_element_html e, [])
      else if t = 0x1B then Some (ark_element_html x e, [])
      else if t = 0x1E then map_option (\<lambda>html. (html, [])) (multi_msg_html e)
      else Some ([], []))"

section \<open>The fragment of a message\<close>

definition html_finish :: "element list \<Rightarrow> str \<Rightarrow> str" where
  "html_finish elems out =
     (if out = [] then
        (let label = transport_only_label elems in
         if label = [] then [] else qq_tag ''qq-system'' [] (html_escape label))
      else out)"

text \<open>After the children of an index element everything is consumed; an index element without children
  shows nothing.\<close>

function html_from :: "externals \<Rightarrow> element list \<Rightarrow> nat \<Rightarrow> nat list \<Rightarrow> str option" where
  "html_from x elems i consumed =
     (if length elems \<le> i then Some []
      else let e = elems ! i in
        if rich_skipped elems i consumed then html_from x elems (i + 1) consumed
        else if is_mmt_transport_index e then do {
          children \<leftarrow> mmt_display_elements x elems i;
          if children \<noteq> [] then
            map_option (\<lambda>html. if few_packets e then html else qq_tag ''qq-nested'' [] html)
              (map_option (html_finish children) (html_from x children 0 []))
          else html_from x elems (i + 1) consumed }
        else do {
          children \<leftarrow> embedded_payload_elements x e;
          if children \<noteq> [] then
            then_text
              (map_option (qq_tag ''qq-nested'' []) (map_option (html_finish children) (html_from x children 0 [])))
              (html_from x elems (i + 1) consumed)
          else do {
            (html, run) \<leftarrow> leaf_html x elems i consumed;
            then_text (Some html) (html_from x elems (i + 1) (consumed @ run)) } })"
  by pat_completeness auto
termination
  by (relation "measures [\<lambda>(_, elems, _, _). nesting elems, \<lambda>(_, elems, i, _). length elems - i]")
     (auto intro: mmt_nesting embedded_nesting nth_mem)

declare html_from.simps [simp del]

definition rich_html_fragment :: "externals \<Rightarrow> element list \<Rightarrow> str option" where
  "rich_html_fragment x elems = map_option (html_finish elems) (html_from x elems 0 [])"

section \<open>All forms of a message\<close>

definition hex_to_bytes :: "str \<Rightarrow> bytes" where
  "hex_to_bytes s = (let digits = map (\<lambda>c. word_of_nat (if c < 0x3A then c - 0x30 else (c - 0x41) mod 0x20 + 10)) (filter is_ascii_hexdigit s) :: bytes
     in map (\<lambda>i. push_bit 4 (digits ! (2 * i)) OR digits ! (2 * i + 1)) [0..<length digits div 2])"

definition parse_msgcontent_rich_nodes_json :: "externals \<Rightarrow> bytes \<Rightarrow> str option" where
  "parse_msgcontent_rich_nodes_json x data = Option.bind (parse_msgcontent x data) (rich_nodes_json x)"

end
