(* ===== verification/Display_Elements.thy ===== *)
theory Display_Elements imports Display_Html begin

text \<open>
  The technical form of a message (\<open>elements_json\<close> of \<open>msg3_parser.rs\<close>): every element with its display
  status, its fields, protobuf fields, TLVs and records; and \<open>parse_msgcontent_outputs\<close>, the four forms
  of a message. None is a panic.
\<close>

section \<open>The display status\<close>

definition element_has_field_named :: "element \<Rightarrow> string \<Rightarrow> bool" where
  "element_has_field_named e name = (\<exists>f \<in> set (el_fields e). fd_name f = ascii name)"

definition element_display_status :: "externals \<Rightarrow> element list \<Rightarrow> nat \<Rightarrow> string option" where
  "element_display_status x elems i =
     (let e = elems ! i in
      if is_mmt_transport_index e then
        map_option (\<lambda>children. if children = [] then ''unclassified'' else ''rendered'') (embedded_mmt_elements x e)
      else Some
        (if i \<in> display_skip_indices elems then ''ignored''
         else if is_common_elem_style_metadata e then ''ignored''
         else if is_system_decoration_element e then ''ignored''
         else if el_typ e \<in> {0x08, 0x0E, 0x12} \<or> element_has_field_named e ''raw_field_gap'' then ''ignored''
         else if element_has_field_named e ''raw_text_gap'' then (if el_summary e = [] then ''ignored'' else ''rendered'')
         else if el_summary e \<noteq> [] \<or> element_candidate_texts e \<noteq> [] then ''rendered''
         else if el_typ e = 0x19 \<and> new_sys_face_resource_id e \<noteq> [] then ''rendered''
         else ''unclassified''))"

section \<open>The parts of an element\<close>

definition js_when :: "bool \<Rightarrow> str list \<Rightarrow> str list" where
  "js_when c ms = (if c then ms else [])"

definition js_nat :: "string \<Rightarrow> nat \<Rightarrow> str" where
  "js_nat key n = js_member key (nat_digits n)"

definition js_hex :: "string \<Rightarrow> bytes \<Rightarrow> nat \<Rightarrow> str" where
  "js_hex key data max_len = js_member key (quoted (hex_bytes data max_len))"

definition js_text :: "string \<Rightarrow> str \<Rightarrow> str" where
  "js_text key s = js_member key (json_str s)"

definition js_bool :: "string \<Rightarrow> bool \<Rightarrow> str" where
  "js_bool key b = js_member key (if b then ascii ''true'' else ascii ''false'')"

definition js_texts :: "string \<Rightarrow> str list \<Rightarrow> str" where
  "js_texts key ss = js_member key (js_arr (map json_str ss))"

definition proto_field_json :: "proto_field \<Rightarrow> str" where
  "proto_field_json pf = js_obj
     ([js_text ''path'' (pf_path pf), js_nat ''field'' (unat (pf_field pf)), js_nat ''wire'' (unat (pf_wire pf))]
      @ (case pf_varint pf of Some v \<Rightarrow> [js_nat ''varint'' (unat v)] | None \<Rightarrow> [])
      @ js_when (pf_bytes pf \<noteq> []) [js_nat ''len'' (length (pf_bytes pf)), js_hex ''hex'' (pf_bytes pf) 64]
      @ js_when (pf_text pf \<noteq> []) [js_text ''text'' (pf_text pf)])"

definition proto_fields_member :: "proto_field list \<Rightarrow> str list" where
  "proto_fields_member pfs = js_when (pfs \<noteq> []) [js_member ''proto_fields'' (js_arr (map proto_field_json pfs))]"

definition tlv_json :: "tlv_record \<Rightarrow> str" where
  "tlv_json tlv = js_obj
     ([js_text ''source'' (tlv_source tlv), js_nat ''offset'' (tlv_offset tlv), js_nat ''tag'' (unat (tlv_tag tlv)),
       js_nat ''len'' (length (tlv_data tlv))]
      @ js_when (tlv_name tlv \<noteq> []) [js_text ''name'' (tlv_name tlv)]
      @ [js_hex ''hex'' (tlv_data tlv) 64]
      @ proto_fields_member (tlv_proto_fields tlv))"

definition value_texts_members :: "txdata_field \<Rightarrow> str list" where
  "value_texts_members f =
     js_when (txf_value_texts f \<noteq> [])
       ([js_texts ''value_texts'' (txf_value_texts f)]
        @ js_when (txf_value_text_len f > 0 \<and> txf_value_text_len f \<le> length (txf_value f))
            ([js_nat ''value_text_len'' (txf_value_text_len f)]
             @ js_when (txf_value_text_len f < length (txf_value f))
                 [js_hex ''value_unparsed_hex'' (drop (txf_value_text_len f) (txf_value f)) 96]))"

definition rich_value_members :: "txdata_field \<Rightarrow> str list" where
  "rich_value_members f =
     js_when (txf_name f \<in> set (map ascii [''bsAbstractText'', ''MSGBOX_bsPreviewMsgText'', ''bsMsgText''])
              \<and> txf_value f \<noteq> [])
       (let rich = txdata_rich_utf16_text (txf_value f); visible = txdata_visible_rich_text (txf_value f) in
        js_when (rich \<noteq> []) [js_text ''value_rich_utf16'' rich]
        @ js_when (visible \<noteq> []) [js_text ''value_visible_text'' visible])"

definition txdata_field_json :: "txdata_field \<Rightarrow> str" where
  "txdata_field_json f = js_obj
     ([js_nat ''header'' (unat (txf_header f)), js_text ''name'' (txf_name f),
       js_nat ''value_len'' (unat (txf_value_len f)), js_hex ''value_hex'' (txf_value f) 96]
      @ js_when (length (txf_value f) \<in> {1, 2, 4, 8} \<and> txdata_numeric_name (txf_name f))
          [js_nat ''value_uint'' (unat (le_value 0 (txf_value f) 0))]
      @ value_texts_members f @ rich_value_members f)"

definition low_bytes_members :: "bytes \<Rightarrow> str list" where
  "low_bytes_members low =
     js_when (low \<noteq> [])
       ([js_hex ''low_bytes_hex'' low 64]
        @ js_when (plausible_ascii low \<and> reasonable_text (ascii_text low)) [js_text ''low_bytes_text'' (ascii_text low)])"

text \<open>The tag of a record is written without escapes.\<close>

definition td_record_json :: "td_record \<Rightarrow> str" where
  "td_record_json r = js_obj
     ([js_nat ''offset'' (td_offset r), js_member ''tag'' (quoted (td_tag r)), js_nat ''subtype'' (unat (td_subtype r)),
       js_nat ''field'' (unat (td_field r)), js_nat ''len'' (unat (td_len r)), js_bool ''len_fits'' (td_len_fits r)]
      @ js_when (td_decoded_texts r \<noteq> []) [js_texts ''decoded_texts'' (td_decoded_texts r)]
      @ low_bytes_members (td_low_bytes r)
      @ js_when (td_data r \<noteq> []) [js_hex ''data_hex'' (td_data r) 64]
      @ js_when (td_trailer r \<noteq> []) [js_nat ''trailer_len'' (length (td_trailer r)), js_hex ''trailer_hex'' (td_trailer r) 64]
      @ js_when (td_parse_errors r \<noteq> []) [js_texts ''parse_errors'' (td_parse_errors r)]
      @ js_when (td_txdata_fields r \<noteq> [])
          [js_nat ''txdata_field_count'' (unat (td_txdata_field_count r)), js_bool ''txdata_complete'' (td_txdata_complete r),
           js_member ''txdata_fields'' (js_arr (map txdata_field_json (td_txdata_fields r)))])"

definition field_json :: "field \<Rightarrow> str" where
  "field_json f = js_obj
     ([js_nat ''id'' (unat (fd_id f)), js_nat ''len'' (length (fd_data f)), js_hex ''hex'' (fd_data f) 64]
      @ js_when (fd_name f \<noteq> []) [js_text ''name'' (fd_name f)]
      @ js_when (fd_text f \<noteq> []) [js_text ''text'' (fd_text f)])"

definition element_json :: "element \<Rightarrow> string \<Rightarrow> str" where
  "element_json e status = js_obj
     ([js_nat ''offset'' (el_offset e), js_nat ''type'' (unat (el_typ e)), js_member ''kind'' (quoted (element_label (el_typ e))),
       js_nat ''payload_len'' (length (el_payload e)), js_member ''display_status'' (quoted (ascii status))]
      @ js_when (el_summary e \<noteq> []) [js_text ''summary'' (el_summary e)]
      @ proto_fields_member (el_proto_fields e)
      @ js_when (el_proto_strings e \<noteq> []) [js_texts ''proto_strings'' (el_proto_strings e)]
      @ js_when (el_markers e \<noteq> [])
          [js_member ''markers'' (js_arr (map (\<lambda>(offset, tag). js_obj [js_nat ''offset'' offset, js_text ''tag'' tag]) (el_markers e)))]
      @ js_when (el_tlvs e \<noteq> []) [js_member ''ctx_tlvs'' (js_arr (map tlv_json (el_tlvs e)))]
      @ js_when (el_td_records e \<noteq> []) [js_member ''td_ta_records'' (js_arr (map td_record_json (el_td_records e)))]
      @ [js_member ''fields'' (js_arr (map field_json (el_fields e))), js_hex ''payload_hex'' (el_payload e) 64])"

fun element_jsons :: "externals \<Rightarrow> element list \<Rightarrow> nat list \<Rightarrow> str list option" where
  "element_jsons x elems [] = Some []"
| "element_jsons x elems (i # is) = do {
     status \<leftarrow> element_display_status x elems i;
     rest \<leftarrow> element_jsons x elems is;
     Some (element_json (elems ! i) status # rest) }"

definition elements_json :: "externals \<Rightarrow> element list \<Rightarrow> str option" where
  "elements_json x elems = map_option js_arr (element_jsons x elems [0..<length elems])"

section \<open>The four forms\<close>

definition parse_msgcontent_outputs :: "externals \<Rightarrow> bytes \<Rightarrow> (str \<times> str \<times> str \<times> str) option" where
  "parse_msgcontent_outputs x data = do {
     elems \<leftarrow> parse_msgcontent x data;
     plain \<leftarrow> plain_text x elems;
     elements \<leftarrow> elements_json x elems;
     nodes \<leftarrow> rich_nodes_json x elems;
     html \<leftarrow> rich_html_fragment x elems;
     Some (plain, elements, nodes, html) }"

section \<open>TXData records of an info stream\<close>

definition txfield_json_object :: "txdata_field \<Rightarrow> str" where
  "txfield_json_object f = js_obj
     ([js_nat ''header'' (unat (txf_header f)), js_text ''name'' (txf_name f),
       js_nat ''value_len'' (unat (txf_value_len f)), js_hex ''value_hex'' (txf_value f) 4096]
      @ js_when (length (txf_value f) \<in> {4, 8}) [js_nat ''value_uint'' (le_nat (txf_value f))]
      @ value_texts_members f)"

definition info_record_json :: "td_record \<Rightarrow> str" where
  "info_record_json r = js_obj
     [js_nat ''offset'' (td_offset r), js_text ''tag'' (td_tag r),
      js_nat ''txdata_field_count'' (unat (td_txdata_field_count r)), js_bool ''txdata_complete'' (td_txdata_complete r),
      js_member ''txdata_fields'' (js_arr (map txfield_json_object (td_txdata_fields r)))]"

definition parse_info_json :: "externals \<Rightarrow> bytes \<Rightarrow> str option" where
  "parse_info_json x data =
     map_option (\<lambda>records. js_obj [js_member ''td_ta_records''
         (js_arr (map info_record_json (filter (\<lambda>r. td_txdata_fields r \<noteq> []) records)))])
       (parse_td_records (gb18030 x) data)"

end
