(* ===== verification/Json_Text.thy ===== *)
theory Json_Text imports Display_Elements begin

text \<open>
  The grammar of JSON (RFC 8259, without optional blanks): \<open>json_text s v\<close> says that the text \<open>s\<close> is a
  JSON value and means \<open>v\<close>. It is the standard by which the writers of the program are measured.
\<close>

section \<open>Strings\<close>

definition json_plain :: "nat \<Rightarrow> bool" where
  "json_plain c = (0x20 \<le> c \<and> c \<noteq> 0x22 \<and> c \<noteq> 0x5C)"

definition json_escapes :: "(nat \<times> nat) list" where
  "json_escapes = [(0x22, 0x22), (0x5C, 0x5C), (0x2F, 0x2F), (98, 8), (102, 12), (110, 10), (114, 13), (116, 9)]"

definition hex_digit :: "nat \<Rightarrow> nat option" where
  "hex_digit c = (if is_ascii_digit c then Some (c - 0x30)
     else if is_ascii_hexdigit c then Some ((c - 0x41) mod 0x20 + 10) else None)"

inductive json_chars :: "str \<Rightarrow> str \<Rightarrow> bool" where
  json_chars_Nil: "json_chars [] []"
| json_chars_plain: "json_plain c \<Longrightarrow> json_chars t m \<Longrightarrow> json_chars (c # t) (c # m)"
| json_chars_escape: "(e, c) \<in> set json_escapes \<Longrightarrow> json_chars t m \<Longrightarrow> json_chars (0x5C # e # t) (c # m)"
| json_chars_unicode: "hex_digit a = Some a' \<Longrightarrow> hex_digit b = Some b' \<Longrightarrow> hex_digit c = Some c' \<Longrightarrow> hex_digit d = Some d' \<Longrightarrow>
    n = ((a' * 16 + b') * 16 + c') * 16 + d' \<Longrightarrow> scalar_value n \<Longrightarrow> json_chars t m \<Longrightarrow>
    json_chars (0x5C # 117 # a # b # c # d # t) (n # m)"

inductive_cases json_chars_NilE: "json_chars [] m"

lemma json_chars_append: "json_chars s m \<Longrightarrow> json_chars t n \<Longrightarrow> json_chars (s @ t) (m @ n)"
  by (induction rule: json_chars.induct) (auto intro: json_chars.intros)

lemma json_chars_raw: "list_all json_plain s \<Longrightarrow> json_chars s s"
  by (induction s) (auto intro: json_chars.intros)

lemma json_escape_control: "c < 0x20 \<Longrightarrow> json_chars (json_escape_char c) [c]"
proof -
  have "\<forall>c < 0x20. c \<in> {8, 9, 10, 12, 13} \<or> (hex_digit 48 = Some 0 \<and> hex_digit (hex_char (c div 16 mod 16)) = Some (c div 16)
      \<and> hex_digit (hex_char (c mod 16)) = Some (c mod 16) \<and> json_escape_char c = [0x5C, 117, 48, 48, hex_char (c div 16 mod 16), hex_char (c mod 16)])"
    by code_simp
  moreover assume c: "c < 0x20"
  ultimately consider "c \<in> {8, 9, 10, 12, 13}"
    | "hex_digit 48 = Some 0" "hex_digit (hex_char (c div 16 mod 16)) = Some (c div 16)"
      "hex_digit (hex_char (c mod 16)) = Some (c mod 16)"
      "json_escape_char c = [0x5C, 117, 48, 48, hex_char (c div 16 mod 16), hex_char (c mod 16)]" by blast
  then show ?thesis
  proof cases
    case 1
    then show ?thesis
      by (auto simp: json_escape_char_def json_escapes_def intro!: json_chars_escape json_chars_Nil)
  next
    case 2
    have "c = ((0 * 16 + 0) * 16 + c div 16) * 16 + c mod 16" by simp
    then show ?thesis unfolding 2(4)
      using 2 c by (intro json_chars_unicode [OF 2(1) 2(1) 2(2) 2(3)] json_chars_Nil) (auto simp: scalar_value_def)
  qed
qed

lemma json_escape_char_chars: "json_chars (json_escape_char c) [c]"
proof (cases "c < 0x20")
  case False
  then consider "c = 0x22" | "c = 0x5C" | "json_plain c" by (auto simp: json_plain_def)
  then show ?thesis
  proof cases
    case 3
    then have "json_escape_char c = [c]" using False by (auto simp: json_escape_char_def json_plain_def)
    then show ?thesis using 3 by (simp add: json_chars_plain json_chars_Nil)
  qed (auto simp: json_escape_char_def json_escapes_def intro!: json_chars_escape json_chars_Nil)
qed (rule json_escape_control)

lemma json_escape_chars: "json_chars (json_escape s) s"
proof (induction s)
  case (Cons c s)
  then show ?case using json_chars_append [OF json_escape_char_chars [of c] Cons] by (simp add: json_escape_def)
qed (simp add: json_escape_def json_chars_Nil)

section \<open>Values\<close>

inductive json_text :: "str \<Rightarrow> json \<Rightarrow> bool" where
  json_null: "json_text (ascii ''null'') JNull"
| json_true: "json_text (ascii ''true'') (JBool True)"
| json_false: "json_text (ascii ''false'') (JBool False)"
| json_number: "json_text (nat_digits n) (JNumber (nat_digits n))"
| json_string: "json_chars t m \<Longrightarrow> json_text (quoted t) (JString m)"
| json_array: "list_all2 json_text ts vs \<Longrightarrow> json_text (js_arr ts) (JArray vs)"
| json_object: "list_all2 (\<lambda>t kv. \<exists>kt vt. json_chars kt (fst kv) \<and> json_text vt (snd kv) \<and> t = quoted kt @ [0x3A] @ vt) ts kvs \<Longrightarrow>
    json_text (js_obj ts) (JObject kvs)"

definition member_text :: "str \<Rightarrow> str \<times> json \<Rightarrow> bool" where
  "member_text t kv = (\<exists>kt vt. json_chars kt (fst kv) \<and> json_text vt (snd kv) \<and> t = quoted kt @ [0x3A] @ vt)"

definition value_ok :: "str \<Rightarrow> bool" where
  "value_ok t = (\<exists>v. json_text t v)"

definition member_ok :: "str \<Rightarrow> bool" where
  "member_ok m = (\<exists>kv. member_text m kv)"

definition members_ok :: "str list \<Rightarrow> bool" where
  "members_ok ms = (\<forall>m \<in> set ms. member_ok m)"

lemma json_object_members: "list_all2 member_text ts kvs \<Longrightarrow> json_text (js_obj ts) (JObject kvs)"
  unfolding member_text_def [abs_def] by (rule json_object)

lemma list_all2_choice: "(\<And>t. t \<in> set ts \<Longrightarrow> \<exists>v. P t v) \<Longrightarrow> \<exists>vs. list_all2 P ts vs"
proof (induction ts)
  case (Cons t ts)
  obtain v where "P t v" using Cons.prems [of t] by auto
  moreover obtain vs where "list_all2 P ts vs" using Cons by auto
  ultimately show ?case by (intro exI [of _ "v # vs"]) simp
qed (auto intro: exI [of _ "[]"])

lemma members_ok_all2: "members_ok ms \<Longrightarrow> \<exists>kvs. list_all2 member_text ms kvs"
  unfolding members_ok_def member_ok_def by (intro list_all2_choice) auto

text \<open>The rewriting rules that check a writer: a key and a raw text must be plain, a value must be one.\<close>

lemma value_ok_arr [simp]: "\<forall>t \<in> set ts. value_ok t \<Longrightarrow> value_ok (js_arr ts)"
  unfolding value_ok_def by (meson json_array list_all2_choice)

lemma value_ok_obj [simp]: "members_ok ms \<Longrightarrow> value_ok (js_obj ms)"
  unfolding value_ok_def by (meson json_object_members members_ok_all2)

lemma value_ok_str [simp]: "value_ok (json_str s)"
  unfolding value_ok_def json_str_def by (meson json_string json_escape_chars)

lemma value_ok_quoted [simp]: "list_all json_plain s \<Longrightarrow> value_ok (quoted s)"
  unfolding value_ok_def by (meson json_string json_chars_raw)

lemma value_ok_digits [simp]: "value_ok (nat_digits n)"
  unfolding value_ok_def by (meson json_number)

lemma member_value: "list_all json_plain (ascii key) \<Longrightarrow> json_text t v \<Longrightarrow> member_text (js_member key t) (ascii key, v)"
  unfolding member_text_def js_member_def using json_chars_raw by auto

lemma member_ok_member [simp]: "list_all json_plain (ascii key) \<Longrightarrow> value_ok t \<Longrightarrow> member_ok (js_member key t)"
  unfolding value_ok_def member_ok_def using member_value by blast

lemma members_ok_simps [simp]: "members_ok []" "members_ok (m # ms) \<longleftrightarrow> member_ok m \<and> members_ok ms"
  "members_ok (ms @ ns) \<longleftrightarrow> members_ok ms \<and> members_ok ns" "members_ok (js_when c ms) \<longleftrightarrow> (c \<longrightarrow> members_ok ms)"
  by (auto simp: members_ok_def js_when_def)

lemma members_ok_map [simp]: "members_ok (map f xs) \<longleftrightarrow> (\<forall>x \<in> set xs. member_ok (f x))"
  by (simp add: members_ok_def)

lemma json_plain_of_char: "json_plain (of_char c) \<longleftrightarrow> 0x20 \<le> (of_char c :: nat) \<and> of_char c \<noteq> (0x22 :: nat) \<and> of_char c \<noteq> (0x5C :: nat)"
  by (simp add: json_plain_def)

lemma digits_plain [simp]: "list_all json_plain (nat_digits n)"
proof (induction n rule: nat_digits.induct)
  case (1 n)
  have d: "json_plain (0x30 + k)" if "k < 10" for k using that by (simp add: json_plain_def)
  show ?case using 1 d [of n] d [of "n mod 10"] by (subst nat_digits.simps) (simp add: add.commute)
qed

end
