(* ===== verification/Display_Facts.thy ===== *)
theory Display_Facts imports Json_Text begin

text \<open>
  What the renderings of a message are: the structured form is a JSON array of nodes, the technical form a
  JSON array of objects, the HTML form is well nested and contains no markup from the message; and a
  rendering panics only if the parser does.
\<close>

section \<open>Nodes\<close>

text \<open>A node is a JSON object with a type and a text.\<close>

definition is_node :: "json \<Rightarrow> bool" where
  "is_node v = (case v of
      JObject kvs \<Rightarrow> (case (map_of kvs (ascii ''type''), map_of kvs (ascii ''text'')) of
         (Some (JString _), Some (JString _)) \<Rightarrow> True | _ \<Rightarrow> False)
    | _ \<Rightarrow> False)"

definition node_ok :: "str \<Rightarrow> bool" where
  "node_ok s = (\<exists>v. json_text s v \<and> is_node v)"

lemma node_okI:
  assumes "list_all json_plain (ascii kind)" "json_chars tt tm" "members_ok extra"
  shows "node_ok (js_obj ([type_member kind, js_member ''text'' (quoted tt)] @ extra))"
proof -
  obtain kvs where kvs: "list_all2 member_text extra kvs" using members_ok_all2 [OF assms(3)] by blast
  have keys: "list_all json_plain (ascii ''type'')" "list_all json_plain (ascii ''text'')"
    by (simp_all add: json_plain_def)
  have t: "member_text (type_member kind) (ascii ''type'', JString (ascii kind))"
    unfolding type_member_def by (rule member_value [OF keys(1) json_string [OF json_chars_raw [OF assms(1)]]])
  have u: "member_text (js_member ''text'' (quoted tt)) (ascii ''text'', JString tm)"
    by (rule member_value [OF keys(2) json_string [OF assms(2)]])
  have "json_text (js_obj ([type_member kind, js_member ''text'' (quoted tt)] @ extra))
      (JObject ([(ascii ''type'', JString (ascii kind)), (ascii ''text'', JString tm)] @ kvs))"
    by (rule json_object_members) (simp add: t u kvs del: ascii_simps)
  then show ?thesis unfolding node_ok_def by (intro exI conjI, assumption) (simp add: is_node_def)
qed

lemma text_node_ok [simp]:
  "list_all json_plain (ascii kind) \<Longrightarrow> members_ok extra \<Longrightarrow> node_ok (text_node kind text extra)"
  unfolding text_node_def json_str_def by (rule node_okI [OF _ json_escape_chars])

lemma labels_plain: "list_all json_plain (kind_label k)" "list_all json_plain label_video" "list_all json_plain label_new_face"
  by (simp_all add: kind_label_def label_image_def label_video_def label_voice_def label_file_def label_new_face_def json_plain_def)

lemma media_node_ok:
  assumes "list_all json_plain (ascii kind)" "json_chars label m" "members_ok extra"
  shows "node_ok (media_node kind label cands extra)"
proof -
  have "members_ok (js_member ''candidates'' (js_arr (map json_str cands)) # extra)"
    using assms(3) by (simp add: json_plain_def)
  then show ?thesis using node_okI [OF assms(1,2)] by (simp add: media_node_def)
qed

lemma media_kind_plain [simp]: "list_all json_plain (ascii (media_node_kind cands))"
  by (simp add: media_node_kind_def Let_def json_plain_def)

lemma media_kind_node [simp]:
  "node_ok (media_node (media_node_kind cands) (kind_label k) cands' [])"
  "members_ok extra \<Longrightarrow> node_ok (media_node (media_node_kind cands) (json_escape s) cands' extra)"
  by (rule media_node_ok [OF media_kind_plain json_chars_raw [OF labels_plain(1)]], simp)
     (rule media_node_ok [OF media_kind_plain json_escape_chars])

lemma rich_link_ok [simp]: "node_ok (rich_link_node_json text hrefs)"
  unfolding rich_link_node_json_def by (rule text_node_ok) (simp_all add: json_plain_def)

lemma meta_ok [simp]: "value_ok (file_transfer_meta_json e)"
  unfolding file_transfer_meta_json_def Let_def
  by (rule value_ok_obj) (simp add: json_plain_def)

text \<open>A rendered element is nothing or a node.\<close>

definition nothing_or_node :: "str \<Rightarrow> bool" where
  "nothing_or_node s = (s = [] \<or> node_ok s)"

lemma nothing_simps [simp]: "nothing_or_node []" "node_ok s \<Longrightarrow> nothing_or_node s"
  by (simp_all add: nothing_or_node_def)

lemma plain_node_ok [simp]: "list_all json_plain (ascii kind) \<Longrightarrow> nothing_or_node (plain_node kind text)"
  by (simp add: plain_node_def)

lemma text_element_ok: "nothing_or_node (fst (text_element_node elems i consumed))"
  by (simp add: text_element_node_def Let_def json_plain_def)

lemma raw_element_ok: "nothing_or_node (raw_element_node e)"
  by (simp add: raw_element_node_def Let_def json_plain_def)

lemma face_members_ok: "members_ok (face_id_members fid)"
proof -
  let ?n = "nat_digits (unat fid)"
  have "json_chars ([0x5C, 0x5C] @ ?n @ ascii ''.png'') ([0x5C] @ ?n @ ascii ''.png'')"
    by (auto intro!: json_chars_escape json_chars_append json_chars_raw simp: json_escapes_def json_plain_def)
  moreover have "json_chars (ascii ''SysFaceResFileSystem:apng'') (ascii ''SysFaceResFileSystem:apng'')"
    by (rule json_chars_raw) (simp add: json_plain_def)
  ultimately have b: "value_ok (quoted (ascii ''SysFaceResFileSystem:apng'' @ [0x5C, 0x5C] @ ?n @ ascii ''.png''))"
    unfolding value_ok_def by (blast intro: json_string json_chars_append)
  have a: "value_ok (quoted (ascii ''SysFaceResFileSystem:'' @ ?n @ ascii ''.gif''))"
    by (rule value_ok_quoted) (simp add: json_plain_def)
  have keys: "list_all json_plain (ascii ''face_id'')" "list_all json_plain (ascii ''candidates'')"
    by (simp_all add: json_plain_def)
  show ?thesis unfolding face_id_members_def Let_def
    by (simp only: members_ok_simps member_ok_member keys value_ok_digits value_ok_arr list.set ball_simps a b simp_thms)
qed

lemma face_element_ok: "nothing_or_node (face_element_node e)"
  by (simp add: face_element_node_def Let_def json_plain_def face_members_ok split: option.split)

lemma image_element_ok: "nothing_or_node (image_element_node e)"
  by (simp add: image_element_node_def Let_def json_plain_def summary_or_def)

lemma file_element_ok: "nothing_or_node (file_element_node cands e)"
  by (simp add: file_element_node_def Let_def json_plain_def summary_or_def)

lemma custom_element_ok: "nothing_or_node (custom_element_node e)"
  by (simp add: custom_element_node_def Let_def summary_or_def)

lemma special_element_ok: "nothing_or_node (special_element_node x e)"
  by (simp add: special_element_node_def Let_def json_plain_def)

lemma abstract_element_ok: "nothing_or_node (abstract_element_node e)"
proof -
  have "node_ok (js_obj [type_member ''face'', js_member ''text'' (quoted label_new_face), js_member ''resource_id'' (json_str r)])" for r
    using node_okI [of "''face''" label_new_face label_new_face "[js_member ''resource_id'' (json_str r)]"]
    by (simp add: json_plain_def json_chars_raw labels_plain)
  then show ?thesis by (simp add: abstract_element_node_def Let_def json_plain_def)
qed

lemma ark_element_ok: "nothing_or_node (ark_element_node x e)"
  by (simp add: ark_element_node_def Let_def json_plain_def)

lemma multi_msg_ok: "multi_msg_node e = Some node \<Longrightarrow> nothing_or_node node"
proof -
  have "value_ok (text_node ''multi_item'' item [])" for item
    using text_node_ok [of "''multi_item''" "[]" item] by (auto simp: node_ok_def value_ok_def json_plain_def)
  then show "multi_msg_node e = Some node \<Longrightarrow> nothing_or_node node"
    by (auto simp: multi_msg_node_def Let_def json_plain_def split: if_splits)
qed

lemma video_node_ok: "node_ok (media_node ''video'' label_video cands [])"
  by (rule media_node_ok [OF _ json_chars_raw [OF labels_plain(2)]]) (simp_all add: json_plain_def)

lemma leaf_node_ok: "leaf_node x elems i consumed = Some (node, run) \<Longrightarrow> nothing_or_node node"
  using text_element_ok [of elems i consumed]
  by (auto simp: leaf_node_def Let_def raw_element_ok face_element_ok image_element_ok file_element_ok custom_element_ok
      special_element_ok abstract_element_ok ark_element_ok video_node_ok json_plain_def
      dest: multi_msg_ok split: if_splits)

section \<open>The structured form is JSON\<close>

text \<open>What the loop writes between two commas: one node, or several with commas between them, taken from
  the array of a nested message.\<close>

definition nodes_text :: "str \<Rightarrow> bool" where
  "nodes_text p = (\<exists>ns. ns \<noteq> [] \<and> (\<forall>n \<in> set ns. node_ok n) \<and> p = join [0x2C] ns)"

lemma join_append: "xs \<noteq> [] \<Longrightarrow> ys \<noteq> [] \<Longrightarrow> join sep (xs @ ys) = join sep xs @ sep @ join sep ys"
  by (induction sep xs rule: join.induct) (auto simp: neq_Nil_conv)

lemma nodes_texts_join:
  "\<forall>p \<in> set ps. nodes_text p \<Longrightarrow> \<exists>ns. (\<forall>n \<in> set ns. node_ok n) \<and> join [0x2C] ps = join [0x2C] ns \<and> (ns = [] \<longleftrightarrow> ps = [])"
proof (induction ps)
  case (Cons p ps)
  obtain ns where ns: "\<forall>n \<in> set ns. node_ok n" "join [0x2C] ps = join [0x2C] ns" "ns = [] \<longleftrightarrow> ps = []"
    using Cons by auto
  obtain ms where ms: "ms \<noteq> []" "\<forall>n \<in> set ms. node_ok n" "p = join [0x2C] ms"
    using Cons.prems by (auto simp: nodes_text_def)
  have "join [0x2C] (p # ps) = join [0x2C] (ms @ ns)"
  proof (cases "ps = []")
    case False
    then show ?thesis using join_append [OF ms(1), of ns "[0x2C]"] join_append [of "[p]" ps "[0x2C]"] ns ms by simp
  qed (use ns ms in simp)
  then show ?case using ns ms by (intro exI [of _ "ms @ ns"]) auto
qed simp

lemma piece_bundle: "nothing_or_node s \<Longrightarrow> \<forall>p \<in> set (piece s). nodes_text p"
  by (auto simp: piece_def nothing_or_node_def nodes_text_def intro!: exI [of _ "[s]"])

lemma trim_array: "trim (0x5B # s @ [0x5D]) = 0x5B # s @ [0x5D]"
  by (rule trim_bracketed)

lemma array_items_bundle: "\<forall>n \<in> set ns. node_ok n \<Longrightarrow> \<forall>p \<in> set (piece (array_items (js_arr ns))). nodes_text p"
proof (cases "ns = []")
  case True
  have "trim [0x5B, 0x5D] = [0x5B, 0x5D]" "trim [] = []"
    using trim_array [of "[]"] by (simp_all add: trim_def trim_matches_def trim_start_def trim_end_matches_def)
  then show ?thesis using True by (simp add: array_items_def js_arr_def Let_def piece_def)
qed (auto simp: array_items_def js_arr_def trim_array Let_def piece_def nodes_text_def butlast_append)

lemma rich_finish_nodes:
  assumes "\<forall>p \<in> set pieces. nodes_text p"
  shows "\<exists>ns. rich_finish elems pieces = js_arr ns \<and> (\<forall>n \<in> set ns. node_ok n)"
proof (cases "pieces = []")
  case True
  then show ?thesis
    by (intro exI [of _ "map (\<lambda>label. text_node ''system'' label []) (piece (transport_only_label elems))"])
       (simp add: rich_finish_def json_plain_def)
next
  case False
  then show ?thesis using nodes_texts_join [OF assms] by (auto simp: rich_finish_def js_arr_def)
qed

lemma nested_node_ok: "value_ok nodes \<Longrightarrow> node_ok (nested_node label nodes raw)"
  using node_okI [of "''nested''" "json_escape label" label "[js_member ''children'' nodes, js_member ''raw_text'' (json_str raw)]"]
  by (simp add: nested_node_def json_str_def [of label] json_plain_def json_escape_chars)

lemma node_value: "node_ok n \<Longrightarrow> value_ok n"
  by (auto simp: node_ok_def value_ok_def)

lemma then_pieces_Some: "then_pieces a b = Some ps \<longleftrightarrow> (\<exists>s t. a = Some s \<and> b = Some t \<and> ps = s @ t)"
  by (auto simp: then_pieces_def split: option.splits)

lemma rich_from_bundles: "rich_from x elems i consumed = Some ps \<Longrightarrow> \<forall>p \<in> set ps. nodes_text p"
proof (induction x elems i consumed arbitrary: ps rule: rich_from.induct)
  case (1 x elems i consumed)
  note IH = "1.IH" [OF _ refl]
  have nested: "nodes_text (nested_node label (rich_finish children pieces) raw)" if pb: "\<forall>p \<in> set pieces. nodes_text p"
    for label children pieces raw
  proof -
    obtain ns where ns: "rich_finish children pieces = js_arr ns" "\<forall>n \<in> set ns. node_ok n"
      using rich_finish_nodes [OF pb] by blast
    then have "value_ok (rich_finish children pieces)" by (simp add: node_value)
    from nested_node_ok [OF this] show ?thesis
      by (auto simp: nodes_text_def intro!: exI [of _ "[nested_node label (rich_finish children pieces) raw]"])
  qed
  consider (stop) "length elems \<le> i" | (skipped) "i < length elems" "rich_skipped elems i consumed"
    | (index) "i < length elems" "\<not> rich_skipped elems i consumed" "is_mmt_transport_index (elems ! i)"
    | (other) "i < length elems" "\<not> rich_skipped elems i consumed" "\<not> is_mmt_transport_index (elems ! i)"
    by linarith
  then show ?case
  proof cases
    case stop
    then show ?thesis using "1.prems" by (simp add: rich_from.simps)
  next
    case skipped
    then show ?thesis using "1.prems" IH(1) by (subst (asm) rich_from.simps) simp
  next
    case index
    then obtain children where c: "mmt_display_elements x elems i = Some children"
      using "1.prems" by (subst (asm) rich_from.simps) (auto simp: bind_eq_Some_conv)
    show ?thesis
    proof (cases "children = []")
      case True
      then obtain node run rest where r: "leaf_node x elems i consumed = Some (node, run)"
        "rich_from x elems (i + 1) (consumed @ run) = Some rest" "ps = piece node @ rest"
        using "1.prems" index c
        by (subst (asm) rich_from.simps) (auto simp: bind_eq_Some_conv then_pieces_Some)
      have "\<forall>p \<in> set rest. nodes_text p" using IH(3) index c True r by auto
      then show ?thesis using piece_bundle [OF leaf_node_ok [OF r(1)]] r(3) by auto
    next
      case False
      then obtain pieces where p: "rich_from x children 0 [] = Some pieces"
        "ps = (if few_packets (elems ! i) then piece (array_items (rich_finish children pieces))
           else [nested_node label_chat_record (rich_finish children pieces) (the (plain_text x children))])"
        using "1.prems" index c
        by (subst (asm) rich_from.simps) (auto simp: bind_eq_Some_conv split: if_splits)
      have b: "\<forall>p \<in> set pieces. nodes_text p" using IH(2) index c False p(1) by auto
      obtain ns where "rich_finish children pieces = js_arr ns" "\<forall>n \<in> set ns. node_ok n"
        using rich_finish_nodes [OF b] by blast
      then have "\<forall>p \<in> set (piece (array_items (rich_finish children pieces))). nodes_text p"
        using array_items_bundle by simp
      then show ?thesis using p(2) nested [OF b] by (cases "few_packets (elems ! i)") simp_all
    qed
  next
    case other
    then obtain children where c: "embedded_payload_elements x (elems ! i) = Some children"
      using "1.prems" by (subst (asm) rich_from.simps) (auto simp: bind_eq_Some_conv)
    show ?thesis
    proof (cases "children = []")
      case True
      then obtain node run rest where r: "leaf_node x elems i consumed = Some (node, run)"
        "rich_from x elems (i + 1) (consumed @ run) = Some rest" "ps = piece node @ rest"
        using "1.prems" other c
        by (subst (asm) rich_from.simps) (auto simp: bind_eq_Some_conv then_pieces_Some)
      have "\<forall>p \<in> set rest. nodes_text p" using IH(6) other c True r by auto
      then show ?thesis using piece_bundle [OF leaf_node_ok [OF r(1)]] r(3) by auto
    next
      case False
      then obtain pieces raw rest where p: "rich_from x children 0 [] = Some pieces"
        "rich_from x elems (i + 1) consumed = Some rest"
        "ps = nested_node label_nested (rich_finish children pieces) raw # rest"
        using "1.prems" other c
        by (subst (asm) rich_from.simps) (auto simp: bind_eq_Some_conv then_pieces_Some)
      have b: "\<forall>p \<in> set pieces. nodes_text p" "\<forall>p \<in> set rest. nodes_text p"
        using IH(4,5) other c False p(1,2) by auto
      then show ?thesis using p(3) nested [OF b(1)] by auto
    qed
  qed
qed

section \<open>The HTML form is well nested\<close>

text \<open>Text without markup: characters other than the five special ones, and the entities for these.\<close>

inductive html_text :: "str \<Rightarrow> bool" where
  html_text_Nil: "html_text []"
| html_text_char: "c \<notin> {0x26, 0x3C, 0x3E, 0x22, 0x27} \<Longrightarrow> html_text s \<Longrightarrow> html_text (c # s)"
| html_text_entity: "n \<in> {''amp'', ''lt'', ''gt'', ''quot'', ''#39''} \<Longrightarrow> html_text s \<Longrightarrow> html_text (ascii (''&'' @ n @ '';'') @ s)"

lemma html_text_append: "html_text s \<Longrightarrow> html_text t \<Longrightarrow> html_text (s @ t)"
proof (induction rule: html_text.induct)
  case (html_text_entity n s)
  then show ?case unfolding append_assoc by (intro html_text.html_text_entity) auto
qed (auto intro: html_text.intros)

lemma html_entities:
  "html_text (ascii ''&amp;'')" "html_text (ascii ''&lt;'')" "html_text (ascii ''&gt;'')"
  "html_text (ascii ''&quot;'')" "html_text (ascii ''&#39;'')"
  using html_text_entity [of "''amp''" "[]"] html_text_entity [of "''lt''" "[]"] html_text_entity [of "''gt''" "[]"]
    html_text_entity [of "''quot''" "[]"] html_text_entity [of "''#39''" "[]"]
  by (simp_all add: html_text_Nil)

lemma html_escape_char_text: "html_text (html_escape_char c)"
proof (cases "c \<in> {0x26, 0x3C, 0x3E, 0x22, 0x27}")
  case True
  then show ?thesis by (elim insertE) (simp_all add: html_escape_char_def html_entities [simplified])
next
  case False
  then show ?thesis using html_text_char [OF False html_text_Nil] by (simp add: html_escape_char_def)
qed

lemma html_escape_text: "html_text (html_escape s)"
  by (induction s) (simp_all add: html_escape_def html_text_Nil html_text_append html_escape_char_text)

definition qq_names :: "string set" where
  "qq_names = {''qq-link'', ''qq-image'', ''qq-video'', ''qq-voice'', ''qq-file'', ''qq-face'', ''qq-emoji'', ''qq-quote'',
     ''qq-multi-msg'', ''qq-multi-item'', ''qq-system'', ''qq-nested''}"

text \<open>Attributes: none, or one of three with a quoted value without quotes.\<close>

definition qq_attrs :: "str \<Rightarrow> bool" where
  "qq_attrs a = (a = [] \<or> (\<exists>n \<in> {''path'', ''href'', ''data-res-id''}. \<exists>v. html_text v \<and> a = ascii ('' '' @ n @ ''='') @ [0x22] @ v @ [0x22]))"

inductive qq_markup :: "str \<Rightarrow> bool" where
  markup_text: "html_text s \<Longrightarrow> qq_markup s"
| markup_append: "qq_markup s \<Longrightarrow> qq_markup t \<Longrightarrow> qq_markup (s @ t)"
| markup_tag: "n \<in> qq_names \<Longrightarrow> qq_attrs a \<Longrightarrow> qq_markup body \<Longrightarrow>
    qq_markup (ascii (''<'' @ n) @ a @ ascii ''>'' @ body @ ascii (''</'' @ n @ ''>''))"

lemma markup_Nil [simp]: "qq_markup []"
  by (rule markup_text [OF html_text_Nil])

lemma markup_escape [simp]: "qq_markup (html_escape s)"
  by (rule markup_text [OF html_escape_text])

lemma markup_qq_tag [simp]: "n \<in> qq_names \<Longrightarrow> qq_attrs a \<Longrightarrow> qq_markup body \<Longrightarrow> qq_markup (qq_tag n a body)"
  unfolding qq_tag_def by (rule markup_tag)

lemma qq_attrs_simps [simp]: "qq_attrs []" "n \<in> {''path'', ''href'', ''data-res-id''} \<Longrightarrow> qq_attrs (tag_attr n v)"
  "qq_attrs (path_attr cands)"
proof -
  show t: "n \<in> {''path'', ''href'', ''data-res-id''} \<Longrightarrow> qq_attrs (tag_attr n v)" for n v
    unfolding qq_attrs_def tag_attr_def using html_escape_text by blast
  show "qq_attrs (path_attr cands)" by (cases cands) (simp_all add: path_attr_def t qq_attrs_def [of "[]"])
qed (simp add: qq_attrs_def)

lemma html_text_plain: "\<forall>c \<in> set s. c \<notin> {0x26, 0x3C, 0x3E, 0x22, 0x27} \<Longrightarrow> html_text s"
  by (induction s) (simp_all add: html_text_Nil html_text_char)

lemma markup_label [simp]: "qq_markup (kind_label k)" "qq_markup label_new_face"
proof -
  show "qq_markup (kind_label k)"
    by (rule markup_text [OF html_text_plain])
      (simp add: kind_label_def label_image_def label_video_def label_voice_def label_file_def)
  show "qq_markup label_new_face"
    by (rule markup_text [OF html_text_plain]) (simp add: label_new_face_def)
qed

lemma markup_media [simp]: "(\<And>k. qq_markup (body k)) \<Longrightarrow> qq_markup (media_tag cands body)"
  by (simp add: media_tag_def Let_def media_node_kind_def qq_names_def)

lemma markup_link [simp]: "qq_markup (link_tag href text)"
  by (simp add: link_tag_def qq_names_def)

lemma markup_concat: "(\<And>x. x \<in> set xs \<Longrightarrow> qq_markup (f x)) \<Longrightarrow> qq_markup (concat (map f xs))"
  by (induction xs) (auto intro: markup_append)

lemma text_html_ok: "qq_markup (fst (text_element_html elems i consumed))"
  by (simp add: text_element_html_def Let_def)

lemma multi_html_ok: "multi_msg_html e = Some html \<Longrightarrow> qq_markup html"
  by (auto simp: multi_msg_html_def Let_def qq_names_def
      intro!: markup_qq_tag markup_append markup_concat split: if_splits)

lemma names [simp]:
  "''qq-link'' \<in> qq_names" "''qq-image'' \<in> qq_names" "''qq-video'' \<in> qq_names" "''qq-voice'' \<in> qq_names"
  "''qq-file'' \<in> qq_names" "''qq-face'' \<in> qq_names" "''qq-emoji'' \<in> qq_names" "''qq-quote'' \<in> qq_names"
  "''qq-multi-msg'' \<in> qq_names" "''qq-multi-item'' \<in> qq_names" "''qq-system'' \<in> qq_names" "''qq-nested'' \<in> qq_names"
  by (simp_all add: qq_names_def)

lemma summary_html_ok [simp]: "qq_markup (summary_html e kind)"
  by (simp add: summary_html_def)

lemma markup_if: "qq_markup s \<Longrightarrow> qq_markup t \<Longrightarrow> qq_markup (if b then s else t)"
  by simp

lemma attrs_if: "qq_attrs s \<Longrightarrow> qq_attrs t \<Longrightarrow> qq_attrs (if b then s else t)"
  by simp

lemmas markup_intros = markup_if attrs_if markup_media markup_link markup_qq_tag markup_escape markup_Nil summary_html_ok

lemma raw_face_image_html_ok [simp]:
  "qq_markup (raw_element_html e)" "qq_markup (face_element_html e)" "qq_markup (image_element_html e)"
  unfolding raw_element_html_def face_element_html_def image_element_html_def Let_def
  by (intro markup_intros; simp)+

lemma file_video_html_ok [simp]:
  "qq_markup (file_element_html cands e)" "qq_markup (custom_element_html e)" "qq_markup (video_element_html e)"
  unfolding file_element_html_def custom_element_html_def video_element_html_def Let_def
  by (intro markup_intros; simp)+

lemma special_ark_html_ok [simp]:
  "qq_markup (special_element_html x e)" "qq_markup (abstract_element_html e)" "qq_markup (ark_element_html x e)"
  unfolding special_element_html_def abstract_element_html_def ark_element_html_def Let_def
  by (intro markup_intros; simp)+

lemma leaf_html_ok: "leaf_html x elems i consumed = Some (html, run) \<Longrightarrow> qq_markup html"
  using text_html_ok [of elems i consumed]
  by (simp add: leaf_html_def Let_def split: if_split_asm) (auto dest: multi_html_ok)

lemma html_finish_ok: "qq_markup out \<Longrightarrow> qq_markup (html_finish elems out)"
  by (simp add: html_finish_def Let_def qq_names_def)

lemma then_text_Some: "then_text a b = Some r \<longleftrightarrow> (\<exists>s t. a = Some s \<and> b = Some t \<and> r = s @ t)"
  by (auto simp: then_text_def split: option.splits)

lemma html_from_markup: "html_from x elems i consumed = Some html \<Longrightarrow> qq_markup html"
proof (induction x elems i consumed arbitrary: html rule: html_from.induct)
  case (1 x elems i consumed)
  note IH = "1.IH" [OF _ refl]
  have nested: "qq_markup (qq_tag ''qq-nested'' [] (html_finish children h))" if "qq_markup h" for children h
    using html_finish_ok [OF that] by (simp add: qq_names_def)
  consider (stop) "length elems \<le> i" | (skipped) "i < length elems" "rich_skipped elems i consumed"
    | (index) "i < length elems" "\<not> rich_skipped elems i consumed" "is_mmt_transport_index (elems ! i)"
    | (other) "i < length elems" "\<not> rich_skipped elems i consumed" "\<not> is_mmt_transport_index (elems ! i)"
    by linarith
  then show ?case
  proof cases
    case stop
    then show ?thesis using "1.prems" by (simp add: html_from.simps)
  next
    case skipped
    then show ?thesis using "1.prems" IH(1) by (subst (asm) html_from.simps) simp
  next
    case index
    then obtain children where c: "mmt_display_elements x elems i = Some children"
      using "1.prems" by (subst (asm) html_from.simps) (auto simp: bind_eq_Some_conv)
    show ?thesis
    proof (cases "children = []")
      case True
      then show ?thesis using "1.prems" index c IH(3) by (subst (asm) html_from.simps) simp
    next
      case False
      then obtain h where h: "html_from x children 0 [] = Some h"
        "html = (if few_packets (elems ! i) then html_finish children h else qq_tag ''qq-nested'' [] (html_finish children h))"
        using "1.prems" index c by (subst (asm) html_from.simps) auto
      have "qq_markup h" using IH(2) index c False h(1) by auto
      then show ?thesis using h(2) nested html_finish_ok by simp
    qed
  next
    case other
    then obtain children where c: "embedded_payload_elements x (elems ! i) = Some children"
      using "1.prems" by (subst (asm) html_from.simps) (auto simp: bind_eq_Some_conv)
    show ?thesis
    proof (cases "children = []")
      case True
      then obtain h run rest where r: "leaf_html x elems i consumed = Some (h, run)"
        "html_from x elems (i + 1) (consumed @ run) = Some rest" "html = h @ rest"
        using "1.prems" other c
        by (subst (asm) html_from.simps) (auto simp: bind_eq_Some_conv then_text_Some)
      have "qq_markup rest" using IH(6) other c True r by auto
      then show ?thesis using leaf_html_ok [OF r(1)] r(3) markup_append by simp
    next
      case False
      then obtain h rest where p: "html_from x children 0 [] = Some h"
        "html_from x elems (i + 1) consumed = Some rest"
        "html = qq_tag ''qq-nested'' [] (html_finish children h) @ rest"
        using "1.prems" other c
        by (subst (asm) html_from.simps) (auto simp: bind_eq_Some_conv then_text_Some)
      have "qq_markup h" "qq_markup rest" using IH(4,5) other c False p(1,2) by auto
      then show ?thesis using p(3) nested markup_append by simp
    qed
  qed
qed

end
