(* ===== verification/Display_Safety.thy ===== *)
theory Display_Safety imports Display_Facts begin

text \<open>
  The only way the display of a message can panic is a panic of the parser on the message or on one of the
  messages nested in it; a message without bytes above \<open>0x7f\<close> is always displayed.
\<close>

section \<open>Nested messages\<close>

text \<open>The lists of elements that are shown on the way, and the messages that are parsed for them.\<close>

inductive opened :: "externals \<Rightarrow> bytes \<Rightarrow> element list \<Rightarrow> bool" for x data where
  opened_self: "parse_msgcontent x data = Some es \<Longrightarrow> opened x data es"
| opened_payload: "opened x data es \<Longrightarrow> e \<in> set es \<Longrightarrow> embedded_payload_candidate e \<Longrightarrow>
    parse_msgcontent x (el_payload e) = Some es' \<Longrightarrow> opened x data es'"
| opened_stream: "opened x data es \<Longrightarrow> i < length es \<Longrightarrow> is_mmt_transport_index (es ! i) \<Longrightarrow>
    parse_msgcontent x (mmt_stream es i) = Some es' \<Longrightarrow> opened x data (without_index es')"

inductive nested_message :: "externals \<Rightarrow> bytes \<Rightarrow> bytes \<Rightarrow> bool" for x data where
  nested_self: "nested_message x data data"
| nested_payload: "opened x data es \<Longrightarrow> e \<in> set es \<Longrightarrow> embedded_payload_candidate e \<or> is_mmt_transport_index e \<Longrightarrow>
    nested_message x data (el_payload e)"
| nested_stream: "opened x data es \<Longrightarrow> i < length es \<Longrightarrow> is_mmt_transport_index (es ! i) \<Longrightarrow>
    nested_message x data (mmt_stream es i)"

definition openable :: "externals \<Rightarrow> bytes \<Rightarrow> bool" where
  "openable x data = (\<forall>d. nested_message x data d \<longrightarrow> parse_msgcontent x d \<noteq> None)"

lemma openable_payload:
  assumes "openable x data" "opened x data es" "e \<in> set es"
  shows "\<exists>children. embedded_payload_elements x e = Some children \<and> (children \<noteq> [] \<longrightarrow> opened x data children)"
proof (cases "embedded_payload_candidate e")
  case True
  then obtain es' where "parse_msgcontent x (el_payload e) = Some es'"
    using assms unfolding openable_def by (metis nested_payload not_None_eq)
  then show ?thesis using True opened_payload [OF assms(2,3) True] by (simp add: embedded_payload_elements_def Let_def)
qed (simp add: embedded_payload_elements_def)

lemma openable_stream:
  assumes "openable x data" "opened x data es" "i < length es" "is_mmt_transport_index (es ! i)"
  shows "\<exists>children. mmt_display_elements x es i = Some children \<and> opened x data children"
proof -
  obtain es' where "parse_msgcontent x (mmt_stream es i) = Some es'"
    using assms unfolding openable_def by (metis nested_stream not_None_eq)
  then show ?thesis using opened_stream [OF assms(2-4)] by (simp add: mmt_display_elements_def)
qed

section \<open>The previews of a forwarded record\<close>

lemma title_items_total: "stop \<le> length data \<Longrightarrow> \<exists>o'. title_items n data stop max_items item_pos out = Some o'"
  by (induction n arbitrary: item_pos out) (auto simp: idx_def subslice_def Let_def)

lemma titles_loop_total: "\<exists>o'. titles_loop data max_items pos out = Some o'"
proof (induction "length data - pos" arbitrary: pos out rule: less_induct)
  case less
  show ?case
  proof (cases "pos + 8 \<le> length data \<and> length out < max_items")
    case True
    have IH: "\<exists>o'. titles_loop data max_items p o1 = Some o'" if "pos < p" for p o1 by (intro less.hyps) (use that True in auto)
    obtain r where r: "ta_record_len data pos = Some r" using ta_record_len_total by blast
    show ?thesis
    proof (cases "starts_with (drop pos data) ta_marker \<and> r \<noteq> None")
      case False
      then show ?thesis using True r IH [of "pos + 1" out] by (subst titles_loop.simps) auto
    next
      case ta: True
      then obtain len where len: "r = Some len" by blast
      have "pos + len \<le> length data" using ta_record_len_min r len by blast
      then obtain o1 where "title_items (unat (u32_from_le (take 4 (drop (pos + 4) data)))) data (pos + len) max_items (pos + 8) out = Some o1"
        using title_items_total by blast
      then show ?thesis using True r len ta IH [of "pos + max len 1" o1]
        by (subst titles_loop.simps) (auto simp: subslice_def)
    qed
  qed (auto simp: titles_loop.simps)
qed

lemma title_list_preview_total: "\<exists>ts. title_list_preview e n = Some ts"
  using try_fold_invariant [of "\<lambda>_. True" "[]" _ "\<lambda>f out. titles_loop (txf_value f) n 0 out"] titles_loop_total
  unfolding title_list_preview_def by blast

lemma leaf_node_total: "\<exists>r. leaf_node x elems i consumed = Some r"
proof -
  obtain ts where "title_list_preview (elems ! i) 6 = Some ts" using title_list_preview_total by blast
  then show ?thesis by (simp add: leaf_node_def multi_msg_node_def Let_def)
qed

lemma leaf_html_total: "\<exists>r. leaf_html x elems i consumed = Some r"
proof -
  obtain ts where "title_list_preview (elems ! i) 6 = Some ts" using title_list_preview_total by blast
  then show ?thesis by (simp add: leaf_html_def multi_msg_html_def Let_def)
qed

section \<open>The loops\<close>

lemma then_text_total: "a = Some s \<Longrightarrow> b = Some t \<Longrightarrow> \<exists>r. then_text a b = Some r"
  by (simp add: then_text_def)

lemma then_pieces_total: "a = Some s \<Longrightarrow> b = Some t \<Longrightarrow> \<exists>r. then_pieces a b = Some r"
  by (simp add: then_pieces_def)

lemma plain_from_total: "openable x data \<Longrightarrow> opened x data elems \<Longrightarrow> \<exists>s. plain_from x elems i = Some s"
proof (induction x elems i rule: plain_from.induct)
  case (1 x elems i)
  note IH = "1.IH" [OF _ refl]
  consider (stop) "length elems \<le> i" | (skipped) "i < length elems" "plain_skipped elems i"
    | (quiet) "i < length elems" "\<not> plain_skipped elems i" "el_typ (elems ! i) = 0x19 \<and> el_summary (elems ! i) = []"
    | (index) "i < length elems" "\<not> plain_skipped elems i" "\<not> (el_typ (elems ! i) = 0x19 \<and> el_summary (elems ! i) = [])"
        "is_mmt_transport_index (elems ! i)"
    | (other) "i < length elems" "\<not> plain_skipped elems i" "\<not> (el_typ (elems ! i) = 0x19 \<and> el_summary (elems ! i) = [])"
        "\<not> is_mmt_transport_index (elems ! i)"
    by linarith
  then show ?case
  proof cases
    case stop
    then show ?thesis by (simp add: plain_from.simps)
  next
    case skipped
    then show ?thesis using IH(1) "1.prems" by (subst plain_from.simps) simp
  next
    case quiet
    then show ?thesis using IH(2) "1.prems" by (subst plain_from.simps) (auto simp: then_text_def)
  next
    case index
    then obtain children where c: "mmt_display_elements x elems i = Some children" "opened x data children"
      using openable_stream "1.prems" by blast
    show ?thesis
    proof (cases "children = []")
      case True
      then obtain s where "plain_from x elems (i + 1) = Some s" using IH(4) index c "1.prems" by auto
      then show ?thesis using index c True by (subst plain_from.simps) (simp add: then_text_def Let_def)
    next
      case False
      then obtain s where "plain_from x children 0 = Some s" using IH(3) index c "1.prems" by auto
      then show ?thesis using index c False by (subst plain_from.simps) (auto simp: Let_def)
    qed
  next
    case other
    obtain children where c: "embedded_payload_elements x (elems ! i) = Some children"
      "children \<noteq> [] \<longrightarrow> opened x data children"
      using openable_payload [OF "1.prems"] other(1) nth_mem by blast
    obtain t where t: "plain_from x elems (i + 1) = Some t" using IH(6) other "1.prems" by auto
    show ?thesis
    proof (cases "children = []")
      case True
      then show ?thesis using other c t by (subst plain_from.simps) (auto simp: then_text_def Let_def)
    next
      case False
      then obtain s where "plain_from x children 0 = Some s" using IH(5) other c "1.prems" by auto
      then show ?thesis using other c False t by (subst plain_from.simps) (auto simp: then_text_def Let_def)
    qed
  qed
qed

lemma plain_text_total: "openable x data \<Longrightarrow> opened x data elems \<Longrightarrow> \<exists>s. plain_text x elems = Some s"
  using plain_from_total [of x data elems 0] by (auto simp: plain_text_def)

lemma rich_from_total: "openable x data \<Longrightarrow> opened x data elems \<Longrightarrow> \<exists>ps. rich_from x elems i consumed = Some ps"
proof (induction x elems i consumed rule: rich_from.induct)
  case (1 x elems i consumed)
  note IH = "1.IH" [OF _ refl]
  consider (stop) "length elems \<le> i" | (skipped) "i < length elems" "rich_skipped elems i consumed"
    | (index) "i < length elems" "\<not> rich_skipped elems i consumed" "is_mmt_transport_index (elems ! i)"
    | (other) "i < length elems" "\<not> rich_skipped elems i consumed" "\<not> is_mmt_transport_index (elems ! i)"
    by linarith
  then show ?case
  proof cases
    case stop
    then show ?thesis by (simp add: rich_from.simps)
  next
    case skipped
    then show ?thesis using IH(1) "1.prems" by (subst rich_from.simps) simp
  next
    case index
    then obtain children where c: "mmt_display_elements x elems i = Some children" "opened x data children"
      using openable_stream "1.prems" by blast
    obtain node run where l: "leaf_node x elems i consumed = Some (node, run)"
      using leaf_node_total [of x elems i consumed] by (auto simp: split_paired_Ex)
    show ?thesis
    proof (cases "children = []")
      case True
      then have "\<exists>ps. rich_from x elems (i + 1) (consumed @ run) = Some ps" using IH(3) index c l "1.prems" by auto
      then obtain ps where "rich_from x elems (i + 1) (consumed @ run) = Some ps" by blast
      then show ?thesis using index c True l by (subst rich_from.simps) (simp add: then_pieces_def)
    next
      case False
      then obtain ps where "rich_from x children 0 [] = Some ps" using IH(2) index c "1.prems" by auto
      then show ?thesis using index c False plain_text_total [OF "1.prems"(1) c(2)]
        by (subst rich_from.simps) (auto simp: Let_def)
    qed
  next
    case other
    obtain children where c: "embedded_payload_elements x (elems ! i) = Some children"
      "children \<noteq> [] \<longrightarrow> opened x data children"
      using openable_payload [OF "1.prems"] other(1) nth_mem by blast
    obtain node run where l: "leaf_node x elems i consumed = Some (node, run)"
      using leaf_node_total [of x elems i consumed] by (auto simp: split_paired_Ex)
    show ?thesis
    proof (cases "children = []")
      case True
      then have "\<exists>ps. rich_from x elems (i + 1) (consumed @ run) = Some ps" using IH(6) other c l "1.prems" by auto
      then obtain ps where "rich_from x elems (i + 1) (consumed @ run) = Some ps" by blast
      then show ?thesis using other c True l by (subst rich_from.simps) (simp add: then_pieces_def)
    next
      case False
      then obtain ps where "rich_from x children 0 [] = Some ps" using IH(4) other c "1.prems" by auto
      moreover obtain qs where "rich_from x elems (i + 1) consumed = Some qs" using IH(5) other c False "1.prems" by auto
      moreover obtain raw where "plain_text x children = Some raw" using plain_text_total "1.prems"(1) c(2) False by blast
      ultimately show ?thesis using other c False by (subst rich_from.simps) (simp add: then_pieces_def)
    qed
  qed
qed

lemma html_from_total: "openable x data \<Longrightarrow> opened x data elems \<Longrightarrow> \<exists>s. html_from x elems i consumed = Some s"
proof (induction x elems i consumed rule: html_from.induct)
  case (1 x elems i consumed)
  note IH = "1.IH" [OF _ refl]
  consider (stop) "length elems \<le> i" | (skipped) "i < length elems" "rich_skipped elems i consumed"
    | (index) "i < length elems" "\<not> rich_skipped elems i consumed" "is_mmt_transport_index (elems ! i)"
    | (other) "i < length elems" "\<not> rich_skipped elems i consumed" "\<not> is_mmt_transport_index (elems ! i)"
    by linarith
  then show ?case
  proof cases
    case stop
    then show ?thesis by (simp add: html_from.simps)
  next
    case skipped
    then show ?thesis using IH(1) "1.prems" by (subst html_from.simps) simp
  next
    case index
    then obtain children where c: "mmt_display_elements x elems i = Some children" "opened x data children"
      using openable_stream "1.prems" by blast
    show ?thesis
    proof (cases "children = []")
      case True
      then show ?thesis using IH(3) index c "1.prems" by (subst html_from.simps) auto
    next
      case False
      then show ?thesis using IH(2) index c "1.prems" by (subst html_from.simps) auto
    qed
  next
    case other
    obtain children where c: "embedded_payload_elements x (elems ! i) = Some children"
      "children \<noteq> [] \<longrightarrow> opened x data children"
      using openable_payload [OF "1.prems"] other(1) nth_mem by blast
    obtain node run where l: "leaf_html x elems i consumed = Some (node, run)"
      using leaf_html_total [of x elems i consumed] by (auto simp: split_paired_Ex)
    show ?thesis
    proof (cases "children = []")
      case True
      then have "\<exists>ps. html_from x elems (i + 1) (consumed @ run) = Some ps" using IH(6) other c l "1.prems" by auto
      then obtain ps where "html_from x elems (i + 1) (consumed @ run) = Some ps" by blast
      then show ?thesis using other c True l by (subst html_from.simps) (simp add: then_text_def)
    next
      case False
      then obtain ps where "html_from x children 0 [] = Some ps" using IH(4) other c "1.prems" by auto
      moreover obtain qs where "html_from x elems (i + 1) consumed = Some qs" using IH(5) other c False "1.prems" by auto
      ultimately show ?thesis using other c False by (subst html_from.simps) (simp add: then_text_def)
    qed
  qed
qed

lemma display_status_total:
  assumes "openable x data" "opened x data elems" "i < length elems"
  shows "\<exists>s. element_display_status x elems i = Some s"
proof (cases "is_mmt_transport_index (elems ! i)")
  case True
  then obtain es' where "parse_msgcontent x (el_payload (elems ! i)) = Some es'"
    using nested_payload [OF assms(2) nth_mem [OF assms(3)]] assms(1) unfolding openable_def by blast
  then show ?thesis using True by (simp add: element_display_status_def embedded_mmt_elements_def Let_def)
qed (simp add: element_display_status_def Let_def)

lemma element_jsons_total:
  assumes "openable x data" "opened x data elems" "\<forall>i \<in> set is. i < length elems"
  shows "\<exists>js. element_jsons x elems is = Some js"
  using assms(3)
proof (induction "is")
  case (Cons i "is")
  then obtain s js where "element_display_status x elems i = Some s" "element_jsons x elems is = Some js"
    using display_status_total [OF assms(1,2), of i] by auto
  then show ?case by simp
qed simp

lemma outputs_total:
  assumes "openable x data"
  shows "\<exists>out. parse_msgcontent_outputs x data = Some out"
proof -
  obtain es where es: "parse_msgcontent x data = Some es"
    using assms nested_self unfolding openable_def by blast
  then have o: "opened x data es" by (rule opened_self)
  obtain plain js ps html where "plain_text x es = Some plain" "element_jsons x es [0..<length es] = Some js"
    "rich_from x es 0 [] = Some ps" "html_from x es 0 [] = Some html"
    using plain_text_total [OF assms o] element_jsons_total [OF assms o, of "[0..<length es]"] rich_from_total [OF assms o, of 0 "[]"]
      html_from_total [OF assms o, of 0 "[]"] by auto
  then show ?thesis using es
    by (simp add: parse_msgcontent_outputs_def elements_json_def rich_nodes_json_def rich_html_fragment_def)
qed

section \<open>Messages of small bytes\<close>

definition small_bytes :: "bytes \<Rightarrow> bool" where
  "small_bytes data = (slice_ok data \<and> (\<forall>b \<in> set data. b < 0x80))"

lemma small_bytes_parses:
  assumes "small_bytes data"
  shows "\<exists>es. parse_msgcontent x data = Some es"
proof -
  have "slice_ok data" "strings_safe data"
    using assms strings_safe_small by (auto simp: small_bytes_def)
  then obtain res where "msg_loop x data
      (if length data \<ge> 20 \<and> starts_with data (ascii_bytes ''MSG'') then 20 else 0) [] = Some res"
    using msg_loop_total by blast
  then show ?thesis by (simp only: parse_msgcontent_def Option.bind.simps) blast
qed

lemma element_bytes_sub:
  assumes "element_of data e" "element_end e \<le> length data"
  shows "set (el_payload e) \<subseteq> set data" "set (element_bytes e) \<subseteq> set data"
proof -
  have "subslice data (element_end e - length (el_payload e)) (element_end e) = Some (el_payload e)"
    using assms(1) by (simp add: element_of_def)
  then show s: "set (el_payload e) \<subseteq> set data"
    using subslice_sublist set_mono_sublist by blast
  show "set (element_bytes e) \<subseteq> set data"
  proof (cases "el_typ e = 0 \<or> 65535 < length (el_payload e)")
    case False
    then have o: "el_offset e + 3 + length (el_payload e) \<le> length data" "data ! el_offset e = el_typ e"
      "u16_at data (el_offset e + 1) = length (el_payload e)"
      using assms by (auto simp: element_of_def element_end_def)
    have "nat_le 2 (length (el_payload e)) = take 2 (drop (el_offset e + 1) data)"
      using nat_le_le_nat [of "take 2 (drop (el_offset e + 1) data)"] o(1,3) by (simp add: u16_at_def)
    moreover have "el_typ e \<in> set data" using nth_mem [of "el_offset e" data] o(1,2) by simp
    ultimately show ?thesis using s by (auto simp: element_bytes_def dest: in_set_takeD in_set_dropD)
  qed (use s in \<open>auto simp: element_bytes_def\<close>)
qed

lemma small_bytes_sub: "small_bytes data \<Longrightarrow> set d \<subseteq> set data \<Longrightarrow> length d \<le> length data \<Longrightarrow> small_bytes d"
  by (auto simp: small_bytes_def slice_ok_def)

text \<open>What is opened in a message of small bytes are again elements of one.\<close>

definition shown_of :: "bytes \<Rightarrow> element list \<Rightarrow> bool" where
  "shown_of data es = (\<exists>es'. tiles data es' \<and> (es = es' \<or> (\<forall>e \<in> set es'. \<not> is_mmt_transport_index e)
     \<and> es = es' @ embedded_visible_elements data))"

lemma shown_without_index: "shown_of data es \<Longrightarrow> shown_of data (without_index es)"
proof -
  assume "shown_of data es"
  then obtain es' where e: "tiles data es'" "es = es' \<or> (\<forall>e \<in> set es'. \<not> is_mmt_transport_index e)
     \<and> es = es' @ embedded_visible_elements data" by (auto simp: shown_of_def)
  show ?thesis
  proof (cases "es = es'")
    case True
    then have "tiles data (without_index es)" using tiles_filter [OF e(1)] by (simp add: without_index_def)
    then show ?thesis by (auto simp: shown_of_def)
  next
    case False
    then have "without_index es = es"
      using e(2) embedded_visible_kinds by (fastforce simp: without_index_def filter_id_conv)
    then show ?thesis using e by (auto simp: shown_of_def)
  qed
qed

lemma shown_payload_small:
  assumes "small_bytes data" "shown_of data es" "e \<in> set es" "embedded_payload_candidate e \<or> is_mmt_transport_index e"
  shows "small_bytes (el_payload e)"
proof -
  obtain es' where "tiles data es'" "e \<in> set es'"
    using assms(2-4) embedded_visible_kinds by (fastforce simp: shown_of_def)
  then have t: "element_of data e" "element_end e \<le> length data" by (auto simp: tiles_def)
  then show ?thesis
    using small_bytes_sub [OF assms(1) element_bytes_sub(1) [OF t]] by (auto simp: element_end_def split: if_splits)
qed

lemma shown_stream_small:
  assumes "small_bytes data" "shown_of data es" "i < length es" "is_mmt_transport_index (es ! i)"
  shows "small_bytes (mmt_stream es i)"
proof -
  have "es ! i \<in> set es" using assms(3) by simp
  then have t: "tiles data es"
    using assms(2,4) embedded_visible_kinds by (fastforce simp: shown_of_def)
  then have sub: "set (element_bytes e) \<subseteq> set data \<and> set (el_payload e) \<subseteq> set data" if "e \<in> set es" for e
    using that element_bytes_sub [of data e] by (auto simp: tiles_def)
  have "set (mmt_stream es i) \<subseteq> set data"
    using sub [OF nth_mem [OF assms(3)]] sub by (fastforce simp: mmt_stream_def dest: in_set_dropD)
  then show ?thesis using small_bytes_sub [OF assms(1)] tiles_stream [OF t assms(3)] by simp
qed

lemma parse_shown: "parse_msgcontent x data = Some es \<Longrightarrow> shown_of data es"
  using parse_msgcontent_parts by (simp add: shown_of_def)

lemma opened_small: "opened x data es \<Longrightarrow> small_bytes data \<Longrightarrow> \<exists>d. small_bytes d \<and> shown_of d es"
proof (induction rule: opened.induct)
  case (opened_self es)
  then show ?case using parse_shown by blast
next
  case (opened_payload es e es')
  then show ?case using shown_payload_small parse_shown by blast
next
  case (opened_stream es i es')
  then show ?case using shown_stream_small parse_shown shown_without_index by blast
qed

lemma nested_small: "nested_message x data d \<Longrightarrow> small_bytes data \<Longrightarrow> small_bytes d"
  by (induction rule: nested_message.induct)
     (use opened_small shown_payload_small shown_stream_small in blast)+

section \<open>The technical form is JSON\<close>

definition records_ok :: "externals \<Rightarrow> element \<Rightarrow> bool" where
  "records_ok x e = (\<forall>r \<in> set (el_td_records e). td_record_ok (gb18030 x) r)"

lemma parse_td_records_ok: "parse_td_records gb data = Some rs \<Longrightarrow> r \<in> set rs \<Longrightarrow> td_record_ok gb r"
  using collected.nest [of gb 9 data 0 "[]"] by (auto simp: parse_td_records_def parse_td_ta_records_at_def extends_def)

lemma typed_element_records: "typed_element x pos t payload = Some e \<Longrightarrow> records_ok x e"
  by (auto simp: typed_element_def Let_def bind_eq_Some_conv records_ok_def dest: parse_td_records_ok split: if_splits)

lemma raw_record_element_records: "raw_record_element x pos payload = Some e \<Longrightarrow> records_ok x e"
  by (auto simp: raw_record_element_def Let_def bind_eq_Some_conv records_ok_def dest: parse_td_records_ok)

lemma raw_gap_element_records: "raw_gap_element x data pos stop = Some (Some e) \<Longrightarrow> records_ok x e"
  by (auto simp: raw_gap_element_def Let_def bind_eq_Some_conv records_ok_def default_element_def split: if_splits)

lemma parse_step_records:
  assumes "parse_step x data pos = Some (es, pos')" "e \<in> set es"
  shows "records_ok x e"
proof -
  obtain rl where rl: "raw_record_len_at data pos = Some rl"
    using assms(1) by (auto simp: parse_step_def bind_eq_Some_conv)
  show ?thesis
  proof (cases rl)
    case (Some n)
    then show ?thesis using assms rl raw_record_element_records
      by (auto simp: parse_step_def bind_eq_Some_conv split: if_splits)
  next
    case None
    obtain ty w where w: "idx data pos = Some ty" "Option.bind (subslice data (pos + 1) (pos + 3)) le16 = Some w"
      "slice_from data pos = Some (drop pos data)"
      using assms(1) rl None by (auto simp: parse_step_def bind_eq_Some_conv slice_from_def split: if_splits)
    define bad where "bad \<longleftrightarrow> \<not> valid_element_type ty \<or> (\<not> (unat w = 0 \<and> ty \<in> {0x0E, 0x12}) \<and> unat w < 3)
        \<or> unat w > length data - pos - 3"
    note step = assms(1) [unfolded parse_step_def Let_def rl None w Option.bind.simps option.case, folded bad_def]
    show ?thesis
      using step assms(2) raw_gap_element_records typed_element_records
      by (cases "if ty = 1 \<and> unat w \<ge> 1024 then near_td_ta_marker_delta (drop pos data) 8 else None"; cases bad)
        (auto simp: bind_eq_Some_conv split: option.splits if_splits)
  qed
qed

lemma msg_loop_records:
  "msg_loop x data pos out = Some res \<Longrightarrow> \<forall>e \<in> set out. records_ok x e \<Longrightarrow> \<forall>e \<in> set res. records_ok x e"
proof (induction x data pos out rule: msg_loop.induct)
  case (1 x data pos out)
  show ?case
  proof (cases "pos + 3 \<le> length data")
    case True
    then obtain es pos' where s: "parse_step x data pos = Some (es, pos')" "msg_loop x data pos' (out @ es) = Some res"
      using "1.prems"(1) by (subst (asm) msg_loop.simps) (auto split: option.splits)
    then show ?thesis using "1.IH" [OF True s(1) refl s(2)] "1.prems"(2) parse_step_records [OF s(1)] by auto
  qed (use "1.prems" in \<open>simp add: msg_loop.simps\<close>)
qed

lemma parse_msgcontent_records: "parse_msgcontent x data = Some es \<Longrightarrow> e \<in> set es \<Longrightarrow> records_ok x e"
proof -
  assume p: "parse_msgcontent x data = Some es" and e: "e \<in> set es"
  have "records_ok x e'" if "e' \<in> set (embedded_visible_elements data)" for e'
    using that by (auto simp: records_ok_def embedded_visible_elements_def embedded_element_def path_element_def default_element_def
        Let_def split: prod.splits if_splits)
  then show ?thesis using p e msg_loop_records [of x data _ "[]"]
    by (auto simp: parse_msgcontent_def bind_eq_Some_conv split: if_splits)
qed

lemma js_members_ok [simp]:
  "list_all json_plain (ascii key) \<Longrightarrow> member_ok (js_nat key n)"
  "list_all json_plain (ascii key) \<Longrightarrow> member_ok (js_text key s)"
  "list_all json_plain (ascii key) \<Longrightarrow> member_ok (js_texts key ss)"
  by (simp_all add: js_nat_def js_text_def js_texts_def)

lemma value_ok_bool: "value_ok (ascii ''true'')" "value_ok (ascii ''false'')"
  unfolding value_ok_def using json_true json_false by blast+

lemma js_bool_ok [simp]: "list_all json_plain (ascii key) \<Longrightarrow> member_ok (js_bool key b)"
  using value_ok_bool by (cases b) (simp_all add: js_bool_def)

lemma hex_char_plain: "k < 16 \<Longrightarrow> json_plain (hex_char k)"
  by (auto simp: hex_char_def json_plain_def)

lemma hex_bytes_plain [simp]: "list_all json_plain (hex_bytes data n)"
proof -
  have "list_all json_plain (hex2 k)" for k by (simp add: hex2_def hex_char_plain)
  then have "list_all json_plain (join [0x20] (map (\<lambda>b. hex2 (unat b)) bs))" for bs :: bytes
    by (induction bs rule: induct_list012) (simp_all add: json_plain_def)
  then show ?thesis by (simp add: hex_bytes_def json_plain_def)
qed

lemma js_hex_ok [simp]: "list_all json_plain (ascii key) \<Longrightarrow> member_ok (js_hex key data n)"
  by (simp add: js_hex_def)

lemma plain_if: "list_all json_plain s \<Longrightarrow> list_all json_plain t \<Longrightarrow> list_all json_plain (if c then s else t)"
  by simp

lemma element_label_plain [simp]: "list_all json_plain (element_label t)"
  unfolding element_label_def by (intro plain_if; simp add: json_plain_def)

lemma proto_fields_member_ok [simp]: "members_ok (proto_fields_member pfs)"
  by (simp add: proto_fields_member_def proto_field_json_def json_plain_def split: option.split)

lemma tlv_json_ok [simp]: "value_ok (tlv_json tlv)"
  by (simp add: tlv_json_def json_plain_def)

lemma value_texts_members_ok [simp]: "members_ok (value_texts_members f)"
  by (simp add: value_texts_members_def json_plain_def)

lemma txdata_field_json_ok [simp]: "value_ok (txdata_field_json f)"
  by (simp add: txdata_field_json_def rich_value_members_def Let_def json_plain_def)

lemma td_record_json_ok: "td_record_ok gb r \<Longrightarrow> value_ok (td_record_json r)"
proof -
  assume "td_record_ok gb r"
  then have "list_all json_plain (td_tag r)" by (auto simp: td_record_ok_def json_plain_def split: if_splits)
  then show ?thesis by (simp add: td_record_json_def low_bytes_members_def json_plain_def)
qed

lemma field_json_ok [simp]: "value_ok (field_json f)"
  by (simp add: field_json_def json_plain_def)

lemma element_json_ok:
  assumes "records_ok x e" "element_display_status x elems i = Some status"
  shows "value_ok (element_json e status)"
proof -
  have "status \<in> {''unclassified'', ''rendered'', ''ignored''}"
    using assms(2) by (auto simp: element_display_status_def Let_def split: if_splits)
  then have "list_all json_plain (ascii status)" by (auto simp: json_plain_def)
  moreover have "\<forall>t \<in> set (map td_record_json (el_td_records e)). value_ok t"
    using assms(1) td_record_json_ok by (auto simp: records_ok_def)
  ultimately show ?thesis by (simp add: element_json_def json_plain_def split_beta)
qed

lemma element_jsons_ok:
  "element_jsons x elems is = Some js \<Longrightarrow> \<forall>i \<in> set is. records_ok x (elems ! i) \<Longrightarrow> \<forall>t \<in> set js. value_ok t"
  by (induction "is" arbitrary: js) (auto simp: bind_eq_Some_conv dest: element_json_ok)

lemma face_small: "small_bytes [2, 4, 0, 1, 1, 0, 14]"
  by (simp add: small_bytes_def slice_ok_def)

lemma face_openable: "openable no_externals [2, 4, 0, 1, 1, 0, 14]"
  unfolding openable_def using nested_small [OF _ face_small] small_bytes_parses by fastforce

lemma face_opened:
  "\<exists>es. parse_msgcontent no_externals [2, 4, 0, 1, 1, 0, 14] = Some es \<and> opened no_externals [2, 4, 0, 1, 1, 0, 14] es"
  using small_bytes_parses [OF face_small] opened_self by blast

section \<open>Properties\<close>

text \<open>C12. The structured form of a message is JSON, whatever the message holds: the text that is written
  parses, by the grammar of RFC 8259, as an array, and every member of the array is an object whose
  members \<open>type\<close> and \<open>text\<close> are strings.\<close>

theorem rich_nodes_json_valid:
  assumes "rich_nodes_json x elems = Some s"
  shows "\<exists>vs. json_text s (JArray vs) \<and> (\<forall>v \<in> set vs. is_node v)"
proof -
  obtain pieces where "rich_from x elems 0 [] = Some pieces" "s = rich_finish elems pieces"
    using assms by (auto simp: rich_nodes_json_def)
  then obtain ns where ns: "s = js_arr ns" "\<forall>n \<in> set ns. node_ok n"
    using rich_finish_nodes rich_from_bundles by blast
  then obtain vs where "list_all2 (\<lambda>n v. json_text n v \<and> is_node v) ns vs"
    using list_all2_choice [of ns "\<lambda>n v. json_text n v \<and> is_node v"] by (auto simp: node_ok_def)
  then have "list_all2 json_text ns vs" "\<forall>v \<in> set vs. is_node v"
    by (auto simp: list_all2_conv_all_nth in_set_conv_nth)
  then show ?thesis using json_array ns(1) by blast
qed

theorem rich_nodes_json_valid_witness:
  "\<exists>es s vs. parse_msgcontent no_externals [2, 4, 0, 1, 1, 0, 14] = Some es \<and> rich_nodes_json no_externals es = Some s
     \<and> json_text s (JArray vs) \<and> (\<forall>v \<in> set vs. is_node v)"
proof -
  obtain es where es: "parse_msgcontent no_externals [2, 4, 0, 1, 1, 0, 14] = Some es"
    "opened no_externals [2, 4, 0, 1, 1, 0, 14] es" using face_opened by blast
  then obtain s where "rich_nodes_json no_externals es = Some s"
    using rich_from_total [OF face_openable es(2), of 0 "[]"] by (auto simp: rich_nodes_json_def)
  with rich_nodes_json_valid [OF this] es(1) show ?thesis by blast
qed

text \<open>C11. No message can put markup into the page: the HTML form is a sequence of escaped texts and well
  nested elements with the program's own twelve names and at most one of three attributes, whose value
  cannot end the attribute; every other \<open><\<close>, \<open>>\<close>, quote and ampersand of the message is written as an entity.\<close>

theorem rich_html_fragment_safe:
  assumes "rich_html_fragment x elems = Some html"
  shows "qq_markup html"
  using assms html_from_markup html_finish_ok by (auto simp: rich_html_fragment_def)

theorem rich_html_fragment_safe_witness:
  "\<exists>es html. parse_msgcontent no_externals [2, 4, 0, 1, 1, 0, 14] = Some es \<and> rich_html_fragment no_externals es = Some html
     \<and> qq_markup html"
proof -
  obtain es where es: "parse_msgcontent no_externals [2, 4, 0, 1, 1, 0, 14] = Some es"
    "opened no_externals [2, 4, 0, 1, 1, 0, 14] es" using face_opened by blast
  then obtain html where "rich_html_fragment no_externals es = Some html"
    using html_from_total [OF face_openable es(2), of 0 "[]"] by (auto simp: rich_html_fragment_def)
  with rich_html_fragment_safe [OF this] es(1) show ?thesis by blast
qed

text \<open>C13. The display of a message panics only where the parser does: either all four forms are made, or
  the parser panics on the message itself or on a message that is nested in it, which is the payload of an
  element or the stream behind an index element, at any depth.\<close>

theorem parse_msgcontent_outputs_panics:
  "(\<exists>out. parse_msgcontent_outputs x data = Some out) \<or> (\<exists>d. nested_message x data d \<and> parse_msgcontent x d = None)"
proof (cases "openable x data")
  case True
  then show ?thesis using outputs_total by blast
qed (auto simp: openable_def)

text \<open>C27. A message without bytes above \<open>0x7f\<close> is always displayed in all four forms, whatever it holds.\<close>

theorem parse_msgcontent_outputs_small:
  assumes "slice_ok data" "\<forall>b \<in> set data. b < 0x80"
  shows "\<exists>out. parse_msgcontent_outputs x data = Some out"
proof (rule outputs_total)
  have "small_bytes data" using assms by (simp add: small_bytes_def)
  then show "openable x data"
    unfolding openable_def using nested_small small_bytes_parses by blast
qed

theorem parse_msgcontent_outputs_small_witness:
  "\<exists>out. parse_msgcontent_outputs no_externals [2, 4, 0, 1, 1, 0, 14] = Some out"
  by (rule parse_msgcontent_outputs_small) (simp_all add: slice_ok_def)

text \<open>The technical form of a message is JSON too, although the tags of its records are written without
  escapes: all records come from the record parser, which knows three tags.\<close>

theorem elements_json_valid:
  assumes "parse_msgcontent x data = Some es" "elements_json x es = Some s"
  shows "\<exists>v. json_text s v"
proof -
  obtain js where js: "element_jsons x es [0..<length es] = Some js" "s = js_arr js"
    using assms(2) by (auto simp: elements_json_def)
  have "\<forall>t \<in> set js. value_ok t"
    using element_jsons_ok [OF js(1)] parse_msgcontent_records [OF assms(1)] by simp
  then show ?thesis using value_ok_arr js(2) unfolding value_ok_def by blast
qed

theorem elements_json_valid_witness:
  "\<exists>es s v. parse_msgcontent no_externals [2, 4, 0, 1, 1, 0, 14] = Some es \<and> elements_json no_externals es = Some s
     \<and> json_text s v"
proof -
  obtain es where es: "parse_msgcontent no_externals [2, 4, 0, 1, 1, 0, 14] = Some es"
    "opened no_externals [2, 4, 0, 1, 1, 0, 14] es" using face_opened by blast
  then obtain js where "element_jsons no_externals es [0..<length es] = Some js"
    using element_jsons_total [OF face_openable es(2), of "[0..<length es]"] by auto
  then have "elements_json no_externals es = Some (js_arr js)" by (simp add: elements_json_def)
  then show ?thesis using elements_json_valid [OF es(1)] es(1) by blast
qed

end
