(* ===== verification/Mmp_Items.thy ===== *)
theory Mmp_Items imports Display_Elements "HOL-Library.AList" begin

text \<open>
  Forwarded chat records (\<open>msg3_parser.rs\<close>): the test whether a message can hold one, the stream of
  messages in the \<open>Info\<close> of a row, the expansion of its messages into JSON items, at most eight levels
  deep and at most 2000 items altogether, and the insertion of nested items into the structured form
  of a message. None is a panic.

  JSON values are those of \<open>serde_json\<close>; the members of an object are sorted by key, as the map behind
  them keeps them.
\<close>

section \<open>The test for forwarded records\<close>

function multi_msg_scan :: "bytes \<Rightarrow> nat \<Rightarrow> bool option" where
  "multi_msg_scan data pos =
     (if pos + 3 \<le> length data then do {
        raw_len \<leftarrow> raw_record_len_at data pos;
        case raw_len of
          Some n \<Rightarrow> multi_msg_scan data (pos + max n 1)
        | None \<Rightarrow> do {
            typ \<leftarrow> idx data pos;
            w \<leftarrow> Option.bind (subslice data (pos + 1) (pos + 3)) le16;
            let n = unat w;
            rest \<leftarrow> slice_from data pos;
            case (if typ = 1 \<and> n \<ge> 1024 then near_td_ta_marker_delta rest 8 else None) of
              Some delta \<Rightarrow> multi_msg_scan data (pos + delta)
            | None \<Rightarrow>
                let zero_len_metadata = (n = 0 \<and> typ \<in> {0x0E, 0x12}) in
                if \<not> valid_element_type typ \<or> (\<not> zero_len_metadata \<and> n < 3) \<or> n > length data - pos - 3
                then do {
                  nxt \<leftarrow> next_standard_element_start data (pos + 1) 1024;
                  case nxt of Some next \<Rightarrow> multi_msg_scan data next | None \<Rightarrow> multi_msg_scan data (pos + 1) }
                else if typ = 0x1E then Some True
                else multi_msg_scan data (pos + 3 + n) } }
      else Some False)"
  by pat_completeness auto
termination
  by (relation "measure (\<lambda>(data, pos). length data - pos)")
     (auto dest!: near_delta_pos next_start_bound split: if_splits)

declare multi_msg_scan.simps [simp del]

definition msgcontent_maybe_contains_multi_msg :: "bytes \<Rightarrow> bool option" where
  "msgcontent_maybe_contains_multi_msg data =
     multi_msg_scan data (if length data \<ge> 20 \<and> starts_with data (ascii_bytes ''MSG'') then 20 else 0)"

section \<open>The stream of messages\<close>

text \<open>The loop over the messages: \<open>None\<close> of the inner option is the empty result of an early return.\<close>

fun mmp_split_loop :: "nat \<Rightarrow> bytes \<Rightarrow> nat \<Rightarrow> bytes list \<Rightarrow> (nat \<times> bytes list) option option" where
  "mmp_split_loop 0 data pos out = Some (Some (pos, out))"
| "mmp_split_loop (Suc n) data pos out =
     (if pos + 4 > length data then Some None
      else do {
        len_bytes \<leftarrow> subslice data pos (pos + 4);
        let len = unat (u32_from_le len_bytes);
        if len < 8 \<or> pos + 4 + len > length data \<or> \<not> starts_with (drop (pos + 4) data) (ascii_bytes ''MSG'')
        then Some None
        else do {
          item \<leftarrow> subslice data (pos + 4) (pos + 4 + len);
          mmp_split_loop n data (pos + 4 + len) (out @ [item]) } })"

definition split_mmp_msgpack_stream :: "bytes \<Rightarrow> bytes list option" where
  "split_mmp_msgpack_stream data =
     (if length data < 8 then Some []
      else do {
        count_bytes \<leftarrow> subslice data 0 4;
        total_bytes \<leftarrow> subslice data 4 8;
        let count = unat (u32_from_le count_bytes);
        let declared = unat (u32_from_le total_bytes);
        if count = 0 \<or> count > 200 \<or> declared \<noteq> length data - 8 then Some []
        else do {
          r \<leftarrow> mmp_split_loop count data 8 [];
          Some (case r of Some (pos, out) \<Rightarrow> if pos = length data then out else [] | None \<Rightarrow> []) } })"

definition msg_header_time_rand :: "bytes \<Rightarrow> u32 option \<times> u32 option" where
  "msg_header_time_rand data =
     (if length data < 16 \<or> \<not> starts_with data (ascii_bytes ''MSG'') then (None, None)
      else (Some (u32_from_le (take 4 (drop 8 data))), Some (u32_from_le (take 4 (drop 12 data)))))"

definition sender_names :: "str list" where
  "sender_names = map ascii [''strSenderName'', ''strSenderShowName'']"

fun mmp_item_meta :: "element list \<Rightarrow> u64 option \<times> str \<times> u64 option" where
  "mmp_item_meta [] = (None, [], None)"
| "mmp_item_meta (e # es) =
     (let uin = first_txdata_named_uint e [ascii ''dwSenderUin''];
          name = first_txdata_named_text e sender_names;
          seq = first_txdata_named_uint e [ascii ''dwMsgSeq''] in
      if uin \<noteq> None \<or> trim name \<noteq> [] \<or> seq \<noteq> None then (uin, name, seq) else mmp_item_meta es)"

section \<open>Objects\<close>

definition json_object_of :: "(string \<times> json) list \<Rightarrow> json" where
  "json_object_of kvs = JObject (fold (\<lambda>(k, v). member_insert (ascii k) v) kvs [])"

definition json_nat :: "nat \<Rightarrow> json" where
  "json_nat n = JNumber (nat_digits n)"

definition json_opt :: "'a::len word option \<Rightarrow> json" where
  "json_opt v = (case v of Some w \<Rightarrow> json_nat (unat w) | None \<Rightarrow> JNull)"

section \<open>Attaching nested items\<close>

definition expand_reason :: "nat \<Rightarrow> str" where
  "expand_reason depth = [0x5185, 0x5D4C, 0x20, 0x4D, 0x73, 0x67, 0x50, 0x61, 0x63, 0x6B, 0x4C, 0x69, 0x73, 0x74, 0x20, 0x5DF2, 0x9012, 0x5F52, 0x5C55, 0x5F00, 0xFF08, 0x7B2C, 0x20] @ nat_digits depth @ [0x20, 0x5C42, 0xFF09]"

definition expanded_members :: "json list \<Rightarrow> nat \<Rightarrow> (str \<times> json) list \<Rightarrow> (str \<times> json) list" where
  "expanded_members items depth kvs =
     member_insert (ascii ''expanded_count'') (json_nat (length items))
       (member_insert (ascii ''items_expanded'') (JArray items)
         (member_insert (ascii ''expand_reason'') (JString (expand_reason depth))
           (member_insert (ascii ''expand_status'') (JString (ascii ''expanded_from_nested_mmp'')) kvs)))"

definition child_keys :: "str list" where
  "child_keys = map ascii [''children'', ''items'', ''items_expanded'', ''nodes'', ''rich_nodes'']"

lemma map_of_size: "map_of kvs k = Some (v :: json) \<Longrightarrow> size v < size (JObject kvs)"
proof (induction kvs)
  case (Cons kv kvs)
  then show ?case by (cases kv) (auto split: if_splits)
qed simp

function (sequential) attach_expanded_mmp_items :: "json \<Rightarrow> json list \<Rightarrow> nat \<Rightarrow> json \<times> bool"
  and attach_list :: "json list \<Rightarrow> json list \<Rightarrow> nat \<Rightarrow> json list \<times> bool"
  and attach_keys :: "str list \<Rightarrow> (str \<times> json) list \<Rightarrow> json list \<Rightarrow> nat \<Rightarrow> (str \<times> json) list \<times> bool"
where
  "attach_expanded_mmp_items (JArray vs) items depth = (let (vs', done) = attach_list vs items depth in (JArray vs', done))"
| "attach_expanded_mmp_items (JObject kvs) items depth =
     (if map_of kvs (ascii ''type'') = Some (JString (ascii ''multi_msg''))
      then (JObject (expanded_members items depth kvs), True)
      else let (kvs', done) = attach_keys child_keys kvs items depth in (JObject kvs', done))"
| "attach_expanded_mmp_items v items depth = (v, False)"
| "attach_list [] items depth = ([], False)"
| "attach_list (v # vs) items depth =
     (let (v', done) = attach_expanded_mmp_items v items depth in
      if done then (v' # vs, True)
      else let (vs', done') = attach_list vs items depth in (v' # vs', done'))"
| "attach_keys [] kvs items depth = (kvs, False)"
| "attach_keys (k # ks) kvs items depth =
     (case map_of kvs k of
        Some child \<Rightarrow>
          let (child', done) = attach_expanded_mmp_items child items depth in
          if done then (AList.update k child' kvs, True) else attach_keys ks kvs items depth
      | None \<Rightarrow> attach_keys ks kvs items depth)"
  by pat_completeness auto
termination
  by (relation "measures [case_sum (\<lambda>(v, _). size v) (case_sum (\<lambda>(vs, _). size (JArray vs)) (\<lambda>(_, kvs, _). size (JObject kvs))),
        case_sum (\<lambda>_. 6) (case_sum (\<lambda>_. 0) (\<lambda>(ks, _). length ks))]")
     (auto simp: child_keys_def dest: map_of_size)

section \<open>Expanding the messages\<close>

definition parsed_array :: "externals \<Rightarrow> str \<Rightarrow> json" where
  "parsed_array x s = (case json_from_str x s of Some v \<Rightarrow> v | None \<Rightarrow> JArray [])"

text \<open>\<open>nest\<close> reads the nested items of a message, given the number of items still allowed; \<open>level\<close> is
  their depth.\<close>

definition mmp_item_json :: "(bytes \<Rightarrow> nat \<Rightarrow> (json list \<times> nat) option) \<Rightarrow> externals \<Rightarrow> nat \<Rightarrow> nat \<Rightarrow> bytes \<Rightarrow> nat \<Rightarrow> (json \<times> nat) option" where
  "mmp_item_json nest x level i item remaining = do {
     elems \<leftarrow> parse_msgcontent x item;
     text \<leftarrow> plain_text x elems;
     elements_text \<leftarrow> elements_json x elems;
     nodes_text \<leftarrow> rich_nodes_json x elems;
     html \<leftarrow> rich_html_fragment x elems;
     (nested, remaining') \<leftarrow> nest item remaining;
     let nodes = parsed_array x nodes_text;
     let nodes' = (if nested \<noteq> [] then fst (attach_expanded_mmp_items nodes nested level) else nodes);
     let (time, rand) = msg_header_time_rand item;
     let (uin, name, seq) = mmp_item_meta elems;
     Some (json_object_of
       [(''type'', JString (ascii ''mmp_item'')), (''index'', json_nat i), (''msg_len'', json_nat (length item)),
        (''time'', json_opt time), (''rand'', json_opt rand), (''sender_uin'', json_opt uin),
        (''sender_name'', JString name), (''msg_seq'', json_opt seq), (''text'', JString text),
        (''elements'', parsed_array x elements_text), (''rich_nodes'', nodes'), (''rich_html'', JString html)],
       remaining') }"

fun mmp_items_loop :: "(bytes \<Rightarrow> nat \<Rightarrow> (json list \<times> nat) option) \<Rightarrow> externals \<Rightarrow> nat \<Rightarrow> nat \<Rightarrow> bytes list \<Rightarrow> nat \<Rightarrow> (json list \<times> nat) option" where
  "mmp_items_loop nest x level i [] remaining = Some ([], remaining)"
| "mmp_items_loop nest x level i (item # items) remaining =
     (if remaining = 0 then Some ([], remaining)
      else do {
        (v, remaining') \<leftarrow> mmp_item_json nest x level i item (remaining - 1);
        (vs, remaining'') \<leftarrow> mmp_items_loop nest x level (i + 1) items remaining';
        Some (v # vs, remaining'') })"

definition stream_field :: "td_record list \<Rightarrow> txdata_field option" where
  "stream_field records =
     find (\<lambda>f. txf_name f = ascii ''buffMsgPackListStream'') (concat (map td_txdata_fields records))"

text \<open>The first argument is the number of levels left, \<open>MAX_MMP_NESTING_DEPTH - depth\<close>.\<close>

primrec mmp_items_value :: "nat \<Rightarrow> externals \<Rightarrow> bytes \<Rightarrow> nat \<Rightarrow> (json list \<times> nat) option" where
  "mmp_items_value 0 = (\<lambda>x data remaining. Some ([], remaining))"
| "mmp_items_value (Suc k) = (\<lambda>x data remaining.
     if remaining = 0 then Some ([], remaining)
     else do {
       records \<leftarrow> parse_td_ta_records_at (gb18030 x) data 0 0 [];
       case stream_field records of
         None \<Rightarrow> Some ([], remaining)
       | Some f \<Rightarrow> do {
           items \<leftarrow> split_mmp_msgpack_stream (txdata_lenkey_plain (txf_value f));
           mmp_items_loop (mmp_items_value k x) x (8 - k) 0 items remaining } })"

definition parse_info_mmp_items_value :: "externals \<Rightarrow> bytes \<Rightarrow> nat \<Rightarrow> nat \<Rightarrow> (json list \<times> nat) option" where
  "parse_info_mmp_items_value x data depth remaining = mmp_items_value (8 - depth) x data remaining"

definition parse_info_mmp_items_json :: "(json \<Rightarrow> str option) \<Rightarrow> externals \<Rightarrow> bytes \<Rightarrow> str option" where
  "parse_info_mmp_items_json to_string x data =
     map_option (\<lambda>(items, _). case to_string (JArray items) of Some s \<Rightarrow> s | None \<Rightarrow> ascii ''[]'')
       (parse_info_mmp_items_value x data 0 2000)"

end
