(* ===== verification/Mmp_Facts.thy ===== *)
theory Mmp_Facts imports Mmp_Items Display_Facts begin

text \<open>
  What holds of forwarded records: the test for them never panics and is exact on messages made of whole
  elements, but misses a record that the parser finds inside an element it drops; the stream of messages
  is read back exactly; the expansion respects its budget; nested items go to the first forwarded
  record of the structured form and change nothing else.
\<close>

section \<open>The test for forwarded records\<close>

lemma multi_msg_scan_total: "\<exists>b. multi_msg_scan data pos = Some b"
proof (induction "length data - pos" arbitrary: pos rule: less_induct)
  case less
  show ?case
  proof (cases "pos + 3 \<le> length data")
    case True
    then have IH: "\<exists>b. multi_msg_scan data p = Some b" if "pos < p" for p using that less.hyps [of p] by simp
    obtain r where r: "raw_record_len_at data pos = Some r" using raw_record_len_total by blast
    obtain w where w: "Option.bind (subslice data (pos + 1) (pos + 3)) le16 = Some w"
      using le16_subslice [of "pos + 1" data "pos + 3"] True by auto
    have i: "idx data pos = Some (data ! pos)" "slice_from data pos = Some (drop pos data)"
      using True by (simp_all add: idx_def slice_from_def)
    obtain nxt where nxt: "next_standard_element_start data (pos + 1) 1024 = Some nxt" using next_start_total by blast
    have "\<exists>b. multi_msg_scan data p = Some b" if "nxt = Some p" for p
      using IH [of p] next_start_bound [of data "pos + 1" 1024 p] nxt that True by auto
    moreover have "\<exists>b. multi_msg_scan data (pos + d) = Some b" if "near_td_ta_marker_delta (drop pos data) 8 = Some d" for d
      using IH near_delta_pos [OF that] by simp
    ultimately show ?thesis
      using True r w i nxt IH [of "pos + max _ 1"] IH [of "pos + 1"] IH [of "pos + 3 + _"]
      by (subst multi_msg_scan.simps) (auto simp: Let_def split: option.split)
  qed (auto simp: multi_msg_scan.simps)
qed

lemma multi_msg_scan_items:
  "\<forall>it \<in> set items. item_ok it \<Longrightarrow>
   multi_msg_scan (pre @ encode_items items) (length pre) = Some (\<exists>it \<in> set items. fst it = 0x1E)"
proof (induction items arbitrary: pre)
  case Nil
  then show ?case by (simp add: multi_msg_scan.simps encode_items_def)
next
  case (Cons it items)
  obtain t payload where it: "it = (t, payload)" by (cases it)
  let ?pos = "length pre" and ?data = "pre @ encode_items (it # items)" and ?pre = "pre @ encode_item it"
  have d: "?data = ?pre @ encode_items items" by (simp add: encode_items_def)
  have len: "length ?pre = ?pos + 3 + length payload" by (simp add: it encode_item_def)
  have ok: "item_ok (t, payload)" using Cons.prems it by simp
  have "?data = pre @ encode_item (t, payload) @ encode_items items" using d it by simp
  note h = item_header [OF ok this]
  obtain w where w: "Option.bind (subslice ?data (?pos + 1) (?pos + 3)) le16 = Some w" "unat w = length payload"
    using h(4) by blast
  have IH: "multi_msg_scan ?data (?pos + 3 + length payload) = Some (\<exists>it \<in> set items. fst it = 0x1E)"
    using Cons.IH [of ?pre] Cons.prems unfolding d len by simp
  have "(if t = 1 \<and> 1024 \<le> unat w then near_td_ta_marker_delta (drop ?pos ?data) 8 else None) = None"
    using ok w(2) by (auto simp: item_ok_def)
  moreover have "\<not> (\<not> valid_element_type t \<or> \<not> (unat w = 0 \<and> t \<in> {0x0E, 0x12}) \<and> unat w < 3
      \<or> length ?data - ?pos - 3 < unat w)"
    using ok w(2) h(5) by (auto simp: item_ok_def)
  moreover have "?pos + 3 \<le> length ?data" using h(5) by simp
  ultimately have "multi_msg_scan ?data ?pos = (if t = 0x1E then Some True else multi_msg_scan ?data (?pos + 3 + unat w))"
    by (subst multi_msg_scan.simps)
       (simp only: h(1-3) w(1) Option.bind.simps option.case Let_def if_True if_False)
  then show ?case using IH w(2) it by simp
qed

section \<open>A record the test misses\<close>

text \<open>A text element whose payload is no list of fields but holds an element of type \<open>0x1e\<close> with a TD record.\<close>

definition hidden_record :: bytes where "hidden_record = [0x54, 0x44, 1, 1, 0, 0]"
definition hidden_outer :: bytes where "hidden_outer = [0x7F, 0x7F, 0x7F, 0x1E, 6, 0] @ hidden_record"
definition hidden_message :: bytes where "hidden_message = [1, 12, 0] @ hidden_outer"

lemma collect_empty_td:
  assumes "subslice data (pos + 4) (pos + 6) = Some [0, 0]"
  shows "\<exists>r. collect_td nest gb data base pos 6 out = Some (out @ [r]) \<and> td_txdata_fields r = []"
  using assms parse_txdata_fields_encode [of "[]" gb]
  by (simp add: collect_td_def encode_txdata_def nat_le_2 Let_def)

lemma records_loop_skip:
  assumes "pos + 4 \<le> length data" "data ! pos \<noteq> 0x54"
  shows "records_loop nest gb data base pos out = (if length out < 400 then records_loop nest gb data base (pos + 1) out else Some out)"
proof -
  have "\<not> starts_with (drop pos data) td_marker" "\<not> starts_with (drop pos data) ta_marker"
    using assms by (auto simp: starts_with_def td_marker_def ta_marker_def take_Suc_conv_app_nth numeral_eq_Suc Cons_nth_drop_Suc [symmetric])
  then show ?thesis using assms by (subst records_loop.simps) (simp add: slice_from_def)
qed

lemma records_loop_skips:
  "0x54 \<notin> set (take k (drop pos data)) \<Longrightarrow> pos + k + 3 \<le> length data \<Longrightarrow> length out < 400 \<Longrightarrow>
   records_loop nest gb data base pos out = records_loop nest gb data base (pos + k) out"
proof (induction k)
  case (Suc k)
  then have "data ! (pos + k) \<noteq> 0x54" "0x54 \<notin> set (take k (drop pos data))"
    by (auto simp: take_Suc_conv_app_nth)
  then show ?case using Suc records_loop_skip [of "pos + k" data nest gb base out] by simp
qed simp

lemma records_loop_empty_td:
  assumes "data = pre @ [0x54, 0x44, 1, 1, 0, 0]" "p = length pre"
  shows "\<exists>r. records_loop nest gb data base p [] = Some [r] \<and> td_txdata_fields r = []"
proof -
  have m: "starts_with (drop p data) td_marker" using assms by (simp add: starts_with_def td_marker_def)
  have t: "td_record_len data p = Some (Some 6)"
    unfolding td_record_len_iff using assms
    by (auto simp: encode_td_record_def encode_txdata_def td_marker_def nat_le_2 intro!: exI [of _ "[]"])
  have "subslice data (p + 4) (p + 6) = Some [0, 0]"
    using assms by (intro subslice_at [where pre = "pre @ [0x54, 0x44, 1, 1]" and rest = "[]"]) simp_all
  from collect_empty_td [OF this, of nest gb base "[]"] obtain r where
    r: "collect_td nest gb data base p 6 [] = Some [r]" "td_txdata_fields r = []" by auto
  have "records_loop nest gb data base (p + 6) [r] = Some [r]"
    using assms by (subst records_loop.simps) simp
  then show ?thesis using r m t assms by (subst records_loop.simps) (simp add: slice_from_def)
qed

lemma hidden_records:
  "\<exists>r. parse_td_records gb hidden_record = Some [r] \<and> td_txdata_fields r = []"
  "\<exists>r. parse_td_records gb hidden_outer = Some [r] \<and> td_txdata_fields r = []"
proof -
  have e: "parse_td_records gb data = records_loop (records_at gb 8) gb data 0 0 []" for data
    by (simp add: parse_td_records_def parse_td_ta_records_at_def numeral_eq_Suc)
  show "\<exists>r. parse_td_records gb hidden_record = Some [r] \<and> td_txdata_fields r = []"
    using records_loop_empty_td [of hidden_record "[]" 0] by (simp add: e hidden_record_def)
  have "records_loop (records_at gb 8) gb hidden_outer 0 0 [] = records_loop (records_at gb 8) gb hidden_outer 0 6 []"
    using records_loop_skips [of 6 0 hidden_outer "[]" "records_at gb 8" gb 0]
    by (simp add: hidden_outer_def hidden_record_def)
  then show "\<exists>r. parse_td_records gb hidden_outer = Some [r] \<and> td_txdata_fields r = []"
    using records_loop_empty_td [of hidden_outer "[0x7F, 0x7F, 0x7F, 0x1E, 6, 0]" 6]
    by (simp add: e hidden_outer_def hidden_record_def)
qed

lemma hidden_fields: "parse_fields 1 hidden_outer = Some []"
  by (simp add: parse_fields_def hidden_outer_def hidden_record_def fields_at.simps idx_def subslice_def le16_pair_def)

lemma hidden_safe: "slice_ok hidden_outer" "strings_safe hidden_outer" "slice_ok hidden_record" "strings_safe hidden_record"
proof -
  show s: "slice_ok hidden_outer" "slice_ok hidden_record" by (simp_all add: slice_ok_def hidden_outer_def hidden_record_def)
  show "strings_safe hidden_outer" by (rule strings_safe_small [OF s(1)]) (simp add: hidden_outer_def hidden_record_def)
  show "strings_safe hidden_record" by (rule strings_safe_small [OF s(2)]) (simp add: hidden_record_def)
qed

text \<open>The outer text element is dropped, the record inside is kept.\<close>

lemma hidden_outer_useless: "\<exists>e. typed_element x 0 1 hidden_outer = Some e \<and> \<not> useful_element e"
proof -
  obtain e where e: "typed_element x 0 1 hidden_outer = Some e" using typed_element_total hidden_safe by blast
  obtain r where r: "parse_td_records (gb18030 x) hidden_outer = Some [r]" "td_txdata_fields r = []"
    using hidden_records by blast
  have nt: "\<not> starts_with_td_ta hidden_outer" by (simp add: starts_with_td_ta_def hidden_outer_def)
  obtain ms where "find_markers hidden_outer = Some ms" using find_markers_total by blast
  then have "el_typ e = 1 \<and> el_fields e = [] \<and> (el_td_records e = [] \<or> el_td_records e = [r]) \<and>
      (\<exists>e2. el_summary e = summarize_element x e2 \<and> el_typ e2 = 1 \<and> el_fields e2 = [] \<and> (el_td_records e2 = [] \<or> el_td_records e2 = [r]))"
    using e r(1) nt hidden_fields by (auto simp: typed_element_def Let_def bind_eq_Some_conv default_element_def split: if_splits)
  moreover have "summarize_element x e2 = []" if "el_typ e2 = 1" "el_fields e2 = []" "el_td_records e2 = [] \<or> el_td_records e2 = [r]" for e2
    using that r(2) by (auto simp: summarize_element_def first_txdata_named_text_def txdata_named_texts_def complete_txdata_fields_def Let_def first_text_def)
  ultimately have "\<not> useful_element e" by (auto simp: useful_element_def)
  then show ?thesis using e by blast
qed

lemma hidden_record_useful: "\<exists>e. typed_element x p 0x1E hidden_record = Some e \<and> useful_element e"
proof -
  obtain e where e: "typed_element x p 0x1E hidden_record = Some e" using typed_element_total hidden_safe by blast
  obtain r where r: "parse_td_records (gb18030 x) hidden_record = Some [r]" using hidden_records by blast
  have "starts_with_td_ta hidden_record" by (simp add: starts_with_td_ta_def hidden_record_def)
  then have "el_typ e = 0x1E \<and> el_td_records e = [r]"
    using e r by (auto simp: typed_element_def Let_def bind_eq_Some_conv default_element_def)
  then have "useful_element e" by (auto simp: useful_element_def)
  then show ?thesis using e by blast
qed

text \<open>Below 32 nothing is kept of the bytes between elements, so a malformed element is stepped over byte by byte.\<close>

lemma parse_step_malformed:
  assumes "pos + 3 \<le> length data" "pos < 32" "data ! pos \<noteq> 0x54" "data ! pos \<noteq> 1"
    "\<not> valid_element_type (data ! pos) \<or> length data - pos - 3 < u16_at data (pos + 1)"
  shows "parse_step x data pos = Some ([], pos + 1)"
proof -
  obtain w where w: "Option.bind (subslice data (pos + 1) (pos + 3)) le16 = Some w" "unat w = u16_at data (pos + 1)"
    using assms(1) le16_subslice [of "pos + 1" data "pos + 3"] u16_at_pair [of "pos + 1" data] by auto
  have "\<not> starts_with (drop pos data) td_marker" "\<not> starts_with (drop pos data) ta_marker"
    using assms(1,3) by (auto simp: starts_with_def td_marker_def ta_marker_def numeral_eq_Suc Cons_nth_drop_Suc [symmetric])
  then have r: "raw_record_len_at data pos = Some None" by (simp add: raw_record_len_at_def)
  have i: "idx data pos = Some (data ! pos)" "slice_from data pos = Some (drop pos data)"
    using assms(1) by (simp_all add: idx_def slice_from_def)
  obtain nxt where nxt: "next_standard_element_start data (pos + 1) 1024 = Some nxt" using next_start_total by blast
  have g: "raw_gap_element x data pos p = Some None" for p using assms(2) by (simp add: raw_gap_element_def)
  have bad: "(\<not> valid_element_type (data ! pos) \<or> (\<not> (unat w = 0 \<and> data ! pos \<in> {0x0E, 0x12}) \<and> unat w < 3)
      \<or> unat w > length data - pos - 3) = True" using assms(5) w(2) by auto
  have nodelta: "(if data ! pos = 1 \<and> 1024 \<le> unat w then near_td_ta_marker_delta (drop pos data) 8 else None) = None"
    using assms(4) by simp
  show ?thesis
    unfolding parse_step_def Let_def r w(1) i Option.bind.simps option.case nodelta bad if_True nxt
    using g by (simp split: option.splits)
qed

lemma msg_loop_step:
  "pos + 3 \<le> length data \<Longrightarrow> parse_step x data pos = Some (es, p) \<Longrightarrow> msg_loop x data pos out = msg_loop x data p (out @ es)"
  by (subst msg_loop.simps) simp

lemma hidden_found: "\<exists>e. msg_loop x hidden_message 0 [] = Some [e] \<and> el_typ e = 0x1E"
proof -
  let ?d = "hidden_message"
  note defs = hidden_message_def hidden_outer_def hidden_record_def
  obtain e0 where e0: "typed_element x 0 1 hidden_outer = Some e0" "\<not> useful_element e0" using hidden_outer_useless by blast
  obtain e where e: "typed_element x 6 0x1E hidden_record = Some e" "useful_element e"
    using hidden_record_useful by blast
  have s0: "parse_step x ?d 0 = Some ([], 1)"
  proof -
    have h: "raw_record_len_at ?d 0 = Some None" "idx ?d 0 = Some 1" "slice_from ?d 0 = Some ?d"
      by (simp_all add: raw_record_len_at_def starts_with_def td_marker_def ta_marker_def idx_def slice_from_def defs)
    have w: "Option.bind (subslice ?d (0 + 1) (0 + 3)) le16 = Some 12" by (simp add: subslice_def le16_pair_def defs)
    have p: "subslice ?d (0 + 3) (0 + 3 + 12) = Some hidden_outer" by (simp add: subslice_def defs)
    have g: "raw_gap_element x ?d 0 q = Some None" for q by (simp add: raw_gap_element_def)
    have n: "unat (12 :: u16) = 12" by simp
    have l: "length ?d = 15" by (simp add: defs)
    show ?thesis
      unfolding parse_step_def Let_def h w Option.bind.simps option.case n l using p e0 g
      by (simp add: valid_element_type_def)
  qed
  have s: "parse_step x ?d 1 = Some ([], 2)" "parse_step x ?d 2 = Some ([], 3)" "parse_step x ?d 3 = Some ([], 4)"
    "parse_step x ?d 4 = Some ([], 5)" "parse_step x ?d 5 = Some ([], 6)"
    by (subst parse_step_malformed; simp add: defs valid_element_type_def u16_at_def)+
  have l6: "length [1, 12, 0, 0x7F, 0x7F, 0x7F :: u8] = 6" by simp
  have s6: "parse_step x ?d 6 = Some ([e], 15)"
    using parse_step_item [where t = "0x1E" and payload = hidden_record and data = ?d and pre = "[1, 12, 0, 0x7F, 0x7F, 0x7F]"
        and rest = "[]" and x = x and e = e, unfolded l6] e
    by (simp add: item_ok_def valid_element_type_def encode_item_def nat_le_2 defs)
  have l: "length ?d = 15" by (simp add: defs)
  have "msg_loop x ?d 0 [] = msg_loop x ?d 15 [e]"
    by (simp add: msg_loop_step [OF _ s0] msg_loop_step [OF _ s(1)] msg_loop_step [OF _ s(2)] msg_loop_step [OF _ s(3)]
        msg_loop_step [OF _ s(4)] msg_loop_step [OF _ s(5)] msg_loop_step [OF _ s6] l
        del: One_nat_def)
  also have "\<dots> = Some [e]" by (subst msg_loop.simps) (simp add: l)
  finally show ?thesis using typed_element_head [OF e(1)] by auto
qed

lemma hidden_scan: "multi_msg_scan hidden_message 0 = Some False"
  using multi_msg_scan_items [of "[(1, hidden_outer)]" "[]"]
  by (simp add: encode_items_def encode_item_def item_ok_def valid_element_type_def nat_le_2 hidden_message_def
      hidden_outer_def hidden_record_def)

section \<open>The stream of messages\<close>

text \<open>The writer of a stream: the number of messages, the length of what follows, and every message after
  its length.\<close>

definition mmp_message_ok :: "bytes \<Rightarrow> bool" where
  "mmp_message_ok m = (8 \<le> length m \<and> length m < 2 ^ 32 \<and> starts_with m (ascii_bytes ''MSG''))"

definition encode_mmp_body :: "bytes list \<Rightarrow> bytes" where
  "encode_mmp_body ms = concat (map (\<lambda>m. nat_le 4 (length m) @ m) ms)"

definition encode_mmp :: "bytes list \<Rightarrow> bytes" where
  "encode_mmp ms = nat_le 4 (length ms) @ nat_le 4 (length (encode_mmp_body ms)) @ encode_mmp_body ms"

lemma mmp_split_loop_encode:
  "\<forall>m \<in> set ms. mmp_message_ok m \<Longrightarrow> data = pre @ encode_mmp_body ms @ rest \<Longrightarrow>
   mmp_split_loop (length ms) data (length pre) out = Some (Some (length pre + length (encode_mmp_body ms), out @ ms))"
proof (induction ms arbitrary: pre out)
  case (Cons m ms)
  let ?pos = "length pre" and ?pre = "pre @ nat_le 4 (length m) @ m"
  have ok: "8 \<le> length m" "length m < 2 ^ 32" "starts_with m (ascii_bytes ''MSG'')"
    using Cons.prems(1) by (auto simp: mmp_message_ok_def)
  have d: "data = ?pre @ encode_mmp_body ms @ rest" using Cons.prems(2) by (simp add: encode_mmp_body_def)
  have s: "subslice data ?pos (?pos + 4) = Some (nat_le 4 (length m))"
    using d by (intro subslice_at [where pre = pre and rest = "m @ encode_mmp_body ms @ rest"]) simp_all
  have m: "subslice data (?pos + 4) (?pos + 4 + length m) = Some m"
    using d by (intro subslice_at [where pre = "pre @ nat_le 4 (length m)" and rest = "encode_mmp_body ms @ rest"]) simp_all
  have "drop (?pos + 4) data = m @ encode_mmp_body ms @ rest" using d by simp
  then have "starts_with (drop (?pos + 4) data) (ascii_bytes ''MSG'')"
    using ok(3) by (auto simp: starts_with_prefix)
  moreover have "length ?pre = ?pos + 4 + length m" by simp
  moreover have "length data = ?pos + 4 + length m + length (encode_mmp_body ms) + length rest" using d by simp
  moreover have "length (encode_mmp_body (m # ms)) = 4 + length m + length (encode_mmp_body ms)"
    by (simp add: encode_mmp_body_def)
  ultimately show ?case
    using Cons.IH [of ?pre "out @ [m]"] Cons.prems(1) d s m ok u32_nat_le [OF ok(2)] by (simp add: Let_def add.assoc)
qed (simp add: encode_mmp_body_def)

lemma mmp_split_loop_Some:
  "mmp_split_loop n data pos out = Some (Some (stop, ms)) \<Longrightarrow> pos \<le> length data \<Longrightarrow>
   \<exists>ms'. ms = out @ ms' \<and> length ms' = n \<and> (\<forall>m \<in> set ms'. mmp_message_ok m) \<and> stop \<le> length data
     \<and> pos \<le> stop \<and> take (stop - pos) (drop pos data) = encode_mmp_body ms'"
proof (induction n arbitrary: pos out)
  case (Suc n)
  obtain b m where b: "pos + 4 \<le> length data" "subslice data pos (pos + 4) = Some b"
    "8 \<le> unat (u32_from_le b)" "pos + 4 + unat (u32_from_le b) \<le> length data"
    "starts_with (drop (pos + 4) data) (ascii_bytes ''MSG'')"
    "subslice data (pos + 4) (pos + 4 + unat (u32_from_le b)) = Some m"
    "mmp_split_loop n data (pos + 4 + unat (u32_from_le b)) (out @ [m]) = Some (Some (stop, ms))"
    using Suc.prems(1) by (auto simp: bind_eq_Some_conv Let_def not_less split: if_splits)
  from Suc.IH [OF b(7,4)] obtain ms' where ms': "ms = (out @ [m]) @ ms'" "length ms' = n"
    "\<forall>m \<in> set ms'. mmp_message_ok m" "stop \<le> length data" "pos + 4 + unat (u32_from_le b) \<le> stop"
    "take (stop - (pos + 4 + unat (u32_from_le b))) (drop (pos + 4 + unat (u32_from_le b)) data) = encode_mmp_body ms'"
    by blast
  have m: "m = take (unat (u32_from_le b)) (drop (pos + 4) data)" "length m = unat (u32_from_le b)"
    using b(4,6) by (auto simp: subslice_def)
  have bl: "length b = 4" "b = take 4 (drop pos data)" using b(1,2) by (auto simp: subslice_def)
  have "nat_le 4 (length m) = b"
    using nat_le_le_nat [of b] unat_u32_from_le [of b] bl(1) by (simp add: m(2))
  moreover have "mmp_message_ok m"
    using b(3,5) m unsigned_less [of "u32_from_le b"] by (auto simp: mmp_message_ok_def starts_with_def ascii_bytes_def)
  moreover have "take (stop - pos) (drop pos data) = b @ m @ encode_mmp_body ms'"
  proof -
    have "stop - pos = 4 + (unat (u32_from_le b) + (stop - (pos + 4 + unat (u32_from_le b))))" using ms'(5) by simp
    then show ?thesis unfolding bl(2) m(1) ms'(6) [symmetric] using bl(2)
      by (simp only: take_add drop_drop add.commute add.left_commute)
  qed
  ultimately show ?case using ms' by (intro exI [of _ "m # ms'"]) (auto simp: encode_mmp_body_def)
qed (simp add: encode_mmp_body_def)

lemma mmp_split_loop_total: "pos \<le> length data \<Longrightarrow> \<exists>r. mmp_split_loop n data pos out = Some r"
  by (induction n arbitrary: pos out) (auto simp: subslice_def Let_def)

section \<open>The budget of the expansion\<close>

definition is_mmp_item :: "json \<Rightarrow> bool" where
  "is_mmp_item v = (\<exists>kvs. v = JObject kvs \<and> map_of kvs (ascii ''type'') = Some (JString (ascii ''mmp_item''))
     \<and> sorted_wrt str_less (map fst kvs))"

text \<open>What a reader of nested items promises: it takes its items from the budget it is given.\<close>

locale budgeted_reader =
  fixes nest :: "bytes \<Rightarrow> nat \<Rightarrow> (json list \<times> nat) option"
  assumes nest_budget: "nest d r = Some (vs, r') \<Longrightarrow> length vs + r' \<le> r"
begin

lemma item_budget:
  assumes "mmp_item_json nest x level i item r = Some (v, r')"
  shows "r' \<le> r \<and> is_mmp_item v"
proof -
  from assms obtain vs kvs where "nest item r = Some (vs, r')" "v = json_object_of
      ((''type'', JString (ascii ''mmp_item'')) # kvs)" "map fst kvs = [''index'', ''msg_len'', ''time'', ''rand'', ''sender_uin'',
        ''sender_name'', ''msg_seq'', ''text'', ''elements'', ''rich_nodes'', ''rich_html'']"
    by (auto simp: mmp_item_json_def Let_def bind_eq_Some_conv split_beta)
  then show ?thesis using nest_budget [of item r vs r']
    by (auto simp: is_mmp_item_def json_object_of_def Cons_eq_map_conv)
qed

lemma loop_budget:
  "mmp_items_loop nest x level i items r = Some (vs, r') \<Longrightarrow>
   length vs + r' \<le> r \<and> length vs \<le> length items \<and> (\<forall>v \<in> set vs. is_mmp_item v)"
proof (induction items arbitrary: i r vs r')
  case (Cons item items)
  show ?case
  proof (cases "r = 0")
    case False
    then obtain v r1 vs1 where s: "mmp_item_json nest x level i item (r - 1) = Some (v, r1)"
      "mmp_items_loop nest x level (i + 1) items r1 = Some (vs1, r')" "vs = v # vs1"
      using Cons.prems by (auto simp: bind_eq_Some_conv)
    then show ?thesis using Cons.IH [OF s(2)] item_budget [OF s(1)] False by auto
  qed (use Cons.prems in simp)
qed simp

end

lemma split_mmp_total: "\<exists>ms. split_mmp_msgpack_stream data = Some ms"
proof (cases "8 \<le> length data")
  case True
  then obtain F where "mmp_split_loop n data 8 [] = Some (F n)" for n
    using mmp_split_loop_total [of 8 data _ "[]"] by metis
  then show ?thesis by (simp add: split_mmp_msgpack_stream_def subslice_def Let_def)
qed (simp add: split_mmp_msgpack_stream_def)

lemma split_mmp_Some:
  assumes "split_mmp_msgpack_stream data = Some ms" "ms \<noteq> []"
  shows "data = encode_mmp ms \<and> length ms \<le> 200 \<and> (\<forall>m \<in> set ms. mmp_message_ok m) \<and> length (encode_mmp_body ms) < 2 ^ 32"
proof -
  define c where "c = take 4 data"
  define t where "t = take 4 (drop 4 data)"
  have s: "8 \<le> length data" "unat (u32_from_le c) \<le> 200" "unat (u32_from_le t) = length data - 8"
    "mmp_split_loop (unat (u32_from_le c)) data 8 [] = Some (Some (length data, ms))"
    using assms by (auto simp: split_mmp_msgpack_stream_def bind_eq_Some_conv Let_def subslice_def c_def t_def
        split: if_splits option.splits)
  from mmp_split_loop_Some [OF s(4,1)] have ms: "length ms = unat (u32_from_le c)" "\<forall>m \<in> set ms. mmp_message_ok m"
    "drop 8 data = encode_mmp_body ms" by auto
  have l: "length c = 4" "length t = 4" using s(1) by (auto simp: c_def t_def)
  have "nat_le 4 (length ms) = c" "nat_le 4 (length data - 8) = t"
    using nat_le_le_nat [of c] nat_le_le_nat [of t] unat_u32_from_le [of c] unat_u32_from_le [of t] l ms(1) s(3)
    by simp_all
  moreover have l8: "length (encode_mmp_body ms) = length data - 8" using ms(3) [symmetric] by simp
  moreover have d: "data = c @ t @ drop 8 data"
    using append_take_drop_id [of 4 data] append_take_drop_id [of 4 "drop 4 data"] by (simp add: c_def t_def)
  ultimately have "encode_mmp ms = data" by (simp only: encode_mmp_def ms(3))
  moreover have "length (encode_mmp_body ms) < 2 ^ 32"
    unfolding l8 s(3) [symmetric] by (rule order_less_le_trans [OF unsigned_less]) simp
  ultimately show ?thesis using ms(1,2) s(2) by simp
qed

lemma split_mmp_encode:
  assumes "ms \<noteq> []" "length ms \<le> 200" "\<forall>m \<in> set ms. mmp_message_ok m" "length (encode_mmp_body ms) < 2 ^ 32"
  shows "split_mmp_msgpack_stream (encode_mmp ms) = Some ms"
proof -
  let ?c = "nat_le 4 (length ms)" and ?t = "nat_le 4 (length (encode_mmp_body ms))" and ?d = "encode_mmp ms"
  have "subslice ?d 0 4 = Some ?c"
    by (intro subslice_at [where pre = "[]" and rest = "?t @ encode_mmp_body ms"]) (simp_all add: encode_mmp_def)
  moreover have "subslice ?d 4 8 = Some ?t"
    by (intro subslice_at [where pre = ?c and rest = "encode_mmp_body ms"]) (simp_all add: encode_mmp_def)
  moreover have "length ms < 2 ^ 32" using assms(2) by simp
  moreover have "mmp_split_loop (length ms) ?d 8 [] = Some (Some (8 + length (encode_mmp_body ms), ms))"
    using mmp_split_loop_encode [OF assms(3), of ?d "?c @ ?t" "[]" "[]"] by (simp add: encode_mmp_def)
  ultimately show ?thesis
    using assms u32_nat_le [of "length ms"] u32_nat_le [OF assms(4)]
    by (simp add: split_mmp_msgpack_stream_def Let_def) (simp add: encode_mmp_def)
qed

lemma mmp_items_budget:
  "mmp_items_value k x data r = Some (vs, r') \<Longrightarrow>
   length vs + r' \<le> r \<and> length vs \<le> 200 \<and> (\<forall>v \<in> set vs. is_mmp_item v)"
proof (induction k arbitrary: data r vs r')
  case (Suc k)
  have nest: "budgeted_reader (mmp_items_value k x)"
    by unfold_locales (use Suc.IH in blast)
  have b: "length items \<le> 200" if "split_mmp_msgpack_stream d = Some items" for d items
    using split_mmp_Some [OF that] by (cases "items = []") auto
  show ?case
  proof (cases "(vs, r') = ([], r)")
    case False
    then obtain d items where "split_mmp_msgpack_stream d = Some items"
      "mmp_items_loop (mmp_items_value k x) x (8 - k) 0 items r = Some (vs, r')"
      using Suc.prems by (auto simp: bind_eq_Some_conv split: if_splits option.splits)
    then show ?thesis using budgeted_reader.loop_budget [OF nest] b by (meson le_trans)
  qed simp
qed simp

interpretation mmp_reader: budgeted_reader "mmp_items_value k x" for k x
  by unfold_locales (use mmp_items_budget in blast)

section \<open>Attaching nested items\<close>

text \<open>A forwarded record below a value, as the search sees it, and the value with the first one expanded.\<close>

definition is_multi_msg :: "(str \<times> json) list \<Rightarrow> bool" where
  "is_multi_msg kvs = (map_of kvs (ascii ''type'') = Some (JString (ascii ''multi_msg'')))"

inductive multi_below :: "json \<Rightarrow> bool" where
  below_here: "is_multi_msg kvs \<Longrightarrow> multi_below (JObject kvs)"
| below_array: "v \<in> set vs \<Longrightarrow> multi_below v \<Longrightarrow> multi_below (JArray vs)"
| below_member: "k \<in> set child_keys \<Longrightarrow> map_of kvs k = Some v \<Longrightarrow> multi_below v \<Longrightarrow> multi_below (JObject kvs)"

inductive_simps multi_below_simps: "multi_below (JObject kvs)" "multi_below (JArray vs)"
inductive_cases multi_below_leafE: "multi_below JNull" "multi_below (JBool b)" "multi_below (JNumber n)" "multi_below (JString s)"

inductive first_expanded :: "json list \<Rightarrow> nat \<Rightarrow> json \<Rightarrow> json \<Rightarrow> bool" for items depth where
  expanded_here: "is_multi_msg kvs \<Longrightarrow>
    first_expanded items depth (JObject kvs) (JObject (expanded_members items depth kvs))"
| expanded_array: "\<forall>w \<in> set before. \<not> multi_below w \<Longrightarrow> first_expanded items depth v v' \<Longrightarrow>
    first_expanded items depth (JArray (before @ v # after)) (JArray (before @ v' # after))"
| expanded_member: "\<not> is_multi_msg kvs \<Longrightarrow> child_keys = ks @ k # ks' \<Longrightarrow>
    \<forall>k' \<in> set ks. \<forall>w. map_of kvs k' = Some w \<longrightarrow> \<not> multi_below w \<Longrightarrow> map_of kvs k = Some v \<Longrightarrow>
    first_expanded items depth v v' \<Longrightarrow> first_expanded items depth (JObject kvs) (JObject (AList.update k v' kvs))"

lemma attach_outcomes:
  "if multi_below v then \<exists>v'. attach_expanded_mmp_items v items depth = (v', True) \<and> first_expanded items depth v v'
   else attach_expanded_mmp_items v items depth = (v, False)"
  "if \<exists>v \<in> set vs. multi_below v
   then \<exists>before v v' after. vs = before @ v # after \<and> attach_list vs items depth = (before @ v' # after, True)
     \<and> (\<forall>w \<in> set before. \<not> multi_below w) \<and> first_expanded items depth v v'
   else attach_list vs items depth = (vs, False)"
  "if \<exists>k \<in> set keys. \<exists>v. map_of kvs k = Some v \<and> multi_below v
   then \<exists>ks k ks' v v'. keys = ks @ k # ks' \<and> attach_keys keys kvs items depth = (AList.update k v' kvs, True)
     \<and> (\<forall>k' \<in> set ks. \<forall>w. map_of kvs k' = Some w \<longrightarrow> \<not> multi_below w) \<and> map_of kvs k = Some v
     \<and> first_expanded items depth v v'
   else attach_keys keys kvs items depth = (kvs, False)"
proof (induction v items depth and vs items depth and keys kvs items depth
    rule: attach_expanded_mmp_items_attach_list_attach_keys.induct)
  case (1 vs items depth)
  show ?case
  proof (cases "\<exists>v \<in> set vs. multi_below v")
    case True
    then show ?thesis using 1 by (auto simp: multi_below_simps Let_def intro: expanded_array)
  qed (use 1 in \<open>simp add: multi_below_simps\<close>)
next
  case (2 kvs items depth)
  show ?case
  proof (cases "is_multi_msg kvs")
    case True
    then show ?thesis by (simp add: multi_below_simps is_multi_msg_def expanded_here)
  next
    case False
    note IH = 2 [OF False [unfolded is_multi_msg_def]]
    show ?thesis
    proof (cases "\<exists>k \<in> set child_keys. \<exists>v. map_of kvs k = Some v \<and> multi_below v")
      case True
      then obtain ks k ks' v v' where "child_keys = ks @ k # ks'"
        "attach_keys child_keys kvs items depth = (AList.update k v' kvs, True)"
        "\<forall>k' \<in> set ks. \<forall>w. map_of kvs k' = Some w \<longrightarrow> \<not> multi_below w" "map_of kvs k = Some v"
        "first_expanded items depth v v'"
        using IH by auto
      moreover have "multi_below (JObject kvs)" using True by (auto simp: multi_below_simps)
      ultimately show ?thesis using False expanded_member [OF False] by (simp add: is_multi_msg_def)
    next
      case none: False
      then have "\<not> multi_below (JObject kvs)" using False by (auto simp: multi_below_simps)
      then show ?thesis using IH none False by (simp add: is_multi_msg_def)
    qed
  qed
next
  case (5 v vs items depth)
  show ?case
  proof (cases "multi_below v")
    case True
    then obtain v' where "attach_expanded_mmp_items v items depth = (v', True)" "first_expanded items depth v v'"
      using "5.IH"(1) by auto
    then show ?thesis using True
      by (auto intro!: exI [of _ "[]"])
  next
    case False
    then have a: "attach_expanded_mmp_items v items depth = (v, False)" using "5.IH"(1) by simp
    show ?thesis
    proof (cases "\<exists>v \<in> set vs. multi_below v")
      case True
      then obtain before w w' after where "vs = before @ w # after"
        "attach_list vs items depth = (before @ w' # after, True)" "\<forall>w \<in> set before. \<not> multi_below w"
        "first_expanded items depth w w'" using "5.IH"(2) [OF a [symmetric] refl] by auto
      then show ?thesis using a False True
        by (auto intro!: exI [of _ "v # before"])
    qed (use "5.IH"(2) [OF a [symmetric] refl] a False in auto)
  qed
next
  case (7 k ks kvs items depth)
  show ?case
  proof (cases "\<exists>v. map_of kvs k = Some v \<and> multi_below v")
    case True
    then obtain v v' where "map_of kvs k = Some v" "attach_expanded_mmp_items v items depth = (v', True)"
      "first_expanded items depth v v'" "multi_below v"
      using "7.IH"(2) by auto
    then show ?thesis
      by (intro if_P [THEN iffD2] exI [of _ "[]"] exI [of _ k] exI [of _ ks] exI [of _ v] exI [of _ v']) auto
  next
    case False
    let ?rest = "if \<exists>k \<in> set ks. \<exists>v. map_of kvs k = Some v \<and> multi_below v
        then \<exists>ks1 k ks' v v'. ks = ks1 @ k # ks' \<and> attach_keys ks kvs items depth = (AList.update k v' kvs, True)
          \<and> (\<forall>k' \<in> set ks1. \<forall>w. map_of kvs k' = Some w \<longrightarrow> \<not> multi_below w) \<and> map_of kvs k = Some v
          \<and> first_expanded items depth v v'
        else attach_keys ks kvs items depth = (kvs, False)"
    have "attach_keys (k # ks) kvs items depth = attach_keys ks kvs items depth \<and> ?rest"
    proof (cases "map_of kvs k")
      case None
      then show ?thesis using "7.IH"(1) [OF None] by simp
    next
      case (Some child)
      then have c: "attach_expanded_mmp_items child items depth = (child, False)"
        using "7.IH"(2) [OF Some] False by simp
      show ?thesis using "7.IH"(3) [OF Some c [symmetric] refl] Some c by simp
    qed
    then have a: "attach_keys (k # ks) kvs items depth = attach_keys ks kvs items depth" and IH: ?rest by blast+
    show ?thesis
    proof (cases "\<exists>k \<in> set ks. \<exists>v. map_of kvs k = Some v \<and> multi_below v")
      case True
      then obtain ks1 k1 ks' v v' where "ks = ks1 @ k1 # ks'" "attach_keys ks kvs items depth = (AList.update k1 v' kvs, True)"
          "\<forall>k' \<in> set ks1. \<forall>w. map_of kvs k' = Some w \<longrightarrow> \<not> multi_below w" "map_of kvs k1 = Some v"
          "first_expanded items depth v v'" using IH by auto
      then show ?thesis using a True False by (auto intro!: exI [of _ "k # ks1"])
    next
      case none: False
      then show ?thesis using a IH False by auto
    qed
  qed
qed (auto elim: multi_below_leafE)

section \<open>Properties\<close>



text \<open>The test promises to keep every message that can hold a forwarded record, and does not: a text
  element that the parser drops, because it has no text, hides the forwarded record inside it from the test,
  while the parser goes on behind its first byte and finds the record.\<close>

theorem multi_msg_prefilter_misses:
  "msgcontent_maybe_contains_multi_msg hidden_message = Some False
   \<and> (\<exists>out. parse_msgcontent x hidden_message = Some out \<and> (\<exists>e \<in> set out. el_typ e = 0x1E))"
proof -
  have p: "(if length hidden_message \<ge> 20 \<and> starts_with hidden_message (ascii_bytes ''MSG'') then 20 else (0 :: nat)) = 0"
    by (simp add: hidden_message_def hidden_outer_def hidden_record_def)
  obtain e where e: "msg_loop x hidden_message 0 [] = Some [e]" "el_typ e = 0x1E" using hidden_found by blast
  then show ?thesis
    using hidden_scan by (simp add: msgcontent_maybe_contains_multi_msg_def parse_msgcontent_def p)
qed

text \<open>C14. The stream of a forwarded record is read back exactly: the reader never panics, and it returns
  messages only for the serialization of at most 200 messages that start with \<open>MSG\<close>, and then exactly these.\<close>

theorem split_mmp_msgpack_stream_exact:
  "(\<exists>r. split_mmp_msgpack_stream data = Some r) \<and>
   (split_mmp_msgpack_stream data = Some ms \<and> ms \<noteq> [] \<longleftrightarrow>
     data = encode_mmp ms \<and> ms \<noteq> [] \<and> length ms \<le> 200 \<and> list_all mmp_message_ok ms \<and> length (encode_mmp_body ms) < 2 ^ 32)"
  using split_mmp_total split_mmp_Some [of data ms] split_mmp_encode [of ms] unfolding list_all_iff by blast

theorem split_mmp_msgpack_stream_exact_witness:
  "split_mmp_msgpack_stream (encode_mmp [ascii_bytes ''MSG00000'']) = Some [ascii_bytes ''MSG00000'']"
  using split_mmp_msgpack_stream_exact [of "encode_mmp [ascii_bytes ''MSG00000'']" "[ascii_bytes ''MSG00000'']"]
  by (simp add: mmp_message_ok_def encode_mmp_body_def ascii_bytes_def starts_with_def)

text \<open>C28. The expansion of forwarded records stays within its budget at every depth: the items of the result and
  the budget that is left never exceed the budget given, a level has at most 200 items, from the eighth
  level on there are none, and every item is an object of type \<open>mmp_item\<close> whose keys are sorted.\<close>

theorem parse_info_mmp_items_budget:
  assumes "parse_info_mmp_items_value x data depth remaining = Some (items, remaining')"
  shows "length items + remaining' \<le> remaining \<and> length items \<le> 200 \<and> (8 \<le> depth \<longrightarrow> items = [])
     \<and> list_all is_mmp_item items"
  using mmp_items_budget assms unfolding parse_info_mmp_items_value_def list_all_iff by auto

theorem parse_info_mmp_items_budget_witness:
  "\<exists>items remaining'. parse_info_mmp_items_value no_externals [0x54, 0x44, 1, 1, 0, 0] 7 2000 = Some (items, remaining')
     \<and> length items + remaining' \<le> 2000 \<and> list_all is_mmp_item items"
proof -
  obtain r where "parse_td_records (\<lambda>_. None) hidden_record = Some [r]" "td_txdata_fields r = []"
    using hidden_records by blast
  then have "parse_info_mmp_items_value no_externals [0x54, 0x44, 1, 1, 0, 0] 7 2000 = Some ([], 2000)"
    by (simp add: parse_info_mmp_items_value_def parse_td_records_def hidden_record_def no_externals_def stream_field_def)
  from parse_info_mmp_items_budget [OF this] this show ?thesis by blast
qed

text \<open>Nested items go to exactly one place, the first forwarded record in the order of the search, and everything
  else stays as it is; without a forwarded record nothing changes and the search says so.\<close>

theorem attach_expanded_mmp_items_first:
  "if multi_below v then \<exists>v'. attach_expanded_mmp_items v items depth = (v', True) \<and> first_expanded items depth v v'
   else attach_expanded_mmp_items v items depth = (v, False)"
  by (rule attach_outcomes)

end
