(* ===== verification/Credentials.thy ===== *)
theory Credentials imports Elements begin

text \<open>
  The credential store (\<open>credentials.rs\<close>) and the import of captured events into it (\<open>capture.rs\<close>).

  The store is a text file with one JSON record per line; its content is the state, \<open>None\<close> while the file
  does not exist. The clock, the case mapping of Unicode and the JSON reader and writer of records are the
  fields of the environment. None of the functions can panic.
\<close>

section \<open>Records\<close>

datatype credential_kind = PcqqSqliteKey | InfostorageTeaKey | NtqqSqlcipherKey | OtherKind

record credential_record =
  cr_kind :: credential_kind
  cr_account :: str
  cr_source :: str
  cr_db_path :: str
  cr_key_hex :: str
  cr_key_len :: nat
  cr_captured_at :: str
  cr_metadata :: "(str \<times> str) list"

datatype cred_error = Missing_File | Bad_Line nat | Empty_Account | Odd_Or_Empty_Hex | Non_Hex | Wrong_Key_Len | Unwritable

record cred_env =
  ce_now :: str
  ce_lowercase :: "nat \<Rightarrow> str"
  ce_read_record :: "str \<Rightarrow> credential_record option"
  ce_write_record :: "credential_record \<Rightarrow> str option"

definition clean_hex :: "cred_env \<Rightarrow> str \<Rightarrow> str" where
  "clean_hex env value =
     concat (map (ce_lowercase env) (filter (\<lambda>c. c \<notin> {0x20, 0x3A, 0x2D, 9, 13, 10}) value))"

definition normalized :: "cred_env \<Rightarrow> credential_record \<Rightarrow> credential_record" where
  "normalized env r =
     (let hex = clean_hex env (cr_key_hex r) in
      r\<lparr>cr_key_hex := hex,
        cr_key_len := (if cr_key_len r = 0 then str_len hex div 2 else cr_key_len r),
        cr_captured_at := (if cr_captured_at r = [] then ce_now env else cr_captured_at r)\<rparr>)"

definition validate :: "credential_record \<Rightarrow> cred_error option" where
  "validate r =
     (if trim (cr_account r) = [] then Some Empty_Account
      else if cr_key_hex r = [] \<or> odd (str_len (cr_key_hex r)) then Some Odd_Or_Empty_Hex
      else if \<not> list_all is_ascii_hexdigit (cr_key_hex r) then Some Non_Hex
      else if cr_key_len r \<noteq> str_len (cr_key_hex r) div 2 then Some Wrong_Key_Len
      else None)"

section \<open>The file\<close>

definition strip_cr :: "str \<Rightarrow> str" where
  "strip_cr line = (if ends_with line [13] then butlast line else line)"

definition text_lines :: "str \<Rightarrow> str list" where
  "text_lines s =
     (let parts = split_on 10 s in map strip_cr (if last parts = [] then butlast parts else parts))"

fun read_lines :: "cred_env \<Rightarrow> nat \<Rightarrow> str list \<Rightarrow> cred_error + credential_record list" where
  "read_lines env i [] = Inr []"
| "read_lines env i (line # ls) =
     (if trim line = [] then read_lines env (i + 1) ls
      else case ce_read_record env (trim line) of
          None \<Rightarrow> Inl (Bad_Line (i + 1))
        | Some raw \<Rightarrow>
            let r = normalized env raw in
            (case validate r of
               Some err \<Rightarrow> Inl err
             | None \<Rightarrow> (case read_lines env (i + 1) ls of Inl err \<Rightarrow> Inl err | Inr rs \<Rightarrow> Inr (r # rs))))"

definition read_credentials :: "cred_env \<Rightarrow> str option \<Rightarrow> cred_error + credential_record list" where
  "read_credentials env file =
     (case file of None \<Rightarrow> Inl Missing_File | Some text \<Rightarrow> read_lines env 0 (text_lines text))"

definition append_credential :: "cred_env \<Rightarrow> credential_record \<Rightarrow> str option \<Rightarrow> (cred_error + unit) \<times> str option" where
  "append_credential env record file =
     (let r = normalized env record in
      case validate r of
        Some err \<Rightarrow> (Inl err, file)
      | None \<Rightarrow>
          (let old = (case file of Some text \<Rightarrow> text | None \<Rightarrow> []) in
           case ce_write_record env r of
             None \<Rightarrow> (Inl Unwritable, Some old)
           | Some line \<Rightarrow> (Inr (), Some (old @ line @ [10]))))"

section \<open>Summary and lookup\<close>

record credential_summary =
  cs_records :: nat
  cs_pcqq_sqlite_keys :: nat
  cs_infostorage_tea_keys :: nat
  cs_ntqq_sqlcipher_keys :: nat

definition count_kind :: "credential_kind \<Rightarrow> credential_record list \<Rightarrow> nat" where
  "count_kind kind rs = length (filter (\<lambda>r. cr_kind r = kind) rs)"

definition summarize :: "cred_env \<Rightarrow> str option \<Rightarrow> cred_error + credential_summary" where
  "summarize env file =
     (case (case file of Some _ \<Rightarrow> read_credentials env file | None \<Rightarrow> Inr []) of
        Inl err \<Rightarrow> Inl err
      | Inr rs \<Rightarrow> Inr \<lparr>cs_records = length rs, cs_pcqq_sqlite_keys = count_kind PcqqSqliteKey rs,
           cs_infostorage_tea_keys = count_kind InfostorageTeaKey rs,
           cs_ntqq_sqlcipher_keys = count_kind NtqqSqlcipherKey rs\<rparr>)"

definition has_kind_for_account :: "credential_record list \<Rightarrow> str \<Rightarrow> credential_kind \<Rightarrow> bool" where
  "has_kind_for_account records account kind = (\<exists>r \<in> set records. cr_account r = account \<and> cr_kind r = kind)"

function strip_prefixes :: "str \<Rightarrow> str \<Rightarrow> str" where
  "strip_prefixes p s = (if p \<noteq> [] \<and> starts_with s p then strip_prefixes p (drop (length p) s) else s)"
  by pat_completeness auto
termination
  by (relation "measure (\<lambda>(_, s). length s)") (auto simp: starts_with_def intro!: diff_less)

declare strip_prefixes.simps [simp del]

definition normalize_path_text :: "str \<Rightarrow> str" where
  "normalize_path_text value =
     strip_prefixes [0x5C, 0x5C, 0x3F, 0x5C]
       (to_ascii_lowercase (map (\<lambda>c. if c = 0x2F then 0x5C else c) (trim value)))"

definition same_ignoring_case :: "str \<Rightarrow> str \<Rightarrow> bool" where
  "same_ignoring_case s t = (to_ascii_lowercase s = to_ascii_lowercase t)"

definition unambiguous_key :: "credential_record list \<Rightarrow> credential_record option" where
  "unambiguous_key records =
     (case filter (\<lambda>r. 0 < cr_key_len r) records of
        [] \<Rightarrow> None
      | candidate # rest \<Rightarrow>
          if list_all (\<lambda>r. same_ignoring_case (cr_key_hex r) (cr_key_hex candidate)) rest then Some candidate else None)"

text \<open>A path is its text and its last component, where it has one that is valid Unicode.\<close>

type_synonym path_text = "str \<times> str option"

definition basename_of :: "path_text \<Rightarrow> str" where
  "basename_of path = (case snd path of Some name \<Rightarrow> to_ascii_lowercase name | None \<Rightarrow> [])"

definition path_matches :: "credential_kind \<Rightarrow> path_text \<Rightarrow> credential_record \<Rightarrow> bool" where
  "path_matches kind path r = (cr_kind r = kind \<and> normalize_path_text (cr_db_path r) = normalize_path_text (fst path))"

definition basename_matches :: "credential_kind \<Rightarrow> path_text \<Rightarrow> credential_record \<Rightarrow> bool" where
  "basename_matches kind path r =
     (cr_kind r = kind \<and> basename_of path \<noteq> []
      \<and> (case map_of (cr_metadata r) (ascii ''basename'') of
           Some value \<Rightarrow> same_ignoring_case value (basename_of path) | None \<Rightarrow> False))"

definition key_for_path :: "credential_record list \<Rightarrow> path_text \<Rightarrow> credential_kind \<Rightarrow> credential_record option" where
  "key_for_path records path kind =
     (let exact = filter (path_matches kind path) records in
      if exact \<noteq> [] then unambiguous_key exact
      else let named = filter (basename_matches kind path) records in
        if named \<noteq> [] then unambiguous_key named
        else unambiguous_key (filter (\<lambda>r. cr_kind r = kind) records))"

definition pcqq_sqlite_key_for_path :: "credential_record list \<Rightarrow> path_text \<Rightarrow> credential_record option" where
  "pcqq_sqlite_key_for_path records path = key_for_path records path PcqqSqliteKey"

definition ntqq_sqlcipher_key_for_path :: "credential_record list \<Rightarrow> path_text \<Rightarrow> credential_record option" where
  "ntqq_sqlcipher_key_for_path records path = key_for_path records path NtqqSqlcipherKey"

end
