(* ===== verification/Capture_Events.thy ===== *)
theory Capture_Events imports Credentials begin

text \<open>
  The events of a capture run (\<open>capture.rs\<close>): the JSON event of a line of output, the credential of
  an event, and the import of a log of events into the credential store. Host paths (\<open>capture.rs\<close>,
  \<open>image_index.rs\<close>): between Windows and the mounts below \<open>/mnt\<close>. None of the functions can panic.
\<close>

section \<open>JSON values\<close>

definition json_get :: "json \<Rightarrow> string \<Rightarrow> json option" where
  "json_get v key = (case v of JObject kvs \<Rightarrow> map_of kvs (ascii key) | _ \<Rightarrow> None)"

definition json_as_str :: "json option \<Rightarrow> str option" where
  "json_as_str v = (case v of Some (JString s) \<Rightarrow> Some s | _ \<Rightarrow> None)"

fun digits_number_of :: "nat \<Rightarrow> str \<Rightarrow> nat" where
  "digits_number_of n [] = n"
| "digits_number_of n (c # cs) = digits_number_of (10 * n + (c - 48)) cs"

definition json_as_u64 :: "json option \<Rightarrow> nat option" where
  "json_as_u64 v = (case v of
     Some (JNumber s) \<Rightarrow>
       if s \<noteq> [] \<and> list_all is_ascii_digit s \<and> digits_number_of 0 s < 2 ^ 64 then Some (digits_number_of 0 s) else None
   | _ \<Rightarrow> None)"

definition str_at :: "json \<Rightarrow> string \<Rightarrow> str option" where
  "str_at v key = json_as_str (json_get v key)"

definition or_some :: "'a option \<Rightarrow> 'a option \<Rightarrow> 'a option" where
  "or_some a b = (case a of Some v \<Rightarrow> Some v | None \<Rightarrow> b)"

fun json_path :: "json \<Rightarrow> string list \<Rightarrow> json option" where
  "json_path v [] = Some v"
| "json_path v (k # ks) = Option.bind (json_get v k) (\<lambda>w. json_path w ks)"

definition nested_str :: "json \<Rightarrow> string list \<Rightarrow> str option" where
  "nested_str v path = json_as_str (json_path v path)"

section \<open>Events\<close>

definition is_capture_event_json :: "(str \<Rightarrow> json option) \<Rightarrow> str \<Rightarrow> bool" where
  "is_capture_event_json from_str value =
     (case from_str value of
        None \<Rightarrow> False
      | Some v \<Rightarrow> str_at (case json_get v ''payload'' of Some p \<Rightarrow> p | None \<Rightarrow> v) ''type'' \<noteq> None)"

fun first_event_suffix :: "(str \<Rightarrow> json option) \<Rightarrow> str \<Rightarrow> str option" where
  "first_event_suffix from_str [] = None"
| "first_event_suffix from_str (c # cs) =
     (if c = 0x7B \<and> is_capture_event_json from_str (c # cs) then Some (c # cs)
      else first_event_suffix from_str cs)"

definition extract_frida_event_json :: "(str \<Rightarrow> json option) \<Rightarrow> str \<Rightarrow> str option" where
  "extract_frida_event_json from_str line =
     (let trimmed = trim line in
      if trimmed = [] then None
      else if is_capture_event_json from_str trimmed then Some trimmed
      else first_event_suffix from_str trimmed)"

definition parse_event_line :: "(str \<Rightarrow> json option) \<Rightarrow> str \<Rightarrow> json option" where
  "parse_event_line from_str line =
     map_option (\<lambda>v. case json_get v ''payload'' of Some payload \<Rightarrow> payload | None \<Rightarrow> v) (from_str line)"

text \<open>The last event of a type in a log; \<open>None\<close> of the outer option is a file that cannot be read.\<close>

definition last_event_of_type :: "string \<Rightarrow> (str \<Rightarrow> json option) \<Rightarrow> str option \<Rightarrow> json option" where
  "last_event_of_type kind from_str file =
     (case file of
        None \<Rightarrow> None
      | Some text \<Rightarrow>
          find (\<lambda>event. str_at event ''type'' = Some (ascii kind))
            (List.map_filter (\<lambda>line. parse_event_line from_str (trim line)) (rev (text_lines text))))"

definition rekey_result_from_events :: "(str \<Rightarrow> json option) \<Rightarrow> str option \<Rightarrow> json option" where
  "rekey_result_from_events = last_event_of_type ''rekey_result''"

definition pcqq_query_result_from_events :: "(str \<Rightarrow> json option) \<Rightarrow> str option \<Rightarrow> json option" where
  "pcqq_query_result_from_events = last_event_of_type ''pcqq_query_result''"

definition count_event_lines :: "str option \<Rightarrow> nat" where
  "count_event_lines file = (case file of None \<Rightarrow> 0 | Some text \<Rightarrow> length (text_lines text))"

section \<open>Credentials of events\<close>

definition copied_members :: "json \<Rightarrow> string list \<Rightarrow> (str \<times> str) list \<Rightarrow> (str \<times> str) list" where
  "copied_members event keys metadata =
     fold (\<lambda>key m. case str_at event key of Some v \<Rightarrow> member_insert (ascii key) v m | None \<Rightarrow> m) keys metadata"

definition copied_paths :: "json \<Rightarrow> (string \<times> string list) list \<Rightarrow> (str \<times> str) list \<Rightarrow> (str \<times> str) list" where
  "copied_paths event paths metadata =
     fold (\<lambda>(key, path) m. case nested_str event path of Some v \<Rightarrow> member_insert (ascii key) v m | None \<Rightarrow> m) paths metadata"

definition text_or :: "str option \<Rightarrow> string \<Rightarrow> str" where
  "text_or v fallback = (case v of Some s \<Rightarrow> s | None \<Rightarrow> ascii fallback)"

definition sqlite_credential :: "str \<Rightarrow> json \<Rightarrow> str \<Rightarrow> str \<Rightarrow> nat \<Rightarrow> (str \<times> str) list \<Rightarrow> credential_record" where
  "sqlite_credential account event source key_hex key_len metadata =
     \<lparr>cr_kind = PcqqSqliteKey, cr_account = account, cr_source = source, cr_db_path = text_or (str_at event ''path'') [],
      cr_key_hex = key_hex, cr_key_len = key_len, cr_captured_at = [], cr_metadata = metadata\<rparr>"

definition infostorage_credential :: "str \<Rightarrow> json \<Rightarrow> credential_record option" where
  "infostorage_credential account event =
     map_option (\<lambda>key_hex.
       \<lparr>cr_kind = InfostorageTeaKey, cr_account = account,
        cr_source = text_or (str_at event ''source'') ''frida_common_init_storage_file_system'',
        cr_db_path = text_or (str_at event ''path'') [], cr_key_hex = key_hex,
        cr_key_len = (case json_as_u64 (or_some (json_get event ''key_len_assumed'') (json_get event ''keyLen'')) of
           Some n \<Rightarrow> n | None \<Rightarrow> 16),
        cr_captured_at = [],
        cr_metadata = copied_members event [''path'', ''source'', ''offset'', ''manager'', ''list_ptr''] []\<rparr>)
       (str_at event ''key_hex'')"

definition db_credential :: "str \<Rightarrow> json \<Rightarrow> credential_record option" where
  "db_credential account event =
     map_option (\<lambda>key_hex.
       sqlite_credential account event
         (ascii (if json_get event ''keyHex'' \<noteq> None then ''frida_kernelutil_key_db''
                 else ''frida_kernelutil_multisqlite_memory''))
         key_hex (case json_as_u64 (json_get event ''keyLen'') of Some n \<Rightarrow> n | None \<Rightarrow> 16)
         (copied_members event [''basename'', ''db'', ''cpp'', ''conn''] []))
       (or_some (str_at event ''keyHex'')
         (or_some (nested_str event [''state'', ''codec'', ''key_hex''])
           (nested_str event [''state'', ''codec'', ''rekey_hex''])))"

definition pcqq_sqlite_memory_event_to_credential :: "str \<Rightarrow> json \<Rightarrow> string \<Rightarrow> credential_record option" where
  "pcqq_sqlite_memory_event_to_credential account event root =
     map_option (\<lambda>key_hex.
       sqlite_credential account event
         (ascii (if root = ''codec'' then ''frida_kernelutil_multisqlite_memory''
                 else ''frida_kernelutil_'' @ root @ ''_memory''))
         key_hex (str_len key_hex div 2)
         (copied_paths event
            (map (\<lambda>key. (key, [root, key])) [''codec_state'', ''sqlite_db'', ''connection'', ''table'', ''sqlite_db_ptr_ptr''])
            (copied_members event
              [''basename'', ''db'', ''inner_db'', ''connection'', ''manager'', ''entry'', ''sqlite_db'', ''sqlite3''] [])))
       (or_some (nested_str event [root, ''codec'', ''key_hex'']) (nested_str event [root, ''codec'', ''rekey_hex'']))"

definition memory_key_credential :: "str \<Rightarrow> json \<Rightarrow> credential_record option" where
  "memory_key_credential account event =
     map_option (\<lambda>key_hex.
       sqlite_credential account event (ascii ''frida_kernelutil_multisqlite_memory'') key_hex (str_len key_hex div 2)
         (copied_members event [''basename'', ''db'', ''inner_db'', ''connection'', ''sqlite_db'', ''codec_state''] []))
       (str_at event ''key_hex'')"

definition event_to_credential :: "str \<Rightarrow> json \<Rightarrow> credential_record option" where
  "event_to_credential account event =
     (let kind = text_or (str_at event ''type'') [] in
      if kind = ascii ''infostorage_key'' then infostorage_credential account event
      else if kind = ascii ''db'' then db_credential account event
      else if kind = ascii ''key_storage_multisqlite_db'' then pcqq_sqlite_memory_event_to_credential account event ''codec''
      else if kind = ascii ''key_storage_probe'' then pcqq_sqlite_memory_event_to_credential account event ''after''
      else if kind = ascii ''pcqq_sqlite_memory_key'' then memory_key_credential account event
      else None)"

section \<open>The import of a log\<close>

type_synonym identity = "credential_kind \<times> str \<times> str \<times> str \<times> str"

definition credential_identity :: "credential_record \<Rightarrow> identity" where
  "credential_identity r = (cr_kind r, cr_account r, cr_source r, cr_db_path r, cr_key_hex r)"

record normalize_summary =
  ns_events :: nat
  ns_imported :: nat
  ns_ignored :: nat

text \<open>The state of the loop: the identities seen, the summary and the file.\<close>

record import_state =
  is_known :: "identity list"
  is_summary :: normalize_summary
  is_file :: "str option"

definition ignored :: "import_state \<Rightarrow> import_state" where
  "ignored st = st\<lparr>is_summary := (is_summary st)\<lparr>ns_ignored := ns_ignored (is_summary st) + 1\<rparr>\<rparr>"

definition import_line :: "cred_env \<Rightarrow> (str \<Rightarrow> json option) \<Rightarrow> str \<Rightarrow> str \<Rightarrow> import_state \<Rightarrow> cred_error option \<times> import_state" where
  "import_line env from_str account line st =
     (if trim line = [] then (None, st)
      else
        let st = st\<lparr>is_summary := (is_summary st)\<lparr>ns_events := ns_events (is_summary st) + 1\<rparr>\<rparr> in
        case parse_event_line from_str (trim line) of
          None \<Rightarrow> (None, ignored st)
        | Some event \<Rightarrow>
            (case event_to_credential account event of
               None \<Rightarrow> (None, ignored st)
             | Some raw \<Rightarrow>
                 let r = normalized env raw; identity = credential_identity r in
                 if identity \<in> set (is_known st) then (None, ignored st)
                 else
                   let st = st\<lparr>is_known := identity # is_known st\<rparr> in
                   (case append_credential env r (is_file st) of
                      (Inl err, file) \<Rightarrow> (Some err, st\<lparr>is_file := file\<rparr>)
                    | (Inr _, file) \<Rightarrow>
                        (None, st\<lparr>is_file := file,
                           is_summary := (is_summary st)\<lparr>ns_imported := ns_imported (is_summary st) + 1\<rparr>\<rparr>))))"

fun import_lines :: "cred_env \<Rightarrow> (str \<Rightarrow> json option) \<Rightarrow> str \<Rightarrow> str list \<Rightarrow> import_state \<Rightarrow> cred_error option \<times> import_state" where
  "import_lines env from_str account [] st = (None, st)"
| "import_lines env from_str account (line # ls) st =
     (case import_line env from_str account line st of
        (Some err, st') \<Rightarrow> (Some err, st')
      | (None, st') \<Rightarrow> import_lines env from_str account ls st')"

definition normalize_event_log :: "cred_env \<Rightarrow> (str \<Rightarrow> json option) \<Rightarrow> str \<Rightarrow> str option \<Rightarrow> str option
    \<Rightarrow> (cred_error + normalize_summary) \<times> str option" where
  "normalize_event_log env from_str account input file =
     (case (case file of Some _ \<Rightarrow> read_credentials env file | None \<Rightarrow> Inr []) of
        Inl err \<Rightarrow> (Inl err, file)
      | Inr existing \<Rightarrow>
          (case input of
             None \<Rightarrow> (Inl Missing_File, file)
           | Some text \<Rightarrow>
               (case import_lines env from_str account (text_lines text)
                   \<lparr>is_known = map credential_identity existing, is_summary = \<lparr>ns_events = 0, ns_imported = 0, ns_ignored = 0\<rparr>,
                    is_file = file\<rparr> of
                  (Some err, st) \<Rightarrow> (Inl err, is_file st)
                | (None, st) \<Rightarrow> (Inr (is_summary st), is_file st))))"

section \<open>Host paths\<close>

definition wsl_path_to_windows :: "str \<Rightarrow> str" where
  "wsl_path_to_windows text =
     (if starts_with text (ascii ''/mnt/'') then
        (case split_on 0x2F (drop 5 text) of
           drive # part # parts \<Rightarrow>
             if str_len drive = 1 \<and> (is_ascii_uppercase (hd drive) \<or> is_ascii_lowercase (hd drive))
             then [to_ascii_uppercase (hd drive), 0x3A, 0x5C]
               @ map (\<lambda>c. if c = 0x2F then 0x5C else c) (drop 1 (dropWhile (\<lambda>c. c \<noteq> 0x2F) (drop 5 text)))
             else text
         | _ \<Rightarrow> text)
      else text)"

text \<open>The parts of a path between slashes of either kind.\<close>

definition path_parts :: "str \<Rightarrow> str list" where
  "path_parts s = split_on 0x5C (map (\<lambda>c. if c = 0x2F then 0x5C else c) s)"

definition wsl_mount_path_from_windows_path :: "str \<Rightarrow> str option" where
  "wsl_mount_path_from_windows_path text =
     (let value = (if starts_with text [0x5C, 0x5C, 0x3F, 0x5C] \<or> starts_with text [0x5C, 0x3F, 0x3F, 0x5C]
                   then drop 4 text else text) in
      case value of
        d # colon # slash # rest \<Rightarrow>
          if (is_ascii_uppercase d \<or> is_ascii_lowercase d) \<and> colon = 0x3A \<and> slash \<in> {0x5C, 0x2F}
          then Some (ascii ''/mnt/'' @ to_ascii_lowercase [d]
                 @ concat (map (\<lambda>part. 0x2F # part) (filter (\<lambda>part. part \<noteq> []) (path_parts rest))))
          else None
      | _ \<Rightarrow> None)"

definition fs_path_for_host :: "str \<Rightarrow> str" where
  "fs_path_for_host text = (case wsl_mount_path_from_windows_path text of Some converted \<Rightarrow> converted | None \<Rightarrow> text)"

end
