(* ===== verification/Capture_Facts.thy ===== *)
theory Capture_Facts imports Capture_Events begin

text \<open>
  What holds of the credential store: a stored record is read back, every record that is read is valid, an
  import of a log can be repeated without effect, a key is only handed out when no other key competes with
  it, and host paths below \<open>/mnt\<close> survive the way to Windows and back.
\<close>

section \<open>Lines\<close>

lemma split_on_append_sep: "split_on d (xs @ d # ys) = split_on d xs @ split_on d ys"
proof (induction xs)
  case (Cons x xs)
  show ?case
  proof (cases "x = d")
    case False
    obtain y zs where "split_on d xs = y # zs" by (cases "split_on d xs") auto
    then show ?thesis using Cons False by simp
  qed (use Cons in simp)
qed simp

lemma split_on_no: "d \<notin> set xs \<Longrightarrow> split_on d xs = [xs]"
  by (induction xs) auto

text \<open>A file ends with a line feed, or is empty.\<close>

definition whole_lines :: "str \<Rightarrow> bool" where
  "whole_lines s = (s = [] \<or> last s = 10)"

lemma text_lines_Nil [simp]: "text_lines [] = []"
  by (simp add: text_lines_def Let_def)

lemma text_lines_append:
  assumes "whole_lines s"
  shows "text_lines (s @ line @ [10]) = text_lines s @ map strip_cr (split_on 10 line)"
proof (cases "s = []")
  case True
  have "split_on 10 (line @ [10]) = split_on 10 line @ [[]]" using split_on_append_sep [of 10 line "[]"] by simp
  then show ?thesis using True by (simp add: text_lines_def Let_def)
next
  case False
  then obtain t where t: "s = t @ [10]" using assms by (metis append_butlast_last_id whole_lines_def)
  have s: "split_on 10 s = split_on 10 t @ [[]]" using split_on_append_sep [of 10 t "[]"] by (simp add: t)
  have "split_on 10 (s @ line @ [10]) = split_on 10 t @ split_on 10 line @ [[]]"
    using split_on_append_sep [of 10 t "line @ [10]"] split_on_append_sep [of 10 line "[]"] by (simp add: t)
  then show ?thesis using s by (simp add: text_lines_def Let_def butlast_append)
qed

lemma read_lines_append:
  "read_lines env i (ls @ ls') = (case read_lines env i ls of
     Inl err \<Rightarrow> Inl err
   | Inr rs \<Rightarrow> (case read_lines env (i + length ls) ls' of Inl err \<Rightarrow> Inl err | Inr rs' \<Rightarrow> Inr (rs @ rs')))"
  by (induction ls arbitrary: i) (auto simp: Let_def split: option.splits sum.splits)

section \<open>What the JSON library promises\<close>

text \<open>Documented behaviour of \<open>serde_json\<close>: a written record is one line without outer blanks that reads
  back as the record. The case mapping of Unicode maps
  ASCII as ASCII does, gives only lower case letters, and leaves these alone.\<close>

definition json_lines :: "cred_env \<Rightarrow> bool" where
  "json_lines env = (\<forall>r line. ce_write_record env r = Some line \<longrightarrow>
     10 \<notin> set line \<and> line \<noteq> [] \<and> \<not> is_whitespace (hd line) \<and> \<not> is_whitespace (last line)
     \<and> ce_read_record env line = Some r)"

definition lower_case :: "cred_env \<Rightarrow> bool" where
  "lower_case env = ((\<forall>c < 0x80. ce_lowercase env c = to_ascii_lowercase [c])
     \<and> (\<forall>c \<ge> 0x80. \<forall>d \<in> set (ce_lowercase env c). ce_lowercase env d = [d] \<and> (d < 0x80 \<longrightarrow> is_ascii_lowercase d)))"

lemma trim_bounded:
  assumes "line \<noteq> []" "\<not> is_whitespace (hd line)" "\<not> is_whitespace (last line)"
  shows "trim line = line"
proof -
  have "dropWhile is_whitespace line = line" using assms by (simp add: dropWhile_eq_self_iff)
  moreover have "dropWhile is_whitespace (rev line) = rev line" using assms by (simp add: dropWhile_eq_self_iff hd_rev)
  ultimately show ?thesis by (simp add: trim_def trim_matches_def trim_end_matches_def)
qed

lemma ends_with_one: "ends_with xs [x] \<longleftrightarrow> xs \<noteq> [] \<and> last xs = x"
  by (cases xs rule: rev_cases) (auto simp: ends_with_def)

lemma strip_cr_bounded: "\<not> is_whitespace (last line) \<Longrightarrow> strip_cr line = line"
  by (auto simp: strip_cr_def ends_with_one is_whitespace_def)

section \<open>Records\<close>

lemma validate_None: "validate r = None \<longleftrightarrow> trim (cr_account r) \<noteq> [] \<and> cr_key_hex r \<noteq> [] \<and> even (str_len (cr_key_hex r))
   \<and> list_all is_ascii_hexdigit (cr_key_hex r) \<and> cr_key_len r = str_len (cr_key_hex r) div 2"
  by (auto simp: validate_def)

lemma lowered_stays:
  assumes "lower_case env" "d \<in> set (ce_lowercase env c)" "c \<notin> {0x20, 0x3A, 0x2D, 9, 13, 10}"
  shows "ce_lowercase env d = [d] \<and> d \<notin> {0x20, 0x3A, 0x2D, 9, 13, 10}"
proof (cases "c < 0x80")
  case True
  then have d: "d = (if is_ascii_uppercase c then c + 32 else c)"
    using assms(1,2) by (auto simp: lower_case_def to_ascii_lowercase_def)
  then have "d < 0x80" using True by (auto simp: is_ascii_uppercase_def)
  then have "ce_lowercase env d = to_ascii_lowercase [d]" using assms(1) by (simp add: lower_case_def)
  then show ?thesis using d assms(3) by (auto simp: to_ascii_lowercase_def is_ascii_uppercase_def split: if_splits)
next
  case False
  then have "ce_lowercase env d = [d] \<and> (d < 0x80 \<longrightarrow> is_ascii_lowercase d)"
    using assms(1,2) by (auto simp: lower_case_def not_less)
  then show ?thesis by (auto simp: is_ascii_lowercase_def)
qed

lemma clean_hex_again: "lower_case env \<Longrightarrow> clean_hex env (clean_hex env h) = clean_hex env h"
proof -
  assume l: "lower_case env"
  have "ce_lowercase env d = [d] \<and> d \<notin> {0x20, 0x3A, 0x2D, 9, 13, 10}" if "d \<in> set (clean_hex env h)" for d
    using that lowered_stays [OF l] by (auto simp: clean_hex_def)
  then have "concat (map (ce_lowercase env) (filter (\<lambda>c. c \<notin> {0x20, 0x3A, 0x2D, 9, 13, 10}) xs)) = xs"
    if "set xs \<subseteq> set (clean_hex env h)" for xs
    using that by (induction xs) auto
  then show ?thesis unfolding clean_hex_def [of env "clean_hex env h"] by blast
qed

lemma normalized_again [simp]: "lower_case env \<Longrightarrow> normalized env (normalized env r) = normalized env r"
  by (simp add: normalized_def Let_def clean_hex_again)

section \<open>The store\<close>

definition store_ok :: "cred_env \<Rightarrow> str option \<Rightarrow> credential_record list \<Rightarrow> bool" where
  "store_ok env file rs = (case file of
     None \<Rightarrow> rs = []
   | Some s \<Rightarrow> whole_lines s \<and> read_credentials env (Some s) = Inr rs)"

lemma read_lines_valid: "read_lines env i ls = Inr rs \<Longrightarrow> r \<in> set rs \<Longrightarrow> validate r = None"
  by (induction ls arbitrary: i rs) (auto simp: Let_def split: if_splits option.splits sum.splits)

lemma append_store:
  assumes "json_lines env" "lower_case env" "store_ok env file rs" "append_credential env r file = (Inr (), file')"
  shows "store_ok env file' (rs @ [normalized env r])"
proof -
  let ?r = "normalized env r" and ?old = "case file of Some s \<Rightarrow> s | None \<Rightarrow> []"
  obtain line where w: "validate ?r = None" "ce_write_record env ?r = Some line" "file' = Some (?old @ line @ [10])"
    using assms(4) by (auto simp: append_credential_def Let_def split: option.splits)
  have l: "10 \<notin> set line" "line \<noteq> []" "\<not> is_whitespace (hd line)" "\<not> is_whitespace (last line)"
    "ce_read_record env line = Some ?r"
    using assms(1) w(2) unfolding json_lines_def by blast+
  have old: "whole_lines ?old" "read_lines env 0 (text_lines ?old) = Inr rs"
    using assms(3) by (auto simp: store_ok_def whole_lines_def read_credentials_def split: option.splits)
  have "text_lines (?old @ line @ [10]) = text_lines ?old @ [line]"
    using text_lines_append [OF old(1)] by (simp add: split_on_no [OF l(1)] strip_cr_bounded [OF l(4)])
  moreover have "read_lines env i [line] = Inr [?r]" for i
    using l(2,5) trim_bounded [OF l(2-4)] normalized_again [OF assms(2)] w(1) by (simp add: Let_def)
  ultimately show ?thesis
    using w(3) old(2) by (simp add: store_ok_def whole_lines_def read_credentials_def read_lines_append)
qed

section \<open>The import\<close>

definition line_credential :: "cred_env \<Rightarrow> (str \<Rightarrow> json option) \<Rightarrow> str \<Rightarrow> str \<Rightarrow> credential_record option" where
  "line_credential env from_str account line =
     (if trim line = [] then None
      else Option.bind (parse_event_line from_str (trim line)) (\<lambda>event.
        map_option (normalized env) (event_to_credential account event)))"

definition import_inv :: "cred_env \<Rightarrow> import_state \<Rightarrow> credential_record list \<Rightarrow> bool" where
  "import_inv env st rs = (store_ok env (is_file st) rs \<and> set (is_known st) = credential_identity ` set rs
     \<and> ns_events (is_summary st) = ns_imported (is_summary st) + ns_ignored (is_summary st))"

text \<open>A line whose credential is known changes the counters only.\<close>

lemma import_line_known:
  assumes "\<And>r. line_credential env from_str account line = Some r \<Longrightarrow> credential_identity r \<in> set (is_known st)"
  shows "\<exists>k. import_line env from_str account line st =
    (None, st\<lparr>is_summary := \<lparr>ns_events = ns_events (is_summary st) + k, ns_imported = ns_imported (is_summary st),
       ns_ignored = ns_ignored (is_summary st) + k\<rparr>\<rparr>)"
proof (cases "trim line = []")
  case True
  then show ?thesis by (intro exI [of _ 0]) (simp add: import_line_def)
next
  case False
  then show ?thesis using assms
    by (intro exI [of _ 1]) (auto simp: import_line_def line_credential_def Let_def ignored_def split: option.splits)
qed

lemma import_line_new:
  assumes "line_credential env from_str account line = Some r" "credential_identity r \<notin> set (is_known st)"
    "import_line env from_str account line st = (None, st')"
  shows "append_credential env r (is_file st) = (Inr (), is_file st') \<and> is_known st' = credential_identity r # is_known st
    \<and> is_summary st' = \<lparr>ns_events = ns_events (is_summary st) + 1, ns_imported = ns_imported (is_summary st) + 1,
         ns_ignored = ns_ignored (is_summary st)\<rparr>"
  using assms
  by (auto simp: import_line_def line_credential_def Let_def bind_eq_Some_conv split: if_splits option.splits prod.splits sum.splits)

lemma import_line_step:
  assumes "json_lines env" "lower_case env" "import_inv env st rs" "import_line env from_str account line st = (None, st')"
  shows "\<exists>rs'. import_inv env st' (rs @ rs') \<and> distinct (map credential_identity rs')
     \<and> credential_identity ` set rs' \<inter> credential_identity ` set rs = {}
     \<and> length rs' + ns_imported (is_summary st) = ns_imported (is_summary st')
     \<and> (\<forall>r. line_credential env from_str account line = Some r \<longrightarrow> credential_identity r \<in> set (is_known st'))"
proof (cases "\<exists>r. line_credential env from_str account line = Some r \<and> credential_identity r \<notin> set (is_known st)")
  case False
  then obtain k where "st' = st\<lparr>is_summary := \<lparr>ns_events = ns_events (is_summary st) + k, ns_imported = ns_imported (is_summary st),
       ns_ignored = ns_ignored (is_summary st) + k\<rparr>\<rparr>"
    using import_line_known [of env from_str account line st] assms(4) by auto
  then show ?thesis using assms(3) False by (intro exI [of _ "[]"]) (auto simp: import_inv_def)
next
  case True
  then obtain r where r: "line_credential env from_str account line = Some r" "credential_identity r \<notin> set (is_known st)" by blast
  note new = import_line_new [OF r assms(4)]
  have store: "store_ok env (is_file st') (rs @ [normalized env r])"
    using append_store [OF assms(1,2)] assms(3) new unfolding import_inv_def by blast
  obtain raw where "r = normalized env raw"
    using r(1) by (auto simp: line_credential_def bind_eq_Some_conv split: if_splits)
  then have n: "normalized env r = r" using assms(2) by simp
  then have "import_inv env st' (rs @ [r])"
    using store new assms(3) by (auto simp: import_inv_def)
  then show ?thesis using r new assms(3) by (intro exI [of _ "[r]"]) (auto simp: import_inv_def)
qed

lemma import_lines_run:
  assumes "json_lines env" "lower_case env"
  shows "import_inv env st rs \<Longrightarrow> import_lines env from_str account ls st = (None, st') \<Longrightarrow>
   \<exists>rs'. import_inv env st' (rs @ rs') \<and> distinct (map credential_identity rs')
     \<and> credential_identity ` set rs' \<inter> credential_identity ` set rs = {}
     \<and> length rs' + ns_imported (is_summary st) = ns_imported (is_summary st')
     \<and> (\<forall>line \<in> set ls. \<forall>r. line_credential env from_str account line = Some r \<longrightarrow> credential_identity r \<in> set (is_known st'))"
proof (induction ls arbitrary: st rs)
  case Nil
  then show ?case by (intro exI [of _ "[]"]) auto
next
  case (Cons line ls)
  obtain st1 where st1: "import_line env from_str account line st = (None, st1)"
    "import_lines env from_str account ls st1 = (None, st')"
    using Cons.prems(2) by (auto split: prod.splits option.splits)
  from import_line_step [OF assms Cons.prems(1) st1(1)] obtain rs1 where rs1: "import_inv env st1 (rs @ rs1)"
    "distinct (map credential_identity rs1)" "credential_identity ` set rs1 \<inter> credential_identity ` set rs = {}"
    "length rs1 + ns_imported (is_summary st) = ns_imported (is_summary st1)"
    "\<forall>r. line_credential env from_str account line = Some r \<longrightarrow> credential_identity r \<in> set (is_known st1)" by blast
  from Cons.IH [OF rs1(1) st1(2)] obtain rs2 where rs2: "import_inv env st' ((rs @ rs1) @ rs2)"
    "distinct (map credential_identity rs2)" "credential_identity ` set rs2 \<inter> credential_identity ` set (rs @ rs1) = {}"
    "length rs2 + ns_imported (is_summary st1) = ns_imported (is_summary st')"
    "\<forall>line \<in> set ls. \<forall>r. line_credential env from_str account line = Some r \<longrightarrow> credential_identity r \<in> set (is_known st')"
    by blast
  have "set (is_known st1) \<subseteq> set (is_known st')" using rs1(1) rs2(1) by (auto simp: import_inv_def)
  moreover have "distinct (map credential_identity (rs1 @ rs2))" using rs1(2) rs2(2,3) by auto
  ultimately show ?case using rs1 rs2 by (intro exI [of _ "rs1 @ rs2"]) (auto simp: image_Un)
qed

lemma import_lines_known:
  "\<forall>line \<in> set ls. \<forall>r. line_credential env from_str account line = Some r \<longrightarrow> credential_identity r \<in> set (is_known st) \<Longrightarrow>
   \<exists>sm. import_lines env from_str account ls st = (None, st\<lparr>is_summary := sm\<rparr>) \<and> ns_imported sm = ns_imported (is_summary st)"
proof (induction ls arbitrary: st)
  case Nil
  then show ?case by (intro exI [of _ "is_summary st"]) simp
next
  case (Cons line ls)
  then obtain k where "import_line env from_str account line st =
    (None, st\<lparr>is_summary := \<lparr>ns_events = ns_events (is_summary st) + k, ns_imported = ns_imported (is_summary st),
       ns_ignored = ns_ignored (is_summary st) + k\<rparr>\<rparr>)" (is "_ = (None, ?st)")
    using import_line_known [of env from_str account line st] by auto
  moreover obtain sm where "import_lines env from_str account ls ?st = (None, ?st\<lparr>is_summary := sm\<rparr>)"
    "ns_imported sm = ns_imported (is_summary ?st)"
    using Cons.IH [of ?st] Cons.prems by auto
  ultimately show ?case by (intro exI [of _ sm]) simp
qed

section \<open>Lookup\<close>

lemma unambiguous_Some:
  "unambiguous_key rs = Some r \<Longrightarrow> r \<in> set rs \<and> 0 < cr_key_len r
     \<and> (\<forall>r' \<in> set rs. 0 < cr_key_len r' \<longrightarrow> same_ignoring_case (cr_key_hex r') (cr_key_hex r))"
proof -
  assume u: "unambiguous_key rs = Some r"
  obtain c rest where f: "filter (\<lambda>r. 0 < cr_key_len r) rs = c # rest"
    using u by (auto simp: unambiguous_key_def split: list.splits)
  then have "c = r" "list_all (\<lambda>r. same_ignoring_case (cr_key_hex r) (cr_key_hex c)) rest"
    using u by (auto simp: unambiguous_key_def split: if_splits)
  moreover have "set (filter (\<lambda>r. 0 < cr_key_len r) rs) = set (c # rest)" using f by simp
  ultimately show ?thesis by (auto simp: list_all_iff same_ignoring_case_def)
qed

lemma unambiguous_iff:
  "(\<exists>r. unambiguous_key rs = Some r) \<longleftrightarrow> (\<exists>r \<in> set rs. 0 < cr_key_len r)
     \<and> (\<forall>r \<in> set rs. \<forall>r' \<in> set rs. 0 < cr_key_len r \<longrightarrow> 0 < cr_key_len r' \<longrightarrow> same_ignoring_case (cr_key_hex r) (cr_key_hex r'))"
proof (cases "filter (\<lambda>r. 0 < cr_key_len r) rs")
  case Nil
  then show ?thesis by (auto simp: unambiguous_key_def filter_empty_conv)
next
  case (Cons c rest)
  have "set (filter (\<lambda>r. 0 < cr_key_len r) rs) = set (c # rest)" using Cons by simp
  then have s: "{r \<in> set rs. 0 < cr_key_len r} = insert c (set rest)" by auto
  have "(\<exists>r. unambiguous_key rs = Some r) \<longleftrightarrow> (\<forall>r \<in> set rest. same_ignoring_case (cr_key_hex r) (cr_key_hex c))"
    using Cons by (simp add: unambiguous_key_def list_all_iff)
  also have "\<dots> \<longleftrightarrow> (\<forall>r \<in> insert c (set rest). \<forall>r' \<in> insert c (set rest). same_ignoring_case (cr_key_hex r) (cr_key_hex r'))"
    by (auto simp: same_ignoring_case_def)
  finally show ?thesis unfolding s [symmetric] using s by blast
qed

text \<open>The records that decide about a path.\<close>

definition deciding :: "credential_record list \<Rightarrow> path_text \<Rightarrow> credential_kind \<Rightarrow> credential_record list" where
  "deciding records path kind =
     (if \<exists>r \<in> set records. path_matches kind path r then filter (path_matches kind path) records
      else if \<exists>r \<in> set records. basename_matches kind path r then filter (basename_matches kind path) records
      else filter (\<lambda>r. cr_kind r = kind) records)"

lemma key_for_path_deciding: "key_for_path records path kind = unambiguous_key (deciding records path kind)"
  by (auto simp: key_for_path_def deciding_def Let_def filter_empty_conv)

lemma deciding_kind: "r \<in> set (deciding records path kind) \<Longrightarrow> r \<in> set records \<and> cr_kind r = kind"
  by (auto simp: deciding_def path_matches_def basename_matches_def split: if_splits)

section \<open>Host paths\<close>

lemma dropWhile_sep: "d \<notin> set xs \<Longrightarrow> dropWhile (\<lambda>c. c \<noteq> d) (xs @ d # ys) = d # ys"
  by (induction xs) auto

lemma concat_parts: "\<forall>p \<in> set (split_on d s). p \<noteq> [] \<Longrightarrow> concat (map (\<lambda>p. d # p) (split_on d s)) = d # s"
proof -
  have "concat (map (\<lambda>p. d # p) ps) = d # join [d] ps" if "ps \<noteq> []" for ps :: "'a list list"
    using that by (induction ps rule: induct_list012) auto
  then show ?thesis using join_split_on [of d s] by simp
qed

lemma split_on_parts_map:
  "0x5C \<notin> set s \<Longrightarrow> split_on 0x5C (map (\<lambda>c. if c = 0x2F then 0x5C else c) s) = split_on 0x2F s"
  by (induction s) (auto split: list.splits)

lemma path_parts_windows:
  "0x5C \<notin> set s \<Longrightarrow> path_parts (map (\<lambda>c. if c = 0x2F then 0x5C else c) s) = split_on 0x2F s"
proof -
  assume s: "0x5C \<notin> set s"
  have "map (\<lambda>c. if c = 0x2F then 0x5C else c) (map (\<lambda>c. if c = 0x2F then 0x5C else c) s)
      = map (\<lambda>c. if c = 0x2F then 0x5C else (c :: nat)) s" by (induction s) auto
  then show ?thesis unfolding path_parts_def by (simp only: split_on_parts_map [OF s])
qed

section \<open>Properties\<close>

text \<open>An environment that knows one record.\<close>

definition sample_record :: credential_record where
  "sample_record = \<lparr>cr_kind = PcqqSqliteKey, cr_account = ascii ''1'',
     cr_source = ascii ''frida_kernelutil_multisqlite_memory'', cr_db_path = ascii ''C:/msg.db'',
     cr_key_hex = ascii ''00ff'', cr_key_len = 2, cr_captured_at = ascii ''now'', cr_metadata = []\<rparr>"

definition sample_cred_env :: cred_env where
  "sample_cred_env = \<lparr>ce_now = ascii ''now'', ce_lowercase = (\<lambda>c. to_ascii_lowercase [c]),
     ce_read_record = (\<lambda>s. if s = ascii ''{}'' then Some sample_record else None),
     ce_write_record = (\<lambda>r. if r = sample_record then Some (ascii ''{}'') else None)\<rparr>"

definition sample_event :: json where
  "sample_event = JObject [(ascii ''key_hex'', JString (ascii ''00ff'')), (ascii ''path'', JString (ascii ''C:/msg.db'')),
     (ascii ''type'', JString (ascii ''pcqq_sqlite_memory_key''))]"

definition sample_events :: "str \<Rightarrow> json option" where
  "sample_events s = Some sample_event"

lemma sample_laws: "json_lines sample_cred_env" "lower_case sample_cred_env"
  by (auto simp: json_lines_def lower_case_def sample_cred_env_def is_whitespace_def to_ascii_lowercase_def
      is_ascii_uppercase_def split: if_splits)

lemma sample_normalized: "normalized sample_cred_env sample_record = sample_record"
  by (simp add: normalized_def sample_record_def sample_cred_env_def clean_hex_def Let_def to_ascii_lowercase_def
      is_ascii_uppercase_def)

lemma sample_append: "append_credential sample_cred_env sample_record None = (Inr (), Some (ascii ''{}'' @ [10]))"
  unfolding append_credential_def sample_normalized Let_def
  by (simp add: validate_def sample_record_def sample_cred_env_def trim_def trim_matches_def trim_end_matches_def
      is_whitespace_def str_len_def char_len_def is_ascii_hexdigit_def is_ascii_digit_def)

text \<open>C38. A stored credential is read back: after a successful append to a missing file or to a file of whole lines that
  reads as some records, the file reads as these records and the normalized new one, every one of which is
  valid, and it is again a file of whole lines.\<close>

theorem append_credential_read_back:
  assumes "json_lines env" "lower_case env" "store_ok env file rs" "append_credential env r file = (Inr (), file')"
  shows "store_ok env file' (rs @ [normalized env r]) \<and> read_credentials env file' = Inr (rs @ [normalized env r])
     \<and> (\<forall>r' \<in> set (rs @ [normalized env r]). validate r' = None)"
proof -
  have s: "store_ok env file' (rs @ [normalized env r])" by (rule append_store [OF assms])
  moreover obtain t where "file' = Some t"
    using assms(4) by (auto simp: append_credential_def Let_def split: option.splits)
  ultimately have "read_credentials env file' = Inr (rs @ [normalized env r])" by (simp add: store_ok_def)
  then show ?thesis using s read_lines_valid by (fastforce simp: read_credentials_def split: option.splits)
qed

theorem append_credential_read_back_witness:
  "read_credentials sample_cred_env (Some (ascii ''{}'' @ [10])) = Inr [sample_record]"
proof -
  have "store_ok sample_cred_env None []" by (simp add: store_ok_def)
  from append_credential_read_back [OF sample_laws this sample_append] show ?thesis by (simp add: sample_normalized)
qed



text \<open>C40. A key is handed out exactly when no other key competes with it: the records that decide about a path (those with
  the same path, else those with its base name, else all of the kind) must hold a usable key, and all their usable keys
  must be the same up to case. The order of the records does not matter.\<close>

theorem key_for_path_unambiguous:
  "((\<exists>r. key_for_path records path kind = Some r) \<longleftrightarrow>
      (\<exists>r \<in> set (deciding records path kind). 0 < cr_key_len r)
      \<and> (\<forall>r \<in> set (deciding records path kind). \<forall>r' \<in> set (deciding records path kind).
           0 < cr_key_len r \<longrightarrow> 0 < cr_key_len r' \<longrightarrow> same_ignoring_case (cr_key_hex r) (cr_key_hex r')))
   \<and> (key_for_path records path kind = Some r \<longrightarrow>
      r \<in> set records \<and> cr_kind r = kind \<and> 0 < cr_key_len r \<and> r \<in> set (deciding records path kind))"
  using unambiguous_iff [of "deciding records path kind"] unambiguous_Some [of "deciding records path kind" r]
    deciding_kind [of r records path kind]
  unfolding key_for_path_deciding by blast

theorem key_for_path_unambiguous_witness:
  "\<exists>r. key_for_path [sample_record] (ascii ''C:/msg.db'', None) PcqqSqliteKey = Some r \<and> cr_key_hex r = ascii ''00ff''"
proof -
  have "deciding [sample_record] (ascii ''C:/msg.db'', None) PcqqSqliteKey = [sample_record]"
    by (simp add: deciding_def path_matches_def sample_record_def)
  note key = key_for_path_unambiguous [of "[sample_record]" "(ascii ''C:/msg.db'', None)" PcqqSqliteKey, unfolded this]
  have "0 < cr_key_len sample_record" "cr_key_hex sample_record = ascii ''00ff''" by (simp_all add: sample_record_def)
  moreover from this(1) obtain r where "key_for_path [sample_record] (ascii ''C:/msg.db'', None) PcqqSqliteKey = Some r"
    using key by (auto simp: same_ignoring_case_def)
  ultimately show ?thesis using key [of r] by auto
qed

text \<open>A path below a mounted drive survives the way to Windows and back: the spelling that is passed to a Windows
  program is mapped to the same path again.\<close>

theorem wsl_path_roundtrip:
  assumes "is_ascii_lowercase d" "0x5C \<notin> set tail" "\<forall>part \<in> set (split_on 0x2F tail). part \<noteq> []"
  shows "wsl_mount_path_from_windows_path (wsl_path_to_windows (ascii ''/mnt/'' @ [d] @ [0x2F] @ tail))
     = Some (ascii ''/mnt/'' @ [d] @ [0x2F] @ tail)"
proof -
  let ?text = "ascii ''/mnt/'' @ [d] @ [0x2F] @ tail" and ?win = "map (\<lambda>c. if c = 0x2F then 0x5C else c) tail"
  have d: "d \<noteq> 0x2F" "d \<noteq> 0x5C" "d < 0x80" using assms(1) by (auto simp: is_ascii_lowercase_def)
  obtain part parts where p: "split_on 0x2F tail = part # parts" by (cases "split_on 0x2F tail") auto
  have "drop 5 ?text = d # 0x2F # tail" by simp
  then have w: "wsl_path_to_windows ?text = [to_ascii_uppercase d, 0x3A, 0x5C] @ ?win"
    using d p assms(1) by (simp add: wsl_path_to_windows_def starts_with_def str_len_def char_len_def)
  have u: "to_ascii_uppercase d \<noteq> 0x5C" "is_ascii_uppercase (to_ascii_uppercase d)" "to_ascii_lowercase [to_ascii_uppercase d] = [d]"
    using assms(1) by (auto simp: to_ascii_uppercase_def is_ascii_lowercase_def is_ascii_uppercase_def to_ascii_lowercase_def)
  have "filter (\<lambda>part. part \<noteq> []) (split_on 0x2F tail) = split_on 0x2F tail" using assms(3) by (simp add: filter_id_conv)
  then have "concat (map (\<lambda>part. 0x2F # part) (filter (\<lambda>part. part \<noteq> []) (path_parts ?win))) = 0x2F # tail"
    using concat_parts [OF assms(3)] path_parts_windows [OF assms(2)] by simp
  then show ?thesis unfolding w using u
    by (simp add: wsl_mount_path_from_windows_path_def starts_with_def Let_def)
qed

theorem wsl_path_roundtrip_witness:
  "wsl_mount_path_from_windows_path (wsl_path_to_windows (ascii ''/mnt/'' @ [100] @ [0x2F] @ ascii ''a/b.db''))
     = Some (ascii ''/mnt/d/a/b.db'')"
  using wsl_path_roundtrip [of 100 "ascii ''a/b.db''"] by (simp add: is_ascii_lowercase_def)

end
