(* ===== verification/Rust_Order.thy ===== *)
theory Rust_Order imports Rust_Float "HOL-Library.Multiset" "HOL-Library.List_Lexorder" begin

text \<open>
  Orders of the language: \<open>Ordering\<close>, the comparison of floating-point numbers and of paths, the stable sort
  of slices, and the single-precision arithmetic the vectors use. Texts compare by their code points, as their
  UTF-8 bytes do.
\<close>

section \<open>Comparisons\<close>

datatype ordering = Less | Equal | Greater

definition then_with :: "ordering \<Rightarrow> ordering \<Rightarrow> ordering" where
  "then_with a b = (if a = Equal then b else a)"

definition cmp :: "'a::linorder \<Rightarrow> 'a \<Rightarrow> ordering" where
  "cmp a b = (if a < b then Less else if a = b then Equal else Greater)"

lemma cmp_simps [simp]:
  "cmp a b = Less \<longleftrightarrow> a < b" "cmp a b = Equal \<longleftrightarrow> a = b" "cmp a b = Greater \<longleftrightarrow> b < a"
  by (auto simp: cmp_def)

lemma then_with_Less [simp]: "then_with a b = Less \<longleftrightarrow> a = Less \<or> a = Equal \<and> b = Less"
  by (cases a) (auto simp: then_with_def)

lemma then_with_Greater [simp]: "then_with a b = Greater \<longleftrightarrow> a = Greater \<or> a = Equal \<and> b = Greater"
  by (cases a) (auto simp: then_with_def)

lemma then_with_Equal [simp]: "then_with a b = Equal \<longleftrightarrow> a = Equal \<and> b = Equal"
  by (cases a) (auto simp: then_with_def)

text \<open>\<open>partial_cmp\<close> of two numbers; NaN compares with nothing.\<close>

fun f64_partial_cmp :: "f64 \<Rightarrow> f64 \<Rightarrow> ordering option" where
  "f64_partial_cmp Nan _ = None"
| "f64_partial_cmp _ Nan = None"
| "f64_partial_cmp (Finite a) (Finite b) = Some (cmp a b)"
| "f64_partial_cmp (Infinite s) (Infinite t) = Some (if s = t then Equal else if s then Less else Greater)"
| "f64_partial_cmp (Infinite s) (Finite _) = Some (if s then Less else Greater)"
| "f64_partial_cmp (Finite _) (Infinite t) = Some (if t then Greater else Less)"

definition cmp_or_equal :: "f64 \<Rightarrow> f64 \<Rightarrow> ordering" where
  "cmp_or_equal a b = (case f64_partial_cmp a b of Some c \<Rightarrow> c | None \<Rightarrow> Equal)"

definition f64_less :: "f64 \<Rightarrow> f64 \<Rightarrow> bool" where
  "f64_less a b = (f64_partial_cmp a b = Some Less)"

definition f64_at_least :: "f64 \<Rightarrow> f64 \<Rightarrow> bool" where
  "f64_at_least a b = (f64_partial_cmp a b = Some Greater \<or> f64_partial_cmp a b = Some Equal)"

text \<open>A number is a rank among the numbers: first the infinities, then the value.\<close>

definition f64_rank :: "f64 \<Rightarrow> int \<times> rat" where
  "f64_rank x = (case x of Infinite s \<Rightarrow> (if s then -1 else 1, 0) | Finite a \<Rightarrow> (0, a) | Nan \<Rightarrow> (0, 0))"

definition rank_less :: "int \<times> rat \<Rightarrow> int \<times> rat \<Rightarrow> bool" where
  "rank_less p q = (fst p < fst q \<or> fst p = fst q \<and> snd p < snd q)"

lemma f64_cmp_rank:
  assumes "a \<noteq> Nan" "b \<noteq> Nan"
  shows "cmp_or_equal a b = (if rank_less (f64_rank a) (f64_rank b) then Less
    else if f64_rank a = f64_rank b then Equal else Greater)"
  using assms by (cases a; cases b) (auto simp: cmp_or_equal_def f64_rank_def rank_less_def cmp_def)

lemma f64_cmp_swap: "cmp_or_equal a b = Less \<longleftrightarrow> cmp_or_equal b a = Greater"
  by (cases a; cases b) (auto simp: cmp_or_equal_def cmp_def)

lemma f64_cmp_refl [simp]: "cmp_or_equal a a = Equal"
  by (cases a) (auto simp: cmp_or_equal_def)

lemma f64_cmp_Equal: "a \<noteq> Nan \<Longrightarrow> b \<noteq> Nan \<Longrightarrow> cmp_or_equal a b = Equal \<longleftrightarrow> a = b"
  by (cases a; cases b) (auto simp: cmp_or_equal_def cmp_def)

lemma f64_less_iff: "a \<noteq> Nan \<Longrightarrow> b \<noteq> Nan \<Longrightarrow> cmp_or_equal a b = Less \<longleftrightarrow> rank_less (f64_rank a) (f64_rank b)"
  by (simp add: f64_cmp_rank)

lemma f64_less_cmp: "f64_less a b \<Longrightarrow> cmp_or_equal a b = Less"
  by (simp add: f64_less_def cmp_or_equal_def)

lemma f64_less_trans:
  assumes "a \<noteq> Nan" "b \<noteq> Nan" "c \<noteq> Nan" "cmp_or_equal a b = Less" "cmp_or_equal b c = Less"
  shows "cmp_or_equal a c = Less"
  using assms by (auto simp: f64_less_iff rank_less_def)

lemma f64_cmp_total:
  assumes "a \<noteq> Nan" "b \<noteq> Nan" "a \<noteq> b"
  shows "cmp_or_equal a b = Less \<or> cmp_or_equal b a = Less"
  using assms by (cases a; cases b) (auto simp: cmp_or_equal_def cmp_def)

section \<open>Arithmetic\<close>

definition float_nearest :: "int \<Rightarrow> int \<Rightarrow> int \<Rightarrow> rat \<Rightarrow> f64" where
  "float_nearest precision least most x =
     (if x = 0 then Finite 0
      else let q = max (binary_exponent \<bar>x\<bar> - precision) least;
               m = of_int (round_half_even (\<bar>x\<bar> / pow2 q)) * pow2 q
           in if m \<ge> pow2 most then Infinite (x < 0) else Finite (if x < 0 then - m else m))"

definition f32_nearest :: "rat \<Rightarrow> f64" where
  "f32_nearest = float_nearest 23 (- 149) 128"

lemma f64_nearest_float: "f64_nearest = float_nearest 52 (- 1074) 1024"
  by (simp add: fun_eq_iff f64_nearest_def float_nearest_def Let_def)

fun float_add :: "(rat \<Rightarrow> f64) \<Rightarrow> f64 \<Rightarrow> f64 \<Rightarrow> f64" where
  "float_add near (Finite a) (Finite b) = near (a + b)"
| "float_add near (Infinite s) (Infinite t) = (if s = t then Infinite s else Nan)"
| "float_add near (Infinite s) (Finite _) = Infinite s"
| "float_add near (Finite _) (Infinite t) = Infinite t"
| "float_add near _ _ = Nan"

fun f64_neg :: "f64 \<Rightarrow> f64" where
  "f64_neg (Finite a) = Finite (- a)"
| "f64_neg (Infinite s) = Infinite (\<not> s)"
| "f64_neg Nan = Nan"

definition f64_add :: "f64 \<Rightarrow> f64 \<Rightarrow> f64" where
  "f64_add = float_add f64_nearest"

definition f64_sub :: "f64 \<Rightarrow> f64 \<Rightarrow> f64" where
  "f64_sub a b = f64_add a (f64_neg b)"

definition f32_add :: "f64 \<Rightarrow> f64 \<Rightarrow> f64" where
  "f32_add = float_add f32_nearest"

fun f32_mul :: "f64 \<Rightarrow> f64 \<Rightarrow> f64" where
  "f32_mul (Finite a) (Finite b) = f32_nearest (a * b)"
| "f32_mul (Infinite s) (Infinite t) = Infinite (s \<noteq> t)"
| "f32_mul (Infinite s) (Finite b) = (if b = 0 then Nan else Infinite (s \<noteq> (b < 0)))"
| "f32_mul (Finite a) (Infinite t) = (if a = 0 then Nan else Infinite (t \<noteq> (a < 0)))"
| "f32_mul _ _ = Nan"

section \<open>Sorting\<close>

text \<open>A stable sort by a comparison; for a total order every sort gives the same list.\<close>

fun sort_insert :: "('a \<Rightarrow> 'a \<Rightarrow> ordering) \<Rightarrow> 'a \<Rightarrow> 'a list \<Rightarrow> 'a list" where
  "sort_insert c x [] = [x]"
| "sort_insert c x (y # ys) = (if c x y = Greater then y # sort_insert c x ys else x # y # ys)"

definition sort_by :: "('a \<Rightarrow> 'a \<Rightarrow> ordering) \<Rightarrow> 'a list \<Rightarrow> 'a list" where
  "sort_by c xs = foldr (sort_insert c) xs []"

lemma sort_by_simps [simp]: "sort_by c [] = []" "sort_by c (x # xs) = sort_insert c x (sort_by c xs)"
  by (simp_all add: sort_by_def)

lemma mset_sort_insert [simp]: "mset (sort_insert c x ys) = add_mset x (mset ys)"
  by (induction ys) auto

lemma mset_sort_by [simp]: "mset (sort_by c xs) = mset xs"
  by (induction xs) auto

lemma set_sort_by [simp]: "set (sort_by c xs) = set xs"
  by (metis mset_sort_by set_mset_mset)

lemma length_sort_by [simp]: "length (sort_by c xs) = length xs"
  by (metis mset_sort_by size_mset)

lemma sort_by_sorted: "sorted_wrt (\<lambda>a b. c a b \<noteq> Greater) xs \<Longrightarrow> sort_by c xs = xs"
proof (induction xs)
  case (Cons x xs)
  then show ?case by (cases xs) auto
qed simp

section \<open>Paths\<close>

text \<open>The components of a path, in the order of \<open>std::path::Component\<close>. How a text is divided into
  components depends on the platform; \<open>unix_components\<close> is the division of Unix.\<close>

datatype path_component = Prefix_Of str | Root_Dir | Cur_Dir | Parent_Dir | Normal str

fun component_key :: "path_component \<Rightarrow> nat list" where
  "component_key (Prefix_Of s) = 0 # s"
| "component_key Root_Dir = [1]"
| "component_key Cur_Dir = [2]"
| "component_key Parent_Dir = [3]"
| "component_key (Normal s) = 4 # s"

lemma component_key_inject [simp]: "component_key a = component_key b \<longleftrightarrow> a = b"
  by (cases a; cases b) auto

instantiation path_component :: linorder
begin

definition less_eq_path_component :: "path_component \<Rightarrow> path_component \<Rightarrow> bool" where
  "a \<le> b \<longleftrightarrow> component_key a \<le> component_key b"

definition less_path_component :: "path_component \<Rightarrow> path_component \<Rightarrow> bool" where
  "a < b \<longleftrightarrow> component_key a < component_key b"

instance
  by standard (auto simp: less_eq_path_component_def less_path_component_def order.strict_iff_order)

end

definition unix_component :: "str \<Rightarrow> path_component list" where
  "unix_component s = (if s = [] \<or> s = [0x2E] then [] else if s = [0x2E, 0x2E] then [Parent_Dir] else [Normal s])"

definition unix_components :: "str \<Rightarrow> path_component list" where
  "unix_components s =
     (let parts = split_on 0x2F s in
      (if starts_with s [0x2F] then [Root_Dir] else if hd parts = [0x2E] then [Cur_Dir] else [])
      @ concat (map unix_component parts))"

end
