(* ===== verification/Image_Vectors.thy ===== *)
theory Image_Vectors imports Msg_Text Outcome Rust_Order begin

text \<open>
  The vectors of the image index (\<open>image_index.rs\<close>): their storage, their scalar product, and the sketch of 64 signs whose
  first twelve are the bucket a fast search looks into. A single-precision number is its 32 bits.
\<close>

type_synonym vector = "u32 list"

definition f32_value :: "u32 \<Rightarrow> f64" where
  "f32_value w = f64_from_f32_bits (unat w)"

definition encode_f32_vec :: "vector \<Rightarrow> bytes" where
  "encode_f32_vec vector = concat (map (\<lambda>v. nat_le 4 (unat v)) vector)"

text \<open>\<open>chunks_exact(4).map(f32::from_le_bytes)\<close>.\<close>

definition decode_f32_vec :: "bytes \<Rightarrow> vector" where
  "decode_f32_vec bs = map u32_from_le (chunks_exact 4 bs)"

definition dot_f32_blob :: "vector \<Rightarrow> bytes \<Rightarrow> f64 option" where
  "dot_f32_blob query bs =
     (if length bs \<noteq> length query * 4 then None
      else Some (foldl (\<lambda>score (v, other). f32_add score (f32_mul (f32_value v) (f32_value other)))
             (Finite 0) (zip query (decode_f32_vec bs))))"

definition splitmix64 :: "u64 \<Rightarrow> u64" where
  "splitmix64 v =
     (let v = v + 0x9e3779b97f4a7c15;
          v = xor v (drop_bit 30 v) * 0xbf58476d1ce4e5b9;
          v = xor v (drop_bit 27 v) * 0x94d049bb133111eb
      in xor v (drop_bit 31 v))"

definition sketch_projection_positive :: "nat \<Rightarrow> nat \<Rightarrow> bool" where
  "sketch_projection_positive n_dim bit_index =
     bit (splitmix64 (xor (xor (push_bit 32 (word_of_nat n_dim)) (word_of_nat bit_index)) 0x9e3779b97f4a7c15)) 0"

definition build_sketch_projection_signs :: "nat \<Rightarrow> f64 list list" where
  "build_sketch_projection_signs n_dim =
     map (\<lambda>i. map (\<lambda>b. Finite (if sketch_projection_positive i b then 1 else -1)) [0..<64]) [0..<n_dim]"

text \<open>One accumulator per bit, the values in order; the bit is set where it ends at least zero.\<close>

definition sketch_accumulators :: "nat \<Rightarrow> f64 list \<Rightarrow> f64 list" where
  "sketch_accumulators n_dim values =
     foldl (\<lambda>acc (v, row). map (\<lambda>(a, sign). f32_add a (f32_mul v sign)) (zip acc row))
       (replicate 64 (Finite 0)) (zip values (build_sketch_projection_signs n_dim))"

definition vector_sketch64_values :: "nat \<Rightarrow> f64 list \<Rightarrow> u64" where
  "vector_sketch64_values n_dim values =
     foldl (\<lambda>sketch (b, v). if f64_at_least v (Finite 0) then or sketch (push_bit b 1) else sketch) 0
       (zip [0..<64] (sketch_accumulators n_dim values))"

definition vector_sketch64 :: "vector \<Rightarrow> u64" where
  "vector_sketch64 vector = vector_sketch64_values (length vector) (map f32_value vector)"

definition vector_sketch64_blob :: "bytes \<Rightarrow> u64 option" where
  "vector_sketch64_blob bs =
     (if bs = [] \<or> length bs mod 4 \<noteq> 0 then None
      else Some (vector_sketch64_values (length bs div 4) (map f32_value (decode_f32_vec bs))))"

definition vector_bucket12 :: "u64 \<Rightarrow> u16" where
  "vector_bucket12 sketch = ucast (drop_bit 52 sketch)"

text \<open>\<open>{:016x}\<close>.\<close>

definition hex16 :: "u64 \<Rightarrow> str" where
  "hex16 w = map (\<lambda>i. hex_char (unat w div 16 ^ (15 - i) mod 16)) [0..<16]"

record prepared_embedding =
  pe_dim :: int
  pe_blob :: bytes
  pe_sketch_hex :: str
  pe_bucket :: int

definition prepare_embedding_value :: "vector \<Rightarrow> prepared_embedding" where
  "prepare_embedding_value vector =
     (let sketch = vector_sketch64 vector in
      \<lparr>pe_dim = int (length vector), pe_blob = encode_f32_vec vector, pe_sketch_hex = hex16 sketch,
       pe_bucket = int (unat (vector_bucket12 sketch))\<rparr>)"

section \<open>Facts\<close>

lemma decode_encode_f32_vec [simp]: "decode_f32_vec (encode_f32_vec vector) = vector"
proof (induction vector)
  case (Cons v vector)
  have n: "length (nat_le 4 (unat v)) = 4" by simp
  have "chunks_exact 4 (nat_le 4 (unat v) @ bs) = nat_le 4 (unat v) # chunks_exact 4 bs" for bs
    by (subst chunks_exact.simps) (simp add: n)
  moreover have "unat v < 2 ^ LENGTH(32)" by (rule unsigned_less)
  then have "u32_from_le (nat_le 4 (unat v)) = v"
    by (simp add: u32_from_le_def le_nat_nat_le)
  ultimately show ?case using Cons by (simp add: decode_f32_vec_def encode_f32_vec_def)
qed (simp add: decode_f32_vec_def encode_f32_vec_def chunks_exact.simps)

lemma length_encode_f32_vec [simp]: "length (encode_f32_vec vector) = 4 * length vector"
  by (induction vector) (auto simp: encode_f32_vec_def)

lemma length_decode_f32_vec [simp]: "length (decode_f32_vec bs) = length bs div 4"
  by (simp add: decode_f32_vec_def chunks_exact_length)

lemma vector_sketch64_blob_encode: "vector \<noteq> [] \<Longrightarrow> vector_sketch64_blob (encode_f32_vec vector) = Some (vector_sketch64 vector)"
  using length_encode_f32_vec [of vector] by (auto simp: vector_sketch64_blob_def vector_sketch64_def simp del: length_encode_f32_vec)

lemma length_hex16 [simp]: "length (hex16 w) = 16"
  by (simp add: hex16_def)

end
