(* ===== verification/Image_Manifest.thy ===== *)
theory Image_Manifest imports Image_Vectors begin

text \<open>
  The manifest of the image index (\<open>image_index.rs\<close>): the tables the index writes and the statements that write them.
  A table is the list of its rows; an upsert keeps the row it finds. The identifiers SQLite allots to new rows are the
  arguments \<open>alloc\<close>, the time of a write is an argument, and a violated primary key is the error of the statement.
  The writer of a batch works inside one transaction, so an error leaves the old manifest; the maintenance loops commit each
  round, and their result on an error says nothing of the rounds before it.
\<close>

definition phash_algo_v2 :: str where
  "phash_algo_v2 = ascii ''phash_v2_fullframe_triangle32_whitealpha_oriented''"

definition blur_algo_v2 :: str where
  "blur_algo_v2 = ascii ''blur_v2_luma256_gradient''"

definition tile_algo_v1 :: str where
  "tile_algo_v1 = ascii ''tile_hash_v1_triangle32''"

text \<open>The number of \<open>tile_regions()\<close>.\<close>

definition tile_region_count :: nat where
  "tile_region_count = 1 + 2 * 2 + 3 * 3 + 1 + 6"

section \<open>Rows\<close>

record tile_hash =
  th_algo :: str
  th_set :: str
  th_index :: int
  th_x0 :: f64
  th_y0 :: f64
  th_x1 :: f64
  th_y1 :: f64
  th_hash :: str

record image_fingerprint =
  fp_sha256 :: str
  fp_phash :: str
  fp_phash_algo :: str
  fp_width :: u32
  fp_height :: u32
  fp_blur_score :: f64
  fp_blur_algo :: str
  fp_quality_flags :: str
  fp_source_class :: str
  fp_detected_format :: str
  fp_has_alpha :: bool
  fp_orientation_applied :: bool
  fp_version :: str
  fp_tile_hashes :: "tile_hash list"

record pending_image =
  pi_source_root :: str
  pi_path :: str
  pi_file_size :: int
  pi_mtime :: int
  pi_fingerprint :: image_fingerprint
  pi_reuse_existing :: bool

record asset_row =
  as_id :: int
  as_path :: str
  as_source_root :: str
  as_file_size :: int
  as_mtime :: int
  as_sha256 :: str
  as_phash :: "str option"
  as_phash_algo :: str
  as_width :: "int option"
  as_height :: "int option"
  as_blur_score :: "f64 option"
  as_blur_algo :: str
  as_quality_flags :: str
  as_source_class :: str
  as_detected_format :: str
  as_has_alpha :: int
  as_orientation_applied :: int
  as_version :: str
  as_indexed_at :: str
  as_stale :: int
  as_error :: "str option"

text \<open>A column declared as a blob can hold another value in a damaged store.\<close>

datatype sql_blob = Blob bytes | Not_Blob

record embedding_row =
  em_rowid :: int
  em_path :: str
  em_kind :: str
  em_model :: str
  em_dim :: int
  em_vec :: sql_blob
  em_sketch :: str
  em_bucket :: "int option"
  em_updated_at :: str

record manifest =
  mf_assets :: "asset_row list"
  mf_tiles :: "(int \<times> tile_hash) list"
  mf_local_features :: "(int \<times> str) list"
  mf_embeddings :: "embedding_row list"
  mf_seen :: "str list"

record row_ids =
  ri_asset :: "manifest \<Rightarrow> int"
  ri_embedding :: "manifest \<Rightarrow> int"

datatype manifest_error = Constraint_Failed | Column_Type | Missing_Asset

section \<open>Assets\<close>

text \<open>\<open>insert into image_assets .. on conflict(path) do update\<close>: \<open>kept\<close> takes the old row and the new one.\<close>

definition upsert_asset :: "(asset_row \<Rightarrow> asset_row \<Rightarrow> asset_row) \<Rightarrow> int \<Rightarrow> asset_row \<Rightarrow> asset_row list \<Rightarrow> asset_row list" where
  "upsert_asset updated new_id row rows =
     (if as_path row \<in> as_path ` set rows
      then map (\<lambda>a. if as_path a = as_path row then updated a row else a) rows
      else rows @ [row\<lparr>as_id := new_id\<rparr>])"

text \<open>SQLite stores NaN as null.\<close>

definition sql_real :: "f64 \<Rightarrow> f64 option" where
  "sql_real x = (if x = Nan then None else Some x)"

definition item_row :: "pending_image \<Rightarrow> str \<Rightarrow> str option \<Rightarrow> asset_row" where
  "item_row item indexed_at err =
     (let fp = pi_fingerprint item in
      \<lparr>as_id = 0, as_path = pi_path item, as_source_root = pi_source_root item, as_file_size = pi_file_size item,
       as_mtime = pi_mtime item, as_sha256 = fp_sha256 fp, as_phash = Some (fp_phash fp), as_phash_algo = fp_phash_algo fp,
       as_width = Some (uint (fp_width fp)), as_height = Some (uint (fp_height fp)), as_blur_score = sql_real (fp_blur_score fp),
       as_blur_algo = fp_blur_algo fp, as_quality_flags = fp_quality_flags fp, as_source_class = fp_source_class fp,
       as_detected_format = fp_detected_format fp, as_has_alpha = of_bool (fp_has_alpha fp),
       as_orientation_applied = of_bool (fp_orientation_applied fp), as_version = fp_version fp,
       as_indexed_at = indexed_at, as_stale = 0, as_error = err\<rparr>)"

definition write_item_row :: "row_ids \<Rightarrow> pending_image \<Rightarrow> str \<Rightarrow> str option \<Rightarrow> manifest \<Rightarrow> manifest" where
  "write_item_row ids item indexed_at err m =
     m\<lparr>mf_assets := upsert_asset (\<lambda>old new. new\<lparr>as_id := as_id old\<rparr>) (ri_asset ids m) (item_row item indexed_at err) (mf_assets m)\<rparr>"

definition write_asset_row :: "row_ids \<Rightarrow> pending_image \<Rightarrow> str \<Rightarrow> manifest \<Rightarrow> (manifest_error, manifest \<times> int) outcome" where
  "write_asset_row ids item indexed_at m =
     (let m = write_item_row ids item indexed_at None m in
      case find (\<lambda>a. as_path a = pi_path item) (mf_assets m) of
        Some a \<Rightarrow> Ok (m, as_id a)
      | None \<Rightarrow> Err Missing_Asset)"

definition tile_key :: "int \<times> tile_hash \<Rightarrow> int \<times> str \<times> str \<times> int" where
  "tile_key t = (fst t, th_algo (snd t), th_set (snd t), th_index (snd t))"

definition replace_tile_hashes :: "int \<Rightarrow> tile_hash list \<Rightarrow> manifest \<Rightarrow> (manifest_error, manifest) outcome" where
  "replace_tile_hashes asset_id tiles m =
     map_ok (\<lambda>rows. m\<lparr>mf_tiles := rows\<rparr>)
       (ok_fold (\<lambda>tile rows. if tile_key (asset_id, tile) \<in> tile_key ` set rows then Err Constraint_Failed
                   else Ok (rows @ [(asset_id, tile)]))
          tiles (filter (\<lambda>t. fst t \<noteq> asset_id) (mf_tiles m)))"

definition delete_derived_features_for_path :: "str \<Rightarrow> manifest \<Rightarrow> manifest" where
  "delete_derived_features_for_path path m =
     (let ids = as_id ` {a \<in> set (mf_assets m). as_path a = path} in
      m\<lparr>mf_tiles := filter (\<lambda>t. fst t \<notin> ids) (mf_tiles m),
        mf_local_features := filter (\<lambda>t. fst t \<notin> ids) (mf_local_features m)\<rparr>)"

definition delete_embeddings :: "str \<Rightarrow> manifest \<Rightarrow> manifest" where
  "delete_embeddings path m = m\<lparr>mf_embeddings := filter (\<lambda>e. em_path e \<noteq> path) (mf_embeddings m)\<rparr>"

definition error_row :: "str \<Rightarrow> str \<Rightarrow> str \<Rightarrow> asset_row" where
  "error_row path err indexed_at =
     \<lparr>as_id = 0, as_path = path, as_source_root = [], as_file_size = 0, as_mtime = 0, as_sha256 = [], as_phash = None,
      as_phash_algo = [], as_width = None, as_height = None, as_blur_score = None, as_blur_algo = [], as_quality_flags = [],
      as_source_class = [], as_detected_format = [], as_has_alpha = 0, as_orientation_applied = 0, as_version = [],
      as_indexed_at = indexed_at, as_stale = 0, as_error = Some err\<rparr>"

definition record_path_error :: "row_ids \<Rightarrow> str \<Rightarrow> str \<Rightarrow> str \<Rightarrow> manifest \<Rightarrow> manifest" where
  "record_path_error ids path err indexed_at m =
     (let kept = (\<lambda>old new. new\<lparr>as_id := as_id old, as_source_root := as_source_root old,
            as_file_size := as_file_size old, as_mtime := as_mtime old\<rparr>);
          m = m\<lparr>mf_assets := upsert_asset kept (ri_asset ids m) (error_row path err indexed_at) (mf_assets m)\<rparr>
      in delete_derived_features_for_path path (delete_embeddings path m))"

definition record_item_error :: "row_ids \<Rightarrow> pending_image \<Rightarrow> str \<Rightarrow> str \<Rightarrow> manifest \<Rightarrow> manifest" where
  "record_item_error ids item err indexed_at m =
     (if pi_reuse_existing item then
        delete_embeddings (pi_path item)
          (m\<lparr>mf_assets := map (\<lambda>a. if as_path a = pi_path item
               then a\<lparr>as_error := Some err, as_indexed_at := indexed_at, as_stale := 0\<rparr> else a) (mf_assets m)\<rparr>)
      else delete_derived_features_for_path (pi_path item)
             (delete_embeddings (pi_path item) (write_item_row ids item indexed_at (Some err) m)))"

section \<open>Embeddings\<close>

definition legacy_model_key_bounds :: "str \<Rightarrow> str \<times> str" where
  "legacy_model_key_bounds model = (model @ [0x3A], model @ [0x3B])"

definition is_legacy_model :: "str \<Rightarrow> str \<Rightarrow> bool" where
  "is_legacy_model model m = (let (first, beyond) = legacy_model_key_bounds model in first \<le> m \<and> m < beyond)"

definition embedding_key :: "embedding_row \<Rightarrow> str \<times> str \<times> str" where
  "embedding_key e = (em_path e, em_kind e, em_model e)"

text \<open>\<open>insert into image_embeddings .. on conflict(path, kind, model) do update .. where\<close> the condition.\<close>

definition upsert_row :: "(embedding_row \<Rightarrow> embedding_row \<Rightarrow> bool) \<Rightarrow> int \<Rightarrow> embedding_row \<Rightarrow> embedding_row list \<Rightarrow> embedding_row list" where
  "upsert_row cond new_id row rows =
     (if embedding_key row \<in> embedding_key ` set rows
      then map (\<lambda>e. if embedding_key e = embedding_key row \<and> cond e row then row\<lparr>em_rowid := em_rowid e\<rparr> else e) rows
      else rows @ [row\<lparr>em_rowid := new_id\<rparr>])"

definition upsert_prepared_embedding_at_with_legacy_cleanup ::
    "row_ids \<Rightarrow> str \<Rightarrow> str \<Rightarrow> str \<Rightarrow> prepared_embedding \<Rightarrow> str \<Rightarrow> bool \<Rightarrow> manifest \<Rightarrow> manifest" where
  "upsert_prepared_embedding_at_with_legacy_cleanup ids path kind model v updated_at cleanup_legacy m =
     (let row = \<lparr>em_rowid = 0, em_path = path, em_kind = kind, em_model = model, em_dim = pe_dim v, em_vec = Blob (pe_blob v),
            em_sketch = pe_sketch_hex v, em_bucket = Some (pe_bucket v), em_updated_at = updated_at\<rparr>;
          rows = upsert_row (\<lambda>_ _. True) (ri_embedding ids m) row (mf_embeddings m)
      in m\<lparr>mf_embeddings := (if cleanup_legacy
           then filter (\<lambda>e. \<not> (em_path e = path \<and> em_kind e = kind \<and> is_legacy_model model (em_model e))) rows else rows)\<rparr>)"

definition embedding_legacy_rows_exist :: "str \<Rightarrow> str \<Rightarrow> manifest \<Rightarrow> bool" where
  "embedding_legacy_rows_exist kind model m = (\<exists>e \<in> set (mf_embeddings m). em_kind e = kind \<and> is_legacy_model model (em_model e))"

definition has_sketch :: "embedding_row \<Rightarrow> bool" where
  "has_sketch e = (length (em_sketch e) = 16 \<and> (case em_bucket e of Some b \<Rightarrow> b \<ge> 0 | None \<Rightarrow> False))"

definition embedding_exists :: "str \<Rightarrow> str \<Rightarrow> str \<Rightarrow> manifest \<Rightarrow> bool" where
  "embedding_exists path kind model m =
     (\<exists>e \<in> set (mf_embeddings m). em_path e = path \<and> em_kind e = kind
        \<and> (em_model e = model \<or> is_legacy_model model (em_model e)) \<and> has_sketch e)"

section \<open>Items\<close>

definition write_index_item_prepared ::
    "row_ids \<Rightarrow> pending_image \<Rightarrow> (str \<times> prepared_embedding) option \<Rightarrow> (str \<times> prepared_embedding) option \<Rightarrow> str \<Rightarrow> bool \<Rightarrow> bool
      \<Rightarrow> manifest \<Rightarrow> (manifest_error, manifest) outcome" where
  "write_index_item_prepared ids item clip sscd indexed_at clip_cleanup_legacy sscd_cleanup_legacy m =
     map_ok
       (\<lambda>m. let m = (case clip of None \<Rightarrow> m | Some (key, v) \<Rightarrow>
              upsert_prepared_embedding_at_with_legacy_cleanup ids (pi_path item) (ascii ''clip'') key v indexed_at clip_cleanup_legacy m)
            in (case sscd of None \<Rightarrow> m | Some (key, v) \<Rightarrow>
              upsert_prepared_embedding_at_with_legacy_cleanup ids (pi_path item) (ascii ''sscd'') key v indexed_at sscd_cleanup_legacy m))
       (if pi_reuse_existing item then Ok m
        else and_then (write_asset_row ids item indexed_at m)
               (\<lambda>(m, asset_id). replace_tile_hashes asset_id (fp_tile_hashes (pi_fingerprint item)) m))"

record embedding_batch =
  eb_items :: "pending_image list"
  eb_clip_model_key :: "str option"
  eb_clip_vectors :: "vector list option"
  eb_sscd_model_key :: "str option"
  eb_sscd_vectors :: "vector list option"
  eb_indexed_at :: str

text \<open>The key and the value of an item; a batch of fewer vectors than items panics.\<close>

definition batch_value :: "str option \<Rightarrow> prepared_embedding list option \<Rightarrow> nat \<Rightarrow> (manifest_error, (str \<times> prepared_embedding) option) outcome" where
  "batch_value key values i =
     (case values of
        None \<Rightarrow> Ok None
      | Some vs \<Rightarrow> and_then (or_panic (idx vs i)) (\<lambda>v. Ok (map_option (\<lambda>k. (k, v)) key)))"

definition write_embedding_batch :: "row_ids \<Rightarrow> embedding_batch \<Rightarrow> manifest \<Rightarrow> (manifest_error, nat \<times> manifest) outcome" where
  "write_embedding_batch ids batch m =
     (let clip_values = map_option (map prepare_embedding_value) (eb_clip_vectors batch);
          sscd_values = map_option (map prepare_embedding_value) (eb_sscd_vectors batch);
          clip_cleanup = (case eb_clip_model_key batch of Some k \<Rightarrow> embedding_legacy_rows_exist (ascii ''clip'') k m | None \<Rightarrow> False);
          sscd_cleanup = (case eb_sscd_model_key batch of Some k \<Rightarrow> embedding_legacy_rows_exist (ascii ''sscd'') k m | None \<Rightarrow> False)
      in map_ok (\<lambda>m. (length (eb_items batch), m))
           (ok_fold (\<lambda>(i, item) m.
              and_then (batch_value (eb_clip_model_key batch) clip_values i)
                (\<lambda>clip. and_then (batch_value (eb_sscd_model_key batch) sscd_values i)
                  (\<lambda>sscd. write_index_item_prepared ids item clip sscd (eb_indexed_at batch) clip_cleanup sscd_cleanup m)))
              (zip [0..<length (eb_items batch)] (eb_items batch)) m))"

text \<open>The files are found unchanged when the row has the size and the time of the file, all its fields and tiles, and
  every embedding that is asked for.\<close>

definition tile_hashes_exist :: "int \<Rightarrow> manifest \<Rightarrow> bool" where
  "tile_hashes_exist asset_id m =
     (length (filter (\<lambda>t. fst t = asset_id \<and> th_algo (snd t) = tile_algo_v1) (mf_tiles m)) \<ge> tile_region_count)"

definition existing_unchanged :: "str \<Rightarrow> int \<Rightarrow> int \<Rightarrow> (str \<times> str) list \<Rightarrow> manifest \<Rightarrow> bool" where
  "existing_unchanged path file_size mtime required m =
     (case find (\<lambda>a. as_path a = path \<and> as_stale a = 0) (mf_assets m) of
        None \<Rightarrow> False
      | Some a \<Rightarrow>
          as_file_size a = file_size \<and> as_mtime a = mtime
          \<and> (case as_phash a of Some h \<Rightarrow> str_len h = 16 | None \<Rightarrow> False)
          \<and> as_phash_algo a = phash_algo_v2 \<and> as_blur_algo a = blur_algo_v2 \<and> as_source_class a \<noteq> []
          \<and> (case as_error a of Some e \<Rightarrow> e = [] | None \<Rightarrow> True)
          \<and> tile_hashes_exist (as_id a) m
          \<and> list_all (\<lambda>(kind, model). embedding_exists path kind model m) required)"

definition existing_fast_unchanged :: "str \<Rightarrow> str \<Rightarrow> int \<Rightarrow> int \<Rightarrow> str \<Rightarrow> manifest \<Rightarrow> bool" where
  "existing_fast_unchanged path source_root file_size mtime source_class m =
     (case find (\<lambda>a. as_path a = path \<and> as_stale a = 0) (mf_assets m) of
        None \<Rightarrow> False
      | Some a \<Rightarrow> as_source_root a = source_root \<and> as_file_size a = file_size \<and> as_mtime a = mtime
          \<and> as_source_class a = source_class)"

section \<open>The paths of a scan\<close>

definition reset_seen_paths :: "manifest \<Rightarrow> manifest" where
  "reset_seen_paths m = m\<lparr>mf_seen := []\<rparr>"

definition remember_seen_path :: "str \<Rightarrow> manifest \<Rightarrow> bool \<times> manifest" where
  "remember_seen_path path m =
     (if path \<in> set (mf_seen m) then (False, m) else (True, m\<lparr>mf_seen := mf_seen m @ [path]\<rparr>))"

definition mark_missing_assets_stale :: "manifest \<Rightarrow> nat \<times> manifest" where
  "mark_missing_assets_stale m =
     (let missing = (\<lambda>a. as_stale a = 0 \<and> as_path a \<notin> set (mf_seen m)) in
      (length (filter missing (mf_assets m)),
       m\<lparr>mf_assets := map (\<lambda>a. if missing a then a\<lparr>as_stale := 1\<rparr> else a) (mf_assets m)\<rparr>))"

section \<open>Maintenance of the embeddings\<close>

definition sketch_missing :: "embedding_row \<Rightarrow> bool" where
  "sketch_missing e = (em_sketch e = [] \<or> em_bucket e = None)"

definition backfill_row :: "int \<times> bytes \<Rightarrow> embedding_row list \<times> nat \<Rightarrow> embedding_row list \<times> nat" where
  "backfill_row = (\<lambda>(rowid, blob) (rows, done_count).
     case vector_sketch64_blob blob of
       Some sketch \<Rightarrow>
         (map (\<lambda>e. if em_rowid e = rowid then e\<lparr>em_sketch := hex16 sketch, em_bucket := Some (int (unat (vector_bucket12 sketch)))\<rparr>
              else e) rows, done_count + 1)
     | None \<Rightarrow>
         (map (\<lambda>e. if em_rowid e = rowid then e\<lparr>em_sketch := ascii ''invalid'', em_bucket := Some (-1)\<rparr> else e) rows, done_count))"

fun blob_of :: "embedding_row \<Rightarrow> (manifest_error, int \<times> bytes) outcome" where
  "blob_of e = (case em_vec e of Blob b \<Rightarrow> Ok (em_rowid e, b) | Not_Blob \<Rightarrow> Err Column_Type)"

primrec all_ok :: "('e, 'a) outcome list \<Rightarrow> ('e, 'a list) outcome" where
  "all_ok [] = Ok []"
| "all_ok (x # xs) = and_then x (\<lambda>y. map_ok ((#) y) (all_ok xs))"

text \<open>Batches of a thousand rows, until none is missing its sketch.\<close>

definition backfill_batch :: "embedding_row list \<Rightarrow> (int \<times> bytes) list \<Rightarrow> nat \<Rightarrow> embedding_row list \<times> nat" where
  "backfill_batch rows picked done_count = fold backfill_row picked (rows, done_count)"

lemma backfill_row_missing:
  "sketch_missing e' \<Longrightarrow> e' \<in> set (fst (backfill_row p (rows, done_count))) \<Longrightarrow> em_rowid e' \<noteq> fst p \<and> e' \<in> set rows"
  by (cases p) (auto simp: backfill_row_def sketch_missing_def hex16_def ascii_def split: option.splits if_splits)

lemma backfill_row_count:
  "length (filter sketch_missing (fst (backfill_row p (rows, done_count)))) \<le> length (filter sketch_missing rows)"
  by (cases p) (induction rows, auto simp: backfill_row_def sketch_missing_def hex16_def ascii_def split: option.splits)

lemma backfill_row_hit:
  assumes "\<exists>e \<in> set rows. sketch_missing e \<and> em_rowid e = fst p"
  shows "length (filter sketch_missing (fst (backfill_row p (rows, done_count)))) < length (filter sketch_missing rows)"
  using assms
proof (induction rows)
  case (Cons e rows)
  let ?step = "\<lambda>rows. fst (backfill_row p (rows, done_count))"
  have "?step (e # rows) = hd (?step [e]) # ?step rows"
    by (cases p) (auto simp: backfill_row_def split: option.splits)
  moreover have "sketch_missing (hd (?step [e])) \<longleftrightarrow> sketch_missing e \<and> em_rowid e \<noteq> fst p"
    by (cases p) (auto simp: backfill_row_def sketch_missing_def hex16_def ascii_def split: option.splits)
  moreover have "length (filter sketch_missing (?step rows)) \<le> length (filter sketch_missing rows)"
    by (rule backfill_row_count)
  ultimately show ?case using Cons by auto
qed simp

lemma fold_backfill_count:
  "length (filter sketch_missing (fst (fold backfill_row ps st))) \<le> length (filter sketch_missing (fst st))"
proof (induction ps arbitrary: st)
  case (Cons p ps)
  have "length (filter sketch_missing (fst (fold backfill_row ps (backfill_row p st))))
      \<le> length (filter sketch_missing (fst (backfill_row p st)))" by (rule Cons.IH)
  also have "\<dots> \<le> length (filter sketch_missing (fst st))"
    using backfill_row_count [of p "fst st" "snd st"] by simp
  finally show ?case by simp
qed simp

lemma all_ok_rows:
  "all_ok (map blob_of es) = Ok ps \<Longrightarrow> map fst ps = map em_rowid es"
  by (induction es arbitrary: ps) (auto simp: map_ok_def and_then_Ok_iff split: sql_blob.splits)

lemma backfill_batch_shrinks:
  assumes "all_ok (map blob_of (take 1000 (filter sketch_missing rows))) = Ok ps" "ps \<noteq> []"
  shows "length (filter sketch_missing (fst (backfill_batch rows ps done_count))) < length (filter sketch_missing rows)"
proof -
  obtain p ps' where ps: "ps = p # ps'" using assms(2) by (cases ps) auto
  have "map fst ps = map em_rowid (take 1000 (filter sketch_missing rows))" by (rule all_ok_rows [OF assms(1)])
  then obtain e es where "take 1000 (filter sketch_missing rows) = e # es" "em_rowid e = fst p"
    using ps by (cases "take 1000 (filter sketch_missing rows)") auto
  moreover from this have "e \<in> set (filter sketch_missing rows)" by (metis in_set_takeD list.set_intros(1))
  ultimately have "\<exists>e \<in> set rows. sketch_missing e \<and> em_rowid e = fst p" by auto
  then have "length (filter sketch_missing (fst (backfill_row p (rows, done_count)))) < length (filter sketch_missing rows)"
    by (rule backfill_row_hit)
  then show ?thesis using fold_backfill_count [of ps' "backfill_row p (rows, done_count)"] ps
    by (simp add: backfill_batch_def)
qed

function backfill_loop :: "embedding_row list \<Rightarrow> nat \<Rightarrow> (manifest_error, embedding_row list \<times> nat) outcome" where
  "backfill_loop rows done_count =
     (case all_ok (map blob_of (take 1000 (filter sketch_missing rows))) of
        Panic \<Rightarrow> Panic
      | Err e \<Rightarrow> Err e
      | Ok picked \<Rightarrow>
          if picked = [] then Ok (rows, done_count)
          else backfill_loop (fst (backfill_batch rows picked done_count)) (snd (backfill_batch rows picked done_count)))"
  by pat_completeness auto
termination
  by (relation "measure (\<lambda>(rows, done_count). length (filter sketch_missing rows))") (auto simp: case_prod_unfold intro: backfill_batch_shrinks)

declare backfill_loop.simps [simp del]

definition backfill_embedding_metadata :: "manifest \<Rightarrow> (manifest_error, nat \<times> manifest) outcome" where
  "backfill_embedding_metadata m =
     (if \<not> (\<exists>e \<in> set (mf_embeddings m). sketch_missing e) then Ok (0, m)
      else map_ok (\<lambda>(rows, done_count). (done_count, m\<lparr>mf_embeddings := rows\<rparr>)) (backfill_loop (mf_embeddings m) 0))"

text \<open>A row of the old key is moved to the new one, unless a row that is at least as new is there.\<close>

definition legacy_rows :: "str \<Rightarrow> str \<Rightarrow> embedding_row list \<Rightarrow> embedding_row list" where
  "legacy_rows kind model rows = filter (\<lambda>e. em_kind e = kind \<and> is_legacy_model model (em_model e)) rows"

definition legacy_order :: "embedding_row \<Rightarrow> embedding_row \<Rightarrow> ordering" where
  "legacy_order a b = then_with (cmp (em_path a) (em_path b))
     (then_with (cmp (em_updated_at b) (em_updated_at a)) (cmp (em_model a) (em_model b)))"

definition same_key :: "embedding_row \<Rightarrow> embedding_row \<Rightarrow> bool" where
  "same_key a b = (embedding_key a = embedding_key b)"

definition canonicalize_row :: "(embedding_row list \<Rightarrow> int) \<Rightarrow> str \<Rightarrow> embedding_row \<Rightarrow> embedding_row list \<times> nat \<Rightarrow> embedding_row list \<times> nat" where
  "canonicalize_row new_id model e = (\<lambda>(rows, done_count).
     let rows = upsert_row (\<lambda>old new. em_updated_at old < em_updated_at new) (new_id rows) (e\<lparr>em_model := model\<rparr>) rows
     in (filter (\<lambda>r. \<not> same_key r e) rows, done_count + length (filter (\<lambda>r. same_key r e) rows)))"

lemma append_le_self [simp]: "xs @ ys \<le> xs \<longleftrightarrow> ys = []" for xs :: "'a::linorder list"
  by (induction xs) auto

lemma legacy_not_model [simp]: "\<not> is_legacy_model model model"
  by (simp add: is_legacy_model_def legacy_model_key_bounds_def)

lemma upsert_row_legacy:
  "length (legacy_rows kind model (upsert_row cond new_id (e\<lparr>em_model := model\<rparr>) rows)) = length (legacy_rows kind model rows)"
proof -
  have "length (legacy_rows kind model (map (\<lambda>r. if embedding_key r = embedding_key (e\<lparr>em_model := model\<rparr>) \<and> c r
      then e\<lparr>em_model := model, em_rowid := em_rowid r\<rparr> else r) rows)) = length (legacy_rows kind model rows)" for c
    by (induction rows) (auto simp: legacy_rows_def embedding_key_def)
  then show ?thesis by (simp add: upsert_row_def) (simp add: legacy_rows_def)
qed

lemma canonicalize_row_count:
  "length (legacy_rows kind model (fst (canonicalize_row new_id model e st))) \<le> length (legacy_rows kind model (fst st))"
proof -
  have "length (legacy_rows kind model (filter P rows)) \<le> length (legacy_rows kind model rows)" for P rows
    by (induction rows) (auto simp: legacy_rows_def)
  from order_trans [OF this] show ?thesis
    by (cases st) (simp add: canonicalize_row_def Let_def upsert_row_legacy)
qed

lemma canonicalize_row_hit:
  assumes "e \<in> set (legacy_rows kind model rows)"
  shows "length (legacy_rows kind model (fst (canonicalize_row new_id model e (rows, n)))) < length (legacy_rows kind model rows)"
proof -
  let ?rows = "upsert_row (\<lambda>old new. em_updated_at old < em_updated_at new) (new_id rows) (e\<lparr>em_model := model\<rparr>) rows"
  have e: "em_kind e = kind" "is_legacy_model model (em_model e)" "e \<in> set rows" using assms by (auto simp: legacy_rows_def)
  then have "em_model e \<noteq> model" by auto
  then have "embedding_key e \<noteq> embedding_key (e\<lparr>em_model := model\<rparr>)" by (simp add: embedding_key_def)
  then have "e \<in> set ?rows" using e by (force simp: upsert_row_def)
  then have "e \<in> set (legacy_rows kind model ?rows)" using e by (simp add: legacy_rows_def)
  then have "length (filter (\<lambda>r. \<not> same_key r e) (legacy_rows kind model ?rows)) < length (legacy_rows kind model ?rows)"
    by (rule length_filter_less) (simp add: same_key_def)
  moreover have "filter (\<lambda>r. \<not> same_key r e) (legacy_rows kind model ?rows) = legacy_rows kind model (filter (\<lambda>r. \<not> same_key r e) ?rows)"
    by (simp add: legacy_rows_def conj_commute)
  ultimately show ?thesis by (simp add: canonicalize_row_def Let_def upsert_row_legacy)
qed

lemma fold_canonicalize_count:
  "length (legacy_rows kind model (fst (fold (canonicalize_row new_id model) es st))) \<le> length (legacy_rows kind model (fst st))"
proof (induction es arbitrary: st)
  case (Cons e es)
  from order_trans [OF Cons.IH canonicalize_row_count] show ?case by simp
qed simp

definition canonicalize_picked :: "str \<Rightarrow> str \<Rightarrow> embedding_row list \<Rightarrow> embedding_row list" where
  "canonicalize_picked kind model rows = take 1000 (sort_by legacy_order (legacy_rows kind model rows))"

lemma canonicalize_batch_shrinks:
  assumes "canonicalize_picked kind model rows \<noteq> []"
  shows "length (legacy_rows kind model (fst (fold (canonicalize_row new_id model) (canonicalize_picked kind model rows) (rows, n))))
    < length (legacy_rows kind model rows)"
proof -
  obtain e es where es: "canonicalize_picked kind model rows = e # es" using assms by (cases "canonicalize_picked kind model rows") auto
  then have "e \<in> set (canonicalize_picked kind model rows)" by simp
  then have "e \<in> set (legacy_rows kind model rows)" by (auto simp: canonicalize_picked_def dest: in_set_takeD)
  from le_less_trans [OF fold_canonicalize_count canonicalize_row_hit [OF this]] show ?thesis unfolding es by simp
qed

function canonicalize_loop :: "(embedding_row list \<Rightarrow> int) \<Rightarrow> str \<Rightarrow> str \<Rightarrow> embedding_row list \<times> nat
    \<Rightarrow> (manifest_error, embedding_row list \<times> nat) outcome" where
  "canonicalize_loop new_id kind model st =
     (let picked = canonicalize_picked kind model (fst st) in
      if picked = [] then Ok st
      else case all_ok (map blob_of picked) of
          Panic \<Rightarrow> Panic
        | Err err \<Rightarrow> Err err
        | Ok _ \<Rightarrow> canonicalize_loop new_id kind model (fold (canonicalize_row new_id model) picked st))"
  by pat_completeness auto
termination
proof (relation "measure (\<lambda>(_, kind, model, rows, _). length (legacy_rows kind model rows))", goal_cases)
  case (2 new_id kind model st picked ps)
  have "length (legacy_rows kind model (fst (fold (canonicalize_row new_id model) picked st))) < length (legacy_rows kind model (fst st))"
    using canonicalize_batch_shrinks [of kind model "fst st" new_id "snd st"] 2 by simp
  then show ?case by (simp add: case_prod_unfold)
qed simp

declare canonicalize_loop.simps [simp del]

definition canonicalize_legacy_model_keys ::
    "(embedding_row list \<Rightarrow> int) \<Rightarrow> (str \<times> str) list \<Rightarrow> manifest \<Rightarrow> (manifest_error, nat \<times> manifest) outcome" where
  "canonicalize_legacy_model_keys new_id required m =
     map_ok (\<lambda>(rows, n). (n, m\<lparr>mf_embeddings := rows\<rparr>))
       (ok_fold (\<lambda>(kind, model) st. canonicalize_loop new_id kind model st) required (mf_embeddings m, 0))"

section \<open>Copies for exact duplicates\<close>

definition is_ready :: "str \<Rightarrow> str \<Rightarrow> str \<Rightarrow> embedding_row list \<Rightarrow> bool" where
  "is_ready path kind model rows =
     (\<exists>e \<in> set rows. em_path e = path \<and> em_kind e = kind \<and> em_model e = model \<and> has_sketch e)"

definition lacks_embedding :: "str \<Rightarrow> str \<Rightarrow> embedding_row list \<Rightarrow> asset_row \<Rightarrow> bool" where
  "lacks_embedding kind model rows a =
     (as_stale a = 0 \<and> (case as_error a of None \<Rightarrow> True | Some e \<Rightarrow> e = []) \<and> as_sha256 a \<noteq> []
      \<and> \<not> is_ready (as_path a) kind model rows)"

definition duplicate_rows :: "str \<Rightarrow> str \<Rightarrow> asset_row list \<Rightarrow> embedding_row list \<Rightarrow> embedding_row list" where
  "duplicate_rows kind model assets rows =
     [e\<lparr>em_path := as_path a\<rparr>.
        a \<leftarrow> filter (lacks_embedding kind model rows) assets,
        s \<leftarrow> filter (\<lambda>s. as_sha256 s = as_sha256 a \<and> as_path s \<noteq> as_path a \<and> as_stale s = 0) assets,
        e \<leftarrow> filter (\<lambda>e. em_path e = as_path s \<and> em_kind e = kind \<and> em_model e = model \<and> has_sketch e) rows]"

text \<open>\<open>insert or ignore\<close>.\<close>

definition insert_or_ignore :: "(embedding_row list \<Rightarrow> int) \<Rightarrow> embedding_row \<Rightarrow> embedding_row list \<times> nat \<Rightarrow> embedding_row list \<times> nat" where
  "insert_or_ignore new_id e = (\<lambda>(rows, n).
     if embedding_key e \<in> embedding_key ` set rows then (rows, n) else (rows @ [e\<lparr>em_rowid := new_id rows\<rparr>], n + 1))"

definition reuse_duplicate_embeddings :: "(embedding_row list \<Rightarrow> int) \<Rightarrow> (str \<times> str) list \<Rightarrow> manifest \<Rightarrow> nat \<times> manifest" where
  "reuse_duplicate_embeddings new_id required m =
     (if \<not> (\<exists>a \<in> set (mf_assets m). as_stale a = 0 \<and> as_sha256 a \<noteq> []) then (0, m)
      else
        let (rows, n) = fold (\<lambda>(kind, model) (rows, n).
               if \<exists>a \<in> set (mf_assets m). lacks_embedding kind model rows a
               then fold (insert_or_ignore new_id) (duplicate_rows kind model (mf_assets m) rows) (rows, n)
               else (rows, n)) required (mf_embeddings m, 0)
        in (n, m\<lparr>mf_embeddings := rows\<rparr>))"

end
