(* ===== verification/Image_Rank.thy ===== *)
theory Image_Rank imports Rust_Order "HOL-Library.Product_Lexorder" begin

text \<open>
  Bounded rankings: a list of at most \<open>k\<close> candidates, the best first, at most one of every key.
  The search of the image index (\<open>image_index.rs\<close>) keeps three of them. \<open>top_of\<close> says what such a list is of
  the candidates that were pushed; the locales are the contract of a push and its consequences.
\<close>

text \<open>\<open>position\<close> of the first entry with a property.\<close>

fun find_index :: "('a \<Rightarrow> bool) \<Rightarrow> 'a list \<Rightarrow> nat option" where
  "find_index P [] = None"
| "find_index P (x # xs) = (if P x then Some 0 else map_option Suc (find_index P xs))"

lemma find_index_None: "find_index P xs = None \<longleftrightarrow> (\<forall>x \<in> set xs. \<not> P x)"
  by (induction xs) auto

lemma find_index_Some: "find_index P xs = Some i \<Longrightarrow> i < length xs \<and> P (xs ! i)"
  by (induction xs arbitrary: i) (auto split: if_splits)

text \<open>\<open>out.insert(pos, candidate)\<close> at the first entry the candidate is better than.\<close>

definition insert_before :: "('a \<Rightarrow> 'a \<Rightarrow> bool) \<Rightarrow> 'a \<Rightarrow> 'a list \<Rightarrow> 'a list" where
  "insert_before better c out = takeWhile (\<lambda>e. \<not> better c e) out @ c # dropWhile (\<lambda>e. \<not> better c e) out"

definition top_of :: "('a \<Rightarrow> 'k) \<Rightarrow> ('a \<Rightarrow> 'a \<Rightarrow> bool) \<Rightarrow> nat \<Rightarrow> 'a set \<Rightarrow> 'a list \<Rightarrow> bool" where
  "top_of key better k seen out =
     (sorted_wrt better out \<and> distinct (map key out) \<and> length out \<le> k \<and> set out \<subseteq> seen
      \<and> (\<forall>x \<in> seen. (\<exists>y \<in> set out. key y = key x \<and> \<not> better x y)
           \<or> length out = k \<and> (\<forall>y \<in> set out. better y x)))"

lemma set_insert_before [simp]: "set (insert_before better c out) = insert c (set out)"
proof -
  have "set out = set (takeWhile (\<lambda>e. \<not> better c e) out) \<union> set (dropWhile (\<lambda>e. \<not> better c e) out)"
    by (metis set_append takeWhile_dropWhile_id)
  then show ?thesis by (simp add: insert_before_def)
qed

lemma length_insert_before [simp]: "length (insert_before better c out) = length out + 1"
proof -
  have "length out = length (takeWhile (\<lambda>e. \<not> better c e) out) + length (dropWhile (\<lambda>e. \<not> better c e) out)"
    by (metis length_append takeWhile_dropWhile_id)
  then show ?thesis by (simp add: insert_before_def)
qed

lemma distinct_insert_before:
  "distinct (map key (insert_before better c out)) \<longleftrightarrow> distinct (map key out) \<and> key c \<notin> key ` set out"
proof -
  have "distinct (map key out) = distinct (map key (takeWhile (\<lambda>e. \<not> better c e) out @ dropWhile (\<lambda>e. \<not> better c e) out))"
    by simp
  moreover have "set out = set (takeWhile (\<lambda>e. \<not> better c e) out @ dropWhile (\<lambda>e. \<not> better c e) out)" by simp
  ultimately show ?thesis by (auto simp: insert_before_def image_Un simp del: takeWhile_dropWhile_id)
qed

locale ranking =
  fixes key :: "'a \<Rightarrow> 'k" and better :: "'a \<Rightarrow> 'a \<Rightarrow> bool" and ok :: "'a \<Rightarrow> bool"
  assumes asym: "ok a \<Longrightarrow> ok b \<Longrightarrow> better a b \<Longrightarrow> \<not> better b a"
    and weak: "ok a \<Longrightarrow> ok b \<Longrightarrow> ok c \<Longrightarrow> better a c \<Longrightarrow> better a b \<or> better b c"
    and total: "ok a \<Longrightarrow> ok b \<Longrightarrow> key a \<noteq> key b \<Longrightarrow> better a b \<or> better b a"
begin

lemma better_trans: "ok a \<Longrightarrow> ok b \<Longrightarrow> ok c \<Longrightarrow> better a b \<Longrightarrow> better b c \<Longrightarrow> better a c"
  using asym weak by blast

lemma better_irrefl: "ok a \<Longrightarrow> \<not> better a a"
  using asym by blast

lemma sorted_insert:
  assumes "sorted_wrt better out" "\<forall>x \<in> set out. ok x" "ok c" "key c \<notin> key ` set out"
  shows "sorted_wrt better (insert_before better c out)"
  using assms
proof (induction out)
  case (Cons e out)
  show ?case
  proof (cases "better c e")
    case True
    then have "\<forall>x \<in> set out. better c x" using Cons.prems better_trans by (metis list.set_intros sorted_wrt.simps(2))
    then show ?thesis using Cons.prems True by (simp add: insert_before_def)
  next
    case False
    then have e: "better e c" using total Cons.prems by (metis imageI list.set_intros(1))
    have "sorted_wrt better (insert_before better c out)" using Cons by simp
    moreover have "\<forall>x \<in> set (insert_before better c out). better e x" using Cons.prems e by auto
    moreover have "insert_before better c (e # out) = e # insert_before better c out"
      using False by (simp add: insert_before_def)
    ultimately show ?thesis by simp
  qed
qed (simp add: insert_before_def)

lemma last_worst:
  assumes "sorted_wrt better out" "\<forall>x \<in> set out. ok x" "y \<in> set out" "y \<noteq> last out"
  shows "better y (last out)"
proof -
  obtain xs z where "out = xs @ [z]" using assms(3) by (cases out rule: rev_cases) auto
  then show ?thesis using assms by (auto simp: sorted_wrt_append)
qed

lemma sorted_unique:
  assumes "sorted_wrt better xs" "sorted_wrt better ys" "set xs = set ys" "\<forall>x \<in> set xs. ok x"
  shows "xs = ys"
  using assms
proof (induction xs arbitrary: ys)
  case (Cons x xs)
  from Cons.prems obtain y ys' where ys: "ys = y # ys'" by (cases ys) auto
  have xy: "x = y"
  proof (rule ccontr)
    assume "x \<noteq> y"
    then have "x \<in> set ys'" "y \<in> set xs" using Cons.prems(3) ys by auto
    then have "better y x" "better x y" using Cons.prems ys by auto
    moreover have "ok x" "ok y" using Cons.prems ys \<open>y \<in> set xs\<close> by auto
    ultimately show False using asym by blast
  qed
  have "x \<notin> set xs" using Cons.prems better_irrefl by auto
  moreover have "y \<notin> set ys'" using Cons.prems(2,3,4) ys better_irrefl by auto
  ultimately have "set xs = set ys'" using Cons.prems(3) ys xy by auto
  then show ?case using Cons ys xy by auto
qed simp

text \<open>The list is determined by the candidates, when those of the same key and rank are the same.\<close>

lemma top_subset:
  assumes xs: "top_of key better k seen xs" and ys: "top_of key better k seen ys" and ok: "\<forall>x \<in> seen. ok x"
    and same: "\<And>x y. x \<in> seen \<Longrightarrow> y \<in> seen \<Longrightarrow> key x = key y \<Longrightarrow> \<not> better x y \<Longrightarrow> \<not> better y x \<Longrightarrow> x = y"
  shows "set xs \<subseteq> set ys"
proof
  fix x assume x: "x \<in> set xs"
  then have xseen: "x \<in> seen" using xs by (auto simp: top_of_def)
  show "x \<in> set ys"
  proof (rule ccontr)
    assume "x \<notin> set ys"
    have cover: "z = x" if "z \<in> set xs" "key z = key x" for z
      using that x xs by (auto simp: top_of_def distinct_map dest: inj_onD)
    have "length ys = k \<and> (\<forall>y \<in> set ys. better y x)"
    proof (rule ccontr)
      assume "\<not> ?thesis"
      then obtain y where y: "y \<in> set ys" "key y = key x" "\<not> better x y" using ys xseen by (auto simp: top_of_def)
      then have yseen: "y \<in> seen" using ys by (auto simp: top_of_def)
      have "\<not> better y x"
      proof -
        consider z where "z \<in> set xs" "key z = key y" "\<not> better y z" | "\<forall>z \<in> set xs. better z y"
          using xs yseen by (auto simp: top_of_def)
        then show ?thesis using cover y x by cases auto
      qed
      then have "x = y" using same [OF xseen yseen] y by simp
      then show False using y \<open>x \<notin> set ys\<close> by simp
    qed
    then have k: "length ys = k" and beat: "\<And>y. y \<in> set ys \<Longrightarrow> better y x" by auto
    have "key ` set ys \<subseteq> key ` (set xs - {x})"
    proof
      fix q assume "q \<in> key ` set ys"
      then obtain y where y: "y \<in> set ys" "q = key y" by auto
      then have yseen: "y \<in> seen" using ys by (auto simp: top_of_def)
      consider z where "z \<in> set xs" "key z = key y" "\<not> better y z" | "\<forall>z \<in> set xs. better z y"
        using xs yseen by (auto simp: top_of_def)
      then show "q \<in> key ` (set xs - {x})"
      proof cases
        case 1
        then have "z \<noteq> x" using beat y by auto
        then show ?thesis using 1 y by (intro image_eqI [of _ _ z]) auto
      next
        case 2
        then have "better x y" "better y x" using x beat y by auto
        then show ?thesis using asym ok xseen yseen by auto
      qed
    qed
    then have "card (key ` set ys) \<le> card (set xs - {x})"
      by (meson List.finite_set card_image_le card_mono dual_order.trans finite_Diff finite_imageI)
    moreover have "card (key ` set ys) = k"
      using ys k by (auto simp: top_of_def distinct_map card_image distinct_card)
    moreover have "card (set xs - {x}) < k"
    proof -
      have "card (set xs - {x}) < card (set xs)" using x by (intro card_Diff1_less) auto
      also have "\<dots> \<le> k" using xs card_length [of xs] by (simp add: top_of_def)
      finally show ?thesis .
    qed
    ultimately show False by simp
  qed
qed

lemma top_unique:
  assumes "top_of key better k seen xs" "top_of key better k seen ys" "\<forall>x \<in> seen. ok x"
    "\<And>x y. x \<in> seen \<Longrightarrow> y \<in> seen \<Longrightarrow> key x = key y \<Longrightarrow> \<not> better x y \<Longrightarrow> \<not> better y x \<Longrightarrow> x = y"
  shows "xs = ys"
proof -
  have "set xs \<subseteq> set ys" "set ys \<subseteq> set xs"
    using top_subset [OF assms(1,2,3)] top_subset [OF assms(2,1,3)] assms(4) by blast+
  then have "set xs = set ys" by simp
  then show ?thesis using assms by (intro sorted_unique) (auto simp: top_of_def)
qed

end

locale bounded_buffer = ranking +
  fixes push :: "'a list \<Rightarrow> 'a \<Rightarrow> nat \<Rightarrow> 'a list"
  assumes push_worse: "0 < k \<Longrightarrow> length out = k \<Longrightarrow> \<not> better c (last out) \<Longrightarrow> push out c k = out"
    and push_new: "0 < k \<Longrightarrow> length out \<le> k \<Longrightarrow> length out = k \<longrightarrow> better c (last out) \<Longrightarrow> key c \<notin> key ` set out
      \<Longrightarrow> push out c k = insert_before better c (if length out = k then butlast out else out)"
begin

lemma push_worse_top:
  assumes top: "top_of key better k seen out" and ok: "\<forall>x \<in> seen. ok x" "ok c" and "0 < k"
    and full: "length out = k" "\<not> better c (last out)"
  shows "top_of key better k (insert c seen) (push out c k)"
proof -
  have s: "sorted_wrt better out" and o: "\<forall>x \<in> set out. ok x" using top ok by (auto simp: top_of_def)
  have "out \<noteq> []" using full \<open>0 < k\<close> by auto
  then have l: "last out \<in> set out" by simp
  have worse: "\<not> better c y" if "y \<in> set out" for y
    using last_worst [OF s o that] better_trans [OF ok(2), of y "last out"] that full o l by (cases "y = last out") auto
  have "(\<exists>y \<in> set out. key y = key c \<and> \<not> better c y) \<or> (\<forall>y \<in> set out. better y c)"
    using worse total ok(2) o by metis
  then show ?thesis using top full push_worse [OF \<open>0 < k\<close>] by (auto simp: top_of_def)
qed

lemma push_new_top:
  assumes top: "top_of key better k seen out" and ok: "\<forall>x \<in> seen. ok x" "ok c" and "0 < k"
    and enters: "length out = k \<longrightarrow> better c (last out)" and new: "key c \<notin> key ` set out"
  shows "top_of key better k (insert c seen) (push out c k)"
proof -
  define kept where "kept = (if length out = k then butlast out else out)"
  have s: "sorted_wrt better out" and o: "\<forall>x \<in> set out. ok x" and d: "distinct (map key out)" and n: "length out \<le> k"
    and sub: "set out \<subseteq> seen" using top ok by (auto simp: top_of_def)
  have sk: "sorted_wrt better kept" "distinct (map key kept)" "set kept \<subseteq> set out"
  proof -
    have "out = kept \<or> out = kept @ [last out]" using \<open>0 < k\<close> by (auto simp: kept_def)
    then have "sorted_wrt better kept \<and> distinct (map key kept) \<and> set kept \<subseteq> set out"
    proof
      assume split: "out = kept @ [last out]"
      have "sorted_wrt better (kept @ [last out])" "distinct (map key (kept @ [last out]))" "set (kept @ [last out]) = set out"
        using s d split by simp_all
      then show ?thesis by (auto simp: sorted_wrt_append simp del: append_butlast_last_id)
    qed (use s d in simp)
    then show "sorted_wrt better kept" "distinct (map key kept)" "set kept \<subseteq> set out" by simp_all
  qed
  have nk: "length kept < k" using n \<open>0 < k\<close> by (auto simp: kept_def)
  have p: "push out c k = insert_before better c kept"
    using push_new [OF \<open>0 < k\<close> n enters new] by (simp add: kept_def)
  have cover: "(\<exists>y \<in> insert c (set kept). key y = key x \<and> \<not> better x y)
      \<or> length kept + 1 = k \<and> (\<forall>y \<in> insert c (set kept). better y x)" if x: "x \<in> seen" for x
  proof (cases "length out = k")
    case False
    then show ?thesis using top x by (auto simp: kept_def top_of_def)
  next
    case True
    define l where "l = last out"
    have "out \<noteq> []" using True \<open>0 < k\<close> by auto
    then have split: "out = kept @ [l]" using True by (simp add: kept_def l_def)
    have l: "ok l" "ok x" "better c l"
    proof -
      have "l \<in> set out" by (subst split) simp
      then show "ok l" using o by blast
      show "ok x" using ok x by blast
      show "better c l" using enters True by (simp add: l_def)
    qed
    have all: ?thesis if "\<not> better x l"
    proof -
      have "\<forall>y \<in> set kept. better y l" using s split by (auto simp: sorted_wrt_append)
      then have "better y l" "ok y" if "y \<in> insert c (set kept)" for y using that l ok(2) o split by auto
      then have "\<forall>y \<in> insert c (set kept). better y x" using weak [OF _ l(2,1)] that by blast
      then show ?thesis using True split by auto
    qed
    consider y where "y \<in> set out" "key y = key x" "\<not> better x y" | "\<forall>y \<in> set out. better y x"
      using top x by (auto simp: top_of_def)
    then show ?thesis
    proof cases
      case 1
      then show ?thesis using all split by (cases "y = l") auto
    next
      case 2
      then have "better l x" using split by simp
      then show ?thesis using all asym l by blast
    qed
  qed
  have "sorted_wrt better (insert_before better c kept)"
    using sorted_insert [OF sk(1)] o sk(3) ok(2) new by blast
  moreover have "distinct (map key (insert_before better c kept))" using sk new by (auto simp: distinct_insert_before)
  ultimately show ?thesis
    using cover sk sub nk better_irrefl [OF ok(2)] unfolding p top_of_def by (auto simp: insert_ident)
qed

text \<open>Candidates of different keys.\<close>

lemma push_all_top:
  assumes "0 < k" "\<forall>c \<in> set cs. ok c" "distinct (map key cs)"
  shows "top_of key better k (set cs) (foldl (\<lambda>out c. push out c k) [] cs)"
  using assms(2,3)
proof (induction cs rule: rev_induct)
  case Nil
  show ?case by (simp add: top_of_def)
next
  case (snoc c cs)
  let ?out = "foldl (\<lambda>out c. push out c k) [] cs"
  have top: "top_of key better k (set cs) ?out" using snoc by simp
  then have "key c \<notin> key ` set ?out" using snoc.prems by (auto simp: top_of_def)
  then show ?case
    using push_new_top [OF top] push_worse_top [OF top] snoc.prems \<open>0 < k\<close> by (cases "length ?out = k \<longrightarrow> better c (last ?out)") auto
qed

end

locale dedup_buffer = bounded_buffer +
  assumes push_known: "0 < k \<Longrightarrow> length out \<le> k \<Longrightarrow> length out = k \<longrightarrow> better c (last out) \<Longrightarrow> distinct (map key out)
      \<Longrightarrow> e \<in> set out \<Longrightarrow> key e = key c
      \<Longrightarrow> push out c k = (if better c e then insert_before better c (filter (\<lambda>x. key x \<noteq> key c) out) else out)"
begin

lemma push_known_top:
  assumes top: "top_of key better k seen out" and ok: "\<forall>x \<in> seen. ok x" "ok c" and "0 < k"
    and enters: "length out = k \<longrightarrow> better c (last out)" and e: "e \<in> set out" "key e = key c"
  shows "top_of key better k (insert c seen) (push out c k)"
proof -
  have s: "sorted_wrt better out" and o: "\<forall>x \<in> set out. ok x" and d: "distinct (map key out)" and n: "length out \<le> k"
    and sub: "set out \<subseteq> seen" using top ok by (auto simp: top_of_def)
  have p: "push out c k = (if better c e then insert_before better c (filter (\<lambda>x. key x \<noteq> key c) out) else out)"
    by (rule push_known [OF \<open>0 < k\<close> n enters d e])
  show ?thesis
  proof (cases "better c e")
    case False
    then show ?thesis using top e p by (auto simp: top_of_def)
  next
    case True
    let ?rest = "filter (\<lambda>x. key x \<noteq> key c) out"
    have only: "y = e" if "y \<in> set out" "key y = key c" for y
      using that e d inj_onD [of key "set out" y e] by (auto simp: distinct_map)
    have len: "length out = length ?rest + 1"
    proof -
      have "set out = insert e (set ?rest)" using e(1) by (auto dest: only)
      then have "card (set out) = card (insert e (set ?rest))" by (rule arg_cong)
      also have "\<dots> = Suc (card (set ?rest))" using e(2) by (intro card_insert_disjoint) auto
      finally have "card (set out) = Suc (card (set ?rest))" .
      moreover have "distinct out" "distinct ?rest" using d by (auto simp: distinct_map)
      ultimately show ?thesis using distinct_card [of out] distinct_card [of ?rest] by simp
    qed
    have sr: "sorted_wrt better ?rest" "distinct (map key ?rest)" using s d by (auto simp: sorted_wrt_filter distinct_map_filter)
    have cover: "(\<exists>y \<in> insert c (set ?rest). key y = key x \<and> \<not> better x y)
        \<or> length out = k \<and> (\<forall>y \<in> insert c (set ?rest). better y x)" if x: "x \<in> seen" for x
    proof -
      have okx: "ok x" "ok e" using ok x o e by auto
      consider y where "y \<in> set out" "key y = key x" "\<not> better x y" | "length out = k" "\<forall>y \<in> set out. better y x"
        using top x by (auto simp: top_of_def)
      then show ?thesis
      proof cases
        case 1
        show ?thesis
        proof (cases "key y = key c")
          case True
          then have "\<not> better x c" using 1 only \<open>better c e\<close> better_trans [OF okx(1) ok(2) okx(2)] by auto
          then show ?thesis using 1 True by auto
        qed (use 1 in auto)
      next
        case 2
        then have "better c x" using True better_trans [OF ok(2) okx(2,1)] e by auto
        then show ?thesis using 2 by auto
      qed
    qed
    have "sorted_wrt better (insert_before better c ?rest)"
      by (rule sorted_insert [OF sr(1) _ ok(2)]) (use o in auto)
    moreover have "distinct (map key (insert_before better c ?rest))" using sr by (auto simp: distinct_insert_before)
    ultimately show ?thesis
      using cover sub n len better_irrefl [OF ok(2)] True p unfolding top_of_def by auto
  qed
qed

lemma push_top:
  assumes top: "top_of key better k seen out" and ok: "\<forall>x \<in> seen. ok x" "ok c" and "0 < k"
  shows "top_of key better k (insert c seen) (push out c k)"
proof (cases "length out = k \<longrightarrow> better c (last out)")
  case True
  then show ?thesis
    using push_new_top [OF assms True] push_known_top [OF assms True] by (cases "key c \<in> key ` set out") auto
next
  case False
  then show ?thesis using push_worse_top [OF assms] by auto
qed

lemma pushes_top:
  assumes "0 < k" "top_of key better k seen out" "\<forall>x \<in> seen. ok x" "\<forall>c \<in> set cs. ok c"
  shows "top_of key better k (seen \<union> set cs) (foldl (\<lambda>out c. push out c k) out cs)"
  using assms(2-4)
proof (induction cs arbitrary: seen out)
  case (Cons c cs)
  have "top_of key better k (insert c seen) (push out c k)" by (rule push_top) (use Cons.prems assms(1) in auto)
  from Cons.IH [OF this] show ?case using Cons.prems by auto
qed simp

end

text \<open>The usual case: the order is that of a rank, and equal ranks have equal keys.\<close>

locale ranked_by =
  fixes key :: "'a \<Rightarrow> 'k" and better :: "'a \<Rightarrow> 'a \<Rightarrow> bool" and ok :: "'a \<Rightarrow> bool" and rank :: "'a \<Rightarrow> 'r::linorder"
  assumes better_rank: "ok a \<Longrightarrow> ok b \<Longrightarrow> better a b \<longleftrightarrow> rank a < rank b"
    and rank_key: "ok a \<Longrightarrow> ok b \<Longrightarrow> rank a = rank b \<Longrightarrow> key a = key b"

sublocale ranked_by \<subseteq> ranking
proof
  show "\<not> better b a" if "ok a" "ok b" "better a b" for a b
    using that better_rank order_less_asym by blast
  show "better a b \<or> better b c" if "ok a" "ok b" "ok c" "better a c" for a b c
    using that better_rank [of a c] better_rank [of a b] better_rank [of b c] by (metis linorder_not_le order_less_le_trans)
  show "better a b \<or> better b a" if "ok a" "ok b" "key a \<noteq> key b" for a b
    using that rank_key better_rank [of a b] better_rank [of b a] by (metis linorder_less_linear)
qed

text \<open>The head of a sorted list.\<close>

lemma take_top:
  assumes "sorted_wrt better xs" "distinct (map key xs)" "\<And>x. x \<in> set xs \<Longrightarrow> \<not> better x x"
  shows "top_of key better k (set xs) (take k xs)"
proof -
  have split: "sorted_wrt better (take k xs)" "\<forall>y \<in> set (take k xs). \<forall>z \<in> set (drop k xs). better y z"
    using assms(1) sorted_wrt_append [of better "take k xs" "drop k xs"] by simp_all
  have "(\<exists>y \<in> set (take k xs). key y = key x \<and> \<not> better x y) \<or> length (take k xs) = k \<and> (\<forall>y \<in> set (take k xs). better y x)"
    if x: "x \<in> set xs" for x
  proof (cases "x \<in> set (take k xs)")
    case True
    then show ?thesis using assms(3) [OF x] by blast
  next
    case False
    then have d: "x \<in> set (drop k xs)" using x by (metis UnE append_take_drop_id set_append)
    then have "k < length xs" by (metis drop_all empty_iff linorder_not_le list.set(1))
    then show ?thesis using split d by auto
  qed
  moreover have "distinct (map key (take k xs))" using assms(2) by (simp add: take_map [symmetric] distinct_take)
  ultimately show ?thesis using split by (auto simp: top_of_def dest: in_set_takeD)
qed

lemma sort_by_rank:
  assumes "\<And>a b. a \<in> set xs \<Longrightarrow> b \<in> set xs \<Longrightarrow> c a b = Greater \<longleftrightarrow> rank b < rank a"
  shows "sorted (map rank (sort_by c xs))"
  using assms
proof (induction xs)
  case (Cons x xs)
  note outer = Cons.prems
  have insert: "sorted (map rank (sort_insert c x ys)) \<and> set (sort_insert c x ys) = insert x (set ys)"
    if "sorted (map rank ys)" "set ys \<subseteq> set (x # xs)" for ys
    using that
  proof (induction ys)
    case (Cons y ys)
    then have "c x y = Greater \<longleftrightarrow> rank y < rank x" using outer [of x y] by auto
    then show ?case using Cons by auto
  qed simp
  have "sorted (map rank (sort_by c xs))" using Cons by simp
  then show ?case using insert [of "sort_by c xs"] by auto
qed simp

text \<open>Removing the only entry of a key.\<close>

lemma remove_only:
  assumes "i < length out" "distinct (map key out)"
  shows "take i out @ drop (i + 1) out = filter (\<lambda>x. key x \<noteq> key (out ! i)) out"
  using assms
proof (induction out arbitrary: i)
  case (Cons x out)
  then show ?case
  proof (cases i)
    case 0
    have "key y \<noteq> key x" if "y \<in> set out" for y using that Cons.prems(2) by (metis distinct.simps(2) imageI list.simps(9) set_map)
    then have "filter (\<lambda>y. key y \<noteq> key x) out = out" by simp
    then show ?thesis using 0 by simp
  next
    case (Suc j)
    then have "out ! j \<in> set out" using Cons.prems by auto
    then have "key x \<noteq> key (out ! j)" using Cons.prems(2) by (metis distinct.simps(2) imageI list.simps(9) set_map)
    then show ?thesis using Suc Cons by simp
  qed
qed simp

end
