(* ===== verification/Image_Search.thy ===== *)
theory Image_Search imports Qq_Hash Image_Manifest Image_Rank begin

text \<open>
  The search of the image index for an indexed picture (\<open>image_index.rs\<close>): exact, copy, near-hash, tile and
  semantic matches, the bounded buffers they are collected in, and the report. A select statement is the
  list of rows it returns; where it has no order the rows come in the order of the table, which is arbitrary.
  The components of a path and the base64 alphabet are arguments, as is the order in which a hash map is iterated.
\<close>

section \<open>Results\<close>

record indexed_image =
  ii_path :: str
  ii_sha256 :: str
  ii_phash :: "str option"
  ii_phash_algo :: "str option"
  ii_width :: "u32 option"
  ii_height :: "u32 option"
  ii_blur_score :: "f64 option"
  ii_blur_algo :: "str option"
  ii_quality_flags :: str
  ii_source_class :: str
  ii_tile_algo :: "str option"
  ii_matched_tile_count :: "nat option"

record query_result =
  qr_match_kind :: str
  qr_score :: f64
  qr_distance :: "nat option"
  qr_path :: str
  qr_href :: str
  qr_name :: str
  qr_width :: "u32 option"
  qr_height :: "u32 option"
  qr_sha256 :: str
  qr_phash :: "str option"
  qr_phash_algo :: "str option"
  qr_blur_score :: "f64 option"
  qr_blur_algo :: "str option"
  qr_quality_flags :: str
  qr_source_class :: str
  qr_match_source :: str
  qr_tile_algo :: "str option"
  qr_embedding_model :: "str option"
  qr_local_algo :: "str option"
  qr_matched_tile_count :: "nat option"
  qr_local_inliers :: "nat option"

record search_env =
  se_components :: "str \<Rightarrow> path_component list"
  se_base64 :: "bytes \<Rightarrow> str"
  se_hash_order :: "(str \<times> indexed_image \<times> nat \<times> nat) list \<Rightarrow> (str \<times> indexed_image \<times> nat \<times> nat) list"

datatype search_error = Bad_Phash | Asset_Not_Found | Wrong_Column

definition max_query_results :: nat where
  "max_query_results = 1000"

definition normalize_query_limit :: "nat \<Rightarrow> nat" where
  "normalize_query_limit limit = min (max limit 1) max_query_results"

definition expanded_query_limit :: "nat \<Rightarrow> nat" where
  "expanded_query_limit limit = normalize_query_limit limit * 4"

definition path_cmp :: "search_env \<Rightarrow> str \<Rightarrow> str \<Rightarrow> ordering" where
  "path_cmp env a b = cmp (se_components env a) (se_components env b)"

definition non_empty_opt :: "str \<Rightarrow> str option" where
  "non_empty_opt s = (if s = [] then None else Some s)"

definition phash_algo_opt :: "str \<Rightarrow> str option" where
  "phash_algo_opt s = (if s = [] then Some (ascii ''phash_v1_triangle32_legacy'') else Some s)"

definition image_from_row :: "asset_row \<Rightarrow> indexed_image" where
  "image_from_row a =
     \<lparr>ii_path = as_path a, ii_sha256 = as_sha256 a, ii_phash = as_phash a, ii_phash_algo = phash_algo_opt (as_phash_algo a),
      ii_width = map_option word_of_int (as_width a), ii_height = map_option word_of_int (as_height a),
      ii_blur_score = as_blur_score a, ii_blur_algo = non_empty_opt (as_blur_algo a), ii_quality_flags = as_quality_flags a,
      ii_source_class = as_source_class a, ii_tile_algo = None, ii_matched_tile_count = None\<rparr>"

definition asset_href :: "search_env \<Rightarrow> str \<Rightarrow> str" where
  "asset_href env path = ascii ''/asset/'' @ se_base64 env (utf8_encode path)"

definition file_name :: "search_env \<Rightarrow> str \<Rightarrow> str option" where
  "file_name env path =
     (let cs = se_components env path in
      if cs = [] then None else (case last cs of Normal s \<Rightarrow> Some s | _ \<Rightarrow> None))"

definition query_result_from_item :: "search_env \<Rightarrow> str \<Rightarrow> f64 \<Rightarrow> nat option \<Rightarrow> indexed_image \<Rightarrow> query_result" where
  "query_result_from_item env match_kind score distance item =
     \<lparr>qr_match_kind = match_kind, qr_score = score, qr_distance = distance, qr_path = ii_path item,
      qr_href = asset_href env (ii_path item),
      qr_name = (case file_name env (ii_path item) of Some s \<Rightarrow> s | None \<Rightarrow> []),
      qr_width = ii_width item, qr_height = ii_height item, qr_sha256 = ii_sha256 item, qr_phash = ii_phash item,
      qr_phash_algo = ii_phash_algo item, qr_blur_score = ii_blur_score item, qr_blur_algo = ii_blur_algo item,
      qr_quality_flags = ii_quality_flags item, qr_source_class = ii_source_class item, qr_match_source = match_kind,
      qr_tile_algo = ii_tile_algo item, qr_embedding_model = None, qr_local_algo = None,
      qr_matched_tile_count = ii_matched_tile_count item, qr_local_inliers = None\<rparr>"

section \<open>The buffer of results\<close>

definition match_kind_priority :: "str \<Rightarrow> nat" where
  "match_kind_priority kind =
     (if kind = ascii ''exact'' then 4
      else if kind \<in> {ascii ''same_sscd'', ascii ''copy_sscd''} then 3
      else if kind = ascii ''near_hash'' then 2
      else if kind = ascii ''tile_hash'' then 2
      else if kind = ascii ''semantic_clip'' then 1
      else 0)"

definition query_result_sort_cmp :: "query_result \<Rightarrow> query_result \<Rightarrow> ordering" where
  "query_result_sort_cmp a b =
     then_with (cmp (match_kind_priority (qr_match_kind b)) (match_kind_priority (qr_match_kind a)))
       (then_with (cmp_or_equal (qr_score b) (qr_score a)) (cmp (qr_path a) (qr_path b)))"

definition query_result_better :: "query_result \<Rightarrow> query_result \<Rightarrow> bool" where
  "query_result_better a b = (query_result_sort_cmp a b = Less)"

definition result_buffer_excludes_kind :: "query_result list \<Rightarrow> nat \<Rightarrow> str \<Rightarrow> bool" where
  "result_buffer_excludes_kind results limit match_kind =
     (length results \<ge> limit \<and> results \<noteq> []
      \<and> match_kind_priority (qr_match_kind (last results)) > match_kind_priority match_kind)"

text \<open>Replace the first entry of the same path, if the candidate is stronger.\<close>

definition remove_at :: "nat \<Rightarrow> 'a list \<Rightarrow> 'a list" where
  "remove_at i xs = take i xs @ drop (i + 1) xs"

definition push_candidate :: "query_result list \<Rightarrow> query_result \<Rightarrow> nat \<Rightarrow> query_result list" where
  "push_candidate out c limit =
     (if limit = 0 then out
      else if length out \<ge> limit \<and> out \<noteq> [] \<and> \<not> query_result_better c (last out) then out
      else case find_index (\<lambda>e. qr_path e = qr_path c) out of
          Some i \<Rightarrow>
            (let new_priority = match_kind_priority (qr_match_kind c);
                 existing_priority = match_kind_priority (qr_match_kind (out ! i)) in
             if new_priority > existing_priority
               \<or> new_priority = existing_priority \<and> f64_less (qr_score (out ! i)) (qr_score c)
             then insert_before query_result_better c (remove_at i out) else out)
        | None \<Rightarrow> insert_before query_result_better c (if length out \<ge> limit then butlast out else out))"

definition push_result :: "search_env \<Rightarrow> query_result list \<Rightarrow> str \<Rightarrow> f64 \<Rightarrow> nat option \<Rightarrow> indexed_image \<Rightarrow> nat \<Rightarrow> query_result list" where
  "push_result env out match_kind score distance item limit =
     push_candidate out (query_result_from_item env match_kind score distance item) limit"

section \<open>Exact matches and hashes\<close>

definition exact_matches :: "str \<Rightarrow> nat \<Rightarrow> manifest \<Rightarrow> indexed_image list" where
  "exact_matches sha256 limit m =
     map image_from_row (take (normalize_query_limit limit)
       (sort_by (\<lambda>a b. cmp (as_path a) (as_path b)) (filter (\<lambda>a. as_stale a = 0 \<and> as_sha256 a = sha256) (mf_assets m))))"

text \<open>\<open>u64::from_str_radix(.., 16)\<close>: one leading plus sign, no overflow.\<close>

fun radix16_below :: "nat \<Rightarrow> nat \<Rightarrow> str \<Rightarrow> nat option" where
  "radix16_below limit acc [] = Some acc"
| "radix16_below limit acc (c # s) = (case hex_digit_value c of
     None \<Rightarrow> None
   | Some d \<Rightarrow> if acc * 16 + d < limit then radix16_below limit (acc * 16 + d) s else None)"

definition u64_from_str_radix16 :: "str \<Rightarrow> u64 option" where
  "u64_from_str_radix16 s =
     (case s of
        [] \<Rightarrow> None
      | c # r \<Rightarrow> map_option word_of_nat (radix16_below (2 ^ 64) 0 (if c = 43 \<and> r \<noteq> [] then r else s)))"

definition count_ones :: "u64 \<Rightarrow> nat" where
  "count_ones w = length (filter (bit w) [0..<64])"

type_synonym near_match = "indexed_image \<times> nat"

definition near_hash_candidate_better :: "search_env \<Rightarrow> near_match \<Rightarrow> near_match \<Rightarrow> bool" where
  "near_hash_candidate_better env a b =
     (snd a < snd b \<or> snd a = snd b \<and> path_cmp env (ii_path (fst a)) (ii_path (fst b)) = Less)"

definition push_top_near_hash :: "search_env \<Rightarrow> near_match list \<Rightarrow> near_match \<Rightarrow> nat \<Rightarrow> near_match list" where
  "push_top_near_hash env out c limit =
     (if limit = 0 then out
      else if length out \<ge> limit \<and> out \<noteq> [] \<and> \<not> near_hash_candidate_better env c (last out) then out
      else insert_before (near_hash_candidate_better env) c (if length out \<ge> limit then butlast out else out))"

definition near_hash_row :: "search_env \<Rightarrow> u64 \<Rightarrow> nat \<Rightarrow> nat \<Rightarrow> near_match list \<Rightarrow> asset_row \<Rightarrow> near_match list" where
  "near_hash_row env query threshold limit out a =
     (case Option.bind (as_phash a) u64_from_str_radix16 of
        None \<Rightarrow> out
      | Some item_hash \<Rightarrow>
          let distance = count_ones (xor query item_hash) in
          if distance > threshold then out
          else if out \<noteq> [] \<and> length out \<ge> limit \<and> distance > snd (last out) then out
          else push_top_near_hash env out (image_from_row a, distance) limit)"

definition near_hash_cmp :: "search_env \<Rightarrow> near_match \<Rightarrow> near_match \<Rightarrow> ordering" where
  "near_hash_cmp env a b = then_with (cmp (snd a) (snd b)) (path_cmp env (ii_path (fst a)) (ii_path (fst b)))"

definition near_hash_matches :: "search_env \<Rightarrow> str \<Rightarrow> str \<Rightarrow> nat \<Rightarrow> nat \<Rightarrow> manifest \<Rightarrow> (search_error, near_match list) outcome" where
  "near_hash_matches env phash phash_algo threshold limit m =
     (case u64_from_str_radix16 phash of
        None \<Rightarrow> Err Bad_Phash
      | Some query \<Rightarrow>
          let rows = filter (\<lambda>a. as_stale a = 0 \<and> as_phash_algo a = phash_algo \<and> as_phash a \<noteq> None \<and> as_phash a \<noteq> Some []) (mf_assets m)
          in Ok (sort_by (near_hash_cmp env) (foldl (near_hash_row env query threshold (normalize_query_limit limit)) [] rows)))"

section \<open>Tiles\<close>

type_synonym tile_groups = "(str \<times> indexed_image \<times> nat \<times> nat) list"

fun add_tile_match :: "str \<Rightarrow> indexed_image \<Rightarrow> nat \<Rightarrow> tile_groups \<Rightarrow> tile_groups" where
  "add_tile_match key item distance [] = [(key, item, distance, 1)]"
| "add_tile_match key item distance ((k, i, best, n) # gs) =
     (if k = key then (k, i, min best distance, n + 1) # gs else (k, i, best, n) # add_tile_match key item distance gs)"

definition tile_row :: "u64 list \<Rightarrow> nat \<Rightarrow> tile_hash \<times> asset_row \<Rightarrow> tile_groups \<Rightarrow> tile_groups" where
  "tile_row query_hashes threshold = (\<lambda>(t, a) groups.
     case u64_from_str_radix16 (th_hash t) of
       None \<Rightarrow> groups
     | Some tile_hash \<Rightarrow>
         let distance = Min (set (map (\<lambda>q. count_ones (xor q tile_hash)) query_hashes)) in
         if distance > threshold then groups
         else add_tile_match (as_path a) ((image_from_row a)\<lparr>ii_tile_algo := Some (th_algo t)\<rparr>) distance groups)"

text \<open>Less tiles come first in \<open>cmp\<close>, so the operands are swapped; \<open>None\<close> is the least.\<close>

definition tile_cmp :: "search_env \<Rightarrow> near_match \<Rightarrow> near_match \<Rightarrow> ordering" where
  "tile_cmp env a b =
     then_with (cmp (snd a) (snd b))
       (then_with (cmp (case ii_matched_tile_count (fst b) of None \<Rightarrow> 0 | Some n \<Rightarrow> n + 1)
                       (case ii_matched_tile_count (fst a) of None \<Rightarrow> 0 | Some n \<Rightarrow> n + 1))
         (path_cmp env (ii_path (fst a)) (ii_path (fst b))))"

definition query_tile_hashes :: "tile_hash list \<Rightarrow> u64 list" where
  "query_tile_hashes tiles =
     List.map_filter (\<lambda>t. if th_algo t = tile_algo_v1 then u64_from_str_radix16 (th_hash t) else None) tiles"

definition tile_join :: "manifest \<Rightarrow> (tile_hash \<times> asset_row) list" where
  "tile_join m = [(t, a). (asset_id, t) \<leftarrow> mf_tiles m, a \<leftarrow> mf_assets m,
     as_id a = asset_id \<and> as_stale a = 0 \<and> th_algo t = tile_algo_v1 \<and> th_hash t \<noteq> []]"

definition tile_hash_matches :: "search_env \<Rightarrow> tile_hash list \<Rightarrow> nat \<Rightarrow> nat \<Rightarrow> manifest \<Rightarrow> near_match list" where
  "tile_hash_matches env query_tiles threshold limit m =
     (let query_hashes = query_tile_hashes query_tiles in
      if query_hashes = [] then []
      else
        let groups = fold (tile_row query_hashes threshold) (tile_join m) [] in
        take (normalize_query_limit limit)
          (sort_by (tile_cmp env)
            (map (\<lambda>(_, item, distance, matched). (item\<lparr>ii_matched_tile_count := Some matched\<rparr>, distance)) (se_hash_order env groups))))"

section \<open>Vectors\<close>

datatype query_strategy = Exact_Strategy | Fast_Strategy

type_synonym semantic_match = "indexed_image \<times> f64"

definition semantic_candidate_better :: "search_env \<Rightarrow> semantic_match \<Rightarrow> semantic_match \<Rightarrow> bool" where
  "semantic_candidate_better env a b =
     (case cmp_or_equal (snd a) (snd b) of
        Greater \<Rightarrow> True
      | Less \<Rightarrow> False
      | Equal \<Rightarrow> path_cmp env (ii_path (fst a)) (ii_path (fst b)) = Less)"

definition semantic_score_can_enter :: "semantic_match list \<Rightarrow> f64 \<Rightarrow> nat \<Rightarrow> bool" where
  "semantic_score_can_enter out score limit =
     (length out < limit \<or> out = [] \<or> f64_partial_cmp score (snd (last out)) \<noteq> Some Less)"

definition push_top_semantic :: "search_env \<Rightarrow> semantic_match list \<Rightarrow> semantic_match \<Rightarrow> nat \<Rightarrow> semantic_match list" where
  "push_top_semantic env out c limit =
     (if limit = 0 then out
      else if length out \<ge> limit \<and> out \<noteq> [] \<and> \<not> semantic_candidate_better env c (last out) then out
      else case find_index (\<lambda>e. path_cmp env (ii_path (fst e)) (ii_path (fst c)) = Equal) out of
          Some i \<Rightarrow>
            (if semantic_candidate_better env c (out ! i)
             then insert_before (semantic_candidate_better env) c (remove_at i out) else out)
        | None \<Rightarrow> insert_before (semantic_candidate_better env) c (if length out \<ge> limit then butlast out else out))"

definition path_only :: "str \<Rightarrow> indexed_image" where
  "path_only path =
     \<lparr>ii_path = path, ii_sha256 = [], ii_phash = None, ii_phash_algo = None, ii_width = None, ii_height = None, ii_blur_score = None,
      ii_blur_algo = None, ii_quality_flags = [], ii_source_class = [], ii_tile_algo = None, ii_matched_tile_count = None\<rparr>"

definition row_score :: "vector \<Rightarrow> embedding_row \<Rightarrow> f64 option" where
  "row_score query e = (case em_vec e of Blob b \<Rightarrow> dot_f32_blob query b | Not_Blob \<Rightarrow> None)"

definition collect_semantic_row :: "search_env \<Rightarrow> vector \<Rightarrow> nat \<Rightarrow> semantic_match list \<Rightarrow> embedding_row \<Rightarrow> semantic_match list" where
  "collect_semantic_row env query limit out e =
     (case row_score query e of
        None \<Rightarrow> out
      | Some score \<Rightarrow>
          if \<not> semantic_score_can_enter out score limit then out
          else push_top_semantic env out (path_only (em_path e), score) limit)"

definition collect_semantic_rows :: "search_env \<Rightarrow> vector \<Rightarrow> nat \<Rightarrow> embedding_row list \<Rightarrow> semantic_match list" where
  "collect_semantic_rows env query limit rows = foldl (collect_semantic_row env query limit) [] rows"

definition hydrate_semantic_scan :: "manifest \<Rightarrow> semantic_match list \<Rightarrow> semantic_match list" where
  "hydrate_semantic_scan m scan =
     List.map_filter (\<lambda>(item, score).
       map_option (\<lambda>a. (image_from_row a, score)) (find (\<lambda>a. as_path a = ii_path item \<and> as_stale a = 0) (mf_assets m))) scan"

definition semantic_cmp :: "search_env \<Rightarrow> semantic_match \<Rightarrow> semantic_match \<Rightarrow> ordering" where
  "semantic_cmp env a b = then_with (cmp_or_equal (snd b) (snd a)) (path_cmp env (ii_path (fst a)) (ii_path (fst b)))"

definition sort_semantic_results :: "search_env \<Rightarrow> semantic_match list \<Rightarrow> semantic_match list" where
  "sort_semantic_results env results = sort_by (semantic_cmp env) results"

definition model_rows :: "str \<Rightarrow> str \<Rightarrow> vector \<Rightarrow> manifest \<Rightarrow> embedding_row list" where
  "model_rows kind model query m =
     filter (\<lambda>e. em_kind e = kind \<and> (em_model e = model \<or> is_legacy_model model (em_model e)) \<and> em_dim e = int (length query))
       (mf_embeddings m)"

definition semantic_full_scan :: "search_env \<Rightarrow> str \<Rightarrow> str \<Rightarrow> vector \<Rightarrow> nat \<Rightarrow> manifest \<Rightarrow> semantic_match list" where
  "semantic_full_scan env kind model query limit m =
     sort_semantic_results env (hydrate_semantic_scan m (collect_semantic_rows env query limit (model_rows kind model query m)))"

definition semantic_bucket_shortlist :: "search_env \<Rightarrow> str \<Rightarrow> str \<Rightarrow> vector \<Rightarrow> nat \<Rightarrow> manifest \<Rightarrow> semantic_match list" where
  "semantic_bucket_shortlist env kind model query limit m =
     (let bucket = int (unat (vector_bucket12 (vector_sketch64 query)));
          rows = take (max 8192 limit)
            (filter (\<lambda>e. em_bucket e = Some bucket \<and> em_sketch e \<noteq> []) (model_rows kind model query m))
      in hydrate_semantic_scan m (collect_semantic_rows env query limit rows))"

definition semantic_matches :: "search_env \<Rightarrow> str \<Rightarrow> str \<Rightarrow> vector \<Rightarrow> query_strategy \<Rightarrow> nat \<Rightarrow> manifest \<Rightarrow> semantic_match list" where
  "semantic_matches env kind model query strategy limit m =
     (let limit = normalize_query_limit limit in
      case strategy of
        Exact_Strategy \<Rightarrow> semantic_full_scan env kind model query limit m
      | Fast_Strategy \<Rightarrow> sort_semantic_results env (semantic_bucket_shortlist env kind model query limit m))"

definition sscd_same_image_threshold :: f64 where
  "sscd_same_image_threshold = f64_nearest (98 / 100)"

definition sscd_match_kind :: "f64 \<Rightarrow> str" where
  "sscd_match_kind score =
     (if f64_at_least score sscd_same_image_threshold then ascii ''same_sscd'' else ascii ''copy_sscd'')"

section \<open>The query\<close>

datatype query_mode = Exact | Near | Patch | Screenshot | Strict | Recall | Copy | Semantic | All_Modes

definition wants_exact :: "query_mode \<Rightarrow> bool" where
  "wants_exact mode = (mode \<in> {Exact, Strict, Recall, All_Modes})"

definition wants_near :: "query_mode \<Rightarrow> bool" where
  "wants_near mode = (mode \<in> {Near, Strict, Recall, All_Modes})"

definition wants_tile :: "query_mode \<Rightarrow> bool" where
  "wants_tile mode = (mode \<in> {Near, Patch, Screenshot, Recall, All_Modes})"

definition wants_copy :: "query_mode \<Rightarrow> bool" where
  "wants_copy mode = (mode \<in> {Copy, Screenshot, Recall, All_Modes})"

definition wants_semantic :: "query_mode \<Rightarrow> bool" where
  "wants_semantic mode = (mode \<in> {Semantic, Screenshot, Recall, All_Modes})"

text \<open>Stored embeddings of a path, the newest first; the length of the blob is compared with four times the dimension,
  a product that can overflow.\<close>

fun first_embedding :: "embedding_row list \<Rightarrow> (search_error, (str \<times> vector) option) outcome" where
  "first_embedding [] = Ok None"
| "first_embedding (e # es) =
     (case em_vec e of
        Not_Blob \<Rightarrow> Err Wrong_Column
      | Blob b \<Rightarrow>
          if em_dim e \<le> 0 then first_embedding es
          else and_then (or_panic (umul (nat (em_dim e)) 4)) (\<lambda>n.
            if length b \<noteq> n then first_embedding es else Ok (Some (em_model e, decode_f32_vec b))))"

definition indexed_embedding :: "str \<Rightarrow> str \<Rightarrow> manifest \<Rightarrow> (search_error, (str \<times> vector) option) outcome" where
  "indexed_embedding path kind m =
     first_embedding (sort_by (\<lambda>a b. then_with (cmp (em_updated_at b) (em_updated_at a)) (cmp (em_model a) (em_model b)))
       (filter (\<lambda>e. em_path e = path \<and> em_kind e = kind) (mf_embeddings m)))"

definition indexed_tile_hashes :: "int \<Rightarrow> manifest \<Rightarrow> tile_hash list" where
  "indexed_tile_hashes asset_id m =
     sort_by (\<lambda>a b. then_with (cmp (th_algo a) (th_algo b)) (then_with (cmp (th_set a) (th_set b)) (cmp (th_index a) (th_index b))))
       (map snd (filter (\<lambda>t. fst t = asset_id) (mf_tiles m)))"

record query_report =
  rp_account :: str
  rp_mode :: str
  rp_strategy :: str
  rp_path :: str
  rp_sha256 :: str
  rp_phash :: str
  rp_phash_algo :: str
  rp_width :: u32
  rp_height :: u32
  rp_results :: "query_result list"
  rp_unavailable :: "(str \<times> str) list"

type_synonym layer_state = "query_result list \<times> (str \<times> str) list"

definition f64_min :: "f64 \<Rightarrow> f64 \<Rightarrow> f64" where
  "f64_min a b = (if a = Nan then b else if b = Nan then a else if f64_less b a then b else a)"

definition hash_score :: "nat \<Rightarrow> f64" where
  "hash_score distance = f64_sub (Finite 1) (f64_div (f64_of_int (int distance)) 64)"

definition tile_score :: "near_match \<Rightarrow> f64" where
  "tile_score = (\<lambda>(item, distance).
     f64_add (hash_score distance)
       (f64_mul (f64_min (f64_of_int (int (case ii_matched_tile_count item of Some n \<Rightarrow> n | None \<Rightarrow> 1))) (Finite 8))
         (f64_nearest (1 / 100))))"

text \<open>The five layers. A layer that has no data of the picture reports what is missing.\<close>

definition exact_layer :: "search_env \<Rightarrow> indexed_image \<Rightarrow> nat \<Rightarrow> manifest \<Rightarrow> layer_state \<Rightarrow> layer_state" where
  "exact_layer env indexed limit m = (\<lambda>(results, unavailable).
     (foldl (\<lambda>out item. push_result env out (ascii ''exact'') (Finite 1) None item limit) results
        (exact_matches (ii_sha256 indexed) limit m), unavailable))"

definition copy_layer :: "search_env \<Rightarrow> indexed_image \<Rightarrow> query_strategy \<Rightarrow> nat \<Rightarrow> manifest \<Rightarrow> layer_state \<Rightarrow> (search_error, layer_state) outcome" where
  "copy_layer env indexed strategy limit m = (\<lambda>(results, unavailable).
     map_ok (\<lambda>found. case found of
         Some (model, vector) \<Rightarrow>
           (foldl (\<lambda>out (item, score). push_result env out (sscd_match_kind score) score None item limit) results
              (semantic_matches env (ascii ''sscd'') model vector strategy (expanded_query_limit limit) m), unavailable)
       | None \<Rightarrow> (results, unavailable @ [(ascii ''copy_descriptor:sscd_vec'', [0x8BE5, 0x7D22, 0x5F15, 0x56FE, 0x7247, 0x6CA1, 0x6709, 0x53EF, 0x7528, 0x7684, 0x20, 0x53, 0x53, 0x43, 0x44, 0x20, 0x5411, 0x91CF])]))
       (indexed_embedding (ii_path indexed) (ascii ''sscd'') m))"

definition near_layer :: "search_env \<Rightarrow> indexed_image \<Rightarrow> nat \<Rightarrow> manifest \<Rightarrow> layer_state \<Rightarrow> (search_error, layer_state) outcome" where
  "near_layer env indexed limit m = (\<lambda>(results, unavailable).
     let phash = (case ii_phash indexed of Some s \<Rightarrow> s | None \<Rightarrow> []);
         algo = (case ii_phash_algo indexed of Some s \<Rightarrow> s | None \<Rightarrow> []) in
     if str_len phash = 16 \<and> algo \<noteq> [] then
       map_ok (\<lambda>found.
           (foldl (\<lambda>out (item, distance). push_result env out (ascii ''near_hash'') (hash_score distance) (Some distance) item limit)
              results found, unavailable))
         (near_hash_matches env phash algo 10 (expanded_query_limit limit) m)
     else Ok (results, unavailable @ [(ascii ''pixel_fingerprint:phash'', [0x8BE5, 0x7D22, 0x5F15, 0x56FE, 0x7247, 0x6CA1, 0x6709, 0x53EF, 0x7528, 0x7684, 0x20, 0x70, 0x48, 0x61, 0x73, 0x68])]))"

definition tile_layer :: "search_env \<Rightarrow> int \<Rightarrow> query_mode \<Rightarrow> nat \<Rightarrow> manifest \<Rightarrow> layer_state \<Rightarrow> layer_state" where
  "tile_layer env asset_id mode limit m = (\<lambda>(results, unavailable).
     let query_tiles = indexed_tile_hashes asset_id m in
     if query_tiles = [] then
       (results, unavailable @ [(ascii ''pixel_fingerprint:tile_hash'', [0x8BE5, 0x7D22, 0x5F15, 0x56FE, 0x7247, 0x6CA1, 0x6709, 0x53EF, 0x7528, 0x7684, 0x5C40, 0x90E8, 0x7ED3, 0x6784, 0x6307, 0x7EB9])])
     else
       (foldl (\<lambda>out (item, distance). push_result env out (ascii ''tile_hash'') (tile_score (item, distance)) (Some distance) item limit)
          results (tile_hash_matches env query_tiles (if mode = Strict then 6 else 8) (expanded_query_limit limit) m), unavailable))"

definition semantic_layer :: "search_env \<Rightarrow> indexed_image \<Rightarrow> query_strategy \<Rightarrow> nat \<Rightarrow> manifest \<Rightarrow> layer_state \<Rightarrow> (search_error, layer_state) outcome" where
  "semantic_layer env indexed strategy limit m = (\<lambda>(results, unavailable).
     map_ok (\<lambda>found. case found of
         Some (model, vector) \<Rightarrow>
           (foldl (\<lambda>out (item, score). push_result env out (ascii ''semantic_clip'') score None item limit) results
              (semantic_matches env (ascii ''clip'') model vector strategy (expanded_query_limit limit) m), unavailable)
       | None \<Rightarrow> (results, unavailable @ [(ascii ''semantic_descriptor:clip_vec'', [0x8BE5, 0x7D22, 0x5F15, 0x56FE, 0x7247, 0x6CA1, 0x6709, 0x53EF, 0x7528, 0x7684, 0x20, 0x43, 0x4C, 0x49, 0x50, 0x20, 0x5411, 0x91CF])]))
       (indexed_embedding (ii_path indexed) (ascii ''clip'') m))"

text \<open>\<open>format!("{mode:?}").to_ascii_lowercase()\<close>.\<close>

definition mode_text :: "query_mode \<Rightarrow> str" where
  "mode_text mode = ascii (case mode of Exact \<Rightarrow> ''exact'' | Near \<Rightarrow> ''near'' | Patch \<Rightarrow> ''patch'' | Screenshot \<Rightarrow> ''screenshot''
     | Strict \<Rightarrow> ''strict'' | Recall \<Rightarrow> ''recall'' | Copy \<Rightarrow> ''copy'' | Semantic \<Rightarrow> ''semantic'' | All_Modes \<Rightarrow> ''all'')"

definition strategy_text :: "query_strategy \<Rightarrow> str" where
  "strategy_text strategy = ascii (case strategy of Exact_Strategy \<Rightarrow> ''exact'' | Fast_Strategy \<Rightarrow> ''fast'')"

text \<open>The words of a request; an unknown word is an error.\<close>

definition trimmed_lower :: "str \<Rightarrow> str" where
  "trimmed_lower s = to_ascii_lowercase (trim s)"

definition parse_query_mode :: "str \<Rightarrow> query_mode option" where
  "parse_query_mode value =
     (let s = trimmed_lower value in
      if s \<in> ascii ` {'''', ''all''} then Some All_Modes
      else if s = ascii ''exact'' then Some Exact
      else if s \<in> ascii ` {''near'', ''near-hash'', ''phash'', ''pdq''} then Some Near
      else if s \<in> ascii ` {''patch'', ''crop'', ''local''} then Some Patch
      else if s \<in> ascii ` {''screenshot'', ''screen''} then Some Screenshot
      else if s = ascii ''strict'' then Some Strict
      else if s = ascii ''recall'' then Some Recall
      else if s \<in> ascii ` {''copy'', ''sscd''} then Some Copy
      else if s \<in> ascii ` {''semantic'', ''clip''} then Some Semantic
      else None)"

definition parse_query_strategy :: "str \<Rightarrow> query_strategy option" where
  "parse_query_strategy value =
     (let s = trimmed_lower value in
      if s \<in> ascii ` {'''', ''exact'', ''full'', ''full-scan''} then Some Exact_Strategy
      else if s \<in> ascii ` {''fast'', ''bucket'', ''shortlist'', ''approx'', ''approximate''} then Some Fast_Strategy
      else None)"

text \<open>A layer is left out when the buffer is full of stronger kinds.\<close>

definition unless_excluded :: "bool \<Rightarrow> nat \<Rightarrow> str \<Rightarrow> (layer_state \<Rightarrow> (search_error, layer_state) outcome)
    \<Rightarrow> layer_state \<Rightarrow> (search_error, layer_state) outcome" where
  "unless_excluded wanted limit kind layer st =
     (if wanted \<and> \<not> result_buffer_excludes_kind (fst st) limit kind then layer st else Ok st)"

definition query_report_of :: "str \<Rightarrow> query_mode \<Rightarrow> query_strategy \<Rightarrow> indexed_image \<Rightarrow> nat \<Rightarrow> layer_state \<Rightarrow> query_report" where
  "query_report_of account mode strategy indexed limit = (\<lambda>(results, unavailable).
     \<lparr>rp_account = account, rp_mode = mode_text mode, rp_strategy = strategy_text strategy, rp_path = ii_path indexed, rp_sha256 = ii_sha256 indexed,
      rp_phash = (case ii_phash indexed of Some s \<Rightarrow> s | None \<Rightarrow> []),
      rp_phash_algo = (case ii_phash_algo indexed of Some s \<Rightarrow> s | None \<Rightarrow> []),
      rp_width = (case ii_width indexed of Some w \<Rightarrow> w | None \<Rightarrow> 0), rp_height = (case ii_height indexed of Some h \<Rightarrow> h | None \<Rightarrow> 0),
      rp_results = take limit (sort_by query_result_sort_cmp results), rp_unavailable = unavailable\<rparr>)"

definition query_indexed_asset :: "search_env \<Rightarrow> str \<Rightarrow> int \<Rightarrow> query_mode \<Rightarrow> query_strategy \<Rightarrow> nat \<Rightarrow> manifest \<Rightarrow> (search_error, query_report) outcome" where
  "query_indexed_asset env account asset_id mode strategy limit m =
     (case find (\<lambda>a. as_id a = asset_id \<and> as_stale a = 0) (mf_assets m) of
        None \<Rightarrow> Err Asset_Not_Found
      | Some row \<Rightarrow>
          let indexed = image_from_row row; limit = normalize_query_limit limit;
              start = (if wants_exact mode \<and> ii_sha256 indexed \<noteq> [] then exact_layer env indexed limit m ([], []) else ([], []))
          in and_then (unless_excluded (wants_copy mode) limit (ascii ''copy_sscd'') (copy_layer env indexed strategy limit m) start) (\<lambda>st.
             and_then (unless_excluded (wants_near mode) limit (ascii ''near_hash'') (near_layer env indexed limit m) st) (\<lambda>st.
             and_then (unless_excluded (wants_tile mode) limit (ascii ''tile_hash'') (\<lambda>st. Ok (tile_layer env asset_id mode limit m st)) st) (\<lambda>st.
             map_ok (query_report_of account mode strategy indexed limit)
               (unless_excluded (wants_semantic mode) limit (ascii ''semantic_clip'') (semantic_layer env indexed strategy limit m) st)))))"

text \<open>The same picture, by the copy descriptor.\<close>

fun dedup_adjacent :: "int list \<Rightarrow> int list" where
  "dedup_adjacent (a # b # xs) = (if a = b then dedup_adjacent (b # xs) else a # dedup_adjacent (b # xs))"
| "dedup_adjacent xs = xs"

definition same_image_asset_ids :: "search_env \<Rightarrow> str \<Rightarrow> int \<Rightarrow> manifest \<Rightarrow> (search_error, int list) outcome" where
  "same_image_asset_ids env account asset_id m =
     map_ok (\<lambda>report.
         dedup_adjacent (sort (asset_id # List.map_filter (\<lambda>r.
           if f64_less (qr_score r) sscd_same_image_threshold then None
           else map_option as_id (find (\<lambda>a. as_path a = qr_path r \<and> as_stale a = 0) (mf_assets m))) (rp_results report))))
       (query_indexed_asset env account asset_id Copy Fast_Strategy max_query_results m)"

end
