(* ===== verification/Image_Search_Facts.thy ===== *)
theory Image_Search_Facts imports Image_Search "HOL-Library.Code_Target_Numeral" begin

text \<open>
  What the search of the image index returns: the bounded buffers hold the best candidates, leaving out a
  layer does not change the report, a scan of all vectors gives the best matches.
\<close>

section \<open>The buffers are bounded rankings\<close>

definition score_rank :: "f64 \<Rightarrow> int \<times> rat" where
  "score_rank x = (- fst (f64_rank x), - snd (f64_rank x))"

lemma score_rank_less: "a \<noteq> Nan \<Longrightarrow> b \<noteq> Nan \<Longrightarrow> cmp_or_equal b a = Less \<longleftrightarrow> score_rank a < score_rank b"
  by (auto simp: f64_less_iff rank_less_def score_rank_def less_prod_def)

lemma score_rank_inject: "a \<noteq> Nan \<Longrightarrow> b \<noteq> Nan \<Longrightarrow> score_rank a = score_rank b \<longleftrightarrow> a = b"
  by (cases a; cases b) (auto simp: score_rank_def f64_rank_def)

lemma score_rank_le: "a \<noteq> Nan \<Longrightarrow> b \<noteq> Nan \<Longrightarrow> score_rank a \<le> score_rank b \<longleftrightarrow> cmp_or_equal b a = Less \<or> a = b"
  by (metis order.order_iff_strict score_rank_inject score_rank_less)

lemma cmp_Less_asym: "cmp_or_equal a b = Less \<Longrightarrow> cmp_or_equal b a \<noteq> Less"
  by (simp add: f64_cmp_swap)

definition result_rank :: "query_result \<Rightarrow> int \<times> (int \<times> rat) \<times> str" where
  "result_rank r = (- int (match_kind_priority (qr_match_kind r)), score_rank (qr_score r), qr_path r)"

definition scored :: "query_result \<Rightarrow> bool" where
  "scored r = (qr_score r \<noteq> Nan)"

lemma query_result_better_rank: "scored a \<Longrightarrow> scored b \<Longrightarrow> query_result_better a b \<longleftrightarrow> result_rank a < result_rank b"
  by (auto simp: query_result_better_def query_result_sort_cmp_def result_rank_def scored_def less_prod_simp
      score_rank_less [symmetric] score_rank_le f64_cmp_Equal score_rank_inject)

lemma f64_less_iff_cmp: "f64_less a b \<longleftrightarrow> cmp_or_equal a b = Less"
  by (auto simp: f64_less_def cmp_or_equal_def split: option.splits)

lemma remove_at_only: "i < length out \<Longrightarrow> distinct (map key out) \<Longrightarrow> remove_at i out = filter (\<lambda>x. key x \<noteq> key (out ! i)) out"
  unfolding remove_at_def by (rule remove_only)

interpretation result_buffer: ranked_by qr_path query_result_better scored result_rank
  by unfold_locales (auto simp: query_result_better_rank result_rank_def)

lemma push_candidate_known:
  assumes "0 < k" "length out \<le> k" "length out = k \<longrightarrow> query_result_better c (last out)" "distinct (map qr_path out)"
    "e \<in> set out" "qr_path e = qr_path c"
  shows "push_candidate out c k =
    (if query_result_better c e then insert_before query_result_better c (filter (\<lambda>x. qr_path x \<noteq> qr_path c) out) else out)"
proof -
  obtain i where i: "find_index (\<lambda>x. qr_path x = qr_path c) out = Some i"
    using assms(5,6) find_index_None [of "\<lambda>x. qr_path x = qr_path c" out] by (cases "find_index (\<lambda>x. qr_path x = qr_path c) out") auto
  then have n: "i < length out" "qr_path (out ! i) = qr_path c" using find_index_Some by fastforce+
  then have e: "out ! i = e" using assms(4-6) by (metis distinct_map inj_onD nth_mem)
  have "query_result_better c e \<longleftrightarrow> match_kind_priority (qr_match_kind c) > match_kind_priority (qr_match_kind e)
      \<or> match_kind_priority (qr_match_kind c) = match_kind_priority (qr_match_kind e) \<and> f64_less (qr_score e) (qr_score c)"
    using assms(6) by (auto simp: query_result_better_def query_result_sort_cmp_def f64_less_iff_cmp)
  moreover have "remove_at i out = filter (\<lambda>x. qr_path x \<noteq> qr_path c) out"
    using remove_at_only [of i out qr_path] n assms(4) by simp
  ultimately show ?thesis using assms i e by (auto simp: push_candidate_def Let_def)
qed

interpretation result_buffer: dedup_buffer qr_path query_result_better scored push_candidate
proof unfold_locales
  show "push_candidate out c k = out" if "0 < k" "length out = k" "\<not> query_result_better c (last out)" for k out c
    using that by (auto simp: push_candidate_def)
  show "push_candidate out c k = insert_before query_result_better c (if length out = k then butlast out else out)"
    if "0 < k" "length out \<le> k" "length out = k \<longrightarrow> query_result_better c (last out)" "qr_path c \<notin> qr_path ` set out" for k out c
  proof -
    have "find_index (\<lambda>x. qr_path x = qr_path c) out = None" unfolding find_index_None using that(4) by (metis image_eqI)
    then show ?thesis using that by (auto simp: push_candidate_def)
  qed
qed (rule push_candidate_known)

text \<open>Near-hash and semantic matches are ranked by their distance or score, then by the components of the path.\<close>

definition image_key :: "search_env \<Rightarrow> indexed_image \<times> 'a \<Rightarrow> path_component list" where
  "image_key env x = se_components env (ii_path (fst x))"

definition near_rank :: "search_env \<Rightarrow> near_match \<Rightarrow> nat \<times> path_component list" where
  "near_rank env x = (snd x, image_key env x)"

lemma near_better_rank: "near_hash_candidate_better env a b \<longleftrightarrow> near_rank env a < near_rank env b"
  by (auto simp: near_hash_candidate_better_def near_rank_def image_key_def path_cmp_def less_prod_simp)

interpretation near_buffer: ranked_by "image_key env" "near_hash_candidate_better env" "\<lambda>_. True" "near_rank env" for env
  by unfold_locales (auto simp: near_better_rank near_rank_def)

interpretation near_buffer: bounded_buffer "image_key env" "near_hash_candidate_better env" "\<lambda>_. True" "push_top_near_hash env"
  for env
  by unfold_locales (auto simp: push_top_near_hash_def)

definition semantic_ok :: "semantic_match \<Rightarrow> bool" where
  "semantic_ok x = (snd x \<noteq> Nan)"

definition semantic_rank :: "search_env \<Rightarrow> semantic_match \<Rightarrow> (int \<times> rat) \<times> path_component list" where
  "semantic_rank env x = (score_rank (snd x), image_key env x)"

lemma semantic_better_rank:
  "semantic_ok a \<Longrightarrow> semantic_ok b \<Longrightarrow> semantic_candidate_better env a b \<longleftrightarrow> semantic_rank env a < semantic_rank env b"
  using f64_cmp_swap [of "snd b" "snd a"]
  by (auto simp: semantic_candidate_better_def semantic_ok_def semantic_rank_def image_key_def path_cmp_def less_prod_simp
      score_rank_less [symmetric] score_rank_le score_rank_inject f64_cmp_Equal dest: cmp_Less_asym split: ordering.splits)

interpretation semantic_buffer: ranked_by "image_key env" "semantic_candidate_better env" semantic_ok "semantic_rank env" for env
  by unfold_locales (auto simp: semantic_better_rank semantic_rank_def)

lemma push_top_semantic_known:
  assumes "0 < k" "length out \<le> k" "length out = k \<longrightarrow> semantic_candidate_better env c (last out)" "distinct (map (image_key env) out)"
    "e \<in> set out" "image_key env e = image_key env c"
  shows "push_top_semantic env out c k =
    (if semantic_candidate_better env c e
     then insert_before (semantic_candidate_better env) c (filter (\<lambda>x. image_key env x \<noteq> image_key env c) out) else out)"
proof -
  let ?same = "\<lambda>x. path_cmp env (ii_path (fst x)) (ii_path (fst c)) = Equal"
  have same: "?same x \<longleftrightarrow> image_key env x = image_key env c" for x :: semantic_match by (simp add: path_cmp_def image_key_def)
  obtain i where i: "find_index ?same out = Some i"
    using assms(5,6) find_index_None [of ?same out] same by (cases "find_index ?same out") auto
  then have n: "i < length out" "image_key env (out ! i) = image_key env c" using find_index_Some [OF i] same by auto
  then have e: "out ! i = e" using assms(4-6) by (metis distinct_map inj_onD nth_mem)
  have "remove_at i out = filter (\<lambda>x. image_key env x \<noteq> image_key env c) out"
    using remove_at_only [of i out "image_key env"] n assms(4) by simp
  then show ?thesis using assms i e by (auto simp: push_top_semantic_def)
qed

interpretation semantic_buffer: dedup_buffer "image_key env" "semantic_candidate_better env" semantic_ok "push_top_semantic env" for env
proof unfold_locales
  show "push_top_semantic env out c k = out" if "0 < k" "length out = k" "\<not> semantic_candidate_better env c (last out)" for k out c
    using that by (auto simp: push_top_semantic_def)
  show "push_top_semantic env out c k = insert_before (semantic_candidate_better env) c (if length out = k then butlast out else out)"
    if "0 < k" "length out \<le> k" "length out = k \<longrightarrow> semantic_candidate_better env c (last out)" "image_key env c \<notin> image_key env ` set out"
    for k out c
  proof -
    have "find_index (\<lambda>x. path_cmp env (ii_path (fst x)) (ii_path (fst c)) = Equal) out = None"
      unfolding find_index_None using that(4) by (metis cmp_simps(2) image_eqI image_key_def path_cmp_def)
    then show ?thesis using that by (auto simp: push_top_semantic_def)
  qed
qed (rule push_top_semantic_known)

section \<open>Layers\<close>

text \<open>A layer pushes its candidates and appends what it misses; what it finds does not depend on the buffer.\<close>

definition feed :: "nat \<Rightarrow> (search_error, query_result list \<times> (str \<times> str) list) outcome \<Rightarrow> layer_state \<Rightarrow> (search_error, layer_state) outcome" where
  "feed limit found st = map_ok (\<lambda>(cs, missing). (foldl (\<lambda>out c. push_candidate out c limit) (fst st) cs, snd st @ missing)) found"

definition semantic_candidates :: "search_env \<Rightarrow> (f64 \<Rightarrow> str) \<Rightarrow> semantic_match list \<Rightarrow> query_result list" where
  "semantic_candidates env kind = map (\<lambda>(item, score). query_result_from_item env (kind score) score None item)"

definition near_candidates :: "search_env \<Rightarrow> str \<Rightarrow> (near_match \<Rightarrow> f64) \<Rightarrow> near_match list \<Rightarrow> query_result list" where
  "near_candidates env kind score = map (\<lambda>(item, distance). query_result_from_item env kind (score (item, distance)) (Some distance) item)"

definition vector_found :: "search_env \<Rightarrow> str \<Rightarrow> (f64 \<Rightarrow> str) \<Rightarrow> str \<times> str \<Rightarrow> indexed_image \<Rightarrow> query_strategy \<Rightarrow> nat \<Rightarrow> manifest
    \<Rightarrow> (search_error, query_result list \<times> (str \<times> str) list) outcome" where
  "vector_found env kind match_kind signal indexed strategy limit m =
     map_ok (\<lambda>found. case found of
         Some (model, vector) \<Rightarrow>
           (semantic_candidates env match_kind (semantic_matches env kind model vector strategy (expanded_query_limit limit) m), [])
       | None \<Rightarrow> ([], [signal])) (indexed_embedding (ii_path indexed) kind m)"

definition copy_found :: "search_env \<Rightarrow> indexed_image \<Rightarrow> query_strategy \<Rightarrow> nat \<Rightarrow> manifest
    \<Rightarrow> (search_error, query_result list \<times> (str \<times> str) list) outcome" where
  "copy_found env = vector_found env (ascii ''sscd'') sscd_match_kind (ascii ''copy_descriptor:sscd_vec'', [0x8BE5, 0x7D22, 0x5F15, 0x56FE, 0x7247, 0x6CA1, 0x6709, 0x53EF, 0x7528, 0x7684, 0x20, 0x53, 0x53, 0x43, 0x44, 0x20, 0x5411, 0x91CF])"

definition semantic_found :: "search_env \<Rightarrow> indexed_image \<Rightarrow> query_strategy \<Rightarrow> nat \<Rightarrow> manifest
    \<Rightarrow> (search_error, query_result list \<times> (str \<times> str) list) outcome" where
  "semantic_found env = vector_found env (ascii ''clip'') (\<lambda>_. ascii ''semantic_clip'') (ascii ''semantic_descriptor:clip_vec'', [0x8BE5, 0x7D22, 0x5F15, 0x56FE, 0x7247, 0x6CA1, 0x6709, 0x53EF, 0x7528, 0x7684, 0x20, 0x43, 0x4C, 0x49, 0x50, 0x20, 0x5411, 0x91CF])"

definition near_found :: "search_env \<Rightarrow> indexed_image \<Rightarrow> nat \<Rightarrow> manifest \<Rightarrow> (search_error, query_result list \<times> (str \<times> str) list) outcome" where
  "near_found env indexed limit m =
     (let phash = (case ii_phash indexed of Some s \<Rightarrow> s | None \<Rightarrow> []);
          algo = (case ii_phash_algo indexed of Some s \<Rightarrow> s | None \<Rightarrow> []) in
      if str_len phash = 16 \<and> algo \<noteq> [] then
        map_ok (\<lambda>found. (near_candidates env (ascii ''near_hash'') (hash_score \<circ> snd) found, []))
          (near_hash_matches env phash algo 10 (expanded_query_limit limit) m)
      else Ok ([], [(ascii ''pixel_fingerprint:phash'', [0x8BE5, 0x7D22, 0x5F15, 0x56FE, 0x7247, 0x6CA1, 0x6709, 0x53EF, 0x7528, 0x7684, 0x20, 0x70, 0x48, 0x61, 0x73, 0x68])]))"

definition tile_found :: "search_env \<Rightarrow> int \<Rightarrow> query_mode \<Rightarrow> nat \<Rightarrow> manifest \<Rightarrow> (search_error, query_result list \<times> (str \<times> str) list) outcome" where
  "tile_found env asset_id mode limit m =
     (let query_tiles = indexed_tile_hashes asset_id m in
      if query_tiles = [] then Ok ([], [(ascii ''pixel_fingerprint:tile_hash'', [0x8BE5, 0x7D22, 0x5F15, 0x56FE, 0x7247, 0x6CA1, 0x6709, 0x53EF, 0x7528, 0x7684, 0x5C40, 0x90E8, 0x7ED3, 0x6784, 0x6307, 0x7EB9])])
      else Ok (near_candidates env (ascii ''tile_hash'') tile_score
                 (tile_hash_matches env query_tiles (if mode = Strict then 6 else 8) (expanded_query_limit limit) m), []))"

lemma foldl_push_semantic:
  "foldl (\<lambda>out (item, score). push_result env out (kind score) score None item limit) out found =
   foldl (\<lambda>out c. push_candidate out c limit) out (semantic_candidates env kind found)"
  by (induction found arbitrary: out) (auto simp: semantic_candidates_def push_result_def)

lemma foldl_push_constant:
  "foldl (\<lambda>out (item, score). push_result env out kind score None item limit) out found =
   foldl (\<lambda>out c. push_candidate out c limit) out (semantic_candidates env (\<lambda>_. kind) found)"
  by (rule foldl_push_semantic)

lemma foldl_push_near:
  "foldl (\<lambda>out (item, distance). push_result env out kind (score (item, distance)) (Some distance) item limit) out found =
   foldl (\<lambda>out c. push_candidate out c limit) out (near_candidates env kind score found)"
  by (induction found arbitrary: out) (auto simp: near_candidates_def push_result_def)

lemma map_ok_map_ok: "map_ok f (map_ok g x) = map_ok (f \<circ> g) x"
  by (cases x) auto

lemma copy_layer_feed: "copy_layer env indexed strategy limit m st = feed limit (copy_found env indexed strategy limit m) st"
  by (cases st) (auto simp: copy_layer_def copy_found_def vector_found_def feed_def map_ok_map_ok foldl_push_semantic
      intro!: arg_cong [where f = "\<lambda>f. map_ok f _"] split: option.splits)

lemma semantic_layer_feed: "semantic_layer env indexed strategy limit m st = feed limit (semantic_found env indexed strategy limit m) st"
  by (cases st) (auto simp: semantic_layer_def semantic_found_def vector_found_def feed_def map_ok_map_ok
      foldl_push_constant
      intro!: arg_cong [where f = "\<lambda>f. map_ok f _"] split: option.splits)

lemma near_layer_feed: "near_layer env indexed limit m st = feed limit (near_found env indexed limit m) st"
  using foldl_push_near [where score = "hash_score \<circ> snd"]
  by (cases st) (simp add: near_layer_def near_found_def feed_def Let_def map_ok_map_ok comp_def)

lemma tile_layer_feed: "Ok (tile_layer env asset_id mode limit m st) = feed limit (tile_found env asset_id mode limit m) st"
  by (cases st) (simp add: tile_layer_def tile_found_def feed_def Let_def foldl_push_near)

text \<open>A full buffer of stronger kinds does not change.\<close>

lemma excluded_push:
  assumes "result_buffer_excludes_kind out limit kind" "match_kind_priority (qr_match_kind c) \<le> match_kind_priority kind"
  shows "push_candidate out c limit = out"
proof -
  have "\<not> query_result_better c (last out)"
    using assms by (auto simp: result_buffer_excludes_kind_def query_result_better_def query_result_sort_cmp_def)
  then show ?thesis using assms(1) by (simp add: push_candidate_def result_buffer_excludes_kind_def)
qed

lemma excluded_pushes:
  assumes "result_buffer_excludes_kind out limit kind" "\<forall>c \<in> set cs. match_kind_priority (qr_match_kind c) \<le> match_kind_priority kind"
  shows "foldl (\<lambda>out c. push_candidate out c limit) out cs = out"
  using assms by (induction cs) (auto simp: excluded_push)

lemma unless_excluded_feed:
  assumes "found = Ok (cs, missing)" "\<forall>c \<in> set cs. match_kind_priority (qr_match_kind c) \<le> match_kind_priority kind"
  shows "\<exists>missing'. set missing' \<subseteq> set missing
     \<and> unless_excluded True limit kind (feed limit found) st
       = Ok (foldl (\<lambda>out c. push_candidate out c limit) (fst st) cs, snd st @ missing')"
proof (cases "result_buffer_excludes_kind (fst st) limit kind")
  case True
  then show ?thesis using excluded_pushes [OF True assms(2)]
    by (intro exI [of _ "[]"]) (simp add: unless_excluded_def)
next
  case False
  then show ?thesis by (intro exI [of _ missing]) (simp add: unless_excluded_def feed_def assms(1))
qed

lemma semantic_candidates_kind:
  "c \<in> set (semantic_candidates env kind found) \<Longrightarrow> \<exists>s. qr_match_kind c = kind s"
  by (auto simp: semantic_candidates_def query_result_from_item_def)

lemma near_candidates_kind: "c \<in> set (near_candidates env kind score found) \<Longrightarrow> qr_match_kind c = kind"
  by (auto simp: near_candidates_def query_result_from_item_def)

lemma sscd_priority: "match_kind_priority (sscd_match_kind s) = match_kind_priority (ascii ''copy_sscd'')"
  by (simp add: sscd_match_kind_def match_kind_priority_def ascii_def)

lemma copy_found_priority:
  "copy_found env indexed strategy limit m = Ok (cs, missing) \<Longrightarrow> c \<in> set cs
    \<Longrightarrow> match_kind_priority (qr_match_kind c) \<le> match_kind_priority (ascii ''copy_sscd'')"
  using sscd_priority
  by (auto simp: copy_found_def vector_found_def map_ok_def and_then_Ok_iff split: option.splits dest!: semantic_candidates_kind)

lemma semantic_found_priority:
  "semantic_found env indexed strategy limit m = Ok (cs, missing) \<Longrightarrow> c \<in> set cs
    \<Longrightarrow> match_kind_priority (qr_match_kind c) \<le> match_kind_priority (ascii ''semantic_clip'')"
  by (auto simp: semantic_found_def vector_found_def map_ok_def and_then_Ok_iff split: option.splits dest!: semantic_candidates_kind)

lemma near_found_priority:
  "near_found env indexed limit m = Ok (cs, missing) \<Longrightarrow> c \<in> set cs
    \<Longrightarrow> match_kind_priority (qr_match_kind c) \<le> match_kind_priority (ascii ''near_hash'')"
  by (auto simp: near_found_def Let_def map_ok_def and_then_Ok_iff split: if_splits dest!: near_candidates_kind)

lemma tile_found_priority:
  "tile_found env asset_id mode limit m = Ok (cs, missing) \<Longrightarrow> c \<in> set cs
    \<Longrightarrow> match_kind_priority (qr_match_kind c) \<le> match_kind_priority (ascii ''tile_hash'')"
  by (auto simp: tile_found_def Let_def split: if_splits dest!: near_candidates_kind)

text \<open>All candidates of a query: those of every layer the mode asks for.\<close>

definition found_if :: "bool \<Rightarrow> (search_error, query_result list \<times> (str \<times> str) list) outcome \<Rightarrow> (search_error, query_result list) outcome" where
  "found_if wanted found = (if wanted then map_ok fst found else Ok [])"

definition query_candidates :: "search_env \<Rightarrow> asset_row \<Rightarrow> query_mode \<Rightarrow> query_strategy \<Rightarrow> nat \<Rightarrow> manifest \<Rightarrow> (search_error, query_result list) outcome" where
  "query_candidates env row mode strategy limit m =
     (let indexed = image_from_row row;
          exact = (if wants_exact mode \<and> ii_sha256 indexed \<noteq> []
            then map (query_result_from_item env (ascii ''exact'') (Finite 1) None) (exact_matches (ii_sha256 indexed) limit m) else [])
      in and_then (found_if (wants_copy mode) (copy_found env indexed strategy limit m)) (\<lambda>copy.
         and_then (found_if (wants_near mode) (near_found env indexed limit m)) (\<lambda>near.
         and_then (found_if (wants_tile mode) (tile_found env (as_id row) mode limit m)) (\<lambda>tile.
         and_then (found_if (wants_semantic mode) (semantic_found env indexed strategy limit m)) (\<lambda>semantic.
           Ok (exact @ copy @ near @ tile @ semantic))))))"

lemma layer_step:
  assumes "found_if wanted found = Ok cs"
    "\<And>cs missing c. found = Ok (cs, missing) \<Longrightarrow> c \<in> set cs \<Longrightarrow> match_kind_priority (qr_match_kind c) \<le> match_kind_priority kind"
  shows "\<exists>missing. unless_excluded wanted limit kind (feed limit found) (out, missing0)
       = Ok (foldl (\<lambda>out c. push_candidate out c limit) out cs, missing)"
proof (cases wanted)
  case False
  then show ?thesis using assms(1) by (simp add: unless_excluded_def found_if_def)
next
  case True
  then obtain missing where "found = Ok (cs, missing)" using assms(1) by (cases found) (auto simp: found_if_def)
  then show ?thesis using unless_excluded_feed [of found cs missing kind limit "(out, missing0)"] assms(2) True by auto
qed

lemma exact_layer_push:
  "exact_layer env indexed limit m ([], []) =
   (foldl (\<lambda>out c. push_candidate out c limit) [] (map (query_result_from_item env (ascii ''exact'') (Finite 1) None)
      (exact_matches (ii_sha256 indexed) limit m)), [])"
  by (simp add: exact_layer_def push_result_def foldl_map)

lemma query_indexed_asset_pushes:
  assumes row: "find (\<lambda>a. as_id a = asset_id \<and> as_stale a = 0) (mf_assets m) = Some row"
    and cs: "query_candidates env row mode strategy (normalize_query_limit limit) m = Ok cs"
  shows "\<exists>missing. query_indexed_asset env account asset_id mode strategy limit m =
    Ok (query_report_of account mode strategy (image_from_row row) (normalize_query_limit limit)
          (foldl (\<lambda>out c. push_candidate out c (normalize_query_limit limit)) [] cs, missing))"
proof -
  define k where "k = normalize_query_limit limit"
  define indexed where "indexed = image_from_row row"
  let ?push = "foldl (\<lambda>out c. push_candidate out c k)"
  define exact where "exact = (if wants_exact mode \<and> ii_sha256 indexed \<noteq> []
      then map (query_result_from_item env (ascii ''exact'') (Finite 1) None) (exact_matches (ii_sha256 indexed) k m) else [])"
  have id: "as_id row = asset_id" using row by (auto simp: find_Some_iff)
  obtain copy near tile semantic where found:
    "found_if (wants_copy mode) (copy_found env indexed strategy k m) = Ok copy"
    "found_if (wants_near mode) (near_found env indexed k m) = Ok near"
    "found_if (wants_tile mode) (tile_found env asset_id mode k m) = Ok tile"
    "found_if (wants_semantic mode) (semantic_found env indexed strategy k m) = Ok semantic"
    and all: "cs = exact @ copy @ near @ tile @ semantic"
    using cs id unfolding query_candidates_def Let_def and_then_Ok_iff k_def [symmetric] indexed_def [symmetric] exact_def [symmetric]
    by auto
  have start: "(if wants_exact mode \<and> ii_sha256 indexed \<noteq> [] then exact_layer env indexed k m ([], []) else ([], [])) = (?push [] exact, [])"
    by (simp add: exact_def exact_layer_push)
  obtain m1 where 1:
    "unless_excluded (wants_copy mode) k (ascii ''copy_sscd'') (copy_layer env indexed strategy k m) (?push [] exact, [])
     = Ok (?push (?push [] exact) copy, m1)"
  proof -
    have "\<exists>missing. unless_excluded (wants_copy mode) k (ascii ''copy_sscd'') (copy_layer env indexed strategy k m) (?push [] exact, []) = Ok (?push (?push [] exact) copy, missing)"
      unfolding copy_layer_feed [abs_def] by (rule layer_step [OF found(1) copy_found_priority])
    then show thesis using that by blast
  qed
  obtain m2 where 2:
    "unless_excluded (wants_near mode) k (ascii ''near_hash'') (near_layer env indexed k m) (?push (?push [] exact) copy, m1)
     = Ok (?push (?push (?push [] exact) copy) near, m2)"
  proof -
    have "\<exists>missing. unless_excluded (wants_near mode) k (ascii ''near_hash'') (near_layer env indexed k m) (?push (?push [] exact) copy, m1) = Ok (?push (?push (?push [] exact) copy) near, missing)"
      unfolding near_layer_feed [abs_def] by (rule layer_step [OF found(2) near_found_priority])
    then show thesis using that by blast
  qed
  obtain m3 where 3:
    "unless_excluded (wants_tile mode) k (ascii ''tile_hash'') (\<lambda>st. Ok (tile_layer env asset_id mode k m st)) (?push (?push (?push [] exact) copy) near, m2)
     = Ok (?push (?push (?push (?push [] exact) copy) near) tile, m3)"
  proof -
    have "\<exists>missing. unless_excluded (wants_tile mode) k (ascii ''tile_hash'') (\<lambda>st. Ok (tile_layer env asset_id mode k m st)) (?push (?push (?push [] exact) copy) near, m2) = Ok (?push (?push (?push (?push [] exact) copy) near) tile, missing)"
      unfolding tile_layer_feed by (rule layer_step [OF found(3) tile_found_priority])
    then show thesis using that by blast
  qed
  obtain m4 where 4:
    "unless_excluded (wants_semantic mode) k (ascii ''semantic_clip'') (semantic_layer env indexed strategy k m)
       (?push (?push (?push (?push [] exact) copy) near) tile, m3)
     = Ok (?push (?push (?push (?push (?push [] exact) copy) near) tile) semantic, m4)"
  proof -
    have "\<exists>missing. unless_excluded (wants_semantic mode) k (ascii ''semantic_clip'') (semantic_layer env indexed strategy k m) (?push (?push (?push (?push [] exact) copy) near) tile, m3) = Ok (?push (?push (?push (?push (?push [] exact) copy) near) tile) semantic, missing)"
      unfolding semantic_layer_feed [abs_def] by (rule layer_step [OF found(4) semantic_found_priority])
    then show thesis using that by blast
  qed
  show ?thesis
    unfolding query_indexed_asset_def row option.case Let_def k_def [symmetric] indexed_def [symmetric] start 1 and_then.simps 2 3 4 map_ok_simps
    by (intro exI [of _ m4]) (simp add: all)
qed

lemma top_sorted: "sorted_wrt query_result_better out \<Longrightarrow> sort_by query_result_sort_cmp out = out"
  by (rule sort_by_sorted) (auto simp: query_result_better_def elim!: sorted_wrt_mono_rel [rotated])

lemma normalize_limit_pos: "0 < normalize_query_limit limit"
  by (simp add: normalize_query_limit_def max_query_results_def)

section \<open>Vectors and hashes\<close>

definition scan_candidates :: "vector \<Rightarrow> embedding_row list \<Rightarrow> semantic_match list" where
  "scan_candidates query rows = List.map_filter (\<lambda>e. map_option (Pair (path_only (em_path e))) (row_score query e)) rows"

lemma cannot_enter_push: "\<not> semantic_score_can_enter out score limit \<Longrightarrow> push_top_semantic env out (item, score) limit = out"
  by (auto simp: semantic_score_can_enter_def push_top_semantic_def semantic_candidate_better_def cmp_or_equal_def)

lemma collect_pushes:
  "foldl (collect_semantic_row env query limit) out rows =
   foldl (\<lambda>out c. push_top_semantic env out c limit) out (scan_candidates query rows)"
proof (induction rows arbitrary: out)
  case (Cons e rows)
  then show ?case
    by (cases "row_score query e") (auto simp: scan_candidates_def collect_semantic_row_def cannot_enter_push map_filter_simps)
qed (simp add: scan_candidates_def map_filter_simps)

lemma collect_semantic_top:
  assumes "0 < k" "\<forall>c \<in> set (scan_candidates query rows). semantic_ok c"
  shows "top_of (image_key env) (semantic_candidate_better env) k (set (scan_candidates query rows)) (collect_semantic_rows env query k rows)"
proof -
  have "top_of (image_key env) (semantic_candidate_better env) k {} []" by (simp add: top_of_def)
  from semantic_buffer.pushes_top [OF assms(1) this _ assms(2)] show ?thesis
    by (simp add: collect_semantic_rows_def collect_pushes)
qed

lemma better_semantic_cmp:
  assumes "semantic_candidate_better env a b" shows "semantic_cmp env a b = Less"
  using assms f64_cmp_swap [of "snd b" "snd a"]
  by (auto simp: semantic_candidate_better_def semantic_cmp_def split: ordering.splits)
    (metis f64_cmp_swap ordering.exhaust)

lemma ii_path_row [simp]: "ii_path (image_from_row a) = as_path a"
  by (simp add: image_from_row_def)

lemma ii_path_only [simp]: "ii_path (path_only p) = p"
  by (simp add: path_only_def)

lemma set_map_filter: "set (List.map_filter f xs) = {y. \<exists>x \<in> set xs. f x = Some y}"
  by (induction xs) (auto simp: map_filter_simps split: option.splits)

lemma hydrate_keeps:
  assumes "x \<in> set (hydrate_semantic_scan m scan)"
  shows "\<exists>y \<in> set scan. ii_path (fst x) = ii_path (fst y) \<and> snd x = snd y"
proof -
  obtain item score a where y: "(item, score) \<in> set scan" "x = (image_from_row a, score)"
      and a: "find (\<lambda>a. as_path a = ii_path item \<and> as_stale a = 0) (mf_assets m) = Some a"
    using assms by (auto simp: hydrate_semantic_scan_def set_map_filter)
  from a have "as_path a = ii_path item" by (auto simp: find_Some_iff)
  then show ?thesis using y by (intro bexI [of _ "(item, score)"]) simp_all
qed

lemma hydrate_sorted:
  assumes "sorted_wrt (semantic_candidate_better env) scan"
  shows "sorted_wrt (semantic_candidate_better env) (hydrate_semantic_scan m scan)"
  using assms
proof (induction scan)
  case (Cons x scan)
  obtain item score where x: "x = (item, score)" by (cases x)
  have rest: "hydrate_semantic_scan m (x # scan) =
      (case find (\<lambda>a. as_path a = ii_path item \<and> as_stale a = 0) (mf_assets m) of
         None \<Rightarrow> hydrate_semantic_scan m scan | Some a \<Rightarrow> (image_from_row a, score) # hydrate_semantic_scan m scan)"
    by (simp add: x hydrate_semantic_scan_def map_filter_simps split: option.splits)
  have "semantic_candidate_better env (image_from_row a, score) y"
    if a: "as_path a = ii_path item" and y: "y \<in> set (hydrate_semantic_scan m scan)" for a y
  proof -
    obtain z where z: "z \<in> set scan" "ii_path (fst y) = ii_path (fst z)" "snd y = snd z" using hydrate_keeps [OF y] by auto
    then have "semantic_candidate_better env x z" using Cons.prems by simp
    then show ?thesis using z a by (simp add: semantic_candidate_better_def x split: ordering.splits)
  qed
  then show ?case using Cons by (auto simp: rest find_Some_iff split: option.splits)
qed (simp add: hydrate_semantic_scan_def map_filter_simps)

lemma sort_hydrated:
  assumes "sorted_wrt (semantic_candidate_better env) scan"
  shows "sort_semantic_results env (hydrate_semantic_scan m scan) = hydrate_semantic_scan m scan"
  unfolding sort_semantic_results_def
  by (rule sort_by_sorted) (rule sorted_wrt_mono_rel [OF _ hydrate_sorted [OF assms]], simp add: better_semantic_cmp)

text \<open>The rows a strategy reads.\<close>

definition scanned_rows :: "query_strategy \<Rightarrow> str \<Rightarrow> str \<Rightarrow> vector \<Rightarrow> nat \<Rightarrow> manifest \<Rightarrow> embedding_row list" where
  "scanned_rows strategy kind model query limit m =
     (case strategy of
        Exact_Strategy \<Rightarrow> model_rows kind model query m
      | Fast_Strategy \<Rightarrow> take (max 8192 limit)
          (filter (\<lambda>e. em_bucket e = Some (int (unat (vector_bucket12 (vector_sketch64 query)))) \<and> em_sketch e \<noteq> [])
             (model_rows kind model query m)))"

lemma semantic_matches_scan:
  "semantic_matches env kind model query strategy limit m =
   sort_semantic_results env (hydrate_semantic_scan m
     (collect_semantic_rows env query (normalize_query_limit limit) (scanned_rows strategy kind model query (normalize_query_limit limit) m)))"
  by (cases strategy) (simp_all add: semantic_matches_def scanned_rows_def semantic_full_scan_def semantic_bucket_shortlist_def Let_def)

definition near_rows :: "u64 \<Rightarrow> str \<Rightarrow> nat \<Rightarrow> manifest \<Rightarrow> near_match list" where
  "near_rows query algo threshold m =
     List.map_filter (\<lambda>a. case Option.bind (as_phash a) u64_from_str_radix16 of
         None \<Rightarrow> None
       | Some h \<Rightarrow> (let d = count_ones (xor query h) in
           if as_stale a = 0 \<and> as_phash_algo a = algo \<and> d \<le> threshold then Some (image_from_row a, d) else None)) (mf_assets m)"

lemma near_hash_row_push:
  "near_hash_row env query threshold limit out a =
   (case Option.bind (as_phash a) u64_from_str_radix16 of
      None \<Rightarrow> out
    | Some h \<Rightarrow> let d = count_ones (xor query h) in
        if d \<le> threshold then push_top_near_hash env out (image_from_row a, d) limit else out)"
  by (auto simp: near_hash_row_def Let_def push_top_near_hash_def near_hash_candidate_better_def split: option.splits)

lemma near_hash_rows_push:
  "foldl (near_hash_row env query threshold limit) out
     (filter (\<lambda>a. as_stale a = 0 \<and> as_phash_algo a = algo \<and> as_phash a \<noteq> None \<and> as_phash a \<noteq> Some []) assets) =
   foldl (\<lambda>out c. push_top_near_hash env out c limit) out (near_rows query algo threshold m)"
  if "assets = mf_assets m"
proof -
  have empty: "u64_from_str_radix16 [] = None" by (simp add: u64_from_str_radix16_def)
  have "foldl (near_hash_row env query threshold limit) out
       (filter (\<lambda>a. as_stale a = 0 \<and> as_phash_algo a = algo \<and> as_phash a \<noteq> None \<and> as_phash a \<noteq> Some []) assets) =
     foldl (\<lambda>out c. push_top_near_hash env out c limit) out (near_rows query algo threshold (m\<lparr>mf_assets := assets\<rparr>))" for assets
  proof (induction assets arbitrary: out)
    case (Cons a assets)
    then show ?case
      by (cases "Option.bind (as_phash a) u64_from_str_radix16"; cases "as_phash a")
        (auto simp: near_rows_def near_hash_row_push map_filter_simps Let_def empty split: option.splits)
  qed (simp add: near_rows_def map_filter_simps)
  then show ?thesis using that by simp
qed

lemma distinct_map_filter_keys:
  assumes "\<And>a x. f a = Some x \<Longrightarrow> g x = h a" "distinct (map h as)"
  shows "distinct (map g (List.map_filter f as)) \<and> g ` set (List.map_filter f as) \<subseteq> h ` set as"
  using assms by (induction as) (auto simp: map_filter_simps split: option.splits)

lemma near_rows_distinct:
  assumes "distinct (map (\<lambda>a. se_components env (as_path a)) (mf_assets m))"
  shows "distinct (map (image_key env) (near_rows query algo threshold m))"
  unfolding near_rows_def
  by (rule conjunct1 [OF distinct_map_filter_keys [OF _ assms]])
    (auto simp: image_key_def Let_def split: option.splits if_splits)

lemma near_sorted: "sorted_wrt (near_hash_candidate_better env) out \<Longrightarrow> sort_by (near_hash_cmp env) out = out"
  by (rule sort_by_sorted, erule sorted_wrt_mono_rel [rotated])
    (auto simp: near_hash_candidate_better_def near_hash_cmp_def path_cmp_def)

section \<open>Tiles\<close>

text \<open>The distance of a tile to the nearest tile of the query, where it is a match.\<close>

definition tile_hit :: "u64 list \<Rightarrow> nat \<Rightarrow> tile_hash \<Rightarrow> nat option" where
  "tile_hit query_hashes threshold t =
     (case u64_from_str_radix16 (th_hash t) of
        None \<Rightarrow> None
      | Some h \<Rightarrow> (let d = Min (set (map (\<lambda>q. count_ones (xor q h)) query_hashes)) in if d \<le> threshold then Some d else None))"

definition path_hits :: "u64 list \<Rightarrow> nat \<Rightarrow> (tile_hash \<times> asset_row) list \<Rightarrow> str \<Rightarrow> nat list" where
  "path_hits query_hashes threshold joined path =
     List.map_filter (\<lambda>(t, a). if as_path a = path then tile_hit query_hashes threshold t else None) joined"

definition tile_entry :: "indexed_image \<Rightarrow> nat list \<Rightarrow> indexed_image \<times> nat \<times> nat" where
  "tile_entry item hits = (item, Min (set hits), length hits)"

lemma tile_row_hit:
  "tile_row query_hashes threshold (t, a) groups =
   (case tile_hit query_hashes threshold t of
      None \<Rightarrow> groups
    | Some d \<Rightarrow> add_tile_match (as_path a) ((image_from_row a)\<lparr>ii_tile_algo := Some (th_algo t)\<rparr>) d groups)"
  by (auto simp: tile_row_def tile_hit_def Let_def split: option.splits)

lemma map_of_add_tile_match:
  "map_of (add_tile_match key item d groups) =
   (map_of groups)(key \<mapsto> (case map_of groups key of None \<Rightarrow> (item, d, 1) | Some (i, best, n) \<Rightarrow> (i, min best d, n + 1)))"
  by (induction key item d groups rule: add_tile_match.induct) (auto split: option.splits)

lemma keys_add_tile_match:
  "fst ` set (add_tile_match key item d groups) = insert key (fst ` set groups)
   \<and> (distinct (map fst groups) \<longrightarrow> distinct (map fst (add_tile_match key item d groups)))"
  by (induction key item d groups rule: add_tile_match.induct) auto

lemma tile_groups:
  assumes "\<forall>(t, a) \<in> set joined. th_algo t = tile_algo_v1 \<and> row (as_path a) = a"
  shows "distinct (map fst (fold (tile_row qs threshold) joined []))
    \<and> map_of (fold (tile_row qs threshold) joined []) =
      (\<lambda>path. if path_hits qs threshold joined path = [] then None
        else Some (tile_entry ((image_from_row (row path))\<lparr>ii_tile_algo := Some tile_algo_v1\<rparr>) (path_hits qs threshold joined path)))"
  using assms
proof (induction joined rule: rev_induct)
  case Nil
  show ?case by (simp add: path_hits_def map_filter_simps)
next
  case (snoc x joined)
  obtain t a where x: "x = (t, a)" by (cases x)
  let ?old = "fold (tile_row qs threshold) joined []"
  have hits: "path_hits qs threshold (joined @ [x]) path = path_hits qs threshold joined path
      @ (if as_path a = path then (case tile_hit qs threshold t of None \<Rightarrow> [] | Some d \<Rightarrow> [d]) else [])" for path
    by (simp add: path_hits_def x List.map_filter_def split: option.splits)
  show ?case
  proof (cases "tile_hit qs threshold t")
    case None
    have same: "path_hits qs threshold (joined @ [x]) = path_hits qs threshold joined" by (simp add: fun_eq_iff hits None)
    show ?thesis unfolding same using snoc by (simp add: x tile_row_hit None)
  next
    case (Some d)
    have new: "fold (tile_row qs threshold) (joined @ [x]) [] =
        add_tile_match (as_path a) ((image_from_row a)\<lparr>ii_tile_algo := Some (th_algo t)\<rparr>) d ?old"
      by (simp add: x tile_row_hit Some)
    have a: "th_algo t = tile_algo_v1" "row (as_path a) = a" using snoc.prems by (auto simp: x)
    have IH: "distinct (map fst ?old)" "map_of ?old = (\<lambda>path. if path_hits qs threshold joined path = [] then None
        else Some (tile_entry ((image_from_row (row path))\<lparr>ii_tile_algo := Some tile_algo_v1\<rparr>) (path_hits qs threshold joined path)))"
      using snoc by auto
    have keys: "distinct (map fst (add_tile_match key item d ?old))" for key item
      using keys_add_tile_match IH(1) by blast
    have map_value: "map_of (add_tile_match (as_path a) ((image_from_row a)\<lparr>ii_tile_algo := Some (th_algo t)\<rparr>) d ?old) path =
        (if path_hits qs threshold (joined @ [x]) path = [] then None
         else Some (tile_entry ((image_from_row (row path))\<lparr>ii_tile_algo := Some tile_algo_v1\<rparr>) (path_hits qs threshold (joined @ [x]) path)))" for path
    proof (cases "as_path a = path")
      case True
      then show ?thesis unfolding map_of_add_tile_match IH(2) hits using a Some
        by (simp add: tile_entry_def min.commute)
    next
      case False
      then show ?thesis unfolding map_of_add_tile_match IH(2) hits by simp
    qed
    show ?thesis unfolding new by (rule conjI [OF keys]) (rule ext, rule map_value)
  qed
qed

text \<open>The matches of an asset: the distances of its tiles.\<close>

definition asset_hits :: "u64 list \<Rightarrow> nat \<Rightarrow> manifest \<Rightarrow> asset_row \<Rightarrow> nat list" where
  "asset_hits query_hashes threshold m a =
     List.map_filter (\<lambda>(asset_id, t). if asset_id = as_id a \<and> th_algo t = tile_algo_v1 \<and> th_hash t \<noteq> []
       then tile_hit query_hashes threshold t else None) (mf_tiles m)"

definition tile_match :: "asset_row \<Rightarrow> nat list \<Rightarrow> near_match" where
  "tile_match a hits =
     ((image_from_row a)\<lparr>ii_tile_algo := Some tile_algo_v1, ii_matched_tile_count := Some (length hits)\<rparr>, Min (set hits))"

definition tile_matches :: "u64 list \<Rightarrow> nat \<Rightarrow> manifest \<Rightarrow> near_match set" where
  "tile_matches query_hashes threshold m =
     {tile_match a (asset_hits query_hashes threshold m a) | a.
        a \<in> set (mf_assets m) \<and> as_stale a = 0 \<and> asset_hits query_hashes threshold m a \<noteq> []}"

lemma path_hits_append: "path_hits qs threshold (xs @ ys) path = path_hits qs threshold xs path @ path_hits qs threshold ys path"
  by (simp add: path_hits_def List.map_filter_def)

lemma path_hits_one:
  assumes "distinct (map as_path assets)" "a \<in> set assets"
  shows "path_hits qs threshold (map (Pair t) (filter P assets)) (as_path a) =
    (if P a then (case tile_hit qs threshold t of None \<Rightarrow> [] | Some d \<Rightarrow> [d]) else [])"
  using assms
proof (induction assets)
  case (Cons b assets)
  have none: "path_hits qs threshold (map (Pair t) (filter P assets)) p = []" if "p \<notin> as_path ` set assets" for p
    using that by (induction assets) (auto simp: path_hits_def map_filter_simps)
  show ?case
  proof (cases "a = b")
    case True
    then show ?thesis using Cons.prems none [of "as_path a"]
      by (auto simp: path_hits_def map_filter_simps split: option.splits)
  next
    case False
    then have "as_path b \<noteq> as_path a" using Cons.prems by auto
    then show ?thesis using Cons False by (auto simp: path_hits_def map_filter_simps)
  qed
qed simp

lemma tile_join_hits:
  assumes "distinct (map as_path (mf_assets m))" "a \<in> set (mf_assets m)"
  shows "path_hits qs threshold (tile_join m) (as_path a) = (if as_stale a = 0 then asset_hits qs threshold m a else [])"
proof -
  have "path_hits qs threshold (concat (map (\<lambda>(asset_id, t). map (Pair t)
        (filter (\<lambda>a. as_id a = asset_id \<and> as_stale a = 0 \<and> th_algo t = tile_algo_v1 \<and> th_hash t \<noteq> []) (mf_assets m))) tiles)) (as_path a)
      = (if as_stale a = 0 then List.map_filter (\<lambda>(asset_id, t). if asset_id = as_id a \<and> th_algo t = tile_algo_v1 \<and> th_hash t \<noteq> []
       then tile_hit qs threshold t else None) tiles else [])" for tiles
  proof (induction tiles)
    case (Cons x tiles)
    then show ?case
      by (cases x) (auto simp: path_hits_append path_hits_one [OF assms] map_filter_simps split: option.splits)
  qed (simp add: path_hits_def map_filter_simps)
  moreover have "tile_join m = concat (map (\<lambda>(asset_id, t). map (Pair t)
        (filter (\<lambda>a. as_id a = asset_id \<and> as_stale a = 0 \<and> th_algo t = tile_algo_v1 \<and> th_hash t \<noteq> []) (mf_assets m))) (mf_tiles m))"
  proof -
    have "concat (map (\<lambda>a. if P a then [(t, a)] else []) assets) = map (Pair t) (filter P assets)" for P and t :: tile_hash and assets :: "asset_row list"
      by (induction assets) auto
    then show ?thesis by (simp add: tile_join_def)
  qed
  ultimately show ?thesis by (simp add: asset_hits_def)
qed

definition tile_rank :: "search_env \<Rightarrow> near_match \<Rightarrow> nat \<times> int \<times> path_component list" where
  "tile_rank env x =
     (snd x, - int (case ii_matched_tile_count (fst x) of None \<Rightarrow> 0 | Some n \<Rightarrow> n + 1), image_key env x)"

lemma tile_cmp_rank:
  "tile_cmp env a b = Greater \<longleftrightarrow> tile_rank env b < tile_rank env a" "tile_cmp env a b = Less \<longleftrightarrow> tile_rank env a < tile_rank env b"
  by (auto simp: tile_cmp_def tile_rank_def less_prod_simp path_cmp_def image_key_def)

lemma tile_groups_matches:
  fixes qs threshold m
  assumes "distinct (map as_path (mf_assets m))"
  defines "groups \<equiv> fold (tile_row qs threshold) (tile_join m) []"
  shows "set (map (\<lambda>(_, item, distance, matched). (item\<lparr>ii_matched_tile_count := Some matched\<rparr>, distance)) groups) = tile_matches qs threshold m"
    and "distinct (map fst groups)" and "(k, v) \<in> set groups \<Longrightarrow> ii_path (fst v) = k"
proof -
  define row where "row p = the (find (\<lambda>a. as_path a = p) (mf_assets m))" for p
  have row: "row (as_path a) = a" if a: "a \<in> set (mf_assets m)" for a
  proof -
    obtain b where b: "find (\<lambda>b. as_path b = as_path a) (mf_assets m) = Some b"
      using a by (cases "find (\<lambda>b. as_path b = as_path a) (mf_assets m)") (auto simp: find_None_iff)
    then have "b \<in> set (mf_assets m)" "as_path b = as_path a" by (auto simp: find_Some_iff)
    then show ?thesis using b a assms(1) by (auto simp: row_def distinct_map dest: inj_onD)
  qed
  have joined: "\<forall>(t, a) \<in> set (tile_join m). th_algo t = tile_algo_v1 \<and> row (as_path a) = a"
    using row by (auto simp: tile_join_def split: if_splits)
  note g = tile_groups [OF joined, of qs threshold, folded groups_def]
  show d: "distinct (map fst groups)" using g by simp
  have hits: "(p, v) \<in> set groups \<longleftrightarrow> path_hits qs threshold (tile_join m) p \<noteq> []
      \<and> v = tile_entry ((image_from_row (row p))\<lparr>ii_tile_algo := Some tile_algo_v1\<rparr>) (path_hits qs threshold (tile_join m) p)" for p v
    using map_of_eq_Some_iff [OF d, of p v, symmetric] g by auto
  have known: "\<exists>a \<in> set (mf_assets m). as_path a = p" if "path_hits qs threshold (tile_join m) p \<noteq> []" for p
  proof (rule ccontr)
    assume no: "\<not> ?thesis"
    have "\<forall>x \<in> set (tile_join m). as_path (snd x) \<noteq> p" using no by (auto simp: tile_join_def split: if_splits)
    then have "path_hits qs threshold (tile_join m) p = []"
      by (auto simp: path_hits_def List.map_filter_def filter_empty_conv)
    then show False using that by simp
  qed
  show "ii_path (fst v) = k" if "(k, v) \<in> set groups"
  proof -
    from that have v: "path_hits qs threshold (tile_join m) k \<noteq> []" "ii_path (fst v) = as_path (row k)"
      by (auto simp: hits tile_entry_def)
    from known [OF v(1)] obtain a where "a \<in> set (mf_assets m)" "as_path a = k" by blast
    then show ?thesis using row v(2) by auto
  qed
  have "(p, v) \<in> set groups \<longleftrightarrow> (\<exists>a \<in> set (mf_assets m). as_path a = p \<and> as_stale a = 0 \<and> asset_hits qs threshold m a \<noteq> []
      \<and> v = tile_entry ((image_from_row a)\<lparr>ii_tile_algo := Some tile_algo_v1\<rparr>) (asset_hits qs threshold m a))" for p v
  proof
    assume v: "(p, v) \<in> set groups"
    then obtain a where a: "a \<in> set (mf_assets m)" "as_path a = p" using known hits by blast
    then show "\<exists>a \<in> set (mf_assets m). as_path a = p \<and> as_stale a = 0 \<and> asset_hits qs threshold m a \<noteq> []
      \<and> v = tile_entry ((image_from_row a)\<lparr>ii_tile_algo := Some tile_algo_v1\<rparr>) (asset_hits qs threshold m a)"
      using v hits tile_join_hits [OF assms(1) a(1), of qs threshold] row [OF a(1)] by (intro bexI [of _ a]) (auto split: if_splits)
  next
    assume "\<exists>a \<in> set (mf_assets m). as_path a = p \<and> as_stale a = 0 \<and> asset_hits qs threshold m a \<noteq> []
      \<and> v = tile_entry ((image_from_row a)\<lparr>ii_tile_algo := Some tile_algo_v1\<rparr>) (asset_hits qs threshold m a)"
    then show "(p, v) \<in> set groups" using tile_join_hits [OF assms(1)] row by (auto simp: hits)
  qed
  then show "set (map (\<lambda>(_, item, distance, matched). (item\<lparr>ii_matched_tile_count := Some matched\<rparr>, distance)) groups) = tile_matches qs threshold m"
    by (force simp: tile_matches_def tile_match_def tile_entry_def image_iff)
qed

section \<open>Concrete searches\<close>

definition sample_search_env :: search_env where
  "sample_search_env = \<lparr>se_components = unix_components, se_base64 = (\<lambda>_. []), se_hash_order = (\<lambda>xs. xs)\<rparr>"

definition sample_asset :: "int \<Rightarrow> str \<Rightarrow> int \<Rightarrow> asset_row" where
  "sample_asset i path stale =
     \<lparr>as_id = i, as_path = path, as_source_root = [], as_file_size = 0, as_mtime = 0, as_sha256 = ascii ''s'',
      as_phash = Some (ascii ''000000000000000f''), as_phash_algo = ascii ''p'', as_width = None, as_height = None, as_blur_score = None,
      as_blur_algo = [], as_quality_flags = [], as_source_class = [], as_detected_format = [], as_has_alpha = 0,
      as_orientation_applied = 0, as_version = [], as_indexed_at = [], as_stale = stale, as_error = None\<rparr>"

text \<open>A vector of one component, given by the four bytes of its value.\<close>

definition sample_embedding :: "int \<Rightarrow> str \<Rightarrow> bytes \<Rightarrow> embedding_row" where
  "sample_embedding i path blob =
     \<lparr>em_rowid = i, em_path = path, em_kind = ascii ''clip'', em_model = ascii ''m'', em_dim = 1, em_vec = Blob blob,
      em_sketch = ascii ''x'', em_bucket = Some 0, em_updated_at = []\<rparr>"

definition sample_tile :: tile_hash where
  "sample_tile = \<lparr>th_algo = tile_algo_v1, th_set = ascii ''full'', th_index = 0, th_x0 = Finite 0, th_y0 = Finite 0,
     th_x1 = Finite 1, th_y1 = Finite 1, th_hash = ascii ''000000000000000f''\<rparr>"

text \<open>An active asset \<open>b\<close>, a stale one \<open>a\<close>; the vector of \<open>a\<close> is 1, that of \<open>b\<close> 0.5.\<close>

definition sample_manifest :: manifest where
  "sample_manifest = \<lparr>mf_assets = [sample_asset 1 (ascii ''a'') 1, sample_asset 2 (ascii ''b'') 0], mf_tiles = [(2, sample_tile)],
     mf_local_features = [], mf_embeddings = [sample_embedding 1 (ascii ''a'') [0, 0, 0x80, 0x3F], sample_embedding 2 (ascii ''b'') [0, 0, 0, 0x3F]],
     mf_seen = []\<rparr>"

text \<open>The same with a NaN for \<open>a\<close>, which is active.\<close>

definition nan_manifest :: manifest where
  "nan_manifest = sample_manifest\<lparr>mf_assets := [sample_asset 1 (ascii ''a'') 0, sample_asset 2 (ascii ''b'') 0],
     mf_embeddings := [sample_embedding 2 (ascii ''b'') [0, 0, 0, 0x3F], sample_embedding 1 (ascii ''a'') [0, 0, 0xC0, 0x7F]]\<rparr>"

lemma sample_scan:
  "scan_candidates [0x3F800000] (scanned_rows Exact_Strategy (ascii ''clip'') (ascii ''m'') [0x3F800000] 2 sample_manifest)
   = [(path_only (ascii ''a''), Finite 1), (path_only (ascii ''b''), Finite (1 / 2))]"
  by code_simp

lemma sample_pushes:
  "push_top_semantic sample_search_env [] (path_only (ascii ''a''), Finite 1) 2 = [(path_only (ascii ''a''), Finite 1)]"
  "push_top_semantic sample_search_env [(path_only (ascii ''a''), Finite 1)] (path_only (ascii ''b''), Finite (1 / 2)) 2
   = [(path_only (ascii ''a''), Finite 1), (path_only (ascii ''b''), Finite (1 / 2))]"
  by code_simp+

lemma sample_limit: "normalize_query_limit 2 = 2" "normalize_query_limit 5 = 5"
  by (simp_all add: normalize_query_limit_def max_query_results_def)

lemma sample_query_hash: "u64_from_str_radix16 (ascii ''0000000000000000'') = Some 0"
  by code_simp

lemma sample_paths: "distinct (map (\<lambda>a. se_components sample_search_env (as_path a)) (mf_assets sample_manifest))"
  by code_simp

lemma sample_find: "find (\<lambda>a. as_id a = 2 \<and> as_stale a = 0) (mf_assets sample_manifest) = Some (sample_asset 2 (ascii ''b'') 0)"
  by (simp add: sample_manifest_def sample_asset_def)

lemma sample_candidates:
  "query_candidates sample_search_env (sample_asset 2 (ascii ''b'') 0) Exact Exact_Strategy 5 sample_manifest =
   Ok [query_result_from_item sample_search_env (ascii ''exact'') (Finite 1) None (image_from_row (sample_asset 2 (ascii ''b'') 0))]"
  by (simp add: query_candidates_def found_if_def wants_exact_def wants_copy_def wants_near_def wants_tile_def wants_semantic_def
      exact_matches_def sample_manifest_def sample_asset_def image_from_row_def sample_limit Let_def)

section \<open>Properties\<close>

text \<open>C5. The report of a query for an indexed picture holds the best candidates of all layers its mode asks for: at most the
  normalized limit, strongest kind first, then the higher score, then the path, every path once, and whatever candidate is not in
  the report has a better one of its path there, or the report is full of better ones. So leaving out a layer when the
  buffer is full of stronger kinds loses nothing. No candidate may have the score NaN.\<close>

theorem query_indexed_asset_best:
  assumes "find (\<lambda>a. as_id a = asset_id \<and> as_stale a = 0) (mf_assets m) = Some row"
    "query_candidates env row mode strategy (normalize_query_limit limit) m = Ok cs" "\<forall>c \<in> set cs. scored c"
  shows "\<exists>report. query_indexed_asset env account asset_id mode strategy limit m = Ok report
    \<and> top_of qr_path query_result_better (normalize_query_limit limit) (set cs) (rp_results report)"
proof -
  let ?k = "normalize_query_limit limit"
  let ?out = "foldl (\<lambda>out c. push_candidate out c ?k) [] cs"
  from query_indexed_asset_pushes [OF assms(1,2)] obtain missing where
    q: "query_indexed_asset env account asset_id mode strategy limit m
      = Ok (query_report_of account mode strategy (image_from_row row) ?k (?out, missing))" by blast
  have "top_of qr_path query_result_better ?k {} []" by (simp add: top_of_def)
  from result_buffer.pushes_top [OF normalize_limit_pos this _ assms(3)]
  have top: "top_of qr_path query_result_better ?k (set cs) ?out" by simp
  then have "take ?k (sort_by query_result_sort_cmp ?out) = ?out" by (simp add: top_of_def top_sorted)
  then show ?thesis using q top by (simp add: query_report_of_def)
qed

theorem query_indexed_asset_best_witness:
  "\<exists>report. query_indexed_asset sample_search_env [] 2 Exact Exact_Strategy 5 sample_manifest = Ok report
    \<and> top_of qr_path query_result_better 5
        {query_result_from_item sample_search_env (ascii ''exact'') (Finite 1) None (image_from_row (sample_asset 2 (ascii ''b'') 0))}
        (rp_results report)"
  using query_indexed_asset_best [OF sample_find, where limit = 5, unfolded sample_limit, OF sample_candidates, where account = "[]"]
  by (simp add: scored_def query_result_from_item_def)





text \<open>A near-hash search returns the active assets whose hash differs from the query in at most the threshold of bits, the
  nearest first, at most the normalized limit, whatever the order of the table.\<close>

theorem near_hash_matches_best:
  assumes "u64_from_str_radix16 phash = Some query" "distinct (map (\<lambda>a. se_components env (as_path a)) (mf_assets m))"
  shows "\<exists>out. near_hash_matches env phash algo threshold limit m = Ok out
    \<and> top_of (image_key env) (near_hash_candidate_better env) (normalize_query_limit limit) (set (near_rows query algo threshold m)) out"
proof -
  let ?out = "foldl (\<lambda>out c. push_top_near_hash env out c (normalize_query_limit limit)) [] (near_rows query algo threshold m)"
  have top: "top_of (image_key env) (near_hash_candidate_better env) (normalize_query_limit limit) (set (near_rows query algo threshold m)) ?out"
    by (rule near_buffer.push_all_top) (use near_rows_distinct [OF assms(2)] normalize_limit_pos in simp_all)
  then have "sort_by (near_hash_cmp env) ?out = ?out" by (intro near_sorted) (simp add: top_of_def)
  then show ?thesis using top assms(1) near_hash_rows_push [OF refl, where m = m and out = "[]" and query = query and threshold = threshold
      and limit = "normalize_query_limit limit" and algo = algo and env = env]
    by (simp add: near_hash_matches_def Let_def)
qed

theorem near_hash_matches_best_witness:
  "\<exists>out. near_hash_matches sample_search_env (ascii ''0000000000000000'') (ascii ''p'') 10 5 sample_manifest = Ok out
    \<and> top_of (image_key sample_search_env) (near_hash_candidate_better sample_search_env) 5 (set (near_rows 0 (ascii ''p'') 10 sample_manifest)) out"
  using near_hash_matches_best [OF sample_query_hash sample_paths, where limit = 5, unfolded sample_limit] by blast


text \<open>C22. A tile search gives every active asset that has a tile near a tile of the query once, with the number of its matching tiles
  and the least distance among them, the least distance first, then the larger number, at most the normalized limit; the order
  in which the hash map is iterated does not matter.\<close>

theorem tile_hash_matches_best:
  assumes "query_tile_hashes query_tiles \<noteq> []" "\<forall>groups. mset (se_hash_order env groups) = mset groups"
    "distinct (map (\<lambda>a. se_components env (as_path a)) (mf_assets m))"
  shows "top_of (image_key env) (\<lambda>a b. tile_cmp env a b = Less) (normalize_query_limit limit)
      (tile_matches (query_tile_hashes query_tiles) threshold m) (tile_hash_matches env query_tiles threshold limit m)"
proof -
  let ?qs = "query_tile_hashes query_tiles"
  define groups where "groups = fold (tile_row ?qs threshold) (tile_join m) []"
  let ?match = "\<lambda>(_, item, distance, matched). (item\<lparr>ii_matched_tile_count := Some matched\<rparr>, distance) :: near_match"
  define found where "found = map ?match (se_hash_order env groups)"
  have paths: "distinct (map as_path (mf_assets m))" using assms(3) by (auto simp: distinct_map comp_inj_on_iff inj_on_def)
  note g = tile_groups_matches [OF paths, where qs = ?qs and threshold = threshold, folded groups_def]
  have same: "mset (se_hash_order env groups) = mset groups" using assms(2) by blast
  then have set_found: "set found = tile_matches ?qs threshold m"
    using g(1) mset_eq_setD [OF same] by (simp add: found_def)
  have keys: "distinct (map (image_key env) found)"
  proof -
    have known: "k \<in> as_path ` set (mf_assets m)" if "(k, v) \<in> set groups" for k v
    proof -
      have "?match (k, v) \<in> tile_matches ?qs threshold m" using g(1) that by (metis (no_types, lifting) image_eqI set_map)
      moreover have "ii_path (fst (?match (k, v))) = k" using g(3) [OF that] by (cases v) simp
      moreover have "ii_path (fst x) \<in> as_path ` set (mf_assets m)" if "x \<in> tile_matches ?qs threshold m" for x
        using that by (auto simp: tile_matches_def tile_match_def)
      ultimately show ?thesis by metis
    qed
    have eq: "map (image_key env) (map ?match groups) = map (se_components env) (map fst groups)"
      using g(3) by (auto simp: image_key_def)
    moreover have "inj_on (se_components env) (set (map fst groups))"
    proof (rule inj_on_subset)
      show "inj_on (se_components env) (as_path ` set (mf_assets m))" using assms(3) by (auto simp: distinct_map inj_on_def)
      show "set (map fst groups) \<subseteq> as_path ` set (mf_assets m)" using known by auto
    qed
    ultimately have "distinct (map (image_key env) (map ?match groups))"
      unfolding eq using g(2) distinct_map [of "se_components env" "map fst groups"] by blast
    moreover have "mset (map (image_key env) found) = mset (map (image_key env) (map ?match groups))"
      by (simp add: found_def same)
    ultimately show ?thesis by (metis mset_eq_imp_distinct_iff)
  qed
  let ?sorted = "sort_by (tile_cmp env) found"
  have "sorted (map (tile_rank env) ?sorted)" by (rule sort_by_rank) (simp add: tile_cmp_rank)
  moreover have keys': "distinct (map (image_key env) ?sorted)"
    using keys by (metis mset_eq_imp_distinct_iff mset_map mset_sort_by)
  then have "distinct (map (tile_rank env) ?sorted)" by (auto simp: distinct_map inj_on_def tile_rank_def)
  ultimately have "sorted_wrt (<) (map (tile_rank env) ?sorted)" by (simp add: strict_sorted_iff)
  then have "sorted_wrt (\<lambda>a b. tile_cmp env a b = Less) ?sorted" by (simp add: sorted_wrt_map tile_cmp_rank)
  from take_top [OF this keys'] have "top_of (image_key env) (\<lambda>a b. tile_cmp env a b = Less) (normalize_query_limit limit) (set found)
      (take (normalize_query_limit limit) ?sorted)" by (simp add: tile_cmp_rank)
  then show ?thesis using assms(1) set_found by (simp add: tile_hash_matches_def Let_def groups_def found_def)
qed

theorem tile_hash_matches_best_witness:
  "top_of (image_key sample_search_env) (\<lambda>a b. tile_cmp sample_search_env a b = Less) 5
     (tile_matches (query_tile_hashes [sample_tile]) 8 sample_manifest) (tile_hash_matches sample_search_env [sample_tile] 8 5 sample_manifest)"
proof -
  have "query_tile_hashes [sample_tile] \<noteq> []" by code_simp
  from tile_hash_matches_best [OF this _ sample_paths, where limit = 5 and threshold = 8, unfolded sample_limit] show ?thesis
    by (simp add: sample_search_env_def)
qed

text \<open>The matches are looked up in the asset table only after the best of them are chosen, so rows of files that are gone
  take the places of rows that are there: a search for the best match of a store with one active and one deleted picture finds
  nothing, although the search for the best two finds the active one.\<close>

theorem deleted_assets_hide_matches:
  "semantic_matches sample_search_env (ascii ''clip'') (ascii ''m'') [0x3F800000] Exact_Strategy 1 sample_manifest = []
   \<and> map (\<lambda>x. (ii_path (fst x), snd x))
       (semantic_matches sample_search_env (ascii ''clip'') (ascii ''m'') [0x3F800000] Exact_Strategy 2 sample_manifest)
     = [(ascii ''b'', Finite (1 / 2))]"
proof (rule conjI)
  show "semantic_matches sample_search_env (ascii ''clip'') (ascii ''m'') [0x3F800000] Exact_Strategy 1 sample_manifest = []"
    by code_simp
  have "collect_semantic_rows sample_search_env [0x3F800000] 2
      (scanned_rows Exact_Strategy (ascii ''clip'') (ascii ''m'') [0x3F800000] 2 sample_manifest)
    = [(path_only (ascii ''a''), Finite 1), (path_only (ascii ''b''), Finite (1 / 2))]"
    unfolding collect_semantic_rows_def collect_pushes sample_scan by (simp add: sample_pushes del: ascii_simps)
  then show "map (\<lambda>x. (ii_path (fst x), snd x))
      (semantic_matches sample_search_env (ascii ''clip'') (ascii ''m'') [0x3F800000] Exact_Strategy 2 sample_manifest)
    = [(ascii ''b'', Finite (1 / 2))]"
    by (simp add: semantic_matches_scan sample_limit del: ascii_simps)
      (simp add: hydrate_semantic_scan_def map_filter_simps sort_semantic_results_def sample_manifest_def sample_asset_def)
qed

text \<open>A stored NaN compares as equal to every score, so it is ranked by its path and displaces the best match.\<close>

theorem nan_vector_displaces_best:
  "map (\<lambda>x. (ii_path (fst x), snd x))
     (semantic_matches sample_search_env (ascii ''clip'') (ascii ''m'') [0x3F800000] Exact_Strategy 1 nan_manifest) = [(ascii ''a'', Nan)]"
  by code_simp

end
