(* ===== verification/Image_Manifest_Facts.thy ===== *)
theory Image_Manifest_Facts imports Image_Manifest begin

text \<open>
  What holds of the manifest of the image index: its keys stay unique under every statement, a written
  picture is found unchanged, a scan leaves active what it saw, and the maintenance of the embeddings ends and is complete.
\<close>

section \<open>Legacy model keys\<close>

lemma between_colon_iff: "(model @ [0x3A] \<le> m \<and> m < model @ [0x3B]) \<longleftrightarrow> starts_with m (model @ [0x3A])" for m :: str
proof (induction model arbitrary: m)
  case Nil
  show ?case by (cases m) (auto simp: starts_with_def)
next
  case (Cons x model)
  show ?case
  proof (cases m)
    case (Cons y m')
    then show ?thesis using Cons.IH [of m'] by (auto simp: starts_with_def)
  qed (simp add: starts_with_def)
qed

section \<open>The keys are unique\<close>

definition manifest_ok :: "manifest \<Rightarrow> bool" where
  "manifest_ok m =
     (distinct (map as_path (mf_assets m)) \<and> distinct (map as_id (mf_assets m))
      \<and> distinct (map embedding_key (mf_embeddings m)) \<and> distinct (map tile_key (mf_tiles m))
      \<and> fst ` set (mf_tiles m) \<subseteq> as_id ` set (mf_assets m) \<and> distinct (mf_seen m))"

text \<open>Documented of SQLite: a new row gets an identifier that no row has.\<close>

definition fresh_ids :: "row_ids \<Rightarrow> bool" where
  "fresh_ids ids = (\<forall>m. ri_asset ids m \<notin> as_id ` set (mf_assets m))"

lemma set_assets_ok:
  assumes "manifest_ok m" "distinct (map as_path rows)" "distinct (map as_id rows)" "as_id ` set (mf_assets m) \<subseteq> as_id ` set rows"
  shows "manifest_ok (m\<lparr>mf_assets := rows\<rparr>)"
proof -
  have "fst ` set (mf_tiles m) \<subseteq> as_id ` set rows" using assms(1,4) order_trans unfolding manifest_ok_def by blast
  then show ?thesis using assms by (simp add: manifest_ok_def)
qed

lemma upsert_asset_keys:
  assumes "\<And>old. as_path (updated old row) = as_path row \<and> as_id (updated old row) = as_id old"
    "distinct (map as_path rows)" "distinct (map as_id rows)" "new_id \<notin> as_id ` set rows"
  shows "distinct (map as_path (upsert_asset updated new_id row rows))" "distinct (map as_id (upsert_asset updated new_id row rows))"
    "as_id ` set rows \<subseteq> as_id ` set (upsert_asset updated new_id row rows)"
proof -
  let ?rows = "map (\<lambda>a. if as_path a = as_path row then updated a row else a) rows"
  have keys: "map as_path ?rows = map as_path rows" "map as_id ?rows = map as_id rows" using assms(1) by auto
  from this(2) have "as_id ` set ?rows = as_id ` set rows" by (metis list.set_map)
  with keys assms(2-4) show "distinct (map as_path (upsert_asset updated new_id row rows))"
    "distinct (map as_id (upsert_asset updated new_id row rows))" "as_id ` set rows \<subseteq> as_id ` set (upsert_asset updated new_id row rows)"
    by (auto simp: upsert_asset_def simp del: map_map list.set_map)
qed

lemma upsert_asset_ok:
  assumes "manifest_ok m" "fresh_ids ids" "\<And>old. as_path (updated old row) = as_path row \<and> as_id (updated old row) = as_id old"
  shows "manifest_ok (m\<lparr>mf_assets := upsert_asset updated (ri_asset ids m) row (mf_assets m)\<rparr>)"
proof -
  have "distinct (map as_path (mf_assets m))" "distinct (map as_id (mf_assets m))" "ri_asset ids m \<notin> as_id ` set (mf_assets m)"
    using assms(1,2) by (simp_all add: manifest_ok_def fresh_ids_def)
  from upsert_asset_keys [of updated row, OF assms(3) this] show ?thesis by (rule set_assets_ok [OF assms(1)])
qed

lemma upsert_row_keys:
  assumes "distinct (map embedding_key rows)"
  shows "distinct (map embedding_key (upsert_row cond new_id row rows))"
proof -
  have "map embedding_key (map (\<lambda>e. if embedding_key e = embedding_key row \<and> cond e row then row\<lparr>em_rowid := em_rowid e\<rparr> else e) rows)
      = map embedding_key rows"
    by (auto simp: embedding_key_def)
  moreover have "embedding_key (row\<lparr>em_rowid := new_id\<rparr>) = embedding_key row" by (simp add: embedding_key_def)
  ultimately show ?thesis using assms by (simp add: upsert_row_def del: map_map)
qed

lemma upsert_embedding_ok:
  "manifest_ok m \<Longrightarrow> manifest_ok (upsert_prepared_embedding_at_with_legacy_cleanup ids path kind model v now cleanup m)"
  by (auto simp: manifest_ok_def upsert_prepared_embedding_at_with_legacy_cleanup_def Let_def upsert_row_keys distinct_map_filter)

lemma write_item_row_ok: "manifest_ok m \<Longrightarrow> fresh_ids ids \<Longrightarrow> manifest_ok (write_item_row ids item now err m)"
  unfolding write_item_row_def by (rule upsert_asset_ok) (simp_all add: item_row_def Let_def)

lemma write_asset_row_ok:
  assumes "write_asset_row ids item now m = Ok (m', i)" "manifest_ok m" "fresh_ids ids"
  shows "manifest_ok m' \<and> i \<in> as_id ` set (mf_assets m')"
  using assms write_item_row_ok by (auto simp: write_asset_row_def Let_def find_Some_iff split: option.splits)

lemma replace_tile_hashes_rows:
  assumes "ok_fold (\<lambda>tile rows. if tile_key (i, tile) \<in> tile_key ` set rows then Err Constraint_Failed else Ok (rows @ [(i, tile)])) tiles rows = Ok rows'"
  shows "rows' = rows @ map (Pair i) tiles \<and> (distinct (map tile_key rows) \<longrightarrow> distinct (map tile_key rows'))"
  using assms
proof (induction tiles arbitrary: rows)
  case (Cons t tiles)
  then have new: "tile_key (i, t) \<notin> tile_key ` set rows" by (auto split: if_splits)
  then have rest: "ok_fold (\<lambda>tile rows. if tile_key (i, tile) \<in> tile_key ` set rows then Err Constraint_Failed else Ok (rows @ [(i, tile)]))
      tiles (rows @ [(i, t)]) = Ok rows'" using Cons.prems by simp
  note both = Cons.IH [OF this]
  from conjunct1 [OF both] have eq: "rows' = rows @ map (Pair i) (t # tiles)" by simp
  note keys = conjunct2 [OF both]
  from keys new have "distinct (map tile_key rows) \<longrightarrow> distinct (map tile_key rows')" by simp
  with eq show ?case by blast
qed simp

lemma replace_tile_hashes_ok:
  assumes "replace_tile_hashes i tiles m = Ok m'" "manifest_ok m" "i \<in> as_id ` set (mf_assets m)"
  shows "manifest_ok m' \<and> m' = m\<lparr>mf_tiles := filter (\<lambda>t. fst t \<noteq> i) (mf_tiles m) @ map (Pair i) tiles\<rparr>"
proof -
  obtain rows where rows: "ok_fold (\<lambda>tile rows. if tile_key (i, tile) \<in> tile_key ` set rows then Err Constraint_Failed
        else Ok (rows @ [(i, tile)])) tiles (filter (\<lambda>t. fst t \<noteq> i) (mf_tiles m)) = Ok rows" "m' = m\<lparr>mf_tiles := rows\<rparr>"
    using assms(1) by (auto simp: replace_tile_hashes_def map_ok_def and_then_Ok_iff)
  note r = replace_tile_hashes_rows [OF rows(1)]
  have "distinct (map tile_key (filter (\<lambda>t. fst t \<noteq> i) (mf_tiles m)))" using assms(2) by (simp add: manifest_ok_def distinct_map_filter)
  then have "distinct (map tile_key rows)" using r by blast
  then show ?thesis using r rows(2) assms(2,3) by (auto simp: manifest_ok_def)
qed

lemma write_index_item_ok:
  assumes "write_index_item_prepared ids item clip sscd now c1 c2 m = Ok m'" "manifest_ok m" "fresh_ids ids"
  shows "manifest_ok m'"
proof -
  have "manifest_ok m1" if "(if pi_reuse_existing item then Ok m
        else and_then (write_asset_row ids item now m)
               (\<lambda>(m, i). replace_tile_hashes i (fp_tile_hashes (pi_fingerprint item)) m)) = Ok m1" for m1
    using that assms(2,3) by (auto simp: and_then_Ok_iff split: if_splits dest!: write_asset_row_ok dest: replace_tile_hashes_ok)
  then show ?thesis using assms(1)
    by (auto simp: write_index_item_prepared_def map_ok_def and_then_Ok_iff Let_def upsert_embedding_ok split: option.splits)
qed

lemma derived_ok: "manifest_ok m \<Longrightarrow> manifest_ok (delete_derived_features_for_path path m)"
  by (auto simp: manifest_ok_def delete_derived_features_for_path_def Let_def distinct_map_filter)

lemma delete_embeddings_ok: "manifest_ok m \<Longrightarrow> manifest_ok (delete_embeddings path m)"
  by (auto simp: manifest_ok_def delete_embeddings_def distinct_map_filter)

lemma record_path_error_ok: "manifest_ok m \<Longrightarrow> fresh_ids ids \<Longrightarrow> manifest_ok (record_path_error ids path err now m)"
  unfolding record_path_error_def Let_def
  by (intro derived_ok delete_embeddings_ok upsert_asset_ok) simp_all

lemma map_assets_ok:
  assumes "manifest_ok m" "\<And>a. as_id (f a) = as_id a \<and> as_path (f a) = as_path a"
  shows "manifest_ok (m\<lparr>mf_assets := map f (mf_assets m)\<rparr>)"
proof -
  have "map as_path (map f (mf_assets m)) = map as_path (mf_assets m)" "map as_id (map f (mf_assets m)) = map as_id (mf_assets m)"
    using assms(2) by auto
  moreover from this(2) have "as_id ` set (map f (mf_assets m)) = as_id ` set (mf_assets m)" by (metis list.set_map)
  ultimately show ?thesis using assms(1) by (simp add: manifest_ok_def del: map_map)
qed

lemma record_item_error_ok:
  assumes "manifest_ok m" "fresh_ids ids"
  shows "manifest_ok (record_item_error ids item err now m)"
  using assms by (auto simp: record_item_error_def intro!: derived_ok delete_embeddings_ok write_item_row_ok map_assets_ok)

lemma write_embedding_batch_ok:
  assumes "write_embedding_batch ids batch m = Ok (n, m')" "manifest_ok m" "fresh_ids ids"
  shows "manifest_ok m'"
  using assms unfolding write_embedding_batch_def Let_def map_ok_def and_then_Ok_iff
  by (auto simp: and_then_Ok_iff elim!: ok_fold_invariant [where P = manifest_ok] intro: write_index_item_ok)

lemma mark_missing_ok: "manifest_ok m \<Longrightarrow> manifest_ok (snd (mark_missing_assets_stale m))"
  by (simp add: mark_missing_assets_stale_def Let_def map_assets_ok)

lemma seen_ok: "manifest_ok m \<Longrightarrow> manifest_ok (reset_seen_paths m)" "manifest_ok m \<Longrightarrow> manifest_ok (snd (remember_seen_path path m))"
  by (auto simp: manifest_ok_def reset_seen_paths_def remember_seen_path_def)

lemma set_embeddings_ok:
  "manifest_ok m \<Longrightarrow> distinct (map embedding_key rows) \<Longrightarrow> manifest_ok (m\<lparr>mf_embeddings := rows\<rparr>)"
  by (simp add: manifest_ok_def)

lemma backfill_row_keys: "map embedding_key (fst (backfill_row p st)) = map embedding_key (fst st)"
  by (cases p; cases st) (auto simp: backfill_row_def embedding_key_def split: option.splits)

lemma fold_backfill_keys: "map embedding_key (fst (fold backfill_row ps st)) = map embedding_key (fst st)"
  by (induction ps arbitrary: st) (auto simp: backfill_row_keys)

lemma backfill_loop_keys: "backfill_loop rows n = Ok (rows', n') \<Longrightarrow> map embedding_key rows' = map embedding_key rows"
proof (induction rows n rule: backfill_loop.induct)
  case (1 rows n)
  from "1.prems" obtain ps where ps: "all_ok (map blob_of (take 1000 (filter sketch_missing rows))) = Ok ps"
    by (subst (asm) backfill_loop.simps) (auto split: outcome.splits)
  show ?case
  proof (cases "ps = []")
    case True
    then show ?thesis using "1.prems" ps by (subst (asm) backfill_loop.simps) simp
  next
    case False
    then have "backfill_loop (fst (backfill_batch rows ps n)) (snd (backfill_batch rows ps n)) = Ok (rows', n')"
      using "1.prems" ps by (subst (asm) backfill_loop.simps) simp
    from "1.IH" [OF ps False this] show ?thesis by (simp add: backfill_batch_def fold_backfill_keys)
  qed
qed

lemma canonicalize_row_keys:
  "distinct (map embedding_key (fst st)) \<Longrightarrow> distinct (map embedding_key (fst (canonicalize_row new_id model e st)))"
  by (cases st) (simp add: canonicalize_row_def Let_def upsert_row_keys distinct_map_filter)

lemma fold_canonicalize_keys:
  "distinct (map embedding_key (fst st)) \<Longrightarrow> distinct (map embedding_key (fst (fold (canonicalize_row new_id model) es st)))"
  by (induction es arbitrary: st) (auto simp: canonicalize_row_keys)

text \<open>One round of the loop: a batch of picked rows, or the end.\<close>

lemma canonicalize_loop_cases:
  assumes "canonicalize_loop new_id kind model st = Ok st'"
  shows "(canonicalize_picked kind model (fst st) = [] \<and> st' = st)
    \<or> canonicalize_picked kind model (fst st) \<noteq> [] \<and> (\<exists>ps. all_ok (map blob_of (canonicalize_picked kind model (fst st))) = Ok ps)
      \<and> canonicalize_loop new_id kind model (fold (canonicalize_row new_id model) (canonicalize_picked kind model (fst st)) st) = Ok st'"
  using assms by (subst (asm) canonicalize_loop.simps) (auto simp: Let_def split: if_splits outcome.splits)

lemma canonicalize_loop_invariant:
  assumes "canonicalize_loop new_id kind model st = Ok st'" "P st"
    "\<And>st. P st \<Longrightarrow> P (fold (canonicalize_row new_id model) (canonicalize_picked kind model (fst st)) st)"
  shows "P st' \<and> canonicalize_picked kind model (fst st') = []"
  using assms
proof (induction new_id kind model st rule: canonicalize_loop.induct)
  case (1 new_id kind model st)
  from canonicalize_loop_cases [OF "1.prems"(1)] show ?case
  proof (elim disjE conjE exE)
    fix ps assume picked: "canonicalize_picked kind model (fst st) \<noteq> []"
      and ok: "all_ok (map blob_of (canonicalize_picked kind model (fst st))) = Ok ps"
      and rest: "canonicalize_loop new_id kind model (fold (canonicalize_row new_id model) (canonicalize_picked kind model (fst st)) st) = Ok st'"
    show ?thesis by (rule "1.IH" [OF refl picked ok rest]) (use "1.prems" in auto)
  qed (use "1.prems" in auto)
qed

lemma picked_legacy: "set (canonicalize_picked kind model rows) \<subseteq> set (legacy_rows kind model rows)"
  by (auto simp: canonicalize_picked_def dest: in_set_takeD)

lemma picked_Nil: "canonicalize_picked kind model rows = [] \<longleftrightarrow> legacy_rows kind model rows = []"
  by (metis canonicalize_picked_def length_0_conv length_sort_by take_eq_Nil zero_neq_numeral)

text \<open>For every row of the kind and model, legacy or not, there is one of its path that is at least as new.\<close>

definition model_row :: "str \<Rightarrow> str \<Rightarrow> embedding_row \<Rightarrow> bool" where
  "model_row kind model e = (em_kind e = kind \<and> (em_model e = model \<or> is_legacy_model model (em_model e)))"

definition covered :: "str \<Rightarrow> str \<Rightarrow> embedding_row list \<Rightarrow> embedding_row list \<Rightarrow> bool" where
  "covered kind model old rows =
     (\<forall>e \<in> set old. model_row kind model e \<longrightarrow>
        (\<exists>e' \<in> set rows. model_row kind model e' \<and> em_path e' = em_path e \<and> em_updated_at e \<le> em_updated_at e'))"

lemma upsert_row_updates:
  assumes "z \<in> set rows"
  shows "(if embedding_key z = embedding_key row \<and> cond z row then row\<lparr>em_rowid := em_rowid z\<rparr> else z) \<in> set (upsert_row cond new_id row rows)"
proof (cases "embedding_key row \<in> embedding_key ` set rows")
  case True
  let ?f = "\<lambda>e. if embedding_key e = embedding_key row \<and> cond e row then row\<lparr>em_rowid := em_rowid e\<rparr> else e"
  have "?f z \<in> ?f ` set rows" using assms by (rule imageI)
  then show ?thesis using True by (simp add: upsert_row_def)
next
  case False
  then have "embedding_key z \<noteq> embedding_key row" using assms by (metis imageI)
  then show ?thesis using False assms by (simp add: upsert_row_def)
qed

lemma canonicalize_row_newest:
  assumes "e \<in> set rows" "em_kind e = kind" "is_legacy_model model (em_model e)" "distinct (map embedding_key rows)" "x \<in> set rows"
    "model_row kind model x"
  shows "\<exists>y \<in> set (fst (canonicalize_row new_id model e (rows, n))). model_row kind model y \<and> em_path y = em_path x \<and> em_updated_at x \<le> em_updated_at y"
proof -
  let ?new = "e\<lparr>em_model := model\<rparr>"
  let ?cond = "\<lambda>old new. em_updated_at old < em_updated_at (new :: embedding_row)"
  let ?rows = "upsert_row ?cond (new_id rows) ?new rows"
  have other: "em_model e \<noteq> model" using assms(3) by auto
  have only: "y \<in> set rows \<Longrightarrow> embedding_key y = embedding_key e \<Longrightarrow> y = e" for y
    using assms(1,4) by (auto simp: distinct_map dest: inj_onD)
  have stays: "y \<in> set ?rows \<Longrightarrow> em_model y = model \<or> y \<noteq> e \<and> y \<in> set rows
      \<Longrightarrow> y \<in> set (fst (canonicalize_row new_id model e (rows, n)))" for y
    using other only [of y] by (auto simp: canonicalize_row_def Let_def same_key_def) (simp add: embedding_key_def)
  have moved: "\<exists>y \<in> set ?rows. embedding_key y = embedding_key ?new \<and> em_updated_at e \<le> em_updated_at y"
  proof (cases "embedding_key ?new \<in> embedding_key ` set rows")
    case True
    then obtain z where z: "z \<in> set rows" "embedding_key z = embedding_key ?new" by auto
    show ?thesis
    proof (cases "?cond z ?new")
      case True
      then have "?new\<lparr>em_rowid := em_rowid z\<rparr> \<in> set ?rows" using upsert_row_updates [OF z(1), of ?new ?cond "new_id rows"] z(2) by simp
      then show ?thesis by (intro bexI) (auto simp: embedding_key_def)
    next
      case False
      then have "z \<in> set ?rows" using upsert_row_updates [OF z(1), of ?new ?cond "new_id rows"] by auto
      then show ?thesis using z False by (intro bexI [of _ z]) auto
    qed
  next
    case False
    then have "?new\<lparr>em_rowid := new_id rows\<rparr> \<in> set ?rows" by (simp add: upsert_row_def)
    then show ?thesis by (intro bexI) (auto simp: embedding_key_def)
  qed
  then obtain y where y: "y \<in> set ?rows" "embedding_key y = embedding_key ?new" "em_updated_at e \<le> em_updated_at y" by blast
  then have y': "y \<in> set (fst (canonicalize_row new_id model e (rows, n)))" "model_row kind model y" "em_path y = em_path e"
    using stays [OF y(1)] assms(2) by (auto simp: embedding_key_def model_row_def)
  show ?thesis
  proof (cases "x = e")
    case True
    then show ?thesis using y y' by blast
  next
    case x: False
    show ?thesis
    proof (cases "embedding_key x = embedding_key ?new \<and> ?cond x ?new")
      case True
      then show ?thesis using y y' by (intro bexI [of _ y]) (auto simp: embedding_key_def)
    next
      case False
      then have "x \<in> set ?rows" using upsert_row_updates [OF assms(5), of ?new ?cond "new_id rows"] by auto
      then show ?thesis using stays x assms(5,6) by (intro bexI [of _ x]) auto
    qed
  qed
qed

lemma fold_canonicalize_covers:
  assumes "set es \<subseteq> set (fst st)" "\<forall>e \<in> set es. em_kind e = kind \<and> is_legacy_model model (em_model e)" "distinct (map embedding_key es)"
    "distinct (map embedding_key (fst st))" "covered kind model old (fst st)"
  shows "covered kind model old (fst (fold (canonicalize_row new_id model) es st))"
  using assms
proof (induction es arbitrary: st)
  case (Cons e es)
  obtain rows n where st: "st = (rows, n)" by (cases st)
  let ?st = "canonicalize_row new_id model e st"
  have e: "e \<in> set rows" "em_kind e = kind" "is_legacy_model model (em_model e)" using Cons.prems st by auto
  have "covered kind model old (fst ?st)"
    unfolding covered_def
  proof (intro ballI impI)
    fix x assume "x \<in> set old" "model_row kind model x"
    then obtain x' where "x' \<in> set rows" "model_row kind model x'" "em_path x' = em_path x" "em_updated_at x \<le> em_updated_at x'"
      using Cons.prems(5) st by (auto simp: covered_def)
    with canonicalize_row_newest [OF e, of x' new_id n] Cons.prems(4) st
    show "\<exists>e' \<in> set (fst ?st). model_row kind model e' \<and> em_path e' = em_path x \<and> em_updated_at x \<le> em_updated_at e'"
      by (auto intro: order_trans)
  qed
  moreover have "set es \<subseteq> set (fst ?st)"
  proof
    fix x assume x: "x \<in> set es"
    then have "embedding_key x \<in> embedding_key ` set es" "x \<in> set rows" "em_model x \<noteq> model" using Cons.prems st by auto
    moreover from this(1) have "embedding_key x \<noteq> embedding_key e" using Cons.prems(3) by auto
    ultimately have "embedding_key x \<noteq> embedding_key e" "x \<in> set rows" "em_model x \<noteq> model" by simp_all
    moreover from this have "embedding_key x \<noteq> embedding_key (e\<lparr>em_model := model\<rparr>)" by (auto simp: embedding_key_def)
    ultimately show "x \<in> set (fst ?st)"
      using upsert_row_updates [of x rows "e\<lparr>em_model := model\<rparr>" "\<lambda>old new. em_updated_at old < em_updated_at new" "new_id rows"]
      by (auto simp: st canonicalize_row_def Let_def same_key_def)
  qed
  ultimately show ?case using Cons by (simp add: canonicalize_row_keys)
qed simp

lemma distinct_take_map: "distinct (map f xs) \<Longrightarrow> distinct (map f (take n xs))"
  by (simp add: take_map [symmetric] distinct_take)

lemma picked_keys:
  assumes "distinct (map embedding_key rows)" shows "distinct (map embedding_key (canonicalize_picked kind model rows))"
proof -
  have "distinct (map embedding_key (legacy_rows kind model rows))" using assms by (simp add: legacy_rows_def distinct_map_filter)
  moreover have "mset (map embedding_key (sort_by legacy_order (legacy_rows kind model rows))) = mset (map embedding_key (legacy_rows kind model rows))"
    by simp
  ultimately have "distinct (map embedding_key (sort_by legacy_order (legacy_rows kind model rows)))" by (metis mset_eq_imp_distinct_iff)
  then show ?thesis by (simp add: canonicalize_picked_def distinct_take_map)
qed

lemma canonicalize_loop_newest:
  assumes "canonicalize_loop new_id kind model (rows, n) = Ok st'" "distinct (map embedding_key rows)"
  shows "distinct (map embedding_key (fst st')) \<and> covered kind model rows (fst st') \<and> legacy_rows kind model (fst st') = []"
proof -
  let ?P = "\<lambda>st. distinct (map embedding_key (fst st)) \<and> covered kind model rows (fst st)"
  have "?P (fold (canonicalize_row new_id model) (canonicalize_picked kind model (fst st)) st)" if "?P st" for st
    using that picked_legacy [of kind model "fst st"]
    by (intro conjI fold_canonicalize_keys fold_canonicalize_covers picked_keys) (auto simp: legacy_rows_def)
  moreover have "?P (rows, n)" using assms(2) by (auto simp: covered_def)
  ultimately have "?P st' \<and> canonicalize_picked kind model (fst st') = []"
    using canonicalize_loop_invariant [OF assms(1), of ?P] by blast
  then show ?thesis by (simp add: picked_Nil)
qed

lemma canonicalize_keys_ok:
  assumes "canonicalize_legacy_model_keys new_id required m = Ok (n, m')" "manifest_ok m"
  shows "manifest_ok m'"
proof -
  obtain rows k where r: "ok_fold (\<lambda>(kind, model) st. canonicalize_loop new_id kind model st) required (mf_embeddings m, 0) = Ok (rows, k)"
      "m' = m\<lparr>mf_embeddings := rows\<rparr>"
    using assms(1) by (auto simp: canonicalize_legacy_model_keys_def map_ok_def and_then_Ok_iff)
  have "distinct (map embedding_key (fst (rows, k)))"
    by (rule ok_fold_invariant [OF r(1)])
      (use assms(2) canonicalize_loop_newest in \<open>auto simp: manifest_ok_def\<close>)
  then show ?thesis using r assms(2) set_embeddings_ok by simp
qed

lemma insert_or_ignore_keys:
  "distinct (map embedding_key (fst st)) \<Longrightarrow> distinct (map embedding_key (fst (insert_or_ignore new_id e st)))"
  by (cases st) (auto simp: insert_or_ignore_def embedding_key_def)

lemma fold_ignore_keys:
  "distinct (map embedding_key (fst st)) \<Longrightarrow> distinct (map embedding_key (fst (fold (insert_or_ignore new_id) es st)))"
  by (induction es arbitrary: st) (auto simp: insert_or_ignore_keys)

lemma reuse_ok: "manifest_ok m \<Longrightarrow> manifest_ok (snd (reuse_duplicate_embeddings new_id required m))"
proof -
  assume m: "manifest_ok m"
  let ?step = "\<lambda>(kind, model) (rows, n).
      if \<exists>a \<in> set (mf_assets m). lacks_embedding kind model rows a
      then fold (insert_or_ignore new_id) (duplicate_rows kind model (mf_assets m) rows) (rows, n) else (rows, n)"
  have "distinct (map embedding_key (fst (fold ?step required st)))" if "distinct (map embedding_key (fst st))" for st
    using that by (induction required arbitrary: st) (auto simp: case_prod_unfold fold_ignore_keys)
  from this [of "(mf_embeddings m, 0)"] m show ?thesis
    by (auto simp: reuse_duplicate_embeddings_def Let_def case_prod_unfold manifest_ok_def)
qed

lemma backfill_ok:
  assumes "backfill_embedding_metadata m = Ok (n, m')" "manifest_ok m"
  shows "manifest_ok m'"
proof (cases "\<exists>e \<in> set (mf_embeddings m). sketch_missing e")
  case True
  then obtain rows where rows: "backfill_loop (mf_embeddings m) 0 = Ok (rows, n)" "m' = m\<lparr>mf_embeddings := rows\<rparr>"
    using assms(1) by (auto simp: backfill_embedding_metadata_def map_ok_def and_then_Ok_iff)
  have "distinct (map embedding_key rows)" using backfill_loop_keys [OF rows(1)] assms(2) by (simp add: manifest_ok_def)
  then show ?thesis using rows(2) assms(2) set_embeddings_ok by simp
qed (use assms in \<open>simp add: backfill_embedding_metadata_def\<close>)

section \<open>Reachable manifests\<close>

text \<open>What the indexer does to a manifest, in any order. A transaction that fails leaves it as it was; the two loops
  commit every round on its own, so the rounds are steps too: they are what is left when a later round fails.\<close>

inductive manifest_step :: "row_ids \<Rightarrow> (embedding_row list \<Rightarrow> int) \<Rightarrow> manifest \<Rightarrow> manifest \<Rightarrow> bool" for ids new_id where
  write_batch: "write_embedding_batch ids batch m = Ok (n, m') \<Longrightarrow> manifest_step ids new_id m m'"
| path_error: "manifest_step ids new_id m (record_path_error ids path err now m)"
| item_error: "manifest_step ids new_id m (record_item_error ids item err now m)"
| scan_start: "manifest_step ids new_id m (reset_seen_paths m)"
| scan_path: "manifest_step ids new_id m (snd (remember_seen_path path m))"
| scan_end: "manifest_step ids new_id m (snd (mark_missing_assets_stale m))"
| backfill: "backfill_embedding_metadata m = Ok (n, m') \<Longrightarrow> manifest_step ids new_id m m'"
| canonicalize: "canonicalize_legacy_model_keys new_id required m = Ok (n, m') \<Longrightarrow> manifest_step ids new_id m m'"
| backfill_round: "all_ok (map blob_of (take 1000 (filter sketch_missing (mf_embeddings m)))) = Ok picked
    \<Longrightarrow> manifest_step ids new_id m (m\<lparr>mf_embeddings := fst (backfill_batch (mf_embeddings m) picked 0)\<rparr>)"
| canonicalize_round: "manifest_step ids new_id m
    (m\<lparr>mf_embeddings := fst (fold (canonicalize_row new_id model) (canonicalize_picked kind model (mf_embeddings m)) (mf_embeddings m, 0))\<rparr>)"
| reuse: "manifest_step ids new_id m (snd (reuse_duplicate_embeddings new_id required m))"

definition empty_manifest :: manifest where
  "empty_manifest = \<lparr>mf_assets = [], mf_tiles = [], mf_local_features = [], mf_embeddings = [], mf_seen = []\<rparr>"

inductive manifest_reachable :: "row_ids \<Rightarrow> (embedding_row list \<Rightarrow> int) \<Rightarrow> manifest \<Rightarrow> bool" for ids new_id where
  created: "manifest_reachable ids new_id empty_manifest"
| stepped: "manifest_reachable ids new_id m \<Longrightarrow> manifest_step ids new_id m m' \<Longrightarrow> manifest_reachable ids new_id m'"

lemma round_ok:
  assumes "manifest_ok m"
  shows "manifest_ok (m\<lparr>mf_embeddings := fst (backfill_batch (mf_embeddings m) picked 0)\<rparr>)"
    "manifest_ok (m\<lparr>mf_embeddings := fst (fold (canonicalize_row new_id model) es (mf_embeddings m, 0))\<rparr>)"
  using assms by (auto intro!: set_embeddings_ok fold_canonicalize_keys simp: backfill_batch_def fold_backfill_keys manifest_ok_def)

lemma manifest_step_ok: "manifest_step ids new_id m m' \<Longrightarrow> fresh_ids ids \<Longrightarrow> manifest_ok m \<Longrightarrow> manifest_ok m'"
  by (induction rule: manifest_step.induct)
    (auto intro: write_embedding_batch_ok record_path_error_ok record_item_error_ok seen_ok mark_missing_ok backfill_ok canonicalize_keys_ok
      round_ok reuse_ok)

section \<open>Facts of the operations\<close>

lemma find_path:
  assumes "distinct (map as_path rows)" "a \<in> set rows" "as_stale a = 0"
  shows "find (\<lambda>b. as_path b = as_path a \<and> as_stale b = 0) rows = Some a"
  using assms by (induction rows) auto

lemma prepared_has_sketch:
  "has_sketch \<lparr>em_rowid = i, em_path = path, em_kind = kind, em_model = model, em_dim = d, em_vec = b,
     em_sketch = pe_sketch_hex (prepare_embedding_value v), em_bucket = Some (pe_bucket (prepare_embedding_value v)), em_updated_at = now\<rparr>"
  by (simp add: has_sketch_def prepare_embedding_value_def Let_def)

lemma upsert_same [simp]:
  "mf_assets (upsert_prepared_embedding_at_with_legacy_cleanup ids path kind model v now cleanup m) = mf_assets m"
  "mf_tiles (upsert_prepared_embedding_at_with_legacy_cleanup ids path kind model v now cleanup m) = mf_tiles m"
  by (simp_all add: upsert_prepared_embedding_at_with_legacy_cleanup_def Let_def)

lemma upsert_row_present:
  "\<exists>i. row\<lparr>em_rowid := i\<rparr> \<in> set (upsert_row (\<lambda>_ _. True) new_id row rows)"
proof (cases "embedding_key row \<in> embedding_key ` set rows")
  case True
  then obtain z where "z \<in> set rows" "embedding_key z = embedding_key row" by auto
  then have "row\<lparr>em_rowid := em_rowid z\<rparr> \<in> set (upsert_row (\<lambda>_ _. True) new_id row rows)"
    using upsert_row_updates [of z rows row "\<lambda>_ _. True" new_id] by simp
  then show ?thesis by blast
next
  case False
  then have "row\<lparr>em_rowid := new_id\<rparr> \<in> set (upsert_row (\<lambda>_ _. True) new_id row rows)" by (simp add: upsert_row_def)
  then show ?thesis by blast
qed

lemma upsert_exists:
  "embedding_exists path kind model
     (upsert_prepared_embedding_at_with_legacy_cleanup ids path kind model (prepare_embedding_value v) now cleanup m)"
proof -
  let ?v = "prepare_embedding_value v"
  let ?row = "\<lambda>i. \<lparr>em_rowid = i, em_path = path, em_kind = kind, em_model = model, em_dim = pe_dim ?v, em_vec = Blob (pe_blob ?v),
      em_sketch = pe_sketch_hex ?v, em_bucket = Some (pe_bucket ?v), em_updated_at = now\<rparr>"
  obtain i where "?row i \<in> set (upsert_row (\<lambda>_ _. True) (ri_embedding ids m) (?row 0) (mf_embeddings m))"
    using upsert_row_present [of "?row 0" "ri_embedding ids m" "mf_embeddings m"] by auto
  then have "?row i \<in> set (mf_embeddings (upsert_prepared_embedding_at_with_legacy_cleanup ids path kind model ?v now cleanup m))"
    by (simp add: upsert_prepared_embedding_at_with_legacy_cleanup_def Let_def)
  then show ?thesis unfolding embedding_exists_def by (rule bexI [rotated]) (simp add: prepared_has_sketch)
qed

lemma upsert_keeps:
  assumes "embedding_exists path' kind' model' m" "kind' \<noteq> kind"
  shows "embedding_exists path' kind' model' (upsert_prepared_embedding_at_with_legacy_cleanup ids path kind model v now cleanup m)"
proof -
  obtain e where e: "e \<in> set (mf_embeddings m)" "em_path e = path'" "em_kind e = kind'"
    "em_model e = model' \<or> is_legacy_model model' (em_model e)" "has_sketch e"
    using assms(1) by (auto simp: embedding_exists_def)
  let ?row = "\<lparr>em_rowid = 0, em_path = path, em_kind = kind, em_model = model, em_dim = pe_dim v, em_vec = Blob (pe_blob v),
      em_sketch = pe_sketch_hex v, em_bucket = Some (pe_bucket v), em_updated_at = now\<rparr>"
  have "embedding_key e \<noteq> embedding_key ?row" using e(3) assms(2) by (auto simp: embedding_key_def)
  then have "e \<in> set (upsert_row (\<lambda>_ _. True) (ri_embedding ids m) ?row (mf_embeddings m))"
    using upsert_row_updates [OF e(1), of ?row "\<lambda>_ _. True" "ri_embedding ids m"] by simp
  then have "e \<in> set (mf_embeddings (upsert_prepared_embedding_at_with_legacy_cleanup ids path kind model v now cleanup m))"
    using e(3) assms(2) by (simp add: upsert_prepared_embedding_at_with_legacy_cleanup_def Let_def)
  then show ?thesis using e unfolding embedding_exists_def by blast
qed

section \<open>The loops as one pass\<close>

definition filled :: "embedding_row \<Rightarrow> embedding_row" where
  "filled e = (case em_vec e of
     Blob b \<Rightarrow> (case vector_sketch64_blob b of
         Some sketch \<Rightarrow> e\<lparr>em_sketch := hex16 sketch, em_bucket := Some (int (unat (vector_bucket12 sketch)))\<rparr>
       | None \<Rightarrow> e\<lparr>em_sketch := ascii ''invalid'', em_bucket := Some (-1)\<rparr>)
   | Not_Blob \<Rightarrow> e)"

definition sketchable :: "embedding_row \<Rightarrow> bool" where
  "sketchable e = (case em_vec e of Blob b \<Rightarrow> vector_sketch64_blob b \<noteq> None | Not_Blob \<Rightarrow> False)"

definition all_blobs :: "embedding_row list \<Rightarrow> bool" where
  "all_blobs rows = list_all (\<lambda>e. em_vec e \<noteq> Not_Blob) rows"

definition row_blob :: "embedding_row \<Rightarrow> int \<times> bytes" where
  "row_blob e = (em_rowid e, case em_vec e of Blob b \<Rightarrow> b | Not_Blob \<Rightarrow> [])"

lemma all_ok_blobs: "all_blobs es \<Longrightarrow> all_ok (map blob_of es) = Ok (map row_blob es)"
  by (induction es) (auto simp: all_blobs_def row_blob_def map_ok_def split: sql_blob.splits)

lemma filled_same [simp]: "em_rowid (filled e) = em_rowid e" "em_vec (filled e) = em_vec e" "em_kind (filled e) = em_kind e"
  by (auto simp: filled_def split: sql_blob.splits option.splits)

lemma filled_not_missing [simp]: "em_vec e \<noteq> Not_Blob \<Longrightarrow> \<not> sketch_missing (filled e)"
  by (auto simp: filled_def sketch_missing_def hex16_def ascii_def split: sql_blob.splits option.splits)

lemma backfill_row_filled:
  assumes "e \<in> set rows" "distinct (map em_rowid rows)" "em_vec e \<noteq> Not_Blob"
  shows "backfill_row (row_blob e) (rows, n) = (map (\<lambda>r. if r = e then filled r else r) rows, n + of_bool (sketchable e))"
proof -
  have "r \<in> set rows \<Longrightarrow> em_rowid r = em_rowid e \<longleftrightarrow> r = e" for r using assms(1,2) by (auto simp: distinct_map dest: inj_onD)
  then show ?thesis using assms(3)
    by (auto simp: backfill_row_def row_blob_def filled_def sketchable_def split: sql_blob.splits option.splits)
qed

lemma filled_ids: "map em_rowid (map (\<lambda>r. if P r then filled r else r) rows) = map em_rowid rows"
  by simp

lemma filled_blobs: "all_blobs rows \<Longrightarrow> all_blobs (map (\<lambda>r. if P r then filled r else r) rows)"
  by (auto simp: all_blobs_def list_all_iff)

lemma fold_backfill_filled:
  assumes "set es \<subseteq> set rows" "distinct es" "distinct (map em_rowid rows)" "all_blobs rows"
  shows "fold backfill_row (map row_blob es) (rows, n)
    = (map (\<lambda>r. if r \<in> set es then filled r else r) rows, n + length (filter sketchable es))"
  using assms
proof (induction es arbitrary: rows n)
  case (Cons e es)
  let ?rows = "map (\<lambda>r. if r = e then filled r else r) rows"
  have e: "e \<in> set rows" "em_vec e \<noteq> Not_Blob" using Cons.prems by (auto simp: all_blobs_def list_all_iff)
  have ids: "distinct (map em_rowid ?rows)" using Cons.prems(3) by (simp only: filled_ids)
  have only: "r \<in> set rows \<Longrightarrow> em_rowid r = em_rowid e \<Longrightarrow> r = e" for r
    using e(1) Cons.prems(3) by (auto simp: distinct_map dest: inj_onD)
  have "set es \<subseteq> set ?rows" using Cons.prems(1,2) by auto
  moreover have "all_blobs ?rows" using Cons.prems(4) by (rule filled_blobs)
  ultimately have "fold backfill_row (map row_blob es) (?rows, n + of_bool (sketchable e))
      = (map (\<lambda>r. if r \<in> set es then filled r else r) ?rows, n + of_bool (sketchable e) + length (filter sketchable es))"
    using Cons.prems(2) ids by (intro Cons.IH) simp_all
  moreover have "filled e \<notin> set es"
  proof
    assume "filled e \<in> set es"
    then have "filled e = e" using only [of "filled e"] Cons.prems(1) by auto
    then show False using \<open>filled e \<in> set es\<close> Cons.prems(2) by simp
  qed
  ultimately show ?case using backfill_row_filled [OF e(1) Cons.prems(3) e(2)] by auto
qed simp

lemma filter_not_in_take: "distinct xs \<Longrightarrow> filter (\<lambda>x. x \<notin> set (take n xs)) xs = drop n xs"
proof -
  assume d: "distinct xs"
  then have "distinct (take n xs @ drop n xs)" by simp
  then have "set (take n xs) \<inter> set (drop n xs) = {}" by (metis distinct_append)
  then have "filter (\<lambda>x. x \<notin> set (take n xs)) (take n xs @ drop n xs) = drop n xs"
    by (auto simp only: filter_append) (auto simp: filter_id_conv)
  then show ?thesis by simp
qed

lemma filter_missing_filled:
  "(\<And>e. e \<in> set rows \<Longrightarrow> em_vec e \<noteq> Not_Blob) \<Longrightarrow>
   filter sketch_missing (map (\<lambda>r. if r \<in> S then filled r else r) rows) = filter (\<lambda>r. r \<notin> S) (filter sketch_missing rows)"
  by (induction rows) auto

lemma map_filled_again:
  assumes "all_blobs rows" "\<forall>e \<in> S. sketch_missing e"
  shows "map (\<lambda>e. if sketch_missing e then filled e else e) (map (\<lambda>r. if r \<in> S then filled r else r) rows)
    = map (\<lambda>e. if sketch_missing e then filled e else e) rows"
proof -
  have "(if sketch_missing e' then filled e' else e') = (if sketch_missing e then filled e else e)"
    if "e \<in> set rows" "e' = (if e \<in> S then filled e else e)" for e e'
    using that assms by (auto simp: all_blobs_def list_all_iff)
  then show ?thesis unfolding map_map o_def by (intro map_cong refl) blast
qed

lemma missing_batch:
  assumes "distinct rows" "all_blobs rows"
  shows "filter sketch_missing (map (\<lambda>r. if r \<in> set (take n (filter sketch_missing rows)) then filled r else r) rows)
    = drop n (filter sketch_missing rows)"
proof -
  have "filter sketch_missing (map (\<lambda>r. if r \<in> set (take n (filter sketch_missing rows)) then filled r else r) rows)
      = filter (\<lambda>r. r \<notin> set (take n (filter sketch_missing rows))) (filter sketch_missing rows)"
    by (rule filter_missing_filled) (use assms(2) in \<open>auto simp: all_blobs_def list_all_iff\<close>)
  also have "\<dots> = drop n (filter sketch_missing rows)" using assms(1) by (intro filter_not_in_take) simp
  finally show ?thesis .
qed

lemma backfill_loop_filled:
  assumes "distinct (map em_rowid rows)" "all_blobs rows"
  shows "backfill_loop rows n = Ok (map (\<lambda>e. if sketch_missing e then filled e else e) rows,
    n + length (filter sketchable (filter sketch_missing rows)))"
  using assms
proof (induction rows n rule: backfill_loop.induct)
  case (1 rows n)
  let ?missing = "filter sketch_missing rows"
  let ?es = "take 1000 ?missing"
  have es: "set ?es \<subseteq> set rows" "\<forall>e \<in> set ?es. sketch_missing e" by (auto dest: in_set_takeD)
  have d: "distinct rows" using "1.prems"(1) by (simp add: distinct_map)
  have ok: "all_ok (map blob_of ?es) = Ok (map row_blob ?es)"
    using "1.prems"(2) es(1) by (intro all_ok_blobs) (auto simp: all_blobs_def list_all_iff)
  show ?case
  proof (cases "?es = []")
    case True
    then have "?missing = []" by simp
    then have "map (\<lambda>e. if sketch_missing e then filled e else e) rows = rows" by (auto simp: filter_empty_conv intro: map_idI)
    with True \<open>?missing = []\<close> ok show ?thesis by (subst backfill_loop.simps) simp
  next
    case False
    let ?rows = "map (\<lambda>r. if r \<in> set ?es then filled r else r) rows"
    have batch: "backfill_batch rows (map row_blob ?es) n = (?rows, n + length (filter sketchable ?es))"
      unfolding backfill_batch_def
      by (rule fold_backfill_filled [OF es(1) distinct_take [OF distinct_filter [OF d]] "1.prems"])
    have blob: "e \<in> set rows \<Longrightarrow> em_vec e \<noteq> Not_Blob" for e using "1.prems"(2) by (auto simp: all_blobs_def list_all_iff)
    have "filter sketch_missing ?rows = drop 1000 ?missing"
      by (rule missing_batch [OF d "1.prems"(2)])
    moreover have "distinct (map em_rowid ?rows)" "all_blobs ?rows"
      unfolding filled_ids by (rule "1.prems"(1), rule filled_blobs [OF "1.prems"(2)])
    ultimately have rest: "backfill_loop ?rows (n + length (filter sketchable ?es))
        = Ok (map (\<lambda>e. if sketch_missing e then filled e else e) ?rows,
            n + length (filter sketchable ?es) + length (filter sketchable (drop 1000 ?missing)))"
      using "1.IH" [OF ok, unfolded batch fst_conv snd_conv] False by (simp only: map_is_Nil_conv simp_thms)
    have "map (\<lambda>e. if sketch_missing e then filled e else e) ?rows = map (\<lambda>e. if sketch_missing e then filled e else e) rows"
      by (rule map_filled_again [OF "1.prems"(2) es(2)])
    moreover have "length (filter sketchable ?missing) = length (filter sketchable ?es) + length (filter sketchable (drop 1000 ?missing))"
      by (simp only: length_append [symmetric] filter_append [symmetric] append_take_drop_id)
    ultimately show ?thesis
      by (subst backfill_loop.simps) (simp only: ok batch rest outcome.case map_is_Nil_conv False if_False fst_conv snd_conv add.assoc)
  qed
qed

definition of_kind :: "str \<Rightarrow> embedding_row list \<Rightarrow> embedding_row list" where
  "of_kind kind rows = filter (\<lambda>e. em_kind e = kind) rows"

lemma upsert_row_blobs:
  "em_vec row \<noteq> Not_Blob \<Longrightarrow> all_blobs rows \<Longrightarrow> all_blobs (upsert_row cond new_id row rows)"
  by (auto simp: upsert_row_def all_blobs_def list_all_iff)

lemma fold_canonicalize_blobs:
  assumes "all_blobs es" "all_blobs (fst st)" shows "all_blobs (fst (fold (canonicalize_row new_id model) es st))"
  using assms
proof (induction es arbitrary: st)
  case (Cons e es)
  have "em_vec e \<noteq> Not_Blob" using Cons.prems(1) by (simp add: all_blobs_def)
  then have "all_blobs (upsert_row (\<lambda>old new. em_updated_at old < em_updated_at new) (new_id (fst st)) (e\<lparr>em_model := model\<rparr>) (fst st))"
    using Cons.prems(2) by (intro upsert_row_blobs) simp_all
  then have "all_blobs (fst (canonicalize_row new_id model e st))"
    by (cases st) (auto simp: canonicalize_row_def Let_def all_blobs_def list_all_iff)
  with Cons show ?case by (simp add: all_blobs_def)
qed simp

lemma picked_blobs: "all_blobs rows \<Longrightarrow> all_blobs (canonicalize_picked kind model rows)"
  using picked_legacy [of kind model rows] by (auto simp: all_blobs_def list_all_iff legacy_rows_def)

lemma canonicalize_loop_total:
  assumes "all_blobs (fst st)"
  shows "\<exists>st'. canonicalize_loop new_id kind model st = Ok st' \<and> all_blobs (fst st')"
  using assms
proof (induction new_id kind model st rule: canonicalize_loop.induct)
  case (1 new_id kind model st)
  note ok = all_ok_blobs [OF picked_blobs [OF "1.prems"], of kind model]
  show ?case
  proof (cases "canonicalize_picked kind model (fst st) = []")
    case True
    then show ?thesis using "1.prems" by (subst canonicalize_loop.simps) (simp add: Let_def)
  next
    case False
    from "1.IH" [OF refl False ok fold_canonicalize_blobs [OF picked_blobs [OF "1.prems"] "1.prems"]] False ok
    show ?thesis by (subst canonicalize_loop.simps) (simp add: Let_def)
  qed
qed

lemma upsert_row_of_kind: "em_kind row \<noteq> kind \<Longrightarrow> of_kind kind (upsert_row cond new_id row rows) = of_kind kind rows"
proof -
  assume "em_kind row \<noteq> kind"
  then have "of_kind kind (map (\<lambda>e. if embedding_key e = embedding_key row \<and> c e then row\<lparr>em_rowid := em_rowid e\<rparr> else e) rows) = of_kind kind rows" for c
    by (induction rows) (auto simp: of_kind_def embedding_key_def)
  with \<open>em_kind row \<noteq> kind\<close> show ?thesis by (simp add: upsert_row_def) (simp add: of_kind_def)
qed

lemma fold_canonicalize_of_kind:
  assumes "\<forall>e \<in> set es. em_kind e = kind" "kind' \<noteq> kind"
  shows "of_kind kind' (fst (fold (canonicalize_row new_id model) es st)) = of_kind kind' (fst st)"
  using assms
proof (induction es arbitrary: st)
  case (Cons e es)
  then have e: "em_kind e \<noteq> kind'" by simp
  have "of_kind kind' (filter (\<lambda>r. \<not> same_key r e) rows) = of_kind kind' rows" for rows
    using e by (auto simp: of_kind_def same_key_def embedding_key_def intro!: filter_cong)
  then have "of_kind kind' (fst (canonicalize_row new_id model e st)) = of_kind kind' (fst st)"
    using e by (cases st) (simp add: canonicalize_row_def Let_def upsert_row_of_kind)
  with Cons show ?case by simp
qed simp

lemma canonicalize_loop_of_kind:
  assumes "canonicalize_loop new_id kind model st = Ok st'" "kind' \<noteq> kind"
  shows "of_kind kind' (fst st') = of_kind kind' (fst st)"
proof -
  have "of_kind kind' (fst (fold (canonicalize_row new_id model) (canonicalize_picked kind model (fst s)) s)) = of_kind kind' (fst s)" for s
    using picked_legacy [of kind model "fst s"] assms(2) by (intro fold_canonicalize_of_kind) (auto simp: legacy_rows_def)
  then show ?thesis
    using canonicalize_loop_invariant [OF assms(1), of "\<lambda>s. of_kind kind' (fst s) = of_kind kind' (fst st)"] by simp
qed

lemma covered_of_kind: "covered kind model (of_kind kind old) (of_kind kind rows) \<longleftrightarrow> covered kind model old rows"
  by (auto simp: covered_def of_kind_def model_row_def)

lemma legacy_of_kind: "legacy_rows kind model (of_kind kind rows) = legacy_rows kind model rows"
  by (induction rows) (auto simp: legacy_rows_def of_kind_def)

lemma canonicalize_keys_newest:
  assumes "distinct (map fst required)" "all_blobs (fst st)" "distinct (map embedding_key (fst st))"
  shows "\<exists>st'. ok_fold (\<lambda>(kind, model) st. canonicalize_loop new_id kind model st) required st = Ok st'
    \<and> (\<forall>kind. kind \<notin> fst ` set required \<longrightarrow> of_kind kind (fst st') = of_kind kind (fst st))
    \<and> (\<forall>(kind, model) \<in> set required. covered kind model (fst st) (fst st') \<and> legacy_rows kind model (fst st') = [])"
  using assms
proof (induction required arbitrary: st)
  case (Cons p required)
  obtain kind model where p: "p = (kind, model)" by (cases p)
  obtain s where s: "canonicalize_loop new_id kind model st = Ok s" "all_blobs (fst s)"
    using canonicalize_loop_total [OF Cons.prems(2)] by blast
  have n: "distinct (map embedding_key (fst s)) \<and> covered kind model (fst st) (fst s) \<and> legacy_rows kind model (fst s) = []"
    using canonicalize_loop_newest [of new_id kind model "fst st" "snd st" s] s(1) Cons.prems(3) by simp
  have k: "kind \<notin> fst ` set required" using Cons.prems(1) p by auto
  obtain st' where st': "ok_fold (\<lambda>(kind, model) st. canonicalize_loop new_id kind model st) required s = Ok st'"
    "\<And>kind. kind \<notin> fst ` set required \<Longrightarrow> of_kind kind (fst st') = of_kind kind (fst s)"
    "\<And>kind model. (kind, model) \<in> set required \<Longrightarrow> covered kind model (fst s) (fst st') \<and> legacy_rows kind model (fst st') = []"
    using Cons.IH [of s] Cons.prems(1) s(2) n by force
  have "covered kind model (fst st) (fst st') \<and> legacy_rows kind model (fst st') = []"
    using n st'(2) [OF k] covered_of_kind legacy_of_kind by metis
  moreover have "covered kind' model' (fst st) (fst st')" if "(kind', model') \<in> set required" for kind' model'
  proof -
    have "kind' \<noteq> kind" using that k by force
    then show ?thesis using st'(3) [OF that] canonicalize_loop_of_kind [OF s(1)] covered_of_kind by metis
  qed
  moreover have "of_kind kind' (fst st') = of_kind kind' (fst st)" if "kind' \<noteq> kind" "kind' \<notin> fst ` set required" for kind'
    using st'(2) [OF that(2)] canonicalize_loop_of_kind [OF s(1) that(1)] by simp
  ultimately show ?case using s(1) st'(1,3) p by auto
qed simp

lemma find_asset:
  assumes "distinct (map as_path rows)" "a \<in> set rows"
  shows "find (\<lambda>b. as_path b = as_path a) rows = Some a"
  using assms by (induction rows) auto

lemma upsert_asset_present:
  "\<exists>i. row\<lparr>as_id := i\<rparr> \<in> set (upsert_asset (\<lambda>old new. new\<lparr>as_id := as_id old\<rparr>) new_id row rows)"
proof (cases "as_path row \<in> as_path ` set rows")
  case True
  then obtain a where "a \<in> set rows" "as_path a = as_path row" by auto
  then have "row\<lparr>as_id := as_id a\<rparr> \<in> set (upsert_asset (\<lambda>old new. new\<lparr>as_id := as_id old\<rparr>) new_id row rows)"
    using True by (force simp: upsert_asset_def)
  then show ?thesis by blast
qed (auto simp: upsert_asset_def)

lemma written_asset:
  assumes "write_asset_row ids item now m = Ok (m', i)" "manifest_ok m" "fresh_ids ids"
  shows "(item_row item now None)\<lparr>as_id := i\<rparr> \<in> set (mf_assets m') \<and> mf_embeddings m' = mf_embeddings m \<and> manifest_ok m'"
proof -
  let ?m = "write_item_row ids item now None m"
  have m': "m' = ?m" "\<exists>a. find (\<lambda>a. as_path a = pi_path item) (mf_assets ?m) = Some a \<and> i = as_id a"
    using assms(1) by (auto simp: write_asset_row_def Let_def split: option.splits)
  have ok: "manifest_ok ?m" by (rule write_item_row_ok [OF assms(2,3)])
  obtain k where k: "(item_row item now None)\<lparr>as_id := k\<rparr> \<in> set (mf_assets ?m)"
    using upsert_asset_present [of "item_row item now None"] by (auto simp: write_item_row_def)
  have "find (\<lambda>a. as_path a = pi_path item) (mf_assets ?m) = Some ((item_row item now None)\<lparr>as_id := k\<rparr>)"
    using find_asset [OF _ k] ok by (simp add: manifest_ok_def item_row_def Let_def)
  then show ?thesis using m' k ok by (auto simp: write_item_row_def)
qed

definition required_keys :: "(str \<times> vector) option \<Rightarrow> (str \<times> vector) option \<Rightarrow> (str \<times> str) list" where
  "required_keys clip sscd =
     (case clip of None \<Rightarrow> [] | Some (key, _) \<Rightarrow> [(ascii ''clip'', key)]) @ (case sscd of None \<Rightarrow> [] | Some (key, _) \<Rightarrow> [(ascii ''sscd'', key)])"

definition prepared :: "(str \<times> vector) option \<Rightarrow> (str \<times> prepared_embedding) option" where
  "prepared v = map_option (\<lambda>(key, v). (key, prepare_embedding_value v)) v"

definition complete_item :: "pending_image \<Rightarrow> bool" where
  "complete_item item =
     (let fp = pi_fingerprint item in
      \<not> pi_reuse_existing item \<and> str_len (fp_phash fp) = 16 \<and> fp_phash_algo fp = phash_algo_v2 \<and> fp_blur_algo fp = blur_algo_v2
      \<and> fp_source_class fp \<noteq> [] \<and> tile_region_count \<le> length (filter (\<lambda>t. th_algo t = tile_algo_v1) (fp_tile_hashes fp)))"

definition write_vectors :: "row_ids \<Rightarrow> str \<Rightarrow> (str \<times> vector) option \<Rightarrow> (str \<times> vector) option \<Rightarrow> str \<Rightarrow> bool \<Rightarrow> bool \<Rightarrow> manifest \<Rightarrow> manifest" where
  "write_vectors ids path clip sscd now c1 c2 m =
     (let m = (case prepared clip of None \<Rightarrow> m | Some (key, v) \<Rightarrow>
            upsert_prepared_embedding_at_with_legacy_cleanup ids path (ascii ''clip'') key v now c1 m)
      in (case prepared sscd of None \<Rightarrow> m | Some (key, v) \<Rightarrow>
            upsert_prepared_embedding_at_with_legacy_cleanup ids path (ascii ''sscd'') key v now c2 m))"

lemma write_vectors_same [simp]:
  "mf_assets (write_vectors ids path clip sscd now c1 c2 m) = mf_assets m" "mf_tiles (write_vectors ids path clip sscd now c1 c2 m) = mf_tiles m"
  by (auto simp: write_vectors_def Let_def split: option.splits)

lemma write_vectors_exist:
  assumes "(kind, model) \<in> set (required_keys clip sscd)"
  shows "embedding_exists path kind model (write_vectors ids path clip sscd now c1 c2 m)"
proof -
  have "ascii ''clip'' \<noteq> ascii ''sscd''" by (simp add: ascii_def)
  with assms show ?thesis
    by (auto simp: required_keys_def write_vectors_def prepared_def Let_def intro: upsert_exists upsert_keeps split: option.splits)
qed

lemma tile_hashes_written:
  assumes "mf_tiles m = ts @ map (Pair i) tiles" "tile_region_count \<le> length (filter (\<lambda>t. th_algo t = tile_algo_v1) tiles)"
  shows "tile_hashes_exist i m"
proof -
  have "length (filter (\<lambda>t. fst t = i \<and> th_algo (snd t) = tile_algo_v1) (map (Pair i) tiles)) = length (filter (\<lambda>t. th_algo t = tile_algo_v1) tiles)"
    by (induction tiles) auto
  then show ?thesis using assms by (simp add: tile_hashes_exist_def)
qed

section \<open>What holds of the index\<close>

definition max_ids :: row_ids where
  "max_ids = \<lparr>ri_asset = \<lambda>m. 1 + fold max (map as_id (mf_assets m)) 0, ri_embedding = \<lambda>m. 1 + fold max (map em_rowid (mf_embeddings m)) 0\<rparr>"

lemma fold_max_ge: "x \<in> set xs \<or> x \<le> a \<Longrightarrow> x \<le> fold max xs a" for x :: int
  by (induction xs arbitrary: a) (auto simp: max.coboundedI1 max.coboundedI2)

lemma max_ids_fresh: "fresh_ids max_ids"
  unfolding fresh_ids_def max_ids_def
proof (intro allI notI, simp)
  fix m assume "1 + fold max (map as_id (mf_assets m)) 0 \<in> as_id ` set (mf_assets m)"
  then have "1 + fold max (map as_id (mf_assets m)) 0 \<le> fold max (map as_id (mf_assets m)) 0" by (intro fold_max_ge) simp
  then show False by simp
qed

text \<open>C6. A picture that was written whole is found unchanged: after \<open>write_index_item_prepared\<close> stores a complete
  fingerprint and the vectors of the models asked for, the next scan of a file of that size and time skips it.\<close>

theorem written_item_unchanged:
  assumes "manifest_ok m" "fresh_ids ids" "complete_item item"
    "write_index_item_prepared ids item (prepared clip) (prepared sscd) now c1 c2 m = Ok m'"
  shows "existing_unchanged (pi_path item) (pi_file_size item) (pi_mtime item) (required_keys clip sscd) m'"
proof -
  let ?fp = "pi_fingerprint item"
  obtain m1 i m2 where m1: "write_asset_row ids item now m = Ok (m1, i)" and m2: "replace_tile_hashes i (fp_tile_hashes ?fp) m1 = Ok m2"
    and m': "m' = write_vectors ids (pi_path item) clip sscd now c1 c2 m2"
    using assms(3,4) by (auto simp: write_index_item_prepared_def complete_item_def write_vectors_def Let_def map_ok_def and_then_Ok_iff)
  let ?row = "(item_row item now None)\<lparr>as_id := i\<rparr>"
  note w = written_asset [OF m1 assms(1,2)]
  have i: "i \<in> as_id ` set (mf_assets m1)" using w by (force simp: item_row_def Let_def)
  note t = replace_tile_hashes_ok [OF m2 _ i]
  have "distinct (map as_path (mf_assets m1))" using w by (simp add: manifest_ok_def)
  then have "find (\<lambda>a. as_path a = pi_path item \<and> as_stale a = 0) (mf_assets m1) = Some ?row"
    using find_path [of "mf_assets m1" ?row] w by (simp add: item_row_def Let_def)
  moreover have "mf_assets m' = mf_assets m1" "mf_tiles m' = filter (\<lambda>t. fst t \<noteq> i) (mf_tiles m1) @ map (Pair i) (fp_tile_hashes ?fp)"
    using t w m' by simp_all
  moreover from this(2) have "tile_hashes_exist i m'" using assms(3) by (intro tile_hashes_written) (auto simp: complete_item_def Let_def)
  ultimately show ?thesis
    using assms(3) write_vectors_exist [of _ _ clip sscd "pi_path item" ids now c1 c2 m2] m'
    by (auto simp: existing_unchanged_def item_row_def complete_item_def Let_def list_all_iff)
qed

definition sample_item :: pending_image where
  "sample_item =
     \<lparr>pi_source_root = ascii ''/pics'', pi_path = ascii ''/pics/a.png'', pi_file_size = 10, pi_mtime = 5,
      pi_fingerprint =
        \<lparr>fp_sha256 = ascii ''00'', fp_phash = ascii ''0123456789abcdef'', fp_phash_algo = phash_algo_v2, fp_width = 2, fp_height = 2,
         fp_blur_score = Nan, fp_blur_algo = blur_algo_v2, fp_quality_flags = [], fp_source_class = ascii ''chat'',
         fp_detected_format = ascii ''png'', fp_has_alpha = False, fp_orientation_applied = False, fp_version = ascii ''1'',
         fp_tile_hashes = map (\<lambda>i. \<lparr>th_algo = tile_algo_v1, th_set = ascii ''grid'', th_index = int i, th_x0 = Nan, th_y0 = Nan,
           th_x1 = Nan, th_y1 = Nan, th_hash = ascii ''0123456789abcdef''\<rparr>) [0..<21]\<rparr>,
      pi_reuse_existing = False\<rparr>"

lemma sample_complete: "complete_item sample_item"
  by code_simp

lemma empty_ok: "manifest_ok empty_manifest"
  by (simp add: manifest_ok_def empty_manifest_def)

lemma sample_written: "\<exists>m'. write_index_item_prepared max_ids sample_item clip sscd now c1 c2 empty_manifest = Ok m'"
proof -
  let ?m = "write_item_row max_ids sample_item now None empty_manifest"
  have "write_asset_row max_ids sample_item now empty_manifest = Ok (?m, 1)"
    by (simp add: write_asset_row_def write_item_row_def upsert_asset_def item_row_def empty_manifest_def max_ids_def Let_def)
  moreover have "replace_tile_hashes 1 (fp_tile_hashes (pi_fingerprint sample_item)) (m\<lparr>mf_tiles := []\<rparr>)
      = Ok (m\<lparr>mf_tiles := map (Pair 1) (fp_tile_hashes (pi_fingerprint sample_item))\<rparr>)" for m
    by (simp add: replace_tile_hashes_def sample_item_def tile_key_def map_ok_def upt_rec)
  from this [of ?m] have "\<exists>m'. replace_tile_hashes 1 (fp_tile_hashes (pi_fingerprint sample_item)) ?m = Ok m'"
    by (simp add: write_item_row_def empty_manifest_def)
  moreover have "\<not> pi_reuse_existing sample_item" by (simp add: sample_item_def)
  ultimately show ?thesis by (auto simp: write_index_item_prepared_def map_ok_def)
qed

theorem written_item_unchanged_witness:
  "\<exists>m'. write_index_item_prepared max_ids sample_item (prepared (Some (ascii ''v1'', [0x3F800000]))) (prepared None) [] False False empty_manifest = Ok m'
    \<and> existing_unchanged (ascii ''/pics/a.png'') 10 5 [(ascii ''clip'', ascii ''v1'')] m'"
proof -
  obtain m' where m': "write_index_item_prepared max_ids sample_item (prepared (Some (ascii ''v1'', [0x3F800000]))) (prepared None) [] False False
      empty_manifest = Ok m'"
    using sample_written by blast
  from written_item_unchanged [OF empty_ok max_ids_fresh sample_complete this] m' show ?thesis
    by (simp add: sample_item_def required_keys_def)
qed



definition scan_paths :: "str list \<Rightarrow> manifest \<Rightarrow> manifest" where
  "scan_paths paths m = fold (\<lambda>path m. snd (remember_seen_path path m)) paths (reset_seen_paths m)"

lemma fold_seen:
  "mf_assets (fold (\<lambda>path m. snd (remember_seen_path path m)) paths m) = mf_assets m
   \<and> set (mf_seen (fold (\<lambda>path m. snd (remember_seen_path path m)) paths m)) = set (mf_seen m) \<union> set paths"
  by (induction paths arbitrary: m) (auto simp: remember_seen_path_def)

lemma scan_paths_seen: "mf_assets (scan_paths paths m) = mf_assets m" "set (mf_seen (scan_paths paths m)) = set paths"
  using fold_seen [of paths "reset_seen_paths m"] by (simp_all add: scan_paths_def reset_seen_paths_def)

lemma marked_count:
  "length (filter (\<lambda>a. as_stale a = 0) rows)
   = length (filter (\<lambda>a. as_stale a = 0 \<and> as_path a \<notin> S) rows)
     + length (filter (\<lambda>a. as_stale a = 0) (map (\<lambda>a. if as_stale a = 0 \<and> as_path a \<notin> S then a\<lparr>as_stale := 1\<rparr> else a) rows))"
  by (induction rows) auto

text \<open>C24. After a scan the active pictures are exactly the ones that were active and whose path the scan met; the
  others are marked, nothing else of them changes, and the count of the marked ones is returned.\<close>

theorem scan_marks_missing:
  "let (n, m') = mark_missing_assets_stale (scan_paths paths m) in
     mf_assets m' = map (\<lambda>a. if as_stale a = 0 \<and> as_path a \<notin> set paths then a\<lparr>as_stale := 1\<rparr> else a) (mf_assets m)
     \<and> n + length (filter (\<lambda>a. as_stale a = 0) (mf_assets m')) = length (filter (\<lambda>a. as_stale a = 0) (mf_assets m))"
proof -
  let ?m = "snd (mark_missing_assets_stale (scan_paths paths m))"
  have "mf_assets ?m = map (\<lambda>a. if as_stale a = 0 \<and> as_path a \<notin> set paths then a\<lparr>as_stale := 1\<rparr> else a) (mf_assets m)"
    by (auto simp: mark_missing_assets_stale_def Let_def scan_paths_seen)
  moreover from this have "fst (mark_missing_assets_stale (scan_paths paths m)) + length (filter (\<lambda>a. as_stale a = 0) (mf_assets ?m))
      = length (filter (\<lambda>a. as_stale a = 0) (mf_assets m))"
    using marked_count [of "mf_assets m" "set paths"] by (simp only: mark_missing_assets_stale_def Let_def scan_paths_seen fst_conv)
  ultimately show ?thesis by (simp add: case_prod_unfold)
qed

text \<open>C23. The batches of the backfill are one pass: on a store whose vectors are blobs the loop ends, it fills the sketch
  of every row that lacks one and of no other, and it counts the rows whose vector has a sketch.\<close>

theorem backfill_is_one_pass:
  assumes "distinct (map em_rowid (mf_embeddings m))" "all_blobs (mf_embeddings m)"
  shows "backfill_embedding_metadata m
    = Ok (length (filter (\<lambda>e. sketch_missing e \<and> sketchable e) (mf_embeddings m)),
          m\<lparr>mf_embeddings := map (\<lambda>e. if sketch_missing e then filled e else e) (mf_embeddings m)\<rparr>)"
proof (cases "\<exists>e \<in> set (mf_embeddings m). sketch_missing e")
  case True
  then show ?thesis using backfill_loop_filled [OF assms, of 0]
    by (simp add: backfill_embedding_metadata_def map_ok_def conj_commute)
next
  case False
  then have "map (\<lambda>e. if sketch_missing e then filled e else e) (mf_embeddings m) = mf_embeddings m"
    "filter (\<lambda>e. sketch_missing e \<and> sketchable e) (mf_embeddings m) = []"
    by (auto simp: filter_empty_conv intro: map_idI)
  with False show ?thesis by (simp add: backfill_embedding_metadata_def)
qed

definition sample_row :: "int \<Rightarrow> str \<Rightarrow> str \<Rightarrow> str \<Rightarrow> bytes \<Rightarrow> embedding_row" where
  "sample_row i path model now blob = \<lparr>em_rowid = i, em_path = path, em_kind = ascii ''clip'', em_model = model, em_dim = 1,
     em_vec = Blob blob, em_sketch = [], em_bucket = None, em_updated_at = now\<rparr>"

theorem backfill_is_one_pass_witness:
  "backfill_embedding_metadata (empty_manifest\<lparr>mf_embeddings := [sample_row 1 (ascii ''a'') (ascii ''v1'') [] [1, 2, 3]]\<rparr>)
    = Ok (0, empty_manifest\<lparr>mf_embeddings := [(sample_row 1 (ascii ''a'') (ascii ''v1'') [] [1, 2, 3])\<lparr>em_sketch := ascii ''invalid'', em_bucket := Some (-1)\<rparr>]\<rparr>)"
  by (subst backfill_is_one_pass)
    (simp_all add: sample_row_def all_blobs_def sketch_missing_def sketchable_def filled_def vector_sketch64_blob_def)

text \<open>C8. Renaming the old model keys loses no embedding: on a store whose vectors are blobs it ends, no row of an old key
  is left for the models asked for, and for every path that had a row of the model, old key or new, there is one of the new
  key that is at least as new.\<close>

theorem canonicalize_keeps_newest:
  assumes "manifest_ok m" "all_blobs (mf_embeddings m)" "distinct (map fst required)"
  shows "\<exists>n m'. canonicalize_legacy_model_keys new_id required m = Ok (n, m')
    \<and> list_all (\<lambda>(kind, model). legacy_rows kind model (mf_embeddings m') = []
        \<and> list_all (\<lambda>e. model_row kind model e \<longrightarrow>
            list_ex (\<lambda>e'. embedding_key e' = (em_path e, kind, model) \<and> em_updated_at e \<le> em_updated_at e') (mf_embeddings m'))
          (mf_embeddings m)) required"
proof -
  obtain rows n where r: "ok_fold (\<lambda>(kind, model) st. canonicalize_loop new_id kind model st) required (mf_embeddings m, 0) = Ok (rows, n)"
    "\<forall>(kind, model) \<in> set required. covered kind model (mf_embeddings m) rows \<and> legacy_rows kind model rows = []"
    using canonicalize_keys_newest [of required "(mf_embeddings m, 0)" new_id] assms by (auto simp: manifest_ok_def)
  have "list_ex (\<lambda>e'. embedding_key e' = (em_path e, kind, model) \<and> em_updated_at e \<le> em_updated_at e') rows"
    if "(kind, model) \<in> set required" "e \<in> set (mf_embeddings m)" "model_row kind model e" for kind model e
    using that r(2) by (auto simp: covered_def list_ex_iff embedding_key_def model_row_def legacy_rows_def filter_empty_conv) blast+
  then show ?thesis using r by (auto simp: canonicalize_legacy_model_keys_def map_ok_def list_all_iff)
qed

theorem canonicalize_keeps_newest_witness:
  "\<exists>n m'. canonicalize_legacy_model_keys (\<lambda>_. 9) [(ascii ''clip'', ascii ''v1'')]
       (empty_manifest\<lparr>mf_embeddings := [sample_row 1 (ascii ''a'') (ascii ''v1'') (ascii ''1'') [], sample_row 2 (ascii ''a'') (ascii ''v1:q'') (ascii ''2'') []]\<rparr>)
     = Ok (n, m')
    \<and> list_ex (\<lambda>e. embedding_key e = (ascii ''a'', ascii ''clip'', ascii ''v1'') \<and> ascii ''2'' \<le> em_updated_at e) (mf_embeddings m')"
proof -
  let ?a = "sample_row 1 (ascii ''a'') (ascii ''v1'') (ascii ''1'') []"
  let ?b = "sample_row 2 (ascii ''a'') (ascii ''v1:q'') (ascii ''2'') []"
  let ?m = "empty_manifest\<lparr>mf_embeddings := [?a, ?b]\<rparr>"
  have m: "manifest_ok ?m" "all_blobs (mf_embeddings ?m)" "distinct (map fst [(ascii ''clip'', ascii ''v1'')])"
    by (simp_all add: manifest_ok_def empty_manifest_def sample_row_def embedding_key_def all_blobs_def ascii_def)
  have "model_row (ascii ''clip'') (ascii ''v1'') ?b" by code_simp
  with canonicalize_keeps_newest [OF m, of "\<lambda>_. 9"] show ?thesis by (auto simp: sample_row_def list_ex_iff)
qed

text \<open>The bounds of the range query for old model keys are right: the keys between them are exactly the ones that start
  with the model and a colon, whatever follows it.\<close>

theorem legacy_model_prefix: "is_legacy_model model key = starts_with key (model @ [0x3A])"
  by (simp add: is_legacy_model_def legacy_model_key_bounds_def between_colon_iff)

end
