(* ===== verification/Spec2Isabelle.thy ===== *)
theory Spec2Isabelle imports Qq_Hash Msg_Parser Cfb_Extract Info_Facts Media_Facts Display_Safety Mmp_Facts Capture_Facts
  Image_Search_Facts Image_Manifest_Facts begin

text \<open>
  A model of the decoding core of the QQ analyzer: the Rust program that recovers the messages of
  PCQQ databases.

  The program copies a recovered message store, takes it apart and shows it. A store is a compound
  file (\<open>cfb.rs\<close>) whose streams hold, among others, message tables; a message is a sequence of
  tagged elements (\<open>msg3_parser.rs\<close>) whose payloads are protobuf fields, tagged lists, TD and TA
  records, or zlib and JSON texts; records are lists of masked TXData fields (\<open>txdata_codec.rs\<close>).
  The names behind the numbers of a message come from a second store of encrypted streams, the
  info storage (\<open>info_storage.rs\<close>), and picture names encode digests in base 48 (\<open>qq_hash.rs\<close>).

  Conventions.

  Bytes are words of 8 bits, \<open>u32\<close> and \<open>u64\<close> words of their width; a \<open>usize\<close> is a natural number
  below 2 to the 64, and where the code computes one unchecked the model uses \<open>uadd\<close>, \<open>umul\<close> and
  \<open>ushl1\<close> of Prelude, which give None when the result does not fit: a panic with overflow checks. A text
  is a list of Unicode scalar values. A slice or index that can panic is an option; where errors
  and panics both occur, the outcome of theory Outcome tells Ok, Err and Panic apart. Loops over a buffer are
  recursive functions with a proved measure; there is no fuel. Code outside the repository (zlib, base64,
  GB18030, the JSON parser, the file system, the environment) is an argument of the definitions that use it.

  Theories.

  \<^item> Prelude, Outcome, Rust_Text: checked arithmetic, slices, folds that stop, little- and big-endian
    numbers; outcomes; the operations of Rust strings (trim, split, lossy UTF-8 and UTF-16).
  \<^item> Qq_Hash (\<open>qq_hash.rs\<close>): encoder and decoder of the base 48 digest names, and that they are inverse.
  \<^item> Msg_Text, Proto, Td_Records, Elements, Msg_Parser (\<open>msg3_parser.rs\<close>): text helpers; varints and
    scanners; TD and TA records; fields and the summary of an element; \<open>parse_msgcontent\<close>. The
    lemmas show what is recognised (exactly the serializations), that written messages are read
    back, that elements are disjoint slices in order, and on which messages the parser panics.
  \<^item> Display, Display_Json, Display_Html, Display_Elements (\<open>msg3_parser.rs\<close>): the forms of a parsed message:
    plain text, structured JSON, HTML, and technical JSON. All of them descend into messages nested in
    payloads and behind index elements; the measure \<open>nesting\<close> of Display shows that this ends. Json_Text
    is the grammar of JSON as a relation between texts and values; Display_Facts and Display_Safety show that
    both JSON forms are values of it, that the HTML form is well nested and escapes what comes from the message,
    and that the display panics only where the parser does.
  \<^item> Mmp_Items, Mmp_Facts (\<open>msg3_parser.rs\<close>): forwarded chat records: the test whether a message can hold one, the
    stream of their messages, its bounded expansion, and where the nested items are put.
  \<^item> Txdata (\<open>txdata_codec.rs\<close>): the fields of a record, their masks and the texts guessed from them.
  \<^item> Cfb (\<open>cfb.rs\<close>): the reader of compound files, the listing of their streams and the extraction
    into a directory, over a file system that is a map from paths to nodes. Cfb_Contents proves
    both sector chains (FAT and mini FAT) instances of one locale of bounded pointer chasing and
    that stored streams are read back; Cfb_Streams that the listing is the in-order listing of the
    directory tree; Cfb_Extract what extraction writes and where.
  \<^item> Tea (\<open>info_storage.rs\<close>): the TEA block cipher, its chained decryption against a reference
    that works on blocks, and the readers of keys.
  \<^item> Entry_Cache (\<open>info_storage.rs\<close>): the cache of decrypted streams, refined to a list in order of use.
  \<^item> Info_Storage, Info_Facts (\<open>info_storage.rs\<close>): streams, entries, labels and profiles; that reading
    never panics, that the cache cannot be observed, and that batch and single lookups agree.

  \<^item> Credentials (\<open>credentials.rs\<close>), Capture_Events (\<open>capture.rs\<close>), Capture_Facts: the store of captured keys,
    one JSON record per line, the events of a capture log, their import, and the choice of a key for a database. The clock, the
    case mapping of Unicode and the JSON of a record are fields of \<open>cred_env\<close>; \<open>json_lines\<close> and \<open>lower_case\<close> of Capture_Facts
    state what is documented of them.
  \<^item> Rust_Float, Media_Types, Media_Images, Media_Pictures, Media_Iso, Media_Audio, Media_Matroska
    (\<open>media_info.rs\<close>): the floating-point operations of the program over exact rationals, the records
    and readers, and one parser per container format. Media_Probe: which parser a file gets, which
    windows of it are read, and the record of a probed file. The JSON writer and reader and the type
    guesser of the \<open>infer\<close> crate are the arguments \<open>to_json\<close>, \<open>from_json\<close> and \<open>infer\<close>. Media_Safety
    shows that no parser but the Matroska parser can panic, by one totality lemma per parser; Media_Facts
    that boxes are read back, what stands behind an MP3 probe, what the windows are, and three errors.
  \<^item> Rust_Order: three-way comparison, the partial order of floating-point numbers, the stable sort and the components of
    paths. Image_Vectors, Image_Manifest (\<open>image_index.rs\<close>): the sketches of embedding vectors, and the manifest of the
    image index: a table is the list of its rows, a statement a function on it, and the identifiers that SQLite allots
    (\<open>row_ids\<close>) and the time of a write are arguments. Image_Manifest_Facts takes the operations of the indexer as a step relation:
    in every reachable manifest the keys are unique, a written picture is found unchanged, a scan marks exactly what it
    did not meet, and the two maintenance loops, whose termination is proved with the definitions, are one pass over the rows
    and lose no embedding.
  \<^item> Image_Search (\<open>image_index.rs\<close>): the search for an indexed picture in five layers, each collected in a bounded
    buffer. Image_Rank has the laws of such buffers as locales (a bounded ranking; one that holds each key once), and
    Image_Search_Facts interprets them on the buffers of the code: what a search returns are the best matches of all its
    layers. It also shows two inputs on which the buffers go wrong: vectors of deleted pictures, and products that are not numbers.

  Not modelled: the command line front end of \<open>msg3_parser.rs\<close>; the worker pool, the directory walkers and the store of \<open>media_info.rs\<close>; and the
  parts that are I/O: the build pipeline of the image index (decoding of pictures, inference, threads, the schema of its store), the
  analytics over it, HTTP handlers, the instrumentation of processes, directory walks, reports and
  the command line tools.
\<close>

end
